(* ===== verification/Prelude.thy ===== *)
theory Prelude
  imports Main "HOL-Library.Char_ord" "HOL-Library.List_Lexorder" "HOL-Library.Product_Lexorder"
begin

text \<open>
  Shared vocabulary of the development.  Rust's \<open>Result\<close> is a sum with \<open>Inl\<close> for the error
  and \<open>rbind\<close> for the question-mark operator; \<open>u64\<close> counters are natural numbers whose
  checked, saturating and panicking arithmetic is written out; a redb table is an association
  list kept in key order, with the lookup laws stated once in the locale \<open>keyed_table\<close> and
  discharged for the list functions below.  A row is what decoding its stored bytes gives.
\<close>

named_theorems result_simps \<open>evaluation of results and of the question-mark operator\<close>
named_theorems table_simps \<open>lookups after an insertion or a removal\<close>
named_theorems arith_defs \<open>definitions of the u64 operations\<close>

section \<open>Results\<close>

type_synonym bytes = "char list"

definition rbind :: "'e + 'a \<Rightarrow> ('a \<Rightarrow> 'e + 'b) \<Rightarrow> 'e + 'b" where
  "rbind m f = (case m of Inl e \<Rightarrow> Inl e | Inr x \<Rightarrow> f x)"

definition map_err :: "('e \<Rightarrow> 'f) \<Rightarrow> 'e + 'a \<Rightarrow> 'f + 'a" where
  "map_err g m = (case m of Inl e \<Rightarrow> Inl (g e) | Inr x \<Rightarrow> Inr x)"

definition ok_or :: "'e \<Rightarrow> 'a option \<Rightarrow> 'e + 'a" where
  "ok_or e v = (case v of None \<Rightarrow> Inl e | Some x \<Rightarrow> Inr x)"

definition unwrap_or :: "'a \<Rightarrow> 'a option \<Rightarrow> 'a" where
  "unwrap_or d v = (case v of None \<Rightarrow> d | Some x \<Rightarrow> x)"

definition is_some_and :: "'a option \<Rightarrow> ('a \<Rightarrow> bool) \<Rightarrow> bool" where
  "is_some_and v p = (case v of None \<Rightarrow> False | Some x \<Rightarrow> p x)"

definition is_none_or :: "'a option \<Rightarrow> ('a \<Rightarrow> bool) \<Rightarrow> bool" where
  "is_none_or v p = (case v of None \<Rightarrow> True | Some x \<Rightarrow> p x)"

definition is_ok :: "'e + 'a \<Rightarrow> bool" where
  "is_ok m = (case m of Inl _ \<Rightarrow> False | Inr _ \<Rightarrow> True)"

fun find_map :: "('a \<Rightarrow> 'b option) \<Rightarrow> 'a list \<Rightarrow> 'b option" where
  "find_map f [] = None"
| "find_map f (x # xs) = (case f x of Some y \<Rightarrow> Some y | None \<Rightarrow> find_map f xs)"

lemma rbind_Inl [simp, result_simps]: "rbind (Inl e) f = Inl e"
  and rbind_Inr [simp, result_simps]: "rbind (Inr x) f = f x"
  by (simp_all add: rbind_def)

lemma rbind_eq_Inr [result_simps]: "rbind m f = Inr y \<longleftrightarrow> (\<exists>x. m = Inr x \<and> f x = Inr y)"
  by (cases m) simp_all

lemma rbind_eq_Inl [result_simps]:
  "rbind m f = Inl e \<longleftrightarrow> m = Inl e \<or> (\<exists>x. m = Inr x \<and> f x = Inl e)"
  by (cases m) simp_all

lemma rbind_InrE:
  assumes "rbind m f = Inr y"
  obtains x where "m = Inr x" and "f x = Inr y"
  using assms by (auto simp: rbind_eq_Inr)

lemma map_err_simps [simp, result_simps]:
  "map_err g (Inl e) = Inl (g e)" "map_err g (Inr x) = Inr x"
  by (simp_all add: map_err_def)

lemma map_err_eq_Inr [simp]: "map_err g m = Inr y \<longleftrightarrow> m = Inr y"
  by (cases m) simp_all

lemma ok_or_simps [simp, result_simps]: "ok_or e None = Inl e" "ok_or e (Some x) = Inr x"
  by (simp_all add: ok_or_def)

lemma ok_or_eq_Inr [simp]: "ok_or e v = Inr x \<longleftrightarrow> v = Some x"
  by (cases v) simp_all

lemma unwrap_or_simps [simp, result_simps]: "unwrap_or d None = d" "unwrap_or d (Some x) = x"
  by (simp_all add: unwrap_or_def)

lemma is_some_and_simps [simp]:
  "is_some_and None p = False" "is_some_and (Some x) p = p x"
  by (simp_all add: is_some_and_def)

lemma is_none_or_simps [simp]:
  "is_none_or None p = True" "is_none_or (Some x) p = p x"
  by (simp_all add: is_none_or_def)

lemma is_ok_simps [simp]: "is_ok (Inl e) = False" "is_ok (Inr x) = True"
  by (simp_all add: is_ok_def)

lemma is_ok_iff: "is_ok m \<longleftrightarrow> (\<exists>x. m = Inr x)"
  by (cases m) simp_all

section \<open>u64 arithmetic\<close>

definition u64_max :: nat where
  "u64_max = 18446744073709551615"

definition checked_add_u64 :: "nat \<Rightarrow> nat \<Rightarrow> nat option" where
  "checked_add_u64 a b = (if a + b \<le> u64_max then Some (a + b) else None)"

definition saturating_add_u64 :: "nat \<Rightarrow> nat \<Rightarrow> nat" where
  "saturating_add_u64 a b = min (a + b) u64_max"

definition saturating_sub_i64 :: "int \<Rightarrow> int \<Rightarrow> int" where
  "saturating_sub_i64 a b = max (- (2 ^ 63)) (min (2 ^ 63 - 1) (a - b))"

definition checked_sub_u64 :: "nat \<Rightarrow> nat \<Rightarrow> nat option" where
  "checked_sub_u64 a b = (if b \<le> a then Some (a - b) else None)"

text \<open>
  Evaluation compares against the bound in binary, so that a closed term with small counters
  evaluates without counting up to it.
\<close>

definition fits_u64 :: "nat \<Rightarrow> bool" where
  "fits_u64 n \<longleftrightarrow> n \<le> u64_max"

lemma fits_u64_code [code]: "fits_u64 n \<longleftrightarrow> int n \<le> 18446744073709551615"
  unfolding fits_u64_def u64_max_def by linarith

lemma checked_add_u64_code [code]: "checked_add_u64 a b = (if fits_u64 (a + b) then Some (a + b) else None)"
  by (simp add: checked_add_u64_def fits_u64_def)

lemma saturating_add_u64_code [code]: "saturating_add_u64 a b = (if fits_u64 (a + b) then a + b else u64_max)"
  by (simp add: saturating_add_u64_def fits_u64_def)

lemma checked_add_Some [arith_defs]:
  "checked_add_u64 a b = Some c \<longleftrightarrow> c = a + b \<and> a + b \<le> u64_max"
  by (auto simp: checked_add_u64_def)

lemma checked_add_None [arith_defs]: "checked_add_u64 a b = None \<longleftrightarrow> u64_max < a + b"
  by (simp add: checked_add_u64_def not_le)

lemma checked_sub_Some [arith_defs]:
  "checked_sub_u64 a b = Some c \<longleftrightarrow> b \<le> a \<and> c = a - b"
  by (auto simp: checked_sub_u64_def)

lemma saturating_add_eq_0 [simp]: "saturating_add_u64 a b = 0 \<longleftrightarrow> a = 0 \<and> b = 0"
  by (auto simp: saturating_add_u64_def u64_max_def min_def)

lemma saturating_add_exact: "a + b \<le> u64_max \<Longrightarrow> saturating_add_u64 a b = a + b"
  by (simp add: saturating_add_u64_def)

section \<open>Rows and tables\<close>

text \<open>
  The stores write a row with \<open>serde_json::to_vec\<close> and only ever look at its bytes through
  \<open>serde_json::from_slice\<close>: a row is therefore modelled by what decoding it yields, with
  \<open>Corrupt\<close> for bytes that do not decode.
\<close>

datatype 'r row = Row 'r | Corrupt

type_synonym ('k, 'v) tbl = "('k \<times> 'v) list"

definition t_get :: "('k, 'v) tbl \<Rightarrow> 'k \<Rightarrow> 'v option" where
  "t_get t k = map_of t k"

fun t_insert :: "('k::linorder, 'v) tbl \<Rightarrow> 'k \<Rightarrow> 'v \<Rightarrow> ('k, 'v) tbl" where
  "t_insert [] k v = [(k, v)]"
| "t_insert ((k', v') # t) k v =
     (if k < k' then (k, v) # (k', v') # t
      else if k = k' then (k, v) # t
      else (k', v') # t_insert t k v)"

definition t_remove :: "('k, 'v) tbl \<Rightarrow> 'k \<Rightarrow> ('k, 'v) tbl" where
  "t_remove t k = filter (\<lambda>p. fst p \<noteq> k) t"

definition t_keys :: "('k, 'v) tbl \<Rightarrow> 'k list" where
  "t_keys t = map fst t"

definition t_wf :: "('k::linorder, 'v) tbl \<Rightarrow> bool" where
  "t_wf t \<longleftrightarrow> sorted_wrt (<) (map fst t)"

text \<open>The laws every table user relies on, stated over any representation.\<close>

locale keyed_table =
  fixes empty_table :: "'t"
    and get :: "'t \<Rightarrow> 'k \<Rightarrow> 'v option"
    and insert_row :: "'t \<Rightarrow> 'k \<Rightarrow> 'v \<Rightarrow> 't"
    and remove_row :: "'t \<Rightarrow> 'k \<Rightarrow> 't"
    and ordered :: "'t \<Rightarrow> bool"
  assumes get_empty: "get empty_table k = None"
    and get_insert: "get (insert_row t k v) k' = (if k' = k then Some v else get t k')"
    and get_remove: "get (remove_row t k) k' = (if k' = k then None else get t k')"
    and ordered_empty: "ordered empty_table"
    and ordered_insert: "ordered t \<Longrightarrow> ordered (insert_row t k v)"
    and ordered_remove: "ordered t \<Longrightarrow> ordered (remove_row t k)"
begin

lemma get_insert_same: "get (insert_row t k v) k = Some v"
  by (simp add: get_insert)

lemma get_insert_other: "k' \<noteq> k \<Longrightarrow> get (insert_row t k v) k' = get t k'"
  by (simp add: get_insert)

lemma get_insert_twice: "get (insert_row (insert_row t k v) k w) = get (insert_row t k w)"
  by (simp add: fun_eq_iff get_insert)

lemma get_remove_insert: "get (remove_row (insert_row t k v) k) = get (remove_row t k)"
  by (simp add: fun_eq_iff get_insert get_remove)

lemma get_remove_absent: "get t k = None \<Longrightarrow> get (remove_row t k) = get t"
  by (auto simp: fun_eq_iff get_remove)

end

lemma t_get_Nil [simp, table_simps]: "t_get [] k = None"
  by (simp add: t_get_def)

lemma t_get_insert [simp, table_simps]:
  "t_get (t_insert t k v) k' = (if k' = k then Some v else t_get t k')"
  by (induction t k v rule: t_insert.induct) (auto simp: t_get_def)

lemma t_get_remove [simp, table_simps]:
  "t_get (t_remove t k) k' = (if k' = k then None else t_get t k')"
  by (induction t) (auto simp: t_get_def t_remove_def)

lemma t_insert_keys: "set (map fst (t_insert t k v)) = insert k (set (map fst t))"
  by (induction t k v rule: t_insert.induct) auto

lemma t_get_Cons: "t_get ((k, v) # t) k' = (if k' = k then Some v else t_get t k')"
  by (simp add: t_get_def)

lemma t_insert_last: "\<forall>e \<in> set t. fst e < k \<Longrightarrow> t_insert t k v = t @ [(k, v)]"
  by (induction t) auto

lemma t_wf_Nil [simp]: "t_wf []"
  by (simp add: t_wf_def)

lemma t_wf_insert [simp]: "t_wf t \<Longrightarrow> t_wf (t_insert t k v)"
proof (induction t k v rule: t_insert.induct)
  case (2 k' v' t k v)
  have "set (map fst (t_insert t k v)) = insert k (set (map fst t))"
    by (rule t_insert_keys)
  with 2 show ?case by (auto simp: t_wf_def dest: not_less_iff_gr_or_eq [THEN iffD1])
qed (simp add: t_wf_def)

lemma t_wf_remove [simp]: "t_wf t \<Longrightarrow> t_wf (t_remove t k)"
  by (induction t) (auto simp: t_wf_def t_remove_def)

interpretation sorted_table: keyed_table "[] :: ('k::linorder, 'v) tbl" t_get t_insert t_remove t_wf
  by unfold_locales simp_all

lemma t_wf_distinct: "t_wf t \<Longrightarrow> distinct (map fst t)"
  by (simp add: t_wf_def strict_sorted_iff)

lemma t_get_mem: "t_get t k = Some v \<Longrightarrow> (k, v) \<in> set t"
  by (simp add: t_get_def map_of_SomeD)

lemma t_get_iff: "t_wf t \<Longrightarrow> t_get t k = Some v \<longleftrightarrow> (k, v) \<in> set t"
  by (simp add: t_get_def t_wf_distinct)

lemma t_get_None: "t_get t k = None \<longleftrightarrow> k \<notin> fst ` set t"
  by (simp add: t_get_def map_of_eq_None_iff)

lemma t_wf_ext:
  assumes "t_wf t" "t_wf t'" "\<And>k. t_get t k = t_get t' k"
  shows "t = t'"
proof -
  have rebuild: "map (\<lambda>k. (k, the (t_get u k))) (map fst u) = u" if "t_wf u" for u :: "('a, 'b) tbl"
  proof -
    have "t_get u (fst p) = Some (snd p)" if "p \<in> set u" for p
      using that t_get_iff [OF \<open>t_wf u\<close>] by simp
    then show ?thesis by (auto intro!: map_idI)
  qed
  have "k \<in> fst ` set t \<longleftrightarrow> k \<in> fst ` set t'" for k
    using assms(3) [of k] t_get_None [of t k] t_get_None [of t' k] by simp
  then have "set (map fst t) = set (map fst t')" unfolding set_map by blast
  with assms(1,2) have "map fst t = map fst t'"
    by (auto simp: t_wf_def intro: strict_sorted_equal)
  with rebuild [OF assms(1)] rebuild [OF assms(2)] assms(3) show ?thesis by simp
qed

end
