(* ===== verification/Strs.thy ===== *)
theory Strs
  imports Prelude
begin

text \<open>
  The string operations of the Rust standard library that the sources use, on strings as lists
  of bytes: prefixes, splitting, decimal parsing and the fixed-width numerals that the stores put
  into row keys so that key order is numeric order.
\<close>

section \<open>Prefixes and splitting\<close>

definition starts_with :: "string \<Rightarrow> string \<Rightarrow> bool" where
  "starts_with s p \<longleftrightarrow> take (length p) s = p"

definition strip_prefix :: "string \<Rightarrow> string \<Rightarrow> string option" where
  "strip_prefix p s = (if starts_with s p then Some (drop (length p) s) else None)"

fun split_once :: "char \<Rightarrow> string \<Rightarrow> (string \<times> string) option" where
  "split_once c [] = None"
| "split_once c (x # xs) =
     (if x = c then Some ([], xs)
      else case split_once c xs of None \<Rightarrow> None | Some (a, b) \<Rightarrow> Some (x # a, b))"

fun split_on :: "char \<Rightarrow> string \<Rightarrow> string list" where
  "split_on c [] = [[]]"
| "split_on c (x # xs) =
     (if x = c then [] # split_on c xs
      else case split_on c xs of [] \<Rightarrow> [[x]] | p # ps \<Rightarrow> (x # p) # ps)"

lemma starts_with_iff: "starts_with s p \<longleftrightarrow> (\<exists>r. s = p @ r)"
proof
  assume "starts_with s p"
  then have "s = p @ drop (length p) s"
    unfolding starts_with_def by (metis append_take_drop_id)
  then show "\<exists>r. s = p @ r" ..
qed (auto simp: starts_with_def)

lemma starts_with_Nil [simp]: "starts_with s []"
  by (simp add: starts_with_def)

lemma starts_with_Cons [simp]:
  "starts_with (x # s) (y # p) \<longleftrightarrow> x = y \<and> starts_with s p"
  "\<not> starts_with [] (y # p)"
  by (auto simp: starts_with_def)

lemma starts_with_append [simp]: "starts_with (p @ r) p"
  by (simp add: starts_with_def)

lemma strip_prefix_Some: "strip_prefix p s = Some r \<longleftrightarrow> s = p @ r"
  by (auto simp: strip_prefix_def starts_with_iff)

lemma split_once_Some:
  "split_once c s = Some (a, b) \<longleftrightarrow> s = a @ c # b \<and> c \<notin> set a"
proof (induction s arbitrary: a)
  case (Cons x s)
  show ?case
  proof (cases "x = c")
    case True
    then show ?thesis by (cases a) auto
  next
    case False
    then have "split_once c (x # s) = Some (a, b) \<longleftrightarrow>
      (\<exists>a'. a = x # a' \<and> split_once c s = Some (a', b))"
      by (cases "split_once c s") auto
    with False Cons.IH show ?thesis by (cases a) auto
  qed
qed simp

lemma split_once_append: "c \<notin> set a \<Longrightarrow> split_once c (a @ c # b) = Some (a, b)"
  by (simp add: split_once_Some)

lemma split_on_nonempty: "split_on c s \<noteq> []"
  by (cases s) (simp_all split: list.splits)

lemma split_on_concat: "concat (map (\<lambda>p. c # p) (split_on c s)) = c # s"
  by (induction c s rule: split_on.induct) (auto split: list.splits simp: split_on_nonempty)

lemma split_on_clean: "p \<in> set (split_on c s) \<Longrightarrow> c \<notin> set p"
  by (induction c s arbitrary: p rule: split_on.induct)
    (auto split: list.splits if_splits)

fun join_on :: "char \<Rightarrow> string list \<Rightarrow> string" where
  "join_on c [] = []"
| "join_on c [p] = p"
| "join_on c (p # q # ps) = p @ c # join_on c (q # ps)"

lemma join_split: "join_on c (split_on c s) = s"
proof (induction s)
  case (Cons x s)
  show ?case
  proof (cases "split_on c s")
    case (Cons p ps)
    with Cons.IH show ?thesis by (cases ps) auto
  qed (simp add: split_on_nonempty)
qed simp

lemma split_on_append: "c \<notin> set p \<Longrightarrow> split_on c (p @ c # s) = p # split_on c s"
  by (induction p) auto

lemma split_on_free: "c \<notin> set p \<Longrightarrow> split_on c p = [p]"
  by (induction p) auto

lemma split_join:
  assumes "ps \<noteq> []" "\<forall>p \<in> set ps. c \<notin> set p"
  shows "split_on c (join_on c ps) = ps"
  using assms
  by (induction c ps rule: join_on.induct) (simp_all add: split_on_append split_on_free)

lemma join_on_inj:
  assumes "join_on c ps = join_on c qs" "ps \<noteq> []" "qs \<noteq> []" "\<forall>p \<in> set ps. c \<notin> set p" "\<forall>q \<in> set qs. c \<notin> set q"
  shows "ps = qs"
  using assms split_join by metis

lemma join_on_append: "ps \<noteq> [] \<Longrightarrow> qs \<noteq> [] \<Longrightarrow> join_on c (ps @ qs) = join_on c ps @ c # join_on c qs"
proof (induction c ps rule: join_on.induct)
  case (2 c p)
  then show ?case by (cases qs) simp_all
qed auto

lemma join_last: "ps \<noteq> [] \<Longrightarrow> last ps \<noteq> [] \<Longrightarrow> join_on c ps \<noteq> [] \<and> last (join_on c ps) = last (last ps)"
  by (induction c ps rule: join_on.induct) (auto split: if_splits)

section \<open>Ordered prefix scans\<close>

text \<open>
  A scan over \<open>table.range(prefix..)\<close> that stops at the first key without the prefix sees
  exactly the keys with the prefix: they are contiguous in key order.
\<close>

lemma str_le_Cons: "(x # xs :: string) \<le> y # ys \<longleftrightarrow> x < y \<or> x = y \<and> xs \<le> ys"
  by (auto simp: less_eq_list_code less_list_code)

lemma prefix_le: "starts_with s p \<Longrightarrow> (p :: string) \<le> s"
proof (induction p arbitrary: s)
  case (Cons x p)
  then show ?case by (cases s) (auto simp: str_le_Cons)
qed simp

lemma prefix_convex:
  assumes "starts_with k' p" "(p :: string) \<le> k" "k \<le> k'"
  shows "starts_with k p"
  using assms
proof (induction p arbitrary: k k')
  case (Cons x p)
  from Cons.prems(1) obtain r where k': "k' = x # p @ r"
    by (auto simp: starts_with_iff)
  with Cons.prems obtain c s where k: "k = c # s"
    by (cases k) auto
  have "c = x" "p \<le> s" "s \<le> p @ r"
    using Cons.prems by (auto simp: k k' str_le_Cons)
  with Cons.IH [of "p @ r" s] show ?case by (simp add: k)
qed simp

definition range_from :: "('k::linorder, 'v) tbl \<Rightarrow> 'k \<Rightarrow> ('k, 'v) tbl" where
  "range_from t k = filter (\<lambda>e. k \<le> fst e) t"

definition prefix_scan :: "(string, 'v) tbl \<Rightarrow> string \<Rightarrow> (string, 'v) tbl" where
  "prefix_scan t p = takeWhile (\<lambda>e. starts_with (fst e) p) (range_from t p)"

lemma takeWhile_eq_filter:
  assumes "sorted_wrt (\<lambda>a b. P b \<longrightarrow> P a) xs"
  shows "takeWhile P xs = filter P xs"
  using assms by (induction xs) (auto intro!: sym [OF filter_False])

lemma prefix_scan_eq: "t_wf t \<Longrightarrow> prefix_scan t p = filter (\<lambda>e. starts_with (fst e) p) t"
proof -
  assume wf: "t_wf t"
  have sorted: "sorted_wrt (\<lambda>a b. fst a < fst b) (range_from t p)"
    using wf by (simp add: t_wf_def range_from_def sorted_wrt_map sorted_wrt_filter)
  have "sorted_wrt (\<lambda>a b. starts_with (fst b) p \<longrightarrow> starts_with (fst a) p) (range_from t p)"
    by (rule sorted_wrt_mono_rel [OF _ sorted])
      (auto simp: range_from_def intro: prefix_convex)
  then have "prefix_scan t p = filter (\<lambda>e. starts_with (fst e) p) (range_from t p)"
    by (simp add: prefix_scan_def takeWhile_eq_filter)
  also have "\<dots> = filter (\<lambda>e. starts_with (fst e) p) t"
    by (auto simp: range_from_def filter_filter intro: filter_cong prefix_le)
  finally show ?thesis .
qed

section \<open>Fixed-width numerals\<close>

definition digit_char :: "nat \<Rightarrow> char" where
  "digit_char d = (''0123456789abcdef'' ! d)"

fun fixed_digits :: "nat \<Rightarrow> nat \<Rightarrow> nat \<Rightarrow> string" where
  "fixed_digits b 0 n = []"
| "fixed_digits b (Suc w) n = fixed_digits b w (n div b) @ [digit_char (n mod b)]"

definition hex16 :: "nat \<Rightarrow> string" where
  "hex16 n = fixed_digits 16 16 n"

definition dec20 :: "nat \<Rightarrow> string" where
  "dec20 n = fixed_digits 10 20 n"

lemma digit_char_mono: "d < e \<Longrightarrow> e < 16 \<Longrightarrow> digit_char d < digit_char e"
proof -
  assume "d < e" and e: "e < 16"
  have "sorted_wrt (<) ''0123456789abcdef''"
    by code_simp
  from sorted_wrt_nth_less [OF this \<open>d < e\<close>] e show ?thesis
    unfolding digit_char_def by simp
qed

lemma length_fixed_digits [simp]: "length (fixed_digits b w n) = w"
  by (induction b w n rule: fixed_digits.induct) simp_all

lemma str_less_snoc:
  "length xs = length ys \<Longrightarrow>
   (xs @ [a] < (ys @ [b] :: string)) \<longleftrightarrow> xs < ys \<or> xs = ys \<and> a < b"
  by (induction xs ys rule: list_induct2) (auto simp: less_list_code)

lemma fixed_digits_less:
  assumes "1 < b" "b \<le> 16" "m < n" "n < b ^ w"
  shows "fixed_digits b w m < fixed_digits b w n"
  using assms
proof (induction w arbitrary: m n)
  case (Suc w)
  have "n div b < b ^ w"
    using Suc.prems by (simp add: less_mult_imp_div_less mult.commute)
  have "m div b \<le> n div b"
    using Suc.prems by (simp add: div_le_mono)
  then consider "m div b < n div b" | "m div b = n div b" "m mod b < n mod b"
    using Suc.prems(3) by (metis le_neq_implies_less mod_mult_div_eq nat_add_left_cancel_less add.commute)
  then show ?case
  proof cases
    case 1
    with Suc \<open>n div b < b ^ w\<close> show ?thesis by (simp add: str_less_snoc)
  next
    case 2
    moreover have "n mod b < 16"
      using Suc.prems by (meson less_le_trans mod_less_divisor order_less_trans zero_less_one)
    ultimately show ?thesis by (simp add: str_less_snoc digit_char_mono)
  qed
qed simp

lemma fixed_digits_inj:
  assumes "1 < b" "b \<le> 16" "m < b ^ w" "n < b ^ w" "fixed_digits b w m = fixed_digits b w n"
  shows "m = n"
  using assms fixed_digits_less [of b m n w] fixed_digits_less [of b n m w]
  by (metis less_irrefl linorder_neqE_nat)

lemma fixed_digits_less_iff:
  assumes "1 < b" "b \<le> 16" "m < b ^ w" "n < b ^ w"
  shows "fixed_digits b w m < fixed_digits b w n \<longleftrightarrow> m < n"
  using assms fixed_digits_less [of b m n w] fixed_digits_less [of b n m w]
  by (metis less_irrefl linorder_neqE_nat order_less_trans)

lemma hex16_less_iff: "m \<le> u64_max \<Longrightarrow> n \<le> u64_max \<Longrightarrow> hex16 m < hex16 n \<longleftrightarrow> m < n"
  unfolding hex16_def by (rule fixed_digits_less_iff) (simp_all add: u64_max_def)

lemma hex16_inj: "m \<le> u64_max \<Longrightarrow> n \<le> u64_max \<Longrightarrow> hex16 m = hex16 n \<longleftrightarrow> m = n"
  using hex16_less_iff by (metis less_irrefl linorder_neqE_nat)

lemma dec20_less_iff: "m \<le> u64_max \<Longrightarrow> n \<le> u64_max \<Longrightarrow> dec20 m < dec20 n \<longleftrightarrow> m < n"
  unfolding dec20_def by (rule fixed_digits_less_iff) (simp_all add: u64_max_def)

lemma dec20_inj: "m \<le> u64_max \<Longrightarrow> n \<le> u64_max \<Longrightarrow> dec20 m = dec20 n \<longleftrightarrow> m = n"
  using dec20_less_iff by (metis less_irrefl linorder_neqE_nat)

lemma str_append_less_same:
  "length xs = length ys \<Longrightarrow>
   (xs @ us < (ys @ vs :: string)) \<longleftrightarrow> xs < ys \<or> xs = ys \<and> us < vs"
  by (induction xs ys rule: list_induct2) (auto simp: less_list_code)

section \<open>Decimal parsing\<close>

definition is_digit :: "char \<Rightarrow> bool" where
  "is_digit c \<longleftrightarrow> CHR ''0'' \<le> c \<and> c \<le> CHR ''9''"

definition is_ascii_hexdigit :: "char \<Rightarrow> bool" where
  "is_ascii_hexdigit c \<longleftrightarrow> c \<in> set ''0123456789abcdefABCDEF''"

definition digit_val :: "char \<Rightarrow> nat" where
  "digit_val c = of_char c - 48"

definition dec_value :: "string \<Rightarrow> nat" where
  "dec_value s = foldl (\<lambda>n c. 10 * n + digit_val c) 0 s"

text \<open>\<open>u64::from_str\<close>: an optional plus sign, then at least one digit, no overflow.\<close>

definition parse_u64 :: "string \<Rightarrow> nat option" where
  "parse_u64 s =
     (let ds = (case s of c # cs \<Rightarrow> if c = CHR ''+'' then cs else s | [] \<Rightarrow> s)
      in if ds = [] \<or> \<not> list_all is_digit ds then None
         else if dec_value ds \<le> u64_max then Some (dec_value ds) else None)"

lemma digit_char_dec: "d < 10 \<Longrightarrow> is_digit (digit_char d) \<and> digit_val (digit_char d) = d"
proof -
  assume "d < 10"
  then have "d \<in> {0, 1, 2, 3, 4, 5, 6, 7, 8, 9::nat}" by auto
  then show ?thesis
    by (elim insertE emptyE)
      (simp_all add: digit_char_def is_digit_def digit_val_def less_eq_char_def)
qed

lemma fixed_digits_dec: "list_all is_digit (fixed_digits 10 w n)"
  by (induction w arbitrary: n) (simp_all add: digit_char_dec)

lemma dec_value_fixed_digits: "n < 10 ^ w \<Longrightarrow> dec_value (fixed_digits 10 w n) = n"
proof (induction w arbitrary: n)
  case (Suc w)
  have "n div 10 < 10 ^ w"
    using Suc.prems by simp
  with Suc.IH [of "n div 10"] show ?case
    by (simp add: dec_value_def digit_char_dec)
qed (simp add: dec_value_def)

lemma not_digit_plus: "\<not> is_digit CHR ''+''"
  by (simp add: is_digit_def less_eq_char_def)

lemma parse_u64_digits:
  assumes "list_all is_digit ds" "ds \<noteq> []" "dec_value ds \<le> u64_max"
  shows "parse_u64 ds = Some (dec_value ds)"
  using assms not_digit_plus by (cases ds) (auto simp: parse_u64_def)

lemma parse_u64_dec20: "n \<le> u64_max \<Longrightarrow> parse_u64 (dec20 n) = Some n"
proof -
  assume n: "n \<le> u64_max"
  then have "dec_value (dec20 n) = n"
    unfolding dec20_def by (intro dec_value_fixed_digits) (simp add: u64_max_def)
  moreover have "list_all is_digit (dec20 n)" "dec20 n \<noteq> []"
    unfolding dec20_def by (rule fixed_digits_dec) (metis length_fixed_digits list.size(3) zero_neq_numeral)
  ultimately show ?thesis
    using n parse_u64_digits [of "dec20 n"] by simp
qed

lemma parse_u64_bound: "parse_u64 s = Some n \<Longrightarrow> n \<le> u64_max"
  by (auto simp: parse_u64_def Let_def split: if_splits list.splits)

section \<open>Trimming, case and substrings\<close>

definition ascii_lower :: "char \<Rightarrow> char" where
  "ascii_lower c =
     (if CHR ''A'' \<le> c \<and> c \<le> CHR ''Z'' then char_of (of_char c + 32 :: nat) else c)"

definition eq_ignore_ascii_case :: "string \<Rightarrow> string \<Rightarrow> bool" where
  "eq_ignore_ascii_case a b \<longleftrightarrow> map ascii_lower a = map ascii_lower b"

definition ascii_space :: "char \<Rightarrow> bool" where
  "ascii_space c \<longleftrightarrow> c = CHR '' '' \<or> (CHR 0x09 \<le> c \<and> c \<le> CHR 0x0D)"

definition trim :: "string \<Rightarrow> string" where
  "trim s = rev (dropWhile ascii_space (rev (dropWhile ascii_space s)))"

definition trim_start_slash :: "string \<Rightarrow> string" where
  "trim_start_slash = dropWhile (\<lambda>c. c = CHR ''/'')"

definition ends_with :: "string \<Rightarrow> string \<Rightarrow> bool" where
  "ends_with s p \<longleftrightarrow> starts_with (rev s) (rev p)"

fun contains_str :: "string \<Rightarrow> string \<Rightarrow> bool" where
  "contains_str [] p \<longleftrightarrow> p = []"
| "contains_str (c # s) p \<longleftrightarrow> starts_with (c # s) p \<or> contains_str s p"

end
