(* ===== verification/Roles.thy ===== *)
theory Roles
  imports Strs
begin

text \<open>
  Role-based access control, \<open>crates/peryx-identity/src/roles.rs\<close>: the fixed roles, the scopes
  they carry, the reach of a grant and the deny-by-default decision over a user's grants.
\<close>

section \<open>Roles, scopes, reaches\<close>

datatype role = Administrator | RepositoryPublisher | RepositoryReader | Operator

datatype scope = RepositoryRead | RepositoryWrite | RepositoryDelete | OperatorRead

text \<open>\<open>GrantScope\<close> and \<open>Resource\<close> share constructor names in the source.\<close>

datatype grant_scope = ServerReach | RepositoryReach (reach_name: string)

datatype resource = RepositoryRes string | OperatorRes

type_synonym user_id = string

record role_grant =
  rg_user :: user_id
  rg_role :: role
  rg_scope :: grant_scope

definition role_all :: "role list" where
  "role_all = [Administrator, RepositoryPublisher, RepositoryReader, Operator]"

fun role_as_str :: "role \<Rightarrow> string" where
  "role_as_str Administrator = ''administrator''"
| "role_as_str RepositoryPublisher = ''repository_publisher''"
| "role_as_str RepositoryReader = ''repository_reader''"
| "role_as_str Operator = ''operator''"

fun role_scopes :: "role \<Rightarrow> scope list" where
  "role_scopes Administrator = [RepositoryRead, RepositoryWrite, RepositoryDelete, OperatorRead]"
| "role_scopes RepositoryPublisher = [RepositoryRead, RepositoryWrite, RepositoryDelete]"
| "role_scopes RepositoryReader = [RepositoryRead]"
| "role_scopes Operator = [OperatorRead]"

definition carries :: "role \<Rightarrow> scope \<Rightarrow> bool" where
  "carries r s \<longleftrightarrow> s \<in> set (role_scopes r)"

fun scope_as_str :: "scope \<Rightarrow> string" where
  "scope_as_str RepositoryRead = ''repository:read''"
| "scope_as_str RepositoryWrite = ''repository:write''"
| "scope_as_str RepositoryDelete = ''repository:delete''"
| "scope_as_str OperatorRead = ''operator:read''"

fun covers :: "grant_scope \<Rightarrow> resource \<Rightarrow> bool" where
  "covers ServerReach _ = True"
| "covers (RepositoryReach name) (RepositoryRes target) = (name = target)"
| "covers (RepositoryReach name) OperatorRes = False"

fun resource_fields :: "resource \<Rightarrow> string \<times> string" where
  "resource_fields (RepositoryRes name) = (''repository'', name)"
| "resource_fields OperatorRes = (''operator'', '''')"

definition permits :: "role_grant \<Rightarrow> scope \<Rightarrow> resource \<Rightarrow> bool" where
  "permits g s res \<longleftrightarrow> carries (rg_role g) s \<and> covers (rg_scope g) res"

definition grants_permit :: "role_grant list \<Rightarrow> scope \<Rightarrow> resource \<Rightarrow> bool" where
  "grants_permit gs s res \<longleftrightarrow> list_ex (\<lambda>g. permits g s res) gs"

section \<open>The decision is deny-by-default and monotone\<close>

lemma grants_permit_Nil [simp]: "\<not> grants_permit [] s res"
  by (simp add: grants_permit_def)

lemma grants_permit_iff:
  "grants_permit gs s res \<longleftrightarrow> (\<exists>g \<in> set gs. permits g s res)"
  by (simp add: grants_permit_def list_ex_iff)

lemma grants_permit_mono:
  "set gs \<subseteq> set hs \<Longrightarrow> grants_permit gs s res \<Longrightarrow> grants_permit hs s res"
  by (auto simp: grants_permit_iff)

lemma role_as_str_inj: "role_as_str a = role_as_str b \<Longrightarrow> a = b"
  by (cases a; cases b) simp_all

lemma role_as_str_no_slash: "CHR ''/'' \<notin> set (role_as_str r)"
  by (cases r) simp_all

lemma carries_operator: "carries r OperatorRead \<longleftrightarrow> r = Administrator \<or> r = Operator"
  by (cases r) (simp_all add: carries_def)

lemma covers_operator: "covers sc OperatorRes \<longleftrightarrow> sc = ServerReach"
  by (cases sc) simp_all

lemma operator_read_iff:
  "grants_permit gs OperatorRead OperatorRes \<longleftrightarrow>
   (\<exists>g \<in> set gs. rg_scope g = ServerReach \<and> (rg_role g = Administrator \<or> rg_role g = Operator))"
  by (auto simp: grants_permit_iff permits_def carries_operator covers_operator)

end
