(* ===== verification/Acl.thy ===== *)
theory Acl
  imports Strs
begin

unbundle bit_operations_syntax

text \<open>
  The per-index access model, \<open>crates/peryx-identity/src/acl.rs\<close> and the credential helpers of
  \<open>crates/peryx-identity/src/lib.rs\<close>: project globs and their two matchers, grants, tokens, the
  identification of a request and the access decisions.
\<close>

section \<open>Data\<close>

datatype principal = Anonymous | Named (subject: string)

datatype action = Read | Write | Delete

datatype denial = Unavailable | Unauthenticated | Forbidden

type_synonym glob = string

record grant =
  projects :: "glob list"
  actions :: "action list"

record named_token =
  token_name :: string
  secret :: string
  grants :: "grant list"
  expires_at :: "int option"

record index_acl =
  anonymous_read :: bool
  tokens :: "named_token list"

record basic_credentials =
  bc_user :: string
  bc_password :: string

record identity =
  id_principal :: principal
  id_user :: "string option"

section \<open>Glob matching\<close>

abbreviation star :: char where
  "star \<equiv> CHR ''*''"

text \<open>
  The backtracking walk of \<open>Glob::matches\<close>, one call per loop iteration: \<open>at\<close> is the position
  in the pattern, \<open>cur\<close> in the project, \<open>st\<close> the last star with the cursor to resume from.
\<close>

definition pat_at :: "string \<Rightarrow> nat \<Rightarrow> char option" where
  "pat_at p i = (if i < length p then Some (p ! i) else None)"

function matches_loop :: "string \<Rightarrow> string \<Rightarrow> nat \<Rightarrow> nat \<Rightarrow> nat option \<Rightarrow> nat \<Rightarrow> bool" where
  "matches_loop p s at cur st resume =
     (if cur < length s then
        (if pat_at p at = Some star then matches_loop p s (Suc at) cur (Some at) cur
         else if pat_at p at = Some (s ! cur) then matches_loop p s (Suc at) (Suc cur) st resume
         else (case st of
                 Some pos \<Rightarrow> matches_loop p s (Suc pos) (Suc resume) st (Suc resume)
               | None \<Rightarrow> False))
      else list_all (\<lambda>c. c = star) (drop at p))"
  by pat_completeness auto

termination
  by (relation "measures
       [\<lambda>(p, s, at, cur, st, resume).
          (case st of None \<Rightarrow> 0 | Some pos \<Rightarrow> if pos < at \<and> resume \<le> cur then 0 else 1),
        \<lambda>(p, s, at, cur, st, resume).
          (case st of None \<Rightarrow> Suc (length p) | Some pos \<Rightarrow> length p - pos),
        \<lambda>(p, s, at, cur, st, resume). length s - resume,
        \<lambda>(p, s, at, cur, st, resume). length s - cur]")
    (auto simp: pat_at_def split: option.splits if_splits)

declare matches_loop.simps [simp del]

definition glob_matches :: "glob \<Rightarrow> string \<Rightarrow> bool" where
  "glob_matches g s = matches_loop g s 0 0 None 0"

text \<open>What a pattern means: a star stands for any run of characters.\<close>

inductive glob_spec :: "string \<Rightarrow> string \<Rightarrow> bool" where
  glob_nil: "glob_spec [] []"
| glob_char: "glob_spec p s \<Longrightarrow> c \<noteq> star \<Longrightarrow> glob_spec (c # p) (c # s)"
| glob_skip: "glob_spec p s \<Longrightarrow> glob_spec (star # p) s"
| glob_eat: "glob_spec (star # p) s \<Longrightarrow> glob_spec (star # p) (x # s)"

inductive_cases glob_nilE: "glob_spec [] s"
inductive_cases glob_ConsE: "glob_spec (c # p) s"

lemma glob_spec_Nil [simp]: "glob_spec [] s \<longleftrightarrow> s = []"
  by (auto elim: glob_nilE intro: glob_spec.intros)

lemma glob_spec_char:
  "c \<noteq> star \<Longrightarrow> glob_spec (c # p) s \<longleftrightarrow> (\<exists>r. s = c # r \<and> glob_spec p r)"
  by (auto elim: glob_ConsE intro: glob_spec.intros)

lemma glob_eat_many: "glob_spec (star # p) s \<Longrightarrow> glob_spec (star # p) (u @ s)"
  by (induction u) (auto intro: glob_eat)

lemma glob_spec_star_split:
  "glob_spec q s \<Longrightarrow> q = star # p \<Longrightarrow> \<exists>u r. s = u @ r \<and> glob_spec p r"
proof (induction arbitrary: p rule: glob_spec.induct)
  case (glob_skip q s)
  then show ?case by (auto intro: exI [of _ "[]"])
next
  case (glob_eat q s x)
  then obtain u r where "s = u @ r" "glob_spec p r" by blast
  then show ?case by (auto intro: exI [of _ "x # u"])
qed simp_all

lemma glob_spec_star:
  "glob_spec (star # p) s \<longleftrightarrow> (\<exists>k \<le> length s. glob_spec p (drop k s))"
proof
  assume "glob_spec (star # p) s"
  then obtain u r where "s = u @ r" "glob_spec p r"
    using glob_spec_star_split by blast
  then show "\<exists>k \<le> length s. glob_spec p (drop k s)"
    by (auto intro!: exI [of _ "length u"])
next
  assume "\<exists>k \<le> length s. glob_spec p (drop k s)"
  then obtain k where "glob_spec p (drop k s)" by blast
  then have "glob_spec (star # p) (take k s @ drop k s)"
    by (intro glob_eat_many glob_skip)
  then show "glob_spec (star # p) s" by simp
qed

lemma glob_spec_empty: "glob_spec p [] \<longleftrightarrow> list_all (\<lambda>c. c = star) p"
proof (induction p)
  case (Cons c p)
  then show ?case by (cases "c = star") (auto simp: glob_spec_star glob_spec_char)
qed simp

lemma glob_spec_everything: "glob_spec ''*'' s"
  by (auto simp: glob_spec_star intro: exI [of _ "length s"])

subsection \<open>The backtracking walk decides the meaning\<close>

text \<open>
  Between the last star and the current position the pattern has no star and equals the text
  from the resume point to the cursor.
\<close>

definition walk_inv :: "string \<Rightarrow> string \<Rightarrow> nat \<Rightarrow> nat \<Rightarrow> nat option \<Rightarrow> nat \<Rightarrow> bool" where
  "walk_inv p s at cur st resume \<longleftrightarrow>
     at \<le> length p \<and> cur \<le> length s \<and>
     (case st of None \<Rightarrow> True
      | Some pos \<Rightarrow>
          (\<exists>lit. drop pos p = star # lit @ drop at p \<and> star \<notin> set lit \<and>
                 drop resume s = lit @ drop cur s \<and> at = Suc pos + length lit \<and>
                 cur = resume + length lit))"

definition walk_alternative :: "string \<Rightarrow> string \<Rightarrow> nat option \<Rightarrow> nat \<Rightarrow> bool" where
  "walk_alternative p s st resume \<longleftrightarrow>
     (\<exists>pos j. st = Some pos \<and> resume < j \<and> j \<le> length s \<and> glob_spec (drop (Suc pos) p) (drop j s))"

lemma glob_spec_literal:
  "star \<notin> set lit \<Longrightarrow> glob_spec (lit @ p) s \<longleftrightarrow> (\<exists>r. s = lit @ r \<and> glob_spec p r)"
  by (induction lit arbitrary: s) (auto simp: glob_spec_char)

lemma walk_alternative_suffix:
  assumes "walk_inv p s at cur st resume" "walk_alternative p s st resume"
  shows "\<exists>j. cur < j \<and> j \<le> length s \<and> glob_spec (drop at p) (drop j s)"
proof -
  from assms(2) obtain pos j where st: "st = Some pos" and j: "resume < j" "j \<le> length s"
    and g: "glob_spec (drop (Suc pos) p) (drop j s)"
    by (auto simp: walk_alternative_def)
  from assms(1) st obtain lit where lit: "drop pos p = star # lit @ drop at p" "star \<notin> set lit"
    "cur = resume + length lit"
    by (auto simp: walk_inv_def)
  have "drop (Suc pos) p = lit @ drop at p"
    using lit(1) by (metis drop_Suc drop_tl list.sel(3))
  with g lit(2) obtain r where r: "drop j s = lit @ r" "glob_spec (drop at p) r"
    by (auto simp: glob_spec_literal)
  have "r = drop (j + length lit) s"
    using arg_cong [OF r(1), of "drop (length lit)"] by (simp add: add.commute)
  moreover have "length lit \<le> length s - j"
    using arg_cong [OF r(1), of length] by simp
  ultimately show ?thesis
    using r(2) j lit(3) by (intro exI [of _ "j + length lit"]) auto
qed

lemma drop_nth_Cons: "i < length xs \<Longrightarrow> drop i xs = xs ! i # drop (Suc i) xs"
  by (simp add: Cons_nth_drop_Suc)

lemma walk_inv_star:
  assumes "pat_at p at = Some star" "walk_inv p s at cur st resume"
  shows "walk_inv p s (Suc at) cur (Some at) cur"
  using assms by (auto simp: walk_inv_def pat_at_def drop_nth_Cons split: if_splits)

lemma walk_inv_step:
  assumes "pat_at p at = Some (s ! cur)" "s ! cur \<noteq> star" "cur < length s"
    "walk_inv p s at cur st resume"
  shows "walk_inv p s (Suc at) (Suc cur) st resume"
proof (cases st)
  case None
  with assms show ?thesis by (auto simp: walk_inv_def pat_at_def split: if_splits)
next
  case (Some pos)
  with assms(4) obtain lit where lit: "drop pos p = star # lit @ drop at p" "star \<notin> set lit"
    "drop resume s = lit @ drop cur s" "at = Suc pos + length lit" "cur = resume + length lit"
    by (auto simp: walk_inv_def)
  from assms(1) have "drop at p = s ! cur # drop (Suc at) p" "at < length p"
    by (auto simp: pat_at_def drop_nth_Cons split: if_splits)
  with assms(2,3) lit Some show ?thesis
    by (auto simp: walk_inv_def Cons_nth_drop_Suc intro!: exI [of _ "lit @ [s ! cur]"])
qed

lemma walk_inv_backtrack:
  assumes "walk_inv p s at cur (Some pos) resume" "cur < length s"
  shows "walk_inv p s (Suc pos) (Suc resume) (Some pos) (Suc resume)"
proof -
  from assms(1) obtain lit where lit: "drop pos p = star # lit @ drop at p"
    "cur = resume + length lit"
    by (auto simp: walk_inv_def)
  from lit(1) have "pos < length p" by (metis drop_all list.discI not_le)
  moreover from lit(1) have "drop (Suc pos) p = lit @ drop at p"
    by (metis drop_Suc drop_tl list.sel(3))
  ultimately show ?thesis
    using lit assms(2) by (auto simp: walk_inv_def)
qed

lemma pat_at_drop: "pat_at p at = Some c \<Longrightarrow> drop at p = c # drop (Suc at) p"
  by (auto simp: pat_at_def drop_nth_Cons split: if_splits)

lemma glob_star_ahead:
  assumes "pat_at p at = Some star" "cur \<le> length s"
  shows "glob_spec (drop at p) (drop cur s) \<longleftrightarrow>
         (\<exists>j. cur \<le> j \<and> j \<le> length s \<and> glob_spec (drop (Suc at) p) (drop j s))"
proof
  assume "glob_spec (drop at p) (drop cur s)"
  then obtain k where "k \<le> length s - cur" "glob_spec (drop (Suc at) p) (drop (k + cur) s)"
    by (auto simp: pat_at_drop [OF assms(1)] glob_spec_star)
  then show "\<exists>j. cur \<le> j \<and> j \<le> length s \<and> glob_spec (drop (Suc at) p) (drop j s)"
    using assms(2) by (intro exI [of _ "k + cur"]) auto
next
  assume "\<exists>j. cur \<le> j \<and> j \<le> length s \<and> glob_spec (drop (Suc at) p) (drop j s)"
  then obtain j where "cur \<le> j" "j \<le> length s" "glob_spec (drop (Suc at) p) (drop j s)"
    by blast
  then show "glob_spec (drop at p) (drop cur s)"
    by (auto simp: pat_at_drop [OF assms(1)] glob_spec_star intro!: exI [of _ "j - cur"])
qed

lemma walk_alternative_absorbed:
  assumes "walk_inv p s at cur st resume" "pat_at p at = Some star" "walk_alternative p s st resume"
  shows "glob_spec (drop at p) (drop cur s)"
proof -
  from walk_alternative_suffix [OF assms(1,3)] obtain j where
    j: "cur < j" "j \<le> length s" "glob_spec (drop at p) (drop j s)" by blast
  have "drop cur s = take (j - cur) (drop cur s) @ drop j s"
    using j by (metis append_take_drop_id drop_drop le_add_diff_inverse2 less_imp_le_nat)
  with j(3) show ?thesis
    unfolding pat_at_drop [OF assms(2)] by (metis glob_eat_many)
qed

lemma walk_alternative_unfold:
  assumes "walk_inv p s at cur (Some pos) resume" "cur < length s"
  shows "walk_alternative p s (Some pos) resume \<longleftrightarrow>
         glob_spec (drop (Suc pos) p) (drop (Suc resume) s) \<or>
         walk_alternative p s (Some pos) (Suc resume)"
  using assms by (auto simp: walk_alternative_def walk_inv_def Suc_le_eq
      dest: Suc_lessI less_imp_le_nat intro: Suc_lessD)

lemma glob_spec_mismatch:
  assumes "pat_at p at \<noteq> Some star" "pat_at p at \<noteq> Some (s ! cur)" "cur < length s"
  shows "\<not> glob_spec (drop at p) (drop cur s)"
proof (cases "at < length p")
  case True
  with assms show ?thesis
    by (auto simp: drop_nth_Cons pat_at_def glob_spec_char split: if_splits)
qed (use assms in simp)

lemma matches_loop_correct:
  "walk_inv p s at cur st resume \<Longrightarrow>
   matches_loop p s at cur st resume \<longleftrightarrow>
     glob_spec (drop at p) (drop cur s) \<or> walk_alternative p s st resume"
proof (induction p s at cur st resume rule: matches_loop.induct)
  case (1 p s at cur st resume)
  note inv = "1.prems" and unfold = matches_loop.simps [of p s at cur st resume]
  have le: "cur \<le> length s" using inv by (simp add: walk_inv_def)
  consider (fin) "\<not> cur < length s" | (wild) "cur < length s" "pat_at p at = Some star"
    | (lit) "cur < length s" "pat_at p at = Some (s ! cur)" "s ! cur \<noteq> star"
    | (mis) "cur < length s" "pat_at p at \<noteq> Some star" "pat_at p at \<noteq> Some (s ! cur)"
    by fastforce
  then show ?case
  proof cases
    case fin
    then have "\<not> walk_alternative p s st resume"
      using walk_alternative_suffix [OF inv] by auto
    with fin show ?thesis by (simp add: unfold glob_spec_empty)
  next
    case wild
    have "matches_loop p s at cur st resume \<longleftrightarrow>
      glob_spec (drop (Suc at) p) (drop cur s) \<or> walk_alternative p s (Some at) cur"
      using wild "1.IH"(1) walk_inv_star [OF wild(2) inv] by (simp add: unfold)
    also have "\<dots> \<longleftrightarrow> glob_spec (drop at p) (drop cur s)"
      using wild(1) by (auto simp: glob_star_ahead [OF wild(2) le] walk_alternative_def le_less)
    finally show ?thesis using walk_alternative_absorbed [OF inv wild(2)] by blast
  next
    case lit
    then show ?thesis
      using "1.IH"(2) walk_inv_step [OF lit(2,3,1) inv]
      by (simp add: unfold pat_at_drop [OF lit(2)] drop_nth_Cons [of cur s] glob_spec_char)
  next
    case mis
    show ?thesis
    proof (cases st)
      case None
      with mis unfold show ?thesis
        by (simp add: glob_spec_mismatch walk_alternative_def)
    next
      case (Some pos)
      with mis inv show ?thesis
        using "1.IH"(3) [OF mis Some] walk_inv_backtrack [of p s at cur pos resume]
          walk_alternative_unfold [of p s at cur pos resume]
          unfold
        by (simp add: glob_spec_mismatch)
    qed
  qed
qed

lemma glob_matches_iff: "glob_matches g s \<longleftrightarrow> glob_spec g s"
  unfolding glob_matches_def
  by (subst matches_loop_correct) (simp_all add: walk_inv_def walk_alternative_def)

subsection \<open>Prefix consumption\<close>

text \<open>
  \<open>Glob::remainders_after\<close>: the set of pattern positions that can be reached after a prefix,
  as a vector of flags with one more entry than the pattern.  \<open>close_stars\<close> is the forward pass
  that lets a star match nothing.
\<close>

fun close_stars :: "string \<Rightarrow> bool list \<Rightarrow> bool list" where
  "close_stars (c # p) (r # r' # rs) = r # close_stars p ((r' \<or> (r \<and> c = star)) # rs)"
| "close_stars p rs = rs"

definition glob_start :: "glob \<Rightarrow> bool list" where
  "glob_start g = close_stars g (True # replicate (length g) False)"

definition glob_next :: "glob \<Rightarrow> char \<Rightarrow> bool list \<Rightarrow> bool list" where
  "glob_next g b r =
     close_stars g
       (map (\<lambda>i. (i < length g \<and> r ! i \<and> g ! i = star) \<or>
                 (0 < i \<and> r ! (i - 1) \<and> g ! (i - 1) \<noteq> star \<and> g ! (i - 1) = b))
          [0..<Suc (length g)])"

definition glob_reachable :: "glob \<Rightarrow> string \<Rightarrow> bool list" where
  "glob_reachable g pre = foldl (\<lambda>r b. glob_next g b r) (glob_start g) pre"

definition remainders_after :: "glob \<Rightarrow> string \<Rightarrow> glob list" where
  "remainders_after g pre =
     (let r = glob_reachable g pre
      in map (\<lambda>i. drop i g) (filter (\<lambda>i. r ! i) [0..<Suc (length g)]))"

definition matches_prefix :: "glob \<Rightarrow> string \<Rightarrow> bool" where
  "matches_prefix g pre \<longleftrightarrow> remainders_after g pre \<noteq> []"

lemma length_close_stars [simp]: "length (close_stars p rs) = length rs"
  by (induction p rs rule: close_stars.induct) simp_all

lemma length_glob_reachable [simp]: "length (glob_reachable g pre) = Suc (length g)"
  by (induction pre rule: rev_induct) (simp_all add: glob_reachable_def glob_start_def glob_next_def)

text \<open>Closing under stars neither loses nor adds matches, and leaves a closed vector.\<close>

definition live :: "glob \<Rightarrow> bool list \<Rightarrow> string \<Rightarrow> bool" where
  "live g r rest \<longleftrightarrow> (\<exists>i < length r. r ! i \<and> glob_spec (drop i g) rest)"

definition star_closed :: "glob \<Rightarrow> bool list \<Rightarrow> bool" where
  "star_closed g r \<longleftrightarrow> (\<forall>i < length g. r ! i \<longrightarrow> g ! i = star \<longrightarrow> r ! Suc i)"

lemma live_Cons:
  "live (c # g) (r # rs) rest \<longleftrightarrow> r \<and> glob_spec (c # g) rest \<or> live g rs rest"
  unfolding live_def by (auto simp: less_Suc_eq_0_disj)

lemma live_Nil [simp]: "\<not> live g [] rest"
  by (simp add: live_def)

lemma close_stars_live: "live g (close_stars g rs) rest \<longleftrightarrow> live g rs rest"
proof (induction g rs rule: close_stars.induct)
  case (1 c p r r' rs)
  have "live p ((r' \<or> (r \<and> c = star)) # rs) rest \<longleftrightarrow>
        live p (r' # rs) rest \<or> (r \<and> c = star \<and> glob_spec p rest)"
    unfolding live_def by (auto simp: less_Suc_eq_0_disj)
  with 1 show ?case by (auto simp: live_Cons intro: glob_skip)
qed simp_all

lemma close_stars_hd: "rs \<noteq> [] \<Longrightarrow> close_stars g rs ! 0 = rs ! 0"
  by (induction g rs rule: close_stars.induct) simp_all

lemma close_stars_closed: "length rs = Suc (length g) \<Longrightarrow> star_closed g (close_stars g rs)"
proof (induction g rs rule: close_stars.induct)
  case (1 c p r r' rs)
  then have "star_closed p (close_stars p ((r' \<or> (r \<and> c = star)) # rs))" by simp
  then show ?case
    by (auto simp: star_closed_def less_Suc_eq_0_disj close_stars_hd)
qed (auto simp: star_closed_def)

lemma glob_reachable_closed: "star_closed g (glob_reachable g pre)"
  by (induction pre rule: rev_induct)
    (simp_all add: glob_reachable_def glob_start_def glob_next_def close_stars_closed)

lemma live_start: "live g (glob_start g) rest \<longleftrightarrow> glob_spec g rest"
proof -
  have "live g (True # replicate (length g) False) rest \<longleftrightarrow> glob_spec g rest"
    unfolding live_def by (auto simp: nth_Cons' split: if_splits)
  then show ?thesis by (simp add: glob_start_def close_stars_live)
qed

lemma live_step_position:
  assumes "star_closed g r" "length r = Suc (length g)" "i \<le> length g" "r ! i"
    "glob_spec (drop i g) (b # rest)"
  shows "\<exists>j \<le> length g. ((j < length g \<and> r ! j \<and> g ! j = star) \<or>
           (0 < j \<and> r ! (j - 1) \<and> g ! (j - 1) \<noteq> star \<and> g ! (j - 1) = b)) \<and>
           glob_spec (drop j g) rest"
  using assms(3-5)
proof (induction "length g - i" arbitrary: i)
  case 0
  then show ?case by simp
next
  case (Suc d)
  then have i: "i < length g" and drop: "drop i g = g ! i # drop (Suc i) g"
    by (simp_all add: Cons_nth_drop_Suc)
  show ?case
  proof (cases "g ! i = star")
    case False
    with Suc.prems drop have "g ! i = b" "glob_spec (drop (Suc i) g) rest"
      by (auto simp: glob_spec_char)
    with False i Suc.prems show ?thesis by (intro exI [of _ "Suc i"]) auto
  next
    case True
    with Suc.prems(3) drop consider "glob_spec (drop (Suc i) g) (b # rest)" | "glob_spec (drop i g) rest"
      by (auto elim: glob_ConsE)
    then show ?thesis
    proof cases
      case 1
      moreover have "r ! Suc i"
        using assms(1) i True Suc.prems(2) by (simp add: star_closed_def)
      ultimately show ?thesis using Suc.hyps i by (intro Suc.hyps(1)) auto
    next
      case 2
      with True i Suc.prems show ?thesis by (intro exI [of _ i]) auto
    qed
  qed
qed

lemma live_step:
  assumes "star_closed g r" "length r = Suc (length g)"
  shows "live g (glob_next g b r) rest \<longleftrightarrow> live g r (b # rest)"
proof -
  let ?next = "\<lambda>i. (i < length g \<and> r ! i \<and> g ! i = star) \<or>
                 (0 < i \<and> r ! (i - 1) \<and> g ! (i - 1) \<noteq> star \<and> g ! (i - 1) = b)"
  have "live g (glob_next g b r) rest \<longleftrightarrow>
        (\<exists>j \<le> length g. ?next j \<and> glob_spec (drop j g) rest)"
    unfolding glob_next_def close_stars_live by (auto simp: live_def less_Suc_eq_le nth_map_upt simp del: upt_Suc)
  also have "\<dots> \<longleftrightarrow> live g r (b # rest)"
  proof
    assume "\<exists>j \<le> length g. ?next j \<and> glob_spec (drop j g) rest"
    then obtain j where j: "j \<le> length g" "?next j" and m: "glob_spec (drop j g) rest" by blast
    from j(2) show "live g r (b # rest)"
    proof
      assume "j < length g \<and> r ! j \<and> g ! j = star"
      then show ?thesis
        using m assms(2) by (auto simp: live_def drop_nth_Cons intro!: exI [of _ j] glob_eat)
    next
      assume "0 < j \<and> r ! (j - 1) \<and> g ! (j - 1) \<noteq> star \<and> g ! (j - 1) = b"
      then show ?thesis
        using m j(1) assms(2)
        by (cases j) (auto simp: live_def drop_nth_Cons glob_spec_char intro!: exI [of _ "j - 1"])
    qed
  next
    assume "live g r (b # rest)"
    then show "\<exists>j \<le> length g. ?next j \<and> glob_spec (drop j g) rest"
      using live_step_position [OF assms] by (auto simp: live_def assms(2) less_Suc_eq_le)
  qed
  finally show ?thesis .
qed

lemma glob_reachable_live: "live g (glob_reachable g pre) rest \<longleftrightarrow> glob_spec g (pre @ rest)"
proof (induction pre arbitrary: rest rule: rev_induct)
  case Nil
  then show ?case by (simp add: glob_reachable_def live_start)
next
  case (snoc b pre)
  have "glob_reachable g (pre @ [b]) = glob_next g b (glob_reachable g pre)"
    by (simp add: glob_reachable_def)
  then have "live g (glob_reachable g (pre @ [b])) rest \<longleftrightarrow> live g (glob_reachable g pre) (b # rest)"
    by (simp add: live_step glob_reachable_closed)
  with snoc show ?case by simp
qed

lemma remainders_after_iff:
  "(\<exists>r \<in> set (remainders_after g pre). glob_spec r rest) \<longleftrightarrow> glob_spec g (pre @ rest)"
  unfolding glob_reachable_live [symmetric]
  by (auto simp: remainders_after_def live_def Let_def less_Suc_eq_le simp del: upt_Suc)

lemma glob_spec_inhabited: "\<exists>s. glob_spec g s"
proof (induction g)
  case (Cons c g)
  then show ?case by (cases "c = star") (auto intro: glob_spec.intros)
qed (auto intro: glob_nil)

lemma matches_prefix_iff: "matches_prefix g pre \<longleftrightarrow> (\<exists>rest. glob_spec g (pre @ rest))"
proof -
  have "remainders_after g pre \<noteq> [] \<longleftrightarrow> (\<exists>rest. \<exists>r \<in> set (remainders_after g pre). glob_spec r rest)"
    using glob_spec_inhabited by (metis all_not_in_conv set_empty)
  then show ?thesis by (simp add: matches_prefix_def remainders_after_iff)
qed

section \<open>Credentials\<close>

text \<open>A position splits a UTF-8 string where no continuation byte starts.\<close>

definition is_char_boundary :: "string \<Rightarrow> nat \<Rightarrow> bool" where
  "is_char_boundary s i \<longleftrightarrow>
     i = length s \<or> (i < length s \<and> \<not> (128 \<le> (of_char (s ! i) :: nat) \<and> (of_char (s ! i) :: nat) < 192))"

definition strip_auth_scheme :: "string \<Rightarrow> string \<Rightarrow> string option" where
  "strip_auth_scheme header_value scheme =
     (if is_char_boundary header_value (length scheme) then
        (case strip_prefix '' '' (drop (length scheme) header_value) of
           None \<Rightarrow> None
         | Some credential \<Rightarrow>
             if eq_ignore_ascii_case (take (length scheme) header_value) scheme
             then Some credential else None)
      else None)"

text \<open>
  \<open>decode\<close> stands for base64 decoding followed by the UTF-8 check of the decoded bytes, which
  the source takes from a third-party crate and the standard library.
\<close>

definition parse_basic :: "(string \<Rightarrow> string option) \<Rightarrow> string \<Rightarrow> basic_credentials option" where
  "parse_basic decode header_value =
     (case strip_auth_scheme header_value ''Basic'' of
        None \<Rightarrow> None
      | Some encoded \<Rightarrow>
          (case decode (trim encoded) of
             None \<Rightarrow> None
           | Some credentials \<Rightarrow>
               (case split_once CHR '':'' credentials of
                  None \<Rightarrow> None
                | Some (user, password) \<Rightarrow> Some \<lparr>bc_user = user, bc_password = password\<rparr>)))"

text \<open>The comparison without early exit: the accumulated difference of all byte pairs is zero.\<close>

definition secrets_match :: "string \<Rightarrow> string \<Rightarrow> bool" where
  "secrets_match presented expected =
     (if length presented \<noteq> length expected then False
      else foldl (\<lambda>d (a, b). d OR (of_char a XOR of_char b)) (0::nat) (zip presented expected) = 0)"

lemma or_eq_0_nat: "(a :: nat) OR b = 0 \<longleftrightarrow> a = 0 \<and> b = 0"
  by (rule or_eq_0_iff)

lemma xor_eq_0_nat: "(a :: nat) XOR b = 0 \<longleftrightarrow> a = b"
  by (auto simp: bit_eq_iff bit_xor_iff)

lemma foldl_diff:
  "foldl (\<lambda>d (a, b). d OR (of_char a XOR of_char b)) (d::nat) xs = 0 \<longleftrightarrow>
   d = 0 \<and> list_all (\<lambda>(a, b). a = b) xs"
proof (induction xs arbitrary: d)
  case (Cons x xs)
  obtain a b where x: "x = (a, b)" by (cases x)
  have "(of_char a XOR of_char b :: nat) = 0 \<longleftrightarrow> a = b"
    by (simp only: xor_eq_0_nat of_char_eq_iff)
  then show ?case
    by (simp only: x foldl_Cons split_conv Cons.IH or_eq_0_nat list.pred_inject conj_assoc)
qed simp

lemma secrets_match_iff: "secrets_match presented expected \<longleftrightarrow> presented = expected"
proof (cases "length presented = length expected")
  case True
  then have "list_all (\<lambda>(a, b). a = b) (zip presented expected) \<longleftrightarrow> presented = expected"
    by (induction presented expected rule: list_induct2) auto
  with True show ?thesis by (simp add: secrets_match_def foldl_diff)
qed (auto simp: secrets_match_def)

section \<open>Tokens and identification\<close>

definition token_live :: "named_token \<Rightarrow> int \<Rightarrow> bool" where
  "token_live t now = is_none_or (expires_at t) (\<lambda>expiry. now < expiry)"

definition upload_token_name :: string where
  "upload_token_name = ''upload_token''"

definition named_token_upload :: "string \<Rightarrow> named_token" where
  "named_token_upload sec =
     \<lparr>token_name = upload_token_name, secret = sec,
      grants = [\<lparr>projects = [''*''], actions = [Write, Delete]\<rparr>], expires_at = None\<rparr>"

definition index_acl_default :: index_acl where
  "index_acl_default = \<lparr>anonymous_read = True, tokens = []\<rparr>"

definition index_acl_upload_token :: "string \<Rightarrow> index_acl" where
  "index_acl_upload_token sec = \<lparr>anonymous_read = True, tokens = [named_token_upload sec]\<rparr>"

definition acl_token :: "index_acl \<Rightarrow> string \<Rightarrow> named_token option" where
  "acl_token acl name = List.find (\<lambda>t. token_name t = name) (tokens acl)"

definition identify :: "(string \<Rightarrow> string option) \<Rightarrow> index_acl \<Rightarrow> string option \<Rightarrow> int \<Rightarrow> identity" where
  "identify decode acl header now =
     (case Option.bind header (parse_basic decode) of
        None \<Rightarrow> \<lparr>id_principal = Anonymous, id_user = None\<rparr>
      | Some credentials \<Rightarrow>
          \<lparr>id_principal =
             (case List.find (\<lambda>t. token_live t now \<and> secrets_match (bc_password credentials) (secret t))
                     (tokens acl) of
                None \<Rightarrow> Anonymous
              | Some t \<Rightarrow> Named (token_name t)),
           id_user = Some (bc_user credentials)\<rparr>)"

definition acl_grants :: "index_acl \<Rightarrow> principal \<Rightarrow> grant list" where
  "acl_grants acl p =
     (case p of Anonymous \<Rightarrow> []
      | Named s \<Rightarrow> (case acl_token acl s of None \<Rightarrow> [] | Some t \<Rightarrow> grants t))"

definition grants_to_anyone :: "index_acl \<Rightarrow> action \<Rightarrow> bool" where
  "grants_to_anyone acl a =
     list_ex (\<lambda>t. list_ex (\<lambda>g. a \<in> set (actions g)) (grants t)) (tokens acl)"

section \<open>Decisions\<close>

definition grant_allows :: "grant \<Rightarrow> string option \<Rightarrow> action \<Rightarrow> bool" where
  "grant_allows g project a \<longleftrightarrow>
     a \<in> set (actions g) \<and>
     is_none_or project (\<lambda>name. list_ex (\<lambda>glob. glob_matches glob name) (projects g))"

definition grant_allows_all :: "grant \<Rightarrow> action \<Rightarrow> bool" where
  "grant_allows_all g a \<longleftrightarrow>
     a \<in> set (actions g) \<and> list_ex (\<lambda>glob. glob = ''*'') (projects g)"

definition authorize_grants :: "grant list \<Rightarrow> string option \<Rightarrow> action \<Rightarrow> denial + unit" where
  "authorize_grants gs project a =
     (if list_ex (\<lambda>g. grant_allows g project a) gs then Inr () else Inl Forbidden)"

definition authorize_exact_grants :: "grant list \<Rightarrow> string \<Rightarrow> action \<Rightarrow> denial + unit" where
  "authorize_exact_grants gs res a =
     (if list_ex (\<lambda>g. a \<in> set (actions g) \<and> list_ex (\<lambda>project. project = res) (projects g)) gs
      then Inr () else Inl Forbidden)"

definition authorize :: "principal \<Rightarrow> index_acl \<Rightarrow> string option \<Rightarrow> action \<Rightarrow> denial + unit" where
  "authorize p acl project a =
     (if a = Read \<and> anonymous_read acl then Inr ()
      else case p of
             Named s \<Rightarrow>
               rbind (ok_or Forbidden (acl_token acl s)) (\<lambda>t. authorize_grants (grants t) project a)
           | Anonymous \<Rightarrow>
               if grants_to_anyone acl a then Inl Unauthenticated else Inl Unavailable)"

definition authorize_all :: "principal \<Rightarrow> index_acl \<Rightarrow> action \<Rightarrow> denial + unit" where
  "authorize_all p acl a =
     (if a = Read \<and> anonymous_read acl then Inr ()
      else case p of
             Named s \<Rightarrow>
               rbind (ok_or Forbidden (acl_token acl s))
                 (\<lambda>t. if list_ex (\<lambda>g. grant_allows_all g a) (grants t) then Inr () else Inl Forbidden)
           | Anonymous \<Rightarrow>
               if grants_to_anyone acl a then Inl Unauthenticated else Inl Unavailable)"

lemma acl_token_Some: "acl_token acl s = Some t \<Longrightarrow> t \<in> set (tokens acl) \<and> token_name t = s"
  by (auto simp: acl_token_def find_Some_iff)

lemma authorize_grants_iff:
  "authorize_grants gs project a = Inr () \<longleftrightarrow> (\<exists>g \<in> set gs. grant_allows g project a)"
  by (simp add: authorize_grants_def list_ex_iff)

lemma grant_allows_iff:
  "grant_allows g (Some name) a \<longleftrightarrow> a \<in> set (actions g) \<and> (\<exists>p \<in> set (projects g). glob_spec p name)"
  by (simp add: grant_allows_def list_ex_iff glob_matches_iff)

lemma grant_allows_None: "grant_allows g None a \<longleftrightarrow> a \<in> set (actions g)"
  by (simp add: grant_allows_def)

lemma grant_allows_all_any: "grant_allows_all g a \<Longrightarrow> grant_allows g project a"
  by (cases project)
    (auto simp: grant_allows_all_def grant_allows_iff grant_allows_None list_ex_iff
      intro!: bexI [of _ "''*''"] glob_spec_everything)

lemma authorize_iff:
  "authorize p acl project a = Inr () \<longleftrightarrow>
     a = Read \<and> anonymous_read acl \<or>
     (\<exists>s t. p = Named s \<and> acl_token acl s = Some t \<and> (\<exists>g \<in> set (grants t). grant_allows g project a))"
  by (auto simp: authorize_def rbind_eq_Inr authorize_grants_iff split: principal.splits)

lemma authorize_all_iff:
  "authorize_all p acl a = Inr () \<longleftrightarrow>
     a = Read \<and> anonymous_read acl \<or>
     (\<exists>s t. p = Named s \<and> acl_token acl s = Some t \<and> (\<exists>g \<in> set (grants t). grant_allows_all g a))"
  by (auto simp: authorize_all_def rbind_eq_Inr list_ex_iff split: principal.splits)

lemma identify_Named:
  assumes "id_principal (identify decode acl header now) = Named s"
  shows "\<exists>h c t. header = Some h \<and> parse_basic decode h = Some c \<and> t \<in> set (tokens acl) \<and>
           token_name t = s \<and> token_live t now \<and> secret t = bc_password c"
proof -
  from assms obtain c t where c: "Option.bind header (parse_basic decode) = Some c"
    and t: "List.find (\<lambda>t. token_live t now \<and> secrets_match (bc_password c) (secret t)) (tokens acl) = Some t"
      "token_name t = s"
    by (auto simp: identify_def split: option.splits)
  from t(1) have "t \<in> set (tokens acl)" "token_live t now" "secret t = bc_password c"
    by (auto simp: find_Some_iff secrets_match_iff)
  with c t(2) show ?thesis by (cases header) auto
qed

section \<open>Properties\<close>

text \<open>C35: the backtracking wildcard walk of \<open>Glob::matches\<close> accepts exactly the names the pattern
  means, a star standing for any run of characters, slashes included.\<close>

theorem glob_matches_correct: "glob_matches g s \<longleftrightarrow> glob_spec g s"
  by (rule glob_matches_iff)

text \<open>\<open>Glob::remainders_after\<close> is exact: a pattern matches a prefixed name if and only if one of
  the remainders left after the prefix matches the rest, and \<open>matches_prefix\<close> says whether any
  continuation of the prefix can match.\<close>

theorem remainders_after_exact:
  "((\<exists>r \<in> set (remainders_after g pre). glob_matches r rest) \<longleftrightarrow> glob_matches g (pre @ rest)) \<and>
   (matches_prefix g pre \<longleftrightarrow> (\<exists>rest. glob_matches g (pre @ rest)))"
  by (simp add: glob_matches_iff remainders_after_iff matches_prefix_iff)

text \<open>\<open>secrets_match\<close>, the comparison that never stops at the first differing byte, is equality.\<close>

theorem secrets_match_is_equality: "secrets_match presented expected \<longleftrightarrow> presented = expected"
  by (rule secrets_match_iff)

text \<open>C34: \<open>authorize\<close> admits a named project exactly when reads are anonymous, or the principal names a
  token one of whose grants has the action and a pattern that means the project; and the weaker
  check made before the project is known never refuses what the named check admits.\<close>

theorem authorize_exact:
  "(authorize p acl (Some name) a = Inr () \<longleftrightarrow>
      a = Read \<and> anonymous_read acl \<or>
      (\<exists>s t g pat. p = Named s \<and> acl_token acl s = Some t \<and> g \<in> set (grants t) \<and>
         a \<in> set (actions g) \<and> pat \<in> set (projects g) \<and> glob_spec pat name)) \<and>
   (authorize p acl (Some name) a = Inr () \<longrightarrow> authorize p acl None a = Inr ())"
  by (auto simp: authorize_iff grant_allows_iff grant_allows_None)

definition acl_sample :: index_acl where
  "acl_sample =
     \<lparr>anonymous_read = False,
      tokens = [\<lparr>token_name = ''ci'', secret = ''s3'',
                 grants = [\<lparr>projects = [''team/*''], actions = [Read, Write]\<rparr>],
                 expires_at = Some 10\<rparr>]\<rparr>"

lemma acl_sample_token: "acl_token acl_sample ''ci'' = Some (hd (tokens acl_sample))"
  by (simp add: acl_token_def acl_sample_def)

lemma acl_sample_write: "authorize (Named ''ci'') acl_sample (Some ''team/a'') Write = Inr ()"
proof -
  have "glob_spec ''team/*'' ''team/a''"
    by (intro glob_char glob_spec_everything) simp_all
  then show ?thesis
    by (simp add: authorize_iff acl_sample_token grant_allows_iff) (simp add: acl_sample_def)
qed

theorem authorize_exact_witness:
  "authorize (Named ''ci'') acl_sample (Some ''team/a'') Write = Inr () \<and>
   authorize (Named ''ci'') acl_sample None Write = Inr ()"
  using authorize_exact [of "Named ''ci''" acl_sample "''team/a''" Write] acl_sample_write by blast

text \<open>the catalog check \<open>authorize_all\<close> is sound: what it admits is admitted for every project,
  present or future.\<close>

theorem authorize_all_sound:
  "authorize_all p acl a = Inr () \<Longrightarrow> authorize p acl project a = Inr ()"
  by (auto simp: authorize_all_iff authorize_iff intro: grant_allows_all_any)

theorem authorize_all_sound_witness:
  "authorize_all (Named upload_token_name) (index_acl_upload_token ''s'') Write = Inr () \<and>
   authorize (Named upload_token_name) (index_acl_upload_token ''s'') (Some ''x'') Write = Inr ()"
proof -
  have "authorize_all (Named upload_token_name) (index_acl_upload_token ''s'') Write = Inr ()"
    by (simp add: authorize_all_def index_acl_upload_token_def acl_token_def named_token_upload_def
        grant_allows_all_def)
  with authorize_all_sound [OF this] show ?thesis by blast
qed

text \<open>C37: a request that may write presented the secret of a token that has not expired and whose own
  grants cover the project, provided the index's token names are distinct.\<close>

theorem write_needs_live_secret:
  assumes "distinct (map token_name (tokens acl))"
    and "authorize (id_principal (identify decode acl header now)) acl (Some name) Write = Inr ()"
  shows "\<exists>h c t. header = Some h \<and> parse_basic decode h = Some c \<and> t \<in> set (tokens acl) \<and>
           secret t = bc_password c \<and> token_live t now \<and>
           (\<exists>g \<in> set (grants t). grant_allows g (Some name) Write)"
proof -
  from assms(2) obtain s t' where s: "id_principal (identify decode acl header now) = Named s"
    "acl_token acl s = Some t'" "\<exists>g \<in> set (grants t'). grant_allows g (Some name) Write"
    by (auto simp: authorize_iff)
  from identify_Named [OF s(1)] obtain h c t where
    t: "header = Some h" "parse_basic decode h = Some c" "t \<in> set (tokens acl)" "token_name t = s"
      "token_live t now" "secret t = bc_password c" by blast
  have "t = t'"
    using t(3,4) acl_token_Some [OF s(2)] assms(1) by (auto simp: distinct_map inj_on_def)
  with s(3) t show ?thesis by blast
qed

theorem write_needs_live_secret_witness:
  "\<exists>h c t. Some ''Basic x'' = Some h \<and> parse_basic (\<lambda>_. Some ''u:s3'') h = Some c \<and>
     t \<in> set (tokens acl_sample) \<and> secret t = bc_password c \<and> token_live t 5 \<and>
     (\<exists>g \<in> set (grants t). grant_allows g (Some ''team/a'') Write)"
proof (rule write_needs_live_secret)
  have "parse_basic (\<lambda>_. Some ''u:s3'') ''Basic x'' = Some \<lparr>bc_user = ''u'', bc_password = ''s3''\<rparr>"
    by code_simp
  then have "id_principal (identify (\<lambda>_. Some ''u:s3'') acl_sample (Some ''Basic x'') 5) = Named ''ci''"
    by (simp add: identify_def acl_sample_def token_live_def secrets_match_iff)
  then show "authorize (id_principal (identify (\<lambda>_. Some ''u:s3'') acl_sample (Some ''Basic x'') 5))
      acl_sample (Some ''team/a'') Write = Inr ()"
    by (simp only: acl_sample_write)
qed (simp add: acl_sample_def)

end
