(* ===== verification/PolicyEngine.thy ===== *)
theory PolicyEngine
  imports Strs
begin

text \<open>
  The ecosystem-neutral policy engine, \<open>crates/peryx-policy/src/lib.rs\<close>: allow and block lists,
  protected names, size limits, the format-specific rules a driver attaches and the audit record
  each check emits.  A driver's rule and its name normalisation are parameters.
\<close>

section \<open>Data\<close>

datatype policy_action = Upload | Cached | Serve

datatype fallback_mode = Fallback | PrivateFirst | NoFallback

datatype policy_decision_state = Allow | Deny | Wait

record policy_config =
  cfg_allow_projects :: "string list"
  cfg_block_projects :: "string list"
  cfg_protected_names :: "string list"
  cfg_max_file_size_bytes :: "nat option"
  cfg_max_project_size_bytes :: "nat option"

record artifact_facts =
  af_project :: string
  af_filename :: "string option"
  af_version :: "string option"
  af_source :: "string option"
  af_size :: "nat option"
  af_upload_time :: "int option"
  af_now :: "int option"
  af_attributes :: "(string \<times> string) list"

record policy_denial =
  pd_action :: policy_action
  pd_project :: string
  pd_filename :: "string option"
  pd_version :: "string option"
  pd_rule :: string
  pd_field :: string
  pd_reason :: string

record policy_evaluation =
  pe_action :: policy_action
  pe_project :: string
  pe_filename :: "string option"
  pe_version :: "string option"
  pe_source :: "string option"
  pe_state :: policy_decision_state
  pe_rule :: "string option"
  pe_reason :: "string option"
  pe_next_eligible_at_unix :: "int option"

text \<open>A driver's \<open>ArtifactRule\<close>: its check and the repository source policy it may define.\<close>

record artifact_rule =
  rule_check :: "policy_action \<Rightarrow> artifact_facts \<Rightarrow> policy_denial + unit"
  rule_fallback_mode :: "fallback_mode option"

record protected_names =
  pn_exact :: "string list"
  pn_prefixes :: "string list"

record policy =
  allow_projects :: "string set"
  block_projects :: "string set"
  protected :: protected_names
  max_file_size_bytes :: "nat option"
  max_project_size_bytes :: "nat option"
  rules :: "artifact_rule list"
  recorder :: bool
  active :: bool

section \<open>Formatting\<close>

fun show_nat :: "nat \<Rightarrow> string" where
  "show_nat n = (if n < 10 then [digit_char n] else show_nat (n div 10) @ [digit_char (n mod 10)])"

declare show_nat.simps [simp del]

text \<open>The \<open>Debug\<close> rendering of a string: quotes, backslashes and control characters escaped.\<close>

definition debug_char :: "char \<Rightarrow> string" where
  "debug_char c =
     (if c = CHR 0x22 then [CHR 0x5C, CHR 0x22]
      else if c = CHR 0x5C then [CHR 0x5C, CHR 0x5C]
      else if c = CHR 0x0A then [CHR 0x5C, CHR ''n'']
      else if c = CHR 0x0D then [CHR 0x5C, CHR ''r'']
      else if c = CHR 0x09 then [CHR 0x5C, CHR ''t'']
      else if c = CHR 0x00 then [CHR 0x5C, CHR ''0'']
      else if c < CHR 0x20 \<or> c = CHR 0x7F then
        [CHR 0x5C, CHR ''u'', CHR 0x7B] @
        (let n = (of_char c :: nat)
         in if n < 16 then [digit_char n] else [digit_char (n div 16), digit_char (n mod 16)]) @
        [CHR 0x7D]
      else [c])"

definition debug_str :: "string \<Rightarrow> string" where
  "debug_str s = CHR 0x22 # concat (map debug_char s) @ [CHR 0x22]"

section \<open>Facts and denials\<close>

definition attribute :: "artifact_facts \<Rightarrow> string \<Rightarrow> string option" where
  "attribute facts key = map_of (af_attributes facts) key"

definition policy_denial_new ::
  "policy_action \<Rightarrow> string \<Rightarrow> string option \<Rightarrow> string option \<Rightarrow> string \<Rightarrow> string \<Rightarrow> string \<Rightarrow> policy_denial" where
  "policy_denial_new act project filename version rul fld reason =
     \<lparr>pd_action = act, pd_project = project, pd_filename = filename, pd_version = version,
      pd_rule = rul, pd_field = fld, pd_reason = reason\<rparr>"

definition facts_denial ::
  "artifact_facts \<Rightarrow> policy_action \<Rightarrow> string \<Rightarrow> string \<Rightarrow> string \<Rightarrow> policy_denial" where
  "facts_denial facts act rul fld reason =
     policy_denial_new act (af_project facts) (af_filename facts) (af_version facts) rul fld reason"

fun fallback_mode_as_str :: "fallback_mode \<Rightarrow> string" where
  "fallback_mode_as_str Fallback = ''fallback''"
| "fallback_mode_as_str PrivateFirst = ''private-first''"
| "fallback_mode_as_str NoFallback = ''no-fallback''"

fun policy_action_str :: "policy_action \<Rightarrow> string" where
  "policy_action_str Upload = ''upload''"
| "policy_action_str Cached = ''cached''"
| "policy_action_str Serve = ''serve''"

section \<open>Protected names\<close>

text \<open>A \<open>BTreeSet\<close> is a strictly ascending list.\<close>

fun bset_insert :: "'a::linorder \<Rightarrow> 'a list \<Rightarrow> 'a list" where
  "bset_insert x [] = [x]"
| "bset_insert x (y # ys) =
     (if x < y then x # y # ys else if x = y then y # ys else y # bset_insert x ys)"

definition strip_star :: "string \<Rightarrow> string option" where
  "strip_star name = (if name \<noteq> [] \<and> last name = CHR ''*'' then Some (butlast name) else None)"

fun protected_compile :: "(string \<Rightarrow> string) \<Rightarrow> string list \<Rightarrow> protected_names \<Rightarrow> protected_names" where
  "protected_compile norm_fn [] pn = pn"
| "protected_compile norm_fn (name # names) pn =
     (let prefix = strip_star name;
          normalized = norm_fn (unwrap_or name prefix)
      in protected_compile norm_fn names
           (if prefix \<noteq> None then pn\<lparr>pn_prefixes := bset_insert normalized (pn_prefixes pn)\<rparr>
            else pn\<lparr>pn_exact := bset_insert normalized (pn_exact pn)\<rparr>))"

definition protected_names_compile :: "(string \<Rightarrow> string) \<Rightarrow> string list \<Rightarrow> protected_names" where
  "protected_names_compile norm_fn names =
     protected_compile norm_fn names \<lparr>pn_exact = [], pn_prefixes = []\<rparr>"

definition protected_is_empty :: "protected_names \<Rightarrow> bool" where
  "protected_is_empty pn \<longleftrightarrow> pn_exact pn = [] \<and> pn_prefixes pn = []"

definition protected_matched :: "protected_names \<Rightarrow> string \<Rightarrow> string option" where
  "protected_matched pn project =
     (if project \<in> set (pn_exact pn) then Some project
      else map_option (\<lambda>prefix. prefix @ ''*'')
             (List.find (\<lambda>prefix. starts_with project prefix) (pn_prefixes pn)))"

section \<open>Compilation\<close>

definition compute_active :: "policy \<Rightarrow> bool" where
  "compute_active p \<longleftrightarrow>
     allow_projects p \<noteq> {} \<or> block_projects p \<noteq> {} \<or> \<not> protected_is_empty (protected p) \<or>
     max_file_size_bytes p \<noteq> None \<or> max_project_size_bytes p \<noteq> None \<or> rules p \<noteq> []"

definition policy_compile :: "policy_config \<Rightarrow> (string \<Rightarrow> string) \<Rightarrow> policy" where
  "policy_compile config norm_fn =
     (let p = \<lparr>allow_projects = set (map norm_fn (cfg_allow_projects config)),
               block_projects = set (map norm_fn (cfg_block_projects config)),
               protected = protected_names_compile norm_fn (cfg_protected_names config),
               max_file_size_bytes = cfg_max_file_size_bytes config,
               max_project_size_bytes = cfg_max_project_size_bytes config,
               rules = [], recorder = False, active = False\<rparr>
      in p\<lparr>active := compute_active p\<rparr>)"

definition with_rules :: "policy \<Rightarrow> artifact_rule list \<Rightarrow> policy" where
  "with_rules p rs = (let q = p\<lparr>rules := rs\<rparr> in q\<lparr>active := compute_active q\<rparr>)"

definition with_decision_recorder :: "policy \<Rightarrow> policy" where
  "with_decision_recorder p = p\<lparr>recorder := True\<rparr>"

definition has_project_size_limit :: "policy \<Rightarrow> bool" where
  "has_project_size_limit p \<longleftrightarrow> max_project_size_bytes p \<noteq> None"

definition policy_fallback_mode :: "policy \<Rightarrow> fallback_mode" where
  "policy_fallback_mode p =
     (case List.find (\<lambda>r. rule_fallback_mode r \<noteq> None) (rules p) of
        Some r \<Rightarrow> the (rule_fallback_mode r)
      | None \<Rightarrow> Fallback)"

section \<open>Evaluation\<close>

definition evaluate_project :: "policy \<Rightarrow> policy_action \<Rightarrow> string \<Rightarrow> policy_denial + unit" where
  "evaluate_project p act project =
     (case (if act = Cached then protected_matched (protected p) project else None) of
        Some rul \<Rightarrow>
          Inl (policy_denial_new act project None None ''protected-name'' ''project''
                 (''project '' @ debug_str project @
                  '' is protected from upstream fallback by rule '' @ debug_str rul))
      | None \<Rightarrow>
          if allow_projects p = {} \<or> project \<in> allow_projects p then
            if project \<notin> block_projects p then Inr ()
            else Inl (policy_denial_new act project None None ''project-block-list'' ''project''
                        (''project '' @ debug_str project @ '' is blocked''))
          else Inl (policy_denial_new act project None None ''project-allow-list'' ''project''
                      (''project '' @ debug_str project @ '' is not in the allow list'')))"

definition size_reason :: "nat \<Rightarrow> nat \<Rightarrow> string" where
  "size_reason sz limit = ''file size '' @ show_nat sz @ '' exceeds limit '' @ show_nat limit"

definition check_file_size :: "policy \<Rightarrow> policy_action \<Rightarrow> artifact_facts \<Rightarrow> policy_denial + unit" where
  "check_file_size p act facts =
     (case max_file_size_bytes p of
        None \<Rightarrow> Inr ()
      | Some limit \<Rightarrow>
          (case af_size facts of
             None \<Rightarrow> Inl (facts_denial facts act ''max-file-size'' ''size'' ''file size is unknown'')
           | Some sz \<Rightarrow>
               if sz > limit
               then Inl (facts_denial facts act ''max-file-size'' ''size'' (size_reason sz limit))
               else Inr ()))"

fun check_rules :: "artifact_rule list \<Rightarrow> policy_action \<Rightarrow> artifact_facts \<Rightarrow> policy_denial + unit" where
  "check_rules [] act facts = Inr ()"
| "check_rules (r # rs) act facts = rbind (rule_check r act facts) (\<lambda>_. check_rules rs act facts)"

definition evaluate_facts :: "policy \<Rightarrow> policy_action \<Rightarrow> artifact_facts \<Rightarrow> policy_denial + unit" where
  "evaluate_facts p act facts =
     rbind (evaluate_project p act (af_project facts)) (\<lambda>_.
     rbind (check_file_size p act facts) (\<lambda>_.
     check_rules (rules p) act facts))"

definition evaluate_size :: "policy \<Rightarrow> policy_action \<Rightarrow> string \<Rightarrow> nat \<Rightarrow> policy_denial + unit" where
  "evaluate_size p act project sz =
     rbind (evaluate_project p act project) (\<lambda>_.
       case max_file_size_bytes p of
         None \<Rightarrow> Inr ()
       | Some limit \<Rightarrow>
           if sz > limit
           then Inl (policy_denial_new act project None None ''max-file-size'' ''size''
                       (size_reason sz limit))
           else Inr ())"

text \<open>\<open>record\<close>: the evaluation handed to the recorder, when one is attached.\<close>

definition record_evaluation ::
  "policy \<Rightarrow> policy_action \<Rightarrow> string \<Rightarrow> string option \<Rightarrow> string option \<Rightarrow> string option \<Rightarrow>
   policy_denial + unit \<Rightarrow> policy_evaluation option" where
  "record_evaluation p act project filename version source result =
     (if \<not> recorder p then None
      else let (state, rul, reason) =
             (case result of
                Inr _ \<Rightarrow> (Allow, None, None)
              | Inl d \<Rightarrow> (Deny, Some (pd_rule d), Some (pd_reason d)))
           in Some \<lparr>pe_action = act, pe_project = project, pe_filename = filename,
                    pe_version = version, pe_source = source, pe_state = state, pe_rule = rul,
                    pe_reason = reason, pe_next_eligible_at_unix = None\<rparr>)"

definition check_project ::
  "policy \<Rightarrow> policy_action \<Rightarrow> string \<Rightarrow> (policy_denial + unit) \<times> policy_evaluation option" where
  "check_project p act project =
     (let result = evaluate_project p act project
      in (result, record_evaluation p act project None None None result))"

definition check_facts ::
  "policy \<Rightarrow> policy_action \<Rightarrow> artifact_facts \<Rightarrow> (policy_denial + unit) \<times> policy_evaluation option" where
  "check_facts p act facts =
     (let result = evaluate_facts p act facts
      in (result, record_evaluation p act (af_project facts) (af_filename facts) (af_version facts)
                    (af_source facts) result))"

definition check_size ::
  "policy \<Rightarrow> policy_action \<Rightarrow> string \<Rightarrow> nat \<Rightarrow> (policy_denial + unit) \<times> policy_evaluation option" where
  "check_size p act project sz =
     (let result = evaluate_size p act project sz
      in (result, record_evaluation p act project None None None result))"

text \<open>\<open>retain_versions\<close>: \<open>keep\<close> is the iteration order of a \<open>BTreeSet\<close>.\<close>

fun append_missing :: "string list \<Rightarrow> string list \<Rightarrow> string list" where
  "append_missing versions [] = versions"
| "append_missing versions (v # keep) =
     append_missing (if v \<in> set versions then versions else versions @ [v]) keep"

definition retain_versions :: "string list \<Rightarrow> string list \<Rightarrow> string list" where
  "retain_versions versions keep =
     (if keep = [] then []
      else append_missing (filter (\<lambda>v. v \<in> set keep) versions) keep)"

section \<open>Lemmas\<close>

lemma set_bset_insert [simp]: "set (bset_insert x ys) = insert x (set ys)"
  by (induction x ys rule: bset_insert.induct) auto

lemma sorted_bset_insert: "sorted_wrt (<) ys \<Longrightarrow> sorted_wrt (<) (bset_insert x ys)"
  by (induction x ys rule: bset_insert.induct) auto

lemma protected_compile_exact:
  "set (pn_exact (protected_compile norm_fn names pn)) =
   set (pn_exact pn) \<union> {norm_fn n |n. n \<in> set names \<and> strip_star n = None}"
  by (induction norm_fn names pn rule: protected_compile.induct) (auto simp: Let_def)

lemma protected_compile_prefixes:
  "set (pn_prefixes (protected_compile norm_fn names pn)) =
   set (pn_prefixes pn) \<union> {norm_fn q |q n. n \<in> set names \<and> strip_star n = Some q}"
  by (induction norm_fn names pn rule: protected_compile.induct) (auto simp: Let_def)

lemma strip_star_Some: "strip_star n = Some q \<longleftrightarrow> n = q @ ''*''"
  by (auto simp: strip_star_def) (metis append_butlast_last_id)

lemma strip_star_None: "strip_star n = None \<longleftrightarrow> (\<forall>q. n \<noteq> q @ ''*'')"
  using strip_star_Some [of n] by (cases "strip_star n") auto

text \<open>A name is protected when it is a configured name or starts with a configured prefix.\<close>

definition name_protected :: "(string \<Rightarrow> string) \<Rightarrow> string list \<Rightarrow> string \<Rightarrow> bool" where
  "name_protected norm_fn names project \<longleftrightarrow>
     (\<exists>n \<in> set names. strip_star n = None \<and> project = norm_fn n) \<or>
     (\<exists>q. q @ ''*'' \<in> set names \<and> starts_with project (norm_fn q))"

lemma protected_matched_None_iff:
  "protected_matched (protected_names_compile norm_fn names) project = None \<longleftrightarrow>
   \<not> name_protected norm_fn names project"
  by (auto simp: protected_matched_def protected_names_compile_def protected_compile_exact
      protected_compile_prefixes find_None_iff name_protected_def strip_star_Some
      strip_star_None)

lemma check_rules_iff:
  "check_rules rs act facts = Inr () \<longleftrightarrow> (\<forall>r \<in> set rs. rule_check r act facts = Inr ())"
  by (induction rs) (auto simp: rbind_eq_Inr)

lemma evaluate_project_iff:
  "evaluate_project p act project = Inr () \<longleftrightarrow>
     (act = Cached \<longrightarrow> protected_matched (protected p) project = None) \<and>
     (allow_projects p = {} \<or> project \<in> allow_projects p) \<and> project \<notin> block_projects p"
  by (auto simp: evaluate_project_def split: option.splits)

lemma check_file_size_iff:
  "check_file_size p act facts = Inr () \<longleftrightarrow>
     is_none_or (max_file_size_bytes p) (\<lambda>limit. is_some_and (af_size facts) (\<lambda>sz. sz \<le> limit))"
  by (auto simp: check_file_size_def split: option.splits)

lemma evaluate_size_iff:
  "evaluate_size p act project sz = Inr () \<longleftrightarrow>
     evaluate_project p act project = Inr () \<and>
     is_none_or (max_file_size_bytes p) (\<lambda>limit. sz \<le> limit)"
  by (auto simp: evaluate_size_def rbind_eq_Inr split: option.splits)

lemma evaluate_facts_iff:
  "evaluate_facts p act facts = Inr () \<longleftrightarrow>
     evaluate_project p act (af_project facts) = Inr () \<and> check_file_size p act facts = Inr () \<and>
     (\<forall>r \<in> set (rules p). rule_check r act facts = Inr ())"
  by (auto simp: evaluate_facts_def rbind_eq_Inr check_rules_iff)

text \<open>Compilation and rule attachment keep the \<open>active\<close> flag equal to its definition.\<close>

lemma compute_active_flags [simp]:
  "compute_active (p\<lparr>active := b\<rparr>) = compute_active p"
  "compute_active (p\<lparr>recorder := b\<rparr>) = compute_active p"
  by (simp_all add: compute_active_def)

lemma active_compile: "active (policy_compile c f) = compute_active (policy_compile c f)"
  by (simp add: policy_compile_def Let_def compute_active_def)

lemma active_with_rules: "active (with_rules p rs) = compute_active (with_rules p rs)"
  by (simp add: with_rules_def Let_def)

lemma active_with_recorder:
  "active p = compute_active p \<Longrightarrow>
   active (with_decision_recorder p) = compute_active (with_decision_recorder p)"
  by (simp add: with_decision_recorder_def)

lemma inactive_evaluate_facts: "\<not> compute_active p \<Longrightarrow> evaluate_facts p act facts = Inr ()"
  by (simp add: evaluate_facts_iff evaluate_project_iff check_file_size_iff compute_active_def
      protected_matched_def protected_is_empty_def)

lemma inactive_evaluate_size: "\<not> compute_active p \<Longrightarrow> evaluate_size p act project sz = Inr ()"
  by (simp add: evaluate_size_iff evaluate_project_iff compute_active_def
      protected_matched_def protected_is_empty_def)

lemma set_append_missing: "set (append_missing vs keep) = set vs \<union> set keep"
  by (induction vs keep rule: append_missing.induct) auto

lemma distinct_append_missing: "distinct vs \<Longrightarrow> distinct (append_missing vs keep)"
  by (induction vs keep rule: append_missing.induct) auto

lemma append_missing_prefix: "\<exists>extra. append_missing vs keep = vs @ extra"
proof (induction vs keep rule: append_missing.induct)
  case (2 vs v keep)
  then show ?case by (auto split: if_splits)
qed simp

section \<open>Properties\<close>

text \<open>A compiled policy admits an artifact exactly when its project is on the allow list (if there
  is one), is not blocked, is not protected when the answer would come from upstream, its size is
  known and within the limit (if there is one), and every attached format rule passes.\<close>

theorem check_facts_exact:
  "fst (check_facts (with_rules (policy_compile config norm_fn) rs) act facts) = Inr () \<longleftrightarrow>
     (act = Cached \<longrightarrow> \<not> name_protected norm_fn (cfg_protected_names config) (af_project facts)) \<and>
     (cfg_allow_projects config = [] \<or> af_project facts \<in> norm_fn ` set (cfg_allow_projects config)) \<and>
     af_project facts \<notin> norm_fn ` set (cfg_block_projects config) \<and>
     is_none_or (cfg_max_file_size_bytes config)
       (\<lambda>limit. is_some_and (af_size facts) (\<lambda>sz. sz \<le> limit)) \<and>
     (\<forall>r \<in> set rs. rule_check r act facts = Inr ())"
  by (simp add: check_facts_def Let_def evaluate_facts_iff evaluate_project_iff check_file_size_iff
      with_rules_def policy_compile_def protected_matched_None_iff)

definition sample_config :: policy_config where
  "sample_config =
     \<lparr>cfg_allow_projects = [], cfg_block_projects = [''evil''], cfg_protected_names = [''acme-*''],
      cfg_max_file_size_bytes = Some 10, cfg_max_project_size_bytes = None\<rparr>"

definition sample_facts :: artifact_facts where
  "sample_facts =
     \<lparr>af_project = ''acme-core'', af_filename = None, af_version = None, af_source = None,
      af_size = Some 9, af_upload_time = None, af_now = None, af_attributes = []\<rparr>"

theorem check_facts_exact_witness:
  "fst (check_facts (with_rules (policy_compile sample_config id) []) Upload sample_facts) = Inr () \<and>
   fst (check_facts (with_rules (policy_compile sample_config id) []) Cached sample_facts) \<noteq> Inr ()"
proof -
  have "name_protected id [''acme-*''] ''acme-core''"
    by (auto simp: name_protected_def intro!: exI [of _ "''acme-''"])
  then show ?thesis
    unfolding check_facts_exact by (simp add: sample_config_def sample_facts_def)
qed

text \<open>The \<open>active\<close> flag is a sound fast path: a policy built by the constructors and reported
  inactive admits every project, every artifact and every upload size.\<close>

theorem inactive_policy_admits:
  assumes "p = policy_compile config norm_fn \<or> p = with_rules (policy_compile config norm_fn) rs \<or>
           p = with_decision_recorder (with_rules (policy_compile config norm_fn) rs)"
    and "\<not> active p"
  shows "fst (check_facts p act facts) = Inr () \<and> fst (check_size p act project sz) = Inr () \<and>
         fst (check_project p act project) = Inr ()"
proof -
  have "active p = compute_active p"
    using assms(1) active_compile active_with_rules active_with_recorder by blast
  with assms(2) have inactive: "\<not> compute_active p" by simp
  then have "evaluate_project p act project = Inr ()"
    using inactive_evaluate_size [OF inactive, of act project 0] by (simp add: evaluate_size_iff)
  with inactive show ?thesis
    by (simp add: check_facts_def check_size_def check_project_def Let_def
        inactive_evaluate_facts inactive_evaluate_size)
qed

definition open_config :: policy_config where
  "open_config =
     \<lparr>cfg_allow_projects = [], cfg_block_projects = [], cfg_protected_names = [],
      cfg_max_file_size_bytes = None, cfg_max_project_size_bytes = None\<rparr>"

theorem inactive_policy_admits_witness:
  "\<not> active (policy_compile open_config id) \<and>
   fst (check_facts (policy_compile open_config id) Cached sample_facts) = Inr ()"
proof -
  have "\<not> active (policy_compile open_config id)"
    by (simp add: policy_compile_def open_config_def compute_active_def protected_is_empty_def
        protected_names_compile_def Let_def)
  with inactive_policy_admits [of "policy_compile open_config id" open_config id "[]" Cached sample_facts]
  show ?thesis by blast
qed

text \<open>The audit record is faithful: with a recorder attached, every check hands over exactly one
  evaluation, it says allow precisely when the check passes, and a denial carries the rule and
  the reason of the denial returned to the caller.\<close>

theorem check_facts_audited:
  assumes "recorder p"
  shows "\<exists>e. snd (check_facts p act facts) = Some e \<and> pe_project e = af_project facts \<and> pe_action e = act \<and>
           (pe_state e = Allow \<longleftrightarrow> fst (check_facts p act facts) = Inr ()) \<and>
           (\<forall>d. fst (check_facts p act facts) = Inl d \<longrightarrow>
              pe_state e = Deny \<and> pe_rule e = Some (pd_rule d) \<and> pe_reason e = Some (pd_reason d))"
  using assms by (cases "evaluate_facts p act facts")
    (auto simp: check_facts_def record_evaluation_def Let_def)

theorem check_facts_audited_witness:
  "\<exists>e. snd (check_facts (with_decision_recorder (policy_compile sample_config id)) Upload sample_facts) = Some e \<and>
       pe_state e = Allow"
proof -
  have "fst (check_facts (with_rules (policy_compile sample_config id) []) Upload sample_facts) = Inr ()"
    unfolding check_facts_exact by (simp add: sample_config_def sample_facts_def)
  then have "fst (check_facts (with_decision_recorder (policy_compile sample_config id)) Upload sample_facts) = Inr ()"
    by (simp add: check_facts_def Let_def evaluate_facts_iff evaluate_project_iff check_file_size_iff
        with_rules_def with_decision_recorder_def policy_compile_def)
  with check_facts_audited [of "with_decision_recorder (policy_compile sample_config id)" Upload sample_facts]
  show ?thesis by (auto simp: with_decision_recorder_def)
qed

text \<open>\<open>retain_versions\<close> leaves exactly the versions to keep, without duplicates when the list had
  none, the surviving ones first and in their old order.\<close>

theorem retain_versions_exact:
  "set (retain_versions versions keep) = set keep \<and>
   (distinct versions \<longrightarrow> distinct (retain_versions versions keep)) \<and>
   (\<exists>extra. retain_versions versions keep = filter (\<lambda>v. v \<in> set keep) versions @ extra)"
  using append_missing_prefix [of "filter (\<lambda>v. v \<in> set keep) versions" keep]
  by (auto simp: retain_versions_def set_append_missing distinct_append_missing)

theorem retain_versions_exact_witness:
  "retain_versions [''2'', ''1''] [''1'', ''3''] = [''1'', ''3''] \<and>
   distinct (retain_versions [''2'', ''1''] [''1'', ''3''])"
  using retain_versions_exact [of "[''2'', ''1'']" "[''1'', ''3'']"]
  by (simp add: retain_versions_def)

end
