(* ===== verification/Routing.thy ===== *)
theory Routing
  imports Acl PolicyEngine "HOL-Library.Multiset"
begin

text \<open>
  Index identity and request routing, \<open>crates/peryx-index/src/index.rs\<close>,
  \<open>crates/peryx-index/src/resolve.rs\<close> and \<open>crates/peryx-core/src/ecosystem.rs\<close>: the longest
  segment-aligned route wins, and a virtual index merges its cached members last.
\<close>

section \<open>Indexes\<close>

datatype ecosystem = Pypi | Oci

definition ecosystem_all :: "ecosystem list" where
  "ecosystem_all = [Pypi, Oci]"

fun ecosystem_slot :: "ecosystem \<Rightarrow> nat" where
  "ecosystem_slot Pypi = 0"
| "ecosystem_slot Oci = 1"

fun ecosystem_as_str :: "ecosystem \<Rightarrow> string" where
  "ecosystem_as_str Pypi = ''pypi''"
| "ecosystem_as_str Oci = ''oci''"

definition ecosystem_from_str :: "string \<Rightarrow> string + ecosystem" where
  "ecosystem_from_str s =
     ok_or s (List.find (\<lambda>candidate. ecosystem_as_str candidate = s) ecosystem_all)"

text \<open>An upstream client is opaque here: its type is a parameter.\<close>

datatype 'c index_kind =
    CachedKind (client: 'c) (offline: bool)
  | HostedKind (volatile: bool)
  | VirtualKind (layers: "nat list") (upload: "nat option")

record 'c index =
  ix_name :: string
  ix_route :: string
  ix_ecosystem :: ecosystem
  ix_kind :: "'c index_kind"
  ix_policy :: policy
  ix_acl :: index_acl

definition proxy_client :: "'c index \<Rightarrow> 'c option" where
  "proxy_client ix =
     (case ix_kind ix of CachedKind c off \<Rightarrow> if off then None else Some c | _ \<Rightarrow> None)"

fun is_cached :: "'c index_kind \<Rightarrow> bool" where
  "is_cached (CachedKind _ _) = True"
| "is_cached (HostedKind _) = False"
| "is_cached (VirtualKind _ _) = False"

section \<open>Resolution\<close>

text \<open>\<open>RouteResolver::new\<close>: collecting into a hash map keeps the last position of a route.\<close>

definition route_positions :: "string list \<Rightarrow> string \<Rightarrow> nat option" where
  "route_positions routes = map_of (rev (zip routes [0..<length routes]))"

definition resolver_new :: "'c index list \<Rightarrow> string \<Rightarrow> nat option" where
  "resolver_new indexes = route_positions (map ix_route indexes)"

fun rfind :: "char \<Rightarrow> string \<Rightarrow> nat option" where
  "rfind c [] = None"
| "rfind c (x # xs) =
     (case rfind c xs of Some i \<Rightarrow> Some (Suc i) | None \<Rightarrow> if x = c then Some 0 else None)"

lemma rfind_less: "rfind c s = Some i \<Longrightarrow> i < length s"
  by (induction c s arbitrary: i rule: rfind.induct) (auto split: option.splits if_splits)

function resolve_from :: "(string \<Rightarrow> nat option) \<Rightarrow> string \<Rightarrow> nat \<Rightarrow> (nat \<times> string) option" where
  "resolve_from positions path e =
     (case positions (take e path) of
        Some position \<Rightarrow> Some (position, if e = length path then [] else drop (Suc e) path)
      | None \<Rightarrow>
          (case rfind CHR ''/'' (take e path) of
             None \<Rightarrow> None
           | Some e' \<Rightarrow> resolve_from positions path e'))"
  by pat_completeness auto
termination
  by (relation "measure (\<lambda>(positions, path, e). e)") (auto dest: rfind_less)

declare resolve_from.simps [simp del]

definition resolve :: "(string \<Rightarrow> nat option) \<Rightarrow> string \<Rightarrow> (nat \<times> string) option" where
  "resolve positions path = resolve_from positions path (length path)"

definition remainder :: "string \<Rightarrow> string \<Rightarrow> string option" where
  "remainder path route =
     (if path = route then Some []
      else Option.bind (strip_prefix route path) (strip_prefix ''/''))"

section \<open>Shadowing order\<close>

text \<open>
  \<open>shadow_order\<close> sorts stably by whether a member is cached.  The sort looks at every position as
  soon as there are two of them, and a position outside the index vector panics (\<open>None\<close>).
\<close>

definition shadow_order :: "'c index list \<Rightarrow> nat list \<Rightarrow> nat list option" where
  "shadow_order indexes ls =
     (if 2 \<le> length ls \<and> list_ex (\<lambda>i. length indexes \<le> i) ls then None
      else if length ls < 2 then Some ls
      else Some (sort_key (\<lambda>i. if is_cached (ix_kind (indexes ! i)) then 1 else (0::nat)) ls))"

section \<open>Lemmas\<close>

lemma rfind_None: "rfind c s = None \<longleftrightarrow> c \<notin> set s"
  by (induction c s rule: rfind.induct) (auto split: option.splits)

lemma rfind_Some:
  "rfind c s = Some i \<Longrightarrow> s ! i = c \<and> (\<forall>j. i < j \<and> j < length s \<longrightarrow> s ! j \<noteq> c)"
proof (induction c s arbitrary: i rule: rfind.induct)
  case (2 c x xs)
  show ?case
  proof (cases "rfind c xs")
    case None
    then have "c \<notin> set xs" by (simp add: rfind_None)
    with 2 None show ?thesis by (auto simp: nth_Cons' split: if_splits)
  next
    case (Some k)
    have IH: "xs ! k = c" "\<And>j. k < j \<Longrightarrow> j < length xs \<Longrightarrow> xs ! j \<noteq> c"
      using "2.IH" [OF Some] by auto
    have "(x # xs) ! j \<noteq> c" if "Suc k < j" "j < Suc (length xs)" for j
      using IH(2) [of "j - 1"] that by (cases j) auto
    with "2.prems" Some IH(1) show ?thesis by auto
  qed
qed simp

text \<open>A route reaches a path up to position \<open>e\<close> when the path is cut at a segment boundary.\<close>

definition boundary :: "string \<Rightarrow> nat \<Rightarrow> bool" where
  "boundary path e \<longleftrightarrow> e = length path \<or> (e < length path \<and> path ! e = CHR ''/'')"

lemma remainder_iff:
  "remainder path route = Some rest \<longleftrightarrow>
   (\<exists>e. boundary path e \<and> route = take e path \<and>
        rest = (if e = length path then [] else drop (Suc e) path))"
proof
  assume "remainder path route = Some rest"
  then consider "path = route" "rest = []" | r where "path = route @ r" "r = ''/'' @ rest"
    by (auto simp: remainder_def strip_prefix_Some bind_eq_Some_conv split: if_splits)
  then show "\<exists>e. boundary path e \<and> route = take e path \<and>
        rest = (if e = length path then [] else drop (Suc e) path)"
  proof cases
    case 1
    then show ?thesis by (auto simp: boundary_def intro!: exI [of _ "length path"])
  next
    case 2
    then show ?thesis by (auto simp: boundary_def nth_append intro!: exI [of _ "length route"])
  qed
next
  assume "\<exists>e. boundary path e \<and> route = take e path \<and>
        rest = (if e = length path then [] else drop (Suc e) path)"
  then obtain e where e: "boundary path e" "route = take e path"
    "rest = (if e = length path then [] else drop (Suc e) path)" by blast
  show "remainder path route = Some rest"
  proof (cases "e = length path")
    case True
    with e show ?thesis by (simp add: remainder_def)
  next
    case False
    then have less: "e < length path" "path ! e = CHR ''/''"
      using e(1) by (auto simp: boundary_def)
    then have p: "path = route @ ''/'' @ rest"
      using e(2,3) id_take_nth_drop [of e path] by simp
    have "strip_prefix route path = Some (''/'' @ rest)" "strip_prefix ''/'' (''/'' @ rest) = Some rest"
      using p by (simp_all only: strip_prefix_Some)
    moreover have "path \<noteq> route" using p by simp
    ultimately show ?thesis by (simp add: remainder_def)
  qed
qed

lemma resolve_from_Some:
  assumes "resolve_from positions path e = Some (i, rest)" "boundary path e"
  shows "\<exists>e' \<le> e. boundary path e' \<and> positions (take e' path) = Some i \<and>
           rest = (if e' = length path then [] else drop (Suc e') path) \<and>
           (\<forall>f. boundary path f \<and> e' < f \<and> f \<le> e \<longrightarrow> positions (take f path) = None)"
  using assms
proof (induction positions path e rule: resolve_from.induct)
  case (1 positions path e)
  show ?case
  proof (cases "positions (take e path)")
    case (Some p)
    with 1 show ?thesis
      by (intro exI [of _ e]) (auto simp: resolve_from.simps [of positions path e])
  next
    case None
    with "1.prems" obtain e1 where e1: "rfind CHR ''/'' (take e path) = Some e1"
      "resolve_from positions path e1 = Some (i, rest)"
      by (auto simp: resolve_from.simps [of positions path e] split: option.splits)
    have lt: "e1 < e" "e1 < length path"
      using rfind_less [OF e1(1)] by auto
    then have b: "boundary path e1"
      using rfind_Some [OF e1(1)] by (simp add: boundary_def)
    from "1.IH" [OF None e1 b] obtain e' where e': "e' \<le> e1" "boundary path e'"
      "positions (take e' path) = Some i"
      "rest = (if e' = length path then [] else drop (Suc e') path)"
      "\<forall>f. boundary path f \<and> e' < f \<and> f \<le> e1 \<longrightarrow> positions (take f path) = None" by blast
    have "positions (take f path) = None" if f: "boundary path f" "e' < f" "f \<le> e" for f
    proof -
      consider "f \<le> e1" | "f = e" | "e1 < f" "f < e" using f by linarith
      then show ?thesis
      proof cases
        case 3
        with rfind_Some [OF e1(1)] f lt have "f = length path"
          by (auto simp: boundary_def) 
        with "1.prems"(2) 3 show ?thesis by (auto simp: boundary_def)
      qed (use e' f None in auto)
    qed
    with e' lt show ?thesis by (intro exI [of _ e']) auto
  qed
qed

lemma resolve_from_None:
  assumes "resolve_from positions path e = None" "boundary path e" "boundary path f" "f \<le> e"
  shows "positions (take f path) = None"
  using assms
proof (induction positions path e rule: resolve_from.induct)
  case (1 positions path e)
  then have none: "positions (take e path) = None"
    by (auto simp: resolve_from.simps [of positions path e] split: option.splits)
  show ?case
  proof (cases "rfind CHR ''/'' (take e path)")
    case None
    then have "CHR ''/'' \<notin> set (take e path)" by (simp add: rfind_None)
    moreover have "f < e \<Longrightarrow> CHR ''/'' \<in> set (take e path)"
      using "1.prems" by (auto simp: boundary_def in_set_conv_nth intro!: exI [of _ f])
    ultimately have "f = e" using "1.prems"(4) by (cases "f < e") auto
    with none show ?thesis by simp
  next
    case (Some e1)
    have lt: "e1 < e" "e1 < length path"
      using rfind_less [OF Some] by auto
    then have b: "boundary path e1"
      using rfind_Some [OF Some] by (simp add: boundary_def)
    have rec: "resolve_from positions path e1 = None"
      using "1.prems"(1) none Some by (simp add: resolve_from.simps [of positions path e])
    consider "f \<le> e1" | "f = e" | "e1 < f" "f < e" using "1.prems"(4) by linarith
    then show ?thesis
    proof cases
      case 1
      with "1.IH" [OF none Some rec b] "1.prems"(3) show ?thesis by blast
    next
      case 3
      with rfind_Some [OF Some] "1.prems"(2,3) lt show ?thesis
        by (auto simp: boundary_def)
    qed (use none in auto)
  qed
qed

lemma route_positions_Some:
  "route_positions routes r = Some i \<Longrightarrow> i < length routes \<and> routes ! i = r"
  unfolding route_positions_def
  by (drule map_of_SomeD) (auto simp: in_set_zip)

lemma route_positions_None: "route_positions routes r = None \<longleftrightarrow> r \<notin> set routes"
proof -
  have "fst ` set (zip routes [0..<length routes]) = set routes"
    by (metis diff_zero length_upt list.set_map map_fst_zip)
  then show ?thesis by (simp add: route_positions_def map_of_eq_None_iff)
qed

lemma resolver_new_None: "resolver_new ixs r = None \<Longrightarrow> ix \<in> set ixs \<Longrightarrow> ix_route ix \<noteq> r"
  by (auto simp: resolver_new_def route_positions_None)

lemma sort_key_binary:
  "sort_key (\<lambda>x. if P x then 1 else (0::nat)) xs = filter (\<lambda>x. \<not> P x) xs @ filter P xs"
proof (rule properties_for_sort_key)
  show "mset (filter (\<lambda>x. \<not> P x) xs @ filter P xs) = mset xs"
    by (induction xs) auto
  show "\<And>k. k \<in> set (filter (\<lambda>x. \<not> P x) xs @ filter P xs) \<Longrightarrow>
     filter (\<lambda>x. (if P k then 1 else 0) = (if P x then 1 else (0::nat)))
       (filter (\<lambda>x. \<not> P x) xs @ filter P xs) =
     filter (\<lambda>x. (if P k then 1 else 0) = (if P x then 1 else (0::nat))) xs"
    by (auto simp: filter_filter intro: filter_cong)
  show "sorted (map (\<lambda>x. if P x then 1 else (0::nat)) (filter (\<lambda>x. \<not> P x) xs @ filter P xs))"
  proof -
    have "map (\<lambda>x. if P x then 1 else (0::nat)) (filter (\<lambda>x. \<not> P x) xs @ filter P xs) =
          replicate (length (filter (\<lambda>x. \<not> P x) xs)) 0 @ replicate (length (filter P xs)) 1"
      by (simp add: map_replicate_const [symmetric] cong: map_cong)
    then show ?thesis by (simp add: sorted_append sorted_replicate)
  qed
qed

section \<open>Properties\<close>

text \<open>\<open>RouteResolver::resolve\<close> answers with the longest configured route that is a segment-aligned
  prefix of the path, with the rest of the path after it, and answers nothing only when no
  configured route is such a prefix.\<close>

theorem resolve_longest:
  "case resolve (resolver_new ixs) path of
     None \<Rightarrow> \<forall>ix \<in> set ixs. remainder path (ix_route ix) = None
   | Some (i, rest) \<Rightarrow>
       i < length ixs \<and> remainder path (ix_route (ixs ! i)) = Some rest \<and>
       (\<forall>ix \<in> set ixs. remainder path (ix_route ix) \<noteq> None \<longrightarrow>
          length (ix_route ix) \<le> length (ix_route (ixs ! i)))"
proof (cases "resolve (resolver_new ixs) path")
  case None
  then have none: "\<And>f. boundary path f \<Longrightarrow> f \<le> length path \<Longrightarrow> resolver_new ixs (take f path) = None"
    using resolve_from_None [of "resolver_new ixs" path "length path"]
    by (simp add: resolve_def boundary_def)
  have "remainder path (ix_route ix) = None" if "ix \<in> set ixs" for ix
  proof (rule ccontr)
    assume "remainder path (ix_route ix) \<noteq> None"
    then obtain e where "boundary path e" "ix_route ix = take e path"
      by (auto simp: remainder_iff)
    with none [of e] that show False
      by (auto simp: boundary_def dest: resolver_new_None)
  qed
  with None show ?thesis by simp
next
  case (Some a)
  obtain i rest where a: "a = (i, rest)" by (cases a)
  from Some a obtain e where e: "e \<le> length path" "boundary path e"
    "resolver_new ixs (take e path) = Some i"
    "rest = (if e = length path then [] else drop (Suc e) path)"
    "\<forall>f. boundary path f \<and> e < f \<and> f \<le> length path \<longrightarrow> resolver_new ixs (take f path) = None"
    using resolve_from_Some [of "resolver_new ixs" path "length path" i rest]
    by (auto simp: resolve_def boundary_def)
  from e(3) have i: "i < length ixs" "ix_route (ixs ! i) = take e path"
    by (auto simp: resolver_new_def dest: route_positions_Some)
  have "length (ix_route ix) \<le> e"
    if ix: "ix \<in> set ixs" "remainder path (ix_route ix) \<noteq> None" for ix
  proof (rule ccontr)
    assume long: "\<not> length (ix_route ix) \<le> e"
    from ix(2) obtain f where f: "boundary path f" "ix_route ix = take f path"
      by (auto simp: remainder_iff)
    with long e(5) have "resolver_new ixs (take f path) = None" by (auto simp: boundary_def)
    with f ix(1) show False by (auto dest: resolver_new_None)
  qed
  with Some a i e show ?thesis by (auto simp: remainder_iff)
qed

definition sample_index :: "string \<Rightarrow> unit index_kind \<Rightarrow> unit index" where
  "sample_index route kind =
     \<lparr>ix_name = route, ix_route = route, ix_ecosystem = Pypi, ix_kind = kind,
      ix_policy = policy_compile \<lparr>cfg_allow_projects = [], cfg_block_projects = [],
        cfg_protected_names = [], cfg_max_file_size_bytes = None,
        cfg_max_project_size_bytes = None\<rparr> id,
      ix_acl = index_acl_default\<rparr>"

definition sample_indexes :: "unit index list" where
  "sample_indexes =
     [sample_index ''team'' (HostedKind False), sample_index ''team/dev'' (CachedKind () False),
      sample_index ''b'' (HostedKind True)]"

theorem resolve_longest_witness:
  "resolve (resolver_new sample_indexes) ''team/dev/simple'' = Some (1, ''simple'') \<and>
   remainder ''team/dev/simple'' ''team'' = Some ''dev/simple'' \<and>
   length ''team'' \<le> length (ix_route (sample_indexes ! 1))"
proof -
  have r: "resolve (resolver_new sample_indexes) ''team/dev/simple'' = Some (1, ''simple'')"
    by code_simp
  have m: "remainder ''team/dev/simple'' ''team'' = Some ''dev/simple''"
    by code_simp
  have "ix_route (sample_index ''team'' (HostedKind False)) = ''team''"
    "sample_index ''team'' (HostedKind False) \<in> set sample_indexes"
    by (simp_all add: sample_index_def sample_indexes_def)
  moreover have "\<forall>ix \<in> set sample_indexes. remainder ''team/dev/simple'' (ix_route ix) \<noteq> None \<longrightarrow>
      length (ix_route ix) \<le> length (ix_route (sample_indexes ! 1))"
    using resolve_longest [of sample_indexes "''team/dev/simple''"] unfolding r by simp
  ultimately have "length ''team'' \<le> length (ix_route (sample_indexes ! 1))"
    using m by (metis option.discI)
  with r m show ?thesis by blast
qed

text \<open>\<open>shadow_order\<close> puts every member that is not cached before every cached one and keeps the
  configured order within both groups, whatever order the operator wrote.\<close>

theorem shadow_order_partition:
  assumes "list_all (\<lambda>i. i < length ixs) ls"
  shows "shadow_order ixs ls =
    Some (filter (\<lambda>i. \<not> is_cached (ix_kind (ixs ! i))) ls @ filter (\<lambda>i. is_cached (ix_kind (ixs ! i))) ls)"
proof (cases "length ls < 2")
  case True
  then have "ls = [] \<or> (\<exists>i. ls = [i])" by (cases ls) auto
  then show ?thesis by (auto simp: shadow_order_def)
next
  case False
  have "\<not> list_ex (\<lambda>i. length ixs \<le> i) ls"
    using assms by (auto simp: list_ex_iff list_all_iff)
  with False show ?thesis
    by (simp add: shadow_order_def sort_key_binary)
qed

theorem shadow_order_partition_witness:
  "shadow_order sample_indexes [1, 0, 2] = Some [0, 2, 1]"
  using shadow_order_partition [of sample_indexes "[1, 0, 2]"]
  by (simp add: sample_indexes_def sample_index_def)

end
