(* ===== verification/MetaStore.thy ===== *)
theory MetaStore
  imports Roles PolicyEngine "HOL-Library.Option_ord"
begin

text \<open>
  The metadata database, \<open>crates/peryx-storage/src/meta/mod.rs\<close>: the record types of every table
  and the database as one record with a field per \<open>TableDefinition\<close>.

  redb gives one writer and snapshot reads, and a transaction that is dropped before its
  \<open>commit\<close> changes nothing.  A write operation is therefore a function from a database to an error
  or a result with the new database: an error carries no database, the caller's stays as it was.
  A key built with \<open>serde_json::to_string\<close> from a tuple or a struct stands for that tuple, and an
  \<open>Uuid\<close> for its 128-bit number.
\<close>

section \<open>Errors\<close>

text \<open>
  The first five constructors are failures of redb itself, which abort the transaction wherever
  they happen and are never produced by the model.  \<open>Overflow\<close> has no counterpart in the source:
  it marks an unchecked \<open>+\<close> or \<open>-\<close> on an unsigned integer leaving its range, which panics in a debug
  build and wraps in a release build.
\<close>

datatype meta_error =
    DatabaseError
  | TransactionError
  | TableError
  | StorageError
  | CommitError
  | Decode
  | ReplicaSerialConflict (serial_expected: nat) (serial_actual: nat)
  | DriverPrecondition string
  | Overflow

definition sub_u64 :: "nat \<Rightarrow> nat \<Rightarrow> meta_error + nat" where
  "sub_u64 a b = ok_or Overflow (checked_sub_u64 a b)"

definition add_u64 :: "nat \<Rightarrow> nat \<Rightarrow> meta_error + nat" where
  "add_u64 a b = ok_or Overflow (checked_add_u64 a b)"

section \<open>Quota rows\<close>

type_synonym uuid = nat

datatype accounting_class = HostedClass | CachedClass | GeneratedClass | TrashClass

datatype quota_limit = FileBytes | AccountedBytes | Projects | VersionsPerProject

datatype quota_reservation_state = Reserved | Committed

record quota_value =
  qv_committed :: nat
  qv_reserved :: nat

record quota_usage =
  file_bytes :: quota_value
  accounted_bytes :: quota_value
  projects :: quota_value

record quota_reservation_record =
  qr_id :: uuid
  qr_repository :: string
  qr_project :: "string option"
  qr_version :: "string option"
  qr_digest :: string
  qr_bytes :: nat
  qr_class :: accounting_class
  qr_state :: quota_reservation_state
  qr_created_at_unix :: int
  qr_violations :: "quota_limit list"

record references =
  rf_committed :: nat
  rf_reserved :: nat

record project_usage =
  pu_references :: references
  pu_versions :: quota_value

record blob_usage =
  bu_bytes :: nat
  bu_references :: references

section \<open>Journal rows\<close>

text \<open>
  A blob reference derives its order from its fields, so a \<open>BTreeSet\<close> of them iterates by digest
  and then by size.
\<close>

datatype driver_blob_reference = BlobReference (br_sha256: string) (br_size: nat)

instantiation driver_blob_reference :: linorder
begin

definition less_eq_driver_blob_reference :: "driver_blob_reference \<Rightarrow> driver_blob_reference \<Rightarrow> bool" where
  "less_eq_driver_blob_reference a b \<longleftrightarrow> (br_sha256 a, br_size a) \<le> (br_sha256 b, br_size b)"

definition less_driver_blob_reference :: "driver_blob_reference \<Rightarrow> driver_blob_reference \<Rightarrow> bool" where
  "less_driver_blob_reference a b \<longleftrightarrow> (br_sha256 a, br_size a) < (br_sha256 b, br_size b)"

instance
  by standard
    (auto simp: less_eq_driver_blob_reference_def less_driver_blob_reference_def
      intro: driver_blob_reference.expand)

end

datatype driver_mutation = Put (dm_key: string) (dm_value: bytes) | Delete_key (dm_key: string)

record journal_record =
  jr_serial :: nat
  jr_payload :: bytes
  jr_mutations :: "driver_mutation list"
  jr_blobs :: "driver_blob_reference list"

section \<open>Policy rows\<close>

instantiation policy_action :: linorder
begin

fun policy_action_rank :: "policy_action \<Rightarrow> nat" where
  "policy_action_rank Upload = 0"
| "policy_action_rank Cached = 1"
| "policy_action_rank Serve = 2"

definition less_eq_policy_action :: "policy_action \<Rightarrow> policy_action \<Rightarrow> bool" where
  "less_eq_policy_action a b \<longleftrightarrow> policy_action_rank a \<le> policy_action_rank b"

definition less_policy_action :: "policy_action \<Rightarrow> policy_action \<Rightarrow> bool" where
  "less_policy_action a b \<longleftrightarrow> policy_action_rank a < policy_action_rank b"

instance
proof
  fix a b :: policy_action
  show "a \<le> b \<Longrightarrow> b \<le> a \<Longrightarrow> a = b"
    by (cases a; cases b) (simp_all add: less_eq_policy_action_def)
qed (auto simp: less_eq_policy_action_def less_policy_action_def)

end

record policy_input_generation_row =
  pg_repository :: nat
  pg_catalog :: nat
  pg_policy :: nat

record policy_decision_record =
  pr_id :: uuid
  pr_repository :: string
  pr_project :: string
  pr_version :: "string option"
  pr_filename :: "string option"
  pr_source :: "string option"
  pr_action :: policy_action
  pr_state :: policy_decision_state
  pr_rule :: "string option"
  pr_reason :: "string option"
  pr_evaluated_at_unix :: int
  pr_input_generation :: policy_input_generation_row
  pr_next_eligible_at_unix :: "int option"

text \<open>\<open>PolicyDecisionSubject\<close>: repository, project, version, filename, source and action.\<close>

type_synonym policy_decision_subject =
  "string \<times> string \<times> string option \<times> string option \<times> string option \<times> policy_action"

section \<open>Webhook, job and account rows\<close>

datatype webhook_delivery_status = Pending | Delivered | Failed

record webhook_delivery_record =
  wd_id :: string
  wd_index :: string
  wd_target :: string
  wd_event :: string
  wd_payload :: string
  wd_status :: webhook_delivery_status
  wd_attempts :: nat
  wd_created_at_unix :: int
  wd_updated_at_unix :: int
  wd_next_attempt_at_unix :: "int option"
  wd_response_status :: "nat option"
  wd_last_error :: "string option"

datatype job_kind = CacheRefresh

datatype job_state = Running | JobSucceeded | JobFailed

record job_run_record =
  job_id :: string
  job_kind_of :: job_kind
  job_scope :: string
  job_state_of :: job_state
  job_started_at_unix :: int
  job_finished_at_unix :: "int option"
  job_items_processed :: nat
  job_items_changed :: nat
  job_error :: "string option"

record user_name =
  un_display :: string
  un_canonical :: string

datatype user_state = Active | Disabled

record server_user =
  su_id :: user_id
  su_name :: user_name
  su_state :: user_state
  su_revision :: nat

datatype user_lifecycle_change =
    UserCreated string
  | UserRenamed string string
  | UserDisabled
  | UserReactivated

record user_lifecycle_event =
  ue_user_id :: user_id
  ue_sequence :: nat
  ue_change :: user_lifecycle_change

type_synonym password_verifier = string

section \<open>The database\<close>

record meta_store =
  serial_table :: "(string, nat) tbl"
  webhook_delivery_table :: "(string, webhook_delivery_record row) tbl"
  webhook_due_table :: "(string, string) tbl"
  job_run_table :: "(string, job_run_record row) tbl"
  policy_decision_table :: "(string, policy_decision_record row) tbl"
  policy_decision_current :: "(policy_decision_subject, string) tbl"
  policy_decision_current_id :: "(string, policy_decision_subject) tbl"
  policy_input_generation_table :: "(string, policy_input_generation_row row) tbl"
  quota_usage_table :: "(string, quota_usage row) tbl"
  quota_project_table :: "(string \<times> string, project_usage row) tbl"
  quota_version_table :: "(string \<times> string \<times> string, references row) tbl"
  quota_blob_table :: "(string \<times> string, blob_usage row) tbl"
  quota_reservation_table :: "(uuid, quota_reservation_record row) tbl"
  quota_pending_table :: "(uuid, nat) tbl"
  journal_table :: "(nat, bytes) tbl"
  writer_table :: "(string, string) tbl"
  journal_mutations_table :: "(nat, driver_mutation list row) tbl"
  journal_blobs_table :: "(nat, driver_blob_reference list row) tbl"
  driver_kv :: "(string, bytes) tbl"
  analytics_table :: "(string, bytes) tbl"
  user_table :: "(string, server_user row) tbl"
  user_name_table :: "(string, user_id) tbl"
  user_event_table :: "(string, user_lifecycle_event row) tbl"
  user_verifier_table :: "(string, password_verifier row) tbl"
  role_grant_table :: "(string, role_grant row) tbl"

text \<open>\<open>MetaStore::open\<close> on a path that does not exist yet: every table is created empty.\<close>

definition open_new :: meta_store where
  "open_new = \<lparr>serial_table = [], webhook_delivery_table = [], webhook_due_table = [],
     job_run_table = [], policy_decision_table = [], policy_decision_current = [],
     policy_decision_current_id = [], policy_input_generation_table = [], quota_usage_table = [],
     quota_project_table = [], quota_version_table = [], quota_blob_table = [],
     quota_reservation_table = [], quota_pending_table = [], journal_table = [],
     writer_table = [], journal_mutations_table = [], journal_blobs_table = [],
     driver_kv = [], analytics_table = [], user_table = [], user_name_table = [],
     user_event_table = [], user_verifier_table = [], role_grant_table = []\<rparr>"

definition SERIAL_KEY :: string where "SERIAL_KEY = ''serial''"

definition WEBHOOK_SERIAL_KEY :: string where "WEBHOOK_SERIAL_KEY = ''webhook_delivery''"

definition JOB_SERIAL_KEY :: string where "JOB_SERIAL_KEY = ''job_run''"

definition POLICY_DECISION_SERIAL_KEY :: string where "POLICY_DECISION_SERIAL_KEY = ''policy_decision''"

definition WRITER_KEY :: string where "WRITER_KEY = ''active''"

lemmas serial_keys =
  SERIAL_KEY_def WEBHOOK_SERIAL_KEY_def JOB_SERIAL_KEY_def POLICY_DECISION_SERIAL_KEY_def

section \<open>Reading rows\<close>

text \<open>\<open>read_record\<close> of \<open>quota.rs\<close>, the pattern every store uses: absent, decoded or undecodable.\<close>

definition read_record :: "('k, 'r row) tbl \<Rightarrow> 'k \<Rightarrow> meta_error + 'r option" where
  "read_record t k = (case t_get t k of
      None \<Rightarrow> Inr None
    | Some Corrupt \<Rightarrow> Inl Decode
    | Some (Row r) \<Rightarrow> Inr (Some r))"

definition write_record :: "('k::linorder, 'r row) tbl \<Rightarrow> 'k \<Rightarrow> 'r \<Rightarrow> ('k, 'r row) tbl" where
  "write_record t k r = t_insert t k (Row r)"

fun decode_all :: "'r row list \<Rightarrow> meta_error + 'r list" where
  "decode_all [] = Inr []"
| "decode_all (Corrupt # rows) = Inl Decode"
| "decode_all (Row r # rows) = rbind (decode_all rows) (\<lambda>rs. Inr (r # rs))"

definition table_serial :: "(string, nat) tbl \<Rightarrow> string \<Rightarrow> nat" where
  "table_serial t k = unwrap_or 0 (t_get t k)"

text \<open>No row of a table fails to decode.\<close>

definition rows_ok :: "('k, 'r row) tbl \<Rightarrow> bool" where
  "rows_ok t \<longleftrightarrow> (\<forall>p \<in> set t. snd p \<noteq> Corrupt)"

lemma rows_ok_Nil [simp]: "rows_ok []"
  by (simp add: rows_ok_def)

lemma t_insert_set: "set (t_insert t k v) \<subseteq> insert (k, v) (set t)"
  by (induction t k v rule: t_insert.induct) auto

lemma rows_ok_write [simp]: "rows_ok t \<Longrightarrow> rows_ok (write_record t k r)"
  using t_insert_set [of t k "Row r"] by (auto simp: rows_ok_def write_record_def)

lemma rows_ok_remove [simp]: "rows_ok t \<Longrightarrow> rows_ok (t_remove t k)"
  by (simp add: rows_ok_def t_remove_def)

lemma rows_ok_get: "rows_ok t \<Longrightarrow> t_get t k \<noteq> Some Corrupt"
  by (auto simp: rows_ok_def dest!: t_get_mem)

lemma read_record_ok: "rows_ok t \<Longrightarrow> \<exists>r. read_record t k = Inr r"
  using rows_ok_get [of t k] by (auto simp: read_record_def split: option.split row.split)

lemma read_record_Row [simp]: "t_get t k = Some (Row r) \<Longrightarrow> read_record t k = Inr (Some r)"
  by (simp add: read_record_def)

lemma read_record_None [simp]: "t_get t k = None \<Longrightarrow> read_record t k = Inr None"
  by (simp add: read_record_def)

lemma read_record_Inr_Some: "read_record t k = Inr (Some r) \<longleftrightarrow> t_get t k = Some (Row r)"
  by (simp add: read_record_def split: option.split row.split)

lemma read_record_Inr_None: "read_record t k = Inr None \<longleftrightarrow> t_get t k = None"
  by (simp add: read_record_def split: option.split row.split)

lemma read_record_Inl: "read_record t k = Inl e \<longleftrightarrow> t_get t k = Some Corrupt \<and> e = Decode"
  by (auto simp: read_record_def split: option.split row.split)

lemma t_wf_write [simp]: "t_wf t \<Longrightarrow> t_wf (write_record t k r)"
  by (simp add: write_record_def)

lemma t_get_write [simp]:
  "t_get (write_record t k r) k' = (if k' = k then Some (Row r) else t_get t k')"
  by (simp add: write_record_def)

text \<open>The row under a key, or a default when there is none.\<close>

definition row_or :: "('k, 'v row) tbl \<Rightarrow> 'k \<Rightarrow> 'v \<Rightarrow> 'v" where
  "row_or t k d = (case t_get t k of Some (Row v) \<Rightarrow> v | _ \<Rightarrow> d)"

lemma row_or_write [simp]: "row_or (write_record t k v) k' d = (if k' = k then v else row_or t k' d)"
  by (simp add: row_or_def)

lemma read_record_row_or: "rows_ok t \<Longrightarrow> rbind (read_record t k) (\<lambda>r. Inr (unwrap_or d r)) = Inr (row_or t k d)"
  using rows_ok_get [of t k] by (auto simp: read_record_def row_or_def split: option.split row.split)

lemma decode_all_ok: "Corrupt \<notin> set rows \<Longrightarrow> decode_all rows = Inr (map (\<lambda>x. case x of Row r \<Rightarrow> r) rows)"
  by (induction rows rule: decode_all.induct) auto

lemma decode_all_map [simp]: "decode_all (map Row rs) = Inr rs"
  by (induction rs) auto

lemma decode_all_Inr: "decode_all rows = Inr rs \<longleftrightarrow> rows = map Row rs"
  by (induction rows arbitrary: rs rule: decode_all.induct) (auto simp: rbind_eq_Inr)

lemma sub_u64_Inr [simp]: "sub_u64 a b = Inr c \<longleftrightarrow> b \<le> a \<and> c = a - b"
  by (auto simp: sub_u64_def checked_sub_u64_def ok_or_def)

lemma sub_u64_ok: "b \<le> a \<Longrightarrow> sub_u64 a b = Inr (a - b)"
  by simp

lemma add_u64_Inr [simp]: "add_u64 a b = Inr c \<longleftrightarrow> a + b \<le> u64_max \<and> c = a + b"
  by (auto simp: add_u64_def checked_add_u64_def ok_or_def)

section \<open>Sums over a table\<close>

text \<open>
  What a counter must equal is a sum over the rows of another table.  \<open>t_at\<close> is the summand a key
  contributes, nothing when its row is absent.
\<close>

definition t_sum :: "('k \<Rightarrow> 'v \<Rightarrow> nat) \<Rightarrow> ('k, 'v) tbl \<Rightarrow> nat" where
  "t_sum f t = sum_list (map (\<lambda>p. f (fst p) (snd p)) t)"

definition t_at :: "('k \<Rightarrow> 'v \<Rightarrow> nat) \<Rightarrow> ('k, 'v) tbl \<Rightarrow> 'k \<Rightarrow> nat" where
  "t_at f t k = (case t_get t k of None \<Rightarrow> 0 | Some v \<Rightarrow> f k v)"

lemma t_sum_Nil [simp]: "t_sum f [] = 0"
  by (simp add: t_sum_def)

lemma t_at_none: "k \<notin> fst ` set t \<Longrightarrow> t_at f t k = 0"
  by (simp add: t_at_def t_get_None [symmetric])

lemma t_sum_insert: "t_wf t \<Longrightarrow> t_sum f (t_insert t k v) + t_at f t k = t_sum f t + f k v"
proof (induction t k v rule: t_insert.induct)
  case (2 k' v' t k v)
  then have "t_wf t" "k < k' \<Longrightarrow> map_of t k = None"
    by (auto simp: t_wf_def map_of_eq_None_iff)
  with 2 show ?case
    by (cases "k < k'"; cases "k = k'")
      (auto simp: t_sum_def t_at_def t_get_def split: option.split)
qed (simp add: t_sum_def t_at_def)

lemma t_remove_absent: "k \<notin> fst ` set t \<Longrightarrow> t_remove t k = t"
  by (auto simp: t_remove_def filter_id_conv)

lemma t_sum_remove: "t_wf t \<Longrightarrow> t_sum f (t_remove t k) + t_at f t k = t_sum f t"
proof (induction t)
  case (Cons p t)
  obtain k' v' where p: "p = (k', v')" by (cases p)
  from Cons.prems have "t_wf t" "k' \<notin> fst ` set t" by (auto simp: t_wf_def p)
  with Cons.IH t_remove_absent [of k' t] show ?case
    by (auto simp: p t_sum_def t_at_def t_get_def t_remove_def)
qed (simp add: t_sum_def t_remove_def t_at_def)

lemma t_at_le_sum: "t_wf t \<Longrightarrow> t_at f t k \<le> t_sum f t"
  using t_sum_remove [of t f k] by simp

lemma t_sum_mono: "(\<And>k v. (k, v) \<in> set t \<Longrightarrow> f k v \<le> g k v) \<Longrightarrow> t_sum f t \<le> t_sum g t"
  by (auto simp: t_sum_def intro!: sum_list_mono)

lemma t_sum_0: "t_sum f t = 0 \<longleftrightarrow> (\<forall>(k, v) \<in> set t. f k v = 0)"
  by (auto simp: t_sum_def)

lemma t_sum_add: "t_sum (\<lambda>k v. f k v + g k v) t = t_sum f t + t_sum g t"
  by (induction t) (auto simp: t_sum_def)

end
