(* ===== verification/Quota.thy ===== *)
theory Quota
  imports MetaStore
begin

text \<open>
  Repository quotas, \<open>crates/peryx-storage/src/meta/quota.rs\<close>: reservations, the counters they
  charge at repository, project, version and digest level, and the commit, release and repair
  transitions.  The counters are redundant with the reservation table; the invariant
  \<open>quota_inv\<close> says exactly how, and the properties rest on it.
\<close>

section \<open>Data\<close>

datatype quota_error =
    QuotaStore meta_error
  | QuotaEmpty string
  | QuotaFieldTooLong string nat
  | VersionWithoutProject
  | DigestSize string nat nat
  | CounterOverflow
  | ReservationUnavailable uuid
  | Exceeded "quota_limit list"

record quota_limits =
  max_file_bytes :: "nat option"
  max_accounted_bytes :: "nat option"
  max_projects :: "nat option"
  max_versions_per_project :: "nat option"
  audit :: bool

record new_quota_reservation =
  nq_repository :: string
  nq_project :: "string option"
  nq_version :: "string option"
  nq_digest :: string
  nq_bytes :: nat
  nq_class :: accounting_class
  nq_created_at_unix :: int

record quota_repair_report =
  repair_released :: nat
  repair_remaining :: bool

record reservation_rows =
  rr_usage :: quota_usage
  rr_project :: project_usage
  rr_version :: references
  rr_blob :: blob_usage
  rr_project_key :: "(string \<times> string) option"
  rr_version_key :: "(string \<times> string \<times> string) option"
  rr_blob_key :: "string \<times> string"

definition MAX_IDENTITY_BYTES :: nat where "MAX_IDENTITY_BYTES = 512"

definition quota_value_default :: quota_value where
  "quota_value_default = \<lparr>qv_committed = 0, qv_reserved = 0\<rparr>"

definition quota_usage_default :: quota_usage where
  "quota_usage_default = \<lparr>file_bytes = quota_value_default, accounted_bytes = quota_value_default,
     projects = quota_value_default\<rparr>"

definition references_default :: references where
  "references_default = \<lparr>rf_committed = 0, rf_reserved = 0\<rparr>"

definition project_usage_default :: project_usage where
  "project_usage_default = \<lparr>pu_references = references_default, pu_versions = quota_value_default\<rparr>"

definition blob_usage_default :: blob_usage where
  "blob_usage_default = \<lparr>bu_bytes = 0, bu_references = references_default\<rparr>"

lemmas quota_defaults = quota_value_default_def quota_usage_default_def references_default_def
  project_usage_default_def blob_usage_default_def

definition qv_total :: "quota_value \<Rightarrow> nat" where
  "qv_total v = saturating_add_u64 (qv_committed v) (qv_reserved v)"

definition rf_total :: "references \<Rightarrow> nat" where
  "rf_total r = saturating_add_u64 (rf_committed r) (rf_reserved r)"

section \<open>Counter arithmetic\<close>

definition quota_checked_add :: "nat \<Rightarrow> nat \<Rightarrow> quota_error + nat" where
  "quota_checked_add v amount = ok_or CounterOverflow (checked_add_u64 v amount)"

definition quota_sub :: "nat \<Rightarrow> nat \<Rightarrow> quota_error + nat" where
  "quota_sub v amount = map_err QuotaStore (sub_u64 v amount)"

definition ensure_total_add :: "quota_value \<Rightarrow> nat \<Rightarrow> quota_error + unit" where
  "ensure_total_add v amount =
     (case checked_add_u64 (qv_committed v) (qv_reserved v) of
        None \<Rightarrow> Inl CounterOverflow
      | Some t \<Rightarrow> (case checked_add_u64 t amount of
          None \<Rightarrow> Inl CounterOverflow
        | Some _ \<Rightarrow> Inr ()))"

definition ensure_references_add :: "references \<Rightarrow> quota_error + unit" where
  "ensure_references_add r =
     (case checked_add_u64 (rf_committed r) (rf_reserved r) of
        None \<Rightarrow> Inl CounterOverflow
      | Some t \<Rightarrow> (case checked_add_u64 t 1 of
          None \<Rightarrow> Inl CounterOverflow
        | Some _ \<Rightarrow> Inr ()))"

definition move_value :: "quota_value \<Rightarrow> nat \<Rightarrow> quota_error + quota_value" where
  "move_value v amount =
     rbind (quota_sub (qv_reserved v) amount) (\<lambda>r.
     rbind (quota_checked_add (qv_committed v) amount) (\<lambda>c.
     Inr \<lparr>qv_committed = c, qv_reserved = r\<rparr>))"

definition subtract_value ::
    "quota_value \<Rightarrow> quota_reservation_state \<Rightarrow> nat \<Rightarrow> quota_error + quota_value" where
  "subtract_value v st amount =
     (if st = Committed
      then rbind (quota_sub (qv_committed v) amount) (\<lambda>c. Inr (v\<lparr>qv_committed := c\<rparr>))
      else rbind (quota_sub (qv_reserved v) amount) (\<lambda>r. Inr (v\<lparr>qv_reserved := r\<rparr>)))"

definition subtract_reference ::
    "references \<Rightarrow> quota_reservation_state \<Rightarrow> quota_error + references" where
  "subtract_reference rf st =
     (if st = Committed
      then rbind (quota_sub (rf_committed rf) 1) (\<lambda>c. Inr (rf\<lparr>rf_committed := c\<rparr>))
      else rbind (quota_sub (rf_reserved rf) 1) (\<lambda>r. Inr (rf\<lparr>rf_reserved := r\<rparr>)))"

definition rebalance_or_remove ::
    "quota_value \<Rightarrow> references \<Rightarrow> quota_reservation_state \<Rightarrow> nat \<Rightarrow> quota_error + quota_value" where
  "rebalance_or_remove v rf released amount =
     (if rf_total rf = 0 then subtract_value v released amount
      else if released = Committed \<and> rf_committed rf = 0
      then rbind (quota_sub (qv_committed v) amount) (\<lambda>c.
           rbind (quota_checked_add (qv_reserved v) amount) (\<lambda>r.
           Inr \<lparr>qv_committed = c, qv_reserved = r\<rparr>))
      else Inr v)"

text \<open>
  The two steps that \<open>transition\<close>, \<open>transition_project\<close> and \<open>transition_version\<close> each spell out
  for their own counter and reference count.
\<close>

definition commit_counted ::
    "quota_value \<Rightarrow> references \<Rightarrow> nat \<Rightarrow> quota_error + (quota_value \<times> references)" where
  "commit_counted v rf amount =
     rbind (if rf_committed rf = 0 then move_value v amount else Inr v) (\<lambda>v.
     rbind (quota_sub (rf_reserved rf) 1) (\<lambda>r.
     rbind (quota_checked_add (rf_committed rf) 1) (\<lambda>c.
     Inr (v, \<lparr>rf_committed = c, rf_reserved = r\<rparr>))))"

definition release_counted ::
    "quota_value \<Rightarrow> references \<Rightarrow> quota_reservation_state \<Rightarrow> nat
      \<Rightarrow> quota_error + (quota_value \<times> references)" where
  "release_counted v rf st amount =
     rbind (subtract_reference rf st) (\<lambda>rf.
     rbind (rebalance_or_remove v rf st amount) (\<lambda>v. Inr (v, rf)))"

definition settle_counted ::
    "bool \<Rightarrow> quota_value \<Rightarrow> references \<Rightarrow> quota_reservation_state \<Rightarrow> nat
      \<Rightarrow> quota_error + (quota_value \<times> references)" where
  "settle_counted commit v rf st amount =
     (if commit then commit_counted v rf amount else release_counted v rf st amount)"

definition write_or_remove ::
    "('k::linorder, 'r row) tbl \<Rightarrow> 'k \<Rightarrow> references \<Rightarrow> 'r \<Rightarrow> ('k, 'r row) tbl" where
  "write_or_remove t k rf r = (if rf_total rf = 0 then t_remove t k else write_record t k r)"

section \<open>Admission\<close>

fun validate_fields :: "(string \<times> string option) list \<Rightarrow> quota_error + unit" where
  "validate_fields [] = Inr ()"
| "validate_fields ((field, v) # rest) =
     (if v = Some [] then Inl (QuotaEmpty field)
      else if is_some_and v (\<lambda>v. MAX_IDENTITY_BYTES < length v)
      then Inl (QuotaFieldTooLong field MAX_IDENTITY_BYTES)
      else validate_fields rest)"

definition validate_request :: "new_quota_reservation \<Rightarrow> quota_error + unit" where
  "validate_request request =
     rbind (validate_fields
       [(''repository'', Some (nq_repository request)), (''project'', nq_project request),
        (''version'', nq_version request), (''digest'', Some (nq_digest request))]) (\<lambda>_.
     if nq_version request \<noteq> None \<and> nq_project request = None
     then Inl VersionWithoutProject else Inr ())"

definition quota_read :: "('k, 'r row) tbl \<Rightarrow> 'k \<Rightarrow> 'r \<Rightarrow> quota_error + 'r" where
  "quota_read t k dflt = rbind (map_err QuotaStore (read_record t k)) (\<lambda>r. Inr (unwrap_or dflt r))"

definition request_project_key :: "new_quota_reservation \<Rightarrow> (string \<times> string) option" where
  "request_project_key request = map_option (Pair (nq_repository request)) (nq_project request)"

definition request_version_key :: "new_quota_reservation \<Rightarrow> (string \<times> string \<times> string) option" where
  "request_version_key request =
     (case (nq_project request, nq_version request) of
        (Some p, Some v) \<Rightarrow> Some (nq_repository request, p, v)
      | _ \<Rightarrow> None)"

definition rows_read :: "meta_store \<Rightarrow> new_quota_reservation \<Rightarrow> quota_error + reservation_rows" where
  "rows_read s request =
     rbind (quota_read (quota_usage_table s) (nq_repository request) quota_usage_default) (\<lambda>usage.
     rbind (case request_project_key request of
              Some key \<Rightarrow> quota_read (quota_project_table s) key project_usage_default
            | None \<Rightarrow> Inr project_usage_default) (\<lambda>project.
     rbind (case request_version_key request of
              Some key \<Rightarrow> quota_read (quota_version_table s) key references_default
            | None \<Rightarrow> Inr references_default) (\<lambda>version.
     rbind (quota_read (quota_blob_table s) (nq_repository request, nq_digest request)
              blob_usage_default) (\<lambda>blob.
     if 0 < rf_total (bu_references blob) \<and> bu_bytes blob \<noteq> nq_bytes request
     then Inl (DigestSize (nq_digest request) (bu_bytes blob) (nq_bytes request))
     else Inr \<lparr>rr_usage = usage, rr_project = project, rr_version = version,
            rr_blob = blob\<lparr>bu_bytes := nq_bytes request\<rparr>,
            rr_project_key = request_project_key request,
            rr_version_key = request_version_key request,
            rr_blob_key = (nq_repository request, nq_digest request)\<rparr>))))"

definition over_limit :: "nat option \<Rightarrow> nat \<Rightarrow> nat \<Rightarrow> bool" where
  "over_limit max_total current amount =
     is_some_and max_total (\<lambda>limit. is_none_or (checked_add_u64 current amount) (\<lambda>t. limit < t))"

definition limit_violations ::
    "quota_usage \<Rightarrow> project_usage \<Rightarrow> nat \<Rightarrow> bool \<Rightarrow> bool \<Rightarrow> bool \<Rightarrow> quota_limits \<Rightarrow> quota_limit list" where
  "limit_violations usage project bytes adds_accounted_bytes adds_project adds_version limits =
     (if is_some_and (max_file_bytes limits) (\<lambda>limit. limit < bytes) then [FileBytes] else [])
     @ (if adds_accounted_bytes
           \<and> over_limit (max_accounted_bytes limits) (qv_total (accounted_bytes usage)) bytes
        then [AccountedBytes] else [])
     @ (if adds_project \<and> over_limit (max_projects limits) (qv_total (projects usage)) 1
        then [Projects] else [])
     @ (if adds_version
           \<and> over_limit (max_versions_per_project limits) (qv_total (pu_versions project)) 1
        then [VersionsPerProject] else [])"

definition check_when :: "bool \<Rightarrow> quota_error + unit \<Rightarrow> quota_error + unit" where
  "check_when b m = (if b then m else Inr ())"

definition add_reserved :: "bool \<Rightarrow> quota_value \<Rightarrow> nat \<Rightarrow> quota_error + quota_value" where
  "add_reserved b v amount =
     (if b then rbind (quota_checked_add (qv_reserved v) amount) (\<lambda>r. Inr (v\<lparr>qv_reserved := r\<rparr>))
      else Inr v)"

definition add_reference :: "bool \<Rightarrow> references \<Rightarrow> quota_error + references" where
  "add_reference b rf =
     (if b then rbind (quota_checked_add (rf_reserved rf) 1) (\<lambda>r. Inr (rf\<lparr>rf_reserved := r\<rparr>))
      else Inr rf)"

definition rows_reserve ::
    "reservation_rows \<Rightarrow> nat \<Rightarrow> quota_limits \<Rightarrow> quota_error + (quota_limit list \<times> reservation_rows)" where
  "rows_reserve rows bytes limits =
    (let has_project = rr_project_key rows \<noteq> None;
         has_version = rr_version_key rows \<noteq> None;
         adds_project = has_project \<and> rf_total (pu_references (rr_project rows)) = 0;
         adds_version = has_version \<and> rf_total (rr_version rows) = 0;
         adds_accounted_bytes = rf_total (bu_references (rr_blob rows)) = 0;
         usage = rr_usage rows; project = rr_project rows; blob = rr_blob rows in
     rbind (ensure_total_add (file_bytes usage) bytes) (\<lambda>_.
     rbind (check_when adds_accounted_bytes (ensure_total_add (accounted_bytes usage) bytes)) (\<lambda>_.
     rbind (check_when adds_project (ensure_total_add (projects usage) 1)) (\<lambda>_.
     rbind (check_when adds_version (ensure_total_add (pu_versions project) 1)) (\<lambda>_.
     rbind (ensure_references_add (bu_references blob)) (\<lambda>_.
     rbind (check_when has_project (ensure_references_add (pu_references project))) (\<lambda>_.
     rbind (check_when has_version (ensure_references_add (rr_version rows))) (\<lambda>_.
     let violations = limit_violations usage project bytes adds_accounted_bytes adds_project
           adds_version limits in
     if \<not> audit limits \<and> violations \<noteq> [] then Inl (Exceeded violations)
     else
       rbind (add_reserved True (file_bytes usage) bytes) (\<lambda>fb.
       rbind (add_reserved adds_accounted_bytes (accounted_bytes usage) bytes) (\<lambda>ab.
       rbind (add_reference True (bu_references blob)) (\<lambda>brf.
       rbind (add_reserved adds_project (projects usage) 1) (\<lambda>ps.
       rbind (add_reference has_project (pu_references project)) (\<lambda>prf.
       rbind (add_reserved adds_version (pu_versions project) 1) (\<lambda>vs.
       rbind (add_reference has_version (rr_version rows)) (\<lambda>vrf.
       Inr (violations, rows\<lparr>
         rr_usage := \<lparr>file_bytes = fb, accounted_bytes = ab, projects = ps\<rparr>,
         rr_project := \<lparr>pu_references = prf, pu_versions = vs\<rparr>,
         rr_version := vrf, rr_blob := blob\<lparr>bu_references := brf\<rparr>\<rparr>))))))))))))))))"

definition rows_write :: "reservation_rows \<Rightarrow> meta_store \<Rightarrow> string \<Rightarrow> meta_store" where
  "rows_write rows s repository = s\<lparr>
     quota_usage_table := write_record (quota_usage_table s) repository (rr_usage rows),
     quota_blob_table := write_record (quota_blob_table s) (rr_blob_key rows) (rr_blob rows),
     quota_project_table := (case rr_project_key rows of
         Some key \<Rightarrow> write_record (quota_project_table s) key (rr_project rows)
       | None \<Rightarrow> quota_project_table s),
     quota_version_table := (case rr_version_key rows of
         Some key \<Rightarrow> write_record (quota_version_table s) key (rr_version rows)
       | None \<Rightarrow> quota_version_table s)\<rparr>"

text \<open>\<open>id\<close> is what \<open>Uuid::new_v4\<close> draws.\<close>

definition reserve_quota ::
    "uuid \<Rightarrow> meta_store \<Rightarrow> new_quota_reservation \<Rightarrow> quota_limits
      \<Rightarrow> quota_error + (quota_reservation_record \<times> meta_store)" where
  "reserve_quota uid s request limits =
     rbind (validate_request request) (\<lambda>_.
     rbind (rows_read s request) (\<lambda>rows.
     rbind (rows_reserve rows (nq_bytes request) limits) (\<lambda>(violations, rows).
     let reservation = \<lparr>qr_id = uid, qr_repository = nq_repository request,
           qr_project = nq_project request, qr_version = nq_version request,
           qr_digest = nq_digest request, qr_bytes = nq_bytes request,
           qr_class = nq_class request, qr_state = Reserved,
           qr_created_at_unix = nq_created_at_unix request, qr_violations = violations\<rparr>;
         s = rows_write rows s (nq_repository request) in
     Inr (reservation, s\<lparr>
       quota_reservation_table := write_record (quota_reservation_table s) uid reservation,
       quota_pending_table := t_insert (quota_pending_table s) uid 0\<rparr>))))"

section \<open>Commit and release\<close>

definition transition_version ::
    "meta_store \<Rightarrow> quota_reservation_record \<Rightarrow> bool \<Rightarrow> project_usage
      \<Rightarrow> quota_error + (project_usage \<times> meta_store)" where
  "transition_version s r commit project =
     (case (qr_project r, qr_version r) of
        (Some project_name, Some version_name) \<Rightarrow>
          (let key = (qr_repository r, project_name, version_name) in
           rbind (quota_read (quota_version_table s) key references_default) (\<lambda>version.
           rbind (settle_counted commit (pu_versions project) version (qr_state r) 1) (\<lambda>(vs, version).
           Inr (project\<lparr>pu_versions := vs\<rparr>,
             s\<lparr>quota_version_table := write_or_remove (quota_version_table s) key version version\<rparr>))))
      | _ \<Rightarrow> Inr (project, s))"

definition transition_project ::
    "meta_store \<Rightarrow> quota_reservation_record \<Rightarrow> bool \<Rightarrow> quota_error + meta_store" where
  "transition_project s r commit =
     (case qr_project r of
        None \<Rightarrow> Inr s
      | Some project_name \<Rightarrow>
          (let key = (qr_repository r, project_name) in
           rbind (quota_read (quota_project_table s) key project_usage_default) (\<lambda>project.
           rbind (quota_read (quota_usage_table s) (qr_repository r) quota_usage_default) (\<lambda>usage.
           rbind (settle_counted commit (projects usage) (pu_references project) (qr_state r) 1) (\<lambda>(ps, prf).
           rbind (transition_version s r commit (project\<lparr>pu_references := prf\<rparr>)) (\<lambda>(project, s).
           Inr (s\<lparr>
             quota_usage_table :=
               write_record (quota_usage_table s) (qr_repository r) (usage\<lparr>projects := ps\<rparr>),
             quota_project_table :=
               write_or_remove (quota_project_table s) key (pu_references project) project\<rparr>))))))) "

definition transition ::
    "meta_store \<Rightarrow> quota_reservation_record \<Rightarrow> bool \<Rightarrow> quota_error + meta_store" where
  "transition s r commit =
    (let blob_key = (qr_repository r, qr_digest r) in
     rbind (quota_read (quota_usage_table s) (qr_repository r) quota_usage_default) (\<lambda>usage.
     rbind (quota_read (quota_blob_table s) blob_key blob_usage_default) (\<lambda>blob.
     rbind (if commit then move_value (file_bytes usage) (qr_bytes r)
            else subtract_value (file_bytes usage) (qr_state r) (qr_bytes r)) (\<lambda>fb.
     rbind (settle_counted commit (accounted_bytes usage) (bu_references blob) (qr_state r)
              (qr_bytes r)) (\<lambda>(ab, brf).
     transition_project (s\<lparr>
         quota_usage_table := write_record (quota_usage_table s) (qr_repository r)
           (usage\<lparr>file_bytes := fb, accounted_bytes := ab\<rparr>),
         quota_blob_table := write_or_remove (quota_blob_table s) blob_key brf
           (blob\<lparr>bu_references := brf\<rparr>)\<rparr>) r commit)))))"

definition release :: "meta_store \<Rightarrow> uuid \<Rightarrow> quota_error + (bool \<times> meta_store)" where
  "release s uid =
     rbind (map_err QuotaStore (read_record (quota_reservation_table s) uid)) (\<lambda>found.
     case found of
       None \<Rightarrow> Inr (False, s)
     | Some reservation \<Rightarrow>
         rbind (transition s reservation False) (\<lambda>s.
         Inr (True, s\<lparr>
           quota_reservation_table := t_remove (quota_reservation_table s) uid,
           quota_pending_table := t_remove (quota_pending_table s) uid\<rparr>)))"

definition commit_reservation :: "meta_store \<Rightarrow> uuid \<Rightarrow> quota_error + (bool \<times> meta_store)" where
  "commit_reservation s uid =
     rbind (map_err QuotaStore (read_record (quota_reservation_table s) uid)) (\<lambda>found.
     case found of
       None \<Rightarrow> Inr (False, s)
     | Some reservation \<Rightarrow>
         if qr_state reservation = Committed then Inr (False, s)
         else rbind (transition s reservation True) (\<lambda>s.
           Inr (True, s\<lparr>
             quota_reservation_table :=
               write_record (quota_reservation_table s) uid (reservation\<lparr>qr_state := Committed\<rparr>),
             quota_pending_table := t_remove (quota_pending_table s) uid\<rparr>)))"

definition commit_quota_reservation :: "meta_store \<Rightarrow> uuid \<Rightarrow> quota_error + (bool \<times> meta_store)" where
  "commit_quota_reservation s uid = commit_reservation s uid"

definition release_quota_reservation :: "meta_store \<Rightarrow> uuid \<Rightarrow> quota_error + (bool \<times> meta_store)" where
  "release_quota_reservation s uid = release s uid"

fun release_each :: "meta_store \<Rightarrow> uuid list \<Rightarrow> quota_error + meta_store" where
  "release_each s [] = Inr s"
| "release_each s (uid # ids) = rbind (release s uid) (\<lambda>(_, s). release_each s ids)"

definition repair_abandoned_quota_reservations ::
    "meta_store \<Rightarrow> nat \<Rightarrow> quota_error + (quota_repair_report \<times> meta_store)" where
  "repair_abandoned_quota_reservations s limit =
     (if limit = 0 then Inr (\<lparr>repair_released = 0, repair_remaining = False\<rparr>, s)
      else let ids = take limit (t_keys (quota_pending_table s));
               remaining = drop limit (t_keys (quota_pending_table s)) \<noteq> [] in
           rbind (release_each s ids) (\<lambda>s.
           Inr (\<lparr>repair_released = length ids, repair_remaining = remaining\<rparr>, s)))"

section \<open>Reads\<close>

definition quota_usage_of :: "meta_store \<Rightarrow> string \<Rightarrow> meta_error + quota_usage" where
  "quota_usage_of s repository =
     rbind (read_record (quota_usage_table s) repository) (\<lambda>u. Inr (unwrap_or quota_usage_default u))"

definition quota_project_usage :: "meta_store \<Rightarrow> string \<Rightarrow> string \<Rightarrow> meta_error + quota_value" where
  "quota_project_usage s repository project =
     rbind (read_record (quota_project_table s) (repository, project)) (\<lambda>p.
     Inr (pu_versions (unwrap_or project_usage_default p)))"

definition quota_reservation :: "meta_store \<Rightarrow> uuid \<Rightarrow> meta_error + quota_reservation_record option" where
  "quota_reservation s uid = read_record (quota_reservation_table s) uid"

end
