(* ===== verification/QuotaInv.thy ===== *)
theory QuotaInv
  imports Quota
begin

text \<open>
  The accounting invariant of \<open>quota.rs\<close>.  A counter charged through reference-counted rows is a
  \<open>ledger\<close>; the digest, project and version tables are its three instances, through the locale
  \<open>ledger_kind\<close>.  Reserving, committing, releasing and repairing keep \<open>quota_inv\<close>, and the last
  three cannot fail while it holds.
\<close>

section \<open>What the counters must equal\<close>

fun qv_at :: "quota_reservation_state \<Rightarrow> quota_value \<Rightarrow> nat" where
  "qv_at Committed v = qv_committed v"
| "qv_at Reserved v = qv_reserved v"

fun rf_at :: "quota_reservation_state \<Rightarrow> references \<Rightarrow> nat" where
  "rf_at Committed r = rf_committed r"
| "rf_at Reserved r = rf_reserved r"

text \<open>
  What one referenced row charges: its whole amount once, to the committed counter as soon as one
  committed allocation refers to it and to the reserved counter while only pending ones do.
\<close>

fun share :: "quota_reservation_state \<Rightarrow> references \<Rightarrow> nat \<Rightarrow> nat" where
  "share Committed rf amount = (if 0 < rf_committed rf then amount else 0)"
| "share Reserved rf amount = (if rf_committed rf = 0 \<and> 0 < rf_reserved rf then amount else 0)"

fun on_row :: "('v \<Rightarrow> nat) \<Rightarrow> 'v row \<Rightarrow> nat" where
  "on_row f (Row v) = f v"
| "on_row f Corrupt = 0"

definition refs_at :: "('v \<Rightarrow> references) \<Rightarrow> ('k, 'v row) tbl \<Rightarrow> 'k \<Rightarrow> references" where
  "refs_at refs t k = (case t_get t k of Some (Row v) \<Rightarrow> refs v | _ \<Rightarrow> references_default)"

definition refers ::
    "(quota_reservation_record \<Rightarrow> 'k option) \<Rightarrow> 'k \<Rightarrow> quota_reservation_state
      \<Rightarrow> quota_reservation_record row \<Rightarrow> nat" where
  "refers keyf k st = on_row (\<lambda>r. if keyf r = Some k \<and> qr_state r = st then 1 else 0)"

type_synonym reservations = "(uuid, quota_reservation_record row) tbl"

definition ref_count ::
    "(quota_reservation_record \<Rightarrow> 'k option) \<Rightarrow> reservations \<Rightarrow> 'k \<Rightarrow> quota_reservation_state \<Rightarrow> nat" where
  "ref_count keyf R k st = t_sum (\<lambda>_. refers keyf k st) R"

definition counts_ok ::
    "('v \<Rightarrow> references) \<Rightarrow> (quota_reservation_record \<Rightarrow> 'k option)
      \<Rightarrow> ('k::linorder, 'v row) tbl \<Rightarrow> reservations \<Rightarrow> bool" where
  "counts_ok refs keyf T R \<longleftrightarrow> t_wf T \<and> rows_ok T
     \<and> (\<forall>k st. rf_at st (refs_at refs T k) = ref_count keyf R k st)
     \<and> (\<forall>k v. t_get T k = Some (Row v) \<longrightarrow> 0 < rf_committed (refs v) + rf_reserved (refs v))
     \<and> (\<forall>k. rf_committed (refs_at refs T k) + rf_reserved (refs_at refs T k) \<le> u64_max)"

definition amounts_ok ::
    "('v \<Rightarrow> nat) \<Rightarrow> (quota_reservation_record \<Rightarrow> 'k option) \<Rightarrow> (quota_reservation_record \<Rightarrow> nat)
      \<Rightarrow> ('k, 'v row) tbl \<Rightarrow> reservations \<Rightarrow> bool" where
  "amounts_ok amount keyf wt T R \<longleftrightarrow> (\<forall>uid r k. t_get R uid = Some (Row r) \<longrightarrow> keyf r = Some k
     \<longrightarrow> (\<exists>v. t_get T k = Some (Row v) \<and> amount v = wt r))"

definition charge ::
    "('v \<Rightarrow> references) \<Rightarrow> ('v \<Rightarrow> nat) \<Rightarrow> ('k \<Rightarrow> 'g) \<Rightarrow> 'g \<Rightarrow> quota_reservation_state
      \<Rightarrow> 'k \<Rightarrow> 'v row \<Rightarrow> nat" where
  "charge refs amount grp g st k =
     on_row (\<lambda>v. if grp k = g then share st (refs v) (amount v) else 0)"

definition charges_ok ::
    "('v \<Rightarrow> references) \<Rightarrow> ('v \<Rightarrow> nat) \<Rightarrow> ('k \<Rightarrow> 'g)
      \<Rightarrow> ('k, 'v row) tbl \<Rightarrow> ('g \<Rightarrow> quota_value) \<Rightarrow> bool" where
  "charges_ok refs amount grp T V \<longleftrightarrow>
     (\<forall>g st. qv_at st (V g) = t_sum (charge refs amount grp g st) T)
     \<and> (\<forall>g. qv_committed (V g) + qv_reserved (V g) \<le> u64_max)"

definition ledger ::
    "('v \<Rightarrow> references) \<Rightarrow> ('v \<Rightarrow> nat) \<Rightarrow> (quota_reservation_record \<Rightarrow> 'k option)
      \<Rightarrow> (quota_reservation_record \<Rightarrow> nat) \<Rightarrow> ('k::linorder \<Rightarrow> 'g)
      \<Rightarrow> ('k, 'v row) tbl \<Rightarrow> ('g \<Rightarrow> quota_value) \<Rightarrow> reservations \<Rightarrow> bool" where
  "ledger refs amount keyf wt grp T V R \<longleftrightarrow>
     counts_ok refs keyf T R \<and> amounts_ok amount keyf wt T R \<and> charges_ok refs amount grp T V"

section \<open>One counter\<close>

definition balanced :: "quota_value \<Rightarrow> references \<Rightarrow> nat \<Rightarrow> quota_value \<Rightarrow> references \<Rightarrow> bool" where
  "balanced v rf amount v' rf' \<longleftrightarrow>
     (\<forall>st. qv_at st v' + share st rf amount = qv_at st v + share st rf' amount)
     \<and> qv_committed v' + qv_reserved v' \<le> u64_max"

lemma rf_total_0 [simp]: "rf_total rf = 0 \<longleftrightarrow> rf_committed rf = 0 \<and> rf_reserved rf = 0"
  by (simp add: rf_total_def)

lemma all_states: "(\<forall>st. P st) \<longleftrightarrow> P Reserved \<and> P Committed"
  by (metis quota_reservation_state.exhaust)

lemma quota_sub_ok [simp]: "b \<le> a \<Longrightarrow> quota_sub a b = Inr (a - b)"
  by (simp add: quota_sub_def sub_u64_ok)

lemma quota_checked_add_ok [simp]: "a + b \<le> u64_max \<Longrightarrow> quota_checked_add a b = Inr (a + b)"
  by (simp add: quota_checked_add_def checked_add_u64_def)

lemma quota_checked_add_Inr [simp]:
  "quota_checked_add a b = Inr c \<longleftrightarrow> a + b \<le> u64_max \<and> c = a + b"
  by (auto simp: quota_checked_add_def checked_add_u64_def)

lemma commit_counted_ok:
  assumes "1 \<le> rf_reserved rf" "rf_committed rf + rf_reserved rf \<le> u64_max"
    and "qv_committed v + qv_reserved v \<le> u64_max" "\<forall>st. share st rf amount \<le> qv_at st v"
  shows "\<exists>v'. commit_counted v rf amount
      = Inr (v', \<lparr>rf_committed = rf_committed rf + 1, rf_reserved = rf_reserved rf - 1\<rparr>)
    \<and> balanced v rf amount v' \<lparr>rf_committed = rf_committed rf + 1, rf_reserved = rf_reserved rf - 1\<rparr>"
  using assms
  by (cases "rf_committed rf = 0")
    (auto simp: commit_counted_def move_value_def balanced_def all_states)

definition release_refs :: "references \<Rightarrow> quota_reservation_state \<Rightarrow> references" where
  "release_refs rf st = (if st = Committed then rf\<lparr>rf_committed := rf_committed rf - 1\<rparr>
     else rf\<lparr>rf_reserved := rf_reserved rf - 1\<rparr>)"

lemma release_counted_ok:
  assumes "1 \<le> rf_at st rf" "rf_committed rf + rf_reserved rf \<le> u64_max"
    and "qv_committed v + qv_reserved v \<le> u64_max" "\<forall>st. share st rf amount \<le> qv_at st v"
  shows "\<exists>v'. release_counted v rf st amount = Inr (v', release_refs rf st)
    \<and> balanced v rf amount v' (release_refs rf st)"
  using assms
  by (cases st)
    (auto simp: release_counted_def subtract_reference_def rebalance_or_remove_def
      subtract_value_def balanced_def all_states release_refs_def)


section \<open>One ledger\<close>

lemma refers_Row: "refers keyf k st (Row r) = (if keyf r = Some k \<and> qr_state r = st then 1 else 0)"
  by (simp add: refers_def)

lemma ref_count_write: "t_wf R \<Longrightarrow>
    ref_count keyf (write_record R uid r) k st + t_at (\<lambda>_. refers keyf k st) R uid
    = ref_count keyf R k st + refers keyf k st (Row r)"
  using t_sum_insert [of R "\<lambda>_. refers keyf k st" uid "Row r"] by (simp add: ref_count_def write_record_def)

lemma ref_count_remove: "t_wf R \<Longrightarrow>
    ref_count keyf (t_remove R uid) k st + t_at (\<lambda>_. refers keyf k st) R uid = ref_count keyf R k st"
  using t_sum_remove [of R "\<lambda>_. refers keyf k st" uid] by (simp add: ref_count_def)

text \<open>The reservation table after a commit or a release.\<close>

definition settled :: "bool \<Rightarrow> uuid \<Rightarrow> quota_reservation_record \<Rightarrow> reservations \<Rightarrow> reservations" where
  "settled commit uid r R =
     (if commit then write_record R uid (r\<lparr>qr_state := Committed\<rparr>) else t_remove R uid)"

lemma rf_at_eqI: "rf_at Committed a = rf_at Committed b \<Longrightarrow> rf_at Reserved a = rf_at Reserved b \<Longrightarrow> a = (b :: references)"
  by (cases a; cases b) simp

lemma t_get_write_or_remove: "t_get (write_or_remove t k rf b) k' =
    (if k' = k then (if rf_total rf = 0 then None else Some (Row b)) else t_get t k')"
  by (simp add: write_or_remove_def)

lemma write_or_remove_ok [simp]:
  "t_wf t \<Longrightarrow> t_wf (write_or_remove t k rf b)" "rows_ok t \<Longrightarrow> rows_ok (write_or_remove t k rf b)"
  by (simp_all add: write_or_remove_def)

text \<open>
  The contract shared by the three reference-counted tables: a change of the lifecycle state of an
  allocation changes neither the row it refers to nor what it is charged for.
\<close>

locale ledger_kind =
  fixes refs :: "'v \<Rightarrow> references" and amount :: "'v \<Rightarrow> nat"
    and keyf :: "quota_reservation_record \<Rightarrow> ('k::linorder) option"
    and wt :: "quota_reservation_record \<Rightarrow> nat" and grp :: "'k \<Rightarrow> 'g"
  assumes keyf_state: "keyf (r\<lparr>qr_state := st\<rparr>) = keyf r"
    and wt_state: "wt (r\<lparr>qr_state := st\<rparr>) = wt r"
begin

lemma charge_at: "t_at (charge refs amount grp g st) T k =
    (case t_get T k of Some (Row v) \<Rightarrow> (if grp k = g then share st (refs v) (amount v) else 0) | _ \<Rightarrow> 0)"
  by (simp add: t_at_def charge_def split: option.split row.split)

lemma share_le_value:
  assumes "ledger refs amount keyf wt grp T V R" "t_get R uid = Some (Row r)" "keyf r = Some k"
  shows "share st (refs_at refs T k) (wt r) \<le> qv_at st (V (grp k))"
proof -
  from assms obtain v where v: "t_get T k = Some (Row v)" "amount v = wt r"
    unfolding ledger_def amounts_ok_def by blast
  have "t_at (charge refs amount grp (grp k) st) T k \<le> t_sum (charge refs amount grp (grp k) st) T"
    using assms(1) by (intro t_at_le_sum) (simp add: ledger_def counts_ok_def)
  with v assms(1) show ?thesis
    by (simp add: charge_at refs_at_def ledger_def charges_ok_def)
qed

lemma counted:
  assumes "t_wf R" "counts_ok refs keyf T R" "t_get R uid = Some (Row r)" "keyf r = Some k"
  shows "1 \<le> rf_at (qr_state r) (refs_at refs T k)"
proof -
  have "t_at (\<lambda>_. refers keyf k (qr_state r)) R uid \<le> ref_count keyf R k (qr_state r)"
    unfolding ref_count_def by (rule t_at_le_sum) (rule assms)
  then show ?thesis
    using assms by (simp add: t_at_def refers_def counts_ok_def)
qed

text \<open>
  The one step every operation performs on a ledger: the row under \<open>k\<close> takes the reference count
  \<open>rf'\<close>, or goes when it is empty, and the counter of its group is rebalanced.
\<close>

lemma charges_update:
  assumes T: "charges_ok refs amount grp T V" "t_wf T"
    and bal: "balanced (V (grp k)) (refs_at refs T k) a v' rf'"
    and row: "refs b = rf'" "amount b = a" "\<And>v. t_get T k = Some (Row v) \<Longrightarrow> amount v = a"
    and no_corrupt: "rows_ok T"
  shows "charges_ok refs amount grp (write_or_remove T k rf' b) (V(grp k := v'))"
proof -
  define T' where "T' = write_or_remove T k rf' b"
  have sum: "t_sum (charge refs amount grp g st) T' + (if grp k = g then share st (refs_at refs T k) a else 0)
      = t_sum (charge refs amount grp g st) T + (if grp k = g then share st rf' a else 0)" for g st
  proof -
    have "t_at (charge refs amount grp g st) T k
        = (if grp k = g then share st (refs_at refs T k) a else 0)"
      using row(3) rows_ok_get [OF no_corrupt, of k]
      by (cases st) (auto simp: charge_at refs_at_def references_default_def split: option.split row.split)
    moreover have "charge refs amount grp g st k (Row b) = (if grp k = g then share st rf' a else 0)"
      using row by (simp add: charge_def)
    moreover have "rf_total rf' = 0 \<Longrightarrow> share st rf' a = 0" by (cases st) auto
    ultimately show ?thesis
      using t_sum_insert [OF T(2), of "charge refs amount grp g st" k "Row b"]
        t_sum_remove [OF T(2), of "charge refs amount grp g st" k]
      by (auto simp: T'_def write_or_remove_def write_record_def)
  qed
  have "qv_at st ((V(grp k := v')) g) = t_sum (charge refs amount grp g st) T'" for g st
    using sum [of g st] T(1) bal by (auto simp: charges_ok_def balanced_def)
      (metis add_right_cancel)
  with T(1) bal show ?thesis
    by (auto simp: charges_ok_def balanced_def T'_def)
qed


lemma counts_update:
  assumes T: "counts_ok refs keyf T R"
    and rf': "\<And>st. rf_at st rf' = ref_count keyf R' k st" "rf_committed rf' + rf_reserved rf' \<le> u64_max"
    and other: "\<And>k' st. k' \<noteq> k \<Longrightarrow> ref_count keyf R' k' st = ref_count keyf R k' st"
    and b: "refs b = rf'"
  shows "counts_ok refs keyf (write_or_remove T k rf' b) R'"
proof -
  have at: "refs_at refs (write_or_remove T k rf' b) k' = (if k' = k then rf' else refs_at refs T k')" for k'
    by (auto simp: refs_at_def t_get_write_or_remove b references_default_def)
  show ?thesis
    using T rf' other b unfolding counts_ok_def at
    by (auto simp: t_get_write_or_remove)
qed

lemma amounts_update:
  assumes T: "amounts_ok amount keyf wt T R" and wf: "t_wf R'"
    and rf': "\<And>st. rf_at st rf' = ref_count keyf R' k st"
    and kept: "\<And>uid r k'. t_get R' uid = Some (Row r) \<Longrightarrow> keyf r = Some k' \<Longrightarrow>
        (if k' = k then wt r = a
         else \<exists>r0. t_get R uid = Some (Row r0) \<and> keyf r0 = Some k' \<and> wt r0 = wt r)"
    and b: "amount b = a"
  shows "amounts_ok amount keyf wt (write_or_remove T k rf' b) R'"
  unfolding amounts_ok_def
proof (intro allI impI)
  fix uid r k' assume r: "t_get R' uid = Some (Row r)" "keyf r = Some k'"
  show "\<exists>v. t_get (write_or_remove T k rf' b) k' = Some (Row v) \<and> amount v = wt r"
  proof (cases "k' = k")
    case True
    have "t_at (\<lambda>_. refers keyf k (qr_state r)) R' uid \<le> ref_count keyf R' k (qr_state r)"
      unfolding ref_count_def by (rule t_at_le_sum) (rule wf)
    then have "1 \<le> rf_at (qr_state r) rf'"
      using r True by (simp add: t_at_def refers_def rf')
    then have "rf_total rf' \<noteq> 0" by (cases "qr_state r") auto
    with True kept [OF r] b show ?thesis by (auto simp: t_get_write_or_remove)
  next
    case False
    with kept [OF r] obtain r0 where "t_get R uid = Some (Row r0)" "keyf r0 = Some k'" "wt r0 = wt r"
      by auto
    with T have "\<exists>v. t_get T k' = Some (Row v) \<and> amount v = wt r"
      unfolding amounts_ok_def by metis
    with False show ?thesis by (simp add: t_get_write_or_remove)
  qed
qed

lemma ledger_update:
  assumes "ledger refs amount keyf wt grp T V R" "t_wf R'"
    and "balanced (V (grp k)) (refs_at refs T k) a v' rf'" "refs b = rf'" "amount b = a"
    and "\<And>v. t_get T k = Some (Row v) \<Longrightarrow> amount v = a"
    and "\<And>st. rf_at st rf' = ref_count keyf R' k st" "rf_committed rf' + rf_reserved rf' \<le> u64_max"
    and "\<And>k' st. k' \<noteq> k \<Longrightarrow> ref_count keyf R' k' st = ref_count keyf R k' st"
    and "\<And>uid r k'. t_get R' uid = Some (Row r) \<Longrightarrow> keyf r = Some k' \<Longrightarrow>
        (if k' = k then wt r = a
         else \<exists>r0. t_get R uid = Some (Row r0) \<and> keyf r0 = Some k' \<and> wt r0 = wt r)"
  shows "ledger refs amount keyf wt grp (write_or_remove T k rf' b) (V(grp k := v')) R'"
proof -
  from assms(1) have T: "counts_ok refs keyf T R" "amounts_ok amount keyf wt T R"
      "charges_ok refs amount grp T V" "t_wf T" "rows_ok T"
    by (auto simp: ledger_def counts_ok_def)
  show ?thesis
    unfolding ledger_def
    using counts_update [OF T(1) assms(7,8,9,4)] amounts_update [OF T(2) assms(2,7,10,5)]
      charges_update [OF T(3,4) assms(3,4,5,6) T(5)] by blast
qed

text \<open>An allocation that refers to no row of this table leaves its ledger as it is.\<close>

lemma ledger_skip:
  assumes "ledger refs amount keyf wt grp T V R"
    and "\<And>k st. ref_count keyf R' k st = ref_count keyf R k st"
    and "\<And>uid r k. t_get R' uid = Some (Row r) \<Longrightarrow> keyf r = Some k \<Longrightarrow> t_get R uid = Some (Row r)"
  shows "ledger refs amount keyf wt grp T V R'"
proof -
  have "amounts_ok amount keyf wt T R'"
    using assms(1,3) unfolding ledger_def amounts_ok_def by blast
  with assms(1,2) show ?thesis by (simp add: ledger_def counts_ok_def)
qed

lemma t_at_refers: "t_get R uid = Some (Row r) \<Longrightarrow> t_at (\<lambda>_. refers keyf k st) R uid
    = (if keyf r = Some k \<and> qr_state r = st then 1 else 0)"
  by (simp add: t_at_def refers_def)

lemma ref_count_settled:
  assumes "t_wf R" "t_get R uid = Some (Row r)" "commit \<longrightarrow> qr_state r = Reserved"
  shows "ref_count keyf (settled commit uid r R) k st
      + (if keyf r = Some k \<and> qr_state r = st then 1 else 0)
    = ref_count keyf R k st + (if commit \<and> keyf r = Some k \<and> st = Committed then 1 else 0)"
  using ref_count_write [OF assms(1), of keyf uid "r\<lparr>qr_state := Committed\<rparr>" k st]
    ref_count_remove [OF assms(1), of keyf uid k st] assms(2)
  by (auto simp: settled_def t_at_refers refers_Row keyf_state)

lemma settled_kept:
  assumes "ledger refs amount keyf wt grp T V R" "t_get R uid = Some (Row r)" "keyf r = Some k"
    and "t_get (settled commit uid r R) uid' = Some (Row r')" "keyf r' = Some k'"
  shows "if k' = k then wt r' = wt r
         else \<exists>r0. t_get R uid' = Some (Row r0) \<and> keyf r0 = Some k' \<and> wt r0 = wt r'"
proof -
  have "\<exists>r0. t_get R uid' = Some (Row r0) \<and> keyf r0 = Some k' \<and> wt r0 = wt r'"
    using assms(2,4,5) keyf_state wt_state by (auto simp: settled_def split: if_splits)
  moreover from this have "k' = k \<Longrightarrow> wt r' = wt r"
    using assms(1-3) unfolding ledger_def amounts_ok_def by (metis option.inject row.inject)
  ultimately show ?thesis by auto
qed

lemma ledger_settle:
  assumes L: "ledger refs amount keyf wt grp T V R" and wf: "t_wf R"
    and r: "t_get R uid = Some (Row r)" "keyf r = Some k" and cm: "commit \<longrightarrow> qr_state r = Reserved"
  shows "\<exists>v' rf'. settle_counted commit (V (grp k)) (refs_at refs T k) (qr_state r) (wt r) = Inr (v', rf')
    \<and> (\<forall>b. refs b = rf' \<longrightarrow> amount b = wt r \<longrightarrow>
         ledger refs amount keyf wt grp (write_or_remove T k rf' b) (V(grp k := v')) (settled commit uid r R))"
proof -
  let ?rf = "refs_at refs T k"
  let ?rf' = "if commit then \<lparr>rf_committed = rf_committed ?rf + 1, rf_reserved = rf_reserved ?rf - 1\<rparr>
    else release_refs ?rf (qr_state r)"
  have counts: "counts_ok refs keyf T R" and V: "qv_committed (V (grp k)) + qv_reserved (V (grp k)) \<le> u64_max"
    using L by (auto simp: ledger_def charges_ok_def)
  then have bound: "rf_committed ?rf + rf_reserved ?rf \<le> u64_max" and
      cnt: "\<And>k st. rf_at st (refs_at refs T k) = ref_count keyf R k st" by (auto simp: counts_ok_def)
  have one: "1 \<le> rf_at (qr_state r) ?rf" by (rule counted [OF wf counts r])
  have shares: "\<forall>st. share st ?rf (wt r) \<le> qv_at st (V (grp k))"
    using share_le_value [OF L r] by blast
  have "\<exists>v'. settle_counted commit (V (grp k)) ?rf (qr_state r) (wt r) = Inr (v', ?rf')
      \<and> balanced (V (grp k)) ?rf (wt r) v' ?rf'"
    using release_counted_ok [OF one bound V shares] commit_counted_ok [OF _ bound V shares] one cm
    by (auto simp: settle_counted_def)
  then obtain v' where ok: "settle_counted commit (V (grp k)) ?rf (qr_state r) (wt r) = Inr (v', ?rf')"
      and bal: "balanced (V (grp k)) ?rf (wt r) v' ?rf'" by blast
  have cnt': "rf_at st ?rf' = ref_count keyf (settled commit uid r R) k st" for st
    using ref_count_settled [OF wf r(1) cm, of k st] cnt [of st k] one cm r(2)
    by (cases st; cases "qr_state r") (auto simp: release_refs_def)
  have bound': "rf_committed ?rf' + rf_reserved ?rf' \<le> u64_max"
    using bound one cm by (auto simp: release_refs_def)
  have "ledger refs amount keyf wt grp (write_or_remove T k ?rf' b) (V(grp k := v')) (settled commit uid r R)"
    if "refs b = ?rf'" "amount b = wt r" for b
  proof (rule ledger_update [OF L _ bal that _ cnt' bound' _ settled_kept [OF L r]])
    show "t_wf (settled commit uid r R)" using wf by (simp add: settled_def)
    show "amount v = wt r" if "t_get T k = Some (Row v)" for v
      using that L r unfolding ledger_def amounts_ok_def by (metis option.inject row.inject)
    show "ref_count keyf (settled commit uid r R) k' st' = ref_count keyf R k' st'" if "k' \<noteq> k" for k' st'
      using ref_count_settled [OF wf r(1) cm, of k' st'] that r(2) by simp
  qed
  with ok show ?thesis by blast
qed

lemma ledger_settle_none:
  assumes L: "ledger refs amount keyf wt grp T V R" and wf: "t_wf R"
    and r: "t_get R uid = Some (Row r)" "keyf r = None" and st: "commit \<longrightarrow> qr_state r = Reserved"
  shows "ledger refs amount keyf wt grp T V (settled commit uid r R)"
proof (rule ledger_skip [OF L])
  show "ref_count keyf (settled commit uid r R) k st' = ref_count keyf R k st'" for k st'
    using ref_count_settled [OF wf r(1) st, of k st'] r(2) by simp
  show "t_get R uid' = Some (Row r')"
    if "t_get (settled commit uid r R) uid' = Some (Row r')" "keyf r' = Some k'" for uid' r' k'
    using that r keyf_state by (auto simp: settled_def split: if_splits)
qed


lemma ref_count_reserved:
  assumes "t_wf R" "t_get R uid = None" "qr_state r = Reserved"
  shows "ref_count keyf (write_record R uid r) k st
    = ref_count keyf R k st + (if keyf r = Some k \<and> st = Reserved then 1 else 0)"
  using ref_count_write [OF assms(1), of keyf uid r k st] assms(2,3)
  by (auto simp: t_at_def refers_Row)

lemma ledger_reserve:
  assumes L: "ledger refs amount keyf wt grp T V R" and wf: "t_wf R"
    and r: "t_get R uid = None" "keyf r = Some k" "qr_state r = Reserved"
    and size: "\<And>v. t_get T k = Some (Row v) \<Longrightarrow> amount v = wt r"
    and adds: "adds \<longleftrightarrow> rf_total (refs_at refs T k) = 0"
    and room: "rf_committed (refs_at refs T k) + rf_reserved (refs_at refs T k) + 1 \<le> u64_max"
      "adds \<Longrightarrow> qv_committed (V (grp k)) + qv_reserved (V (grp k)) + wt r \<le> u64_max"
    and v': "v' = (if adds then (V (grp k))\<lparr>qv_reserved := qv_reserved (V (grp k)) + wt r\<rparr> else V (grp k))"
    and b: "refs b = (refs_at refs T k)\<lparr>rf_reserved := rf_reserved (refs_at refs T k) + 1\<rparr>" "amount b = wt r"
  shows "ledger refs amount keyf wt grp (write_record T k b) (V(grp k := v')) (write_record R uid r)"
proof -
  let ?rf = "refs_at refs T k"
  let ?rf' = "?rf\<lparr>rf_reserved := rf_reserved ?rf + 1\<rparr>"
  have V: "qv_committed (V (grp k)) + qv_reserved (V (grp k)) \<le> u64_max"
    and cnt: "\<And>k st. rf_at st (refs_at refs T k) = ref_count keyf R k st"
    using L by (auto simp: ledger_def charges_ok_def counts_ok_def)
  have bal: "balanced (V (grp k)) ?rf (wt r) v' ?rf'"
    using V room(2) unfolding balanced_def all_states v' adds by auto
  have cnt': "rf_at st ?rf' = ref_count keyf (write_record R uid r) k st" for st
    using ref_count_reserved [OF wf r(1,3), of k st] cnt [of st k] r(2) by (cases st) auto
  have "ledger refs amount keyf wt grp (write_or_remove T k ?rf' b) (V(grp k := v')) (write_record R uid r)"
  proof (rule ledger_update [OF L _ bal b size cnt' _])
    show "t_wf (write_record R uid r)" using wf by simp
    show "rf_committed ?rf' + rf_reserved ?rf' \<le> u64_max" using room(1) by simp
    show "ref_count keyf (write_record R uid r) k' st' = ref_count keyf R k' st'" if "k' \<noteq> k" for k' st'
      using ref_count_reserved [OF wf r(1,3), of k' st'] that r(2) by simp
    show "if k' = k then wt r' = wt r
        else \<exists>r0. t_get R uid' = Some (Row r0) \<and> keyf r0 = Some k' \<and> wt r0 = wt r'"
      if "t_get (write_record R uid r) uid' = Some (Row r')" "keyf r' = Some k'" for uid' r' k'
    proof (cases "uid' = uid")
      case False
      with that have r': "t_get R uid' = Some (Row r')" by simp
      with L that(2) size show ?thesis unfolding ledger_def amounts_ok_def by (metis (full_types))
    qed (use that r(2) in auto)
  qed
  then show ?thesis by (simp add: write_or_remove_def)
qed

lemma ledger_reserve_none:
  assumes L: "ledger refs amount keyf wt grp T V R" and wf: "t_wf R"
    and r: "t_get R uid = None" "keyf r = None" "qr_state r = Reserved"
  shows "ledger refs amount keyf wt grp T V (write_record R uid r)"
proof (rule ledger_skip [OF L])
  show "ref_count keyf (write_record R uid r) k st' = ref_count keyf R k st'" for k st'
    using ref_count_reserved [OF wf r(1,3), of k st'] r(2) by simp
qed (use r(2) in \<open>auto split: if_splits\<close>)

lemma ledger_empty: "ledger refs amount keyf wt grp [] (\<lambda>_. quota_value_default) []"
proof -
  have "qv_at st quota_value_default = 0" "rf_at st references_default = 0" for st
    by (cases st; simp add: quota_defaults)+
  then show ?thesis
    by (simp add: ledger_def counts_ok_def amounts_ok_def charges_ok_def refs_at_def ref_count_def
        quota_defaults)
qed

end

section \<open>The invariant\<close>

definition blob_key_of :: "quota_reservation_record \<Rightarrow> (string \<times> string) option" where
  "blob_key_of r = Some (qr_repository r, qr_digest r)"

definition project_key_of :: "quota_reservation_record \<Rightarrow> (string \<times> string) option" where
  "project_key_of r = map_option (Pair (qr_repository r)) (qr_project r)"

definition version_key_of :: "quota_reservation_record \<Rightarrow> (string \<times> string \<times> string) option" where
  "version_key_of r = (case (qr_project r, qr_version r) of
      (Some p, Some v) \<Rightarrow> Some (qr_repository r, p, v)
    | _ \<Rightarrow> None)"

definition version_project :: "string \<times> string \<times> string \<Rightarrow> string \<times> string" where
  "version_project k = (fst k, fst (snd k))"

abbreviation one :: "'a \<Rightarrow> nat" where "one \<equiv> \<lambda>_. 1"

interpretation blobs: ledger_kind bu_references bu_bytes blob_key_of qr_bytes fst
  by unfold_locales (simp_all add: blob_key_of_def)

interpretation projs: ledger_kind pu_references one project_key_of one fst
  by unfold_locales (simp_all add: project_key_of_def)

interpretation vers: ledger_kind "\<lambda>rf. rf" one version_key_of one version_project
  by unfold_locales (simp_all add: version_key_of_def split: option.split)

abbreviation usage_at :: "meta_store \<Rightarrow> string \<Rightarrow> quota_usage" where
  "usage_at s repo \<equiv> row_or (quota_usage_table s) repo quota_usage_default"

abbreviation project_at :: "meta_store \<Rightarrow> string \<times> string \<Rightarrow> project_usage" where
  "project_at s k \<equiv> row_or (quota_project_table s) k project_usage_default"

abbreviation blob_ledger where
  "blob_ledger \<equiv> ledger bu_references bu_bytes blob_key_of qr_bytes fst"

abbreviation project_ledger where
  "project_ledger \<equiv> ledger pu_references one project_key_of one fst"

abbreviation version_ledger where
  "version_ledger \<equiv> ledger (\<lambda>rf. rf) one version_key_of one version_project"

definition file_weight :: "string \<Rightarrow> quota_reservation_state \<Rightarrow> quota_reservation_record row \<Rightarrow> nat" where
  "file_weight repo st = on_row (\<lambda>r. if qr_repository r = repo \<and> qr_state r = st then qr_bytes r else 0)"

definition files_ok :: "(string \<Rightarrow> quota_value) \<Rightarrow> reservations \<Rightarrow> bool" where
  "files_ok V R \<longleftrightarrow> (\<forall>repo st. qv_at st (V repo) = t_sum (\<lambda>_. file_weight repo st) R)
     \<and> (\<forall>repo. qv_committed (V repo) + qv_reserved (V repo) \<le> u64_max)"

definition pending_ok :: "(uuid, nat) tbl \<Rightarrow> reservations \<Rightarrow> bool" where
  "pending_ok P R \<longleftrightarrow> t_wf P
     \<and> (\<forall>uid. t_get P uid \<noteq> None \<longleftrightarrow> (\<exists>r. t_get R uid = Some (Row r) \<and> qr_state r = Reserved))"

definition reservations_ok :: "reservations \<Rightarrow> bool" where
  "reservations_ok R \<longleftrightarrow> t_wf R \<and> rows_ok R
     \<and> (\<forall>uid r. t_get R uid = Some (Row r) \<longrightarrow>
          qr_id r = uid \<and> (qr_version r \<noteq> None \<longrightarrow> qr_project r \<noteq> None))"

definition quota_inv :: "meta_store \<Rightarrow> bool" where
  "quota_inv s \<longleftrightarrow> reservations_ok (quota_reservation_table s)
     \<and> pending_ok (quota_pending_table s) (quota_reservation_table s)
     \<and> t_wf (quota_usage_table s) \<and> rows_ok (quota_usage_table s)
     \<and> files_ok (\<lambda>repo. file_bytes (usage_at s repo)) (quota_reservation_table s)
     \<and> blob_ledger (quota_blob_table s) (\<lambda>repo. accounted_bytes (usage_at s repo)) (quota_reservation_table s)
     \<and> project_ledger (quota_project_table s) (\<lambda>repo. projects (usage_at s repo)) (quota_reservation_table s)
     \<and> version_ledger (quota_version_table s) (\<lambda>k. pu_versions (project_at s k)) (quota_reservation_table s)"


section \<open>Commit and release preserve the invariant\<close>

lemma quota_read_row_or: "rows_ok t \<Longrightarrow> quota_read t k d = Inr (row_or t k d)"
  using rows_ok_get [of t k]
  by (auto simp: quota_read_def read_record_def row_or_def split: option.split row.split)

lemma row_or_write_or_remove: "row_or (write_or_remove t k rf v) k' d =
    (if k' = k then (if rf_total rf = 0 then d else v) else row_or t k' d)"
  by (simp add: row_or_def t_get_write_or_remove)

lemma refs_at_row_or:
  "refs d = references_default \<Longrightarrow> refs_at refs t k = refs (row_or t k d)"
  by (simp add: refs_at_def row_or_def split: option.split row.split)

lemma refs_at_get: "t_get t k = Some (Row v) \<Longrightarrow> refs_at refs t k = refs v"
  by (simp add: refs_at_def)

lemma ledger_count:
  "ledger refs amount keyf wt grp T V R \<Longrightarrow> rf_at st (refs_at refs T k) = ref_count keyf R k st"
  unfolding ledger_def counts_ok_def by blast

lemma ledger_pos: "ledger refs amount keyf wt grp T V R \<Longrightarrow> t_get T k = Some (Row v) \<Longrightarrow>
    0 < rf_committed (refs v) + rf_reserved (refs v)"
  by (simp add: ledger_def counts_ok_def)

lemma ledger_amount: "ledger refs amount keyf wt grp T V R \<Longrightarrow> t_get R uid = Some (Row r) \<Longrightarrow>
    keyf r = Some k \<Longrightarrow> \<exists>v. t_get T k = Some (Row v) \<and> amount v = wt r"
  unfolding ledger_def amounts_ok_def by blast

lemma ledger_charge:
  "ledger refs amount keyf wt grp T V R \<Longrightarrow> qv_at st (V g) = t_sum (charge refs amount grp g st) T"
  unfolding ledger_def charges_ok_def by blast

lemma ledger_rows_ok: "ledger refs amount keyf wt grp T V R \<Longrightarrow> rows_ok T"
  by (simp add: ledger_def counts_ok_def)

lemma file_weight_Row:
  "file_weight repo st (Row r) = (if qr_repository r = repo \<and> qr_state r = st then qr_bytes r else 0)"
  by (simp add: file_weight_def)

lemma files_settle:
  assumes F: "files_ok V R" and wf: "t_wf R" and r: "t_get R uid = Some (Row r)"
    and cm: "commit \<longrightarrow> qr_state r = Reserved"
  shows "\<exists>fb. (if commit then move_value (V (qr_repository r)) (qr_bytes r)
        else subtract_value (V (qr_repository r)) (qr_state r) (qr_bytes r)) = Inr fb
    \<and> files_ok (V(qr_repository r := fb)) (settled commit uid r R)"
proof -
  let ?v = "V (qr_repository r)"
  define fb where "fb = (if commit then \<lparr>qv_committed = qv_committed ?v + qr_bytes r, qv_reserved = qv_reserved ?v - qr_bytes r\<rparr>
    else if qr_state r = Committed then ?v\<lparr>qv_committed := qv_committed ?v - qr_bytes r\<rparr>
    else ?v\<lparr>qv_reserved := qv_reserved ?v - qr_bytes r\<rparr>)"
  have old: "t_at (\<lambda>_. file_weight repo st) R uid =
      (if qr_repository r = repo \<and> qr_state r = st then qr_bytes r else 0)" for repo st
    using r by (simp add: t_at_def file_weight_Row)
  have le: "qr_bytes r \<le> qv_at (qr_state r) ?v"
    using t_at_le_sum [OF wf, of "\<lambda>_. file_weight (qr_repository r) (qr_state r)" uid] F
    by (simp add: old files_ok_def)
  have bound: "qv_committed ?v + qv_reserved ?v \<le> u64_max" using F by (simp add: files_ok_def)
  have sums: "t_sum (\<lambda>_. file_weight repo st) (settled commit uid r R)
      + (if qr_repository r = repo \<and> qr_state r = st then qr_bytes r else 0)
    = qv_at st (V repo) + (if commit \<and> qr_repository r = repo \<and> st = Committed then qr_bytes r else 0)"
    for repo st
    using t_sum_insert [OF wf, of "\<lambda>_. file_weight repo st" uid "Row (r\<lparr>qr_state := Committed\<rparr>)"]
      t_sum_remove [OF wf, of "\<lambda>_. file_weight repo st" uid] F
    by (auto simp: settled_def old file_weight_Row files_ok_def write_record_def)
  have "qv_at st ((V(qr_repository r := fb)) repo) = t_sum (\<lambda>_. file_weight repo st) (settled commit uid r R)"
    for repo st
    using sums [of repo st] le cm by (cases st; cases "qr_state r") (auto simp: fb_def split: if_splits)
  moreover have "qv_committed fb + qv_reserved fb \<le> u64_max"
    using bound le cm by (cases "qr_state r") (auto simp: fb_def)
  ultimately have "files_ok (V(qr_repository r := fb)) (settled commit uid r R)"
    using F by (simp add: files_ok_def)
  moreover have "(if commit then move_value ?v (qr_bytes r)
      else subtract_value ?v (qr_state r) (qr_bytes r)) = Inr fb"
    using le bound cm by (cases "qr_state r") (auto simp: fb_def move_value_def subtract_value_def)
  ultimately show ?thesis by blast
qed

lemma ref_count_pos: "0 < ref_count keyf R k st \<Longrightarrow> t_wf R \<Longrightarrow>
    \<exists>uid r. t_get R uid = Some (Row r) \<and> keyf r = Some k \<and> qr_state r = st"
proof -
  assume "0 < ref_count keyf R k st" "t_wf R"
  then obtain uid x where "(uid, x) \<in> set R" "0 < refers keyf k st x"
    by (auto simp: ref_count_def t_sum_0 simp flip: neq0_conv)
  with \<open>t_wf R\<close> show ?thesis
    by (cases x) (auto simp: refers_def t_get_iff [symmetric] split: if_splits)
qed

text \<open>A project row goes with its last reference, and then none of its versions is charged.\<close>

lemma versions_vanish:
  assumes P: "amounts_ok one project_key_of one P R" and T: "version_ledger T V R" and wf: "t_wf R"
    and gone: "t_get P k = None"
  shows "V k = quota_value_default"
proof -
  have "charge (\<lambda>rf. rf) one version_project k st k' x = 0" if "(k', x) \<in> set T" for st k' x
  proof (cases x)
    case (Row rf)
    with that T have rf: "t_get T k' = Some (Row rf)"
      by (simp add: ledger_def counts_ok_def t_get_iff)
    have "version_project k' \<noteq> k"
    proof
      assume eq: "version_project k' = k"
      have pos: "0 < rf_committed rf + rf_reserved rf"
        and cnt: "\<And>st. rf_at st rf = ref_count version_key_of R k' st"
        using ledger_pos [OF T rf] ledger_count [OF T, of _ k'] refs_at_get [OF rf, of "\<lambda>rf. rf"]
        by simp_all
      obtain st where "0 < ref_count version_key_of R k' st"
        using pos cnt [of Committed] cnt [of Reserved] by (cases "rf_committed rf = 0") auto
      from ref_count_pos [OF this wf] obtain uid r where
        r: "t_get R uid = Some (Row r)" "version_key_of r = Some k'" by blast
      then have "project_key_of r = Some k" using eq
        by (auto simp: version_key_of_def project_key_of_def version_project_def split: option.splits)
      with P r(1) gone show False unfolding amounts_ok_def by (metis option.distinct(1))
    qed
    with Row show ?thesis by (simp add: charge_def)
  qed (simp add: charge_def)
  then have "t_sum (charge (\<lambda>rf. rf) one version_project k st) T = 0" for st by (auto simp: t_sum_0)
  then have z: "qv_at st (V k) = 0" for st using ledger_charge [OF T, of st k] by simp
  show ?thesis
    using z [of Committed] z [of Reserved] by (cases "V k") (simp add: quota_value_default_def)
qed


lemma transition_version_ok:
  assumes T: "version_ledger (quota_version_table s) V R" and wf: "t_wf R"
    and r: "t_get R uid = Some (Row r)" "qr_project r = Some p" and cm: "commit \<longrightarrow> qr_state r = Reserved"
    and project: "V (qr_repository r, p) = pu_versions project"
  shows "\<exists>vs T'. transition_version s r commit project
      = Inr (project\<lparr>pu_versions := vs\<rparr>, s\<lparr>quota_version_table := T'\<rparr>)
    \<and> version_ledger T' (V((qr_repository r, p) := vs)) (settled commit uid r R)"
proof (cases "qr_version r")
  case None
  then have "version_key_of r = None" by (simp add: version_key_of_def split: option.split)
  from vers.ledger_settle_none [OF T wf r(1) this cm] show ?thesis
    using None r(2) project
    by (intro exI [of _ "pu_versions project"] exI [of _ "quota_version_table s"])
      (simp add: transition_version_def fun_upd_idem)
next
  case (Some v)
  let ?k = "(qr_repository r, p, v)"
  have k: "version_key_of r = Some ?k" using Some r(2) by (simp add: version_key_of_def)
  from vers.ledger_settle [OF T wf r(1) k cm] obtain vs rf' where
    ok: "settle_counted commit (V (version_project ?k)) (refs_at (\<lambda>rf. rf) (quota_version_table s) ?k)
        (qr_state r) 1 = Inr (vs, rf')"
    and L: "version_ledger (write_or_remove (quota_version_table s) ?k rf' rf')
        (V(version_project ?k := vs)) (settled commit uid r R)" by blast
  have "quota_read (quota_version_table s) ?k references_default
      = Inr (refs_at (\<lambda>rf. rf) (quota_version_table s) ?k)"
    using quota_read_row_or [OF ledger_rows_ok [OF T]] by (simp add: refs_at_row_or [of "\<lambda>rf. rf"])
  with ok L project show ?thesis
    using Some r(2) by (auto simp: transition_version_def version_project_def)
qed

lemma transition_project_ok:
  assumes U: "t_wf (quota_usage_table s)" "rows_ok (quota_usage_table s)"
    and P: "project_ledger (quota_project_table s) (\<lambda>repo. projects (usage_at s repo)) R"
    and T: "version_ledger (quota_version_table s) (\<lambda>k. pu_versions (project_at s k)) R" and wf: "t_wf R"
    and r: "t_get R uid = Some (Row r)" and cm: "commit \<longrightarrow> qr_state r = Reserved"
    and vp: "qr_version r \<noteq> None \<longrightarrow> qr_project r \<noteq> None"
  shows "\<exists>U' P' T'. transition_project s r commit
      = Inr (s\<lparr>quota_usage_table := U', quota_project_table := P', quota_version_table := T'\<rparr>)
    \<and> t_wf U' \<and> rows_ok U'
    \<and> (\<forall>repo. file_bytes (row_or U' repo quota_usage_default) = file_bytes (usage_at s repo))
    \<and> (\<forall>repo. accounted_bytes (row_or U' repo quota_usage_default) = accounted_bytes (usage_at s repo))
    \<and> project_ledger P' (\<lambda>repo. projects (row_or U' repo quota_usage_default)) (settled commit uid r R)
    \<and> version_ledger T' (\<lambda>k. pu_versions (row_or P' k project_usage_default)) (settled commit uid r R)"
proof (cases "qr_project r")
  case None
  then have "project_key_of r = None" "version_key_of r = None"
    by (simp_all add: project_key_of_def version_key_of_def)
  then have "project_ledger (quota_project_table s) (\<lambda>repo. projects (usage_at s repo)) (settled commit uid r R)"
    "version_ledger (quota_version_table s) (\<lambda>k. pu_versions (project_at s k)) (settled commit uid r R)"
    using projs.ledger_settle_none [OF P wf r _ cm] vers.ledger_settle_none [OF T wf r _ cm] by simp_all
  with None U show ?thesis
    by (intro exI [of _ "quota_usage_table s"] exI [of _ "quota_project_table s"]
        exI [of _ "quota_version_table s"]) (simp add: transition_project_def)
next
  case (Some p)
  let ?k = "(qr_repository r, p)" and ?R = "settled commit uid r R"
  let ?usage = "usage_at s (qr_repository r)" and ?project = "project_at s ?k"
  have k: "project_key_of r = Some ?k" using Some by (simp add: project_key_of_def)
  have refs: "refs_at pu_references (quota_project_table s) ?k = pu_references ?project"
    by (rule refs_at_row_or) (simp add: project_usage_default_def)
  from projs.ledger_settle [OF P wf r k cm] obtain ps rfp where
    ok: "settle_counted commit (projects ?usage) (pu_references ?project) (qr_state r) 1 = Inr (ps, rfp)"
    and L: "\<And>b. pu_references b = rfp \<Longrightarrow> project_ledger (write_or_remove (quota_project_table s) ?k rfp b)
        ((\<lambda>repo. projects (usage_at s repo))(qr_repository r := ps)) ?R"
    by (auto simp: refs)
  from transition_version_ok [OF T wf r Some cm, of "?project\<lparr>pu_references := rfp\<rparr>"]
  obtain vs T' where
    tv: "transition_version s r commit (?project\<lparr>pu_references := rfp\<rparr>)
        = Inr (?project\<lparr>pu_references := rfp, pu_versions := vs\<rparr>, s\<lparr>quota_version_table := T'\<rparr>)"
    and LT: "version_ledger T' ((\<lambda>k. pu_versions (project_at s k))(?k := vs)) ?R" by auto
  let ?b = "?project\<lparr>pu_references := rfp, pu_versions := vs\<rparr>"
  let ?U = "write_record (quota_usage_table s) (qr_repository r) (?usage\<lparr>projects := ps\<rparr>)"
  let ?P = "write_or_remove (quota_project_table s) ?k rfp ?b"
  have LP: "project_ledger ?P (\<lambda>repo. projects (row_or ?U repo quota_usage_default)) ?R"
    using L [of ?b] by (simp add: fun_upd_def if_distrib cong: if_cong)
  have "(\<lambda>k. pu_versions (row_or ?P k project_usage_default)) = (\<lambda>k. pu_versions (project_at s k))(?k := vs)"
  proof (cases "rf_total rfp = 0")
    case True
    have "t_wf ?R" using wf by (simp add: settled_def)
    from versions_vanish [OF _ LT this, of ?P ?k] LP True have "vs = quota_value_default"
      by (simp add: ledger_def t_get_write_or_remove)
    with True show ?thesis by (auto simp: row_or_write_or_remove project_usage_default_def)
  qed (auto simp: row_or_write_or_remove)
  with LT have LT': "version_ledger T' (\<lambda>k. pu_versions (row_or ?P k project_usage_default)) ?R" by simp
  have "transition_project s r commit
      = Inr (s\<lparr>quota_usage_table := ?U, quota_project_table := ?P, quota_version_table := T'\<rparr>)"
    using Some ok tv U(2) ledger_rows_ok [OF P] by (simp add: transition_project_def quota_read_row_or Let_def)
  with LP LT' U show ?thesis by (intro exI conjI) (assumption | simp)+
qed


lemma transition_ok:
  assumes inv: "quota_inv s" and r: "t_get (quota_reservation_table s) uid = Some (Row r)"
    and cm: "commit \<longrightarrow> qr_state r = Reserved"
  defines "R' \<equiv> settled commit uid r (quota_reservation_table s)"
  shows "\<exists>U' B' P' T'. transition s r commit
      = Inr (s\<lparr>quota_blob_table := B', quota_usage_table := U', quota_project_table := P',
          quota_version_table := T'\<rparr>)
    \<and> t_wf U' \<and> rows_ok U'
    \<and> files_ok (\<lambda>repo. file_bytes (row_or U' repo quota_usage_default)) R'
    \<and> blob_ledger B' (\<lambda>repo. accounted_bytes (row_or U' repo quota_usage_default)) R'
    \<and> project_ledger P' (\<lambda>repo. projects (row_or U' repo quota_usage_default)) R'
    \<and> version_ledger T' (\<lambda>k. pu_versions (row_or P' k project_usage_default)) R'"
proof -
  let ?R = "quota_reservation_table s" and ?k = "(qr_repository r, qr_digest r)"
  let ?usage = "usage_at s (qr_repository r)" and ?blob = "row_or (quota_blob_table s) ?k blob_usage_default"
  from inv have wf: "t_wf ?R" and U: "t_wf (quota_usage_table s)" "rows_ok (quota_usage_table s)"
    and F: "files_ok (\<lambda>repo. file_bytes (usage_at s repo)) ?R"
    and B: "blob_ledger (quota_blob_table s) (\<lambda>repo. accounted_bytes (usage_at s repo)) ?R"
    and P: "project_ledger (quota_project_table s) (\<lambda>repo. projects (usage_at s repo)) ?R"
    and T: "version_ledger (quota_version_table s) (\<lambda>k. pu_versions (project_at s k)) ?R"
    and vp: "qr_version r \<noteq> None \<longrightarrow> qr_project r \<noteq> None"
    using r by (auto simp: quota_inv_def reservations_ok_def)
  have k: "blob_key_of r = Some ?k" by (simp add: blob_key_of_def)
  have refs: "refs_at bu_references (quota_blob_table s) ?k = bu_references ?blob"
    by (rule refs_at_row_or) (simp add: blob_usage_default_def)
  have bytes: "bu_bytes ?blob = qr_bytes r"
    using ledger_amount [OF B r k] by (auto simp: row_or_def)
  from files_settle [OF F wf r cm] obtain fb where
    fb: "(if commit then move_value (file_bytes ?usage) (qr_bytes r)
        else subtract_value (file_bytes ?usage) (qr_state r) (qr_bytes r)) = Inr fb"
    and LF: "files_ok ((\<lambda>repo. file_bytes (usage_at s repo))(qr_repository r := fb)) R'"
    unfolding R'_def by blast
  from blobs.ledger_settle [OF B wf r k cm] obtain ab brf where
    ab: "settle_counted commit (accounted_bytes ?usage) (bu_references ?blob) (qr_state r) (qr_bytes r) = Inr (ab, brf)"
    and LB: "blob_ledger (write_or_remove (quota_blob_table s) ?k brf (?blob\<lparr>bu_references := brf\<rparr>))
        ((\<lambda>repo. accounted_bytes (usage_at s repo))(qr_repository r := ab)) R'"
    unfolding R'_def by (auto simp: refs bytes)
  let ?U = "write_record (quota_usage_table s) (qr_repository r) (?usage\<lparr>file_bytes := fb, accounted_bytes := ab\<rparr>)"
  let ?B = "write_or_remove (quota_blob_table s) ?k brf (?blob\<lparr>bu_references := brf\<rparr>)"
  let ?s = "s\<lparr>quota_usage_table := ?U, quota_blob_table := ?B\<rparr>"
  have "(\<lambda>repo. projects (usage_at ?s repo)) = (\<lambda>repo. projects (usage_at s repo))" by (simp add: fun_eq_iff)
  with P have P': "project_ledger (quota_project_table ?s) (\<lambda>repo. projects (usage_at ?s repo)) ?R" by simp
  have T': "version_ledger (quota_version_table ?s) (\<lambda>k. pu_versions (project_at ?s k)) ?R" using T by simp
  have U': "t_wf (quota_usage_table ?s)" "rows_ok (quota_usage_table ?s)" using U by simp_all
  from transition_project_ok [OF U' P' T' wf r cm vp] obtain U'' P'' T'' where
    tp: "transition_project ?s r commit
      = Inr (?s\<lparr>quota_usage_table := U'', quota_project_table := P'', quota_version_table := T''\<rparr>)"
    and rest: "t_wf U''" "rows_ok U''"
      "\<forall>repo. file_bytes (row_or U'' repo quota_usage_default) = file_bytes (usage_at ?s repo)"
      "\<forall>repo. accounted_bytes (row_or U'' repo quota_usage_default) = accounted_bytes (usage_at ?s repo)"
      "project_ledger P'' (\<lambda>repo. projects (row_or U'' repo quota_usage_default)) R'"
      "version_ledger T'' (\<lambda>k. pu_versions (row_or P'' k project_usage_default)) R'"
    unfolding R'_def by blast
  have "transition s r commit = transition_project ?s r commit"
    using fb ab U(2) ledger_rows_ok [OF B] by (simp add: transition_def quota_read_row_or Let_def)
  moreover have "files_ok (\<lambda>repo. file_bytes (row_or U'' repo quota_usage_default)) R'"
    using LF by (simp add: rest(3) fun_upd_def if_distrib cong: if_cong)
  moreover have "blob_ledger ?B (\<lambda>repo. accounted_bytes (row_or U'' repo quota_usage_default)) R'"
    using LB by (simp add: rest(4) fun_upd_def if_distrib cong: if_cong)
  ultimately show ?thesis using tp rest(1,2,5,6) by (intro exI conjI) (assumption | simp)+
qed


lemma settled_reservations_ok:
  assumes "reservations_ok R" "t_get R uid = Some (Row r)"
  shows "reservations_ok (settled commit uid r R)"
  using assms by (auto simp: reservations_ok_def settled_def split: if_splits)

lemma settled_pending_ok:
  assumes "pending_ok P R" "t_get R uid = Some (Row r)"
  shows "pending_ok (t_remove P uid) (settled commit uid r R)"
  using assms by (auto simp: pending_ok_def settled_def)

lemma transition_inv:
  assumes inv: "quota_inv s" and r: "t_get (quota_reservation_table s) uid = Some (Row r)"
    and cm: "commit \<longrightarrow> qr_state r = Reserved"
  shows "\<exists>s1. transition s r commit = Inr s1
    \<and> quota_reservation_table s1 = quota_reservation_table s
    \<and> quota_pending_table s1 = quota_pending_table s
    \<and> quota_inv (s1\<lparr>quota_reservation_table := settled commit uid r (quota_reservation_table s),
        quota_pending_table := t_remove (quota_pending_table s) uid\<rparr>)"
proof -
  have "reservations_ok (settled commit uid r (quota_reservation_table s))"
    "pending_ok (t_remove (quota_pending_table s) uid) (settled commit uid r (quota_reservation_table s))"
    using inv settled_reservations_ok [OF _ r] settled_pending_ok [OF _ r] by (simp_all add: quota_inv_def)
  with transition_ok [OF inv r cm] show ?thesis by (auto simp: quota_inv_def)
qed

lemma commit_reservation_ok:
  assumes inv: "quota_inv s" and r: "t_get (quota_reservation_table s) uid = Some (Row r)"
    and st: "qr_state r = Reserved"
  shows "\<exists>s'. commit_reservation s uid = Inr (True, s') \<and> quota_inv s'
    \<and> quota_reservation_table s' = settled True uid r (quota_reservation_table s)"
  using transition_inv [OF inv r, of True] r st by (auto simp: commit_reservation_def settled_def)

lemma release_ok:
  assumes inv: "quota_inv s" and r: "t_get (quota_reservation_table s) uid = Some (Row r)"
  shows "\<exists>s'. release s uid = Inr (True, s') \<and> quota_inv s'
    \<and> quota_reservation_table s' = t_remove (quota_reservation_table s) uid
    \<and> quota_pending_table s' = t_remove (quota_pending_table s) uid"
  using transition_inv [OF inv r, of False] r by (auto simp: release_def settled_def)

section \<open>Reserving preserves the invariant\<close>

definition bump_value :: "bool \<Rightarrow> quota_value \<Rightarrow> nat \<Rightarrow> quota_value" where
  "bump_value b v amount = (if b then v\<lparr>qv_reserved := qv_reserved v + amount\<rparr> else v)"

definition bump_refs :: "bool \<Rightarrow> references \<Rightarrow> references" where
  "bump_refs b rf = (if b then rf\<lparr>rf_reserved := rf_reserved rf + 1\<rparr> else rf)"

definition value_room :: "bool \<Rightarrow> quota_value \<Rightarrow> nat \<Rightarrow> bool" where
  "value_room b v amount \<longleftrightarrow> (b \<longrightarrow> qv_committed v + qv_reserved v + amount \<le> u64_max)"

definition refs_room :: "bool \<Rightarrow> references \<Rightarrow> bool" where
  "refs_room b rf \<longleftrightarrow> (b \<longrightarrow> rf_committed rf + rf_reserved rf + 1 \<le> u64_max)"

lemma check_value_Inr: "check_when b (ensure_total_add v amount) = Inr x \<longleftrightarrow> value_room b v amount"
  by (auto simp: check_when_def ensure_total_add_def value_room_def checked_add_u64_def split: option.split)

lemma check_refs_Inr: "check_when b (ensure_references_add rf) = Inr x \<longleftrightarrow> refs_room b rf"
  by (auto simp: check_when_def ensure_references_add_def refs_room_def checked_add_u64_def split: option.split)

lemma add_reserved_Inr: "value_room b v amount \<Longrightarrow> add_reserved b v amount = Inr (bump_value b v amount)"
  by (auto simp: add_reserved_def bump_value_def value_room_def)

lemma add_reference_Inr: "refs_room b rf \<Longrightarrow> add_reference b rf = Inr (bump_refs b rf)"
  by (auto simp: add_reference_def bump_refs_def refs_room_def)

definition adds_accounted :: "reservation_rows \<Rightarrow> bool" where
  "adds_accounted rows \<longleftrightarrow> rf_total (bu_references (rr_blob rows)) = 0"

definition adds_project :: "reservation_rows \<Rightarrow> bool" where
  "adds_project rows \<longleftrightarrow> rr_project_key rows \<noteq> None \<and> rf_total (pu_references (rr_project rows)) = 0"

definition adds_version :: "reservation_rows \<Rightarrow> bool" where
  "adds_version rows \<longleftrightarrow> rr_version_key rows \<noteq> None \<and> rf_total (rr_version rows) = 0"

definition rows_room :: "reservation_rows \<Rightarrow> nat \<Rightarrow> bool" where
  "rows_room rows bytes \<longleftrightarrow> value_room True (file_bytes (rr_usage rows)) bytes
     \<and> value_room (adds_accounted rows) (accounted_bytes (rr_usage rows)) bytes
     \<and> value_room (adds_project rows) (projects (rr_usage rows)) 1
     \<and> value_room (adds_version rows) (pu_versions (rr_project rows)) 1
     \<and> refs_room True (bu_references (rr_blob rows))
     \<and> refs_room (rr_project_key rows \<noteq> None) (pu_references (rr_project rows))
     \<and> refs_room (rr_version_key rows \<noteq> None) (rr_version rows)"

definition rows_bump :: "reservation_rows \<Rightarrow> nat \<Rightarrow> reservation_rows" where
  "rows_bump rows bytes = rows\<lparr>
     rr_usage := \<lparr>file_bytes = bump_value True (file_bytes (rr_usage rows)) bytes,
       accounted_bytes = bump_value (adds_accounted rows) (accounted_bytes (rr_usage rows)) bytes,
       projects = bump_value (adds_project rows) (projects (rr_usage rows)) 1\<rparr>,
     rr_project := \<lparr>
       pu_references = bump_refs (rr_project_key rows \<noteq> None) (pu_references (rr_project rows)),
       pu_versions = bump_value (adds_version rows) (pu_versions (rr_project rows)) 1\<rparr>,
     rr_version := bump_refs (rr_version_key rows \<noteq> None) (rr_version rows),
     rr_blob := (rr_blob rows)\<lparr>bu_references := bump_refs True (bu_references (rr_blob rows))\<rparr>\<rparr>"

definition rows_violations :: "reservation_rows \<Rightarrow> nat \<Rightarrow> quota_limits \<Rightarrow> quota_limit list" where
  "rows_violations rows bytes limits = limit_violations (rr_usage rows) (rr_project rows) bytes
     (adds_accounted rows) (adds_project rows) (adds_version rows) limits"

lemma check_value_ok: "value_room b v amount \<Longrightarrow> check_when b (ensure_total_add v amount) = Inr ()"
  by (simp add: check_value_Inr)

lemma check_refs_ok: "refs_room b rf \<Longrightarrow> check_when b (ensure_references_add rf) = Inr ()"
  by (simp add: check_refs_Inr)

lemma ensure_total_add_Inr: "ensure_total_add v amount = Inr x \<longleftrightarrow> value_room True v amount"
  using check_value_Inr [of True v amount x] by (simp add: check_when_def)

lemma ensure_references_add_Inr: "ensure_references_add rf = Inr x \<longleftrightarrow> refs_room True rf"
  using check_refs_Inr [of True rf x] by (simp add: check_when_def)

lemma ensure_total_add_ok: "value_room True v amount \<Longrightarrow> ensure_total_add v amount = Inr ()"
  by (simp add: ensure_total_add_Inr)

lemma ensure_references_add_ok: "refs_room True rf \<Longrightarrow> ensure_references_add rf = Inr ()"
  by (simp add: ensure_references_add_Inr)

lemma rows_reserve_Inr:
  "rows_reserve rows bytes limits = Inr (violations, rows') \<longleftrightarrow>
     rows_room rows bytes \<and> violations = rows_violations rows bytes limits
     \<and> (audit limits \<or> violations = []) \<and> rows' = rows_bump rows bytes"
proof (cases "rows_room rows bytes")
  case True
  then show ?thesis
    by (auto simp: rows_reserve_def Let_def check_value_ok check_refs_ok ensure_total_add_ok
        ensure_references_add_ok add_reserved_Inr add_reference_Inr rows_room_def rows_bump_def
        rows_violations_def simp del: not_None_eq rf_total_0
        simp flip: adds_accounted_def adds_project_def adds_version_def)
next
  case False
  then show ?thesis
    by (simp add: rows_reserve_def Let_def rbind_eq_Inr check_value_Inr check_refs_Inr
        ensure_total_add_Inr ensure_references_add_Inr rows_room_def del: not_None_eq rf_total_0
        flip: adds_accounted_def adds_project_def adds_version_def) blast
qed


abbreviation blob_at :: "meta_store \<Rightarrow> string \<times> string \<Rightarrow> blob_usage" where
  "blob_at s k \<equiv> row_or (quota_blob_table s) k blob_usage_default"

definition rows_of :: "meta_store \<Rightarrow> new_quota_reservation \<Rightarrow> reservation_rows" where
  "rows_of s request = \<lparr>rr_usage = usage_at s (nq_repository request),
     rr_project = (case request_project_key request of
         Some k \<Rightarrow> project_at s k | None \<Rightarrow> project_usage_default),
     rr_version = (case request_version_key request of
         Some k \<Rightarrow> row_or (quota_version_table s) k references_default | None \<Rightarrow> references_default),
     rr_blob = (blob_at s (nq_repository request, nq_digest request))\<lparr>bu_bytes := nq_bytes request\<rparr>,
     rr_project_key = request_project_key request, rr_version_key = request_version_key request,
     rr_blob_key = (nq_repository request, nq_digest request)\<rparr>"

lemma rows_keys:
  "rr_project_key (rows_bump rows bytes) = rr_project_key rows"
  "rr_version_key (rows_bump rows bytes) = rr_version_key rows"
  "rr_blob_key (rows_bump rows bytes) = rr_blob_key rows"
  "rr_project_key (rows_of s request) = request_project_key request"
  "rr_version_key (rows_of s request) = request_version_key request"
  "rr_blob_key (rows_of s request) = (nq_repository request, nq_digest request)"
  by (simp_all add: rows_bump_def rows_of_def)

definition digest_agrees :: "meta_store \<Rightarrow> new_quota_reservation \<Rightarrow> bool" where
  "digest_agrees s request \<longleftrightarrow>
     (let blob = blob_at s (nq_repository request, nq_digest request) in
      0 < rf_total (bu_references blob) \<longrightarrow> bu_bytes blob = nq_bytes request)"

lemma rows_read_Inr:
  assumes "quota_inv s"
  shows "rows_read s request = Inr rows \<longleftrightarrow> digest_agrees s request \<and> rows = rows_of s request"
proof -
  have ok: "rows_ok (quota_usage_table s)" "rows_ok (quota_blob_table s)"
      "rows_ok (quota_project_table s)" "rows_ok (quota_version_table s)"
    using assms by (auto simp: quota_inv_def dest: ledger_rows_ok)
  show ?thesis
    by (auto simp: rows_read_def rows_of_def digest_agrees_def Let_def quota_read_row_or ok
        simp del: rf_total_0 split: option.split)
qed

definition new_reservation ::
    "uuid \<Rightarrow> new_quota_reservation \<Rightarrow> quota_limit list \<Rightarrow> quota_reservation_record" where
  "new_reservation uid request violations = \<lparr>qr_id = uid, qr_repository = nq_repository request,
     qr_project = nq_project request, qr_version = nq_version request, qr_digest = nq_digest request,
     qr_bytes = nq_bytes request, qr_class = nq_class request, qr_state = Reserved,
     qr_created_at_unix = nq_created_at_unix request, qr_violations = violations\<rparr>"

lemma new_reservation_simps [simp]:
  "qr_id (new_reservation uid request vl) = uid"
  "qr_repository (new_reservation uid request vl) = nq_repository request"
  "qr_bytes (new_reservation uid request vl) = nq_bytes request"
  "qr_digest (new_reservation uid request vl) = nq_digest request"
  "qr_state (new_reservation uid request vl) = Reserved"
  "qr_project (new_reservation uid request vl) = nq_project request"
  "qr_version (new_reservation uid request vl) = nq_version request"
  "qr_violations (new_reservation uid request vl) = vl"
  "blob_key_of (new_reservation uid request vl) = Some (nq_repository request, nq_digest request)"
  "project_key_of (new_reservation uid request vl) = request_project_key request"
  "version_key_of (new_reservation uid request vl) = request_version_key request"
  by (simp_all add: new_reservation_def blob_key_of_def project_key_of_def version_key_of_def
      request_project_key_def request_version_key_def split: option.split)

lemma reserve_quota_Inr:
  assumes "quota_inv s"
  shows "reserve_quota uid s request limits = Inr (res, s') \<longleftrightarrow>
     validate_request request = Inr () \<and> digest_agrees s request
     \<and> rows_room (rows_of s request) (nq_bytes request)
     \<and> (audit limits \<or> rows_violations (rows_of s request) (nq_bytes request) limits = [])
     \<and> res = new_reservation uid request (rows_violations (rows_of s request) (nq_bytes request) limits)
     \<and> s' = (rows_write (rows_bump (rows_of s request) (nq_bytes request)) s (nq_repository request))\<lparr>
         quota_reservation_table := write_record (quota_reservation_table s) uid res,
         quota_pending_table := t_insert (quota_pending_table s) uid 0\<rparr>"
  by (auto simp: reserve_quota_def Let_def rbind_eq_Inr rows_read_Inr [OF assms] rows_reserve_Inr
      new_reservation_def rows_write_def)

lemma files_reserve:
  assumes "files_ok V R" "t_wf R" "t_get R uid = None" "qr_state r = Reserved"
    and "value_room True (V (qr_repository r)) (qr_bytes r)"
  shows "files_ok (V(qr_repository r := bump_value True (V (qr_repository r)) (qr_bytes r))) (write_record R uid r)"
proof -
  have sum: "t_sum (\<lambda>_. file_weight repo st) (write_record R uid r)
      = qv_at st (V repo) + (if qr_repository r = repo \<and> st = Reserved then qr_bytes r else 0)" for repo st
    using t_sum_insert [OF assms(2), of "\<lambda>_. file_weight repo st" uid "Row r"] assms(1,3,4)
    by (auto simp: t_at_def write_record_def file_weight_Row files_ok_def)
  have "qv_at st (bump_value True v a) = qv_at st v + (if st = Reserved then a else 0)" for st v a
    by (cases st) (simp_all add: bump_value_def)
  with sum assms(1,5) show ?thesis
    by (auto simp: files_ok_def value_room_def bump_value_def)
qed


lemma blob_reserve:
  assumes inv: "quota_inv s" and fresh: "t_get (quota_reservation_table s) uid = None"
    and agrees: "digest_agrees s request" and room: "rows_room (rows_of s request) (nq_bytes request)"
  defines "k \<equiv> (nq_repository request, nq_digest request)"
    and "rows \<equiv> rows_bump (rows_of s request) (nq_bytes request)"
  shows "blob_ledger (write_record (quota_blob_table s) k (rr_blob rows))
    ((\<lambda>repo. accounted_bytes (usage_at s repo))(fst k := accounted_bytes (rr_usage rows)))
    (write_record (quota_reservation_table s) uid (new_reservation uid request vl))"
proof -
  from inv have wf: "t_wf (quota_reservation_table s)"
    and B: "blob_ledger (quota_blob_table s) (\<lambda>repo. accounted_bytes (usage_at s repo)) (quota_reservation_table s)"
    by (auto simp: quota_inv_def reservations_ok_def)
  have refs: "refs_at bu_references (quota_blob_table s) k = bu_references (blob_at s k)"
    by (rule refs_at_row_or) (simp add: blob_usage_default_def)
  have size: "bu_bytes v = nq_bytes request" if "t_get (quota_blob_table s) k = Some (Row v)" for v
    using ledger_pos [OF B that] that agrees
    by (auto simp: digest_agrees_def Let_def row_or_def k_def rf_total_def saturating_add_u64_def u64_max_def)
  show ?thesis
    using room size
    by (intro blobs.ledger_reserve [OF B wf fresh, where adds = "adds_accounted (rows_of s request)"])
      (auto simp: rows_room_def rows_of_def k_def rows_def rows_bump_def refs [unfolded k_def]
        adds_accounted_def bump_value_def bump_refs_def value_room_def refs_room_def)
qed

lemma project_reserve:
  assumes inv: "quota_inv s" and fresh: "t_get (quota_reservation_table s) uid = None"
    and room: "rows_room (rows_of s request) (nq_bytes request)"
    and k: "request_project_key request = Some k"
  defines "rows \<equiv> rows_bump (rows_of s request) (nq_bytes request)"
  shows "project_ledger (write_record (quota_project_table s) k (rr_project rows))
    ((\<lambda>repo. projects (usage_at s repo))(fst k := projects (rr_usage rows)))
    (write_record (quota_reservation_table s) uid (new_reservation uid request vl))"
proof -
  from inv have wf: "t_wf (quota_reservation_table s)"
    and B: "project_ledger (quota_project_table s) (\<lambda>repo. projects (usage_at s repo)) (quota_reservation_table s)"
    by (auto simp: quota_inv_def reservations_ok_def)
  have refs: "refs_at pu_references (quota_project_table s) k = pu_references (project_at s k)"
    by (rule refs_at_row_or) (simp add: project_usage_default_def)
  have repo: "nq_repository request = fst k" using k by (auto simp: request_project_key_def)
  show ?thesis
    using room
    by (intro projs.ledger_reserve [OF B wf fresh, where adds = "adds_project (rows_of s request)"])
      (auto simp: rows_room_def rows_of_def k rows_def rows_bump_def refs repo
        adds_project_def bump_value_def bump_refs_def value_room_def refs_room_def)
qed

lemma version_reserve:
  assumes inv: "quota_inv s" and fresh: "t_get (quota_reservation_table s) uid = None"
    and room: "rows_room (rows_of s request) (nq_bytes request)"
    and k: "request_version_key request = Some k"
  defines "rows \<equiv> rows_bump (rows_of s request) (nq_bytes request)"
  shows "version_ledger (write_record (quota_version_table s) k (rr_version rows))
    ((\<lambda>k. pu_versions (project_at s k))(version_project k := pu_versions (rr_project rows)))
    (write_record (quota_reservation_table s) uid (new_reservation uid request vl))"
proof -
  from inv have wf: "t_wf (quota_reservation_table s)"
    and B: "version_ledger (quota_version_table s) (\<lambda>k. pu_versions (project_at s k)) (quota_reservation_table s)"
    by (auto simp: quota_inv_def reservations_ok_def)
  have refs: "refs_at (\<lambda>rf. rf) (quota_version_table s) k = row_or (quota_version_table s) k references_default"
    by (rule refs_at_row_or) simp
  have pk: "request_project_key request = Some (version_project k)"
    using k by (auto simp: request_project_key_def request_version_key_def version_project_def split: option.splits)
  show ?thesis
    using room
    by (intro vers.ledger_reserve [OF B wf fresh, where adds = "adds_version (rows_of s request)"])
      (auto simp: rows_room_def rows_of_def k pk rows_def rows_bump_def refs
        adds_version_def bump_value_def bump_refs_def value_room_def refs_room_def)
qed

lemma reserve_quota_inv:
  assumes inv: "quota_inv s" and fresh: "t_get (quota_reservation_table s) uid = None"
    and ok: "reserve_quota uid s request limits = Inr (res, s')"
  shows "quota_inv s'"
proof -
  let ?rows = "rows_bump (rows_of s request) (nq_bytes request)"
  let ?repo = "nq_repository request"
  let ?R = "write_record (quota_reservation_table s) uid res"
  from ok [unfolded reserve_quota_Inr [OF inv]]
  have valid: "validate_request request = Inr ()" and agrees: "digest_agrees s request"
    and room: "rows_room (rows_of s request) (nq_bytes request)"
    and res: "\<exists>vl. res = new_reservation uid request vl"
    and s': "s' = (rows_write ?rows s ?repo)\<lparr>quota_reservation_table := ?R,
         quota_pending_table := t_insert (quota_pending_table s) uid 0\<rparr>" by auto
  from res obtain vl where vl: "res = new_reservation uid request vl" by blast
  from inv have wf: "t_wf (quota_reservation_table s)"
    and F: "files_ok (\<lambda>repo. file_bytes (usage_at s repo)) (quota_reservation_table s)"
    and P: "project_ledger (quota_project_table s) (\<lambda>repo. projects (usage_at s repo)) (quota_reservation_table s)"
    and T: "version_ledger (quota_version_table s) (\<lambda>k. pu_versions (project_at s k)) (quota_reservation_table s)"
    by (auto simp: quota_inv_def reservations_ok_def)
  have vp: "nq_version request \<noteq> None \<longrightarrow> nq_project request \<noteq> None"
    using valid by (auto simp: validate_request_def rbind_eq_Inr split: if_splits)
  have usage: "usage_at s' repo = (if repo = ?repo then rr_usage ?rows else usage_at s repo)" for repo
    by (simp add: s' rows_write_def)
  have "files_ok (\<lambda>repo. file_bytes (usage_at s' repo)) ?R"
    using files_reserve [OF F wf fresh, of res] room
    by (simp add: usage vl rows_room_def rows_of_def rows_bump_def fun_upd_def if_distrib cong: if_cong)
  moreover have "blob_ledger (quota_blob_table s') (\<lambda>repo. accounted_bytes (usage_at s' repo)) ?R"
    using blob_reserve [OF inv fresh agrees room, of vl]
    by (simp add: usage vl fun_upd_def if_distrib s' rows_write_def rows_bump_def rows_of_def cong: if_cong)
  moreover have "project_ledger (quota_project_table s') (\<lambda>repo. projects (usage_at s' repo)) ?R"
  proof (cases "request_project_key request")
    case None
    then have "(\<lambda>repo. projects (usage_at s' repo)) = (\<lambda>repo. projects (usage_at s repo))"
      by (simp add: fun_eq_iff usage rows_bump_def rows_of_def adds_project_def bump_value_def)
    with None projs.ledger_reserve_none [OF P wf fresh, of res] show ?thesis
      by (simp add: vl s' rows_write_def rows_bump_def rows_of_def)
  next
    case (Some k)
    then have "fst k = ?repo" by (auto simp: request_project_key_def)
    with Some project_reserve [OF inv fresh room Some, of vl] show ?thesis
      by (simp add: usage vl fun_upd_def if_distrib s' rows_write_def rows_bump_def rows_of_def cong: if_cong)
  qed
  moreover have "version_ledger (quota_version_table s') (\<lambda>k. pu_versions (project_at s' k)) ?R"
  proof (cases "request_version_key request")
    case None
    have "(\<lambda>k. pu_versions (project_at s' k)) = (\<lambda>k. pu_versions (project_at s k))"
      using None by (auto simp: fun_eq_iff s' rows_write_def rows_bump_def rows_of_def adds_version_def
          bump_value_def split: option.split)
    with None vers.ledger_reserve_none [OF T wf fresh, of res] show ?thesis
      by (simp add: vl s' rows_write_def rows_bump_def rows_of_def)
  next
    case (Some k)
    then have "request_project_key request = Some (version_project k)"
      by (auto simp: request_project_key_def request_version_key_def version_project_def split: option.splits)
    with Some version_reserve [OF inv fresh room Some, of vl] show ?thesis
      by (simp add: vl fun_upd_def if_distrib s' rows_write_def rows_bump_def rows_of_def cong: if_cong)
  qed
  moreover have "reservations_ok ?R" "pending_ok (t_insert (quota_pending_table s) uid 0) ?R"
    using inv fresh vp by (auto simp: quota_inv_def reservations_ok_def pending_ok_def vl)
  ultimately show ?thesis
    using inv by (simp add: quota_inv_def s' rows_write_def)
qed


section \<open>Repair\<close>

lemma release_unknown: "t_get (quota_reservation_table s) uid = None \<Longrightarrow> release s uid = Inr (False, s)"
  by (simp add: release_def)

lemma release_total:
  assumes "quota_inv s"
  shows "\<exists>b s'. release s uid = Inr (b, s') \<and> quota_inv s'"
proof (cases "t_get (quota_reservation_table s) uid")
  case None
  with assms release_unknown show ?thesis by auto
next
  case (Some x)
  moreover from this assms have "x \<noteq> Corrupt"
    using rows_ok_get [of "quota_reservation_table s" uid] by (auto simp: quota_inv_def reservations_ok_def)
  ultimately show ?thesis using release_ok [OF assms, of uid] by (cases x) auto
qed

lemma commit_total:
  assumes "quota_inv s"
  shows "\<exists>b s'. commit_reservation s uid = Inr (b, s') \<and> quota_inv s'"
proof (cases "t_get (quota_reservation_table s) uid")
  case None
  with assms show ?thesis by (auto simp: commit_reservation_def)
next
  case (Some x)
  moreover from this assms have "x \<noteq> Corrupt"
    using rows_ok_get [of "quota_reservation_table s" uid] by (auto simp: quota_inv_def reservations_ok_def)
  ultimately obtain r where r: "t_get (quota_reservation_table s) uid = Some (Row r)" by (cases x) auto
  show ?thesis
  proof (cases "qr_state r")
    case Committed
    with r assms show ?thesis by (auto simp: commit_reservation_def)
  qed (use commit_reservation_ok [OF assms r] in auto)
qed

lemma release_each_ok:
  assumes "quota_inv s" "set ids \<subseteq> set (t_keys (quota_pending_table s))" "distinct ids"
  shows "\<exists>s'. release_each s ids = Inr s' \<and> quota_inv s'
    \<and> quota_pending_table s' = filter (\<lambda>p. fst p \<notin> set ids) (quota_pending_table s)
    \<and> quota_reservation_table s' = filter (\<lambda>p. fst p \<notin> set ids) (quota_reservation_table s)"
  using assms
proof (induction ids arbitrary: s)
  case (Cons uid ids)
  have "t_get (quota_pending_table s) uid \<noteq> None"
    using Cons.prems(2) by (auto simp: t_get_None t_keys_def)
  then obtain r where r: "t_get (quota_reservation_table s) uid = Some (Row r)"
    using Cons.prems(1) by (auto simp: quota_inv_def pending_ok_def)
  from release_ok [OF Cons.prems(1) r] obtain s1 where
    s1: "release s uid = Inr (True, s1)" "quota_inv s1"
      "quota_reservation_table s1 = t_remove (quota_reservation_table s) uid"
      "quota_pending_table s1 = t_remove (quota_pending_table s) uid" by blast
  have "set ids \<subseteq> set (t_keys (quota_pending_table s1))"
    using Cons.prems(2,3) by (force simp: s1(4) t_keys_def t_remove_def)
  from Cons.IH [OF s1(2) this] Cons.prems(3) s1 show ?case
    by (auto simp: t_remove_def conj_commute intro!: filter_cong)
qed auto

lemma t_get_filter_keys: "t_get (filter (\<lambda>p. fst p \<notin> A) t) k = (if k \<in> A then None else t_get t k)"
  by (induction t) (auto simp: t_get_def)

lemma filter_drop_keys:
  assumes "distinct (map fst t)"
  shows "filter (\<lambda>p. fst p \<notin> set (take n (map fst t))) t = drop n t"
  using assms
proof (induction t arbitrary: n)
  case (Cons p t)
  then show ?case
  proof (cases n)
    case (Suc m)
    have "filter (\<lambda>q. fst q \<noteq> fst p \<and> fst q \<notin> set (take m (map fst t))) t
        = filter (\<lambda>q. fst q \<notin> set (take m (map fst t))) t"
      using Cons.prems by (intro filter_cong) (auto simp: image_iff)
    with Cons Suc show ?thesis by simp
  qed simp
qed simp

lemma repair_ok:
  assumes inv: "quota_inv s" and "0 < limit"
  shows "\<exists>s'. repair_abandoned_quota_reservations s limit =
      Inr (\<lparr>repair_released = min limit (length (quota_pending_table s)),
            repair_remaining = limit < length (quota_pending_table s)\<rparr>, s')
    \<and> quota_inv s' \<and> quota_pending_table s' = drop limit (quota_pending_table s)
    \<and> (\<forall>uid. uid \<in> set (take limit (t_keys (quota_pending_table s)))
         \<longrightarrow> t_get (quota_reservation_table s') uid = None)
    \<and> (\<forall>uid. uid \<notin> set (take limit (t_keys (quota_pending_table s)))
         \<longrightarrow> t_get (quota_reservation_table s') uid = t_get (quota_reservation_table s) uid)"
proof -
  let ?ids = "take limit (t_keys (quota_pending_table s))"
  have "distinct (t_keys (quota_pending_table s))"
    using inv by (simp add: quota_inv_def pending_ok_def t_wf_distinct t_keys_def)
  then have d: "distinct ?ids" and d': "distinct (map fst (quota_pending_table s))"
    by (simp_all add: t_keys_def)
  from release_each_ok [OF inv set_take_subset d] obtain s' where
    s': "release_each s ?ids = Inr s'" "quota_inv s'"
      "quota_pending_table s' = filter (\<lambda>p. fst p \<notin> set ?ids) (quota_pending_table s)"
      "quota_reservation_table s' = filter (\<lambda>p. fst p \<notin> set ?ids) (quota_reservation_table s)" by blast
  have "quota_pending_table s' = drop limit (quota_pending_table s)"
    using filter_drop_keys [OF d'] by (simp add: s'(3) t_keys_def)
  moreover have "t_get (quota_reservation_table s') uid =
      (if uid \<in> set ?ids then None else t_get (quota_reservation_table s) uid)" for uid
    unfolding s'(4) by (rule t_get_filter_keys)
  ultimately show ?thesis
    using s'(1,2) assms(2) by (auto simp: repair_abandoned_quota_reservations_def t_keys_def)
qed

end
