(* ===== verification/QuotaProps.thy ===== *)
theory QuotaProps
  imports QuotaInv
begin

text \<open>
  What follows from the accounting invariant: the counters written as sums and cardinalities over
  the allocations, the limits over whole runs, the round trip of a reservation and the repair of
  abandoned ones.
\<close>

section \<open>The counters as functions of the reservations\<close>

lemma t_sum_set: "t_wf t \<Longrightarrow> t_sum f t = (\<Sum>p\<in>set t. f (fst p) (snd p))"
  unfolding t_sum_def by (rule sum_list_distinct_conv_sum_set) (use t_wf_distinct distinct_map in blast)

text \<open>The rows a group is charged for, each with its amount.\<close>

definition charged ::
    "(quota_reservation_record \<Rightarrow> 'k option) \<Rightarrow> (quota_reservation_record \<Rightarrow> nat) \<Rightarrow> ('k \<Rightarrow> 'g)
      \<Rightarrow> reservations \<Rightarrow> 'g \<Rightarrow> ('k \<times> nat) set" where
  "charged keyf wt grp R g =
     {(k, wt r) |uid r k. t_get R uid = Some (Row r) \<and> keyf r = Some k \<and> grp k = g}"

fun row_amount :: "('v \<Rightarrow> nat) \<Rightarrow> 'v row \<Rightarrow> nat" where
  "row_amount amount (Row v) = amount v"
| "row_amount amount Corrupt = 0"

context ledger_kind
begin

lemma row_referenced:
  assumes L: "ledger refs amount keyf wt grp T V R" and wf: "t_wf R" and v: "t_get T k = Some (Row v)"
  shows "\<exists>uid r. t_get R uid = Some (Row r) \<and> keyf r = Some k \<and> wt r = amount v"
proof -
  have rf: "rf_at st (refs v) = ref_count keyf R k st" for st
    using ledger_count [OF L, of st k] refs_at_get [OF v, of refs] by simp
  obtain st where "0 < ref_count keyf R k st"
    using ledger_pos [OF L v] rf [of Committed] rf [of Reserved] by (cases "rf_committed (refs v) = 0") auto
  from ref_count_pos [OF this wf] obtain uid r where r: "t_get R uid = Some (Row r)" "keyf r = Some k" by blast
  with ledger_amount [OF L r] v show ?thesis by auto
qed

lemma charged_rows:
  assumes L: "ledger refs amount keyf wt grp T V R" and wf: "t_wf R"
  shows "(\<lambda>p. (fst p, row_amount amount (snd p))) ` {p \<in> set T. grp (fst p) = g} = charged keyf wt grp R g"
    (is "?f ` ?A = _")
proof (intro equalityI subsetI)
  have T: "t_wf T" "rows_ok T" using L by (auto simp: ledger_def counts_ok_def)
  fix x assume "x \<in> ?f ` ?A"
  then obtain k y where y: "(k, y) \<in> set T" "grp k = g" "x = (k, row_amount amount y)" by auto
  with T obtain v where v: "y = Row v" by (cases y) (auto simp: rows_ok_def)
  with y T have "t_get T k = Some (Row v)" by (simp add: t_get_iff)
  from row_referenced [OF L wf this] y v show "x \<in> charged keyf wt grp R g"
    by (force simp: charged_def)
next
  fix x assume "x \<in> charged keyf wt grp R g"
  then obtain uid r k where r: "t_get R uid = Some (Row r)" "keyf r = Some k" "grp k = g" "x = (k, wt r)"
    by (auto simp: charged_def)
  with ledger_amount [OF L r(1,2)] obtain v where "t_get T k = Some (Row v)" "amount v = wt r" by auto
  with r show "x \<in> ?f ` ?A" by (force dest: t_get_mem)
qed

lemma charged_finite:
  assumes "ledger refs amount keyf wt grp T V R" "t_wf R"
  shows "finite (charged keyf wt grp R g)"
  unfolding charged_rows [OF assms, symmetric] by simp

lemma charged_total:
  assumes L: "ledger refs amount keyf wt grp T V R" and wf: "t_wf R"
  shows "qv_committed (V g) + qv_reserved (V g) = (\<Sum>p\<in>charged keyf wt grp R g. snd p)"
proof -
  have T: "t_wf T" "rows_ok T" using L by (auto simp: ledger_def counts_ok_def)
  have each: "charge refs amount grp g Committed k y + charge refs amount grp g Reserved k y
      = (if grp k = g then row_amount amount y else 0)" if "(k, y) \<in> set T" for k y
  proof (cases y)
    case (Row v)
    with that T ledger_pos [OF L, of k v] show ?thesis by (auto simp: charge_def t_get_iff)
  qed (simp add: charge_def)
  have "qv_committed (V g) + qv_reserved (V g)
      = (\<Sum>p\<in>set T. charge refs amount grp g Committed (fst p) (snd p) + charge refs amount grp g Reserved (fst p) (snd p))"
    using ledger_charge [OF L, of Committed g] ledger_charge [OF L, of Reserved g]
    by (simp add: t_sum_set [OF T(1)] sum.distrib)
  also have "\<dots> = (\<Sum>p\<in>set T. if grp (fst p) = g then row_amount amount (snd p) else 0)"
    using each by (intro sum.cong) auto
  also have "\<dots> = (\<Sum>p\<in>{p \<in> set T. grp (fst p) = g}. snd (fst p, row_amount amount (snd p)))"
    by (simp add: sum.inter_filter)
  also have "\<dots> = (\<Sum>p\<in>charged keyf wt grp R g. snd p)"
    unfolding charged_rows [OF L wf, symmetric]
  proof (subst sum.reindex)
    show "inj_on (\<lambda>p. (fst p, row_amount amount (snd p))) {p \<in> set T. grp (fst p) = g}"
      using T by (auto simp: inj_on_def t_get_iff [symmetric])
  qed simp
  finally show ?thesis .
qed

lemma charged_functional:
  assumes L: "ledger refs amount keyf wt grp T V R"
    and "(k, a) \<in> charged keyf wt grp R g" "(k, b) \<in> charged keyf wt grp R g"
  shows "a = b"
proof -
  from assms(2,3) obtain uid r uid' r' where
    r: "t_get R uid = Some (Row r)" "keyf r = Some k" "t_get R uid' = Some (Row r')" "keyf r' = Some k"
    and "a = wt r" "b = wt r'" by (auto simp: charged_def)
  then show ?thesis using ledger_amount [OF L r(1,2)] ledger_amount [OF L r(3,4)] by auto
qed

end

lemma charged_one: "(\<Sum>p\<in>charged keyf one grp R g. snd p)
    = card {k. \<exists>uid r. t_get R uid = Some (Row r) \<and> keyf r = Some k \<and> grp k = g}"
proof -
  have "charged keyf one grp R g
      = (\<lambda>k. (k, 1)) ` {k. \<exists>uid r. t_get R uid = Some (Row r) \<and> keyf r = Some k \<and> grp k = g}"
    by (auto simp: charged_def)
  moreover have "inj_on (\<lambda>k. (k, 1 :: nat)) A" for A :: "'a set" by (simp add: inj_on_def)
  ultimately show ?thesis by (simp add: sum.reindex)
qed


lemma quota_inv_parts:
  assumes "quota_inv s"
  shows "t_wf (quota_reservation_table s)"
    "files_ok (\<lambda>repo. file_bytes (usage_at s repo)) (quota_reservation_table s)"
    "blob_ledger (quota_blob_table s) (\<lambda>repo. accounted_bytes (usage_at s repo)) (quota_reservation_table s)"
    "project_ledger (quota_project_table s) (\<lambda>repo. projects (usage_at s repo)) (quota_reservation_table s)"
    "version_ledger (quota_version_table s) (\<lambda>k. pu_versions (project_at s k)) (quota_reservation_table s)"
  using assms by (auto simp: quota_inv_def reservations_ok_def)

definition value_sum :: "quota_value \<Rightarrow> nat" where
  "value_sum v = qv_committed v + qv_reserved v"

lemma totals_charged:
  assumes "quota_inv s"
  shows "value_sum (accounted_bytes (usage_at s repo))
      = (\<Sum>p\<in>charged blob_key_of qr_bytes fst (quota_reservation_table s) repo. snd p)"
    "value_sum (projects (usage_at s repo))
      = (\<Sum>p\<in>charged project_key_of one fst (quota_reservation_table s) repo. snd p)"
    "value_sum (pu_versions (project_at s k))
      = (\<Sum>p\<in>charged version_key_of one version_project (quota_reservation_table s) k. snd p)"
  using blobs.charged_total [OF quota_inv_parts(3,1) [OF assms], of repo]
    projs.charged_total [OF quota_inv_parts(4,1) [OF assms], of repo]
    vers.charged_total [OF quota_inv_parts(5,1) [OF assms], of k]
  by (simp_all add: value_sum_def)

definition within_limits :: "quota_limits \<Rightarrow> meta_store \<Rightarrow> bool" where
  "within_limits limits s \<longleftrightarrow>
     (\<forall>m repo. max_accounted_bytes limits = Some m \<longrightarrow> value_sum (accounted_bytes (usage_at s repo)) \<le> m)
     \<and> (\<forall>m repo. max_projects limits = Some m \<longrightarrow> value_sum (projects (usage_at s repo)) \<le> m)
     \<and> (\<forall>m k. max_versions_per_project limits = Some m \<longrightarrow> value_sum (pu_versions (project_at s k)) \<le> m)"

text \<open>Whatever only drops allocations or changes their state cannot push a total up.\<close>

definition shrinks :: "meta_store \<Rightarrow> meta_store \<Rightarrow> bool" where
  "shrinks s s' \<longleftrightarrow> (\<forall>uid r'. t_get (quota_reservation_table s') uid = Some (Row r') \<longrightarrow>
     (\<exists>r st. t_get (quota_reservation_table s) uid = Some (Row r) \<and> r' = r\<lparr>qr_state := st\<rparr>))"

lemma shrinks_charged:
  assumes "shrinks s s'"
  shows "charged blob_key_of qr_bytes fst (quota_reservation_table s') repo
      \<subseteq> charged blob_key_of qr_bytes fst (quota_reservation_table s) repo"
    "charged project_key_of one fst (quota_reservation_table s') repo
      \<subseteq> charged project_key_of one fst (quota_reservation_table s) repo"
    "charged version_key_of one version_project (quota_reservation_table s') k
      \<subseteq> charged version_key_of one version_project (quota_reservation_table s) k"
  using assms unfolding charged_def shrinks_def
  by (force simp: blobs.keyf_state projs.keyf_state vers.keyf_state)+

lemma shrinks_within:
  assumes inv: "quota_inv s" "quota_inv s'" and sh: "shrinks s s'" and lim: "within_limits limits s"
  shows "within_limits limits s'"
proof -
  have "value_sum (accounted_bytes (usage_at s' repo)) \<le> value_sum (accounted_bytes (usage_at s repo))" for repo
    unfolding totals_charged(1) [OF inv(1)] totals_charged(1) [OF inv(2)]
    by (rule sum_mono2) (simp_all add: shrinks_charged [OF sh] blobs.charged_finite [OF quota_inv_parts(3,1) [OF inv(1)]])
  moreover have "value_sum (projects (usage_at s' repo)) \<le> value_sum (projects (usage_at s repo))" for repo
    unfolding totals_charged(2) [OF inv(1)] totals_charged(2) [OF inv(2)]
    by (rule sum_mono2) (use shrinks_charged(2) [OF sh] projs.charged_finite [OF quota_inv_parts(4,1) [OF inv(1)]] in auto)
  moreover have "value_sum (pu_versions (project_at s' k)) \<le> value_sum (pu_versions (project_at s k))" for k
    unfolding totals_charged(3) [OF inv(1)] totals_charged(3) [OF inv(2)]
    by (rule sum_mono2) (use shrinks_charged(3) [OF sh] vers.charged_finite [OF quota_inv_parts(5,1) [OF inv(1)]] in auto)
  ultimately show ?thesis
    using lim unfolding within_limits_def by (meson le_trans)
qed

lemma over_limit_iff: "over_limit (Some m) c a \<longleftrightarrow> \<not> (c + a \<le> m \<and> c + a \<le> u64_max)"
  by (auto simp: over_limit_def checked_add_u64_def)

lemma qv_total_exact: "value_sum v \<le> u64_max \<Longrightarrow> qv_total v = value_sum v"
  by (simp add: qv_total_def value_sum_def saturating_add_exact)

lemma bump_within:
  assumes "\<not> (adds \<and> over_limit (Some m) (qv_total v) a)" "value_sum v \<le> m" "value_sum v \<le> u64_max"
  shows "value_sum (bump_value adds v a) \<le> m"
  using assms by (auto simp: over_limit_iff qv_total_exact bump_value_def) (simp add: value_sum_def)

lemma reserve_within:
  assumes inv: "quota_inv s" and lim: "within_limits limits s" and strict: "\<not> audit limits"
    and ok: "reserve_quota uid s request limits = Inr (res, s')"
  shows "within_limits limits s'"
proof -
  let ?rows = "rows_of s request" and ?repo = "nq_repository request"
  from ok [unfolded reserve_quota_Inr [OF inv]] strict
  have none: "rows_violations ?rows (nq_bytes request) limits = []"
    and s': "quota_usage_table s' = write_record (quota_usage_table s) ?repo (rr_usage (rows_bump ?rows (nq_bytes request)))"
      "quota_project_table s' = (case request_project_key request of
         Some k \<Rightarrow> write_record (quota_project_table s) k (rr_project (rows_bump ?rows (nq_bytes request)))
       | None \<Rightarrow> quota_project_table s)"
    by (auto simp: rows_write_def rows_keys)
  have small: "value_sum (accounted_bytes (usage_at s repo)) \<le> u64_max"
      "value_sum (projects (usage_at s repo)) \<le> u64_max"
      "value_sum (pu_versions (project_at s k)) \<le> u64_max" for repo k
    using quota_inv_parts [OF inv] unfolding ledger_def charges_ok_def value_sum_def by blast+
  have viol: "max_accounted_bytes limits = Some m \<Longrightarrow>
      \<not> (adds_accounted ?rows \<and> over_limit (Some m) (qv_total (accounted_bytes (usage_at s ?repo))) (nq_bytes request))"
    "max_projects limits = Some m \<Longrightarrow>
      \<not> (adds_project ?rows \<and> over_limit (Some m) (qv_total (projects (usage_at s ?repo))) 1)"
    "max_versions_per_project limits = Some m \<Longrightarrow>
      \<not> (adds_version ?rows \<and> over_limit (Some m) (qv_total (pu_versions (rr_project ?rows))) 1)" for m
    using none by (auto simp: rows_violations_def limit_violations_def rows_of_def split: if_splits)
  show ?thesis
    unfolding within_limits_def
  proof (intro conjI allI impI)
    fix m repo assume m: "max_accounted_bytes limits = Some m"
    then show "value_sum (accounted_bytes (usage_at s' repo)) \<le> m"
      using bump_within [OF viol(1) [OF m] _ small(1)] lim
      by (simp add: s' rows_bump_def rows_of_def within_limits_def)
  next
    fix m repo assume m: "max_projects limits = Some m"
    then show "value_sum (projects (usage_at s' repo)) \<le> m"
      using bump_within [OF viol(2) [OF m] _ small(2)] lim
      by (simp add: s' rows_bump_def rows_of_def within_limits_def)
  next
    fix m k assume m: "max_versions_per_project limits = Some m"
    have old: "value_sum (pu_versions (project_at s k)) \<le> m"
      using lim m unfolding within_limits_def by blast
    show "value_sum (pu_versions (project_at s' k)) \<le> m"
    proof (cases "request_project_key request = Some k")
      case True
      then have "pu_versions (rr_project ?rows) = pu_versions (project_at s k)" by (simp add: rows_of_def)
      then show ?thesis
        using bump_within [OF viol(3) [OF m]] old small(3) [of k] True by (simp add: s' rows_bump_def)
    next
      case False
      with old show ?thesis by (auto simp: s' split: option.split)
    qed
  qed
qed


section \<open>The reservations determine everything else\<close>

lemma t_sum_at: "t_wf t \<Longrightarrow> t_sum f t = (\<Sum>k\<in>fst ` set t. t_at f t k)"
  by (subst sum.reindex) (auto simp: t_sum_set inj_on_def t_at_def t_get_iff [symmetric] intro!: sum.cong)

lemma t_remove_insert: "t_get t k = None \<Longrightarrow> t_remove (t_insert t k v) k = t"
  by (induction t k v rule: t_insert.induct) (auto simp: t_get_def t_remove_def filter_id_conv
      map_of_eq_None_iff image_iff split: if_splits)

context ledger_kind
begin

lemma ledger_same_rows:
  assumes "ledger refs amount keyf wt grp T V R" "ledger refs amount keyf wt grp T' V' R" "t_wf R"
    and v: "t_get T k = Some (Row v)"
  shows "\<exists>v'. t_get T' k = Some (Row v') \<and> refs v' = refs v \<and> amount v' = amount v"
proof -
  from row_referenced [OF assms(1,3) v] obtain uid r where
    r: "t_get R uid = Some (Row r)" "keyf r = Some k" "wt r = amount v" by blast
  from ledger_amount [OF assms(2) r(1,2)] obtain v' where
    v': "t_get T' k = Some (Row v')" "amount v' = wt r" by blast
  have "rf_at st (refs v') = rf_at st (refs v)" for st
    using ledger_count [OF assms(1), of st k] ledger_count [OF assms(2), of st k]
      refs_at_get [OF v, of refs] refs_at_get [OF v'(1), of refs] by simp
  with v' r show ?thesis by (auto intro: rf_at_eqI)
qed

lemma ledger_same_charge:
  assumes "ledger refs amount keyf wt grp T V R" "ledger refs amount keyf wt grp T' V' R" "t_wf R"
  shows "t_at (charge refs amount grp g st) T k = t_at (charge refs amount grp g st) T' k"
proof (cases "t_get T k")
  case None
  have "\<nexists>v. t_get T' k = Some (Row v)" using ledger_same_rows [OF assms(2,1,3), of k] None by auto
  then show ?thesis using None by (auto simp: charge_at split: option.split row.split)
next
  case (Some x)
  then obtain v where v: "t_get T k = Some (Row v)"
    using rows_ok_get [OF ledger_rows_ok [OF assms(1)], of k] by (cases x) auto
  with ledger_same_rows [OF assms v] show ?thesis by (auto simp: charge_at)
qed

lemma ledger_determined:
  assumes "ledger refs amount keyf wt grp T V R" "ledger refs amount keyf wt grp T' V' R" "t_wf R"
  shows "V = V'"
proof -
  have wf: "t_wf T" "t_wf T'" using assms by (auto simp: ledger_def counts_ok_def)
  have sub: "fst ` set T \<subseteq> fst ` set T'" if L: "ledger refs amount keyf wt grp T V R"
    "ledger refs amount keyf wt grp T' V' R" for T T' :: "('k, 'v row) tbl" and V V'
  proof
    fix k assume "k \<in> fst ` set T"
    then obtain x where x: "t_get T k = Some x" by (metis t_get_None option.exhaust)
    then obtain v where "t_get T k = Some (Row v)"
      using rows_ok_get [OF ledger_rows_ok [OF L(1)], of k] by (cases x) auto
    from ledger_same_rows [OF L assms(3) this] show "k \<in> fst ` set T'"
      by (metis t_get_None option.distinct(1))
  qed
  have keys: "fst ` set T = fst ` set T'" using sub [OF assms(1,2)] sub [OF assms(2,1)] by blast
  have eq: "qv_at st (V g) = qv_at st (V' g)" for st g
    unfolding ledger_charge [OF assms(1)] ledger_charge [OF assms(2)] t_sum_at [OF wf(1)] t_sum_at [OF wf(2)] keys
    by (simp add: ledger_same_charge [OF assms])
  show ?thesis
    by (rule ext, rule quota_value.equality) (use eq [of Committed] eq [of Reserved] in simp_all)
qed

lemma ledger_same_table:
  assumes "ledger refs amount keyf wt grp T V R" "ledger refs amount keyf wt grp T' V' R" "t_wf R"
    and inj: "\<And>v v' k. t_get T k = Some (Row v) \<Longrightarrow> t_get T' k = Some (Row v') \<Longrightarrow>
        refs v' = refs v \<Longrightarrow> amount v' = amount v \<Longrightarrow> v = v'"
  shows "T = T'"
proof (rule t_wf_ext)
  show "t_wf T" "t_wf T'" using assms(1,2) by (auto simp: ledger_def counts_ok_def)
  fix k
  show "t_get T k = t_get T' k"
  proof (cases "t_get T k")
    case None
    then show ?thesis
      using ledger_same_rows [OF assms(2,1,3), of k] rows_ok_get [OF ledger_rows_ok [OF assms(2)], of k]
      by (cases "t_get T' k") (auto, metis row.exhaust)
  next
    case (Some x)
    then obtain v where v: "t_get T k = Some (Row v)"
      using rows_ok_get [OF ledger_rows_ok [OF assms(1)], of k] by (cases x) auto
    from ledger_same_rows [OF assms(1-3) v] inj [OF v] v show ?thesis by auto
  qed
qed

end

lemma files_determined:
  assumes "files_ok V R" "files_ok V' R"
  shows "V = V'"
proof
  fix repo
  have "qv_at st (V repo) = qv_at st (V' repo)" for st using assms by (simp add: files_ok_def)
  from this [of Committed] this [of Reserved] show "V repo = V' repo"
    by (intro quota_value.equality) simp_all
qed

lemma quota_determined:
  assumes inv: "quota_inv s" "quota_inv s'"
    and same: "quota_reservation_table s' = quota_reservation_table s"
  shows "usage_at s' repo = usage_at s repo" "quota_blob_table s' = quota_blob_table s"
    "quota_project_table s' = quota_project_table s" "quota_version_table s' = quota_version_table s"
proof -
  note p = quota_inv_parts [OF inv(1)] and p' = quota_inv_parts [OF inv(2), unfolded same]
  have "file_bytes (usage_at s' repo) = file_bytes (usage_at s repo)"
    "accounted_bytes (usage_at s' repo) = accounted_bytes (usage_at s repo)"
    "projects (usage_at s' repo) = projects (usage_at s repo)"
    using files_determined [OF p'(2) p(2)] blobs.ledger_determined [OF p'(3) p(3) p(1)]
      projs.ledger_determined [OF p'(4) p(4) p(1)] by (simp_all add: fun_eq_iff)
  then show "usage_at s' repo = usage_at s repo" by (intro quota_usage.equality) simp_all
  show "quota_blob_table s' = quota_blob_table s"
    by (rule blobs.ledger_same_table [OF p'(3) p(3) p(1)]) simp
  show "quota_version_table s' = quota_version_table s"
    by (rule vers.ledger_same_table [OF p'(5) p(5) p(1)]) simp
  have versions: "pu_versions (project_at s' k) = pu_versions (project_at s k)" for k
    using vers.ledger_determined [OF p'(5) p(5) p(1)] by metis
  show "quota_project_table s' = quota_project_table s"
  proof (rule projs.ledger_same_table [OF p'(4) p(4) p(1)])
    fix v v' k assume v: "t_get (quota_project_table s') k = Some (Row v)"
      "t_get (quota_project_table s) k = Some (Row v')" "pu_references v' = pu_references v"
    then have "pu_versions v = pu_versions v'" using versions [of k] by (simp add: row_or_def)
    with v(3) show "v = v'" by simp
  qed
qed


section \<open>Reachable databases\<close>

text \<open>
  What the server does to the quota tables: every public operation that returns, in any order.  An
  operation that fails leaves the database as it was.  The identifier of a reservation is one that
  no reservation carries, which is what \<open>Uuid::new_v4\<close> is relied on for.
\<close>

inductive quota_step :: "quota_limits \<Rightarrow> meta_store \<Rightarrow> meta_store \<Rightarrow> bool" for limits where
  reserve_step: "t_get (quota_reservation_table s) uid = None \<Longrightarrow>
    reserve_quota uid s request limits = Inr (res, s') \<Longrightarrow> quota_step limits s s'"
| commit_step: "commit_quota_reservation s uid = Inr (b, s') \<Longrightarrow> quota_step limits s s'"
| release_step: "release_quota_reservation s uid = Inr (b, s') \<Longrightarrow> quota_step limits s s'"
| repair_step: "repair_abandoned_quota_reservations s n = Inr (report, s') \<Longrightarrow> quota_step limits s s'"

inductive_cases quota_stepE: "quota_step limits s s'"

inductive quota_reachable :: "meta_store \<Rightarrow> bool" where
  quota_start: "quota_reachable open_new"
| quota_next: "quota_reachable s \<Longrightarrow> quota_step limits s s' \<Longrightarrow> quota_reachable s'"

text \<open>Databases every reservation of which was admitted under the same limits.\<close>

inductive quota_limited :: "quota_limits \<Rightarrow> meta_store \<Rightarrow> bool" for limits where
  limited_start: "quota_limited limits open_new"
| limited_next: "quota_limited limits s \<Longrightarrow> quota_step limits s s' \<Longrightarrow> quota_limited limits s'"

lemma quota_inv_open_new: "quota_inv open_new"
proof -
  have "qv_at st quota_value_default = 0" for st by (cases st) (simp_all add: quota_value_default_def)
  then show ?thesis
    using blobs.ledger_empty projs.ledger_empty vers.ledger_empty
    by (simp add: quota_inv_def open_new_def reservations_ok_def pending_ok_def files_ok_def row_or_def
        quota_usage_default_def project_usage_default_def) (simp add: quota_value_default_def)
qed

lemma same_state: "r = r\<lparr>qr_state := qr_state r\<rparr>"
  by simp

lemma shrinks_refl: "shrinks s s"
  unfolding shrinks_def using same_state by blast

lemma repair_inv:
  assumes "quota_inv s" "repair_abandoned_quota_reservations s n = Inr (report, s')"
  shows "quota_inv s' \<and> shrinks s s'"
proof (cases "n = 0")
  case True
  with assms show ?thesis
    by (auto simp: repair_abandoned_quota_reservations_def shrinks_refl)
next
  case False
  with repair_ok [OF assms(1), of n] assms(2) have "quota_inv s'"
    and "\<And>uid. t_get (quota_reservation_table s') uid \<noteq> None \<Longrightarrow>
      t_get (quota_reservation_table s') uid = t_get (quota_reservation_table s) uid" by auto
  then show ?thesis
    unfolding shrinks_def by (metis option.distinct(1) same_state)
qed


lemma get_reservation:
  assumes "quota_inv s"
  shows "t_get (quota_reservation_table s) uid = None
    \<or> (\<exists>r. t_get (quota_reservation_table s) uid = Some (Row r))"
  using rows_ok_get [of "quota_reservation_table s" uid] assms
  by (cases "t_get (quota_reservation_table s) uid") (auto simp: quota_inv_def reservations_ok_def, metis row.exhaust)

lemma release_inv:
  assumes "quota_inv s" "release s uid = Inr (b, s')"
  shows "quota_inv s' \<and> shrinks s s'"
  using get_reservation [OF assms(1), of uid]
proof
  assume "t_get (quota_reservation_table s) uid = None"
  with assms show ?thesis by (simp add: release_unknown shrinks_refl)
next
  assume "\<exists>r. t_get (quota_reservation_table s) uid = Some (Row r)"
  then obtain r where "t_get (quota_reservation_table s) uid = Some (Row r)" ..
  from release_ok [OF assms(1) this] assms(2) show ?thesis
    by (auto simp: shrinks_def) (metis same_state)
qed

lemma commit_inv:
  assumes "quota_inv s" "commit_reservation s uid = Inr (b, s')"
  shows "quota_inv s' \<and> shrinks s s'"
  using get_reservation [OF assms(1), of uid]
proof
  assume "t_get (quota_reservation_table s) uid = None"
  with assms show ?thesis by (simp add: commit_reservation_def shrinks_refl)
next
  assume "\<exists>r. t_get (quota_reservation_table s) uid = Some (Row r)"
  then obtain r where r: "t_get (quota_reservation_table s) uid = Some (Row r)" ..
  show ?thesis
  proof (cases "qr_state r")
    case Reserved
    from commit_reservation_ok [OF assms(1) r Reserved] assms(2) r show ?thesis
      by (auto simp: shrinks_def settled_def) (metis same_state)+
  qed (use assms r shrinks_refl in \<open>auto simp: commit_reservation_def\<close>)
qed

lemmas quota_public_defs = commit_quota_reservation_def release_quota_reservation_def

lemma quota_step_inv: "quota_step limits s s' \<Longrightarrow> quota_inv s \<Longrightarrow> quota_inv s'"
  by (erule quota_stepE) (auto simp: quota_public_defs dest: reserve_quota_inv commit_inv release_inv repair_inv)

lemma quota_step_within:
  assumes "quota_step limits s s'" "quota_inv s" "\<not> audit limits" "within_limits limits s"
  shows "within_limits limits s'"
  using assms(1)
proof (cases rule: quota_step.cases)
  case (reserve_step uid request res)
  with assms show ?thesis by (blast intro: reserve_within)
next
  case commit_step
  with commit_inv [OF assms(2)] have "quota_inv s'" "shrinks s s'" by (auto simp: quota_public_defs)
  with assms show ?thesis by (blast intro: shrinks_within)
next
  case release_step
  with release_inv [OF assms(2)] have "quota_inv s'" "shrinks s s'" by (auto simp: quota_public_defs)
  with assms show ?thesis by (blast intro: shrinks_within)
next
  case repair_step
  with repair_inv [OF assms(2)] have "quota_inv s'" "shrinks s s'" by auto
  with assms show ?thesis by (blast intro: shrinks_within)
qed

lemma reachable_inv: "quota_reachable s \<Longrightarrow> quota_inv s"
  by (induction rule: quota_reachable.induct) (auto simp: quota_inv_open_new dest: quota_step_inv)

lemma limited_reachable: "quota_limited limits s \<Longrightarrow> quota_reachable s"
  by (induction rule: quota_limited.induct) (auto intro: quota_reachable.intros)

lemma within_open_new: "within_limits limits open_new"
  by (simp add: within_limits_def open_new_def row_or_def quota_usage_default_def
      project_usage_default_def quota_value_default_def value_sum_def)

section \<open>A sample run\<close>

text \<open>Two pending uploads of the same digest, the first of them committed.\<close>

definition sample_request :: "string \<Rightarrow> new_quota_reservation" where
  "sample_request ver = \<lparr>nq_repository = ''main'', nq_project = Some ''demo'', nq_version = Some ver,
     nq_digest = ''d1'', nq_bytes = 7, nq_class = HostedClass, nq_created_at_unix = 0\<rparr>"

definition sample_limits :: quota_limits where
  "sample_limits = \<lparr>max_file_bytes = Some 10, max_accounted_bytes = Some 10, max_projects = Some 1,
     max_versions_per_project = Some 2, audit = False\<rparr>"

definition after_reserve :: "uuid \<Rightarrow> string \<Rightarrow> meta_store \<Rightarrow> meta_store" where
  "after_reserve uid ver s = (case reserve_quota uid s (sample_request ver) sample_limits of
      Inr (_, s') \<Rightarrow> s' | Inl _ \<Rightarrow> s)"

definition after_commit :: "uuid \<Rightarrow> meta_store \<Rightarrow> meta_store" where
  "after_commit uid s = (case commit_quota_reservation s uid of Inr (_, s') \<Rightarrow> s' | Inl _ \<Rightarrow> s)"

definition sample_store :: meta_store where
  "sample_store = after_commit 1 (after_reserve 2 ''2'' (after_reserve 1 ''1'' open_new))"

lemma after_reserve_limited:
  assumes "quota_limited sample_limits s" "t_get (quota_reservation_table s) uid = None"
  shows "quota_limited sample_limits (after_reserve uid ver s)"
  using assms by (auto simp: after_reserve_def split: sum.split
      intro: limited_next quota_step.reserve_step)

lemma after_commit_limited:
  "quota_limited sample_limits s \<Longrightarrow> quota_limited sample_limits (after_commit uid s)"
  by (auto simp: after_commit_def split: sum.split intro: limited_next quota_step.commit_step)

lemma sample_first: "t_get (quota_reservation_table (after_reserve 1 ''1'' open_new)) 2 = None"
  by code_simp

lemma sample_limited: "quota_limited sample_limits sample_store"
  unfolding sample_store_def
  by (intro after_commit_limited after_reserve_limited limited_start sample_first) (simp add: open_new_def)

lemma sample_usage: "usage_at sample_store ''main'' = \<lparr>
     file_bytes = \<lparr>qv_committed = 7, qv_reserved = 7\<rparr>,
     accounted_bytes = \<lparr>qv_committed = 7, qv_reserved = 0\<rparr>,
     projects = \<lparr>qv_committed = 1, qv_reserved = 0\<rparr>\<rparr>"
  by code_simp


section \<open>Properties\<close>

definition allocations :: "meta_store \<Rightarrow> quota_reservation_record set" where
  "allocations s = {r. \<exists>uid. t_get (quota_reservation_table s) uid = Some (Row r)}"

lemma files_exact:
  assumes inv: "quota_inv s"
  shows "qv_at st (file_bytes (usage_at s repo))
      = (\<Sum>r\<in>{r \<in> allocations s. qr_repository r = repo \<and> qr_state r = st}. qr_bytes r)"
proof -
  let ?R = "quota_reservation_table s" and ?row = "\<lambda>q. case snd q of Row r \<Rightarrow> r"
  note parts = quota_inv_parts [OF inv]
  have rows: "\<exists>r. x = Row r \<and> t_get ?R uid = Some (Row r) \<and> qr_id r = uid"
    if "(uid, x) \<in> set ?R" for uid x
    using that inv t_get_iff [OF parts(1)] unfolding quota_inv_def reservations_ok_def rows_ok_def
    by (cases x) auto
  have "qv_at st (file_bytes (usage_at s repo)) = (\<Sum>q\<in>set ?R. file_weight repo st (snd q))"
    using parts(2) by (simp add: files_ok_def t_sum_set [OF parts(1)])
  also have "\<dots> = (\<Sum>q\<in>{q \<in> set ?R. qr_repository (?row q) = repo \<and> qr_state (?row q) = st}. qr_bytes (?row q))"
    by (subst sum.inter_filter) (auto simp: file_weight_Row intro!: sum.cong dest!: rows)
  also have "\<dots> = (\<Sum>r\<in>{r \<in> allocations s. qr_repository r = repo \<and> qr_state r = st}. qr_bytes r)"
  proof (rule sum.reindex_bij_witness [of _ "\<lambda>r. (qr_id r, Row r)" ?row])
    fix r assume "r \<in> {r \<in> allocations s. qr_repository r = repo \<and> qr_state r = st}"
    then obtain uid where "t_get ?R uid = Some (Row r)" "qr_repository r = repo" "qr_state r = st"
      by (auto simp: allocations_def)
    then show "(qr_id r, Row r) \<in> {q \<in> set ?R. qr_repository (?row q) = repo \<and> qr_state (?row q) = st}"
      using rows [OF t_get_mem] by (auto dest: t_get_mem)
  qed (auto simp: allocations_def dest!: rows)
  finally show ?thesis .
qed

lemma version_key_of_Some: "version_key_of r = Some k \<longleftrightarrow>
    (\<exists>p v. qr_project r = Some p \<and> qr_version r = Some v \<and> k = (qr_repository r, p, v))"
  by (auto simp: version_key_of_def split: option.splits)

lemma totals_exact:
  assumes inv: "quota_inv s"
  shows "value_sum (accounted_bytes (usage_at s repo))
      = (\<Sum>p\<in>{(qr_digest r, qr_bytes r) |r. r \<in> allocations s \<and> qr_repository r = repo}. snd p)"
    and "value_sum (projects (usage_at s repo))
      = card {p. \<exists>r. r \<in> allocations s \<and> qr_repository r = repo \<and> qr_project r = Some p}"
    and "value_sum (pu_versions (project_at s (repo, p)))
      = card {v. \<exists>r. r \<in> allocations s \<and> qr_repository r = repo \<and> qr_project r = Some p
          \<and> qr_version r = Some v}"
proof -
  show "value_sum (accounted_bytes (usage_at s repo))
      = (\<Sum>p\<in>{(qr_digest r, qr_bytes r) |r. r \<in> allocations s \<and> qr_repository r = repo}. snd p)"
    unfolding totals_charged(1) [OF inv]
    by (rule sum.reindex_bij_witness [of _ "\<lambda>p. ((repo, fst p), snd p)" "\<lambda>p. (snd (fst p), snd p)"])
      (auto simp: charged_def allocations_def blob_key_of_def, metis)
  show "value_sum (projects (usage_at s repo))
      = card {p. \<exists>r. r \<in> allocations s \<and> qr_repository r = repo \<and> qr_project r = Some p}"
    unfolding totals_charged(2) [OF inv] charged_one
    by (rule bij_betw_same_card [of snd], rule bij_betw_byWitness [where f' = "Pair repo"])
      (auto simp: allocations_def project_key_of_def, blast)
  show "value_sum (pu_versions (project_at s (repo, p)))
      = card {v. \<exists>r. r \<in> allocations s \<and> qr_repository r = repo \<and> qr_project r = Some p
          \<and> qr_version r = Some v}"
    unfolding totals_charged(3) [OF inv] charged_one
    by (rule bij_betw_same_card [of "\<lambda>k. snd (snd k)"],
        rule bij_betw_byWitness [where f' = "\<lambda>v. (repo, p, v)"])
      (auto simp: allocations_def version_key_of_Some version_project_def, blast)
qed

text \<open>C1: whatever sequence of reservations, commits, releases and repairs a database has gone
  through, its counters are exactly what its reservation rows imply.  File bytes are the sum over
  the allocations of a repository, per lifecycle state; accounted bytes charge each digest of the
  repository once; the project counter is the number of projects with an allocation and a
  project's version counter the number of its versions with one.\<close>

theorem quota_counters_exact:
  assumes "quota_reachable s"
  shows "qv_at st (file_bytes (usage_at s repo))
      = (\<Sum>r\<in>{r \<in> allocations s. qr_repository r = repo \<and> qr_state r = st}. qr_bytes r)
    \<and> value_sum (accounted_bytes (usage_at s repo))
      = (\<Sum>p\<in>{(qr_digest r, qr_bytes r) |r. r \<in> allocations s \<and> qr_repository r = repo}. snd p)
    \<and> value_sum (projects (usage_at s repo))
      = card {p. \<exists>r. r \<in> allocations s \<and> qr_repository r = repo \<and> qr_project r = Some p}
    \<and> value_sum (pu_versions (project_at s (repo, p)))
      = card {v. \<exists>r. r \<in> allocations s \<and> qr_repository r = repo \<and> qr_project r = Some p
          \<and> qr_version r = Some v}"
  using files_exact [OF reachable_inv [OF assms]] totals_exact [OF reachable_inv [OF assms]] by blast

theorem quota_counters_exact_witness:
  "quota_reachable sample_store
   \<and> qv_at Committed (file_bytes (usage_at sample_store ''main''))
      = (\<Sum>r\<in>{r \<in> allocations sample_store. qr_repository r = ''main'' \<and> qr_state r = Committed}. qr_bytes r)
   \<and> 7 = (\<Sum>p\<in>{(qr_digest r, qr_bytes r) |r. r \<in> allocations sample_store \<and> qr_repository r = ''main''}. snd p)"
  using quota_counters_exact [OF limited_reachable [OF sample_limited], of Committed "''main''" "''demo''"]
    limited_reachable [OF sample_limited] by (simp add: sample_usage value_sum_def)


lemma quota_reservation_get:
  assumes "quota_inv s"
  shows "quota_reservation s uid = Inr None \<and> t_get (quota_reservation_table s) uid = None
    \<or> (\<exists>r. quota_reservation s uid = Inr (Some r) \<and> t_get (quota_reservation_table s) uid = Some (Row r))"
  using get_reservation [OF assms, of uid] by (auto simp: quota_reservation_def)

definition mark_committed ::
    "meta_error + quota_reservation_record option \<Rightarrow> meta_error + quota_reservation_record option" where
  "mark_committed found = (case found of
      Inr (Some r) \<Rightarrow> Inr (Some (r\<lparr>qr_state := Committed\<rparr>)) | _ \<Rightarrow> found)"

lemma commit_exact:
  assumes inv: "quota_inv s"
  shows "\<exists>s'. commit_quota_reservation s uid
        = Inr (\<exists>r. quota_reservation s uid = Inr (Some r) \<and> qr_state r = Reserved, s')
      \<and> (\<forall>other. quota_reservation s' other =
           (if other = uid then mark_committed (quota_reservation s uid) else quota_reservation s other))"
  using quota_reservation_get [OF inv, of uid]
proof (elim disjE conjE exE)
  fix r assume r: "quota_reservation s uid = Inr (Some r)" "t_get (quota_reservation_table s) uid = Some (Row r)"
  show ?thesis
  proof (cases "qr_state r")
    case Reserved
    from commit_reservation_ok [OF inv r(2) this] obtain s' where
      "commit_reservation s uid = Inr (True, s')"
      "quota_reservation_table s' = settled True uid r (quota_reservation_table s)" by blast
    with r Reserved show ?thesis
      by (auto simp: quota_public_defs quota_reservation_def settled_def read_record_def mark_committed_def)
  next
    case Committed
    then have "r\<lparr>qr_state := Committed\<rparr> = r" using same_state [of r] by simp
    with r Committed show ?thesis
      by (auto simp: quota_public_defs commit_reservation_def mark_committed_def)
  qed
qed (auto simp: quota_public_defs commit_reservation_def mark_committed_def)

lemma release_exact:
  assumes inv: "quota_inv s"
  shows "\<exists>s'. release_quota_reservation s uid = Inr (quota_reservation s uid \<noteq> Inr None, s')
      \<and> (\<forall>other. quota_reservation s' other = (if other = uid then Inr None else quota_reservation s other))"
  using quota_reservation_get [OF inv, of uid]
proof (elim disjE conjE exE)
  fix r assume r: "quota_reservation s uid = Inr (Some r)" "t_get (quota_reservation_table s) uid = Some (Row r)"
  from release_ok [OF inv r(2)] obtain s' where "release s uid = Inr (True, s')"
    "quota_reservation_table s' = t_remove (quota_reservation_table s) uid" by blast
  with r show ?thesis by (auto simp: quota_public_defs quota_reservation_def read_record_def)
qed (auto simp: quota_public_defs release_unknown)

text \<open>C2: in a reachable database commit and release always succeed: no counter underflows, no
  counter overflows, no row is undecodable.  Committing reports \<open>true\<close> exactly for a pending
  reservation, releasing for one that exists, and only the named reservation changes.\<close>

theorem settle_total:
  assumes "quota_reachable s"
  shows "(\<exists>s'. commit_quota_reservation s uid
        = Inr (\<exists>r. quota_reservation s uid = Inr (Some r) \<and> qr_state r = Reserved, s')
      \<and> (\<forall>other. quota_reservation s' other =
           (if other = uid then mark_committed (quota_reservation s uid) else quota_reservation s other)))
    \<and> (\<exists>s'. release_quota_reservation s uid = Inr (quota_reservation s uid \<noteq> Inr None, s')
      \<and> (\<forall>other. quota_reservation s' other =
           (if other = uid then Inr None else quota_reservation s other)))"
  using commit_exact [OF reachable_inv [OF assms]] release_exact [OF reachable_inv [OF assms]] by blast

theorem settle_total_witness:
  "quota_reachable sample_store \<and> quota_reservation sample_store 2 \<noteq> Inr None
   \<and> (\<exists>s'. release_quota_reservation sample_store 2 = Inr (True, s') \<and> quota_reservation s' 2 = Inr None)"
proof -
  have "quota_reservation sample_store 2 \<noteq> Inr None" by code_simp
  with settle_total [OF limited_reachable [OF sample_limited], of 2] limited_reachable [OF sample_limited]
  show ?thesis by auto
qed

text \<open>C3: while every reservation is admitted under the same enforcing limits, no repository ever
  holds more accounted bytes or more projects, and no project more versions, than they allow,
  committed and pending together and whatever is committed, released or repaired in between.\<close>

theorem quota_limits_respected:
  assumes "quota_limited limits s" "\<not> audit limits"
  shows "within_limits limits s"
  using assms(1)
proof (induction rule: quota_limited.induct)
  case limited_start
  show ?case by (rule within_open_new)
next
  case (limited_next s s')
  with quota_step_within [OF limited_next.hyps(2) reachable_inv [OF limited_reachable]] assms(2)
  show ?case by blast
qed

theorem quota_limits_respected_witness:
  "quota_limited sample_limits sample_store \<and> \<not> audit sample_limits \<and> within_limits sample_limits sample_store"
  using quota_limits_respected [OF sample_limited] sample_limited by (simp add: sample_limits_def)

text \<open>Releasing a reservation that was just made restores every counter and every row: the
  digest, project and version tables, the pending set, the reservations and the usage read back
  for every repository are those from before the reservation.\<close>

theorem reserve_release_roundtrip:
  assumes "quota_reachable s" "t_get (quota_reservation_table s) uid = None"
    and "reserve_quota uid s request limits = Inr (res, s')"
  shows "\<exists>s''. release_quota_reservation s' uid = Inr (True, s'')
    \<and> quota_reservation_table s'' = quota_reservation_table s
    \<and> quota_pending_table s'' = quota_pending_table s
    \<and> quota_blob_table s'' = quota_blob_table s
    \<and> quota_project_table s'' = quota_project_table s
    \<and> quota_version_table s'' = quota_version_table s
    \<and> (\<forall>repo. quota_usage_of s'' repo = quota_usage_of s repo)"
proof -
  note inv = reachable_inv [OF assms(1)]
  note inv' = reserve_quota_inv [OF inv assms(2,3)]
  have R': "quota_reservation_table s' = write_record (quota_reservation_table s) uid res"
    and P': "quota_pending_table s' = t_insert (quota_pending_table s) uid 0"
    using assms(3) unfolding reserve_quota_Inr [OF inv] by auto
  from release_ok [OF inv', of uid res] obtain s'' where
    s'': "release s' uid = Inr (True, s'')" "quota_inv s''"
      "quota_reservation_table s'' = t_remove (quota_reservation_table s') uid"
      "quota_pending_table s'' = t_remove (quota_pending_table s') uid" by (auto simp: R')
  have "t_get (quota_pending_table s) uid = None"
    using inv assms(2) unfolding quota_inv_def pending_ok_def by (metis option.distinct(1))
  then have P: "quota_pending_table s'' = quota_pending_table s"
    using s''(4) by (simp add: P' t_remove_insert)
  have R: "quota_reservation_table s'' = quota_reservation_table s"
    using s''(3) assms(2) by (simp add: R' write_record_def t_remove_insert)
  have usage: "quota_usage_of u repo = Inr (usage_at u repo)" if "quota_inv u" for u repo
    using that quota_read_row_or [of "quota_usage_table u" repo quota_usage_default]
    by (auto simp: quota_inv_def quota_read_def quota_usage_of_def rbind_eq_Inr)
  show ?thesis
    using s''(1) R P quota_determined [OF inv s''(2) R] usage [OF inv] usage [OF s''(2)]
    by (auto simp: quota_public_defs)
qed


theorem reserve_release_roundtrip_witness:
  "is_ok (reserve_quota 3 sample_store (sample_request ''1'') sample_limits)
   \<and> (\<exists>res s' s''. reserve_quota 3 sample_store (sample_request ''1'') sample_limits = Inr (res, s')
       \<and> release_quota_reservation s' 3 = Inr (True, s'')
       \<and> quota_usage_of s'' ''main'' = quota_usage_of sample_store ''main'')"
proof -
  have ok: "is_ok (reserve_quota 3 sample_store (sample_request ''1'') sample_limits)"
    and fresh: "t_get (quota_reservation_table sample_store) 3 = None" by code_simp+
  then obtain res s' where r: "reserve_quota 3 sample_store (sample_request ''1'') sample_limits = Inr (res, s')"
    by (auto simp: is_ok_iff)
  from reserve_release_roundtrip [OF limited_reachable [OF sample_limited] fresh r] ok r
  show ?thesis by auto
qed

lemma no_reserved_row:
  assumes "pending_ok [] R" "t_get R uid = Some (Row r)"
  shows "qr_state r = Committed"
  using assms by (cases "qr_state r") (auto simp: pending_ok_def)

lemma no_pending_no_refs:
  assumes "pending_ok [] R" "t_wf R"
  shows "ref_count keyf R k Reserved = 0"
  using ref_count_pos [OF _ assms(2)] no_reserved_row [OF assms(1)]
  by (metis neq0_conv quota_reservation_state.distinct(1))

lemma no_refs_no_reserved:
  assumes L: "ledger refs amount keyf wt grp T V R" and P: "pending_ok [] R" "t_wf R"
  shows "qv_reserved (V g) = 0"
proof -
  have T: "t_wf T" using L by (simp add: ledger_def counts_ok_def)
  have "charge refs amount grp g Reserved k x = 0" if "(k, x) \<in> set T" for k x
  proof (cases x)
    case (Row v)
    with that T have v: "t_get T k = Some (Row v)" by (simp add: t_get_iff)
    have "rf_reserved (refs v) = 0"
      using ledger_count [OF L, of Reserved k] refs_at_get [OF v, of refs] no_pending_no_refs [OF P, of keyf k] by simp
    with Row show ?thesis by (simp add: charge_def)
  qed (simp add: charge_def)
  with ledger_charge [OF L, of Reserved g] show ?thesis by (auto simp: t_sum_0)
qed

lemma no_pending_no_reserved:
  assumes inv: "quota_inv s" and none: "quota_pending_table s = []"
  shows "qv_reserved (file_bytes (usage_at s repo)) = 0
    \<and> qv_reserved (accounted_bytes (usage_at s repo)) = 0
    \<and> qv_reserved (projects (usage_at s repo)) = 0 \<and> qv_reserved (pu_versions (project_at s k)) = 0"
proof -
  note parts = quota_inv_parts [OF inv]
  have P: "pending_ok [] (quota_reservation_table s)" using inv none by (simp add: quota_inv_def)
  have "file_weight repo Reserved x = 0" if "(uid, x) \<in> set (quota_reservation_table s)" for uid x
    using that no_reserved_row [OF P, of uid] t_get_iff [OF parts(1)]
    by (cases x) (auto simp: file_weight_def)
  then have "t_sum (\<lambda>_. file_weight repo Reserved) (quota_reservation_table s) = 0" by (auto simp: t_sum_0)
  then have "qv_at Reserved (file_bytes (usage_at s repo)) = 0" using parts(2) by (simp add: files_ok_def)
  with no_refs_no_reserved [OF parts(3) P parts(1), of repo] no_refs_no_reserved [OF parts(4) P parts(1), of repo]
    no_refs_no_reserved [OF parts(5) P parts(1), of k] show ?thesis by simp
qed

text \<open>C4: a restart repair pass with a positive bound always succeeds, releases the first pending
  reservations up to the bound, says whether any is left, and leaves every other reservation
  alone; when none is left, no reserved counter of any repository or project is charged.\<close>

theorem repair_pass:
  assumes "quota_reachable s" "0 < limit"
  shows "\<exists>report s'. repair_abandoned_quota_reservations s limit = Inr (report, s')
    \<and> repair_released report = min limit (length (quota_pending_table s))
    \<and> repair_remaining report = (limit < length (quota_pending_table s))
    \<and> quota_pending_table s' = drop limit (quota_pending_table s)
    \<and> (\<forall>uid. quota_reservation s' uid =
         (if uid \<in> set (take limit (t_keys (quota_pending_table s))) then Inr None
          else quota_reservation s uid))
    \<and> (repair_remaining report \<or> (\<forall>repo p. qv_reserved (file_bytes (usage_at s' repo)) = 0
         \<and> qv_reserved (accounted_bytes (usage_at s' repo)) = 0
         \<and> qv_reserved (projects (usage_at s' repo)) = 0
         \<and> qv_reserved (pu_versions (project_at s' (repo, p))) = 0))"
proof -
  from repair_ok [OF reachable_inv [OF assms(1)] assms(2)] obtain s' where
    s': "repair_abandoned_quota_reservations s limit =
      Inr (\<lparr>repair_released = min limit (length (quota_pending_table s)),
            repair_remaining = limit < length (quota_pending_table s)\<rparr>, s')" "quota_inv s'"
      "quota_pending_table s' = drop limit (quota_pending_table s)"
    and get: "\<And>uid. t_get (quota_reservation_table s') uid =
        (if uid \<in> set (take limit (t_keys (quota_pending_table s))) then None
         else t_get (quota_reservation_table s) uid)" by (auto split: if_splits)
  have "quota_reservation s' uid = (if uid \<in> set (take limit (t_keys (quota_pending_table s))) then Inr None
      else quota_reservation s uid)" for uid
    by (simp add: quota_reservation_def read_record_def get)
  moreover have "limit < length (quota_pending_table s) \<or> (\<forall>repo p. qv_reserved (file_bytes (usage_at s' repo)) = 0
         \<and> qv_reserved (accounted_bytes (usage_at s' repo)) = 0
         \<and> qv_reserved (projects (usage_at s' repo)) = 0
         \<and> qv_reserved (pu_versions (project_at s' (repo, p))) = 0)"
    using no_pending_no_reserved [OF s'(2)] s'(3) by (cases "limit < length (quota_pending_table s)") auto
  ultimately show ?thesis using s' by auto
qed

theorem repair_pass_witness:
  "\<exists>report s'. repair_abandoned_quota_reservations sample_store 5 = Inr (report, s')
    \<and> repair_released report = 1 \<and> \<not> repair_remaining report
    \<and> qv_reserved (file_bytes (usage_at s' ''main'')) = 0"
proof -
  have "length (quota_pending_table sample_store) = 1" by code_simp
  with repair_pass [OF limited_reachable [OF sample_limited], of 5] show ?thesis by auto
qed

end
