(* ===== verification/Driver.thy ===== *)
theory Driver
  imports Quota
begin

text \<open>
  The neutral key-value table of the ecosystem drivers and the journal that replicas follow,
  \<open>crates/peryx-storage/src/meta/index.rs\<close> and \<open>journal.rs\<close>.  A transaction body is an arbitrary
  Rust closure over \<open>DriverTxn\<close>; it is an argument of the model, and what the type system grants it
  (only the methods of \<open>DriverTxn\<close>) is the relation \<open>txn_run\<close>.
\<close>

section \<open>Driver transactions\<close>

record driver_txn =
  dt_table :: "(string, bytes) tbl"
  dt_touched :: "string list"
  dt_blobs :: "driver_blob_reference list"

definition txn_get :: "driver_txn \<Rightarrow> string \<Rightarrow> bytes option" where
  "txn_get t k = t_get (dt_table t) k"

definition txn_prefix :: "driver_txn \<Rightarrow> string \<Rightarrow> (string \<times> bytes) list" where
  "txn_prefix t p = prefix_scan (dt_table t) p"

definition txn_prefix_keys :: "driver_txn \<Rightarrow> string \<Rightarrow> string list" where
  "txn_prefix_keys t p = map fst (prefix_scan (dt_table t) p)"

definition txn_upsert :: "driver_txn \<Rightarrow> string \<Rightarrow> bytes \<Rightarrow> bool \<times> driver_txn" where
  "txn_upsert t k v =
     (t_get (dt_table t) k = None,
      t\<lparr>dt_table := t_insert (dt_table t) k v, dt_touched := bset_insert k (dt_touched t)\<rparr>)"

definition txn_put :: "driver_txn \<Rightarrow> string \<Rightarrow> bytes \<Rightarrow> driver_txn" where
  "txn_put t k v = snd (txn_upsert t k v)"

definition txn_put_local :: "driver_txn \<Rightarrow> string \<Rightarrow> bytes \<Rightarrow> driver_txn" where
  "txn_put_local t k v = t\<lparr>dt_table := t_insert (dt_table t) k v\<rparr>"

definition txn_reference_blob :: "driver_txn \<Rightarrow> string \<Rightarrow> nat \<Rightarrow> driver_txn" where
  "txn_reference_blob t sha256 sz = t\<lparr>dt_blobs := bset_insert (BlobReference sha256 sz) (dt_blobs t)\<rparr>"

definition txn_remove :: "driver_txn \<Rightarrow> string \<Rightarrow> bool \<times> driver_txn" where
  "txn_remove t k =
     (let removed = t_get (dt_table t) k \<noteq> None;
          t = t\<lparr>dt_table := t_remove (dt_table t) k\<rparr> in
      (removed, if removed then t\<lparr>dt_touched := bset_insert k (dt_touched t)\<rparr> else t))"

definition mutation_of :: "(string, bytes) tbl \<Rightarrow> string \<Rightarrow> driver_mutation" where
  "mutation_of table k = (case t_get table k of None \<Rightarrow> Delete_key k | Some v \<Rightarrow> Put k v)"

definition txn_mutations :: "driver_txn \<Rightarrow> driver_mutation list" where
  "txn_mutations t = map (mutation_of (dt_table t)) (dt_touched t)"

section \<open>Committing\<close>

definition current_serial :: "meta_store \<Rightarrow> nat" where
  "current_serial s = table_serial (serial_table s) SERIAL_KEY"

fun append_journal :: "bytes list \<Rightarrow> nat \<Rightarrow> (nat, bytes) tbl \<Rightarrow> meta_error + (nat \<times> (nat, bytes) tbl)" where
  "append_journal [] serial table = Inr (serial, table)"
| "append_journal (entry # entries) serial table =
     rbind (add_u64 serial 1) (\<lambda>serial.
     append_journal entries serial (t_insert table serial entry))"

definition write_journal ::
    "meta_store \<Rightarrow> bytes list \<Rightarrow> driver_mutation list \<Rightarrow> driver_blob_reference list \<Rightarrow> meta_error + meta_store" where
  "write_journal s journal mutations blobs =
     (if journal = [] then Inr s
      else rbind (append_journal journal (current_serial s) (journal_table s)) (\<lambda>(serial, table).
        Inr (s\<lparr>journal_table := table,
          journal_mutations_table :=
            (if mutations \<noteq> [] then write_record (journal_mutations_table s) serial mutations
             else journal_mutations_table s),
          journal_blobs_table :=
            (if blobs \<noteq> [] then write_record (journal_blobs_table s) serial blobs
             else journal_blobs_table s),
          serial_table := t_insert (serial_table s) SERIAL_KEY serial\<rparr>)))"

definition generation_default :: policy_input_generation_row where
  "generation_default = \<lparr>pg_repository = 0, pg_catalog = 0, pg_policy = 0\<rparr>"

definition publish_catalog :: "meta_store \<Rightarrow> (string \<times> nat) option \<Rightarrow> meta_error + meta_store" where
  "publish_catalog s catalog_generation =
     (case catalog_generation of
        None \<Rightarrow> Inr s
      | Some (repository, catalog) \<Rightarrow>
          rbind (read_record (policy_input_generation_table s) repository) (\<lambda>found.
          let generation = (unwrap_or generation_default found)
                \<lparr>pg_repository := current_serial s, pg_catalog := catalog\<rparr> in
          Inr (s\<lparr>policy_input_generation_table :=
            write_record (policy_input_generation_table s) repository generation\<rparr>)))"

type_synonym ('t, 'e) txn_body = "driver_txn \<Rightarrow> 'e + (('t \<times> bytes list) \<times> driver_txn)"

definition open_txn :: "meta_store \<Rightarrow> driver_txn" where
  "open_txn s = \<lparr>dt_table = driver_kv s, dt_touched = [], dt_blobs = []\<rparr>"

definition commit_driver_txn_at ::
    "(meta_error \<Rightarrow> 'e) \<Rightarrow> nat option \<Rightarrow> (string \<times> nat) option \<Rightarrow> (meta_store \<Rightarrow> 'e + meta_store)
      \<Rightarrow> ('t, 'e) txn_body \<Rightarrow> meta_store \<Rightarrow> 'e + ('t \<times> meta_store)" where
  "commit_driver_txn_at conv expected_serial catalog_generation finish body s =
     (if is_some_and expected_serial (\<lambda>expected. current_serial s \<noteq> expected)
      then Inl (conv (ReplicaSerialConflict (the expected_serial) (current_serial s)))
      else
        rbind (body (open_txn s)) (\<lambda>((result, journal), driver).
        let mutations = (if journal = [] then [] else txn_mutations driver);
            blobs = (if journal = [] then [] else dt_blobs driver);
            s = s\<lparr>driver_kv := dt_table driver\<rparr> in
        rbind (map_err conv (write_journal s journal mutations blobs)) (\<lambda>s.
        rbind (map_err conv (publish_catalog s catalog_generation)) (\<lambda>s.
        rbind (finish s) (\<lambda>s. Inr (result, s))))))"

definition commit_driver_txn ::
    "(meta_error \<Rightarrow> 'e) \<Rightarrow> ('t, 'e) txn_body \<Rightarrow> meta_store \<Rightarrow> 'e + ('t \<times> meta_store)" where
  "commit_driver_txn conv body s = commit_driver_txn_at conv None None Inr body s"

definition commit_driver_txn_with_catalog_generation ::
    "(meta_error \<Rightarrow> 'e) \<Rightarrow> string \<Rightarrow> nat \<Rightarrow> ('t, 'e) txn_body \<Rightarrow> meta_store \<Rightarrow> 'e + ('t \<times> meta_store)" where
  "commit_driver_txn_with_catalog_generation conv repository catalog_generation body s =
     commit_driver_txn_at conv None (Some (repository, catalog_generation)) Inr body s"

definition commit_replica_txn ::
    "(meta_error \<Rightarrow> 'e) \<Rightarrow> nat \<Rightarrow> ('t, 'e) txn_body \<Rightarrow> meta_store \<Rightarrow> 'e + ('t \<times> meta_store)" where
  "commit_replica_txn conv expected_serial body s =
     commit_driver_txn_at conv (Some expected_serial) None Inr body s"

text \<open>\<open>commit_driver_txn_with_quota\<close> of \<open>quota.rs\<close>; \<open>qconv\<close> is \<open>E: From<QuotaError>\<close>.\<close>

definition commit_driver_txn_with_quota ::
    "(meta_error \<Rightarrow> 'e) \<Rightarrow> (quota_error \<Rightarrow> 'e) \<Rightarrow> uuid \<Rightarrow> ('t, 'e) txn_body \<Rightarrow> meta_store
      \<Rightarrow> 'e + ('t \<times> meta_store)" where
  "commit_driver_txn_with_quota conv qconv uid body s =
     commit_driver_txn_at conv None None
       (\<lambda>s. rbind (map_err qconv (commit_reservation s uid)) (\<lambda>(committed, s).
          if committed then Inr s else Inl (qconv (ReservationUnavailable uid)))) body s"

section \<open>Single rows, batches and scans\<close>

definition put_driver_value :: "meta_store \<Rightarrow> string \<Rightarrow> bytes \<Rightarrow> meta_store" where
  "put_driver_value s k v = s\<lparr>driver_kv := t_insert (driver_kv s) k v\<rparr>"

definition get_driver_value :: "meta_store \<Rightarrow> string \<Rightarrow> bytes option" where
  "get_driver_value s k = t_get (driver_kv s) k"

definition delete_driver_value :: "meta_store \<Rightarrow> string \<Rightarrow> bool \<times> meta_store" where
  "delete_driver_value s k =
     (t_get (driver_kv s) k \<noteq> None, s\<lparr>driver_kv := t_remove (driver_kv s) k\<rparr>)"

definition driver_prefix_keys_limited :: "meta_store \<Rightarrow> string \<Rightarrow> nat \<Rightarrow> string list" where
  "driver_prefix_keys_limited s p limit = take limit (map fst (prefix_scan (driver_kv s) p))"

definition driver_prefix_keys :: "meta_store \<Rightarrow> string \<Rightarrow> string list" where
  "driver_prefix_keys s p = driver_prefix_keys_limited s p u64_max"

definition visit_driver_prefix :: "meta_store \<Rightarrow> string \<Rightarrow> (string \<Rightarrow> bytes \<Rightarrow> 'a \<Rightarrow> 'a) \<Rightarrow> 'a \<Rightarrow> 'a" where
  "visit_driver_prefix s p visit a =
     fold (\<lambda>e. visit (fst e) (snd e)) (prefix_scan (driver_kv s) p) a"

record driver_batch =
  db_puts :: "(string \<times> bytes) list"
  db_deletes :: "string list"

definition driver_batch_new :: driver_batch where
  "driver_batch_new = \<lparr>db_puts = [], db_deletes = []\<rparr>"

definition driver_batch_put :: "driver_batch \<Rightarrow> string \<Rightarrow> bytes \<Rightarrow> driver_batch" where
  "driver_batch_put b k v = b\<lparr>db_puts := db_puts b @ [(k, v)]\<rparr>"

definition driver_batch_delete :: "driver_batch \<Rightarrow> string \<Rightarrow> driver_batch" where
  "driver_batch_delete b k = b\<lparr>db_deletes := db_deletes b @ [k]\<rparr>"

definition commit_driver_batch :: "meta_store \<Rightarrow> driver_batch \<Rightarrow> meta_store" where
  "commit_driver_batch s b =
     s\<lparr>driver_kv := fold (\<lambda>k t. t_remove t k) (db_deletes b)
        (fold (\<lambda>(k, v) t. t_insert t k v) (db_puts b) (driver_kv s))\<rparr>"

section \<open>The journal\<close>

record journal_snapshot_rec =
  js_current_serial :: nat
  js_records :: "journal_record list"

definition journal_row :: "meta_store \<Rightarrow> nat \<times> bytes \<Rightarrow> meta_error + journal_record" where
  "journal_row s entry =
     rbind (read_record (journal_mutations_table s) (fst entry)) (\<lambda>mutations.
     rbind (read_record (journal_blobs_table s) (fst entry)) (\<lambda>blobs.
     Inr \<lparr>jr_serial = fst entry, jr_payload = snd entry, jr_mutations = unwrap_or [] mutations,
       jr_blobs = unwrap_or [] blobs\<rparr>))"

fun collect_results :: "('e + 'a) list \<Rightarrow> 'e + 'a list" where
  "collect_results [] = Inr []"
| "collect_results (r # rs) = rbind r (\<lambda>x. rbind (collect_results rs) (\<lambda>xs. Inr (x # xs)))"

definition journal_snapshot :: "meta_store \<Rightarrow> nat \<Rightarrow> nat \<Rightarrow> meta_error + journal_snapshot_rec" where
  "journal_snapshot s after limit =
     rbind (collect_results (map (journal_row s)
       (take limit (filter (\<lambda>e. after < fst e) (journal_table s))))) (\<lambda>records.
     Inr \<lparr>js_current_serial = current_serial s, js_records = records\<rparr>)"

definition journal_page_after :: "meta_store \<Rightarrow> nat \<Rightarrow> nat \<Rightarrow> meta_error + (nat \<times> journal_record list)" where
  "journal_page_after s serial limit =
     rbind (journal_snapshot s serial limit) (\<lambda>snapshot.
     Inr (js_current_serial snapshot, js_records snapshot))"

definition journal_after :: "meta_store \<Rightarrow> nat \<Rightarrow> nat \<Rightarrow> meta_error + journal_record list" where
  "journal_after s serial limit = rbind (journal_page_after s serial limit) (\<lambda>page. Inr (snd page))"

definition next_serial :: "meta_store \<Rightarrow> meta_error + (nat \<times> meta_store)" where
  "next_serial s = rbind (add_u64 (current_serial s) 1) (\<lambda>n.
     Inr (n, s\<lparr>serial_table := t_insert (serial_table s) SERIAL_KEY n\<rparr>))"

end
