(* ===== verification/Journal.thy ===== *)
theory Journal
  imports Driver
begin

text \<open>
  The journal of the driver table: serials are consecutive, pages are contiguous slices, and
  replaying the recorded mutations rebuilds the driver rows that replicas copy.
\<close>

section \<open>What a transaction body may do\<close>

text \<open>
  \<open>txn_run t L t'\<close>: the methods of \<open>DriverTxn\<close> called on \<open>t\<close> in some order give \<open>t'\<close>, and \<open>L\<close> holds
  the keys written with \<open>put_local\<close>, which are not recorded for replicas.
\<close>

inductive txn_run :: "driver_txn \<Rightarrow> string set \<Rightarrow> driver_txn \<Rightarrow> bool" for t where
  run_start: "txn_run t {} t"
| run_put: "txn_run t L t' \<Longrightarrow> txn_run t L (snd (txn_upsert t' k v))"
| run_put_local: "txn_run t L t' \<Longrightarrow> txn_run t (insert k L) (txn_put_local t' k v)"
| run_remove: "txn_run t L t' \<Longrightarrow> txn_run t L (snd (txn_remove t' k))"
| run_reference_blob: "txn_run t L t' \<Longrightarrow> txn_run t L (txn_reference_blob t' sha256 sz)"

definition txn_ok :: "driver_txn \<Rightarrow> bool" where
  "txn_ok t \<longleftrightarrow> t_wf (dt_table t) \<and> sorted_wrt (<) (dt_touched t) \<and> sorted_wrt (<) (dt_blobs t)"

lemma txn_run_ok: "txn_run t L t' \<Longrightarrow> txn_ok t \<Longrightarrow> txn_ok t'"
  by (induction rule: txn_run.induct)
    (auto simp: txn_ok_def txn_upsert_def txn_put_local_def txn_remove_def txn_reference_blob_def Let_def
      sorted_bset_insert)

lemma txn_run_untouched:
  "txn_run t L t' \<Longrightarrow> k \<notin> set (dt_touched t') \<Longrightarrow> k \<notin> L \<Longrightarrow> t_get (dt_table t') k = t_get (dt_table t) k"
  by (induction rule: txn_run.induct)
    (auto simp: txn_upsert_def txn_put_local_def txn_remove_def txn_reference_blob_def Let_def split: if_splits)

text \<open>Rows after single writes and after a transaction without journal entries.\<close>

lemma get_put_driver [simp]: "get_driver_value (put_driver_value s k v) k' = (if k' = k then Some v else get_driver_value s k')"
  by (simp add: get_driver_value_def put_driver_value_def)

lemma get_delete_driver [simp]:
  "get_driver_value (snd (delete_driver_value s k)) k' = (if k' = k then None else get_driver_value s k')"
  by (simp add: get_driver_value_def delete_driver_value_def)

lemma commit_plain:
  assumes "body (open_txn s) = Inr ((result, []), txn)"
  shows "commit_driver_txn id body s = Inr (result, s\<lparr>driver_kv := dt_table txn\<rparr>)"
  using assms by (simp add: commit_driver_txn_def commit_driver_txn_at_def write_journal_def publish_catalog_def)

lemma txn_remove_table: "dt_table (snd (txn_remove txn k)) = t_remove (dt_table txn) k"
  by (simp add: txn_remove_def Let_def)

section \<open>Replaying mutations\<close>

fun apply_mutation :: "driver_mutation \<Rightarrow> (string, bytes) tbl \<Rightarrow> (string, bytes) tbl" where
  "apply_mutation (Put k v) t = t_insert t k v"
| "apply_mutation (Delete_key k) t = t_remove t k"

definition replay :: "driver_mutation list \<Rightarrow> (string, bytes) tbl \<Rightarrow> (string, bytes) tbl" where
  "replay mutations t = fold apply_mutation mutations t"

lemma replay_wf: "t_wf t \<Longrightarrow> t_wf (replay mutations t)"
  unfolding replay_def
proof (induction mutations arbitrary: t)
  case (Cons m ms)
  then show ?case by (cases m) auto
qed simp

lemma apply_mutation_of: "t_get (apply_mutation (mutation_of table k) t) k' =
    (if k' = k then t_get table k else t_get t k')"
  by (cases "t_get table k") (auto simp: mutation_of_def)

lemma replay_mutations_of: "t_get (replay (map (mutation_of table) ks) t) k =
    (if k \<in> set ks then t_get table k else t_get t k)"
  by (induction ks arbitrary: t) (auto simp: replay_def apply_mutation_of)

lemma replay_transaction:
  assumes "txn_run t L t'" "k \<notin> L"
  shows "t_get (replay (txn_mutations t') (dt_table t)) k = t_get (dt_table t') k"
  using txn_run_untouched [OF assms(1) _ assms(2)] by (simp add: txn_mutations_def replay_mutations_of)

section \<open>The journal invariant\<close>

definition journal_inv :: "meta_store \<Rightarrow> bool" where
  "journal_inv s \<longleftrightarrow> t_wf (driver_kv s)
     \<and> map fst (journal_table s) = [1..<Suc (current_serial s)] \<and> current_serial s \<le> u64_max
     \<and> t_wf (journal_mutations_table s) \<and> rows_ok (journal_mutations_table s)
     \<and> t_wf (journal_blobs_table s) \<and> rows_ok (journal_blobs_table s)
     \<and> fst ` set (journal_mutations_table s) \<subseteq> {..current_serial s}
     \<and> fst ` set (journal_blobs_table s) \<subseteq> {..current_serial s}"

definition row_mutations :: "meta_store \<Rightarrow> nat \<Rightarrow> driver_mutation list" where
  "row_mutations s n = row_or (journal_mutations_table s) n []"

definition record_of :: "meta_store \<Rightarrow> nat \<times> bytes \<Rightarrow> journal_record" where
  "record_of s e = \<lparr>jr_serial = fst e, jr_payload = snd e, jr_mutations = row_mutations s (fst e),
     jr_blobs = row_or (journal_blobs_table s) (fst e) []\<rparr>"

lemma journal_row_ok: "journal_inv s \<Longrightarrow> journal_row s e = Inr (record_of s e)"
  using read_record_ok [of "journal_mutations_table s" "fst e"] read_record_ok [of "journal_blobs_table s" "fst e"]
  by (auto simp: journal_inv_def journal_row_def record_of_def row_mutations_def row_or_def
      read_record_def split: option.splits row.splits)

lemma collect_results_Inr: "collect_results (map (\<lambda>x. Inr (f x)) xs) = Inr (map f xs)"
  by (induction xs) auto

lemma journal_snapshot_ok:
  assumes "journal_inv s"
  shows "journal_snapshot s after limit = Inr \<lparr>js_current_serial = current_serial s,
    js_records = map (record_of s) (take limit (filter (\<lambda>e. after < fst e) (journal_table s)))\<rparr>"
proof -
  have "journal_row s = (\<lambda>e. Inr (record_of s e))" using journal_row_ok [OF assms] by blast
  then show ?thesis by (simp add: journal_snapshot_def collect_results_Inr)
qed

lemma filter_after:
  assumes "map fst t = [1..<Suc n]"
  shows "filter (\<lambda>e. after < fst e) t = drop after t"
proof -
  have len: "length t = n" using arg_cong [OF assms, of length] by simp
  have nth: "fst (t ! i) = Suc i" if "i < length t" for i
    using that arg_cong [OF assms, of "\<lambda>xs. xs ! i"] len by (simp add: nth_append split: if_splits)
  have "\<not> after < fst e" if "e \<in> set (take after t)" for e
    using that nth by (auto simp: in_set_conv_nth)
  moreover have "after < fst e" if "e \<in> set (drop after t)" for e
    using that nth by (auto simp: in_set_conv_nth)
  ultimately have "filter (\<lambda>e. after < fst e) (take after t @ drop after t) = drop after t"
    unfolding filter_append by (simp add: filter_id_conv)
  then show ?thesis by simp
qed

lemma append_journal_Inr:
  assumes "append_journal entries n t = Inr (m, t')" "map fst t = [1..<Suc n]" "n \<le> u64_max"
  shows "m = n + length entries \<and> m \<le> u64_max \<and> map fst t' = [1..<Suc m] \<and> (\<exists>new. t' = t @ new)"
  using assms
proof (induction entries arbitrary: n t)
  case (Cons entry entries)
  have "\<forall>e \<in> set t. fst e < Suc n"
    using Cons.prems(2) by (metis atLeastLessThan_iff image_eqI set_map set_upt)
  then have t: "t_insert t (Suc n) entry = t @ [(Suc n, entry)]" by (rule t_insert_last)
  have step: "append_journal entries (Suc n) (t @ [(Suc n, entry)]) = Inr (m, t')" "Suc n \<le> u64_max"
    using Cons.prems(1) by (auto simp: rbind_eq_Inr t)
  from Cons.IH [OF step(1) _ step(2)] Cons.prems(2) show ?case by auto
qed auto


definition all_mutations :: "meta_store \<Rightarrow> driver_mutation list" where
  "all_mutations s = concat (map (row_mutations s) [1..<Suc (current_serial s)])"

definition same_driver :: "meta_store \<Rightarrow> meta_store \<Rightarrow> bool" where
  "same_driver s s' \<longleftrightarrow> driver_kv s' = driver_kv s \<and> journal_table s' = journal_table s
     \<and> journal_mutations_table s' = journal_mutations_table s
     \<and> journal_blobs_table s' = journal_blobs_table s \<and> current_serial s' = current_serial s"

lemma same_driver_refl: "same_driver s s"
  by (simp add: same_driver_def)

lemma same_driver_inv: "same_driver s s' \<Longrightarrow> journal_inv s' = journal_inv s \<and> all_mutations s' = all_mutations s"
  by (simp add: same_driver_def journal_inv_def all_mutations_def row_mutations_def cong: map_cong)

lemma publish_catalog_frame: "publish_catalog s c = Inr s' \<Longrightarrow> same_driver s s'"
  by (auto simp: publish_catalog_def rbind_eq_Inr Let_def same_driver_def current_serial_def split: option.splits)

lemma current_serial_insert [simp]:
  "current_serial (s\<lparr>journal_table := a, journal_mutations_table := b, journal_blobs_table := c,
     serial_table := t_insert (serial_table s) SERIAL_KEY n\<rparr>) = n"
  by (simp add: current_serial_def table_serial_def)

lemma absent_above:
  assumes "fst ` set t \<subseteq> {..n}" "n < (k :: nat)"
  shows "t_get t k = None"
  using assms by (auto simp: t_get_None)

lemma write_record_keys: "fst ` set (write_record t k r) = insert k (fst ` set t)"
  using t_insert_keys [of t k "Row r"] by (simp add: write_record_def)

text \<open>The effect of journaling a transaction: consecutive serials, the row changes under the last.\<close>

lemma write_journal_Inr:
  assumes inv: "journal_inv s" and ok: "write_journal s journal mutations blobs = Inr s'" and "journal \<noteq> []"
  shows "journal_inv s' \<and> driver_kv s' = driver_kv s
    \<and> current_serial s' = current_serial s + length journal
    \<and> (\<exists>new. journal_table s' = journal_table s @ new)
    \<and> (\<forall>n. row_mutations s' n = (if n = current_serial s' then mutations else row_mutations s n))
    \<and> (\<forall>n > current_serial s. row_mutations s n = [])"
proof -
  from ok assms(3) obtain m table where
    app: "append_journal journal (current_serial s) (journal_table s) = Inr (m, table)"
    and s': "s' = s\<lparr>journal_table := table,
          journal_mutations_table := (if mutations \<noteq> [] then write_record (journal_mutations_table s) m mutations
             else journal_mutations_table s),
          journal_blobs_table := (if blobs \<noteq> [] then write_record (journal_blobs_table s) m blobs
             else journal_blobs_table s),
          serial_table := t_insert (serial_table s) SERIAL_KEY m\<rparr>"
    by (auto simp: write_journal_def rbind_eq_Inr)
  have keys: "map fst (journal_table s) = [1..<Suc (current_serial s)]" "current_serial s \<le> u64_max"
    and sub: "fst ` set (journal_mutations_table s) \<subseteq> {..current_serial s}"
      "fst ` set (journal_blobs_table s) \<subseteq> {..current_serial s}"
    using inv by (auto simp: journal_inv_def)
  from append_journal_Inr [OF app keys] assms(3)
  have m: "m = current_serial s + length journal" "m \<le> u64_max" "map fst table = [1..<Suc m]"
      "\<exists>new. table = journal_table s @ new" "current_serial s < m" by auto
  have serial: "current_serial s' = m" by (simp add: s' del: not_None_eq)
  have none: "row_mutations s n = []" if "current_serial s < n" for n
    using absent_above [OF sub(1) that] by (simp add: row_mutations_def row_or_def)
  have "row_mutations s' n = (if n = m then mutations else row_mutations s n)" for n
    using none [of m] m(5) by (auto simp: row_mutations_def s')
  moreover have "journal_inv s'"
    using inv m sub unfolding journal_inv_def serial by (auto simp: s' write_record_keys simp del: upt_Suc)
  ultimately show ?thesis using m none serial by (simp add: s')
qed

lemma write_journal_mutations:
  assumes inv: "journal_inv s" and ok: "write_journal s journal mutations blobs = Inr s'" and "journal \<noteq> []"
  shows "all_mutations s' = all_mutations s @ mutations"
proof -
  note eff = write_journal_Inr [OF assms]
  define n where "n = current_serial s"
  define d where "d = length journal - 1"
  have m: "current_serial s' = Suc (n + d)" using eff assms(3) by (simp add: n_def d_def)
  have split: "[1..<Suc (Suc (n + d))] = [1..<Suc n] @ [Suc n..<Suc (n + d)] @ [Suc (n + d)]"
    using upt_add_eq_append [of 1 "Suc n" d] by simp
  have old: "map (row_mutations s') [1..<Suc n] = map (row_mutations s) [1..<Suc n]"
    using eff m by (auto simp: n_def)
  have gap: "concat (map (row_mutations s') [Suc n..<Suc (n + d)]) = []"
    using eff m by (auto simp: n_def)
  have last: "row_mutations s' (Suc (n + d)) = mutations" using eff m by simp
  show ?thesis
    unfolding all_mutations_def m split n_def [symmetric] map_append concat_append old gap by (simp add: last)
qed


section \<open>Runs of the store\<close>

text \<open>
  \<open>driver_run K s\<close>: the database \<open>s\<close> arises from a new one by committed driver transactions and the
  unjournaled writes of cache rows, in any order; \<open>K\<close> collects the keys written outside the journal,
  by \<open>put_local\<close>, by a transaction that journals nothing or by a direct write.  A transaction's
  \<open>finish\<close> step may change other tables, as the quota commit does.
\<close>

definition frame_driver :: "(meta_store \<Rightarrow> 'e + meta_store) \<Rightarrow> bool" where
  "frame_driver finish \<longleftrightarrow> (\<forall>s s'. finish s = Inr s' \<longrightarrow> same_driver s s')"

text \<open>
  What a committed transaction leaves behind, whatever the types of its result and its error: the
  table the body built, journaled, and changes to other tables.
\<close>

definition txn_effect :: "meta_store \<Rightarrow> driver_txn \<Rightarrow> bytes list \<Rightarrow> meta_store \<Rightarrow> bool" where
  "txn_effect s t journal s' \<longleftrightarrow> (\<exists>s1. write_journal (s\<lparr>driver_kv := dt_table t\<rparr>) journal
      (if journal = [] then [] else txn_mutations t) (if journal = [] then [] else dt_blobs t) = Inr s1
    \<and> same_driver s1 s')"

inductive driver_run :: "string set \<Rightarrow> meta_store \<Rightarrow> bool" where
  run_open: "driver_run {} open_new"
| run_txn: "driver_run K s \<Longrightarrow> txn_run (open_txn s) L t \<Longrightarrow> txn_effect s t journal s' \<Longrightarrow>
    driver_run (K \<union> L \<union> (if journal = [] then set (dt_touched t) else {})) s'"
| run_put_value: "driver_run K s \<Longrightarrow> driver_run (insert k K) (put_driver_value s k v)"
| run_delete_value: "driver_run K s \<Longrightarrow> driver_run (insert k K) (snd (delete_driver_value s k))"
| run_batch: "driver_run K s \<Longrightarrow>
    driver_run (K \<union> fst ` set (db_puts b) \<union> set (db_deletes b)) (commit_driver_batch s b)"
| run_other: "driver_run K s \<Longrightarrow> same_driver s s' \<Longrightarrow> driver_run K s'"

definition replayed :: "meta_store \<Rightarrow> (string, bytes) tbl" where
  "replayed s = replay (all_mutations s) []"

definition replica_agrees :: "string set \<Rightarrow> meta_store \<Rightarrow> bool" where
  "replica_agrees K s \<longleftrightarrow> (\<forall>k. k \<notin> K \<longrightarrow> t_get (replayed s) k = get_driver_value s k)"

lemma commit_driver_txn_at_Inr:
  assumes "commit_driver_txn_at conv expected catalog finish body s = Inr (result, s')"
    and "body (open_txn s) = Inr ((r, journal), t)" "frame_driver finish"
  shows "txn_effect s t journal s' \<and> r = result"
proof -
  from assms obtain s1 s2 where s1: "write_journal (s\<lparr>driver_kv := dt_table t\<rparr>) journal
      (if journal = [] then [] else txn_mutations t) (if journal = [] then [] else dt_blobs t) = Inr s1"
    and s2: "publish_catalog s1 catalog = Inr s2" and s3: "finish s2 = Inr s'" "r = result"
    by (auto simp: commit_driver_txn_at_def rbind_eq_Inr Let_def split: if_splits)
  have "same_driver s1 s'"
    using publish_catalog_frame [OF s2] assms(3) s3(1) unfolding frame_driver_def same_driver_def by metis
  with s1 s3 show ?thesis unfolding txn_effect_def by blast
qed

lemma run_commit:
  assumes "driver_run K s" "body (open_txn s) = Inr ((result, journal), t)" "txn_run (open_txn s) L t"
    and "frame_driver finish" "commit_driver_txn_at conv expected catalog finish body s = Inr (result, s')"
  shows "driver_run (K \<union> L \<union> (if journal = [] then set (dt_touched t) else {})) s'"
  using run_txn [OF assms(1,3)] commit_driver_txn_at_Inr [OF assms(5,2,4)] by blast

lemma journal_inv_kv: "journal_inv s \<Longrightarrow> t_wf t \<Longrightarrow> journal_inv (s\<lparr>driver_kv := t\<rparr>)"
  by (simp add: journal_inv_def current_serial_def)

lemma all_mutations_kv [simp]: "all_mutations (s\<lparr>driver_kv := t\<rparr>) = all_mutations s"
  by (simp add: all_mutations_def row_mutations_def current_serial_def cong: map_cong)

lemma replay_agree_step:
  assumes "\<And>k. k \<notin> K \<Longrightarrow> t_get r k = t_get t k" "k \<notin> K"
  shows "t_get (replay ms r) k = t_get (replay ms t) k"
proof -
  have "t_get r k = t_get t k" using assms by blast
  then show ?thesis
  proof (induction ms arbitrary: r t)
    case (Cons m ms)
    then have "t_get (apply_mutation m r) k = t_get (apply_mutation m t) k" by (cases m) auto
    from Cons.IH [OF this] show ?case by (simp add: replay_def)
  qed (simp add: replay_def)
qed

lemma commit_agrees:
  assumes inv: "journal_inv s" and agree: "replica_agrees K s"
    and run: "txn_run (open_txn s) L t" and eff: "txn_effect s t journal s'"
  shows "journal_inv s' \<and> replica_agrees (K \<union> L \<union> (if journal = [] then set (dt_touched t) else {})) s'"
proof -
  from eff obtain s1 where
    w: "write_journal (s\<lparr>driver_kv := dt_table t\<rparr>) journal
      (if journal = [] then [] else txn_mutations t) (if journal = [] then [] else dt_blobs t) = Inr s1"
    and same: "same_driver s1 s'" unfolding txn_effect_def by blast
  have "txn_ok (open_txn s)" using inv by (simp add: txn_ok_def open_txn_def journal_inv_def)
  then have wf: "t_wf (dt_table t)" using txn_run_ok [OF run] by (simp add: txn_ok_def)
  have kv: "dt_table (open_txn s) = driver_kv s" by (simp add: open_txn_def)
  note inv1 = journal_inv_kv [OF inv wf]
  show ?thesis
  proof (cases "journal = []")
    case True
    with w have s1: "s1 = s\<lparr>driver_kv := dt_table t\<rparr>" by (simp add: write_journal_def)
    have "t_get (dt_table t) k = t_get (driver_kv s) k" if "k \<notin> L" "k \<notin> set (dt_touched t)" for k
      using txn_run_untouched [OF run that(2,1)] kv by simp
    with True s1 same inv1 agree same_driver_inv [OF same] show ?thesis
      by (auto simp: replica_agrees_def replayed_def get_driver_value_def same_driver_def)
  next
    case False
    note eff = write_journal_Inr [OF inv1 w False] and muts = write_journal_mutations [OF inv1 w False]
    have "t_get (replayed s') k = t_get (dt_table t) k" if "k \<notin> K" "k \<notin> L" for k
    proof -
      have "replayed s' = replay (txn_mutations t) (replayed s)"
        using muts same_driver_inv [OF same] False by (simp add: replayed_def replay_def)
      then have "t_get (replayed s') k = t_get (replay (txn_mutations t) (driver_kv s)) k"
        using replay_agree_step [of K "replayed s" "driver_kv s" k] agree that(1)
        by (simp add: replica_agrees_def get_driver_value_def)
      also have "\<dots> = t_get (dt_table t) k" using replay_transaction [OF run that(2)] kv by simp
      finally show ?thesis .
    qed
    with eff same same_driver_inv [OF same] False show ?thesis
      by (auto simp: replica_agrees_def get_driver_value_def same_driver_def)
  qed
qed


lemma fold_remove_get: "t_get (fold (\<lambda>k t. t_remove t k) ks t) k = (if k \<in> set ks then None else t_get t k)"
  by (induction ks arbitrary: t) auto

lemma fold_remove_wf: "t_wf t \<Longrightarrow> t_wf (fold (\<lambda>k t. t_remove t k) ks t)"
  by (induction ks arbitrary: t) auto

lemma fold_insert_other: "k \<notin> fst ` set ps \<Longrightarrow> t_get (fold (\<lambda>(k, v) t. t_insert t k v) ps t) k = t_get t k"
  by (induction ps arbitrary: t) auto

lemma fold_insert_wf: "t_wf t \<Longrightarrow> t_wf (fold (\<lambda>(k, v) t. t_insert t k v) ps t)"
  by (induction ps arbitrary: t) auto

lemma kv_write_agrees:
  assumes "journal_inv s" "replica_agrees K s" "t_wf t" "\<And>k. k \<notin> A \<Longrightarrow> t_get t k = t_get (driver_kv s) k"
  shows "journal_inv (s\<lparr>driver_kv := t\<rparr>) \<and> replica_agrees (K \<union> A) (s\<lparr>driver_kv := t\<rparr>)"
  using assms journal_inv_kv [OF assms(1,3)] by (auto simp: replica_agrees_def replayed_def get_driver_value_def)

lemma journal_inv_open_new: "journal_inv open_new" "replica_agrees {} open_new"
  by (simp_all add: journal_inv_def replica_agrees_def replayed_def replay_def all_mutations_def open_new_def
      current_serial_def table_serial_def get_driver_value_def)

lemma driver_run_agrees: "driver_run K s \<Longrightarrow> journal_inv s \<and> replica_agrees K s"
proof (induction rule: driver_run.induct)
  case (run_txn K s L t journal s')
  with commit_agrees [OF _ _ run_txn.hyps(2,3), of K] show ?case by blast
next
  case (run_put_value K s k v)
  then have "t_wf (driver_kv s)" by (simp add: journal_inv_def)
  with run_put_value kv_write_agrees [of s K "t_insert (driver_kv s) k v" "{k}"]
  show ?case by (simp add: put_driver_value_def)
next
  case (run_delete_value K s k)
  then have "t_wf (driver_kv s)" by (simp add: journal_inv_def)
  with run_delete_value kv_write_agrees [of s K "t_remove (driver_kv s) k" "{k}"]
  show ?case by (simp add: delete_driver_value_def)
next
  case (run_batch K s b)
  then have "t_wf (driver_kv s)" by (simp add: journal_inv_def)
  with run_batch show ?case
    unfolding commit_driver_batch_def Un_assoc
    by (intro kv_write_agrees) (auto simp: fold_remove_get fold_insert_other fold_remove_wf fold_insert_wf)
next
  case (run_other K s s')
  with same_driver_inv [of s s'] show ?case
    by (auto simp: replica_agrees_def replayed_def get_driver_value_def same_driver_def)
qed (simp add: journal_inv_open_new)

lemma journal_page:
  assumes "journal_inv s"
  shows "journal_page_after s after limit
    = Inr (current_serial s, map (record_of s) (take limit (drop after (journal_table s))))"
proof -
  have "map fst (journal_table s) = [1..<Suc (current_serial s)]" using assms by (simp add: journal_inv_def)
  from filter_after [OF this] show ?thesis
    by (simp add: journal_page_after_def journal_snapshot_ok [OF assms])
qed

lemma record_serials:
  assumes "journal_inv s"
  shows "map jr_serial (map (record_of s) (take limit (drop after (journal_table s))))
    = [Suc after..<Suc (min (after + limit) (current_serial s))]"
proof -
  have "map jr_serial (map (record_of s) xs) = map fst xs" for xs by (simp add: record_of_def)
  then have "map jr_serial (map (record_of s) (take limit (drop after (journal_table s))))
      = take limit (drop after (map fst (journal_table s)))" by (simp add: take_map drop_map)
  also have "\<dots> = take limit (drop after [1..<Suc (current_serial s)])"
    using assms unfolding journal_inv_def by metis
  also have "\<dots> = [Suc after..<Suc (min (after + limit) (current_serial s))]"
    by (rule nth_equalityI) (auto simp del: upt_Suc)
  finally show ?thesis .
qed

section \<open>A sample run\<close>

text \<open>One transaction that writes two rows, one of them local, and records two journal entries.\<close>

definition sample_body :: "(unit, meta_error) txn_body" where
  "sample_body t = Inr (((), [''e1'', ''e2'']),
     txn_put_local (txn_put (txn_reference_blob t ''ab'' 3) ''a/1'' ''x'') ''l/1'' ''y'')"

definition journal_sample :: meta_store where
  "journal_sample = (case commit_driver_txn id sample_body open_new of Inr (_, s) \<Rightarrow> s | Inl _ \<Rightarrow> open_new)"

lemma sample_body_run: "txn_run t {''l/1''} (txn_put_local (txn_put (txn_reference_blob t ''ab'' 3) ''a/1'' ''x'') ''l/1'' ''y'')"
  unfolding txn_put_def
  by (intro run_put_local run_put run_reference_blob run_start)

lemma sample_body_commit: "commit_driver_txn_at id None None Inr sample_body open_new = Inr ((), journal_sample)"
proof -
  have "is_ok (commit_driver_txn id sample_body open_new)" by code_simp
  then show ?thesis by (auto simp: is_ok_iff journal_sample_def commit_driver_txn_def)
qed

lemma frame_Inr: "frame_driver Inr"
  by (simp add: frame_driver_def same_driver_refl)

lemma journal_sample_run: "driver_run {''l/1''} journal_sample"
proof -
  have b: "sample_body (open_txn open_new) = Inr (((), [''e1'', ''e2'']),
      txn_put_local (txn_put (txn_reference_blob (open_txn open_new) ''ab'' 3) ''a/1'' ''x'') ''l/1'' ''y'')"
    by (simp add: sample_body_def)
  from run_commit [OF run_open b sample_body_run frame_Inr sample_body_commit] show ?thesis by simp
qed

section \<open>Properties\<close>

text \<open>C7: reading the whole journal succeeds and replaying its row changes over an empty table
  rebuilds every driver row that was not written outside the journal, whatever transactions,
  deletions and unjournaled cache writes the store has seen.\<close>

theorem journal_replay_rebuilds:
  assumes "driver_run K s" "current_serial s \<le> limit"
  shows "\<exists>snap. journal_snapshot s 0 limit = Inr snap
    \<and> (\<forall>k. k \<notin> K \<longrightarrow>
         t_get (replay (concat (map jr_mutations (js_records snap))) []) k = get_driver_value s k)"
proof -
  from driver_run_agrees [OF assms(1)] have inv: "journal_inv s" and agree: "replica_agrees K s" by auto
  have keys: "map fst (journal_table s) = [1..<Suc (current_serial s)]" using inv by (simp add: journal_inv_def)
  have len: "length (journal_table s) \<le> limit"
    using arg_cong [OF keys, of length] assms(2) by simp
  have "concat (map jr_mutations (map (record_of s) (journal_table s))) = all_mutations s"
    unfolding all_mutations_def keys [symmetric] by (simp add: record_of_def comp_def)
  with agree len filter_after [OF keys, of 0] show ?thesis
    by (auto simp: journal_snapshot_ok [OF inv] replica_agrees_def replayed_def simp del: map_map)
qed

theorem journal_replay_rebuilds_witness:
  "\<exists>snap. journal_snapshot journal_sample 0 2 = Inr snap
    \<and> t_get (replay (concat (map jr_mutations (js_records snap))) []) ''a/1'' = Some ''x''"
proof -
  have "current_serial journal_sample \<le> 2" "get_driver_value journal_sample ''a/1'' = Some ''x''" by code_simp+
  with journal_replay_rebuilds [OF journal_sample_run, of 2] show ?thesis by fastforce
qed

text \<open>C8: a journal page holds exactly the serials after the cursor, consecutive and at most
  \<open>limit\<close> of them, together with the head serial; and a page followed by the page after its last
  serial is the larger page, so a follower neither misses nor repeats an entry.\<close>

theorem journal_pages_contiguous:
  assumes "driver_run K s"
  shows "\<exists>records rest. journal_page_after s after limit = Inr (current_serial s, records)
    \<and> map jr_serial records = [Suc after..<Suc (min (after + limit) (current_serial s))]
    \<and> journal_after s (after + length records) extra = Inr rest
    \<and> journal_after s after (length records + extra) = Inr (records @ rest)"
proof -
  have inv: "journal_inv s" using driver_run_agrees [OF assms] by blast
  let ?t = "journal_table s"
  have same: "take (length (take limit xs)) xs = take limit xs" for xs :: "(nat \<times> bytes) list"
    by (simp add: min_def)
  have "take (length (take limit (drop after ?t)) + extra) (drop after ?t)
      = take limit (drop after ?t) @ take extra (drop (after + length (take limit (drop after ?t))) ?t)"
    unfolding take_add same by (simp add: add.commute)
  then show ?thesis
    using record_serials [OF inv, of limit after]
    by (auto simp: journal_after_def journal_page [OF inv] simp flip: map_append)
qed

theorem journal_pages_contiguous_witness:
  "\<exists>records rest. journal_page_after journal_sample 0 1 = Inr (current_serial journal_sample, records)
    \<and> journal_after journal_sample (0 + length records) 5 = Inr rest
    \<and> journal_after journal_sample 0 (length records + 5) = Inr (records @ rest)"
  using journal_pages_contiguous [OF journal_sample_run, of 0 1 5] by blast

text \<open>A replica page commits only on the serial it was fetched for, and a page that recorded
  an entry cannot be applied a second time: the same expected serial is then refused with the
  conflict error, whatever the second body does.\<close>

theorem replica_page_once:
  assumes "driver_run K s" "body (open_txn s) = Inr ((result, journal), t)" "journal \<noteq> []"
    and "commit_replica_txn conv expected body s = Inr (result, s')"
  shows "current_serial s = expected \<and> current_serial s' = expected + length journal
    \<and> commit_replica_txn conv expected again s' = Inl (conv (ReplicaSerialConflict expected (current_serial s')))"
proof -
  have inv: "journal_inv s" using driver_run_agrees [OF assms(1)] by blast
  have exp: "current_serial s = expected"
    using assms(4) by (auto simp: commit_replica_txn_def commit_driver_txn_at_def split: if_splits)
  from commit_driver_txn_at_Inr [OF assms(4) [unfolded commit_replica_txn_def] assms(2) frame_Inr] obtain s1 where
    w: "write_journal (s\<lparr>driver_kv := dt_table t\<rparr>) journal
      (if journal = [] then [] else txn_mutations t) (if journal = [] then [] else dt_blobs t) = Inr s1"
    and same: "same_driver s1 s'" unfolding txn_effect_def by blast
  have "current_serial s1 = current_serial s + length journal"
    using w assms(3) inv append_journal_Inr [of journal "current_serial s" "journal_table s"]
    by (auto simp: write_journal_def rbind_eq_Inr current_serial_def table_serial_def journal_inv_def)
  with same exp assms(3) show ?thesis
    by (auto simp: same_driver_def commit_replica_txn_def commit_driver_txn_at_def)
qed

theorem replica_page_once_witness:
  "commit_replica_txn id 0 sample_body open_new = Inr ((), journal_sample)
   \<and> commit_replica_txn id 0 sample_body journal_sample = Inl (ReplicaSerialConflict 0 2)"
proof -
  have c: "commit_replica_txn id 0 sample_body open_new = Inr ((), journal_sample)"
    using sample_body_commit
    by (simp add: commit_replica_txn_def commit_driver_txn_at_def open_new_def current_serial_def table_serial_def)
  from replica_page_once [OF run_open _ _ c, of "[''e1'', ''e2'']" _ sample_body] c show ?thesis
    by (auto simp: sample_body_def numeral_2_eq_2)
qed

end
