(* ===== verification/Sequences.thy ===== *)
theory Sequences
  imports MetaStore
begin

text \<open>
  The identifiers the stores hand out: a prefix and the next value of a counter in sixteen hex
  digits.  Key order is then creation order, which the job, webhook and policy stores rely on to
  list rows by age without a second index.
\<close>

section \<open>Allocating identifiers\<close>

text \<open>The block that opens \<open>enqueue_webhook_delivery\<close>, \<open>start_job_run\<close> and \<open>record_policy_decision\<close>.\<close>

definition allocate :: "(string, nat) tbl \<Rightarrow> string \<Rightarrow> meta_error + (nat \<times> (string, nat) tbl)" where
  "allocate serials key =
     rbind (add_u64 (table_serial serials key) 1) (\<lambda>n. Inr (n, t_insert serials key n))"

definition webhook_id :: "nat \<Rightarrow> string" where "webhook_id n = ''wd_'' @ hex16 n"

definition job_id_of :: "nat \<Rightarrow> string" where "job_id_of n = ''jr_'' @ hex16 n"

definition decision_id :: "nat \<Rightarrow> string" where "decision_id n = ''pd_'' @ hex16 n"

lemma allocate_Inr [simp]: "allocate serials key = Inr (n, serials') \<longleftrightarrow>
    n = table_serial serials key + 1 \<and> n \<le> u64_max \<and> serials' = t_insert serials key n"
  by (auto simp: allocate_def rbind_eq_Inr)

lemma table_serial_insert [simp]:
  "table_serial (t_insert t k n) k' = (if k' = k then n else table_serial t k')"
  by (simp add: table_serial_def)

section \<open>The contract\<close>

text \<open>An identifier scheme is strictly increasing over the range of the counter.\<close>

locale id_sequence =
  fixes mk :: "nat \<Rightarrow> string"
  assumes mk_less: "m \<le> u64_max \<Longrightarrow> n \<le> u64_max \<Longrightarrow> mk m < mk n \<longleftrightarrow> m < n"
begin

lemma mk_inj: "m \<le> u64_max \<Longrightarrow> n \<le> u64_max \<Longrightarrow> mk m = mk n \<longleftrightarrow> m = n"
  by (metis mk_less less_irrefl nat_neq_iff)

end

text \<open>The rows of a table carry identifiers handed out so far.\<close>

definition ids_upto :: "(nat \<Rightarrow> string) \<Rightarrow> nat \<Rightarrow> (string, 'v) tbl \<Rightarrow> bool" where
  "ids_upto mk n t \<longleftrightarrow> n \<le> u64_max \<and> t_wf t \<and> (\<forall>k \<in> fst ` set t. \<exists>m. 1 \<le> m \<and> m \<le> n \<and> k = mk m)"

lemma ids_wf: "ids_upto mk n t \<Longrightarrow> t_wf t"
  unfolding ids_upto_def by blast

context id_sequence
begin

lemma ids_above: "ids_upto mk n t \<Longrightarrow> n < m \<Longrightarrow> m \<le> u64_max \<Longrightarrow> e \<in> set t \<Longrightarrow> fst e < mk m"
  by (auto simp: ids_upto_def mk_less image_iff Ball_def)

lemma ids_fresh: "ids_upto mk n t \<Longrightarrow> n < m \<Longrightarrow> m \<le> u64_max \<Longrightarrow> t_get t (mk m) = None"
  using ids_above by (fastforce simp: t_get_None)

lemma ids_insert_last:
  assumes "ids_upto mk n t" "n < m" "m \<le> u64_max"
  shows "t_insert t (mk m) v = t @ [(mk m, v)]"
proof -
  have "\<forall>e \<in> set t. fst e < mk m" using ids_above [OF assms] by blast
  then show ?thesis by (induction t) auto
qed

lemma ids_insert:
  assumes "ids_upto mk n t" "Suc n \<le> u64_max"
  shows "ids_upto mk (Suc n) (t_insert t (mk (Suc n)) v)"
proof -
  have sub: "\<exists>m. 1 \<le> m \<and> m \<le> Suc n \<and> k = mk m" if "k \<in> fst ` set (t_insert t (mk (Suc n)) v)" for k
  proof (cases "k = mk (Suc n)")
    case False
    with that t_insert_keys [of t "mk (Suc n)" v] have "k \<in> fst ` set t" by simp
    with assms(1) obtain m where "1 \<le> m" "m \<le> n" "k = mk m" unfolding ids_upto_def by blast
    then show ?thesis by (intro exI [of _ m]) simp
  qed auto
  show ?thesis
    unfolding ids_upto_def
  proof (intro conjI ballI)
    show "Suc n \<le> u64_max" by (rule assms)
    show "t_wf (t_insert t (mk (Suc n)) v)" by (rule t_wf_insert) (rule ids_wf [OF assms(1)])
  qed (rule sub)
qed

lemma ids_same_keys: "ids_upto mk n t \<Longrightarrow> t_wf t' \<Longrightarrow> fst ` set t' \<subseteq> fst ` set t \<Longrightarrow> ids_upto mk n t'"
  unfolding ids_upto_def by blast

lemma ids_empty: "ids_upto mk 0 []"
  by (simp add: ids_upto_def)

lemma ids_update:
  assumes "ids_upto mk n t" "t_get t k = Some v"
  shows "ids_upto mk n (t_insert t k v')"
proof (rule ids_same_keys [OF assms(1)])
  show "t_wf (t_insert t k v')" by (rule t_wf_insert) (rule ids_wf [OF assms(1)])
  show "fst ` set (t_insert t k v') \<subseteq> fst ` set t"
    using t_insert_keys [of t k v'] imageI [OF t_get_mem [OF assms(2)], of fst]
    unfolding set_map by (simp add: insert_absorb)
qed

end

lemma prefix_less: "(p @ a :: string) < p @ b \<longleftrightarrow> a < b"
  by (induction p) auto

interpretation webhook_ids: id_sequence webhook_id
  by unfold_locales (simp add: webhook_id_def hex16_less_iff)

interpretation job_ids: id_sequence job_id_of
  by unfold_locales (simp add: job_id_of_def hex16_less_iff)

interpretation decision_ids: id_sequence decision_id
  by unfold_locales (simp add: decision_id_def hex16_less_iff)

lemma t_update_keys: "t_wf t \<Longrightarrow> t_get t k = Some v \<Longrightarrow> map fst (t_insert t k v') = map fst t"
proof (induction t)
  case (Cons p t)
  obtain k' w where p: "p = (k', w)" by (cases p)
  show ?case
  proof (cases "k = k'")
    case False
    with Cons.prems p have "t_get t k = Some v" "t_wf t" by (auto simp: t_get_def t_wf_def)
    moreover from this Cons.prems p have "k' < k" using t_get_mem [of t k v] by (force simp: t_wf_def)
    ultimately show ?thesis using Cons.IH p by auto
  qed (simp add: p)
qed simp

end
