(* ===== verification/Jobs.thy ===== *)
theory Jobs
  imports Sequences
begin

text \<open>Background job history, \<open>crates/peryx-storage/src/meta/job.rs\<close>.\<close>

section \<open>Operations\<close>

record new_job_run =
  nj_kind :: job_kind
  nj_scope :: string
  nj_started_at_unix :: int

record job_outcome =
  jo_state :: job_state
  jo_finished_at_unix :: int
  jo_items_processed :: nat
  jo_items_changed :: nat
  jo_error :: "string option"

definition start_job_run :: "meta_store \<Rightarrow> new_job_run \<Rightarrow> meta_error + (string \<times> meta_store)" where
  "start_job_run s run =
     rbind (allocate (serial_table s) JOB_SERIAL_KEY) (\<lambda>(n, serials).
     let record = \<lparr>job_id = job_id_of n, job_kind_of = nj_kind run, job_scope = nj_scope run,
           job_state_of = Running, job_started_at_unix = nj_started_at_unix run,
           job_finished_at_unix = None, job_items_processed = 0, job_items_changed = 0,
           job_error = None\<rparr> in
     Inr (job_id_of n, s\<lparr>serial_table := serials,
       job_run_table := write_record (job_run_table s) (job_id_of n) record\<rparr>))"

definition finish_record :: "job_run_record \<Rightarrow> job_outcome \<Rightarrow> job_run_record" where
  "finish_record r outcome = r\<lparr>job_state_of := jo_state outcome,
     job_finished_at_unix := Some (jo_finished_at_unix outcome),
     job_items_processed := jo_items_processed outcome,
     job_items_changed := jo_items_changed outcome, job_error := jo_error outcome\<rparr>"

definition finish_job_run ::
    "meta_store \<Rightarrow> string \<Rightarrow> job_outcome \<Rightarrow> meta_error + (job_run_record option \<times> meta_store)" where
  "finish_job_run s jid outcome =
     rbind (read_record (job_run_table s) jid) (\<lambda>found.
     case found of
       None \<Rightarrow> Inr (None, s)
     | Some r \<Rightarrow> (let r = finish_record r outcome in
         Inr (Some r, s\<lparr>job_run_table := write_record (job_run_table s) jid r\<rparr>)))"

definition get_job_run :: "meta_store \<Rightarrow> string \<Rightarrow> meta_error + job_run_record option" where
  "get_job_run s jid = read_record (job_run_table s) jid"

definition list_job_runs :: "meta_store \<Rightarrow> meta_error + job_run_record list" where
  "list_job_runs s = decode_all (map snd (rev (job_run_table s)))"

section \<open>Newest first\<close>

inductive job_reachable :: "meta_store \<Rightarrow> bool" where
  job_open: "job_reachable open_new"
| job_start: "job_reachable s \<Longrightarrow> start_job_run s run = Inr (jid, s') \<Longrightarrow> job_reachable s'"
| job_finish: "job_reachable s \<Longrightarrow> finish_job_run s jid outcome = Inr (found, s') \<Longrightarrow> job_reachable s'"
| job_frame: "job_reachable s \<Longrightarrow> job_run_table s' = job_run_table s \<Longrightarrow>
    table_serial (serial_table s') JOB_SERIAL_KEY = table_serial (serial_table s) JOB_SERIAL_KEY \<Longrightarrow>
    job_reachable s'"

definition job_inv :: "meta_store \<Rightarrow> bool" where
  "job_inv s \<longleftrightarrow> ids_upto job_id_of (table_serial (serial_table s) JOB_SERIAL_KEY) (job_run_table s)
     \<and> rows_ok (job_run_table s)
     \<and> map fst (job_run_table s) = map job_id_of [1..<Suc (table_serial (serial_table s) JOB_SERIAL_KEY)]
     \<and> (\<forall>k r. t_get (job_run_table s) k = Some (Row r) \<longrightarrow> job_id r = k)"

lemma job_inv_open_new: "job_inv open_new"
  by (simp add: job_inv_def open_new_def job_ids.ids_empty table_serial_def)

lemma start_job_run_inv:
  assumes inv: "job_inv s" and ok: "start_job_run s run = Inr (jid, s')"
  shows "job_inv s' \<and> (\<exists>r. job_run_table s' = job_run_table s @ [(jid, Row r)] \<and> job_id r = jid)"
proof -
  let ?n = "table_serial (serial_table s) JOB_SERIAL_KEY"
  let ?r = "\<lparr>job_id = job_id_of (Suc ?n), job_kind_of = nj_kind run, job_scope = nj_scope run,
           job_state_of = Running, job_started_at_unix = nj_started_at_unix run,
           job_finished_at_unix = None, job_items_processed = 0, job_items_changed = 0,
           job_error = None\<rparr>"
  from ok have max: "Suc ?n \<le> u64_max" and jid: "jid = job_id_of (Suc ?n)"
    and s': "job_run_table s' = t_insert (job_run_table s) (job_id_of (Suc ?n)) (Row ?r)"
      "table_serial (serial_table s') JOB_SERIAL_KEY = Suc ?n"
    by (auto simp: start_job_run_def rbind_eq_Inr Let_def write_record_def)
  from inv have ids: "ids_upto job_id_of ?n (job_run_table s)" by (simp add: job_inv_def)
  have app: "job_run_table s' = job_run_table s @ [(jid, Row ?r)]"
    using job_ids.ids_insert_last [OF ids _ max, of "Row ?r"] s' jid by simp
  have "ids_upto job_id_of (Suc ?n) (job_run_table s')"
    unfolding s'(1) by (rule job_ids.ids_insert [OF ids max])
  moreover have "rows_ok (job_run_table s')"
    using inv unfolding app by (auto simp: job_inv_def rows_ok_def)
  moreover have "\<forall>k r. t_get (job_run_table s') k = Some (Row r) \<longrightarrow> job_id r = k"
    using inv unfolding s'(1) by (auto simp: job_inv_def)
  ultimately show ?thesis
    using inv app jid unfolding job_inv_def s'(2) by simp
qed

lemma finish_job_run_inv:
  assumes inv: "job_inv s" and ok: "finish_job_run s jid outcome = Inr (found, s')"
  shows "job_inv s'"
proof (cases "t_get (job_run_table s) jid")
  case None
  with assms show ?thesis by (simp add: finish_job_run_def)
next
  case (Some x)
  with inv rows_ok_get [of "job_run_table s" jid] obtain r where r: "t_get (job_run_table s) jid = Some (Row r)"
    by (cases x) (auto simp: job_inv_def)
  with ok have s': "s' = s\<lparr>job_run_table := write_record (job_run_table s) jid (finish_record r outcome)\<rparr>"
    by (auto simp: finish_job_run_def Let_def)
  have wf: "t_wf (job_run_table s)" using inv ids_wf by (auto simp: job_inv_def)
  have "job_id (finish_record r outcome) = jid" using inv r by (simp add: job_inv_def finish_record_def)
  with inv r job_ids.ids_update [OF _ r] t_update_keys [OF wf r] show ?thesis
    unfolding s' job_inv_def by (auto simp: write_record_def rows_ok_write [unfolded write_record_def])
qed

lemma job_reachable_inv: "job_reachable s \<Longrightarrow> job_inv s"
proof (induction rule: job_reachable.induct)
  case (job_frame s s')
  then show ?case by (simp add: job_inv_def)
qed (auto simp: job_inv_open_new dest: start_job_run_inv finish_job_run_inv)

lemma job_listing:
  assumes "job_inv s"
  shows "\<exists>runs. map snd (job_run_table s) = map Row runs \<and> map fst (job_run_table s) = map job_id runs"
proof -
  let ?t = "job_run_table s"
  have "t_wf ?t" using assms ids_wf unfolding job_inv_def by blast
  then have row: "\<exists>r. snd e = Row r \<and> job_id r = fst e" if "e \<in> set ?t" for e
    using that assms t_get_iff [of ?t "fst e" "snd e"] unfolding job_inv_def rows_ok_def
    by (cases "snd e"; cases e) auto
  then have "map snd ?t = map Row (map (\<lambda>e. case snd e of Row r \<Rightarrow> r) ?t)"
    "map fst ?t = map job_id (map (\<lambda>e. case snd e of Row r \<Rightarrow> r) ?t)"
    unfolding map_map by (intro map_cong refl, force)+
  then show ?thesis by blast
qed

definition job_sample :: meta_store where
  "job_sample = (case start_job_run open_new
      \<lparr>nj_kind = CacheRefresh, nj_scope = [], nj_started_at_unix = 5\<rparr> of Inr (_, s) \<Rightarrow> s | Inl _ \<Rightarrow> open_new)"

lemma job_sample_reachable: "job_reachable job_sample"
  by (auto simp: job_sample_def job_open split: sum.split intro: job_reachable.intros)

text \<open>The job history lists every run ever started, newest first, each under the identifier its
  start returned: a further start puts exactly one new running record in front and finishing a run
  changes that record and no other.\<close>

theorem job_history_newest_first:
  assumes "job_reachable s"
  shows "\<exists>runs. list_job_runs s = Inr runs
    \<and> map job_id runs = map job_id_of (rev [1..<Suc (table_serial (serial_table s) JOB_SERIAL_KEY)])
    \<and> (\<forall>run jid s'. start_job_run s run = Inr (jid, s') \<longrightarrow>
         (\<exists>r. list_job_runs s' = Inr (r # runs) \<and> get_job_run s' jid = Inr (Some r) \<and> job_state_of r = Running))"
proof -
  note inv = job_reachable_inv [OF assms]
  from job_listing [OF inv] obtain runs where
    runs: "map snd (job_run_table s) = map Row runs" "map fst (job_run_table s) = map job_id runs" by blast
  have list: "list_job_runs s = Inr (rev runs)"
    using runs(1) by (simp add: list_job_runs_def decode_all_Inr flip: rev_map)
  moreover have "map job_id (rev runs) = map job_id_of (rev [1..<Suc (table_serial (serial_table s) JOB_SERIAL_KEY)])"
    using inv runs(2) by (simp add: job_inv_def flip: rev_map del: upt_Suc)
  moreover have "\<exists>r. list_job_runs s' = Inr (r # rev runs) \<and> get_job_run s' jid = Inr (Some r) \<and> job_state_of r = Running"
    if ok: "start_job_run s run = Inr (jid, s')" for run jid s'
  proof -
    from start_job_run_inv [OF inv ok] obtain r where
      r: "job_run_table s' = job_run_table s @ [(jid, Row r)]" "job_inv s'" by blast
    have "t_wf (job_run_table s')" using r(2) ids_wf unfolding job_inv_def by blast
    from t_get_iff [OF this, of jid "Row r"] have "get_job_run s' jid = Inr (Some r)"
      by (simp add: get_job_run_def r(1))
    moreover from this ok have "job_state_of r = Running"
      by (auto simp: start_job_run_def rbind_eq_Inr Let_def get_job_run_def)
    ultimately show ?thesis using list r by (simp add: list_job_runs_def)
  qed
  ultimately show ?thesis by blast
qed

theorem job_history_newest_first_witness:
  "\<exists>runs. list_job_runs job_sample = Inr runs \<and> map job_id runs = [job_id_of 1]"
proof -
  have n: "table_serial (serial_table job_sample) JOB_SERIAL_KEY = 1"
    by (simp add: job_sample_def start_job_run_def allocate_def add_u64_def checked_add_u64_def u64_max_def
        open_new_def table_serial_def t_get_def Let_def)
  from job_history_newest_first [OF job_sample_reachable] obtain runs where
    "list_job_runs job_sample = Inr runs" "map job_id runs = map job_id_of (rev [1..<Suc 1])"
    unfolding n by blast
  then show ?thesis by auto
qed

end
