(* ===== verification/Webhooks.thy ===== *)
theory Webhooks
  imports Sequences "HOL-Library.Word"
begin

unbundle bit_operations_syntax

text \<open>
  The persistent webhook queue, \<open>crates/peryx-storage/src/meta/webhook.rs\<close>: delivery records and the
  due index, whose string keys order by time because the sign bit of the timestamp is flipped
  before it is printed in fixed width.
\<close>

section \<open>Due keys\<close>

definition i64 :: "int \<Rightarrow> bool" where
  "i64 t \<longleftrightarrow> - (2 ^ 63) \<le> t \<and> t < 2 ^ 63"

definition sign_bit :: "64 word" where
  "sign_bit = push_bit 63 1"

definition flip_sign :: "64 word \<Rightarrow> 64 word" where
  "flip_sign w = w XOR sign_bit"

definition due_key :: "int \<Rightarrow> string \<Rightarrow> string" where
  "due_key timestamp wid = dec20 (unat (flip_sign (word_of_int timestamp))) @ ''/'' @ wid"

definition due_key_time :: "string \<Rightarrow> int option" where
  "due_key_time key = (case split_once CHR ''/'' key of
      None \<Rightarrow> None
    | Some (raw, _) \<Rightarrow> map_option (\<lambda>n. sint (flip_sign (word_of_nat n))) (parse_u64 raw))"

section \<open>Operations\<close>

record new_webhook_delivery =
  nw_index :: string
  nw_target :: string
  nw_event :: string
  nw_payload :: string
  nw_created_at_unix :: int

record webhook_delivery_attempt =
  wa_status :: webhook_delivery_status
  wa_updated_at_unix :: int
  wa_next_attempt_at_unix :: "int option"
  wa_response_status :: "nat option"
  wa_last_error :: "string option"

definition enqueue_webhook_delivery ::
    "meta_store \<Rightarrow> new_webhook_delivery \<Rightarrow> meta_error + (string \<times> meta_store)" where
  "enqueue_webhook_delivery s d =
     rbind (allocate (serial_table s) WEBHOOK_SERIAL_KEY) (\<lambda>(n, serials).
     let wid = webhook_id n;
         record = \<lparr>wd_id = wid, wd_index = nw_index d, wd_target = nw_target d, wd_event = nw_event d,
           wd_payload = nw_payload d, wd_status = Pending, wd_attempts = 0,
           wd_created_at_unix = nw_created_at_unix d, wd_updated_at_unix = nw_created_at_unix d,
           wd_next_attempt_at_unix = Some (nw_created_at_unix d), wd_response_status = None,
           wd_last_error = None\<rparr> in
     Inr (wid, s\<lparr>serial_table := serials,
       webhook_delivery_table := write_record (webhook_delivery_table s) wid record,
       webhook_due_table := t_insert (webhook_due_table s) (due_key (nw_created_at_unix d) wid) wid\<rparr>))"

fun due_loop ::
    "int \<Rightarrow> nat \<Rightarrow> (string, webhook_delivery_record row) tbl \<Rightarrow> (string, string) tbl
      \<Rightarrow> webhook_delivery_record list \<Rightarrow> meta_error + webhook_delivery_record list" where
  "due_loop now limit deliveries [] records = Inr records"
| "due_loop now limit deliveries ((key, wid) # entries) records =
     (case due_key_time key of
        None \<Rightarrow> due_loop now limit deliveries entries records
      | Some due_at \<Rightarrow>
          if now < due_at then Inr records
          else case t_get deliveries wid of
            None \<Rightarrow> due_loop now limit deliveries entries records
          | Some Corrupt \<Rightarrow> Inl Decode
          | Some (Row r) \<Rightarrow>
              if length (records @ [r]) = limit then Inr (records @ [r])
              else due_loop now limit deliveries entries (records @ [r]))"

definition list_due_webhook_deliveries ::
    "meta_store \<Rightarrow> int \<Rightarrow> nat \<Rightarrow> meta_error + webhook_delivery_record list" where
  "list_due_webhook_deliveries s now limit =
     (if limit = 0 then Inr []
      else due_loop now limit (webhook_delivery_table s) (webhook_due_table s) [])"

definition next_webhook_delivery_at :: "meta_store \<Rightarrow> int option" where
  "next_webhook_delivery_at s = (case webhook_due_table s of
      [] \<Rightarrow> None | e # _ \<Rightarrow> due_key_time (fst e))"

definition attempt_record ::
    "webhook_delivery_record \<Rightarrow> nat \<Rightarrow> webhook_delivery_attempt \<Rightarrow> webhook_delivery_record" where
  "attempt_record r attempts a = r\<lparr>wd_status := wa_status a, wd_attempts := attempts,
     wd_updated_at_unix := wa_updated_at_unix a, wd_next_attempt_at_unix := wa_next_attempt_at_unix a,
     wd_response_status := wa_response_status a, wd_last_error := wa_last_error a\<rparr>"

text \<open>\<open>attempts\<close> is a \<open>u16\<close>.\<close>

definition add_u16 :: "nat \<Rightarrow> nat \<Rightarrow> meta_error + nat" where
  "add_u16 a b = (if a + b < 2 ^ 16 then Inr (a + b) else Inl Overflow)"

definition update_webhook_delivery ::
    "meta_store \<Rightarrow> string \<Rightarrow> webhook_delivery_attempt
      \<Rightarrow> meta_error + (webhook_delivery_record option \<times> meta_store)" where
  "update_webhook_delivery s wid a =
     rbind (read_record (webhook_delivery_table s) wid) (\<lambda>found.
     case found of
       None \<Rightarrow> Inr (None, s)
     | Some r \<Rightarrow>
         (let due = (case wd_next_attempt_at_unix r of
              None \<Rightarrow> webhook_due_table s
            | Some t \<Rightarrow> t_remove (webhook_due_table s) (due_key t (wd_id r))) in
          rbind (add_u16 (wd_attempts r) 1) (\<lambda>attempts.
          let r = attempt_record r attempts a in
          Inr (Some r, s\<lparr>
            webhook_delivery_table := write_record (webhook_delivery_table s) wid r,
            webhook_due_table := (case (wd_status r, wd_next_attempt_at_unix r) of
                (Pending, Some t) \<Rightarrow> t_insert due (due_key t wid) wid
              | _ \<Rightarrow> due)\<rparr>))))"

definition get_webhook_delivery :: "meta_store \<Rightarrow> string \<Rightarrow> meta_error + webhook_delivery_record option" where
  "get_webhook_delivery s wid = read_record (webhook_delivery_table s) wid"

definition list_webhook_deliveries :: "meta_store \<Rightarrow> meta_error + webhook_delivery_record list" where
  "list_webhook_deliveries s = decode_all (map snd (webhook_delivery_table s))"

section \<open>Key order is time order\<close>

lemma bit_sign_bit: "bit sign_bit n \<longleftrightarrow> n = 63"
  unfolding sign_bit_def bit_push_bit_iff by (auto simp: bit_1_iff)

lemma sign_bit_int: "sign_bit = word_of_int (2 ^ 63)"
  by (simp add: sign_bit_def push_bit_eq_mult)

lemma sign_bit_twice: "sign_bit + sign_bit = 0"
  by (simp add: sign_bit_def push_bit_eq_mult)

lemma flip_sign_add: "flip_sign w = w + sign_bit"
proof (cases "bit w 63")
  case False
  then have "w + sign_bit = w OR sign_bit"
    by (intro disjunctive_add) (auto simp: bit_sign_bit)
  also have "\<dots> = w XOR sign_bit"
    using False by (intro bit_eqI) (auto simp: bit_sign_bit bit_or_iff bit_xor_iff)
  finally show ?thesis by (simp add: flip_sign_def)
next
  case True
  have "(w XOR sign_bit) + sign_bit = (w XOR sign_bit) OR sign_bit"
    using True by (intro disjunctive_add) (auto simp: bit_sign_bit bit_xor_iff)
  also have "\<dots> = w"
    using True by (intro bit_eqI) (auto simp: bit_sign_bit bit_or_iff bit_xor_iff)
  finally have w: "(w XOR sign_bit) + sign_bit = w" .
  have "w + sign_bit = (w XOR sign_bit) + (sign_bit + sign_bit)"
    using w by (simp only: add.assoc [symmetric])
  then show ?thesis by (simp only: sign_bit_twice flip_sign_def add_0_right)
qed

lemma flip_sign_flip [simp]: "flip_sign (flip_sign w) = w"
  by (simp add: flip_sign_def xor.assoc)

lemma flip_sign_int:
  assumes "i64 t"
  shows "int (unat (flip_sign (word_of_int t))) = t + 2 ^ 63"
proof -
  have "flip_sign (word_of_int t) = word_of_int (t + 2 ^ 63)"
    unfolding flip_sign_add sign_bit_int by (rule wi_hom_add)
  then have "int (unat (flip_sign (word_of_int t))) = (t + 2 ^ 63) mod 2 ^ 64"
    by (simp only: uint_nat [symmetric] uint_word_of_int take_bit_eq_mod) simp
  with assms show ?thesis by (simp add: i64_def)
qed

lemma flip_sign_bound: "unat (flip_sign w) \<le> u64_max"
  using unsigned_less [of "flip_sign w", where ?'a = nat] by (simp add: u64_max_def)

lemma due_key_order:
  assumes "i64 t" "i64 u"
  shows "unat (flip_sign (word_of_int t)) < unat (flip_sign (word_of_int u)) \<longleftrightarrow> t < u"
  using flip_sign_int [OF assms(1)] flip_sign_int [OF assms(2)] by linarith

lemma no_slash_dec20: "CHR ''/'' \<notin> set (dec20 n)"
proof -
  have "list_all is_digit (dec20 n)" by (simp add: dec20_def fixed_digits_dec)
  moreover have "\<not> is_digit CHR ''/''" by (simp add: is_digit_def)
  ultimately show ?thesis by (auto simp: list_all_iff)
qed

lemma word_of_nat_unat: "word_of_nat (unat w) = (w :: 64 word)"
  by simp

lemma due_key_split: "split_once CHR ''/'' (due_key t wid) = Some (dec20 (unat (flip_sign (word_of_int t))), wid)"
  unfolding due_key_def by (simp add: split_once_append no_slash_dec20)

lemma sint_i64: "i64 t \<Longrightarrow> sint (word_of_int t :: 64 word) = t"
  by (simp add: signed_of_int i64_def signed_take_bit_int_eq_self)

lemma due_key_time_due_key: "i64 t \<Longrightarrow> due_key_time (due_key t wid) = Some t"
  unfolding due_key_time_def due_key_split
  by (simp only: option.case prod.case parse_u64_dec20 [OF flip_sign_bound] option.map word_of_nat_unat flip_sign_flip sint_i64)


lemma due_key_inj: "i64 t \<Longrightarrow> i64 u \<Longrightarrow> due_key t a = due_key u b \<longleftrightarrow> t = u \<and> a = b"
proof
  assume eq: "due_key t a = due_key u b" and "i64 t" "i64 u"
  then have "t = u" using due_key_time_due_key [of t a] due_key_time_due_key [of u b] by simp
  with eq show "t = u \<and> a = b" by (simp add: due_key_def)
qed auto

lemma length_dec20: "length (dec20 m) = length (dec20 n)"
  by (simp add: dec20_def)

lemma due_key_mono:
  assumes "i64 t" "i64 u" "due_key t a < due_key u b"
  shows "t \<le> u"
proof (rule ccontr)
  assume "\<not> t \<le> u"
  then have "unat (flip_sign (word_of_int u)) < unat (flip_sign (word_of_int t))"
    using due_key_order [OF assms(2,1)] by simp
  then have less: "dec20 (unat (flip_sign (word_of_int u))) < dec20 (unat (flip_sign (word_of_int t)))"
    by (simp only: dec20_less_iff flip_sign_bound)
  have "due_key u b < due_key t a"
    unfolding due_key_def str_append_less_same [OF length_dec20] using less by blast
  with assms(3) show False by simp
qed

section \<open>The queue invariant\<close>

definition due_at :: "meta_store \<Rightarrow> string \<Rightarrow> int \<Rightarrow> bool" where
  "due_at s wid t \<longleftrightarrow> (\<exists>r. t_get (webhook_delivery_table s) wid = Some (Row r)
     \<and> wd_status r = Pending \<and> wd_next_attempt_at_unix r = Some t)"

definition webhook_inv :: "meta_store \<Rightarrow> bool" where
  "webhook_inv s \<longleftrightarrow>
     ids_upto webhook_id (table_serial (serial_table s) WEBHOOK_SERIAL_KEY) (webhook_delivery_table s)
     \<and> rows_ok (webhook_delivery_table s) \<and> t_wf (webhook_due_table s)
     \<and> (\<forall>wid r. t_get (webhook_delivery_table s) wid = Some (Row r) \<longrightarrow>
          wd_id r = wid \<and> (\<forall>t. wd_next_attempt_at_unix r = Some t \<longrightarrow> i64 t))
     \<and> (\<forall>key wid. t_get (webhook_due_table s) key = Some wid \<longleftrightarrow>
          (\<exists>t. due_at s wid t \<and> key = due_key t wid))"

lemma webhook_inv_open_new: "webhook_inv open_new"
  by (simp add: webhook_inv_def open_new_def webhook_ids.ids_empty table_serial_def due_at_def)

lemma webhook_inv_i64: "webhook_inv s \<Longrightarrow> due_at s wid t \<Longrightarrow> i64 t"
  unfolding webhook_inv_def due_at_def by blast

text \<open>
  One row of the delivery table changes and the due index follows: its old entry, if any, goes and
  the new one, if any, is written.
\<close>

lemma webhook_inv_write:
  assumes inv: "webhook_inv s"
    and ids: "ids_upto webhook_id (table_serial (serial_table s') WEBHOOK_SERIAL_KEY) (webhook_delivery_table s')"
    and tab: "webhook_delivery_table s' = write_record (webhook_delivery_table s) wid r"
    and r: "wd_id r = wid" "\<And>t. wd_next_attempt_at_unix r = Some t \<Longrightarrow> i64 t"
    and wf: "t_wf (webhook_due_table s')"
    and due: "\<And>key. t_get (webhook_due_table s') key =
        (if wd_status r = Pending \<and> (\<exists>t. wd_next_attempt_at_unix r = Some t \<and> key = due_key t wid) then Some wid
         else if (\<exists>t. due_at s wid t \<and> key = due_key t wid) then None
         else t_get (webhook_due_table s) key)"
  shows "webhook_inv s'"
proof -
  have old: "\<And>key wid. t_get (webhook_due_table s) key = Some wid \<longleftrightarrow> (\<exists>t. due_at s wid t \<and> key = due_key t wid)"
    using inv unfolding webhook_inv_def by blast
  have new: "due_at s' w t \<longleftrightarrow>
      (if w = wid then wd_status r = Pending \<and> wd_next_attempt_at_unix r = Some t else due_at s w t)" for w t
    by (auto simp: due_at_def tab)
  have "t_get (webhook_due_table s') key = Some w \<longleftrightarrow> (\<exists>t. due_at s' w t \<and> key = due_key t w)" for key w
  proof (cases "w = wid")
    case True
    with old [of key wid] show ?thesis unfolding due new by auto
  next
    case False
    have "due_key t w \<noteq> due_key u wid" if "i64 t" "i64 u" for t u using False due_key_inj [OF that] by blast
    then have "\<not> (\<exists>u. wd_next_attempt_at_unix r = Some u \<and> due_key t w = due_key u wid)"
      "\<not> (\<exists>u. due_at s wid u \<and> due_key t w = due_key u wid)" if "due_at s w t" for t
      using that webhook_inv_i64 [OF inv] r(2) by blast+
    with old [of key w] False show ?thesis unfolding due new by auto
  qed
  then show ?thesis
    using inv ids r wf unfolding webhook_inv_def tab by (auto split: if_splits)
qed

lemma enqueue_inv:
  assumes inv: "webhook_inv s" and ok: "enqueue_webhook_delivery s d = Inr (wid, s')"
    and t: "i64 (nw_created_at_unix d)"
  shows "webhook_inv s'"
proof -
  let ?n = "table_serial (serial_table s) WEBHOOK_SERIAL_KEY"
  from inv have ids: "ids_upto webhook_id ?n (webhook_delivery_table s)" and wf: "t_wf (webhook_due_table s)"
    unfolding webhook_inv_def by blast+
  from ok have max: "Suc ?n \<le> u64_max" and wid: "wid = webhook_id (Suc ?n)"
    by (auto simp: enqueue_webhook_delivery_def rbind_eq_Inr Let_def)
  have fresh: "t_get (webhook_delivery_table s) wid = None"
    unfolding wid by (rule webhook_ids.ids_fresh [OF ids _ max]) simp
  obtain r where r: "webhook_delivery_table s' = write_record (webhook_delivery_table s) wid r"
    "wd_id r = wid" "wd_status r = Pending" "wd_next_attempt_at_unix r = Some (nw_created_at_unix d)"
    "webhook_due_table s' = t_insert (webhook_due_table s) (due_key (nw_created_at_unix d) wid) wid"
    "table_serial (serial_table s') WEBHOOK_SERIAL_KEY = Suc ?n"
    using ok by (auto simp: enqueue_webhook_delivery_def rbind_eq_Inr Let_def)
  show ?thesis
  proof (rule webhook_inv_write [OF inv _ r(1,2)])
    show "ids_upto webhook_id (table_serial (serial_table s') WEBHOOK_SERIAL_KEY) (webhook_delivery_table s')"
      unfolding r(1,6) write_record_def wid by (rule webhook_ids.ids_insert [OF ids max])
    show "t_wf (webhook_due_table s')" using wf by (simp add: r(5))
  qed (use t r(3-5) fresh in \<open>auto simp: due_at_def\<close>)
qed

lemma update_inv:
  assumes inv: "webhook_inv s" and ok: "update_webhook_delivery s wid a = Inr (found, s')"
    and t: "\<And>t. wa_next_attempt_at_unix a = Some t \<Longrightarrow> i64 t"
  shows "webhook_inv s'"
proof (cases "t_get (webhook_delivery_table s) wid")
  case None
  with assms show ?thesis by (simp add: update_webhook_delivery_def)
next
  case (Some x)
  with inv rows_ok_get [of "webhook_delivery_table s" wid] obtain r where
    r: "t_get (webhook_delivery_table s) wid = Some (Row r)" by (cases x) (auto simp: webhook_inv_def)
  have id: "wd_id r = wid" and wf: "t_wf (webhook_due_table s)"
    and ids: "ids_upto webhook_id (table_serial (serial_table s) WEBHOOK_SERIAL_KEY) (webhook_delivery_table s)"
    and old: "\<And>key wid. t_get (webhook_due_table s) key = Some wid \<longleftrightarrow> (\<exists>t. due_at s wid t \<and> key = due_key t wid)"
    using inv r unfolding webhook_inv_def by blast+
  let ?r = "attempt_record r (wd_attempts r + 1) a"
  let ?due = "case wd_next_attempt_at_unix r of None \<Rightarrow> webhook_due_table s
    | Some t \<Rightarrow> t_remove (webhook_due_table s) (due_key t wid)"
  from ok r id have s': "s' = s\<lparr>webhook_delivery_table := write_record (webhook_delivery_table s) wid ?r,
      webhook_due_table := (case (wd_status ?r, wd_next_attempt_at_unix ?r) of
         (Pending, Some t) \<Rightarrow> t_insert ?due (due_key t wid) wid | _ \<Rightarrow> ?due)\<rparr>"
    by (auto simp: update_webhook_delivery_def Let_def rbind_eq_Inr add_u16_def split: if_splits)
  have due: "t_get ?due key = (if \<exists>t. wd_next_attempt_at_unix r = Some t \<and> key = due_key t wid then None
      else t_get (webhook_due_table s) key)" for key
    by (auto split: option.split)
  have here: "due_at s wid t \<longleftrightarrow> wd_status r = Pending \<and> wd_next_attempt_at_unix r = Some t" for t
    using r by (simp add: due_at_def)
  have absent: "t_get (webhook_due_table s) (due_key t wid) = None"
    if "wd_next_attempt_at_unix r = Some t" "wd_status r \<noteq> Pending" for t
  proof (rule ccontr)
    assume "t_get (webhook_due_table s) (due_key t wid) \<noteq> None"
    then obtain w u where u: "due_at s w u" "due_key t wid = due_key u w" using old by fastforce
    moreover have "i64 t" using inv r that(1) unfolding webhook_inv_def by blast
    ultimately have "w = wid" using due_key_inj webhook_inv_i64 [OF inv u(1)] by metis
    with u that(2) here show False by simp
  qed
  show ?thesis
  proof (rule webhook_inv_write [OF inv])
    show "ids_upto webhook_id (table_serial (serial_table s') WEBHOOK_SERIAL_KEY) (webhook_delivery_table s')"
      using webhook_ids.ids_update [OF ids r] by (simp add: s' write_record_def)
    show "webhook_delivery_table s' = write_record (webhook_delivery_table s) wid ?r" by (simp add: s')
    show "wd_id ?r = wid" by (simp add: attempt_record_def id)
    show "i64 u" if "wd_next_attempt_at_unix ?r = Some u" for u using that t by (simp add: attempt_record_def)
    show "t_wf (webhook_due_table s')"
      using wf by (simp add: s' split: webhook_delivery_status.split option.split)
    show "t_get (webhook_due_table s') key =
        (if wd_status ?r = Pending \<and> (\<exists>t. wd_next_attempt_at_unix ?r = Some t \<and> key = due_key t wid) then Some wid
         else if (\<exists>t. due_at s wid t \<and> key = due_key t wid) then None
         else t_get (webhook_due_table s) key)" for key
      using absent
      by (auto simp: s' due here split: webhook_delivery_status.split option.split)
  qed
qed


section \<open>Listing due deliveries\<close>

definition entry_time :: "string \<times> string \<Rightarrow> int" where
  "entry_time e = the (due_key_time (fst e))"

definition entry_record :: "meta_store \<Rightarrow> string \<times> string \<Rightarrow> webhook_delivery_record" where
  "entry_record s e = (case t_get (webhook_delivery_table s) (snd e) of Some (Row r) \<Rightarrow> r)"

lemma due_loop_take:
  assumes "\<forall>e \<in> set entries. (\<exists>t. due_key_time (fst e) = Some t)
      \<and> (\<exists>r. t_get (webhook_delivery_table s) (snd e) = Some (Row r))"
    and "length records < limit"
  shows "due_loop now limit (webhook_delivery_table s) entries records
    = Inr (take limit (records @ map (entry_record s) (takeWhile (\<lambda>e. entry_time e \<le> now) entries)))"
  using assms
proof (induction entries arbitrary: records)
  case (Cons e entries)
  obtain key wid where e: "e = (key, wid)" by (cases e)
  from Cons.prems obtain t r where t: "due_key_time key = Some t" "t_get (webhook_delivery_table s) wid = Some (Row r)"
    by (auto simp: e)
  have "take limit (records @ r # xs) = records @ [r]" if "Suc (length records) = limit" for xs
    unfolding that [symmetric] by simp
  with Cons t show ?case
    by (cases "now < t"; cases "Suc (length records) = limit")
      (simp_all add: e entry_time_def entry_record_def take_Cons')
qed simp

lemma due_entry:
  assumes "webhook_inv s" "e \<in> set (webhook_due_table s)"
  shows "\<exists>r t. t_get (webhook_delivery_table s) (snd e) = Some (Row r) \<and> wd_status r = Pending
    \<and> wd_next_attempt_at_unix r = Some t \<and> fst e = due_key t (snd e) \<and> i64 t
    \<and> entry_record s e = r \<and> entry_time e = t \<and> due_key_time (fst e) = Some t \<and> wd_id r = snd e"
proof -
  have "t_get (webhook_due_table s) (fst e) = Some (snd e)"
    using assms t_get_iff [of "webhook_due_table s" "fst e" "snd e"] by (simp add: webhook_inv_def)
  with assms(1) obtain t where t: "due_at s (snd e) t" "fst e = due_key t (snd e)"
    unfolding webhook_inv_def by blast
  from t(1) obtain r where r: "t_get (webhook_delivery_table s) (snd e) = Some (Row r)" "wd_status r = Pending"
    "wd_next_attempt_at_unix r = Some t" by (auto simp: due_at_def)
  have "i64 t" "wd_id r = snd e" using webhook_inv_i64 [OF assms(1) t(1)] assms(1) r(1) unfolding webhook_inv_def by blast+
  with r t(2) due_key_time_due_key [of t "snd e"] show ?thesis
    by (simp add: entry_record_def entry_time_def)
qed

lemma due_times_sorted:
  assumes "webhook_inv s"
  shows "sorted (map entry_time (webhook_due_table s))"
proof -
  have "sorted_wrt (\<lambda>a b. fst a < fst b) (webhook_due_table s)"
    using assms by (simp add: webhook_inv_def t_wf_def sorted_wrt_map)
  then have "sorted_wrt (\<lambda>a b. entry_time a \<le> entry_time b) (webhook_due_table s)"
  proof (rule sorted_wrt_mono_rel [rotated])
    fix a b assume "a \<in> set (webhook_due_table s)" "b \<in> set (webhook_due_table s)" "fst a < fst b"
    with due_entry [OF assms, of a] due_entry [OF assms, of b] show "entry_time a \<le> entry_time b"
      by (metis due_key_mono)
  qed
  then show ?thesis by (simp add: sorted_wrt_map)
qed

lemma takeWhile_sorted: "sorted (map f xs) \<Longrightarrow> takeWhile (\<lambda>x. f x \<le> c) xs = filter (\<lambda>x. f x \<le> (c :: int)) xs"
proof (induction xs)
  case (Cons x xs)
  show ?case
  proof (cases "f x \<le> c")
    case False
    with Cons.prems have "\<forall>y \<in> set xs. \<not> f y \<le> c" by auto
    with False show ?thesis by (auto simp: filter_empty_conv)
  qed (use Cons in simp)
qed simp

definition due_records :: "meta_store \<Rightarrow> int \<Rightarrow> webhook_delivery_record list" where
  "due_records s now = map (entry_record s) (filter (\<lambda>e. entry_time e \<le> now) (webhook_due_table s))"

lemma list_due_take:
  assumes inv: "webhook_inv s"
  shows "list_due_webhook_deliveries s now limit = Inr (take limit (due_records s now))"
proof (cases "limit = 0")
  case False
  have all: "\<forall>e \<in> set (webhook_due_table s). (\<exists>t. due_key_time (fst e) = Some t)
      \<and> (\<exists>r. t_get (webhook_delivery_table s) (snd e) = Some (Row r))"
    using due_entry [OF inv] by metis
  from due_loop_take [OF this, of "[]" limit now] False show ?thesis
    by (simp add: list_due_webhook_deliveries_def due_records_def takeWhile_sorted [OF due_times_sorted [OF inv]])
qed (simp add: list_due_webhook_deliveries_def)

lemma set_due_records:
  assumes inv: "webhook_inv s"
  shows "set (due_records s now) = {r. \<exists>wid t. get_webhook_delivery s wid = Inr (Some r)
      \<and> wd_status r = Pending \<and> wd_next_attempt_at_unix r = Some t \<and> t \<le> now}" (is "_ = ?D")
proof (intro equalityI subsetI)
  fix r assume "r \<in> set (due_records s now)"
  then obtain e where e: "e \<in> set (webhook_due_table s)" "entry_time e \<le> now" "r = entry_record s e"
    by (auto simp: due_records_def)
  with due_entry [OF inv e(1)] show "r \<in> ?D"
    by (auto simp: get_webhook_delivery_def read_record_Inr_Some)
next
  fix r assume "r \<in> ?D"
  then obtain wid t where r: "t_get (webhook_delivery_table s) wid = Some (Row r)" "wd_status r = Pending"
    "wd_next_attempt_at_unix r = Some t" "t \<le> now" by (auto simp: get_webhook_delivery_def read_record_Inr_Some)
  then have "due_at s wid t" by (simp add: due_at_def)
  then have "t_get (webhook_due_table s) (due_key t wid) = Some wid"
    using inv unfolding webhook_inv_def by blast
  then have "(due_key t wid, wid) \<in> set (webhook_due_table s)" by (rule t_get_mem)
  moreover have "entry_record s (due_key t wid, wid) = r" "entry_time (due_key t wid, wid) = t"
    using r(1) due_key_time_due_key [OF webhook_inv_i64 [OF inv \<open>due_at s wid t\<close>]]
    by (simp_all add: entry_record_def entry_time_def)
  ultimately show "r \<in> set (due_records s now)" using r(4) unfolding due_records_def by force
qed

lemma due_records_order:
  assumes inv: "webhook_inv s"
  shows "sorted (map (\<lambda>r. the (wd_next_attempt_at_unix r)) (due_records s now)) \<and> distinct (map wd_id (due_records s now))"
proof
  let ?es = "filter (\<lambda>e. entry_time e \<le> now) (webhook_due_table s)"
  have eq: "map (\<lambda>r. the (wd_next_attempt_at_unix r)) (due_records s now) = map entry_time ?es"
    "map wd_id (due_records s now) = map snd ?es"
    using due_entry [OF inv] by (fastforce simp: due_records_def)+
  show "sorted (map (\<lambda>r. the (wd_next_attempt_at_unix r)) (due_records s now))"
    unfolding eq using due_times_sorted [OF inv] by (rule sorted_filter)
  have "distinct (webhook_due_table s)"
    using inv t_wf_distinct distinct_map unfolding webhook_inv_def by blast
  moreover have "inj_on snd (set (webhook_due_table s))"
  proof (rule inj_onI)
    fix a b assume "a \<in> set (webhook_due_table s)" "b \<in> set (webhook_due_table s)" "snd a = snd b"
    with due_entry [OF inv, of a] due_entry [OF inv, of b] have "fst a = fst b" by auto
    with \<open>snd a = snd b\<close> show "a = b" by (simp add: prod_eq_iff)
  qed
  ultimately show "distinct (map wd_id (due_records s now))"
    unfolding eq distinct_map by (auto intro: inj_on_subset)
qed


section \<open>Properties\<close>

inductive webhook_reachable :: "meta_store \<Rightarrow> bool" where
  webhook_open: "webhook_reachable open_new"
| webhook_enqueue: "webhook_reachable s \<Longrightarrow> i64 (nw_created_at_unix d) \<Longrightarrow>
    enqueue_webhook_delivery s d = Inr (wid, s') \<Longrightarrow> webhook_reachable s'"
| webhook_update: "webhook_reachable s \<Longrightarrow> is_none_or (wa_next_attempt_at_unix a) i64 \<Longrightarrow>
    update_webhook_delivery s wid a = Inr (found, s') \<Longrightarrow> webhook_reachable s'"
| webhook_frame: "webhook_reachable s \<Longrightarrow> webhook_delivery_table s' = webhook_delivery_table s \<Longrightarrow>
    webhook_due_table s' = webhook_due_table s \<Longrightarrow>
    table_serial (serial_table s') WEBHOOK_SERIAL_KEY = table_serial (serial_table s) WEBHOOK_SERIAL_KEY \<Longrightarrow>
    webhook_reachable s'"

lemma webhook_reachable_inv: "webhook_reachable s \<Longrightarrow> webhook_inv s"
proof (induction rule: webhook_reachable.induct)
  case (webhook_enqueue s d wid s')
  then show ?case by (blast intro: enqueue_inv)
next
  case (webhook_update s a wid found s')
  then show ?case by (cases "wa_next_attempt_at_unix a") (auto intro: update_inv)
next
  case (webhook_frame s s')
  then show ?case by (simp add: webhook_inv_def due_at_def)
qed (rule webhook_inv_open_new)

definition webhook_sample :: meta_store where
  "webhook_sample = (case enqueue_webhook_delivery open_new \<lparr>nw_index = ''main'', nw_target = ''t'',
      nw_event = ''e'', nw_payload = ''p'', nw_created_at_unix = - 5\<rparr> of Inr (_, s) \<Rightarrow> s | Inl _ \<Rightarrow> open_new)"

lemma webhook_sample_reachable: "webhook_reachable webhook_sample"
  by (auto simp: webhook_sample_def i64_def webhook_open split: sum.split
      intro!: webhook_enqueue [OF webhook_open])

text \<open>The string key of the due index is invertible and orders by time: decoding it returns the
  timestamp, and an earlier timestamp, negative ones included, gives a smaller key whatever the
  delivery identifiers are.\<close>

theorem due_key_sound:
  assumes "i64 t" "i64 u"
  shows "due_key_time (due_key t a) = Some t \<and> (t < u \<longrightarrow> due_key t a < due_key u b)
    \<and> (due_key t a = due_key u b \<longleftrightarrow> t = u \<and> a = b)"
proof -
  have "due_key t a < due_key u b" if "t < u"
    using due_key_mono [OF assms(2,1), of b a] due_key_inj [OF assms, of a b] that by fastforce
  then show ?thesis using due_key_time_due_key [OF assms(1)] due_key_inj [OF assms] by blast
qed

theorem due_key_sound_witness: "due_key (- 1) ''wd_b'' < due_key 0 ''wd_a'' \<and> due_key_time (due_key (- 1) ''wd_b'') = Some (- 1)"
  using due_key_sound [of "- 1" 0 "''wd_b''" "''wd_a''"] by (simp add: i64_def)

text \<open>C19: listing due deliveries returns, in due order and without repetition, the pending
  deliveries whose next attempt is at or before \<open>now\<close>, cut off after \<open>limit\<close>; the cut is all
  that limits it.  The timestamp to wait for is the earliest of the pending ones.\<close>

theorem webhook_due_queue:
  assumes "webhook_reachable s"
  shows "\<exists>due. list_due_webhook_deliveries s now limit = Inr (take limit due)
    \<and> set due = {r. \<exists>wid t. get_webhook_delivery s wid = Inr (Some r)
        \<and> wd_status r = Pending \<and> wd_next_attempt_at_unix r = Some t \<and> t \<le> now}
    \<and> sorted (map (\<lambda>r. the (wd_next_attempt_at_unix r)) due) \<and> distinct (map wd_id due)
    \<and> (next_webhook_delivery_at s = None \<longrightarrow> due = [])
    \<and> (\<forall>t. next_webhook_delivery_at s = Some t \<longrightarrow> (due \<noteq> []) = (t \<le> now))"
proof -
  note inv = webhook_reachable_inv [OF assms]
  have "(next_webhook_delivery_at s = None \<longrightarrow> due_records s now = [])
    \<and> (\<forall>t. next_webhook_delivery_at s = Some t \<longrightarrow> (due_records s now \<noteq> []) = (t \<le> now))"
  proof (cases "webhook_due_table s")
    case Nil
    then show ?thesis by (simp add: next_webhook_delivery_at_def due_records_def)
  next
    case (Cons e es)
    then have e: "due_key_time (fst e) = Some (entry_time e)" using due_entry [OF inv, of e] by auto
    have "\<forall>f \<in> set es. entry_time e \<le> entry_time f" using due_times_sorted [OF inv] Cons by simp
    then have "(due_records s now \<noteq> []) = (entry_time e \<le> now)"
      by (auto simp: due_records_def Cons filter_empty_conv)
    with e Cons show ?thesis by (simp add: next_webhook_delivery_at_def)
  qed
  moreover note list_due_take [OF inv, of now limit] set_due_records [OF inv, of now] due_records_order [OF inv, of now]
  ultimately show ?thesis by (intro exI [of _ "due_records s now"]) simp
qed

theorem webhook_due_queue_witness:
  "\<exists>due. list_due_webhook_deliveries webhook_sample 0 3 = Inr (take 3 due)
    \<and> sorted (map (\<lambda>r. the (wd_next_attempt_at_unix r)) due)"
  using webhook_due_queue [OF webhook_sample_reachable, of 0 3] by blast

end
