(* ===== verification/Users.thy ===== *)
theory Users
  imports MetaStore
begin

text \<open>
  Server users, their password verifiers and their role grants: \<open>crates/peryx-identity/src/user.rs\<close>,
  \<open>crates/peryx-storage/src/meta/user.rs\<close> and \<open>role_grant.rs\<close>, and the services over them in
  \<open>crates/peryx-driver/src/users.rs\<close> and \<open>authz.rs\<close>.  Unicode trimming and case folding, the password
  derivation and the random identifiers are arguments.
\<close>

section \<open>Names\<close>

datatype user_name_error = NameEmpty

datatype user_store_error =
    UserStore meta_error
  | UserNameRejected user_name_error
  | DuplicateName string
  | UserNotFound user_id

text \<open>
  \<open>trim_fn\<close> is \<open>str::trim\<close> and \<open>canon_fn\<close> the canonical form \<open>to_lowercase().nfc()\<close>.
\<close>

definition user_name_new :: "(string \<Rightarrow> string) \<Rightarrow> (string \<Rightarrow> string) \<Rightarrow> string \<Rightarrow> user_name_error + user_name" where
  "user_name_new trim_fn canon_fn v =
     (let display = trim_fn v in
      if display = [] then Inl NameEmpty
      else Inr \<lparr>un_display = display, un_canonical = canon_fn display\<rparr>)"

section \<open>The user store\<close>

definition event_key :: "user_id \<Rightarrow> nat \<Rightarrow> string" where
  "event_key uid sequence = uid @ ''/'' @ dec20 sequence"

definition append_event :: "meta_store \<Rightarrow> user_lifecycle_event \<Rightarrow> meta_store" where
  "append_event s e = s\<lparr>user_event_table :=
     write_record (user_event_table s) (event_key (ue_user_id e) (ue_sequence e)) e\<rparr>"

definition read_user :: "meta_store \<Rightarrow> user_id \<Rightarrow> meta_error + server_user option" where
  "read_user s uid = read_record (user_table s) uid"

definition write_user :: "meta_store \<Rightarrow> server_user \<Rightarrow> meta_store" where
  "write_user s u = s\<lparr>user_table := write_record (user_table s) (su_id u) u\<rparr>"

definition create_user ::
    "(string \<Rightarrow> string) \<Rightarrow> (string \<Rightarrow> string) \<Rightarrow> user_id \<Rightarrow> meta_store \<Rightarrow> string
      \<Rightarrow> user_store_error + (server_user \<times> meta_store)" where
  "create_user trim_fn canon_fn uid s display_name =
     rbind (map_err UserNameRejected (user_name_new trim_fn canon_fn display_name)) (\<lambda>name.
     if t_get (user_name_table s) (un_canonical name) \<noteq> None
     then Inl (DuplicateName (un_canonical name))
     else
       let user = \<lparr>su_id = uid, su_name = name, su_state = Active, su_revision = 1\<rparr>;
           s = write_user s user;
           s = s\<lparr>user_name_table := t_insert (user_name_table s) (un_canonical name) uid\<rparr>;
           s = append_event s \<lparr>ue_user_id = uid, ue_sequence = 1,
                 ue_change = UserCreated (un_display name)\<rparr> in
       Inr (user, s))"

definition get_user :: "meta_store \<Rightarrow> user_id \<Rightarrow> meta_error + server_user option" where
  "get_user s uid = read_record (user_table s) uid"

definition get_user_by_name ::
    "(string \<Rightarrow> string) \<Rightarrow> (string \<Rightarrow> string) \<Rightarrow> meta_store \<Rightarrow> string
      \<Rightarrow> user_store_error + server_user option" where
  "get_user_by_name trim_fn canon_fn s display_name =
     rbind (map_err UserNameRejected (user_name_new trim_fn canon_fn display_name)) (\<lambda>name.
     case t_get (user_name_table s) (un_canonical name) of
       None \<Rightarrow> Inr None
     | Some uid \<Rightarrow> map_err UserStore (read_record (user_table s) uid))"

definition rename_user ::
    "(string \<Rightarrow> string) \<Rightarrow> (string \<Rightarrow> string) \<Rightarrow> meta_store \<Rightarrow> user_id \<Rightarrow> string
      \<Rightarrow> user_store_error + (server_user \<times> meta_store)" where
  "rename_user trim_fn canon_fn s uid display_name =
     rbind (map_err UserNameRejected (user_name_new trim_fn canon_fn display_name)) (\<lambda>name.
     rbind (map_err UserStore (read_user s uid)) (\<lambda>found.
     case found of
       None \<Rightarrow> Inl (UserNotFound uid)
     | Some user \<Rightarrow>
         if su_name user = name then Inr (user, s)
         else if un_canonical (su_name user) \<noteq> un_canonical name
           \<and> t_get (user_name_table s) (un_canonical name) \<noteq> None
         then Inl (DuplicateName (un_canonical name))
         else
           rbind (map_err UserStore (add_u64 (su_revision user) 1)) (\<lambda>revision.
           let s = (if un_canonical (su_name user) \<noteq> un_canonical name
                 then s\<lparr>user_name_table := t_insert
                   (t_remove (user_name_table s) (un_canonical (su_name user)))
                   (un_canonical name) (su_id user)\<rparr>
                 else s);
               previous = un_display (su_name user);
               user = user\<lparr>su_name := name, su_revision := revision\<rparr>;
               s = write_user s user;
               s = append_event s \<lparr>ue_user_id = su_id user, ue_sequence = revision,
                     ue_change = UserRenamed previous (un_display name)\<rparr> in
           Inr (user, s))))"

definition set_user_state ::
    "meta_store \<Rightarrow> user_id \<Rightarrow> user_state \<Rightarrow> user_store_error + (server_user \<times> meta_store)" where
  "set_user_state s uid st =
     rbind (map_err UserStore (read_user s uid)) (\<lambda>found.
     case found of
       None \<Rightarrow> Inl (UserNotFound uid)
     | Some user \<Rightarrow>
         if su_state user = st then Inr (user, s)
         else
           rbind (map_err UserStore (add_u64 (su_revision user) 1)) (\<lambda>revision.
           let user = user\<lparr>su_state := st, su_revision := revision\<rparr>;
               s = write_user s user;
               s = append_event s \<lparr>ue_user_id = su_id user, ue_sequence = revision,
                     ue_change = (case st of Active \<Rightarrow> UserReactivated | Disabled \<Rightarrow> UserDisabled)\<rparr> in
           Inr (user, s)))"

definition set_user_password ::
    "meta_store \<Rightarrow> user_id \<Rightarrow> password_verifier \<Rightarrow> user_store_error + meta_store" where
  "set_user_password s uid verifier =
     rbind (map_err UserStore (read_user s uid)) (\<lambda>found.
     if found = None then Inl (UserNotFound uid)
     else Inr (s\<lparr>user_verifier_table := write_record (user_verifier_table s) uid verifier\<rparr>))"

definition get_user_password :: "meta_store \<Rightarrow> user_id \<Rightarrow> meta_error + password_verifier option" where
  "get_user_password s uid = read_record (user_verifier_table s) uid"

definition clear_user_password :: "meta_store \<Rightarrow> user_id \<Rightarrow> user_store_error + meta_store" where
  "clear_user_password s uid =
     rbind (map_err UserStore (read_user s uid)) (\<lambda>found.
     if found = None then Inl (UserNotFound uid)
     else Inr (s\<lparr>user_verifier_table := t_remove (user_verifier_table s) uid\<rparr>))"

definition range_between :: "(string, 'v) tbl \<Rightarrow> string \<Rightarrow> string \<Rightarrow> (string, 'v) tbl" where
  "range_between t start end_key = filter (\<lambda>e. start \<le> fst e \<and> fst e < end_key) t"

definition user_events :: "meta_store \<Rightarrow> user_id \<Rightarrow> meta_error + user_lifecycle_event list" where
  "user_events s uid =
     decode_all (map snd (range_between (user_event_table s) (uid @ ''/'') (uid @ ''/~'')))"

section \<open>Password authentication\<close>

datatype password_check = Accepted (accepted_stale: bool) | Rejected

definition identify_user ::
    "(string \<Rightarrow> string) \<Rightarrow> (string \<Rightarrow> string) \<Rightarrow> meta_store \<Rightarrow> string
      \<Rightarrow> user_store_error + server_user option" where
  "identify_user trim_fn canon_fn s display_name =
     rbind (get_user_by_name trim_fn canon_fn s display_name) (\<lambda>found.
     Inr (case found of Some u \<Rightarrow> if su_state u = Active then Some u else None | None \<Rightarrow> None))"

text \<open>
  \<open>check\<close> is \<open>PasswordVerifier::check\<close> under the service's policy and \<open>hashed\<close> what a fresh
  derivation of the presented password yields, if it succeeds.
\<close>

definition authenticate ::
    "(string \<Rightarrow> string) \<Rightarrow> (string \<Rightarrow> string) \<Rightarrow> (password_verifier \<Rightarrow> string \<Rightarrow> password_check)
      \<Rightarrow> password_verifier option \<Rightarrow> meta_store \<Rightarrow> string \<Rightarrow> string
      \<Rightarrow> meta_error + (user_id option \<times> meta_store)" where
  "authenticate trim_fn canon_fn check hashed s display_name password =
     (case get_user_by_name trim_fn canon_fn s display_name of
        Inl (UserStore e) \<Rightarrow> Inl e
      | Inl _ \<Rightarrow> Inr (None, s)
      | Inr None \<Rightarrow> Inr (None, s)
      | Inr (Some user) \<Rightarrow>
          if su_state user \<noteq> Active then Inr (None, s)
          else
            rbind (get_user_password s (su_id user)) (\<lambda>verifier.
            case verifier of
              None \<Rightarrow> Inr (None, s)
            | Some v \<Rightarrow>
                (case check v password of
                   Rejected \<Rightarrow> Inr (None, s)
                 | Accepted stale \<Rightarrow>
                     Inr (Some (su_id user),
                       if stale then (case hashed of
                           None \<Rightarrow> s
                         | Some fresh \<Rightarrow> (case set_user_password s (su_id user) fresh of
                             Inl _ \<Rightarrow> s | Inr s' \<Rightarrow> s'))
                       else s))))"

section \<open>Role grants\<close>

datatype role_grant_store_error = RoleStore meta_error | UnknownUser user_id

definition user_exists :: "meta_store \<Rightarrow> user_id \<Rightarrow> bool" where
  "user_exists s uid \<longleftrightarrow> t_get (user_table s) uid \<noteq> None"

definition grant_key_of :: "user_id \<Rightarrow> role \<Rightarrow> grant_scope \<Rightarrow> string" where
  "grant_key_of uid role scope = uid @ ''/'' @ role_as_str role @ ''/'' @
     (case scope of ServerReach \<Rightarrow> ''server'' | RepositoryReach name \<Rightarrow> ''repository/'' @ name)"

definition grant_role ::
    "meta_store \<Rightarrow> user_id \<Rightarrow> role \<Rightarrow> grant_scope \<Rightarrow> role_grant_store_error + (role_grant \<times> meta_store)" where
  "grant_role s uid role scope =
     (if \<not> user_exists s uid then Inl (UnknownUser uid)
      else let grant = \<lparr>rg_user = uid, rg_role = role, rg_scope = scope\<rparr> in
        Inr (grant, s\<lparr>role_grant_table :=
          write_record (role_grant_table s) (grant_key_of uid role scope) grant\<rparr>))"

definition revoke_role :: "meta_store \<Rightarrow> user_id \<Rightarrow> role \<Rightarrow> grant_scope \<Rightarrow> bool \<times> meta_store" where
  "revoke_role s uid role scope =
     (t_get (role_grant_table s) (grant_key_of uid role scope) \<noteq> None,
      s\<lparr>role_grant_table := t_remove (role_grant_table s) (grant_key_of uid role scope)\<rparr>)"

definition user_role_grants :: "meta_store \<Rightarrow> user_id \<Rightarrow> meta_error + role_grant list" where
  "user_role_grants s uid =
     decode_all (map snd (range_between (role_grant_table s) (uid @ ''/'') (uid @ ''0'')))"

datatype deny_reason = NoGrant | StorageUnavailable

datatype decision = AllowDecision | DenyDecision deny_reason

definition is_allowed :: "decision \<Rightarrow> bool" where
  "is_allowed d \<longleftrightarrow> d = AllowDecision"

definition authorize_user :: "meta_store \<Rightarrow> user_id \<Rightarrow> scope \<Rightarrow> resource \<Rightarrow> decision" where
  "authorize_user s uid scope resource =
     (case user_role_grants s uid of
        Inr grants \<Rightarrow> if grants_permit grants scope resource then AllowDecision else DenyDecision NoGrant
      | Inl _ \<Rightarrow> DenyDecision StorageUnavailable)"


text \<open>The bounded security event a decision emits, allowed or denied.\<close>

definition decision_result :: "decision \<Rightarrow> string" where
  "decision_result d = (if is_allowed d then ''allowed'' else ''denied'')"

fun decision_reason :: "decision \<Rightarrow> string" where
  "decision_reason AllowDecision = ''granted''"
| "decision_reason (DenyDecision NoGrant) = ''no_grant''"
| "decision_reason (DenyDecision StorageUnavailable) = ''storage_unavailable''"

record authorization_event =
  ae_user :: user_id
  ae_scope :: string
  ae_resource_kind :: string
  ae_resource :: string
  ae_result :: string
  ae_reason :: string

definition authorize_event :: "user_id \<Rightarrow> scope \<Rightarrow> resource \<Rightarrow> decision \<Rightarrow> authorization_event" where
  "authorize_event uid scope resource d =
     \<lparr>ae_user = uid, ae_scope = scope_as_str scope, ae_resource_kind = fst (resource_fields resource),
      ae_resource = snd (resource_fields resource), ae_result = decision_result d,
      ae_reason = decision_reason d\<rparr>"

end
