(* ===== verification/Accounts.thy ===== *)
theory Accounts
  imports Users
begin

text \<open>
  Invariants and properties of the account store: the name index, the lifecycle history and the
  role grants of every user.
\<close>

section \<open>Key ranges\<close>

lemma slash_range:
  assumes "CHR ''/'' \<notin> set uid" "CHR ''/'' \<notin> set u"
  shows "starts_with (u @ CHR ''/'' # r) (uid @ ''/'') \<longleftrightarrow> u = uid"
proof
  assume "starts_with (u @ CHR ''/'' # r) (uid @ ''/'')"
  then obtain x where "u @ CHR ''/'' # r = uid @ CHR ''/'' # x" by (auto simp: starts_with_iff)
  then have "Some (u, r) = Some (uid, x)"
    using split_once_append [OF assms(2), of r] split_once_append [OF assms(1), of x] by metis
  then show "u = uid" by simp
qed (auto simp: starts_with_iff)

text \<open>The half-open ranges both stores scan cover exactly the keys under \<open>{id}/\<close>.\<close>

lemma range_slash_zero: "uid @ ''/'' \<le> k \<and> k < uid @ ''0'' \<longleftrightarrow> starts_with k (uid @ ''/'')"
proof (induction uid arbitrary: k)
  case Nil
  show ?case
  proof (cases k)
    case (Cons c r)
    have "CHR ''/'' \<le> c \<and> c < CHR ''0'' \<longleftrightarrow> of_char c = (of_char CHR ''/'' :: nat)"
      unfolding less_char_def less_eq_char_def by auto
    then have "CHR ''/'' \<le> c \<and> c < CHR ''0'' \<longleftrightarrow> c = CHR ''/''"
      by (simp only: of_char_eq_iff)
    then show ?thesis by (auto simp: Cons str_le_Cons)
  qed simp
next
  case IH: (Cons x uid)
  show ?case
  proof (cases k)
    case (Cons c r)
    then show ?thesis using IH [of r] by (cases "c = x") (auto simp: str_le_Cons)
  qed simp
qed


lemma range_slash_tilde:
  "uid @ ''/'' \<le> k \<and> k < uid @ ''/~'' \<longleftrightarrow> (\<exists>r. k = uid @ CHR ''/'' # r \<and> r < ''~'')"
proof (induction uid arbitrary: k)
  case Nil
  show ?case by (cases k) (auto simp: str_le_Cons)
next
  case IH: (Cons x uid)
  show ?case
  proof (cases k)
    case (Cons c r)
    then show ?thesis using IH [of r] by (cases "c = x") (auto simp: str_le_Cons)
  qed simp
qed

lemma dec20_less_tilde: "dec20 n < ''~''"
proof -
  have "list_all is_digit (dec20 n)" "length (dec20 n) = 20" by (simp_all add: dec20_def fixed_digits_dec)
  then obtain d r where "dec20 n = d # r" "is_digit d" by (cases "dec20 n") auto
  moreover from this have "d < CHR ''~''" by (auto simp: is_digit_def less_char_def less_eq_char_def)
  ultimately show ?thesis by simp
qed

lemma event_key_range:
  assumes "CHR ''/'' \<notin> set uid" "CHR ''/'' \<notin> set u"
  shows "uid @ ''/'' \<le> event_key u n \<and> event_key u n < uid @ ''/~'' \<longleftrightarrow> u = uid"
proof
  assume "uid @ ''/'' \<le> event_key u n \<and> event_key u n < uid @ ''/~''"
  then have "starts_with (event_key u n) (uid @ ''/'')"
    unfolding range_slash_tilde by (auto simp: starts_with_iff)
  then show "u = uid" using slash_range [OF assms, of "dec20 n"] by (simp add: event_key_def)
next
  assume "u = uid"
  then show "uid @ ''/'' \<le> event_key u n \<and> event_key u n < uid @ ''/~''"
    unfolding range_slash_tilde by (auto simp: event_key_def dec20_less_tilde)
qed

lemma event_key_inj:
  assumes "CHR ''/'' \<notin> set u" "CHR ''/'' \<notin> set v" "m \<le> u64_max" "n \<le> u64_max"
  shows "event_key u m = event_key v n \<longleftrightarrow> u = v \<and> m = n"
proof
  assume eq: "event_key u m = event_key v n"
  then have "Some (u, dec20 m) = Some (v, dec20 n)"
    using split_once_append [OF assms(1), of "dec20 m"] split_once_append [OF assms(2), of "dec20 n"]
    unfolding event_key_def by (metis append_Cons append_Nil)
  then show "u = v \<and> m = n" using dec20_inj [OF assms(3,4)] by simp
qed auto

section \<open>Replaying a lifecycle\<close>

text \<open>The display name and state an account has after a change, from what it had before.\<close>

fun apply_change ::
    "user_lifecycle_change \<Rightarrow> (string \<times> user_state) option \<Rightarrow> (string \<times> user_state) option" where
  "apply_change (UserCreated d) None = Some (d, Active)"
| "apply_change (UserRenamed p d) (Some (q, st)) = (if p = q then Some (d, st) else None)"
| "apply_change UserDisabled (Some (d, Active)) = Some (d, Disabled)"
| "apply_change UserReactivated (Some (d, Disabled)) = Some (d, Active)"
| "apply_change _ _ = None"

definition replay_events :: "user_lifecycle_event list \<Rightarrow> (string \<times> user_state) option" where
  "replay_events es = fold (\<lambda>e. apply_change (ue_change e)) es None"

definition user_event :: "meta_store \<Rightarrow> user_id \<Rightarrow> nat \<Rightarrow> user_lifecycle_event" where
  "user_event s uid n = (case t_get (user_event_table s) (event_key uid n) of Some (Row e) \<Rightarrow> e)"

section \<open>The invariant\<close>

definition users_ok :: "(string, server_user row) tbl \<Rightarrow> bool" where
  "users_ok t \<longleftrightarrow> t_wf t \<and> rows_ok t \<and> (\<forall>uid u. t_get t uid = Some (Row u) \<longrightarrow>
     su_id u = uid \<and> CHR ''/'' \<notin> set uid \<and> 1 \<le> su_revision u \<and> su_revision u \<le> u64_max)"

definition names_ok :: "(string, user_id) tbl \<Rightarrow> (string, server_user row) tbl \<Rightarrow> bool" where
  "names_ok names t \<longleftrightarrow> (\<forall>c uid. t_get names c = Some uid \<longleftrightarrow>
     (\<exists>u. t_get t uid = Some (Row u) \<and> un_canonical (su_name u) = c))"

definition events_ok :: "(string, user_lifecycle_event row) tbl \<Rightarrow> (string, server_user row) tbl \<Rightarrow> bool" where
  "events_ok es t \<longleftrightarrow> t_wf es
     \<and> (\<forall>k x. t_get es k = Some x \<longrightarrow> (\<exists>uid u n e. t_get t uid = Some (Row u) \<and> k = event_key uid n
          \<and> 1 \<le> n \<and> n \<le> su_revision u \<and> x = Row e \<and> ue_user_id e = uid \<and> ue_sequence e = n))
     \<and> (\<forall>uid u n. t_get t uid = Some (Row u) \<longrightarrow> 1 \<le> n \<longrightarrow> n \<le> su_revision u \<longrightarrow>
          t_get es (event_key uid n) \<noteq> None)"

definition history_ok :: "meta_store \<Rightarrow> bool" where
  "history_ok s \<longleftrightarrow> (\<forall>uid u. t_get (user_table s) uid = Some (Row u) \<longrightarrow>
     replay_events (map (user_event s uid) [1..<Suc (su_revision u)])
       = Some (un_display (su_name u), su_state u))"

definition user_inv :: "meta_store \<Rightarrow> bool" where
  "user_inv s \<longleftrightarrow> users_ok (user_table s) \<and> names_ok (user_name_table s) (user_table s)
     \<and> events_ok (user_event_table s) (user_table s) \<and> history_ok s"

lemma user_inv_open_new: "user_inv open_new"
  by (simp add: user_inv_def users_ok_def names_ok_def events_ok_def history_ok_def open_new_def)

text \<open>
  One account takes a new row and its history grows by one event under the next sequence number:
  creation, renaming and a change of state are all of this form.
\<close>

definition account_before :: "meta_store \<Rightarrow> user_id \<Rightarrow> nat \<Rightarrow> (string \<times> user_state) option \<Rightarrow> bool" where
  "account_before s uid n before \<longleftrightarrow> (case t_get (user_table s) uid of
      None \<Rightarrow> n = 0 \<and> before = None
    | Some (Row u) \<Rightarrow> n = su_revision u \<and> before = Some (un_display (su_name u), su_state u)
    | Some Corrupt \<Rightarrow> False)"

definition account_step ::
    "meta_store \<Rightarrow> meta_store \<Rightarrow> user_id \<Rightarrow> nat \<Rightarrow> (string \<times> user_state) option \<Rightarrow> server_user
      \<Rightarrow> user_lifecycle_event \<Rightarrow> bool" where
  "account_step s s' uid n before u' e \<longleftrightarrow> CHR ''/'' \<notin> set uid \<and> account_before s uid n before
     \<and> Suc n \<le> u64_max \<and> su_id u' = uid \<and> su_revision u' = Suc n
     \<and> ue_user_id e = uid \<and> ue_sequence e = Suc n
     \<and> apply_change (ue_change e) before = Some (un_display (su_name u'), su_state u')
     \<and> user_table s' = write_record (user_table s) uid u'
     \<and> user_event_table s' = write_record (user_event_table s) (event_key uid (Suc n)) e"

lemma account_step_key:
  assumes "users_ok (user_table s)" "account_step s s' uid n before u' e"
    and "t_get (user_table s) w = Some (Row u)" "m \<le> su_revision u"
  shows "event_key w m = event_key uid (Suc n) \<longleftrightarrow> w = uid \<and> m = Suc n"
proof -
  have "CHR ''/'' \<notin> set w" "m \<le> u64_max"
    using assms(1,3,4) unfolding users_ok_def by (blast, blast intro: le_trans)
  then show ?thesis using event_key_inj assms(2) unfolding account_step_def by blast
qed

lemma account_step_users:
  assumes "users_ok (user_table s)" "account_step s s' uid n before u' e"
  shows "users_ok (user_table s')"
  using assms unfolding account_step_def users_ok_def by (auto split: if_splits)

lemma account_step_events:
  assumes E: "events_ok (user_event_table s) (user_table s)" and U: "users_ok (user_table s)"
    and step: "account_step s s' uid n before u' e"
  shows "events_ok (user_event_table s') (user_table s')"
  unfolding events_ok_def
proof (intro conjI allI impI)
  from step have users: "user_table s' = write_record (user_table s) uid u'"
    and events: "user_event_table s' = write_record (user_event_table s) (event_key uid (Suc n)) e"
    and u': "su_revision u' = Suc n" and e: "ue_user_id e = uid" "ue_sequence e = Suc n"
    and old: "account_before s uid n before" unfolding account_step_def by blast+
  show "t_wf (user_event_table s')" using E by (simp add: events events_ok_def)
  fix k x assume k: "t_get (user_event_table s') k = Some x"
  show "\<exists>w u m e. t_get (user_table s') w = Some (Row u) \<and> k = event_key w m
      \<and> 1 \<le> m \<and> m \<le> su_revision u \<and> x = Row e \<and> ue_user_id e = w \<and> ue_sequence e = m"
  proof (cases "k = event_key uid (Suc n)")
    case True
    with k e u' show ?thesis by (auto simp: events users intro!: exI [of _ uid] exI [of _ u'] exI [of _ "Suc n"])
  next
    case False
    with k have "t_get (user_event_table s) k = Some x" by (simp add: events)
    with E obtain w u m e' where w: "t_get (user_table s) w = Some (Row u)" "k = event_key w m" "1 \<le> m"
      "m \<le> su_revision u" "x = Row e'" "ue_user_id e' = w" "ue_sequence e' = m"
      unfolding events_ok_def by blast
    define v where "v = (if w = uid then u' else u)"
    have "t_get (user_table s') w = Some (Row v)" "m \<le> su_revision v"
      using w old u' by (auto simp: users v_def account_before_def)
    with w show ?thesis by blast
  qed
next
  from step have users: "user_table s' = write_record (user_table s) uid u'"
    and events: "user_event_table s' = write_record (user_event_table s) (event_key uid (Suc n)) e"
    and u': "su_revision u' = Suc n" and old: "account_before s uid n before"
    unfolding account_step_def by blast+
  fix w u m assume w: "t_get (user_table s') w = Some (Row u)" "1 \<le> m" "m \<le> su_revision u"
  show "t_get (user_event_table s') (event_key w m) \<noteq> None"
  proof (cases "w = uid \<and> m = Suc n")
    case False
    have "\<exists>v. t_get (user_table s) w = Some (Row v) \<and> m \<le> su_revision v"
    proof (cases "w = uid")
      case True
      with w False u' have "m \<le> n" by (simp add: users)
      with old w True show ?thesis by (auto simp: account_before_def split: option.splits row.splits)
    qed (use w in \<open>simp add: users\<close>)
    with E w(2) show ?thesis unfolding events_ok_def by (auto simp: events)
  qed (simp add: events)
qed

lemma account_step_replay_before:
  assumes H: "history_ok s" and old: "account_before s uid n before"
    and same: "\<And>m. m \<le> n \<Longrightarrow> user_event s' uid m = user_event s uid m"
  shows "replay_events (map (user_event s' uid) [1..<Suc n]) = before"
proof -
  have eq: "map (user_event s' uid) [1..<Suc n] = map (user_event s uid) [1..<Suc n]"
    using same by (auto simp del: upt_Suc)
  show ?thesis
  proof (cases "t_get (user_table s) uid")
    case None
    with old show ?thesis by (simp add: replay_events_def account_before_def)
  next
    case (Some x)
    with old obtain u where "t_get (user_table s) uid = Some (Row u)" "n = su_revision u"
      "before = Some (un_display (su_name u), su_state u)" by (cases x) (auto simp: account_before_def)
    then show ?thesis unfolding eq using H unfolding history_ok_def by blast
  qed
qed

lemma account_step_history:
  assumes H: "history_ok s" and U: "users_ok (user_table s)"
    and E: "events_ok (user_event_table s) (user_table s)"
    and step: "account_step s s' uid n before u' e"
  shows "history_ok s'"
  unfolding history_ok_def
proof (intro allI impI)
  from step have users: "user_table s' = write_record (user_table s) uid u'"
    and events: "user_event_table s' = write_record (user_event_table s) (event_key uid (Suc n)) e"
    and old: "account_before s uid n before" and clean: "CHR ''/'' \<notin> set uid" and n: "Suc n \<le> u64_max"
    unfolding account_step_def by blast+
  fix w v assume w: "t_get (user_table s') w = Some (Row v)"
  show "replay_events (map (user_event s' w) [1..<Suc (su_revision v)]) = Some (un_display (su_name v), su_state v)"
  proof (cases "w = uid")
    case False
    with w have u: "t_get (user_table s) w = Some (Row v)" by (simp add: users)
    have "user_event s' w m = user_event s w m" if "m \<le> su_revision v" for m
      using account_step_key [OF U step u that] False by (simp add: user_event_def events)
    then have eq: "map (user_event s' w) [1..<Suc (su_revision v)] = map (user_event s w) [1..<Suc (su_revision v)]"
      by (auto simp del: upt_Suc)
    show ?thesis unfolding eq using H u unfolding history_ok_def by blast
  next
    case True
    with w have v: "v = u'" by (simp add: users)
    have "user_event s' uid m = user_event s uid m" if "m \<le> n" for m
      using event_key_inj [OF clean clean _ n, of m] that n by (simp add: user_event_def events)
    then have "replay_events (map (user_event s' uid) [1..<Suc n]) = before"
      by (rule account_step_replay_before [OF H old])
    moreover have "user_event s' uid (Suc n) = e" by (simp add: user_event_def events)
    ultimately show ?thesis
      using step v True unfolding account_step_def by (simp add: replay_events_def)
  qed
qed

lemma account_step_inv:
  assumes "user_inv s" "account_step s s' uid n before u' e" "names_ok (user_name_table s') (user_table s')"
  shows "user_inv s'"
proof -
  from assms(1) have parts: "users_ok (user_table s)" "events_ok (user_event_table s) (user_table s)" "history_ok s"
    unfolding user_inv_def by blast+
  show ?thesis
    unfolding user_inv_def using assms(3) account_step_users [OF parts(1) assms(2)]
      account_step_events [OF parts(2,1) assms(2)] account_step_history [OF parts(3,1,2) assms(2)] by blast
qed

lemma names_ok_fresh:
  assumes "names_ok names t" "t_get names (un_canonical (su_name u)) = None" "t_get t uid = None"
  shows "names_ok (t_insert names (un_canonical (su_name u)) uid) (write_record t uid u)"
  unfolding names_ok_def
proof (intro allI)
  fix c w
  have N: "t_get names c = Some w \<longleftrightarrow> (\<exists>v. t_get t w = Some (Row v) \<and> un_canonical (su_name v) = c)"
    using assms(1) unfolding names_ok_def by blast
  show "t_get (t_insert names (un_canonical (su_name u)) uid) c = Some w
    \<longleftrightarrow> (\<exists>v. t_get (write_record t uid u) w = Some (Row v) \<and> un_canonical (su_name v) = c)"
    using N assms(2,3) by (cases "w = uid") (auto split: if_splits)
qed

lemma names_ok_rename:
  assumes N: "names_ok names t" and u: "t_get t uid = Some (Row u)"
    and free: "t_get names (un_canonical (su_name u')) = None"
  shows "names_ok (t_insert (t_remove names (un_canonical (su_name u))) (un_canonical (su_name u')) uid)
    (write_record t uid u')"
  unfolding names_ok_def
proof (intro allI)
  fix c w
  have N': "(\<exists>v. t_get t w = Some (Row v) \<and> un_canonical (su_name v) = c) \<longleftrightarrow> t_get names c = Some w" for c w
    using N unfolding names_ok_def by blast
  have old: "t_get names (un_canonical (su_name u)) = Some uid"
    using N' [of uid "un_canonical (su_name u)"] u by blast
  show "t_get (t_insert (t_remove names (un_canonical (su_name u))) (un_canonical (su_name u')) uid) c = Some w
    \<longleftrightarrow> (\<exists>v. t_get (write_record t uid u') w = Some (Row v) \<and> un_canonical (su_name v) = c)"
  proof (cases "w = uid")
    case True
    have "t_get names c = Some uid \<longleftrightarrow> un_canonical (su_name u) = c"
      using N' [of uid c] u by auto
    with True show ?thesis by auto
  next
    case False
    then have "(\<exists>v. t_get (write_record t uid u') w = Some (Row v) \<and> un_canonical (su_name v) = c)
        \<longleftrightarrow> t_get names c = Some w"
      using N' [of w c] by simp
    with False old free show ?thesis by auto
  qed
qed

lemma names_ok_same:
  assumes "names_ok names t" "t_get t uid = Some (Row u)" "un_canonical (su_name u') = un_canonical (su_name u)"
  shows "names_ok names (write_record t uid u')"
  using assms unfolding names_ok_def by auto

section \<open>Every operation keeps the invariant\<close>

lemma account_before_None: "t_get (user_table s) uid = None \<Longrightarrow> account_before s uid 0 None"
  by (simp add: account_before_def)

lemma account_before_Row:
  "t_get (user_table s) uid = Some (Row u) \<Longrightarrow>
   account_before s uid (su_revision u) (Some (un_display (su_name u), su_state u))"
  by (simp add: account_before_def)

lemma users_ok_row:
  assumes "user_inv s" "read_user s uid = Inr (Some u)"
  shows "t_get (user_table s) uid = Some (Row u)" "su_id u = uid" "CHR ''/'' \<notin> set uid"
proof -
  show row: "t_get (user_table s) uid = Some (Row u)"
    using assms(2) by (simp add: read_user_def read_record_Inr_Some)
  then show "su_id u = uid" "CHR ''/'' \<notin> set uid"
    using assms(1) unfolding user_inv_def users_ok_def by blast+
qed

lemma create_user_inv:
  assumes I: "user_inv s" and uid: "t_get (user_table s) uid = None" "CHR ''/'' \<notin> set uid"
    and c: "create_user trim_fn canon_fn uid s d = Inr (u, s')"
  shows "user_inv s'"
proof -
  from c obtain name where name: "user_name_new trim_fn canon_fn d = Inr name"
    by (auto simp: create_user_def rbind_eq_Inr)
  with c have free: "t_get (user_name_table s) (un_canonical name) = None"
    and u: "u = \<lparr>su_id = uid, su_name = name, su_state = Active, su_revision = 1\<rparr>"
    and s': "user_table s' = write_record (user_table s) uid u"
      "user_name_table s' = t_insert (user_name_table s) (un_canonical name) uid"
      "user_event_table s' = write_record (user_event_table s) (event_key uid (Suc 0))
         \<lparr>ue_user_id = uid, ue_sequence = Suc 0, ue_change = UserCreated (un_display name)\<rparr>"
    by (simp_all add: create_user_def Let_def write_user_def append_event_def split: if_splits) auto
  have "account_step s s' uid 0 None u
      \<lparr>ue_user_id = uid, ue_sequence = Suc 0, ue_change = UserCreated (un_display name)\<rparr>"
    using uid account_before_None [OF uid(1)] s' by (simp add: account_step_def u u64_max_def)
  moreover have "names_ok (user_name_table s') (user_table s')"
    unfolding s' using names_ok_fresh [of "user_name_table s" "user_table s" u uid] I free uid(1)
    by (simp add: user_inv_def u)
  ultimately show ?thesis using account_step_inv [OF I] by blast
qed

lemma rename_user_cases:
  assumes "rename_user trim_fn canon_fn s uid d = Inr (u', s')"
  obtains (same) u where "read_user s uid = Inr (Some u)" "u' = u" "s' = s"
  | (renamed) name u where "read_user s uid = Inr (Some u)" "su_revision u + 1 \<le> u64_max"
      "un_canonical (su_name u) = un_canonical name \<or> t_get (user_name_table s) (un_canonical name) = None"
      "u' = u\<lparr>su_name := name, su_revision := su_revision u + 1\<rparr>"
      "user_table s' = write_record (user_table s) (su_id u) u'"
      "user_name_table s' = (if un_canonical (su_name u) = un_canonical name then user_name_table s
         else t_insert (t_remove (user_name_table s) (un_canonical (su_name u))) (un_canonical name) (su_id u))"
      "user_event_table s' = write_record (user_event_table s) (event_key (su_id u) (su_revision u + 1))
         \<lparr>ue_user_id = su_id u, ue_sequence = su_revision u + 1,
          ue_change = UserRenamed (un_display (su_name u)) (un_display name)\<rparr>"
proof -
  from assms obtain name u where name: "user_name_new trim_fn canon_fn d = Inr name"
    and u: "read_user s uid = Inr (Some u)"
    by (auto simp: rename_user_def rbind_eq_Inr split: option.splits)
  show ?thesis
  proof (cases "su_name u = name")
    case True
    with assms name u have "u' = u \<and> s' = s" by (simp add: rename_user_def)
    with same [OF u] show ?thesis by blast
  next
    case False
    have add: "add_u64 (su_revision u) 1 = Inr (su_revision u + 1)"
    proof (cases "add_u64 (su_revision u) 1")
      case Inl
      with False assms name u show ?thesis by (simp add: rename_user_def split: if_splits)
    qed simp
    then have rev: "su_revision u + 1 \<le> u64_max" by simp
    from False assms name u add
    have s': "(u', s') = (let v = u\<lparr>su_name := name, su_revision := su_revision u + 1\<rparr> in
        (v, append_event (write_user (if un_canonical (su_name u) \<noteq> un_canonical name
             then s\<lparr>user_name_table := t_insert (t_remove (user_name_table s) (un_canonical (su_name u)))
               (un_canonical name) (su_id u)\<rparr> else s) v)
           \<lparr>ue_user_id = su_id u, ue_sequence = su_revision u + 1,
            ue_change = UserRenamed (un_display (su_name u)) (un_display name)\<rparr>))"
      and free: "un_canonical (su_name u) = un_canonical name \<or> t_get (user_name_table s) (un_canonical name) = None"
      by (auto simp: rename_user_def Let_def simp del: add_u64_Inr split: if_splits)
    show ?thesis
      by (rule renamed [OF u rev free]) (use s' in \<open>simp_all add: Let_def write_user_def append_event_def\<close>)
  qed
qed

lemma rename_user_inv:
  assumes I: "user_inv s" and r: "rename_user trim_fn canon_fn s uid d = Inr (u', s')"
  shows "user_inv s'"
  using r
proof (cases rule: rename_user_cases)
  case same
  with I show ?thesis by simp
next
  case (renamed name u)
  note row = users_ok_row [OF I renamed(1)]
  have "account_step s s' uid (su_revision u) (Some (un_display (su_name u), su_state u)) u'
      \<lparr>ue_user_id = uid, ue_sequence = su_revision u + 1,
       ue_change = UserRenamed (un_display (su_name u)) (un_display name)\<rparr>"
    using renamed row account_before_Row [OF row(1)] by (simp add: account_step_def)
  moreover have "names_ok (user_name_table s) (user_table s)" using I by (simp add: user_inv_def)
  then have "names_ok (user_name_table s') (user_table s')"
    using names_ok_same [OF _ row(1), of _ u'] names_ok_rename [OF _ row(1), of _ u'] renamed row
    by (cases "un_canonical (su_name u) = un_canonical name") simp_all
  ultimately show ?thesis using account_step_inv [OF I] by blast
qed

lemma set_user_state_cases:
  assumes "set_user_state s uid st = Inr (u', s')"
  obtains (same) u where "read_user s uid = Inr (Some u)" "u' = u" "s' = s"
  | (changed) u where "read_user s uid = Inr (Some u)" "su_state u \<noteq> st" "su_revision u + 1 \<le> u64_max"
      "u' = u\<lparr>su_state := st, su_revision := su_revision u + 1\<rparr>"
      "user_table s' = write_record (user_table s) (su_id u) u'" "user_name_table s' = user_name_table s"
      "user_event_table s' = write_record (user_event_table s) (event_key (su_id u) (su_revision u + 1))
         \<lparr>ue_user_id = su_id u, ue_sequence = su_revision u + 1,
          ue_change = (case st of Active \<Rightarrow> UserReactivated | Disabled \<Rightarrow> UserDisabled)\<rparr>"
proof -
  from assms obtain u where u: "read_user s uid = Inr (Some u)"
    by (auto simp: set_user_state_def rbind_eq_Inr split: option.splits)
  show ?thesis
  proof (cases "su_state u = st")
    case True
    with assms u have "u' = u \<and> s' = s" by (simp add: set_user_state_def)
    with same [OF u] show ?thesis by blast
  next
    case False
    have add: "add_u64 (su_revision u) 1 = Inr (su_revision u + 1)"
    proof (cases "add_u64 (su_revision u) 1")
      case Inl
      with False assms u show ?thesis by (simp add: set_user_state_def)
    qed simp
    then have rev: "su_revision u + 1 \<le> u64_max" by simp
    from False assms u add have s': "(u', s') = (let v = u\<lparr>su_state := st, su_revision := su_revision u + 1\<rparr> in
        (v, append_event (write_user s v) \<lparr>ue_user_id = su_id u, ue_sequence = su_revision u + 1,
            ue_change = (case st of Active \<Rightarrow> UserReactivated | Disabled \<Rightarrow> UserDisabled)\<rparr>))"
      by (auto simp: set_user_state_def Let_def simp del: add_u64_Inr)
    show ?thesis
      by (rule changed [OF u False rev]) (use s' in \<open>simp_all add: Let_def write_user_def append_event_def\<close>)
  qed
qed

lemma apply_change_state:
  "a \<noteq> st \<Longrightarrow> apply_change (case st of Active \<Rightarrow> UserReactivated | Disabled \<Rightarrow> UserDisabled) (Some (d, a)) = Some (d, st)"
  by (cases st; cases a) simp_all

lemma set_user_state_inv:
  assumes I: "user_inv s" and r: "set_user_state s uid st = Inr (u', s')"
  shows "user_inv s'"
  using r
proof (cases rule: set_user_state_cases)
  case same
  with I show ?thesis by simp
next
  case (changed u)
  note row = users_ok_row [OF I changed(1)]
  have "account_step s s' uid (su_revision u) (Some (un_display (su_name u), su_state u)) u'
      \<lparr>ue_user_id = uid, ue_sequence = su_revision u + 1,
       ue_change = (case st of Active \<Rightarrow> UserReactivated | Disabled \<Rightarrow> UserDisabled)\<rparr>"
    using changed row account_before_Row [OF row(1)] by (simp add: account_step_def apply_change_state)
  moreover have "names_ok (user_name_table s) (user_table s)" using I by (simp add: user_inv_def)
  then have "names_ok (user_name_table s') (user_table s')"
    using names_ok_same [OF _ row(1), of _ u'] changed row by simp
  ultimately show ?thesis using account_step_inv [OF I] by blast
qed

text \<open>The operations on verifiers and grants leave the account tables alone.\<close>

definition same_accounts :: "meta_store \<Rightarrow> meta_store \<Rightarrow> bool" where
  "same_accounts s s' \<longleftrightarrow> user_table s' = user_table s \<and> user_name_table s' = user_name_table s
     \<and> user_event_table s' = user_event_table s"

lemma same_accounts_refl [simp]: "same_accounts s s"
  by (simp add: same_accounts_def)

lemma user_inv_frame: "same_accounts s s' \<Longrightarrow> user_inv s \<Longrightarrow> user_inv s'"
  unfolding same_accounts_def user_inv_def history_ok_def user_event_def by (elim conjE) (simp only: simp_thms)

lemma password_frame:
  "set_user_password s uid v = Inr s' \<Longrightarrow> same_accounts s s' \<and> role_grant_table s' = role_grant_table s"
  "clear_user_password s uid = Inr s' \<Longrightarrow> same_accounts s s' \<and> role_grant_table s' = role_grant_table s"
  by (auto simp: set_user_password_def clear_user_password_def same_accounts_def rbind_eq_Inr split: if_splits)

lemma authenticate_cases:
  assumes "authenticate trim_fn canon_fn check hashed s d p = Inr (r, s')"
  obtains (refused) "r = None" "s' = s"
  | (accepted) u v stale where "get_user_by_name trim_fn canon_fn s d = Inr (Some u)" "su_state u = Active"
      "get_user_password s (su_id u) = Inr (Some v)" "check v p = Accepted stale" "r = Some (su_id u)"
      "s' = s \<or> (\<exists>fresh. stale \<and> hashed = Some fresh \<and> set_user_password s (su_id u) fresh = Inr s')"
proof (cases "get_user_by_name trim_fn canon_fn s d")
  case (Inl e)
  with assms refused show ?thesis by (cases e) (simp_all add: authenticate_def)
next
  case (Inr found)
  show ?thesis
  proof (cases "\<exists>u v stale. found = Some u \<and> su_state u = Active
      \<and> get_user_password s (su_id u) = Inr (Some v) \<and> check v p = Accepted stale")
    case True
    then obtain u v stale where a: "found = Some u" "su_state u = Active"
      "get_user_password s (su_id u) = Inr (Some v)" "check v p = Accepted stale" by blast
    with assms Inr show ?thesis
      by (intro accepted [of u v stale]) (auto simp: authenticate_def split: if_splits option.splits sum.splits)
  next
    case False
    have "r = None \<and> s' = s"
    proof (cases "\<exists>u. found = Some u \<and> su_state u = Active")
      case True
      then obtain u where u: "found = Some u" "su_state u = Active" by blast
      with assms Inr obtain v where v: "get_user_password s (su_id u) = Inr v"
        by (cases "get_user_password s (su_id u)") (simp_all add: authenticate_def)
      with assms Inr u False show ?thesis
        by (cases v; cases "check (the v) p") (simp_all add: authenticate_def)
    next
      case False
      with assms Inr show ?thesis by (cases found) (auto simp: authenticate_def)
    qed
    with refused show ?thesis by blast
  qed
qed

lemma authenticate_frame:
  assumes "authenticate trim_fn canon_fn check hashed s d p = Inr (r, s')"
  shows "same_accounts s s' \<and> role_grant_table s' = role_grant_table s"
  using assms by (cases rule: authenticate_cases) (auto dest: password_frame(1))

lemma create_frame:
  assumes "create_user trim_fn canon_fn uid s d = Inr (u, s')"
  shows "role_grant_table s' = role_grant_table s"
proof -
  from assms obtain name where "user_name_new trim_fn canon_fn d = Inr name"
    by (auto simp: create_user_def rbind_eq_Inr)
  with assms show ?thesis
    by (auto simp: create_user_def Let_def write_user_def append_event_def split: if_splits)
qed

lemma state_frame:
  assumes "set_user_state s uid st = Inr (u, s')"
  shows "role_grant_table s' = role_grant_table s"
proof -
  from assms obtain v where "read_user s uid = Inr (Some v)"
    by (auto simp: set_user_state_def rbind_eq_Inr split: option.splits)
  with assms show ?thesis
    by (auto simp: set_user_state_def rbind_eq_Inr Let_def write_user_def append_event_def split: if_splits)
qed

lemma rename_frame:
  assumes "rename_user trim_fn canon_fn s uid d = Inr (u, s')"
  shows "role_grant_table s' = role_grant_table s"
proof -
  from assms obtain name v where "user_name_new trim_fn canon_fn d = Inr name" "read_user s uid = Inr (Some v)"
    by (auto simp: rename_user_def rbind_eq_Inr split: option.splits)
  with assms show ?thesis
    by (auto simp: rename_user_def rbind_eq_Inr Let_def write_user_def append_event_def split: if_splits)
qed

section \<open>Role grants as a set\<close>

abbreviation grant_key :: "role_grant \<Rightarrow> string" where
  "grant_key g \<equiv> grant_key_of (rg_user g) (rg_role g) (rg_scope g)"

lemma reach_inj:
  "(case a of ServerReach \<Rightarrow> ''server'' | RepositoryReach name \<Rightarrow> ''repository/'' @ name)
   = (case b of ServerReach \<Rightarrow> ''server'' | RepositoryReach name \<Rightarrow> ''repository/'' @ name) \<longleftrightarrow> a = b"
  by (cases a; cases b) simp_all

lemma grant_key_of_inj:
  assumes "CHR ''/'' \<notin> set u" "CHR ''/'' \<notin> set v" "grant_key_of u r a = grant_key_of v q b"
  shows "u = v \<and> r = q \<and> a = b"
proof -
  let ?reach = "\<lambda>sc. case sc of ServerReach \<Rightarrow> ''server'' | RepositoryReach name \<Rightarrow> ''repository/'' @ name"
  have split: "split_once CHR ''/'' (grant_key_of w r sc) = Some (w, role_as_str r @ CHR ''/'' # ?reach sc)"
    if "CHR ''/'' \<notin> set w" for w r sc
    using split_once_append [OF that, of "role_as_str r @ CHR ''/'' # ?reach sc"] by (simp add: grant_key_of_def)
  from split [OF assms(1), of r a] split [OF assms(2), of q b] assms(3)
  have uv: "u = v" and rest: "role_as_str r @ CHR ''/'' # ?reach a = role_as_str q @ CHR ''/'' # ?reach b"
    by simp_all
  from rest split_once_append [OF role_as_str_no_slash, of r "?reach a"]
    split_once_append [OF role_as_str_no_slash, of q "?reach b"]
  have "(role_as_str r, ?reach a) = (role_as_str q, ?reach b)" by (simp only: option.inject)
  then show ?thesis using uv role_as_str_inj [of r q] by (simp only: reach_inj prod.inject)
qed

lemma grant_key_inj:
  assumes "CHR ''/'' \<notin> set (rg_user g)" "CHR ''/'' \<notin> set (rg_user h)" "grant_key g = grant_key h"
  shows "g = h"
  using grant_key_of_inj [OF assms] by (intro role_grant.equality) simp_all

text \<open>The grant table holds exactly the grants of a set.\<close>

definition grants_ok :: "role_grant set \<Rightarrow> (string, role_grant row) tbl \<Rightarrow> bool" where
  "grants_ok G t \<longleftrightarrow> t_wf t \<and> (\<forall>g \<in> G. CHR ''/'' \<notin> set (rg_user g))
     \<and> (\<forall>k x. t_get t k = Some x \<longleftrightarrow> (\<exists>g \<in> G. k = grant_key g \<and> x = Row g))"

lemma grants_ok_get: "grants_ok G t \<Longrightarrow> t_get t k = Some x \<longleftrightarrow> (\<exists>g \<in> G. k = grant_key g \<and> x = Row g)"
  unfolding grants_ok_def by blast

lemma grants_ok_clean: "grants_ok G t \<Longrightarrow> g \<in> G \<Longrightarrow> CHR ''/'' \<notin> set (rg_user g)"
  unfolding grants_ok_def by blast

lemma grants_ok_insert:
  assumes G: "grants_ok G t" and g: "CHR ''/'' \<notin> set (rg_user g)"
  shows "grants_ok (insert g G) (write_record t (grant_key g) g)"
  unfolding grants_ok_def
proof (intro conjI allI ballI)
  show "t_wf (write_record t (grant_key g) g)" using G by (simp add: grants_ok_def)
  show "CHR ''/'' \<notin> set (rg_user h)" if "h \<in> insert g G" for h
    using that g grants_ok_clean [OF G] by blast
  fix k x
  have other: "h = g" if "h \<in> G" "grant_key h = grant_key g" for h
    using grant_key_inj [OF grants_ok_clean [OF G that(1)] g that(2)] .
  show "t_get (write_record t (grant_key g) g) k = Some x \<longleftrightarrow> (\<exists>h \<in> insert g G. k = grant_key h \<and> x = Row h)"
  proof (cases "k = grant_key g")
    case True
    have "t_get (write_record t (grant_key g) g) k = Some x \<longleftrightarrow> x = Row g" by (auto simp: True)
    with True other show ?thesis by blast
  next
    case False
    then show ?thesis using grants_ok_get [OF G, of k x] by simp
  qed
qed

lemma grants_ok_remove:
  assumes G: "grants_ok G t" and g: "CHR ''/'' \<notin> set (rg_user g)"
  shows "grants_ok (G - {g}) (t_remove t (grant_key g))"
  unfolding grants_ok_def
proof (intro conjI allI ballI)
  show "t_wf (t_remove t (grant_key g))" using G by (simp add: grants_ok_def)
  show "CHR ''/'' \<notin> set (rg_user h)" if "h \<in> G - {g}" for h
    using that grants_ok_clean [OF G] by blast
  fix k x
  have other: "h = g" if "h \<in> G" "grant_key h = grant_key g" for h
    using grant_key_inj [OF grants_ok_clean [OF G that(1)] g that(2)] .
  show "t_get (t_remove t (grant_key g)) k = Some x \<longleftrightarrow> (\<exists>h \<in> G - {g}. k = grant_key h \<and> x = Row h)"
  proof (cases "k = grant_key g")
    case True
    then have "t_get (t_remove t (grant_key g)) k = None" by simp
    with True other show ?thesis by auto
  next
    case False
    then have "t_get (t_remove t (grant_key g)) k = Some x \<longleftrightarrow> (\<exists>h \<in> G. k = grant_key h \<and> x = Row h)"
      using grants_ok_get [OF G, of k x] by simp
    with False show ?thesis by blast
  qed
qed

lemma grants_ok_range:
  assumes G: "grants_ok G t" and uid: "CHR ''/'' \<notin> set uid"
  shows "(k, x) \<in> set (range_between t (uid @ ''/'') (uid @ ''0''))
    \<longleftrightarrow> (\<exists>g \<in> G. rg_user g = uid \<and> k = grant_key g \<and> x = Row g)"
proof -
  have "(k, x) \<in> set (range_between t (uid @ ''/'') (uid @ ''0''))
      \<longleftrightarrow> t_get t k = Some x \<and> starts_with k (uid @ ''/'')"
    using G t_get_iff [of t k x] range_slash_zero [of uid k] by (auto simp: range_between_def grants_ok_def)
  also have "\<dots> \<longleftrightarrow> (\<exists>g \<in> G. k = grant_key g \<and> x = Row g \<and> starts_with k (uid @ ''/''))"
    using grants_ok_get [OF G] by blast
  also have "\<dots> \<longleftrightarrow> (\<exists>g \<in> G. rg_user g = uid \<and> k = grant_key g \<and> x = Row g)"
  proof -
    have "starts_with (grant_key g) (uid @ ''/'') \<longleftrightarrow> rg_user g = uid" if "g \<in> G" for g
      using slash_range [OF uid grants_ok_clean [OF G that]] by (simp add: grant_key_of_def)
    then show ?thesis by blast
  qed
  finally show ?thesis .
qed

lemma user_role_grants_exact:
  assumes G: "grants_ok G (role_grant_table s)" and uid: "CHR ''/'' \<notin> set uid"
  shows "\<exists>gs. user_role_grants s uid = Inr gs \<and> distinct gs \<and> set gs = {g \<in> G. rg_user g = uid}"
proof -
  define T where "T = range_between (role_grant_table s) (uid @ ''/'') (uid @ ''0'')"
  have mem: "(k, x) \<in> set T \<longleftrightarrow> (\<exists>g \<in> G. rg_user g = uid \<and> k = grant_key g \<and> x = Row g)" for k x
    unfolding T_def by (rule grants_ok_range [OF G uid])
  define gs where "gs = map (\<lambda>e. case snd e of Row g \<Rightarrow> g) T"
  have row: "e = (grant_key (case snd e of Row g \<Rightarrow> g), Row (case snd e of Row g \<Rightarrow> g))" if "e \<in> set T" for e
    using that mem [of "fst e" "snd e"] by (auto simp: prod_eq_iff)
  have gs: "map snd T = map Row gs" and keys: "map fst T = map grant_key gs"
    using row unfolding gs_def by (force simp: prod_eq_iff)+
  have "set T = (\<lambda>g. (grant_key g, Row g)) ` {g \<in> G. rg_user g = uid}" using mem by (auto simp: image_iff)
  then have "Row ` set gs = Row ` {g \<in> G. rg_user g = uid}"
    using arg_cong [OF gs, of set] by (simp add: image_image)
  then have set: "set gs = {g \<in> G. rg_user g = uid}" by (simp add: inj_image_eq_iff inj_def)
  have "distinct (map fst T)"
    using G t_wf_distinct unfolding T_def grants_ok_def range_between_def by (blast intro: distinct_map_filter)
  then have "distinct gs" unfolding keys by (simp add: distinct_map)
  with gs set show ?thesis by (auto simp: user_role_grants_def T_def)
qed

section \<open>Runs\<close>

text \<open>
  The operations of the stores and of the two services in any order.  The set is the abstract state
  of the grants: what was granted and not revoked since.  A fresh identifier is a UUID: it is not in
  the table yet and has no slash.
\<close>

inductive account_run ::
    "(string \<Rightarrow> string) \<Rightarrow> (string \<Rightarrow> string) \<Rightarrow> role_grant set \<Rightarrow> meta_store \<Rightarrow> bool" for trim_fn canon_fn where
  fresh: "account_run trim_fn canon_fn {} open_new"
| created: "account_run trim_fn canon_fn G s \<Longrightarrow> t_get (user_table s) uid = None \<Longrightarrow> CHR ''/'' \<notin> set uid
    \<Longrightarrow> create_user trim_fn canon_fn uid s d = Inr (u, s') \<Longrightarrow> account_run trim_fn canon_fn G s'"
| renamed: "account_run trim_fn canon_fn G s \<Longrightarrow> rename_user trim_fn canon_fn s uid d = Inr (u, s')
    \<Longrightarrow> account_run trim_fn canon_fn G s'"
| state_set: "account_run trim_fn canon_fn G s \<Longrightarrow> set_user_state s uid st = Inr (u, s')
    \<Longrightarrow> account_run trim_fn canon_fn G s'"
| password_set: "account_run trim_fn canon_fn G s \<Longrightarrow> set_user_password s uid v = Inr s'
    \<Longrightarrow> account_run trim_fn canon_fn G s'"
| password_cleared: "account_run trim_fn canon_fn G s \<Longrightarrow> clear_user_password s uid = Inr s'
    \<Longrightarrow> account_run trim_fn canon_fn G s'"
| authenticated: "account_run trim_fn canon_fn G s
    \<Longrightarrow> authenticate trim_fn canon_fn check hashed s d p = Inr (r, s') \<Longrightarrow> account_run trim_fn canon_fn G s'"
| granted: "account_run trim_fn canon_fn G s \<Longrightarrow> grant_role s uid role sc = Inr (g, s')
    \<Longrightarrow> account_run trim_fn canon_fn (insert g G) s'"
| revoked: "account_run trim_fn canon_fn G s \<Longrightarrow> CHR ''/'' \<notin> set uid \<Longrightarrow> revoke_role s uid role sc = (b, s')
    \<Longrightarrow> account_run trim_fn canon_fn (G - {\<lparr>rg_user = uid, rg_role = role, rg_scope = sc\<rparr>}) s'"

definition account_inv :: "role_grant set \<Rightarrow> meta_store \<Rightarrow> bool" where
  "account_inv G s \<longleftrightarrow> user_inv s \<and> grants_ok G (role_grant_table s) \<and> rows_ok (user_verifier_table s)"

lemma verifiers_frame:
  "create_user trim_fn canon_fn uid s d = Inr (u, s') \<Longrightarrow> user_verifier_table s' = user_verifier_table s"
  by (auto simp: create_user_def rbind_eq_Inr Let_def write_user_def append_event_def split: if_splits)

lemma rename_verifiers:
  assumes "rename_user trim_fn canon_fn s uid d = Inr (u, s')"
  shows "user_verifier_table s' = user_verifier_table s"
proof -
  from assms obtain name v where "user_name_new trim_fn canon_fn d = Inr name" "read_user s uid = Inr (Some v)"
    by (auto simp: rename_user_def rbind_eq_Inr split: option.splits)
  with assms show ?thesis
    by (auto simp: rename_user_def rbind_eq_Inr Let_def write_user_def append_event_def split: if_splits)
qed

lemma state_verifiers:
  assumes "set_user_state s uid st = Inr (u, s')"
  shows "user_verifier_table s' = user_verifier_table s"
proof -
  from assms obtain v where "read_user s uid = Inr (Some v)"
    by (auto simp: set_user_state_def rbind_eq_Inr split: option.splits)
  with assms show ?thesis
    by (auto simp: set_user_state_def rbind_eq_Inr Let_def write_user_def append_event_def split: if_splits)
qed

lemma password_verifiers:
  "set_user_password s uid v = Inr s' \<Longrightarrow> rows_ok (user_verifier_table s) \<Longrightarrow> rows_ok (user_verifier_table s')"
  "clear_user_password s uid = Inr s' \<Longrightarrow> rows_ok (user_verifier_table s) \<Longrightarrow> rows_ok (user_verifier_table s')"
  by (auto simp: set_user_password_def clear_user_password_def rbind_eq_Inr split: if_splits)

lemma authenticate_verifiers:
  assumes "authenticate trim_fn canon_fn check hashed s d p = Inr (r, s')" "rows_ok (user_verifier_table s)"
  shows "rows_ok (user_verifier_table s')"
  using assms(1) by (cases rule: authenticate_cases) (use assms(2) password_verifiers(1) in auto)

lemma grant_role_step:
  assumes "account_inv G s" "grant_role s uid role sc = Inr (g, s')"
  shows "account_inv (insert g G) s'"
proof -
  from assms(2) have g: "g = \<lparr>rg_user = uid, rg_role = role, rg_scope = sc\<rparr>"
    and s': "s' = s\<lparr>role_grant_table := write_record (role_grant_table s) (grant_key g) g\<rparr>"
    and "t_get (user_table s) uid \<noteq> None"
    by (auto simp: grant_role_def user_exists_def Let_def split: if_splits)
  moreover from this assms(1) have "CHR ''/'' \<notin> set uid"
    unfolding account_inv_def user_inv_def users_ok_def by (metis not_None_eq row.exhaust rows_ok_get)
  ultimately show ?thesis
    using assms(1) grants_ok_insert [of G "role_grant_table s" g] user_inv_frame [of s s']
    by (simp add: account_inv_def same_accounts_def)
qed

lemma revoke_role_step:
  assumes "account_inv G s" "CHR ''/'' \<notin> set uid" "revoke_role s uid role sc = (b, s')"
  shows "account_inv (G - {\<lparr>rg_user = uid, rg_role = role, rg_scope = sc\<rparr>}) s'"
  using assms grants_ok_remove [of G "role_grant_table s" "\<lparr>rg_user = uid, rg_role = role, rg_scope = sc\<rparr>"]
    user_inv_frame [of s s'] by (auto simp: account_inv_def same_accounts_def revoke_role_def)

lemma account_inv_frame:
  assumes "account_inv G s" "user_inv s'" "role_grant_table s' = role_grant_table s"
    "rows_ok (user_verifier_table s) \<Longrightarrow> rows_ok (user_verifier_table s')"
  shows "account_inv G s'"
  using assms by (simp add: account_inv_def)

lemma account_run_inv: "account_run trim_fn canon_fn G s \<Longrightarrow> account_inv G s"
proof (induction rule: account_run.induct)
  case fresh
  show ?case using user_inv_open_new by (simp add: account_inv_def grants_ok_def open_new_def)
next
  case (created G s uid d u s')
  then show ?case
    using account_inv_frame [OF created.IH] create_user_inv create_frame verifiers_frame
    unfolding account_inv_def by metis
next
  case (renamed G s uid d u s')
  then show ?case
    using account_inv_frame [OF renamed.IH] rename_user_inv rename_frame rename_verifiers
    unfolding account_inv_def by metis
next
  case (state_set G s uid st u s')
  then show ?case
    using account_inv_frame [OF state_set.IH] set_user_state_inv state_frame state_verifiers
    unfolding account_inv_def by metis
next
  case (password_set G s uid v s')
  then show ?case
    using password_frame(1) [OF password_set.hyps(2)] password_verifiers(1) [OF password_set.hyps(2)]
      user_inv_frame [of s s'] by (simp add: account_inv_def)
next
  case (password_cleared G s uid s')
  then show ?case
    using password_frame(2) [OF password_cleared.hyps(2)] password_verifiers(2) [OF password_cleared.hyps(2)]
      user_inv_frame [of s s'] by (simp add: account_inv_def)
next
  case (authenticated G s check hashed d p r s')
  then show ?case
    using authenticate_frame [OF authenticated.hyps(2)] authenticate_verifiers [OF authenticated.hyps(2)]
      user_inv_frame [of s s'] by (simp add: account_inv_def)
next
  case (granted G s uid role sc g s')
  then show ?case by (blast intro: grant_role_step)
next
  case (revoked G s uid role sc b s')
  then show ?case by (blast intro: revoke_role_step)
qed

section \<open>Reading a history\<close>

lemma table_range_values:
  assumes "t_wf t" "\<And>e. e \<in> set (filter P t) \<Longrightarrow> fst e \<in> key ` set ns"
    "\<And>n. n \<in> set ns \<Longrightarrow> t_get t (key n) \<noteq> None \<and> P (key n, the (t_get t (key n)))"
    "sorted_wrt (<) (map key ns)"
  shows "map snd (filter P t) = map (\<lambda>n. the (t_get t (key n))) ns"
proof -
  have "set (map fst (filter P t)) = set (map key ns)"
  proof
    show "set (map key ns) \<subseteq> set (map fst (filter P t))"
    proof
      fix k assume "k \<in> set (map key ns)"
      then obtain n where n: "n \<in> set ns" "k = key n" by auto
      with assms(3) obtain v where "t_get t k = Some v" "P (k, v)" by fastforce
      then show "k \<in> set (map fst (filter P t))" using t_get_mem [of t k v] by force
    qed
  qed (use assms(2) in force)
  moreover have "sorted_wrt (<) (map fst (filter P t))"
    using assms(1) unfolding t_wf_def sorted_wrt_map by (rule sorted_wrt_filter)
  ultimately have keys: "map fst (filter P t) = map key ns"
    using assms(4) by (metis strict_sorted_equal)
  have "map snd (filter P t) = map (\<lambda>k. the (t_get t k)) (map fst (filter P t))"
    by (auto simp: comp_def simp flip: t_get_iff [OF assms(1)])
  then show ?thesis unfolding keys by (simp add: comp_def)
qed

lemma event_key_less:
  "m \<le> u64_max \<Longrightarrow> n \<le> u64_max \<Longrightarrow> event_key uid m < event_key uid n \<longleftrightarrow> m < n"
  unfolding event_key_def by (induction uid) (simp_all add: dec20_less_iff)

lemma user_event_row:
  assumes "user_inv s" "t_get (user_table s) uid = Some (Row u)" "1 \<le> n" "n \<le> su_revision u"
  shows "t_get (user_event_table s) (event_key uid n) = Some (Row (user_event s uid n))
    \<and> ue_user_id (user_event s uid n) = uid \<and> ue_sequence (user_event s uid n) = n"
proof -
  have E: "events_ok (user_event_table s) (user_table s)" and U: "users_ok (user_table s)"
    using assms(1) by (simp_all add: user_inv_def)
  from E assms(2-4) obtain x where x: "t_get (user_event_table s) (event_key uid n) = Some x"
    unfolding events_ok_def by blast
  with E obtain w v m e where w: "t_get (user_table s) w = Some (Row v)" "event_key uid n = event_key w m"
    "m \<le> su_revision v" "x = Row e" "ue_user_id e = w" "ue_sequence e = m"
    unfolding events_ok_def by blast
  from U assms(2,4) w(1,3) have "CHR ''/'' \<notin> set uid" "CHR ''/'' \<notin> set w" "n \<le> u64_max" "m \<le> u64_max"
    unfolding users_ok_def by (blast, blast, blast intro: le_trans, blast intro: le_trans)
  then have "uid = w" "n = m" using event_key_inj w(2) by blast+
  with x w show ?thesis by (simp add: user_event_def)
qed

lemma user_events_exact:
  assumes I: "user_inv s" and u: "t_get (user_table s) uid = Some (Row u)"
  shows "user_events s uid = Inr (map (user_event s uid) [1..<Suc (su_revision u)])"
proof -
  let ?t = "user_event_table s" and ?ns = "[1..<Suc (su_revision u)]"
  let ?P = "\<lambda>e. uid @ ''/'' \<le> fst e \<and> fst e < uid @ ''/~''"
  have E: "events_ok ?t (user_table s)" and U: "users_ok (user_table s)" using I by (simp_all add: user_inv_def)
  have bound: "su_revision u \<le> u64_max" and clean: "CHR ''/'' \<notin> set uid"
    using U u unfolding users_ok_def by blast+
  have "map snd (filter ?P ?t) = map (\<lambda>n. the (t_get ?t (event_key uid n))) ?ns"
  proof (rule table_range_values)
    show wf: "t_wf ?t" using E by (simp add: events_ok_def)
    show "fst e \<in> event_key uid ` set ?ns" if "e \<in> set (filter ?P ?t)" for e
    proof -
      from that have "t_get ?t (fst e) = Some (snd e)" "?P e" using t_get_iff [OF wf] by auto
      with E obtain w v n where w: "t_get (user_table s) w = Some (Row v)" "fst e = event_key w n" "1 \<le> n"
        "n \<le> su_revision v" unfolding events_ok_def by blast
      from w(1) U have "CHR ''/'' \<notin> set w" unfolding users_ok_def by blast
      with \<open>?P e\<close> have "w = uid" unfolding w(2) using event_key_range [OF clean, of w n] by simp
      with w u have "n \<in> set ?ns" by auto
      with w(2) \<open>w = uid\<close> show ?thesis by blast
    qed
    show "t_get ?t (event_key uid n) \<noteq> None \<and> ?P (event_key uid n, the (t_get ?t (event_key uid n)))"
      if "n \<in> set ?ns" for n
      using user_event_row [OF I u, of n] that event_key_range [OF clean clean, of n] by auto
    have "sorted_wrt (\<lambda>m n. event_key uid m < event_key uid n) ?ns"
      using event_key_less bound by (intro sorted_wrt_mono_rel [OF _ sorted_wrt_upt]) auto
    then show "sorted_wrt (<) (map (event_key uid) ?ns)" by (simp add: sorted_wrt_map)
  qed
  also have "\<dots> = map Row (map (user_event s uid) ?ns)"
    using user_event_row [OF I u] by (auto simp del: upt_Suc)
  finally show ?thesis unfolding user_events_def range_between_def by (simp only: decode_all_map)
qed

section \<open>Properties\<close>

lemma get_user_row: "get_user s uid = Inr (Some u) \<longleftrightarrow> t_get (user_table s) uid = Some (Row u)"
  by (simp add: get_user_def read_record_Inr_Some)

lemma named_lookup_ok:
  assumes "users_ok (user_table s)"
  shows "get_user_by_name trim_fn canon_fn s d \<noteq> Inl (UserStore e)"
proof (cases "user_name_new trim_fn canon_fn d")
  case (Inr name)
  obtain row where "\<And>uid. read_record (user_table s) uid = Inr (row uid)"
    using assms read_record_ok [of "user_table s"] unfolding users_ok_def by metis
  with Inr show ?thesis by (simp add: get_user_by_name_def split: option.split)
qed (simp add: get_user_by_name_def)

text \<open>C32: The lifecycle history of an account is complete and in order: its events carry the sequence
  numbers one to the account's revision, all name the account, and replaying them from nothing gives
  the display name and the state the account has.\<close>

theorem user_history_replays:
  assumes "account_run trim_fn canon_fn G s" "get_user s uid = Inr (Some u)"
  shows "\<exists>es. user_events s uid = Inr es \<and> map ue_sequence es = [1..<Suc (su_revision u)]
    \<and> list_all (\<lambda>e. ue_user_id e = uid) es
    \<and> replay_events es = Some (un_display (su_name u), su_state u)"
proof -
  from account_run_inv [OF assms(1)] have I: "user_inv s" by (simp add: account_inv_def)
  from assms(2) have u: "t_get (user_table s) uid = Some (Row u)" by (simp add: get_user_row)
  have "map ue_sequence (map (user_event s uid) [1..<Suc (su_revision u)]) = [1..<Suc (su_revision u)]"
    using user_event_row [OF I u] by (auto simp: comp_def simp del: upt_Suc intro!: map_idI)
  moreover have "list_all (\<lambda>e. ue_user_id e = uid) (map (user_event s uid) [1..<Suc (su_revision u)])"
    using user_event_row [OF I u] by (auto simp: list_all_iff simp del: upt_Suc)
  moreover have "replay_events (map (user_event s uid) [1..<Suc (su_revision u)])
      = Some (un_display (su_name u), su_state u)"
    using I u unfolding user_inv_def history_ok_def by blast
  ultimately show ?thesis using user_events_exact [OF I u] by blast
qed

text \<open>A name resolves to exactly the account whose current canonical name it has, two accounts never
  share a canonical name, and the lookup meets no undecodable or dangling row.\<close>

theorem user_names_resolve:
  assumes "account_run trim_fn canon_fn G s"
  shows "(get_user_by_name trim_fn canon_fn s d = Inr (Some u) \<longleftrightarrow>
      (\<exists>name. user_name_new trim_fn canon_fn d = Inr name \<and> get_user s (su_id u) = Inr (Some u)
        \<and> un_canonical (su_name u) = un_canonical name))
    \<and> (\<forall>e. get_user_by_name trim_fn canon_fn s d \<noteq> Inl (UserStore e))
    \<and> (get_user s a = Inr (Some v) \<and> get_user s b = Inr (Some w)
        \<and> un_canonical (su_name v) = un_canonical (su_name w) \<longrightarrow> a = b)"
proof (intro conjI allI impI)
  from account_run_inv [OF assms] have U: "users_ok (user_table s)"
    and N: "names_ok (user_name_table s) (user_table s)" by (simp_all add: account_inv_def user_inv_def)
  have index: "t_get (user_name_table s) c = Some uid \<longleftrightarrow>
      (\<exists>u. get_user s uid = Inr (Some u) \<and> un_canonical (su_name u) = c)" for c uid
    unfolding get_user_row using N unfolding names_ok_def by blast
  have own: "su_id u = uid" if "get_user s uid = Inr (Some u)" for uid u
    using that U unfolding get_user_row users_ok_def by blast
  show "get_user_by_name trim_fn canon_fn s d = Inr (Some u) \<longleftrightarrow>
      (\<exists>name. user_name_new trim_fn canon_fn d = Inr name \<and> get_user s (su_id u) = Inr (Some u)
        \<and> un_canonical (su_name u) = un_canonical name)"
  proof (cases "user_name_new trim_fn canon_fn d")
    case (Inr name)
    then have "get_user_by_name trim_fn canon_fn s d = Inr (Some u) \<longleftrightarrow>
        (\<exists>uid. t_get (user_name_table s) (un_canonical name) = Some uid \<and> get_user s uid = Inr (Some u))"
      by (simp add: get_user_by_name_def get_user_def split: option.split)
    also have "\<dots> \<longleftrightarrow> get_user s (su_id u) = Inr (Some u) \<and> un_canonical (su_name u) = un_canonical name"
      unfolding index using own by (metis sum.inject(2) option.inject)
    finally show ?thesis using Inr by simp
  qed (simp add: get_user_by_name_def)
  show "get_user_by_name trim_fn canon_fn s d \<noteq> Inl (UserStore e)" for e by (rule named_lookup_ok [OF U])
  assume "get_user s a = Inr (Some v) \<and> get_user s b = Inr (Some w)
    \<and> un_canonical (su_name v) = un_canonical (su_name w)"
  then have "t_get (user_name_table s) (un_canonical (su_name w)) = Some a"
    "t_get (user_name_table s) (un_canonical (su_name w)) = Some b" unfolding index by blast+
  then show "a = b" by simp
qed

text \<open>C33: Password authentication always answers, names an account exactly when the name resolves to an
  active account with a verifier that accepts the password, and whatever it answers leaves every
  account, name, event and grant as it was.\<close>

theorem authenticate_exact:
  assumes "account_run trim_fn canon_fn G s"
  shows "\<exists>r s'. authenticate trim_fn canon_fn check hashed s d p = Inr (r, s')
    \<and> (r = Some uid \<longleftrightarrow> (\<exists>u v stale. get_user_by_name trim_fn canon_fn s d = Inr (Some u) \<and> su_id u = uid
        \<and> su_state u = Active \<and> get_user_password s uid = Inr (Some v) \<and> check v p = Accepted stale))
    \<and> same_accounts s s' \<and> role_grant_table s' = role_grant_table s"
proof -
  from account_run_inv [OF assms] have U: "users_ok (user_table s)" and V: "rows_ok (user_verifier_table s)"
    by (simp_all add: account_inv_def user_inv_def)
  have named: "get_user_by_name trim_fn canon_fn s d \<noteq> Inl (UserStore e)" for e by (rule named_lookup_ok [OF U])
  obtain verifier where verifier: "\<And>uid. get_user_password s uid = Inr (verifier uid)"
    using read_record_ok [OF V] unfolding get_user_password_def by metis
  have "\<exists>r s'. authenticate trim_fn canon_fn check hashed s d p = Inr (r, s')"
    using named by (auto simp: authenticate_def verifier
      split: sum.split option.split user_store_error.split password_check.split)
  then obtain r s' where r: "authenticate trim_fn canon_fn check hashed s d p = Inr (r, s')" by blast
  have "r = Some uid" if "get_user_by_name trim_fn canon_fn s d = Inr (Some u)" "su_id u = uid"
      "su_state u = Active" "get_user_password s uid = Inr (Some v)" "check v p = Accepted stale" for u v stale
    using r that by (simp add: authenticate_def)
  moreover have "\<exists>u v stale. get_user_by_name trim_fn canon_fn s d = Inr (Some u) \<and> su_id u = uid
        \<and> su_state u = Active \<and> get_user_password s uid = Inr (Some v) \<and> check v p = Accepted stale"
    if "r = Some uid"
    using r by (cases rule: authenticate_cases) (use that in auto)
  ultimately show ?thesis using r authenticate_frame [OF r] by blast
qed

text \<open>C34: The grant rows refine a set of grants: reading a user's grants lists each grant of that user that
  was made and not revoked exactly once, and the authorization service allows an action exactly when
  one of them permits it.\<close>

theorem authorize_user_refines:
  assumes "account_run trim_fn canon_fn G s" "CHR ''/'' \<notin> set uid"
  shows "(\<exists>gs. user_role_grants s uid = Inr gs \<and> distinct gs \<and> set gs = {g \<in> G. rg_user g = uid})
    \<and> authorize_user s uid scope resource =
      (if \<exists>g \<in> G. rg_user g = uid \<and> permits g scope resource then AllowDecision else DenyDecision NoGrant)"
proof -
  from account_run_inv [OF assms(1)] have "grants_ok G (role_grant_table s)" by (simp add: account_inv_def)
  from user_role_grants_exact [OF this assms(2)] obtain gs where
    "user_role_grants s uid = Inr gs" "distinct gs" "set gs = {g \<in> G. rg_user g = uid}" by blast
  then show ?thesis by (auto simp: authorize_user_def grants_permit_iff)
qed

section \<open>A sample account\<close>

text \<open>Ann is created, renamed to Bea, given a password and made a reader of one repository.\<close>

definition sample_name :: "string \<Rightarrow> user_name" where
  "sample_name n = \<lparr>un_display = n, un_canonical = n\<rparr>"

definition sample_verifier :: password_verifier where
  "sample_verifier = ''phc''"

definition sample_grant :: role_grant where
  "sample_grant = \<lparr>rg_user = ''u1'', rg_role = RepositoryReader, rg_scope = RepositoryReach ''main''\<rparr>"

definition sample_user :: server_user where
  "sample_user = \<lparr>su_id = ''u1'', su_name = sample_name ''Bea'', su_state = Active, su_revision = 2\<rparr>"

definition sample_created :: meta_store where
  "sample_created = snd (projr (create_user (\<lambda>x. x) (\<lambda>x. x) ''u1'' open_new ''Ann''))"

definition sample_renamed :: meta_store where
  "sample_renamed = snd (projr (rename_user (\<lambda>x. x) (\<lambda>x. x) sample_created ''u1'' ''Bea''))"

definition sample_enrolled :: meta_store where
  "sample_enrolled = projr (set_user_password sample_renamed ''u1'' sample_verifier)"

definition account_sample :: meta_store where
  "account_sample = snd (projr (grant_role sample_enrolled ''u1'' RepositoryReader (RepositoryReach ''main'')))"

lemmas sample_ops = t_get_Cons create_user_def rename_user_def set_user_password_def grant_role_def user_name_new_def
  read_user_def read_record_def write_user_def append_event_def user_exists_def sample_name_def
  add_u64_def checked_add_u64_def u64_max_def open_new_def Let_def

lemma sample_created_eq: "create_user (\<lambda>x. x) (\<lambda>x. x) ''u1'' open_new ''Ann''
   = Inr (\<lparr>su_id = ''u1'', su_name = sample_name ''Ann'', su_state = Active, su_revision = 1\<rparr>, sample_created)"
  by (simp add: sample_created_def sample_ops)

lemma sample_renamed_eq: "rename_user (\<lambda>x. x) (\<lambda>x. x) sample_created ''u1'' ''Bea'' = Inr (sample_user, sample_renamed)"
  by (simp add: sample_renamed_def sample_created_def sample_user_def sample_ops)

lemma sample_enrolled_eq: "set_user_password sample_renamed ''u1'' sample_verifier = Inr sample_enrolled"
  by (simp add: sample_enrolled_def sample_renamed_def sample_created_def sample_ops)

lemma account_sample_eq:
  "grant_role sample_enrolled ''u1'' RepositoryReader (RepositoryReach ''main'') = Inr (sample_grant, account_sample)"
  by (simp add: account_sample_def sample_enrolled_def sample_renamed_def sample_created_def sample_grant_def sample_ops)

lemma account_sample_run: "account_run (\<lambda>x. x) (\<lambda>x. x) {sample_grant} account_sample"
proof -
  have "account_run (\<lambda>x. x) (\<lambda>x. x) {} sample_created"
    by (rule account_run.created [OF account_run.fresh _ _ sample_created_eq]) (simp_all add: open_new_def)
  then have "account_run (\<lambda>x. x) (\<lambda>x. x) {} sample_renamed" using sample_renamed_eq by (rule account_run.renamed)
  then have "account_run (\<lambda>x. x) (\<lambda>x. x) {} sample_enrolled" using sample_enrolled_eq by (rule account_run.password_set)
  then show ?thesis using account_sample_eq by (rule account_run.granted)
qed

lemma account_sample_user: "get_user account_sample ''u1'' = Inr (Some sample_user)"
  by (simp add: get_user_def account_sample_def sample_enrolled_def sample_renamed_def sample_created_def
    sample_user_def sample_ops)

lemma account_sample_password: "get_user_password account_sample ''u1'' = Inr (Some sample_verifier)"
  by (simp add: get_user_password_def account_sample_def sample_enrolled_def sample_renamed_def sample_created_def
    sample_ops)

theorem user_history_replays_witness:
  "\<exists>es. user_events account_sample ''u1'' = Inr es \<and> map ue_sequence es = [1, 2]
    \<and> replay_events es = Some (''Bea'', Active)"
  using user_history_replays [OF account_sample_run account_sample_user]
  by (auto simp: sample_user_def sample_name_def upt_rec)

theorem user_names_resolve_witness:
  "get_user_by_name (\<lambda>x. x) (\<lambda>x. x) account_sample ''Bea'' = Inr (Some sample_user)
    \<and> get_user_by_name (\<lambda>x. x) (\<lambda>x. x) account_sample ''Ann'' \<noteq> Inr (Some sample_user)"
  using user_names_resolve [OF account_sample_run, of "''Bea''" sample_user]
    user_names_resolve [OF account_sample_run, of "''Ann''" sample_user]
  by (simp add: account_sample_user sample_user_def sample_name_def user_name_new_def Let_def)

lemma account_sample_name: "get_user_by_name (\<lambda>x. x) (\<lambda>x. x) account_sample ''Bea'' = Inr (Some sample_user)"
  by (simp add: get_user_by_name_def account_sample_def sample_enrolled_def sample_renamed_def sample_created_def
    sample_user_def sample_ops)

theorem authenticate_exact_witness:
  "\<exists>s'. authenticate (\<lambda>x. x) (\<lambda>x. x) (\<lambda>v p. if p = ''pw'' then Accepted False else Rejected) None account_sample ''Bea'' ''pw''
    = Inr (Some ''u1'', s')"
  using authenticate_exact [OF account_sample_run,
    of "\<lambda>v p. if p = ''pw'' then Accepted False else Rejected" None "''Bea''" "''pw''" "''u1''"]
  by (auto simp: account_sample_name account_sample_password sample_user_def)

theorem authorize_user_refines_witness:
  "authorize_user account_sample ''u1'' RepositoryRead (RepositoryRes ''main'') = AllowDecision
    \<and> authorize_user account_sample ''u1'' RepositoryWrite (RepositoryRes ''main'') = DenyDecision NoGrant"
  using authorize_user_refines [OF account_sample_run, of "''u1''" RepositoryRead "RepositoryRes ''main''"]
    authorize_user_refines [OF account_sample_run, of "''u1''" RepositoryWrite "RepositoryRes ''main''"]
  by (simp add: sample_grant_def permits_def carries_def)

end
