(* ===== verification/PolicyDecisions.thy ===== *)
theory PolicyDecisions
  imports Driver Sequences
begin

text \<open>
  The bounded audit history of policy decisions and the current decision per subject and action,
  \<open>crates/peryx-storage/src/meta/policy_decision.rs\<close>.  The key of a subject is its JSON text in the
  store; only equality of keys matters there, so the model keys the table by the subject itself.
\<close>

definition MAX_DECISION_HISTORY :: nat where "MAX_DECISION_HISTORY = 10000"

definition MAX_QUERY_LIMIT :: nat where "MAX_QUERY_LIMIT = 100"

definition MAX_REASON_BYTES :: nat where "MAX_REASON_BYTES = 2048"

definition MAX_SUBJECT_BYTES :: nat where "MAX_SUBJECT_BYTES = 512"

record new_policy_decision =
  np_repository :: string
  np_project :: string
  np_version :: "string option"
  np_filename :: "string option"
  np_source :: "string option"
  np_action :: policy_action
  np_state :: policy_decision_state
  np_rule :: "string option"
  np_reason :: "string option"
  np_evaluated_at_unix :: int
  np_next_eligible_at_unix :: "int option"

record policy_decision_item =
  pi_record :: policy_decision_record
  pi_fresh :: bool

record policy_decision_query =
  pq_repository :: "string option"
  pq_state :: "policy_decision_state option"
  pq_rule :: "string option"
  pq_source :: "string option"
  pq_evaluated_from_unix :: "int option"
  pq_evaluated_to_unix :: "int option"
  pq_cursor :: "string option"
  pq_limit :: nat

definition policy_decision_query_default :: policy_decision_query where
  "policy_decision_query_default = \<lparr>pq_repository = None, pq_state = None, pq_rule = None, pq_source = None,
     pq_evaluated_from_unix = None, pq_evaluated_to_unix = None, pq_cursor = None, pq_limit = 25\<rparr>"

record policy_decision_page =
  pp_decisions :: "policy_decision_item list"
  pp_next_cursor :: "string option"

text \<open>\<open>DecisionPanic\<close> is the \<open>expect\<close> on a current pointer without history.\<close>

datatype policy_decision_store_error =
    DecisionStore meta_error
  | FieldTooLong string nat
  | DecisionPanic

datatype policy_decision_query_error =
    QueryStore meta_error
  | InvalidLimit
  | InvalidCursor

section \<open>Generations\<close>

definition advance_policy_generation ::
    "meta_store \<Rightarrow> string \<Rightarrow> meta_error + (policy_input_generation_row \<times> meta_store)" where
  "advance_policy_generation s repository =
     rbind (read_record (policy_input_generation_table s) repository) (\<lambda>found.
     let generation = (unwrap_or generation_default found)\<lparr>pg_repository := current_serial s\<rparr> in
     rbind (add_u64 (pg_policy generation) 1) (\<lambda>policy.
     let generation = generation\<lparr>pg_policy := policy\<rparr> in
     Inr (generation, s\<lparr>policy_input_generation_table :=
       write_record (policy_input_generation_table s) repository generation\<rparr>)))"

definition policy_input_generation :: "meta_store \<Rightarrow> string \<Rightarrow> meta_error + policy_input_generation_row" where
  "policy_input_generation s repository =
     rbind (read_record (policy_input_generation_table s) repository) (\<lambda>found.
     Inr (unwrap_or generation_default found))"

text \<open>The stored generation with the journal's serial as its repository part.\<close>

definition input_generation :: "meta_store \<Rightarrow> string \<Rightarrow> meta_error + policy_input_generation_row" where
  "input_generation s repository =
     rbind (read_record (policy_input_generation_table s) repository) (\<lambda>found.
     Inr ((unwrap_or generation_default found)\<lparr>pg_repository := current_serial s\<rparr>))"

section \<open>Validation\<close>

fun check_fields :: "(string \<times> string option) list \<Rightarrow> policy_decision_store_error + unit" where
  "check_fields [] = Inr ()"
| "check_fields ((field, v) # rest) =
     (if is_some_and v (\<lambda>v. length v > MAX_SUBJECT_BYTES) then Inl (FieldTooLong field MAX_SUBJECT_BYTES)
      else check_fields rest)"

definition validate_subject :: "new_policy_decision \<Rightarrow> policy_decision_store_error + unit" where
  "validate_subject d = check_fields
     [(''repository'', Some (np_repository d)), (''project'', Some (np_project d)),
      (''version'', np_version d), (''filename'', np_filename d), (''source'', np_source d)]"

definition validate_decision :: "new_policy_decision \<Rightarrow> policy_decision_store_error + unit" where
  "validate_decision d =
     rbind (validate_subject d) (\<lambda>_.
     if is_some_and (np_rule d) (\<lambda>rule. length rule > MAX_SUBJECT_BYTES)
     then Inl (FieldTooLong ''rule'' MAX_SUBJECT_BYTES)
     else if is_some_and (np_reason d) (\<lambda>reason. length reason > MAX_REASON_BYTES)
     then Inl (FieldTooLong ''reason'' MAX_REASON_BYTES)
     else Inr ())"

definition subject_key :: "new_policy_decision \<Rightarrow> policy_decision_subject" where
  "subject_key d = (np_repository d, np_project d, np_version d, np_filename d, np_source d, np_action d)"

section \<open>Recording\<close>

definition prune_history :: "meta_store \<Rightarrow> meta_store" where
  "prune_history s =
     (if length (policy_decision_table s) > MAX_DECISION_HISTORY then
        case policy_decision_table s of
          [] \<Rightarrow> s
        | (stale_id, _) # _ \<Rightarrow>
            let stale_subject = t_get (policy_decision_current_id s) stale_id;
                s = s\<lparr>policy_decision_table := t_remove (policy_decision_table s) stale_id\<rparr> in
            (case stale_subject of
               None \<Rightarrow> s
             | Some subject \<Rightarrow>
                 s\<lparr>policy_decision_current := t_remove (policy_decision_current s) subject,
                   policy_decision_current_id := t_remove (policy_decision_current_id s) stale_id\<rparr>)
      else s)"

definition decision_record ::
    "uuid \<Rightarrow> new_policy_decision \<Rightarrow> policy_input_generation_row \<Rightarrow> policy_decision_record" where
  "decision_record uid d generation =
     \<lparr>pr_id = uid, pr_repository = np_repository d, pr_project = np_project d, pr_version = np_version d,
      pr_filename = np_filename d, pr_source = np_source d, pr_action = np_action d, pr_state = np_state d,
      pr_rule = np_rule d, pr_reason = np_reason d, pr_evaluated_at_unix = np_evaluated_at_unix d,
      pr_input_generation = generation, pr_next_eligible_at_unix = np_next_eligible_at_unix d\<rparr>"

definition publish_decision ::
    "meta_store \<Rightarrow> string \<Rightarrow> policy_decision_subject \<Rightarrow> policy_decision_record \<Rightarrow> meta_store" where
  "publish_decision s history_id subject r =
     (let previous = t_get (policy_decision_current s) subject;
          ids = (case previous of None \<Rightarrow> policy_decision_current_id s
                 | Some p \<Rightarrow> t_remove (policy_decision_current_id s) p) in
      s\<lparr>policy_decision_table := write_record (policy_decision_table s) history_id r,
        policy_decision_current := t_insert (policy_decision_current s) subject history_id,
        policy_decision_current_id := t_insert ids history_id subject\<rparr>)"

definition record_policy_decision ::
    "uuid \<Rightarrow> meta_store \<Rightarrow> new_policy_decision
      \<Rightarrow> policy_decision_store_error + (policy_decision_record \<times> meta_store)" where
  "record_policy_decision uid s d =
     rbind (validate_decision d) (\<lambda>_.
     rbind (map_err DecisionStore (allocate (serial_table s) POLICY_DECISION_SERIAL_KEY)) (\<lambda>(n, serials).
     let s = s\<lparr>serial_table := serials\<rparr> in
     rbind (map_err DecisionStore (input_generation s (np_repository d))) (\<lambda>generation.
     let r = decision_record uid d generation in
     Inr (r, prune_history (publish_decision s (decision_id n) (subject_key d) r)))))"

section \<open>Reading\<close>

definition current_policy_decision ::
    "meta_store \<Rightarrow> new_policy_decision \<Rightarrow> policy_decision_store_error + policy_decision_record option" where
  "current_policy_decision s subject =
     rbind (validate_subject subject) (\<lambda>_.
     case t_get (policy_decision_current s) (subject_key subject) of
       None \<Rightarrow> Inr None
     | Some hid \<Rightarrow>
         (case t_get (policy_decision_table s) hid of
            None \<Rightarrow> Inl DecisionPanic
          | Some Corrupt \<Rightarrow> Inl (DecisionStore Decode)
          | Some (Row r) \<Rightarrow>
              rbind (map_err DecisionStore (input_generation s (pr_repository r))) (\<lambda>generation.
              Inr (if pr_input_generation r = generation then Some r else None))))"

definition matches_query :: "policy_decision_record \<Rightarrow> policy_decision_query \<Rightarrow> bool" where
  "matches_query r q \<longleftrightarrow>
     is_none_or (pq_repository q) (\<lambda>repository. pr_repository r = repository)
     \<and> is_none_or (pq_state q) (\<lambda>state. pr_state r = state)
     \<and> is_none_or (pq_rule q) (\<lambda>rule. pr_rule r = Some rule)
     \<and> is_none_or (pq_source q) (\<lambda>source. pr_source r = Some source)
     \<and> is_none_or (pq_evaluated_from_unix q) (\<lambda>start. pr_evaluated_at_unix r \<ge> start)
     \<and> is_none_or (pq_evaluated_to_unix q) (\<lambda>stop. pr_evaluated_at_unix r \<le> stop)"

definition valid_cursor :: "string \<Rightarrow> bool" where
  "valid_cursor cursor \<longleftrightarrow>
     length cursor = 19 \<and> starts_with cursor ''pd_'' \<and> list_all is_ascii_hexdigit (drop 3 cursor)"

text \<open>The loop over the history, newest first; it stops once it holds one more than the limit.\<close>

fun query_loop ::
    "meta_store \<Rightarrow> policy_decision_query \<Rightarrow> (string \<times> policy_decision_record row) list
      \<Rightarrow> policy_decision_item list \<Rightarrow> string list
      \<Rightarrow> policy_decision_query_error + (policy_decision_item list \<times> string list)" where
  "query_loop s q [] decisions cursors = Inr (decisions, cursors)"
| "query_loop s q ((hid, v) # entries) decisions cursors =
     (if is_some_and (pq_cursor q) (\<lambda>cursor. hid \<ge> cursor) then query_loop s q entries decisions cursors
      else case v of
        Corrupt \<Rightarrow> Inl (QueryStore Decode)
      | Row r \<Rightarrow>
          if \<not> matches_query r q then query_loop s q entries decisions cursors
          else
            (case input_generation s (pr_repository r) of
               Inl e \<Rightarrow> Inl (QueryStore e)
             | Inr generation \<Rightarrow>
                 let decisions = decisions @ [\<lparr>pi_record = r, pi_fresh = (pr_input_generation r = generation)\<rparr>];
                     cursors = cursors @ [hid] in
                 if length decisions > pq_limit q then Inr (decisions, cursors)
                 else query_loop s q entries decisions cursors))"

definition query_policy_decisions ::
    "meta_store \<Rightarrow> policy_decision_query \<Rightarrow> policy_decision_query_error + policy_decision_page" where
  "query_policy_decisions s q =
     (if \<not> (1 \<le> pq_limit q \<and> pq_limit q \<le> MAX_QUERY_LIMIT) then Inl InvalidLimit
      else if is_some_and (pq_cursor q) (\<lambda>cursor. \<not> valid_cursor cursor) then Inl InvalidCursor
      else
        rbind (query_loop s q (rev (policy_decision_table s)) [] []) (\<lambda>(decisions, cursors).
        Inr \<lparr>pp_decisions = take (pq_limit q) decisions,
          pp_next_cursor = (if length decisions > pq_limit q then Some (cursors ! (pq_limit q - 1)) else None)\<rparr>))"

section \<open>The window of recent decisions\<close>

definition record_subject :: "policy_decision_record \<Rightarrow> policy_decision_subject" where
  "record_subject r =
     (pr_repository r, pr_project r, pr_version r, pr_filename r, pr_source r, pr_action r)"

lemma record_subject_decision [simp]: "record_subject (decision_record uid d g) = subject_key d"
  by (simp add: record_subject_def decision_record_def subject_key_def)

text \<open>
  The abstract state is the list of all decisions ever recorded.  The store keeps the last
  \<open>MAX_DECISION_HISTORY\<close> of them; \<open>latest\<close> is the position of the newest one for a subject there.
\<close>

definition window_start :: "'a list \<Rightarrow> nat" where
  "window_start rs = length rs - MAX_DECISION_HISTORY"

definition latest :: "policy_decision_record list \<Rightarrow> nat \<Rightarrow> policy_decision_subject \<Rightarrow> nat \<Rightarrow> bool" where
  "latest rs a sub i \<longleftrightarrow> a \<le> i \<and> i < length rs \<and> record_subject (rs ! i) = sub
     \<and> (\<forall>j. i < j \<and> j < length rs \<longrightarrow> record_subject (rs ! j) \<noteq> sub)"

definition history_of :: "policy_decision_record list \<Rightarrow> nat \<Rightarrow> (string, policy_decision_record row) tbl" where
  "history_of rs start = map (\<lambda>i. (decision_id (Suc i), Row (rs ! i))) [start..<length rs]"

definition decision_state :: "policy_decision_record list \<Rightarrow> nat \<Rightarrow> meta_store \<Rightarrow> bool" where
  "decision_state rs a s \<longleftrightarrow> length rs \<le> u64_max \<and> a \<le> length rs
     \<and> table_serial (serial_table s) POLICY_DECISION_SERIAL_KEY = length rs
     \<and> policy_decision_table s = history_of rs a
     \<and> (\<forall>sub hid. t_get (policy_decision_current s) sub = Some hid \<longleftrightarrow>
          (\<exists>i. latest rs a sub i \<and> hid = decision_id (Suc i)))
     \<and> (\<forall>sub hid. t_get (policy_decision_current_id s) hid = Some sub \<longleftrightarrow>
          t_get (policy_decision_current s) sub = Some hid)
     \<and> rows_ok (policy_input_generation_table s)"

lemma latest_unique: "latest rs a sub i \<Longrightarrow> latest rs a sub j \<Longrightarrow> i = j"
  unfolding latest_def by (cases i j rule: linorder_cases) blast+

lemma latest_snoc:
  "a \<le> length rs \<Longrightarrow> latest (rs @ [r]) a sub i \<longleftrightarrow>
   (if record_subject r = sub then i = length rs else latest rs a sub i)"
proof (cases "i < length rs")
  case True
  have "(\<forall>j. i < j \<and> j < length (rs @ [r]) \<longrightarrow> record_subject ((rs @ [r]) ! j) \<noteq> sub) \<longleftrightarrow>
      record_subject r \<noteq> sub \<and> (\<forall>j. i < j \<and> j < length rs \<longrightarrow> record_subject (rs ! j) \<noteq> sub)"
    using True by (auto simp: nth_append less_Suc_eq)
  with True show ?thesis by (auto simp: latest_def nth_append)
next
  case False
  assume "a \<le> length rs"
  with False show ?thesis by (auto simp: latest_def less_Suc_eq)
qed

lemma latest_Suc: "latest rs (Suc a) sub i \<longleftrightarrow> latest rs a sub i \<and> i \<noteq> a"
  by (auto simp: latest_def)

lemma id_eq_iff:
  "length rs \<le> u64_max \<Longrightarrow> i < length rs \<Longrightarrow> j < length rs \<Longrightarrow> decision_id (Suc i) = decision_id (Suc j) \<longleftrightarrow> i = j"
  using decision_ids.mk_inj [of "Suc i" "Suc j"] by simp

lemma history_keys_sorted: "length rs \<le> u64_max \<Longrightarrow> t_wf (history_of rs a)"
  unfolding t_wf_def history_of_def map_map sorted_wrt_map
  by (rule sorted_wrt_mono_rel [OF _ sorted_wrt_upt]) (auto simp: decision_ids.mk_less)

lemma history_get:
  assumes "length rs \<le> u64_max"
  shows "t_get (history_of rs a) (decision_id (Suc i)) = Some x \<longleftrightarrow>
    (if i < length rs then a \<le> i \<and> x = Row (rs ! i) else t_get (history_of rs a) (decision_id (Suc i)) = Some x)"
  using t_get_iff [OF history_keys_sorted [OF assms], of a "decision_id (Suc i)" x] id_eq_iff [OF assms, of i]
  by (auto simp: history_of_def image_iff)

text \<open>One decision more, before pruning.\<close>

lemma history_snoc:
  assumes "Suc (length rs) \<le> u64_max" "a \<le> length rs"
  shows "t_insert (history_of rs a) (decision_id (Suc (length rs))) (Row r) = history_of (rs @ [r]) a"
proof -
  have "\<forall>e \<in> set (history_of rs a). fst e < decision_id (Suc (length rs))"
    using assms by (auto simp: history_of_def decision_ids.mk_less)
  then have "t_insert (history_of rs a) (decision_id (Suc (length rs))) (Row r)
      = history_of rs a @ [(decision_id (Suc (length rs)), Row r)]" by (rule t_insert_last)
  also have "\<dots> = history_of (rs @ [r]) a"
    using assms(2) by (simp add: history_of_def) (simp add: nth_append)
  finally show ?thesis .
qed

lemma history_head: "a < length rs \<Longrightarrow> history_of rs a = (decision_id (Suc a), Row (rs ! a)) # history_of rs (Suc a)"
  by (simp add: history_of_def upt_conv_Cons)

lemma history_drop:
  assumes "length rs \<le> u64_max" "a < length rs"
  shows "t_remove (history_of rs a) (decision_id (Suc a)) = history_of rs (Suc a)"
proof -
  have "decision_id (Suc a) \<notin> fst ` set (history_of rs (Suc a))"
    using id_eq_iff [OF assms(1,2)] by (fastforce simp: history_of_def)
  then show ?thesis unfolding history_head [OF assms(2)] by (auto simp: t_remove_def filter_id_conv image_iff)
qed


section \<open>Recording keeps the window\<close>

lemma publish_decision_state:
  assumes S: "decision_state rs a s" and n: "Suc (length rs) \<le> u64_max"
    and sub: "record_subject r = sub"
  shows "decision_state (rs @ [r]) a
    (publish_decision (s\<lparr>serial_table := t_insert (serial_table s) POLICY_DECISION_SERIAL_KEY (Suc (length rs))\<rparr>)
      (decision_id (Suc (length rs))) sub r)" (is "decision_state _ _ ?s'")
proof -
  let ?new = "decision_id (Suc (length rs))"
  have a: "a \<le> length rs" and max: "length rs \<le> u64_max" using S by (simp_all add: decision_state_def)
  have cur: "t_get (policy_decision_current s) sub' = Some hid \<longleftrightarrow> (\<exists>i. latest rs a sub' i \<and> hid = decision_id (Suc i))"
    and ids: "t_get (policy_decision_current_id s) hid = Some sub' \<longleftrightarrow> t_get (policy_decision_current s) sub' = Some hid"
    for sub' hid using S unfolding decision_state_def by blast+
  have fresh: "t_get (policy_decision_current s) sub' \<noteq> Some ?new" for sub'
  proof
    assume "t_get (policy_decision_current s) sub' = Some ?new"
    then obtain i where "i < length rs" "?new = decision_id (Suc i)" unfolding cur latest_def by blast
    then show False using n decision_ids.mk_inj [of "Suc (length rs)" "Suc i"] by simp
  qed
  have cur': "t_get (policy_decision_current ?s') sub' = (if sub' = sub then Some ?new else t_get (policy_decision_current s) sub')" for sub'
    by (simp add: publish_decision_def Let_def)
  have current: "t_get (policy_decision_current ?s') sub' = Some hid \<longleftrightarrow> (\<exists>i. latest (rs @ [r]) a sub' i \<and> hid = decision_id (Suc i))"
    for sub' hid unfolding cur' using cur [of sub' hid] sub by (simp add: latest_snoc [OF a] eq_commute)
  have "t_get (policy_decision_current_id ?s') hid = Some sub' \<longleftrightarrow> t_get (policy_decision_current ?s') sub' = Some hid"
    for sub' hid
  proof (cases "hid = ?new")
    case True
    then have "t_get (policy_decision_current_id ?s') hid = Some sub" by (simp add: publish_decision_def Let_def)
    with True show ?thesis unfolding cur' using fresh by simp
  next
    case False
    then have "t_get (policy_decision_current_id ?s') hid
        = (if t_get (policy_decision_current s) sub = Some hid then None else t_get (policy_decision_current_id s) hid)"
      by (simp add: publish_decision_def Let_def split: option.split)
    with False show ?thesis unfolding cur' using ids [of hid sub'] ids [of hid sub] by (auto split: if_splits)
  qed
  with current S n history_snoc [OF n a, of r] show ?thesis
    unfolding decision_state_def by (simp add: publish_decision_def Let_def write_record_def)
qed

definition drop_oldest :: "meta_store \<Rightarrow> string \<Rightarrow> meta_store" where
  "drop_oldest s hid =
     (let s' = s\<lparr>policy_decision_table := t_remove (policy_decision_table s) hid\<rparr> in
      case t_get (policy_decision_current_id s) hid of
        None \<Rightarrow> s'
      | Some subject \<Rightarrow> s'\<lparr>policy_decision_current := t_remove (policy_decision_current s') subject,
          policy_decision_current_id := t_remove (policy_decision_current_id s') hid\<rparr>)"

lemma drop_oldest_state:
  assumes S: "decision_state rs a s" and a: "a < length rs"
  shows "decision_state rs (Suc a) (drop_oldest s (decision_id (Suc a)))" (is "decision_state _ _ ?s'")
proof -
  let ?old = "decision_id (Suc a)"
  have max: "length rs \<le> u64_max" using S by (simp add: decision_state_def)
  have cur: "t_get (policy_decision_current s) sub' = Some hid \<longleftrightarrow> (\<exists>i. latest rs a sub' i \<and> hid = decision_id (Suc i))"
    and ids: "t_get (policy_decision_current_id s) hid = Some sub' \<longleftrightarrow> t_get (policy_decision_current s) sub' = Some hid"
    for sub' hid using S unfolding decision_state_def by blast+
  have cur': "t_get (policy_decision_current ?s') sub' = (if t_get (policy_decision_current s) sub' = Some ?old then None
      else t_get (policy_decision_current s) sub')" for sub'
  proof (cases "t_get (policy_decision_current_id s) ?old")
    case None
    with ids [of ?old sub'] show ?thesis by (simp add: drop_oldest_def Let_def)
  next
    case (Some sub)
    with ids [of ?old sub'] have "t_get (policy_decision_current s) sub' = Some ?old \<longleftrightarrow> sub' = sub" by auto
    with Some show ?thesis by (simp add: drop_oldest_def Let_def)
  qed
  have "t_get (policy_decision_current_id ?s') hid = (if hid = ?old then None else t_get (policy_decision_current_id s) hid)"
    for hid by (simp add: drop_oldest_def Let_def split: option.split)
  then have ids': "t_get (policy_decision_current_id ?s') hid = Some sub' \<longleftrightarrow> t_get (policy_decision_current ?s') sub' = Some hid"
    for sub' hid unfolding cur' using ids [of hid sub'] by auto
  have "t_get (policy_decision_current ?s') sub' = Some hid \<longleftrightarrow> (\<exists>i. latest rs (Suc a) sub' i \<and> hid = decision_id (Suc i))"
    for sub' hid
  proof -
    have old: "hid = ?old \<longleftrightarrow> i = a" if "latest rs a sub' i" "hid = decision_id (Suc i)" for i
      using that id_eq_iff [OF max, of i a] a by (simp add: latest_def)
    have "t_get (policy_decision_current ?s') sub' = Some hid \<longleftrightarrow>
        hid \<noteq> ?old \<and> (\<exists>i. latest rs a sub' i \<and> hid = decision_id (Suc i))"
      unfolding cur' using cur [of sub' hid] by auto
    then show ?thesis unfolding latest_Suc using old by blast
  qed
  with ids' S a history_drop [OF max a] show ?thesis
    unfolding decision_state_def by (simp add: drop_oldest_def Let_def split: option.split)
qed

lemma prune_history_state:
  assumes S: "decision_state rs a s" and len: "length rs - a \<le> Suc MAX_DECISION_HISTORY"
  shows "decision_state rs (if length rs - a > MAX_DECISION_HISTORY then Suc a else a) (prune_history s)"
proof (cases "length rs - a > MAX_DECISION_HISTORY")
  case True
  then have a: "a < length rs" by simp
  have "policy_decision_table s = history_of rs a" using S by (simp add: decision_state_def)
  with True a have "prune_history s = drop_oldest s (decision_id (Suc a))"
    unfolding prune_history_def drop_oldest_def history_head [OF a]
    by (simp add: history_of_def Let_def)
  with True drop_oldest_state [OF S a] show ?thesis by simp
next
  case False
  have "policy_decision_table s = history_of rs a" using S by (simp add: decision_state_def)
  with False S show ?thesis by (simp add: prune_history_def history_of_def)
qed

section \<open>Runs\<close>

text \<open>Writes of the rest of the store: the decision tables and their counter stay.\<close>

definition decisions_frame :: "meta_store \<Rightarrow> meta_store \<Rightarrow> bool" where
  "decisions_frame s s' \<longleftrightarrow> policy_decision_table s' = policy_decision_table s
     \<and> policy_decision_current s' = policy_decision_current s
     \<and> policy_decision_current_id s' = policy_decision_current_id s
     \<and> table_serial (serial_table s') POLICY_DECISION_SERIAL_KEY
       = table_serial (serial_table s) POLICY_DECISION_SERIAL_KEY
     \<and> (rows_ok (policy_input_generation_table s) \<longrightarrow> rows_ok (policy_input_generation_table s'))"

inductive decision_run :: "policy_decision_record list \<Rightarrow> meta_store \<Rightarrow> bool" where
  opened: "decision_run [] open_new"
| recorded: "decision_run rs s \<Longrightarrow> record_policy_decision uid s d = Inr (r, s') \<Longrightarrow> decision_run (rs @ [r]) s'"
| advanced: "decision_run rs s \<Longrightarrow> advance_policy_generation s repository = Inr (g, s') \<Longrightarrow> decision_run rs s'"
| elsewhere: "decision_run rs s \<Longrightarrow> decisions_frame s s' \<Longrightarrow> decision_run rs s'"

lemma decision_state_frame: "decision_state rs a s \<Longrightarrow> decisions_frame s s' \<Longrightarrow> decision_state rs a s'"
  unfolding decision_state_def decisions_frame_def by simp

lemma record_policy_decision_cases:
  assumes "record_policy_decision uid s d = Inr (r, s')"
  obtains generation where "validate_decision d = Inr ()"
    "Suc (table_serial (serial_table s) POLICY_DECISION_SERIAL_KEY) \<le> u64_max"
    "input_generation s (np_repository d) = Inr generation" "r = decision_record uid d generation"
    "s' = prune_history (publish_decision (s\<lparr>serial_table := t_insert (serial_table s) POLICY_DECISION_SERIAL_KEY
        (Suc (table_serial (serial_table s) POLICY_DECISION_SERIAL_KEY))\<rparr>)
      (decision_id (Suc (table_serial (serial_table s) POLICY_DECISION_SERIAL_KEY))) (subject_key d) r)"
proof -
  let ?n = "Suc (table_serial (serial_table s) POLICY_DECISION_SERIAL_KEY)"
  have gen: "input_generation (s\<lparr>serial_table := t_insert (serial_table s) POLICY_DECISION_SERIAL_KEY ?n\<rparr>) repository
      = input_generation s repository" for repository
    by (simp add: input_generation_def current_serial_def SERIAL_KEY_def POLICY_DECISION_SERIAL_KEY_def)
  from assms have v: "validate_decision d = Inr ()"
    by (auto simp: record_policy_decision_def rbind_eq_Inr)
  from assms obtain n serials where alloc: "allocate (serial_table s) POLICY_DECISION_SERIAL_KEY = Inr (n, serials)"
    by (auto simp: record_policy_decision_def rbind_eq_Inr)
  then have n: "n = ?n" "?n \<le> u64_max" "serials = t_insert (serial_table s) POLICY_DECISION_SERIAL_KEY ?n"
    by simp_all
  from assms v alloc obtain generation where
    g: "input_generation (s\<lparr>serial_table := serials\<rparr>) (np_repository d) = Inr generation"
    by (auto simp: record_policy_decision_def rbind_eq_Inr Let_def simp del: allocate_Inr)
  show ?thesis
  proof (rule that [OF v n(2)])
    show "input_generation s (np_repository d) = Inr generation" using g gen n(3) by simp
    show "r = decision_record uid d generation"
      using assms v alloc g by (auto simp: record_policy_decision_def Let_def simp del: allocate_Inr)
    with assms v alloc g n show "s' = prune_history (publish_decision
        (s\<lparr>serial_table := t_insert (serial_table s) POLICY_DECISION_SERIAL_KEY ?n\<rparr>) (decision_id ?n) (subject_key d) r)"
      by (auto simp: record_policy_decision_def Let_def simp del: allocate_Inr)
  qed
qed

lemma record_policy_decision_state:
  assumes S: "decision_state rs (window_start rs) s" and ok: "record_policy_decision uid s d = Inr (r, s')"
  shows "decision_state (rs @ [r]) (window_start (rs @ [r])) s'"
  using ok
proof (cases rule: record_policy_decision_cases)
  case (1 generation)
  have n: "table_serial (serial_table s) POLICY_DECISION_SERIAL_KEY = length rs"
    using S by (simp add: decision_state_def)
  note published = publish_decision_state [OF S, of r "subject_key d"]
  have "decision_state (rs @ [r]) (if length (rs @ [r]) - window_start rs > MAX_DECISION_HISTORY
      then Suc (window_start rs) else window_start rs) s'"
    unfolding 1(5) n by (rule prune_history_state [OF published]) (use 1 n in \<open>auto simp: window_start_def\<close>)
  moreover have "(if length (rs @ [r]) - window_start rs > MAX_DECISION_HISTORY
      then Suc (window_start rs) else window_start rs) = window_start (rs @ [r])"
    by (auto simp: window_start_def MAX_DECISION_HISTORY_def)
  ultimately show ?thesis by simp
qed

lemma advance_frame: "advance_policy_generation s repository = Inr (g, s') \<Longrightarrow> decisions_frame s s'"
  by (auto simp: advance_policy_generation_def decisions_frame_def rbind_eq_Inr Let_def)

lemma decision_run_state: "decision_run rs s \<Longrightarrow> decision_state rs (window_start rs) s"
proof (induction rule: decision_run.induct)
  case opened
  show ?case by (simp add: decision_state_def open_new_def history_of_def window_start_def latest_def table_serial_def)
next
  case (recorded rs s uid d r s')
  then show ?case by (blast intro: record_policy_decision_state)
next
  case (advanced rs s repository g s')
  then show ?case by (blast intro: decision_state_frame advance_frame)
next
  case (elsewhere rs s s')
  then show ?case by (blast intro: decision_state_frame)
qed

section \<open>Reading the window\<close>

abbreviation window :: "policy_decision_record list \<Rightarrow> policy_decision_record list" where
  "window rs \<equiv> drop (window_start rs) rs"

lemma history_records: "map snd (history_of rs a) = map Row (drop a rs)"
proof -
  have "map ((!) rs) [a..<length rs] = drop a rs" by (rule nth_equalityI) auto
  then have "map Row (map ((!) rs) [a..<length rs]) = map Row (drop a rs)" by (rule arg_cong)
  then show ?thesis by (simp add: history_of_def comp_def)
qed

lemma find_skip: "find P xs = None \<Longrightarrow> find P (xs @ ys) = find P ys"
  by (induction xs) (auto split: if_splits)

lemma find_rev_latest:
  assumes "latest rs a sub i"
  shows "find (\<lambda>r. record_subject r = sub) (rev (drop a rs)) = Some (rs ! i)"
proof -
  from assms have i: "a \<le> i" "i < length rs" "record_subject (rs ! i) = sub"
    and later: "\<And>j. i < j \<Longrightarrow> j < length rs \<Longrightarrow> record_subject (rs ! j) \<noteq> sub" by (auto simp: latest_def)
  have "drop a rs = take (i - a) (drop a rs) @ drop i rs"
    using i by (metis append_take_drop_id drop_drop le_add_diff_inverse2)
  also have "drop i rs = rs ! i # drop (Suc i) rs" using i by (simp add: Cons_nth_drop_Suc)
  finally have "rev (drop a rs) = rev (take (i - a) (drop a rs) @ rs ! i # drop (Suc i) rs)" by (rule arg_cong)
  then have split: "rev (drop a rs) = rev (drop (Suc i) rs) @ rs ! i # rev (take (i - a) (drop a rs))"
    by (simp only: rev_append rev.simps append_assoc append.simps)
  have "record_subject x \<noteq> sub" if "x \<in> set (drop (Suc i) rs)" for x
  proof -
    from that obtain k where "k < length rs - Suc i" "x = rs ! (Suc i + k)" by (auto simp: in_set_conv_nth)
    with later [of "Suc i + k"] show ?thesis by simp
  qed
  then have "find (\<lambda>r. record_subject r = sub) (rev (drop (Suc i) rs)) = None" by (auto simp: find_None_iff)
  then show ?thesis unfolding split by (simp add: find_skip i)
qed

lemma latest_exists:
  assumes "r \<in> set (drop a rs)" "record_subject r = sub"
  shows "\<exists>i. latest rs a sub i"
proof -
  let ?Q = "\<lambda>i. a \<le> i \<and> i < length rs \<and> record_subject (rs ! i) = sub"
  from assms(1) obtain k where "k < length rs - a" "r = rs ! (a + k)" by (auto simp: in_set_conv_nth)
  then have ex: "?Q (a + k)" using assms(2) by auto
  define m where "m = Max {i. ?Q i}"
  have fin: "finite {i. ?Q i}" by simp
  have "m \<in> {i. ?Q i}" unfolding m_def using ex fin by (intro Max_in) blast+
  moreover have "record_subject (rs ! j) \<noteq> sub" if "m < j" "j < length rs" for j
  proof
    assume "record_subject (rs ! j) = sub"
    with that \<open>m \<in> {i. ?Q i}\<close> have "j \<in> {i. ?Q i}" by simp
    then have "j \<le> m" unfolding m_def by (rule Max_ge [OF fin])
    with that show False by simp
  qed
  ultimately show ?thesis unfolding latest_def by blast
qed

lemma input_generation_ok: "decision_state rs a s \<Longrightarrow> \<exists>g. input_generation s repository = Inr g"
  using read_record_ok [of "policy_input_generation_table s" repository]
  by (auto simp: decision_state_def input_generation_def)

section \<open>Pages\<close>

definition item_of :: "meta_store \<Rightarrow> policy_decision_record \<Rightarrow> policy_decision_item" where
  "item_of s r = \<lparr>pi_record = r,
     pi_fresh = (Inr (pr_input_generation r) = input_generation s (pr_repository r))\<rparr>"

text \<open>The entries a query would report without a limit, newest first.\<close>

definition admitted :: "policy_decision_query \<Rightarrow> string \<times> policy_decision_record row \<Rightarrow> bool" where
  "admitted q e \<longleftrightarrow> is_none_or (pq_cursor q) (\<lambda>c. fst e < c)
     \<and> (case snd e of Row r \<Rightarrow> matches_query r q | Corrupt \<Rightarrow> False)"

definition entry_item :: "meta_store \<Rightarrow> string \<times> policy_decision_record row \<Rightarrow> policy_decision_item" where
  "entry_item s e = item_of s (case snd e of Row r \<Rightarrow> r)"

lemma query_loop_eq:
  assumes gens: "\<And>repository. \<exists>g. input_generation s repository = Inr g"
    and "\<forall>e \<in> set entries. snd e \<noteq> Corrupt" "length decisions \<le> pq_limit q" "length cursors = length decisions"
  shows "query_loop s q entries decisions cursors =
    Inr (take (Suc (pq_limit q)) (decisions @ map (entry_item s) (filter (admitted q) entries)),
         take (Suc (pq_limit q)) (cursors @ map fst (filter (admitted q) entries)))"
  using assms(2-4)
proof (induction entries arbitrary: decisions cursors)
  case (Cons e entries)
  obtain hid v where e: "e = (hid, v)" by (cases e)
  with Cons.prems(1) obtain r where v: "v = Row r" by (cases v) auto
  have IH: "length ds \<le> pq_limit q \<Longrightarrow> length cs = length ds \<Longrightarrow> query_loop s q entries ds cs =
    Inr (take (Suc (pq_limit q)) (ds @ map (entry_item s) (filter (admitted q) entries)),
         take (Suc (pq_limit q)) (cs @ map fst (filter (admitted q) entries)))" for ds cs
    using Cons.IH Cons.prems(1) by simp
  have guard: "is_some_and (pq_cursor q) (\<lambda>c. c \<le> hid) \<longleftrightarrow> \<not> is_none_or (pq_cursor q) (\<lambda>c. hid < c)"
    by (cases "pq_cursor q") auto
  show ?case
  proof (cases "admitted q e")
    case False
    then have "query_loop s q (e # entries) decisions cursors = query_loop s q entries decisions cursors"
      using guard by (simp add: e v admitted_def)
    with False IH [OF Cons.prems(2,3)] show ?thesis by simp
  next
    case True
    obtain g where g: "input_generation s (pr_repository r) = Inr g" using gens by blast
    then have item: "entry_item s e = \<lparr>pi_record = r, pi_fresh = (pr_input_generation r = g)\<rparr>"
      by (simp add: entry_item_def item_of_def e v)
    have step: "query_loop s q (e # entries) decisions cursors =
        (if length (decisions @ [entry_item s e]) > pq_limit q
         then Inr (decisions @ [entry_item s e], cursors @ [hid])
         else query_loop s q entries (decisions @ [entry_item s e]) (cursors @ [hid]))"
      using True guard g unfolding item by (simp add: e v admitted_def Let_def)
    show ?thesis
    proof (cases "length decisions = pq_limit q")
      case True
      with \<open>admitted q e\<close> Cons.prems(3) show ?thesis unfolding step by (simp add: e)
    next
      case False
      with Cons.prems \<open>admitted q e\<close> show ?thesis unfolding step by (simp add: IH) (simp add: e)
    qed
  qed
qed simp

lemma query_page_eq:
  assumes S: "decision_state rs a s" and q: "1 \<le> pq_limit q" "pq_limit q \<le> MAX_QUERY_LIMIT"
    and c: "is_none_or (pq_cursor q) valid_cursor"
  defines "found \<equiv> filter (admitted q) (rev (policy_decision_table s))"
  shows "query_policy_decisions s q = Inr \<lparr>pp_decisions = take (pq_limit q) (map (entry_item s) found),
    pp_next_cursor = (if length found > pq_limit q then Some (fst (found ! (pq_limit q - 1))) else None)\<rparr>"
proof -
  have "\<forall>e \<in> set (rev (policy_decision_table s)). snd e \<noteq> Corrupt"
    using S by (auto simp: decision_state_def history_of_def)
  from query_loop_eq [OF input_generation_ok [OF S] this, of "[]" q "[]"]
  have loop: "query_loop s q (rev (policy_decision_table s)) [] [] =
    Inr (take (Suc (pq_limit q)) (map (entry_item s) found), take (Suc (pq_limit q)) (map fst found))"
    by (simp add: found_def)
  have "is_some_and (pq_cursor q) (\<lambda>cursor. \<not> valid_cursor cursor) = False"
    using c by (cases "pq_cursor q") auto
  with q show ?thesis
    unfolding query_policy_decisions_def loop
    by (auto simp: min_def take_map nth_append)
qed

text \<open>The hex digits of an identifier make a valid cursor.\<close>

lemma digit_char_hex: "d < 16 \<Longrightarrow> is_ascii_hexdigit (digit_char d)"
proof -
  assume "d < 16"
  then have "d \<in> set [0..<16]" by simp
  then show ?thesis by (auto simp: upt_rec numeral_eq_Suc is_ascii_hexdigit_def digit_char_def)
qed

lemma fixed_digits_hex: "list_all is_ascii_hexdigit (fixed_digits 16 w n)"
  by (induction w arbitrary: n) (simp_all add: digit_char_hex)

lemma valid_cursor_id: "valid_cursor (decision_id n)"
  by (simp add: valid_cursor_def decision_id_def hex16_def fixed_digits_hex)

text \<open>A client that follows the cursors; \<open>None\<close> when the fuel runs out or a page is refused.\<close>

fun walk_pages :: "nat \<Rightarrow> meta_store \<Rightarrow> policy_decision_query \<Rightarrow> policy_decision_item list option" where
  "walk_pages 0 s q = None"
| "walk_pages (Suc fuel) s q =
     (case query_policy_decisions s q of
        Inl _ \<Rightarrow> None
      | Inr page \<Rightarrow>
          (case pp_next_cursor page of
             None \<Rightarrow> Some (pp_decisions page)
           | Some cursor \<Rightarrow> map_option ((@) (pp_decisions page)) (walk_pages fuel s (q\<lparr>pq_cursor := Some cursor\<rparr>))))"

definition found_by :: "meta_store \<Rightarrow> policy_decision_query \<Rightarrow> (string \<times> policy_decision_record row) list" where
  "found_by s q = filter (admitted q) (rev (policy_decision_table s))"

lemma descending_filter:
  assumes "sorted_wrt (\<lambda>x y. fst y < fst x) xs" "k < length xs"
  shows "filter (\<lambda>e. fst e < fst (xs ! k)) xs = drop (Suc k) (xs :: (string \<times> 'a) list)"
  using assms
proof (induction xs arbitrary: k)
  case (Cons x xs)
  show ?case
  proof (cases k)
    case 0
    with Cons.prems show ?thesis by (auto simp: filter_id_conv)
  next
    case (Suc j)
    with Cons.prems have "fst (xs ! j) < fst x" by simp
    with Suc Cons show ?thesis by (simp add: less_imp_not_less)
  qed
qed simp

lemma found_by_descending: "decision_state rs a s \<Longrightarrow> sorted_wrt (\<lambda>x y. fst y < fst x) (found_by s q)"
  unfolding found_by_def decision_state_def
  using history_keys_sorted [of rs a] by (auto simp: t_wf_def sorted_wrt_map sorted_wrt_rev intro!: sorted_wrt_filter)

lemma found_by_next:
  assumes S: "decision_state rs a s" and k: "k < length (found_by s q)"
  shows "found_by s (q\<lparr>pq_cursor := Some (fst (found_by s q ! k))\<rparr>) = drop (Suc k) (found_by s q)"
proof -
  define c where "c = fst (found_by s q ! k)"
  have "admitted q (found_by s q ! k)" using nth_mem [OF k] by (simp add: found_by_def)
  then have below: "is_none_or (pq_cursor q) (\<lambda>c'. c < c')" by (simp add: admitted_def c_def)
  have "admitted (q\<lparr>pq_cursor := Some c\<rparr>) e \<longleftrightarrow> admitted q e \<and> fst e < c" for e
    using below by (cases "pq_cursor q") (auto simp: admitted_def matches_query_def split: row.split)
  then have "found_by s (q\<lparr>pq_cursor := Some c\<rparr>) = filter (\<lambda>e. fst e < c) (found_by s q)"
    unfolding found_by_def filter_filter by (rule filter_cong [OF refl])
  with descending_filter [OF found_by_descending [OF S] k] show ?thesis unfolding c_def by simp
qed

lemma found_by_id: "decision_state rs a s \<Longrightarrow> e \<in> set (found_by s q) \<Longrightarrow> valid_cursor (fst e)"
  by (auto simp: found_by_def decision_state_def history_of_def valid_cursor_id)

lemma walk_pages_eq:
  assumes S: "decision_state rs a s" and q: "1 \<le> pq_limit q" "pq_limit q \<le> MAX_QUERY_LIMIT"
    and "is_none_or (pq_cursor q) valid_cursor" "length (found_by s q) < fuel"
  shows "walk_pages fuel s q = Some (map (entry_item s) (found_by s q))"
  using assms(2-5)
proof (induction fuel arbitrary: q)
  case (Suc fuel)
  note page = query_page_eq [OF S Suc.prems(1-3), folded found_by_def]
  show ?case
  proof (cases "length (found_by s q) > pq_limit q")
    case False
    with page show ?thesis by simp
  next
    case True
    let ?k = "pq_limit q - 1"
    let ?q = "q\<lparr>pq_cursor := Some (fst (found_by s q ! ?k))\<rparr>"
    have k: "?k < length (found_by s q)" "Suc ?k = pq_limit q" using True Suc.prems(1) by auto
    have rest: "found_by s ?q = drop (pq_limit q) (found_by s q)"
      using found_by_next [OF S k(1)] k(2) by simp
    have "walk_pages fuel s ?q = Some (map (entry_item s) (found_by s ?q))"
      using Suc.prems True found_by_id [OF S nth_mem [OF k(1)]] rest by (intro Suc.IH) auto
    with page True rest show ?thesis by (simp add: take_map drop_map flip: map_append)
  qed
qed simp

lemma found_by_window:
  assumes "decision_state rs a s" "pq_cursor q = None"
  shows "map (entry_item s) (found_by s q) = map (item_of s) (filter (\<lambda>r. matches_query r q) (rev (drop a rs)))"
proof -
  have "map (entry_item s) (filter (admitted q) t) = map (item_of s) (filter (\<lambda>r. matches_query r q) xs)"
    if "map snd t = map Row xs" for t xs
    using that
  proof (induction t arbitrary: xs)
    case (Cons e t)
    then obtain x ys where "xs = x # ys" "snd e = Row x" "map snd t = map Row ys" by (cases xs) auto
    with Cons.IH [of ys] show ?case using assms(2) by (simp add: admitted_def entry_item_def)
  qed simp
  moreover have "map snd (rev (policy_decision_table s)) = map Row (rev (drop a rs))"
    using assms(1) by (simp add: decision_state_def history_records flip: rev_map)
  ultimately show ?thesis by (simp add: found_by_def)
qed

section \<open>Properties\<close>

lemma history_length:
  "decision_run rs s \<Longrightarrow> length (policy_decision_table s) = min (length rs) MAX_DECISION_HISTORY"
  by (drule decision_run_state) (simp add: decision_state_def history_of_def window_start_def)

text \<open>The audit history is a bounded window: whatever was recorded, the store holds at most ten thousand
  decisions, every row decodes, and they are exactly the most recent ones in the order they were made.\<close>

theorem policy_history_window:
  assumes "decision_run rs s"
  shows "length (policy_decision_table s) = min (length rs) MAX_DECISION_HISTORY
    \<and> decode_all (map snd (policy_decision_table s)) = Inr (drop (length rs - MAX_DECISION_HISTORY) rs)"
proof -
  have S: "policy_decision_table s = history_of rs (window_start rs)"
    using decision_run_state [OF assms] by (simp add: decision_state_def)
  then have "decode_all (map snd (policy_decision_table s)) = Inr (window rs)"
    by (simp only: history_records decode_all_map)
  with history_length [OF assms] show ?thesis by (simp add: window_start_def)
qed

text \<open>C21: The current decision of a subject is the newest decision recorded for it within the window, reported
  only while the inputs it was made from are still the repository's inputs; the pointer table never
  dangles, so the lookup's panic is unreachable.\<close>

theorem current_decision_exact:
  assumes "decision_run rs s" "validate_subject d = Inr ()"
  shows "current_policy_decision s d = Inr (
    case find (\<lambda>r. record_subject r = subject_key d) (rev (window rs)) of
      None \<Rightarrow> None
    | Some r \<Rightarrow> if Inr (pr_input_generation r) = input_generation s (pr_repository r) then Some r else None)"
proof -
  let ?a = "window_start rs" and ?sub = "subject_key d"
  note S = decision_run_state [OF assms(1)]
  have max: "length rs \<le> u64_max" and table: "policy_decision_table s = history_of rs ?a"
    and cur: "\<And>hid. t_get (policy_decision_current s) ?sub = Some hid \<longleftrightarrow>
      (\<exists>i. latest rs ?a ?sub i \<and> hid = decision_id (Suc i))"
    using S unfolding decision_state_def by blast+
  show ?thesis
  proof (cases "\<exists>i. latest rs ?a ?sub i")
    case True
    then obtain i where i: "latest rs ?a ?sub i" by blast
    with cur have "t_get (policy_decision_current s) ?sub = Some (decision_id (Suc i))" by blast
    moreover have "t_get (policy_decision_table s) (decision_id (Suc i)) = Some (Row (rs ! i))"
      unfolding table using i history_get [OF max, of ?a i "Row (rs ! i)"] by (simp add: latest_def)
    moreover obtain g where "input_generation s (pr_repository (rs ! i)) = Inr g"
      using input_generation_ok [OF S] by blast
    ultimately show ?thesis
      using find_rev_latest [OF i] by (simp add: current_policy_decision_def assms(2))
  next
    case False
    with cur have "t_get (policy_decision_current s) ?sub = None" by (metis not_None_eq)
    moreover have "find (\<lambda>r. record_subject r = ?sub) (rev (window rs)) = None"
      using False latest_exists [of _ ?a rs ?sub] by (auto simp: find_None_iff)
    ultimately show ?thesis by (simp add: current_policy_decision_def assms(2))
  qed
qed

text \<open>C20: Following the cursors ends and misses nothing: with enough fuel for one page per stored decision the
  walk returns every matching decision of the window once, newest first, with its freshness.\<close>

theorem policy_pages_complete:
  assumes "decision_run rs s" "1 \<le> pq_limit q" "pq_limit q \<le> MAX_QUERY_LIMIT" "pq_cursor q = None"
    and "length (policy_decision_table s) < fuel"
  shows "walk_pages fuel s q = Some (map (item_of s) (filter (\<lambda>r. matches_query r q) (rev (window rs))))"
proof -
  note S = decision_run_state [OF assms(1)]
  have "length (found_by s q) < fuel"
    using assms(5) length_filter_le [of "admitted q" "rev (policy_decision_table s)"] by (simp add: found_by_def)
  with walk_pages_eq [OF S assms(2,3)] assms(4) found_by_window [OF S assms(4)] show ?thesis by simp
qed

section \<open>A sample history\<close>

definition sample_decision :: "policy_decision_state \<Rightarrow> new_policy_decision" where
  "sample_decision st = \<lparr>np_repository = ''main'', np_project = ''demo'', np_version = None, np_filename = None,
     np_source = None, np_action = Upload, np_state = st, np_rule = None, np_reason = None,
     np_evaluated_at_unix = 5, np_next_eligible_at_unix = None\<rparr>"

definition sample_record :: "policy_decision_state \<Rightarrow> policy_decision_record" where
  "sample_record st = decision_record 1 (sample_decision st) \<lparr>pg_repository = 0, pg_catalog = 0, pg_policy = 0\<rparr>"

definition decision_sample1 :: meta_store where
  "decision_sample1 = snd (projr (record_policy_decision 1 open_new (sample_decision Deny)))"

definition decision_sample2 :: meta_store where
  "decision_sample2 = snd (projr (record_policy_decision 1 decision_sample1 (sample_decision Allow)))"

lemma prune_frame [simp]:
  "policy_input_generation_table (prune_history s) = policy_input_generation_table s"
  "serial_table (prune_history s) = serial_table s"
  by (simp_all add: prune_history_def Let_def split: list.split option.split)

lemma publish_frame [simp]:
  "policy_input_generation_table (publish_decision s hid sub r) = policy_input_generation_table s"
  "serial_table (publish_decision s hid sub r) = serial_table s"
  by (simp_all add: publish_decision_def Let_def)

lemma record_ok:
  assumes "validate_decision d = Inr ()" "Suc (table_serial (serial_table s) POLICY_DECISION_SERIAL_KEY) \<le> u64_max"
    and "policy_input_generation_table s = []" "current_serial s = 0"
  shows "record_policy_decision uid s d =
    Inr (decision_record uid d \<lparr>pg_repository = 0, pg_catalog = 0, pg_policy = 0\<rparr>,
      snd (projr (record_policy_decision uid s d)))"
proof -
  have a: "allocate (serial_table s) POLICY_DECISION_SERIAL_KEY = Inr
      (Suc (table_serial (serial_table s) POLICY_DECISION_SERIAL_KEY), t_insert (serial_table s) POLICY_DECISION_SERIAL_KEY
        (Suc (table_serial (serial_table s) POLICY_DECISION_SERIAL_KEY)))"
    using assms(2) by simp
  have "input_generation (s\<lparr>serial_table := t_insert (serial_table s) POLICY_DECISION_SERIAL_KEY n\<rparr>) repository
      = Inr \<lparr>pg_repository = 0, pg_catalog = 0, pg_policy = 0\<rparr>" for n repository
    using assms(3,4) by (simp add: input_generation_def current_serial_def SERIAL_KEY_def
      POLICY_DECISION_SERIAL_KEY_def generation_default_def)
  with assms(1) a show ?thesis by (simp add: record_policy_decision_def Let_def del: allocate_Inr)
qed

lemma sample_valid [simp]: "validate_decision (sample_decision st) = Inr ()" "validate_subject (sample_decision st) = Inr ()"
  by (simp_all add: validate_decision_def validate_subject_def sample_decision_def MAX_SUBJECT_BYTES_def)

lemma sample1_eq: "record_policy_decision 1 open_new (sample_decision Deny) = Inr (sample_record Deny, decision_sample1)"
  unfolding decision_sample1_def sample_record_def
  by (rule record_ok) (simp_all add: open_new_def table_serial_def current_serial_def u64_max_def)

lemma sample1_tables: "policy_input_generation_table decision_sample1 = []" "current_serial decision_sample1 = 0"
  "table_serial (serial_table decision_sample1) POLICY_DECISION_SERIAL_KEY = 1"
proof -
  from sample1_eq obtain hid where s: "decision_sample1 = prune_history (publish_decision
      (open_new\<lparr>serial_table := t_insert (serial_table open_new) POLICY_DECISION_SERIAL_KEY 1\<rparr>)
      hid (subject_key (sample_decision Deny)) (sample_record Deny))"
    by (cases rule: record_policy_decision_cases) (simp add: open_new_def table_serial_def)
  show "policy_input_generation_table decision_sample1 = []" "current_serial decision_sample1 = 0"
    "table_serial (serial_table decision_sample1) POLICY_DECISION_SERIAL_KEY = 1"
    unfolding s current_serial_def
    by (simp_all add: open_new_def table_serial_def SERIAL_KEY_def POLICY_DECISION_SERIAL_KEY_def t_get_def)
qed

lemma sample2_eq: "record_policy_decision 1 decision_sample1 (sample_decision Allow)
   = Inr (sample_record Allow, decision_sample2)"
  unfolding decision_sample2_def sample_record_def
  by (rule record_ok) (simp_all add: sample1_tables u64_max_def)

lemma decision_sample_run: "decision_run [sample_record Deny, sample_record Allow] decision_sample2"
proof -
  have "decision_run ([] @ [sample_record Deny]) decision_sample1"
    using decision_run.opened sample1_eq by (rule decision_run.recorded)
  then have "decision_run (([] @ [sample_record Deny]) @ [sample_record Allow]) decision_sample2"
    using sample2_eq by (rule decision_run.recorded)
  then show ?thesis by simp
qed

theorem policy_history_window_witness:
  "length (policy_decision_table decision_sample2) = 2
    \<and> decode_all (map snd (policy_decision_table decision_sample2)) = Inr [sample_record Deny, sample_record Allow]"
  using policy_history_window [OF decision_sample_run] by (simp add: MAX_DECISION_HISTORY_def)

lemma sample2_generation: "input_generation decision_sample2 ''main'' = Inr \<lparr>pg_repository = 0, pg_catalog = 0, pg_policy = 0\<rparr>"
proof -
  from sample2_eq obtain hid n where s: "decision_sample2 = prune_history (publish_decision
      (decision_sample1\<lparr>serial_table := t_insert (serial_table decision_sample1) POLICY_DECISION_SERIAL_KEY n\<rparr>)
      hid (subject_key (sample_decision Allow)) (sample_record Allow))"
    by (cases rule: record_policy_decision_cases) simp
  show ?thesis
    unfolding s using sample1_tables
    by (simp add: input_generation_def current_serial_def SERIAL_KEY_def POLICY_DECISION_SERIAL_KEY_def generation_default_def)
qed

theorem current_decision_exact_witness:
  "current_policy_decision decision_sample2 (sample_decision Deny) = Inr (Some (sample_record Allow))"
  using current_decision_exact [OF decision_sample_run sample_valid(2) [of Deny]] sample2_generation
  by (simp add: window_start_def sample_record_def sample_decision_def decision_record_def
    record_subject_def subject_key_def MAX_DECISION_HISTORY_def)

theorem policy_pages_complete_witness:
  "walk_pages 3 decision_sample2 (policy_decision_query_default\<lparr>pq_limit := 1\<rparr>) =
    Some (map (item_of decision_sample2) [sample_record Allow, sample_record Deny])"
  using policy_pages_complete [OF decision_sample_run, of "policy_decision_query_default\<lparr>pq_limit := 1\<rparr>" 3]
    history_length [OF decision_sample_run]
  by (simp add: policy_decision_query_default_def MAX_QUERY_LIMIT_def MAX_DECISION_HISTORY_def window_start_def
    matches_query_def)

end
