(* ===== verification/Writer.thy ===== *)
theory Writer
  imports MetaStore
begin

text \<open>
  The persistent single-writer claim, \<open>crates/peryx-storage/src/meta/writer.rs\<close>, and the snapshot
  handle of the metrics aggregator, \<open>analytics.rs\<close>.
\<close>

section \<open>Writer identity\<close>

datatype writer_identity_error =
    WriterStore meta_error
  | WriterEmpty
  | WriterClaimed (claimed_active: string) (claimed_requested: string)
  | WriterChanged (changed_active: "string option") (changed_expected: string)

definition validate_identity :: "string \<Rightarrow> writer_identity_error + unit" where
  "validate_identity identity = (if identity = [] then Inl WriterEmpty else Inr ())"

definition writer_identity :: "meta_store \<Rightarrow> string option" where
  "writer_identity s = t_get (writer_table s) WRITER_KEY"

definition claim_writer_identity :: "meta_store \<Rightarrow> string \<Rightarrow> writer_identity_error + meta_store" where
  "claim_writer_identity s identity =
     rbind (validate_identity identity) (\<lambda>_.
     case t_get (writer_table s) WRITER_KEY of
       None \<Rightarrow> Inr (s\<lparr>writer_table := t_insert (writer_table s) WRITER_KEY identity\<rparr>)
     | Some holder \<Rightarrow> if holder = identity then Inr s else Inl (WriterClaimed holder identity))"

definition promote_writer_identity ::
    "meta_store \<Rightarrow> string \<Rightarrow> string \<Rightarrow> writer_identity_error + meta_store" where
  "promote_writer_identity s expected replacement =
     rbind (validate_identity expected) (\<lambda>_.
     rbind (validate_identity replacement) (\<lambda>_.
     let holder = t_get (writer_table s) WRITER_KEY in
     if holder \<noteq> Some expected then Inl (WriterChanged holder expected)
     else Inr (s\<lparr>writer_table := t_insert (writer_table s) WRITER_KEY replacement\<rparr>)))"

section \<open>Analytics snapshots\<close>

definition ANALYTICS_KEY :: string where "ANALYTICS_KEY = ''downloads''"

definition ANALYTICS_DAILY_KEY :: string where "ANALYTICS_DAILY_KEY = ''daily_usage''"

text \<open>The handle borrows the store weakly: it is \<open>None\<close> once the store has dropped.\<close>

type_synonym analytics_handle = "meta_store option"

definition analytics_read :: "analytics_handle \<Rightarrow> string \<Rightarrow> bytes option" where
  "analytics_read h k = (case h of None \<Rightarrow> None | Some s \<Rightarrow> t_get (analytics_table s) k)"

definition analytics_write :: "analytics_handle \<Rightarrow> string \<Rightarrow> bytes \<Rightarrow> analytics_handle" where
  "analytics_write h k snapshot = (case h of
      None \<Rightarrow> None
    | Some s \<Rightarrow> Some (s\<lparr>analytics_table := t_insert (analytics_table s) k snapshot\<rparr>))"

definition analytics_load :: "analytics_handle \<Rightarrow> bytes option" where
  "analytics_load h = analytics_read h ANALYTICS_KEY"

definition analytics_save :: "analytics_handle \<Rightarrow> bytes \<Rightarrow> analytics_handle" where
  "analytics_save h snapshot = analytics_write h ANALYTICS_KEY snapshot"

definition analytics_load_daily :: "analytics_handle \<Rightarrow> bytes option" where
  "analytics_load_daily h = analytics_read h ANALYTICS_DAILY_KEY"

definition analytics_save_daily :: "analytics_handle \<Rightarrow> bytes \<Rightarrow> analytics_handle" where
  "analytics_save_daily h snapshot = analytics_write h ANALYTICS_DAILY_KEY snapshot"

lemma analytics_snapshots:
  "analytics_load (Some s) = x \<Longrightarrow> analytics_load (analytics_save_daily (Some s) d) = x"
  "analytics_load_daily (Some s) = y \<Longrightarrow> analytics_load_daily (analytics_save (Some s) t) = y"
  "analytics_load (analytics_save (Some s) t) = Some t"
  "analytics_load_daily (analytics_save_daily (Some s) d) = Some d"
  by (auto simp: analytics_load_def analytics_save_def analytics_load_daily_def analytics_save_daily_def
    analytics_read_def analytics_write_def ANALYTICS_KEY_def ANALYTICS_DAILY_KEY_def)

section \<open>Handover\<close>

text \<open>
  Processes attempt claims and promotions in some order; a refused attempt leaves the store as it
  was.  \<open>writer_trace\<close> runs them and collects the promotions that went through.
\<close>

datatype writer_op = Claim string | Promote string string

fun writer_step :: "writer_op \<Rightarrow> meta_store \<Rightarrow> writer_identity_error + meta_store" where
  "writer_step (Claim identity) s = claim_writer_identity s identity"
| "writer_step (Promote expected replacement) s = promote_writer_identity s expected replacement"

fun handed :: "writer_op \<Rightarrow> (string \<times> string) list" where
  "handed (Claim _) = []"
| "handed (Promote expected replacement) = [(expected, replacement)]"

fun writer_trace :: "writer_op list \<Rightarrow> meta_store \<Rightarrow> (string \<times> string) list \<times> meta_store" where
  "writer_trace [] s = ([], s)"
| "writer_trace (a # ops) s =
     (case writer_step a s of
        Inl _ \<Rightarrow> writer_trace ops s
      | Inr s' \<Rightarrow> (let (ps, t) = writer_trace ops s' in (handed a @ ps, t)))"

text \<open>A chain of handovers from one identity to another.\<close>

fun handover :: "string \<Rightarrow> (string \<times> string) list \<Rightarrow> string \<Rightarrow> bool" where
  "handover a [] b \<longleftrightarrow> a = b"
| "handover a ((x, y) # ps) b \<longleftrightarrow> x = a \<and> handover y ps b"

lemma writer_step_identity:
  assumes "writer_step a s = Inr s'" "writer_identity s = Some x"
  shows "\<exists>y. writer_identity s' = Some y \<and> handover x (handed a) y"
  using assms
  by (cases a) (auto simp: claim_writer_identity_def promote_writer_identity_def writer_identity_def
    rbind_eq_Inr Let_def split: if_splits)

lemma handover_append: "handover a ps b \<Longrightarrow> handover b qs c \<Longrightarrow> handover a (ps @ qs) c"
  by (induction a ps b rule: handover.induct) auto

text \<open>C22: The store always has at most one writer and hands over only explicitly: once an identity holds the
  claim, whatever claims and promotions follow, the holder is reached from it by a chain of
  successful promotions, each naming the holder of its moment; every other claim is refused with
  the holder's name.\<close>

theorem writer_handover:
  assumes "writer_identity s = Some a" "writer_trace ops s = (ps, t)"
  shows "\<exists>b. writer_identity t = Some b \<and> handover a ps b
    \<and> (\<forall>c. c \<noteq> [] \<and> c \<noteq> b \<longrightarrow> claim_writer_identity t c = Inl (WriterClaimed b c))"
proof -
  have "\<exists>b. writer_identity t = Some b \<and> handover a ps b"
    using assms
  proof (induction ops arbitrary: s a ps)
    case (Cons op ops)
    show ?case
    proof (cases "writer_step op s")
      case (Inl e)
      with Cons show ?thesis by simp
    next
      case (Inr s')
      with Cons.prems obtain qs where qs: "writer_trace ops s' = (qs, t)" "ps = handed op @ qs"
        by (auto split: prod.splits)
      from writer_step_identity [OF Inr Cons.prems(1)] obtain y where
        "writer_identity s' = Some y" "handover a (handed op) y" by blast
      with Cons.IH [OF _ qs(1)] qs(2) show ?thesis by (blast intro: handover_append)
    qed
  qed simp
  then show ?thesis
    by (auto simp: claim_writer_identity_def validate_identity_def writer_identity_def)
qed

theorem writer_handover_witness:
  "fst (writer_trace [Promote ''a'' ''b'', Claim ''a'', Promote ''a'' ''c''] (open_new\<lparr>writer_table := [(WRITER_KEY, ''a'')]\<rparr>))
     = [(''a'', ''b'')]
   \<and> writer_identity (snd (writer_trace [Promote ''a'' ''b'', Claim ''a'', Promote ''a'' ''c'']
       (open_new\<lparr>writer_table := [(WRITER_KEY, ''a'')]\<rparr>))) = Some ''b''"
proof -
  let ?s = "open_new\<lparr>writer_table := [(WRITER_KEY, ''a'')]\<rparr>"
    and ?ops = "[Promote ''a'' ''b'', Claim ''a'', Promote ''a'' ''c'']"
  have ps: "fst (writer_trace ?ops ?s) = [(''a'', ''b'')]"
    by (simp add: claim_writer_identity_def promote_writer_identity_def validate_identity_def t_get_def Let_def WRITER_KEY_def)
  have "writer_identity ?s = Some ''a''" by (simp add: writer_identity_def t_get_def)
  from writer_handover [OF this, of ?ops "[(''a'', ''b'')]" "snd (writer_trace ?ops ?s)"] ps show ?thesis
    by (auto simp: prod_eq_iff)
qed

end
