(* ===== verification/Blobs.thy ===== *)
theory Blobs
  imports MetaStore
begin

text \<open>
  The content-addressed blob store on a filesystem, \<open>crates/peryx-storage/src/blob/mod.rs\<close> and
  \<open>store.rs\<close>.  The files under the store's root are a table from path components to contents; the
  operating system's own failures (\<open>BlobErrorDetail::Io\<close>) and the temporary files' names are left
  out, and SHA-256 is an argument.
\<close>

datatype blob_error =
    BlobNotFound string
  | DigestMismatch (mismatch_expected: string) (mismatch_actual: string)
  | InvalidRange nat nat nat

section \<open>Digests\<close>

definition to_hex :: "bytes \<Rightarrow> string" where
  "to_hex bs = concat (map (\<lambda>b. [digit_char (of_char b div 16), digit_char (of_char b mod 16)]) bs)"

definition is_lower_hex :: "char \<Rightarrow> bool" where
  "is_lower_hex c \<longleftrightarrow> is_digit c \<or> CHR ''a'' \<le> c \<and> c \<le> CHR ''f''"

definition from_hex :: "string \<Rightarrow> string option" where
  "from_hex hex = (if length hex = 64 \<and> list_all is_lower_hex hex then Some hex else None)"

definition digest_of :: "(bytes \<Rightarrow> bytes) \<Rightarrow> bytes \<Rightarrow> string" where
  "digest_of sha bs = to_hex (sha bs)"

section \<open>Paths\<close>

type_synonym path = "string list"

type_synonym blob_store = "(path, bytes) tbl"

definition path_for :: "string \<Rightarrow> path" where
  "path_for hex = [''sha256'', take 2 hex, take 2 (drop 2 hex), hex]"

definition digest_from_path :: "path \<Rightarrow> string option" where
  "digest_from_path p = (case p of
      [algorithm, first, second, filename] \<Rightarrow>
        if algorithm \<noteq> ''sha256'' \<or> length first \<noteq> 2 \<or> length second \<noteq> 2 \<or> length filename < 4
          \<or> take 2 filename \<noteq> first \<or> take 2 (drop 2 filename) \<noteq> second
        then None else from_hex filename
    | _ \<Rightarrow> None)"

section \<open>Reading and writing\<close>

definition blob_exists :: "blob_store \<Rightarrow> string \<Rightarrow> bool" where
  "blob_exists st d \<longleftrightarrow> t_get st (path_for d) \<noteq> None"

text \<open>\<open>commit_placement\<close>: a no-clobber move, for which an existing destination is success.\<close>

definition place :: "blob_store \<Rightarrow> string \<Rightarrow> bytes \<Rightarrow> blob_store" where
  "place st d bs = (if blob_exists st d then st else t_insert st (path_for d) bs)"

definition blob_write :: "(bytes \<Rightarrow> bytes) \<Rightarrow> blob_store \<Rightarrow> bytes \<Rightarrow> string \<times> blob_store" where
  "blob_write sha st bs = (let d = digest_of sha bs in (d, place st d bs))"

definition write_verified :: "(bytes \<Rightarrow> bytes) \<Rightarrow> blob_store \<Rightarrow> bytes \<Rightarrow> string \<Rightarrow> blob_error + blob_store" where
  "write_verified sha st bs expected =
     (let actual = digest_of sha bs in
      if actual \<noteq> expected then Inl (DigestMismatch expected actual)
      else Inr (snd (blob_write sha st bs)))"

definition blob_read :: "blob_store \<Rightarrow> string \<Rightarrow> blob_error + bytes" where
  "blob_read st d = ok_or (BlobNotFound d) (t_get st (path_for d))"

definition blob_head :: "blob_store \<Rightarrow> string \<Rightarrow> nat option" where
  "blob_head st d = map_option length (t_get st (path_for d))"

definition read_range :: "blob_store \<Rightarrow> string \<Rightarrow> nat \<Rightarrow> nat \<Rightarrow> blob_error + bytes" where
  "read_range st d start stop =
     rbind (blob_read st d) (\<lambda>bs.
     if start > stop \<or> stop > length bs then Inl (InvalidRange start stop (length bs))
     else Inr (take (stop - start) (drop start bs)))"

record blob_entry =
  be_path :: path
  be_digest :: "string option"
  be_bytes :: nat

text \<open>The walk visits every file under \<open>sha256\<close>; a visitor's error ends it.\<close>

definition blob_scan :: "blob_store \<Rightarrow> blob_entry list" where
  "blob_scan st = map (\<lambda>(p, bs). \<lparr>be_path = p, be_digest = digest_from_path p, be_bytes = length bs\<rparr>)
     (filter (\<lambda>(p, bs). p \<noteq> [] \<and> hd p = ''sha256'') st)"

definition blob_verify :: "(bytes \<Rightarrow> bytes) \<Rightarrow> blob_store \<Rightarrow> string \<Rightarrow> blob_error + bool" where
  "blob_verify sha st d = rbind (blob_read st d) (\<lambda>bs. Inr (digest_of sha bs = d))"

definition blob_remove :: "blob_store \<Rightarrow> string \<Rightarrow> bool \<times> blob_store" where
  "blob_remove st d = (blob_exists st d, t_remove st (path_for d))"

section \<open>Streamed writes\<close>

text \<open>The hasher is fed the bytes that were written, so its state is the bytes themselves.\<close>

record pending_blob =
  pb_file :: bytes
  pb_hashed :: bytes
  pb_len :: nat

record staged_blob =
  sb_file :: bytes
  sb_digest :: string
  sb_len :: nat

definition blob_begin :: pending_blob where
  "blob_begin = \<lparr>pb_file = [], pb_hashed = [], pb_len = 0\<rparr>"

definition pending_write :: "pending_blob \<Rightarrow> bytes \<Rightarrow> pending_blob" where
  "pending_write p chunk = p\<lparr>pb_file := pb_file p @ chunk, pb_hashed := pb_hashed p @ chunk,
     pb_len := pb_len p + length chunk\<rparr>"

definition pending_finish :: "(bytes \<Rightarrow> bytes) \<Rightarrow> pending_blob \<Rightarrow> staged_blob" where
  "pending_finish sha p = \<lparr>sb_file = pb_file p, sb_digest = digest_of sha (pb_hashed p), sb_len = pb_len p\<rparr>"

definition commit_staged :: "blob_store \<Rightarrow> staged_blob \<Rightarrow> blob_store" where
  "commit_staged st staged = place st (sb_digest staged) (sb_file staged)"

definition blob_commit ::
    "(bytes \<Rightarrow> bytes) \<Rightarrow> blob_store \<Rightarrow> pending_blob \<Rightarrow> string \<Rightarrow> blob_error + blob_store" where
  "blob_commit sha st pending expected =
     (let staged = pending_finish sha pending in
      if sb_digest staged \<noteq> expected then Inl (DigestMismatch expected (sb_digest staged))
      else Inr (commit_staged st staged))"

section \<open>Addresses\<close>

lemma digit_char_lower: "d < 16 \<Longrightarrow> is_lower_hex (digit_char d)"
proof -
  assume "d < 16"
  then have "d \<in> set [0..<16]" by simp
  then show ?thesis
    by (auto simp: upt_rec numeral_eq_Suc is_lower_hex_def digit_char_def is_digit_def less_eq_char_def)
qed

lemma to_hex_wf: "length (to_hex bs) = 2 * length bs \<and> list_all is_lower_hex (to_hex bs)"
proof (induction bs)
  case (Cons b bs)
  have "of_char b < (256 :: nat)" by simp
  then have "of_char b div 16 < (16 :: nat)" "of_char b mod 16 < (16 :: nat)" by (simp_all add: less_mult_imp_div_less)
  with Cons show ?case by (simp add: to_hex_def digit_char_lower)
qed (simp add: to_hex_def)

lemma from_hex_digest: "length (sha bs) = 32 \<Longrightarrow> from_hex (digest_of sha bs) = Some (digest_of sha bs)"
  using to_hex_wf [of "sha bs"] by (simp add: from_hex_def digest_of_def)

lemma from_hex_Some: "from_hex d = Some e \<longleftrightarrow> e = d \<and> length d = 64 \<and> list_all is_lower_hex d"
  by (auto simp: from_hex_def)

lemma digest_from_path_Some:
  "digest_from_path p = Some d \<longleftrightarrow> p = path_for d \<and> from_hex d = Some d"
  by (auto simp: digest_from_path_def path_for_def from_hex_Some split: list.split if_splits)

lemma path_for_inj [simp]: "path_for d = path_for e \<longleftrightarrow> d = e"
  by (auto simp: path_for_def)

section \<open>Everything present is correct\<close>

lemma pending_chunks: "fold (\<lambda>c p. pending_write p c) chunks p =
   \<lparr>pb_file = pb_file p @ concat chunks, pb_hashed = pb_hashed p @ concat chunks,
    pb_len = pb_len p + length (concat chunks)\<rparr>"
  by (induction chunks arbitrary: p) (simp_all add: pending_write_def)

inductive blob_run :: "(bytes \<Rightarrow> bytes) \<Rightarrow> blob_store \<Rightarrow> bool" for sha where
  blob_fresh: "blob_run sha []"
| blob_written: "blob_run sha st \<Longrightarrow> blob_run sha (snd (blob_write sha st bs))"
| blob_written_verified: "blob_run sha st \<Longrightarrow> write_verified sha st bs d = Inr st' \<Longrightarrow> blob_run sha st'"
| blob_streamed: "blob_run sha st \<Longrightarrow>
    blob_commit sha st (fold (\<lambda>c p. pending_write p c) chunks blob_begin) d = Inr st' \<Longrightarrow> blob_run sha st'"
| blob_removed: "blob_run sha st \<Longrightarrow> blob_run sha (snd (blob_remove st d))"

definition blobs_ok :: "(bytes \<Rightarrow> bytes) \<Rightarrow> blob_store \<Rightarrow> bool" where
  "blobs_ok sha st \<longleftrightarrow> t_wf st \<and> (\<forall>(p, bs) \<in> set st. p = path_for (digest_of sha bs))"

lemma blobs_ok_place: "blobs_ok sha st \<Longrightarrow> blobs_ok sha (place st (digest_of sha bs) bs)"
  using t_insert_set [of st "path_for (digest_of sha bs)" bs] by (auto simp: blobs_ok_def place_def)

lemma blob_run_ok: "blob_run sha st \<Longrightarrow> blobs_ok sha st"
proof (induction rule: blob_run.induct)
  case (blob_written st bs)
  then show ?case by (simp add: blob_write_def Let_def blobs_ok_place)
next
  case (blob_written_verified st bs d st')
  then show ?case by (auto simp: write_verified_def blob_write_def Let_def blobs_ok_place split: if_splits)
next
  case (blob_streamed st chunks d st')
  then show ?case
    by (auto simp: blob_commit_def pending_chunks blob_begin_def pending_finish_def commit_staged_def Let_def
      blobs_ok_place split: if_splits)
next
  case (blob_removed st d)
  then show ?case by (auto simp: blob_remove_def blobs_ok_def t_remove_def t_wf_remove [unfolded t_remove_def])
qed (simp add: blobs_ok_def)

text \<open>C11: Anything present in the blob store is correct by construction: after any writes, streamed writes and
  removals, the bytes read under a digest hash to it, verification never reports a corrupt blob, and
  a walk of the tree recovers from every file's path the digest it is stored under.\<close>

theorem blob_store_sound:
  assumes "blob_run sha st" "\<forall>bs. length (sha bs) = 32"
  shows "(\<forall>d bs. blob_read st d = Inr bs \<longrightarrow> digest_of sha bs = d)
    \<and> (\<forall>d. blob_verify sha st d \<noteq> Inr False)
    \<and> (\<forall>e \<in> set (blob_scan st). \<exists>d bs. be_digest e = Some d \<and> be_path e = path_for d
        \<and> blob_read st d = Inr bs \<and> be_bytes e = length bs)"
proof -
  from blob_run_ok [OF assms(1)] have wf: "t_wf st"
    and ok: "\<And>p bs. (p, bs) \<in> set st \<Longrightarrow> p = path_for (digest_of sha bs)" by (auto simp: blobs_ok_def)
  have read: "digest_of sha bs = d" if "blob_read st d = Inr bs" for d bs
    using that ok [of "path_for d" bs] by (auto simp: blob_read_def dest: t_get_mem)
  have "\<exists>d bs. be_digest e = Some d \<and> be_path e = path_for d \<and> blob_read st d = Inr bs \<and> be_bytes e = length bs"
    if "e \<in> set (blob_scan st)" for e
  proof -
    from that obtain p bs where e: "e = \<lparr>be_path = p, be_digest = digest_from_path p, be_bytes = length bs\<rparr>"
      "(p, bs) \<in> set st" by (auto simp: blob_scan_def)
    then have p: "p = path_for (digest_of sha bs)" using ok by blast
    moreover have "from_hex (digest_of sha bs) = Some (digest_of sha bs)" using assms(2) from_hex_digest by blast
    ultimately have "digest_from_path p = Some (digest_of sha bs)" by (simp add: digest_from_path_Some)
    moreover have "blob_read st (digest_of sha bs) = Inr bs"
      using e(2) t_get_iff [OF wf, of p bs] p by (simp add: blob_read_def)
    ultimately show ?thesis using p e(1) by auto
  qed
  with read show ?thesis by (auto simp: blob_verify_def rbind_eq_Inr)
qed

definition sample_sha :: "bytes \<Rightarrow> bytes" where
  "sample_sha bs = take 32 (bs @ replicate 32 CHR ''x'')"

theorem blob_store_sound_witness:
  "blob_verify sample_sha (snd (blob_write sample_sha [] ''abc'')) (digest_of sample_sha ''abc'') \<noteq> Inr False"
proof -
  have "\<forall>bs. length (sample_sha bs) = 32" by (simp add: sample_sha_def) linarith
  from blob_store_sound [OF blob_written [OF blob_fresh] this] show ?thesis by blast
qed

text \<open>C12: A streamed write is published exactly when the bytes of all its chunks hash to the expected digest;
  then that digest reads back bytes with that hash, the streamed ones when it was absent before, and
  every other blob reads as it did.  Otherwise the mismatch is reported and nothing is published.\<close>

theorem blob_stream_roundtrip:
  assumes "blob_run sha st"
  shows "blob_commit sha st (fold (\<lambda>c p. pending_write p c) chunks blob_begin) d =
      (if digest_of sha (concat chunks) = d then Inr (place st d (concat chunks))
       else Inl (DigestMismatch d (digest_of sha (concat chunks))))
    \<and> (\<exists>bs. blob_read (place st (digest_of sha (concat chunks)) (concat chunks)) (digest_of sha (concat chunks)) = Inr bs
        \<and> digest_of sha bs = digest_of sha (concat chunks)
        \<and> (blob_exists st (digest_of sha (concat chunks)) \<or> bs = concat chunks))
    \<and> (\<forall>e. e \<noteq> d \<longrightarrow> blob_read (place st d (concat chunks)) e = blob_read st e)"
proof -
  let ?d = "digest_of sha (concat chunks)"
  from blob_run_ok [OF assms] have "digest_of sha bs = e" if "t_get st (path_for e) = Some bs" for e bs
    using that by (auto simp: blobs_ok_def dest!: t_get_mem)
  then have "\<exists>bs. blob_read (place st ?d (concat chunks)) ?d = Inr bs \<and> digest_of sha bs = ?d
      \<and> (blob_exists st ?d \<or> bs = concat chunks)"
    by (cases "t_get st (path_for ?d)") (auto simp: place_def blob_exists_def blob_read_def)
  moreover have "blob_read (place st d (concat chunks)) e = blob_read st e" if "e \<noteq> d" for e
    using that by (simp add: place_def blob_read_def)
  ultimately show ?thesis
    by (auto simp: blob_commit_def pending_chunks blob_begin_def pending_finish_def commit_staged_def Let_def)
qed

theorem blob_stream_roundtrip_witness:
  "blob_commit sample_sha [] (fold (\<lambda>c p. pending_write p c) [''a'', ''bc''] blob_begin) ''00''
     = Inl (DigestMismatch ''00'' (digest_of sample_sha ''abc''))"
proof -
  have "length (digest_of sample_sha ''abc'') = 64"
    using to_hex_wf [of "sample_sha ''abc''"] by (simp add: digest_of_def sample_sha_def)
  then have "digest_of sample_sha ''abc'' \<noteq> ''00''" by auto
  then show ?thesis using blob_stream_roundtrip [OF blob_fresh, of sample_sha "[''a'', ''bc'']" "''00''"] by simp
qed

end
