(* ===== verification/Replication.thy ===== *)
theory Replication
  imports Journal Blobs Acl
begin

text \<open>
  Replication: the change pages a primary serves and the follower that verifies and commits one
  page at a time, \<open>crates/peryx-replication/src/protocol.rs\<close>, \<open>replica.rs\<close> and the endpoints of
  \<open>http.rs\<close>.  The transport is the \<open>Primary\<close> trait, two functions of the model; serde's encoding of
  the follower's state is a pair of functions.
\<close>

section \<open>The protocol\<close>

definition PROTOCOL_VERSION :: nat where "PROTOCOL_VERSION = 1"

datatype wire_blob = WireBlob (wb_sha256: string) (wb_size: nat)

fun wire_blob_from :: "driver_blob_reference \<Rightarrow> wire_blob" where
  "wire_blob_from (BlobReference sha256 sz) = WireBlob sha256 sz"

datatype metadata_mutation = MetaPut string bytes | MetaDelete string

fun mutation_key :: "metadata_mutation \<Rightarrow> string" where
  "mutation_key (MetaPut k v) = k"
| "mutation_key (MetaDelete k) = k"

fun metadata_mutation_from :: "driver_mutation \<Rightarrow> metadata_mutation" where
  "metadata_mutation_from (Put k v) = MetaPut k v"
| "metadata_mutation_from (Delete_key k) = MetaDelete k"

record change =
  ch_serial :: nat
  ch_event :: bytes
  ch_metadata :: "metadata_mutation list"
  ch_blobs :: "wire_blob list"

record change_page =
  cp_version :: nat
  cp_source :: string
  cp_after :: nat
  cp_current_serial :: nat
  cp_changes :: "change list"

section \<open>The primary's endpoints\<close>

definition DEFAULT_MAX_CHANGE_PAGE_SIZE :: nat where "DEFAULT_MAX_CHANGE_PAGE_SIZE = 1000"

record primary_http_state =
  ph_source :: string
  ph_token :: string
  ph_meta :: meta_store
  ph_blobs :: blob_store

datatype primary_http_config_error = PrimaryEmptySource | PrimaryEmptyToken

definition primary_router ::
    "string \<Rightarrow> string \<Rightarrow> meta_store \<Rightarrow> blob_store \<Rightarrow> primary_http_config_error + primary_http_state" where
  "primary_router source token meta blobs =
     (if source = [] then Inl PrimaryEmptySource
      else if token = [] then Inl PrimaryEmptyToken
      else Inr \<lparr>ph_source = source, ph_token = token, ph_meta = meta, ph_blobs = blobs\<rparr>)"

definition constant_time_eq :: "bytes \<Rightarrow> bytes \<Rightarrow> bool" where
  "constant_time_eq left right \<longleftrightarrow> length left = length right
     \<and> foldl (\<lambda>difference (l, r). difference OR (of_char l XOR of_char r)) (0::nat) (zip left right) = 0"

text \<open>The value of the \<open>Authorization\<close> header, when the request has one that is text.\<close>

definition authorized :: "string option \<Rightarrow> string \<Rightarrow> bool" where
  "authorized header expected \<longleftrightarrow>
     is_some_and (Option.bind header (strip_prefix ''Bearer '')) (\<lambda>presented. constant_time_eq presented expected)"

datatype 'a primary_response = Unauthorized401 | BadRequest400 | NotFound404 | ServerError500 | Ok200 'a

definition change_of :: "journal_record \<Rightarrow> change" where
  "change_of r = \<lparr>ch_serial = jr_serial r, ch_event = jr_payload r,
     ch_metadata = map metadata_mutation_from (jr_mutations r), ch_blobs = map wire_blob_from (jr_blobs r)\<rparr>"

definition serve_changes ::
    "primary_http_state \<Rightarrow> string option \<Rightarrow> nat \<Rightarrow> nat \<Rightarrow> change_page primary_response" where
  "serve_changes st header after limit =
     (if \<not> authorized header (ph_token st) then Unauthorized401
      else if limit = 0 \<or> limit > DEFAULT_MAX_CHANGE_PAGE_SIZE then BadRequest400
      else case journal_page_after (ph_meta st) after limit of
        Inr (serial, records) \<Rightarrow> Ok200 \<lparr>cp_version = PROTOCOL_VERSION, cp_source = ph_source st,
          cp_after = after, cp_current_serial = serial, cp_changes = map change_of records\<rparr>
      | Inl _ \<Rightarrow> ServerError500)"

definition serve_blob :: "primary_http_state \<Rightarrow> string option \<Rightarrow> string \<Rightarrow> bytes primary_response" where
  "serve_blob st header encoded =
     (if \<not> authorized header (ph_token st) then Unauthorized401
      else case from_hex encoded of
        None \<Rightarrow> BadRequest400
      | Some d \<Rightarrow> (case blob_read (ph_blobs st) d of Inr bs \<Rightarrow> Ok200 bs | Inl _ \<Rightarrow> NotFound404))"

section \<open>The follower\<close>

definition REPLICA_KEY_PREFIX :: string where "REPLICA_KEY_PREFIX = ''replication'' @ [CHR 0x00]"

definition REPLICA_STATE_KEY :: string where "REPLICA_STATE_KEY = REPLICA_KEY_PREFIX @ ''state''"

record replica_state =
  rs_source :: string
  rs_serial :: nat

record sync_outcome =
  so_changes :: nat
  so_blobs :: nat
  so_serial :: nat
  so_primary_serial :: nat

definition caught_up :: "sync_outcome \<Rightarrow> bool" where
  "caught_up o1 \<longleftrightarrow> so_serial o1 = so_primary_serial o1"

datatype 'e sync_error =
    SyncPrimary 'e
  | SyncStore meta_error
  | SyncBlob blob_error
  | SyncState
  | UnsupportedVersion nat nat
  | EmptySource
  | WrongPageStart nat nat
  | SerialGap nat nat
  | PrimaryBehind nat nat
  | MissingChanges nat nat
  | PageTooLarge nat nat
  | SourceChanged string string
  | LocalSerialMismatch nat nat
  | InvalidDigest string
  | ConflictingBlobSize string nat nat
  | BlobSizeMismatch string nat nat
  | CorruptBlob string
  | ReservedMetadataKey string

definition state_cursor :: "replica_state option \<Rightarrow> nat" where
  "state_cursor st = (case st of None \<Rightarrow> 0 | Some r \<Rightarrow> rs_serial r)"

definition replica_state_of ::
    "(bytes \<Rightarrow> replica_state option) \<Rightarrow> meta_store \<Rightarrow> 'e sync_error + replica_state option" where
  "replica_state_of dec s =
     rbind (case get_driver_value s REPLICA_STATE_KEY of
        None \<Rightarrow> Inr None
      | Some raw \<Rightarrow> (case dec raw of None \<Rightarrow> Inl SyncState | Some st \<Rightarrow> Inr (Some st))) (\<lambda>state.
     if current_serial s \<noteq> state_cursor state
     then Inl (LocalSerialMismatch (state_cursor state) (current_serial s))
     else Inr state)"

record validated_page =
  vp_source :: string
  vp_through :: nat
  vp_primary_serial :: nat
  vp_journal :: "bytes list"
  vp_metadata :: "(string, bytes option) tbl"
  vp_blobs :: "(string, string \<times> nat) tbl"

fun validate_metadata ::
    "metadata_mutation list \<Rightarrow> (string, bytes option) tbl \<Rightarrow> 'e sync_error + (string, bytes option) tbl" where
  "validate_metadata [] metadata = Inr metadata"
| "validate_metadata (m # ms) metadata =
     (if starts_with (mutation_key m) REPLICA_KEY_PREFIX then Inl (ReservedMetadataKey (mutation_key m))
      else validate_metadata ms (case m of
          MetaPut k v \<Rightarrow> t_insert metadata k (Some v)
        | MetaDelete k \<Rightarrow> t_insert metadata k None))"

fun validate_blobs ::
    "wire_blob list \<Rightarrow> (string, string \<times> nat) tbl \<Rightarrow> 'e sync_error + (string, string \<times> nat) tbl" where
  "validate_blobs [] blobs = Inr blobs"
| "validate_blobs (b # bs) blobs =
     (case from_hex (wb_sha256 b) of
        None \<Rightarrow> Inl (InvalidDigest (wb_sha256 b))
      | Some digest \<Rightarrow>
          (case t_get blobs (wb_sha256 b) of
             Some (_, first) \<Rightarrow>
               if first \<noteq> wb_size b then Inl (ConflictingBlobSize (wb_sha256 b) first (wb_size b))
               else validate_blobs bs (t_insert blobs (wb_sha256 b) (digest, wb_size b))
           | None \<Rightarrow> validate_blobs bs (t_insert blobs (wb_sha256 b) (digest, wb_size b))))"

fun validate_changes :: "change list \<Rightarrow> validated_page \<Rightarrow> 'e sync_error + validated_page" where
  "validate_changes [] v = Inr v"
| "validate_changes (c # cs) v =
     (if checked_sub_u64 (ch_serial c) 1 \<noteq> Some (vp_through v) then Inl (SerialGap (vp_through v) (ch_serial c))
      else
        rbind (validate_metadata (ch_metadata c) (vp_metadata v)) (\<lambda>metadata.
        rbind (validate_blobs (ch_blobs c) (vp_blobs v)) (\<lambda>blobs.
        validate_changes cs (v\<lparr>vp_through := ch_serial c, vp_journal := vp_journal v @ [ch_event c],
          vp_metadata := metadata, vp_blobs := blobs\<rparr>))))"

definition validated_page_new ::
    "change_page \<Rightarrow> nat \<Rightarrow> nat \<Rightarrow> replica_state option \<Rightarrow> 'e sync_error + validated_page" where
  "validated_page_new page after limit state =
     (if cp_version page \<noteq> PROTOCOL_VERSION then Inl (UnsupportedVersion (cp_version page) PROTOCOL_VERSION)
      else if cp_source page = [] then Inl EmptySource
      else if cp_after page \<noteq> after then Inl (WrongPageStart after (cp_after page))
      else if length (cp_changes page) > limit then Inl (PageTooLarge limit (length (cp_changes page)))
      else if is_some_and state (\<lambda>st. rs_source st \<noteq> cp_source page)
      then Inl (SourceChanged (rs_source (the state)) (cp_source page))
      else
        rbind (validate_changes (cp_changes page) \<lparr>vp_source = cp_source page, vp_through = after,
          vp_primary_serial = cp_current_serial page, vp_journal = [], vp_metadata = [], vp_blobs = []\<rparr>) (\<lambda>v.
        if cp_current_serial page < vp_through v then Inl (PrimaryBehind (cp_current_serial page) (vp_through v))
        else if vp_journal v = [] \<and> cp_current_serial page > after
        then Inl (MissingChanges after (cp_current_serial page))
        else Inr v))"

section \<open>Fetching blobs\<close>

text \<open>One blob's stream: chunks or an error, each checked against the announced size.\<close>

fun stream_blob ::
    "string \<Rightarrow> nat \<Rightarrow> ('e + bytes) list \<Rightarrow> nat \<Rightarrow> pending_blob \<Rightarrow> 'e sync_error + (nat \<times> pending_blob)" where
  "stream_blob digest sz [] actual pending = Inr (actual, pending)"
| "stream_blob digest sz (Inl e # chunks) actual pending = Inl (SyncPrimary e)"
| "stream_blob digest sz (Inr chunk # chunks) actual pending =
     (if length chunk > sz - actual
      then Inl (BlobSizeMismatch digest sz (saturating_add_u64 actual (length chunk)))
      else stream_blob digest sz chunks (actual + length chunk) (pending_write pending chunk))"

definition fetch_blob ::
    "(bytes \<Rightarrow> bytes) \<Rightarrow> (string \<Rightarrow> 'e + ('e + bytes) list) \<Rightarrow> string \<times> nat \<Rightarrow> blob_store
      \<Rightarrow> 'e sync_error + (nat \<times> blob_store)" where
  "fetch_blob sha blob entry st =
     (let (digest, sz) = entry in
      case blob_head st digest of
        Some bytes \<Rightarrow>
          if bytes \<noteq> sz then Inl (BlobSizeMismatch digest sz bytes)
          else rbind (map_err SyncBlob (blob_verify sha st digest)) (\<lambda>ok.
            if ok then Inr (0, st) else Inl (CorruptBlob digest))
      | None \<Rightarrow>
          rbind (map_err SyncPrimary (blob digest)) (\<lambda>chunks.
          rbind (stream_blob digest sz chunks 0 blob_begin) (\<lambda>(actual, pending).
          if actual \<noteq> sz then Inl (BlobSizeMismatch digest sz actual)
          else rbind (map_err SyncBlob (blob_commit sha st pending digest)) (\<lambda>st. Inr (1, st)))))"

text \<open>Blobs published before a failure stay published.\<close>

fun fetch_blobs ::
    "(bytes \<Rightarrow> bytes) \<Rightarrow> (string \<Rightarrow> 'e + ('e + bytes) list) \<Rightarrow> (string \<times> nat) list \<Rightarrow> nat \<Rightarrow> blob_store
      \<Rightarrow> ('e sync_error + nat) \<times> blob_store" where
  "fetch_blobs sha blob [] fetched st = (Inr fetched, st)"
| "fetch_blobs sha blob (b # bs) fetched st =
     (case fetch_blob sha blob b st of
        Inl e \<Rightarrow> (Inl e, st)
      | Inr (n, st) \<Rightarrow> fetch_blobs sha blob bs (fetched + n) st)"

section \<open>One page\<close>

definition apply_row :: "string \<times> bytes option \<Rightarrow> driver_txn \<Rightarrow> driver_txn" where
  "apply_row row txn = (case snd row of
      Some v \<Rightarrow> txn_put txn (fst row) v
    | None \<Rightarrow> snd (txn_remove txn (fst row)))"

definition replica_body :: "(replica_state \<Rightarrow> bytes) \<Rightarrow> validated_page \<Rightarrow> (unit, 'e sync_error) txn_body" where
  "replica_body enc v txn =
     (let txn = fold apply_row (vp_metadata v) txn;
          txn = fold (\<lambda>(digest, sz) txn. txn_reference_blob txn digest sz) (map snd (vp_blobs v)) txn;
          txn = txn_put_local txn REPLICA_STATE_KEY (enc \<lparr>rs_source = vp_source v, rs_serial = vp_through v\<rparr>) in
      Inr (((), vp_journal v), txn))"

definition sync_once ::
    "(bytes \<Rightarrow> bytes) \<Rightarrow> (replica_state \<Rightarrow> bytes) \<Rightarrow> (bytes \<Rightarrow> replica_state option)
      \<Rightarrow> (nat \<Rightarrow> nat \<Rightarrow> 'e + change_page) \<Rightarrow> (string \<Rightarrow> 'e + ('e + bytes) list) \<Rightarrow> nat
      \<Rightarrow> meta_store \<times> blob_store \<Rightarrow> ('e sync_error + sync_outcome) \<times> meta_store \<times> blob_store" where
  "sync_once sha enc dec changes blob page_limit store =
     (let (s, st) = store in
      case replica_state_of dec s of
        Inl e \<Rightarrow> (Inl e, s, st)
      | Inr state \<Rightarrow>
          let after = state_cursor state in
          (case rbind (map_err SyncPrimary (changes after page_limit)) (\<lambda>page.
              validated_page_new page after page_limit state) of
             Inl e \<Rightarrow> (Inl e, s, st)
           | Inr v \<Rightarrow>
               (case fetch_blobs sha blob (map snd (vp_blobs v)) 0 st of
                  (Inl e, st) \<Rightarrow> (Inl e, s, st)
                | (Inr fetched, st) \<Rightarrow>
                    if vp_journal v = [] then
                      (Inr \<lparr>so_changes = 0, so_blobs = fetched, so_serial = after,
                        so_primary_serial = vp_primary_serial v\<rparr>, s, st)
                    else
                      (case commit_replica_txn SyncStore after (replica_body enc v) s of
                         Inl e \<Rightarrow> (Inl e, s, st)
                       | Inr (_, s) \<Rightarrow>
                           (Inr \<lparr>so_changes = length (vp_journal v), so_blobs = fetched,
                             so_serial = vp_through v, so_primary_serial = vp_primary_serial v\<rparr>, s, st)))))"

section \<open>Validation accepts what a primary serves\<close>

lemma constant_time_eq_iff: "constant_time_eq a b \<longleftrightarrow> a = b"
  using secrets_match_iff [of a b] by (auto simp: constant_time_eq_def secrets_match_def)

abbreviation reserved :: "string \<Rightarrow> bool" where
  "reserved k \<equiv> starts_with k REPLICA_KEY_PREFIX"

definition stage_row :: "metadata_mutation \<Rightarrow> (string, bytes option) tbl \<Rightarrow> (string, bytes option) tbl" where
  "stage_row m t = (case m of MetaPut k v \<Rightarrow> t_insert t k (Some v) | MetaDelete k \<Rightarrow> t_insert t k None)"

lemma validate_metadata_ok:
  "list_all (\<lambda>m. \<not> reserved (mutation_key m)) ms \<Longrightarrow> validate_metadata ms t = Inr (fold stage_row ms t)"
  by (induction ms arbitrary: t) (simp_all add: stage_row_def)

lemma stage_rows_wf: "t_wf t \<Longrightarrow> t_wf (fold stage_row ms t)"
proof (induction ms arbitrary: t)
  case (Cons m ms)
  then show ?case by (cases m) (simp_all add: stage_row_def)
qed simp

lemma stage_rows_keys:
  "t_get (fold stage_row ms t) k \<noteq> None \<Longrightarrow> t_get t k \<noteq> None \<or> k \<in> mutation_key ` set ms"
proof (induction ms arbitrary: t)
  case (Cons m ms)
  have "t_get (stage_row m t) k = None" if "t_get t k = None" "k \<noteq> mutation_key m"
    using that by (cases m) (simp_all add: stage_row_def)
  with Cons.IH [of "stage_row m t"] Cons.prems show ?case by fastforce
qed simp

text \<open>Staging the mutations of a page and overlaying the result is replaying them in order.\<close>

definition overlay :: "(string, bytes option) tbl \<Rightarrow> (string, bytes) tbl \<Rightarrow> string \<Rightarrow> bytes option" where
  "overlay rows t k = (case t_get rows k of None \<Rightarrow> t_get t k | Some v \<Rightarrow> v)"

lemma overlay_replay:
  assumes "\<And>k. t_get u k = overlay rows t k"
  shows "t_get (replay ms u) k = overlay (fold stage_row (map metadata_mutation_from ms) rows) t k"
  using assms
proof (induction ms arbitrary: u rows)
  case (Cons m ms)
  have "t_get (apply_mutation m u) j = overlay (stage_row (metadata_mutation_from m) rows) t j" for j
    using Cons.prems by (cases m) (auto simp: overlay_def stage_row_def)
  from Cons.IH [OF this] show ?case by (simp add: replay_def)
qed (simp add: replay_def)

lemma apply_rows:
  assumes "distinct (map fst rows)" "t_wf (dt_table txn)"
  shows "t_wf (dt_table (fold apply_row rows txn))
    \<and> t_get (dt_table (fold apply_row rows txn)) k = overlay rows (dt_table txn) k"
  using assms
proof (induction rows arbitrary: txn)
  case (Cons r rows)
  obtain j v where r: "r = (j, v)" by (cases r)
  have table: "dt_table (apply_row (j, v) txn) = (case v of None \<Rightarrow> t_remove (dt_table txn) j | Some x \<Rightarrow> t_insert (dt_table txn) j x)"
    by (simp add: apply_row_def txn_put_def txn_upsert_def txn_remove_def Let_def split: option.split)
  have "t_wf (dt_table (apply_row r txn))" using Cons.prems(2) by (simp add: r table split: option.split)
  with Cons have IH: "t_wf (dt_table (fold apply_row rows (apply_row r txn)))
    \<and> t_get (dt_table (fold apply_row rows (apply_row r txn))) k = overlay rows (dt_table (apply_row r txn)) k" by simp
  have "t_get rows j = None" using Cons.prems(1) r by (force simp: t_get_None)
  then have "overlay rows (dt_table (apply_row r txn)) k = overlay (r # rows) (dt_table txn) k"
    by (auto simp: overlay_def r table t_get_Cons split: option.split)
  with IH show ?case by simp
qed (simp add: overlay_def)

lemma reference_blobs_table:
  "dt_table (fold (\<lambda>(digest, sz) txn. txn_reference_blob txn digest sz) bs txn) = dt_table txn"
  by (induction bs arbitrary: txn) (auto simp: txn_reference_blob_def)

section \<open>Blobs of the primary\<close>

text \<open>The primary's store holds a blob of the announced size.\<close>

definition holds_blob :: "blob_store \<Rightarrow> string \<Rightarrow> nat \<Rightarrow> bool" where
  "holds_blob B d sz \<longleftrightarrow> from_hex d = Some d \<and> (\<exists>bs. t_get B (path_for d) = Some bs \<and> length bs = sz)"

definition staged_blobs_ok :: "blob_store \<Rightarrow> (string, string \<times> nat) tbl \<Rightarrow> bool" where
  "staged_blobs_ok B t \<longleftrightarrow> (\<forall>k d sz. t_get t k = Some (d, sz) \<longrightarrow> d = k \<and> holds_blob B d sz) \<and> t_wf t"

lemma validate_blobs_ok:
  assumes "list_all (\<lambda>b. holds_blob B (wb_sha256 b) (wb_size b)) bs" "staged_blobs_ok B t"
  shows "\<exists>t'. validate_blobs bs t = Inr t' \<and> staged_blobs_ok B t'
    \<and> set (map fst t') = set (map fst t) \<union> wb_sha256 ` set bs"
  using assms
proof (induction bs arbitrary: t)
  case (Cons b bs)
  have h: "holds_blob B (wb_sha256 b) (wb_size b)" using Cons.prems(1) by simp
  then have hex: "from_hex (wb_sha256 b) = Some (wb_sha256 b)" by (simp add: holds_blob_def)
  have "first = wb_size b" if "t_get t (wb_sha256 b) = Some (d, first)" for d first
    using that h Cons.prems(2) unfolding staged_blobs_ok_def holds_blob_def by (metis option.inject)
  then have step: "validate_blobs (b # bs) t = validate_blobs bs (t_insert t (wb_sha256 b) (wb_sha256 b, wb_size b))"
    by (auto simp: hex split: option.split)
  have "staged_blobs_ok B (t_insert t (wb_sha256 b) (wb_sha256 b, wb_size b))"
    using Cons.prems(2) h unfolding staged_blobs_ok_def by auto
  from Cons.IH [OF _ this] Cons.prems(1) show ?case unfolding step t_insert_keys by simp
qed simp

lemma stream_chunks:
  assumes "actual + length (concat chunks) \<le> sz"
  shows "stream_blob d sz (map Inr chunks) actual p
    = Inr (actual + length (concat chunks), fold (\<lambda>c p. pending_write p c) chunks p)"
  using assms by (induction chunks arbitrary: actual p) simp_all

text \<open>What the follower has fetched is what the primary has.\<close>

definition blobs_within :: "blob_store \<Rightarrow> blob_store \<Rightarrow> bool" where
  "blobs_within st B \<longleftrightarrow> (\<forall>p bs. t_get st p = Some bs \<longrightarrow> t_get B p = Some bs)"

lemma fetch_blob_ok:
  assumes B: "blobs_ok sha B" and within: "blobs_within st B" and h: "holds_blob B d sz"
    and blob: "\<And>bs. t_get B (path_for d) = Some bs \<Longrightarrow> \<exists>chunks. blob d = Inr (map Inr chunks) \<and> concat chunks = bs"
  shows "\<exists>n st'. fetch_blob sha blob (d, sz) st = Inr (n, st') \<and> blobs_within st' B
    \<and> t_get st' (path_for d) = t_get B (path_for d) \<and> (\<forall>p. t_get st p \<noteq> None \<longrightarrow> t_get st' p = t_get st p)"
proof -
  from h obtain bs where bs: "t_get B (path_for d) = Some bs" "length bs = sz" by (auto simp: holds_blob_def)
  have digest: "digest_of sha bs = d" using B bs(1) by (auto simp: blobs_ok_def dest!: t_get_mem)
  show ?thesis
  proof (cases "t_get st (path_for d)")
    case (Some x)
    with within bs(1) have "x = bs" by (auto simp: blobs_within_def)
    with Some bs digest within show ?thesis
      by (auto simp: fetch_blob_def blob_head_def blob_verify_def blob_read_def)
  next
    case None
    from blob [OF bs(1)] obtain chunks where c: "blob d = Inr (map Inr chunks)" "concat chunks = bs" by blast
    have "fetch_blob sha blob (d, sz) st = Inr (1, place st d bs)"
      using None c bs digest
      by (simp add: fetch_blob_def stream_chunks blob_head_def blob_commit_def pending_chunks blob_begin_def pending_finish_def
        commit_staged_def Let_def)
    moreover have "place st d bs = t_insert st (path_for d) bs" using None by (simp add: place_def blob_exists_def)
    ultimately show ?thesis using None bs within by (auto simp: blobs_within_def)
  qed
qed

lemma fetch_blobs_ok:
  assumes B: "blobs_ok sha B" and within: "blobs_within st B"
    and h: "\<And>d sz. (d, sz) \<in> set entries \<Longrightarrow> holds_blob B d sz"
    and blob: "\<And>d bs. from_hex d = Some d \<Longrightarrow> t_get B (path_for d) = Some bs
      \<Longrightarrow> \<exists>chunks. blob d = Inr (map Inr chunks) \<and> concat chunks = bs"
  shows "\<exists>n st'. fetch_blobs sha blob entries fetched st = (Inr n, st') \<and> blobs_within st' B
    \<and> (\<forall>(d, sz) \<in> set entries. t_get st' (path_for d) = t_get B (path_for d))
    \<and> (\<forall>p. t_get st p \<noteq> None \<longrightarrow> t_get st' p = t_get st p)"
  using within h
proof (induction entries arbitrary: fetched st)
  case (Cons e entries)
  obtain d sz where e: "e = (d, sz)" by (cases e)
  with Cons.prems(2) have d: "holds_blob B d sz" by simp
  then have "from_hex d = Some d" by (simp add: holds_blob_def)
  from fetch_blob_ok [where blob = blob, OF B Cons.prems(1) d blob [OF this]] obtain n st1 where
    one: "fetch_blob sha blob (d, sz) st = Inr (n, st1)" "blobs_within st1 B"
      "t_get st1 (path_for d) = t_get B (path_for d)" "\<forall>p. t_get st p \<noteq> None \<longrightarrow> t_get st1 p = t_get st p" by blast
  have "\<And>d sz. (d, sz) \<in> set entries \<Longrightarrow> holds_blob B d sz" using Cons.prems(2) by simp
  from Cons.IH [OF one(2) this, of "fetched + n"] obtain m st2 where
    rest: "fetch_blobs sha blob entries (fetched + n) st1 = (Inr m, st2)" "blobs_within st2 B"
      "\<forall>(d, sz) \<in> set entries. t_get st2 (path_for d) = t_get B (path_for d)"
      "\<forall>p. t_get st1 p \<noteq> None \<longrightarrow> t_get st2 p = t_get st1 p" by blast
  have "t_get B (path_for d) \<noteq> None" using d by (auto simp: holds_blob_def)
  with rest(4) one(3) have "t_get st2 (path_for d) = t_get B (path_for d)" by metis
  moreover have "\<forall>p. t_get st p \<noteq> None \<longrightarrow> t_get st2 p = t_get st p" using one(4) rest(4) by metis
  ultimately show ?case using one(1) rest by (simp add: e)
qed simp

lemma validate_changes_ok:
  assumes "map ch_serial cs = [Suc (vp_through v)..<Suc (vp_through v + length cs)]"
    and "\<forall>c \<in> set cs. list_all (\<lambda>m. \<not> reserved (mutation_key m)) (ch_metadata c)
      \<and> list_all (\<lambda>b. holds_blob B (wb_sha256 b) (wb_size b)) (ch_blobs c)"
    and "staged_blobs_ok B (vp_blobs v)"
  shows "\<exists>bl. (validate_changes cs v :: 'e sync_error + validated_page) = Inr (v\<lparr>vp_through := vp_through v + length cs,
      vp_journal := vp_journal v @ map ch_event cs,
      vp_metadata := fold stage_row (concat (map ch_metadata cs)) (vp_metadata v), vp_blobs := bl\<rparr>)
    \<and> staged_blobs_ok B bl
    \<and> set (map fst bl) = set (map fst (vp_blobs v)) \<union> (\<Union>c \<in> set cs. wb_sha256 ` set (ch_blobs c))"
  using assms
proof (induction cs arbitrary: v)
  case (Cons c cs)
  from Cons.prems(1) have serial: "ch_serial c = Suc (vp_through v)"
    and rest: "map ch_serial cs = [Suc (Suc (vp_through v))..<Suc (Suc (vp_through v) + length cs)]"
    by (simp_all add: upt_conv_Cons del: upt_Suc)
  from Cons.prems(2) have md: "(validate_metadata (ch_metadata c) (vp_metadata v) :: 'e sync_error + _)
      = Inr (fold stage_row (ch_metadata c) (vp_metadata v))" by (intro validate_metadata_ok) simp
  from Cons.prems(2) have "list_all (\<lambda>b. holds_blob B (wb_sha256 b) (wb_size b)) (ch_blobs c)" by simp
  from validate_blobs_ok [OF this Cons.prems(3)] obtain t where
    t: "(validate_blobs (ch_blobs c) (vp_blobs v) :: 'e sync_error + _) = Inr t" "staged_blobs_ok B t"
      "set (map fst t) = set (map fst (vp_blobs v)) \<union> wb_sha256 ` set (ch_blobs c)" by metis
  let ?v = "v\<lparr>vp_through := Suc (vp_through v), vp_journal := vp_journal v @ [ch_event c],
    vp_metadata := fold stage_row (ch_metadata c) (vp_metadata v), vp_blobs := t\<rparr>"
  have "checked_sub_u64 (ch_serial c) 1 = Some (vp_through v)" by (simp add: serial checked_sub_u64_def)
  then have step: "(validate_changes (c # cs) v :: 'e sync_error + _) = validate_changes cs ?v" using md t(1) serial by simp
  from Cons.IH [of ?v] rest Cons.prems(2) t(2,3) show ?case unfolding step by (simp add: Un_assoc)
next
  case Nil
  then show ?case by (intro exI [of _ "vp_blobs v"]) simp
qed

lemma append_journal_ok:
  "n + length entries \<le> u64_max \<Longrightarrow> map fst t = [1..<Suc n] \<Longrightarrow>
   \<exists>t'. append_journal entries n t = Inr (n + length entries, t') \<and> map snd t' = map snd t @ entries"
proof (induction entries arbitrary: n t)
  case (Cons entry entries)
  have "\<forall>e \<in> set t. fst e < Suc n"
    using Cons.prems(2) by (metis atLeastLessThan_iff image_eqI set_map set_upt)
  then have t: "t_insert t (Suc n) entry = t @ [(Suc n, entry)]" by (rule t_insert_last)
  have "add_u64 n 1 = Inr (Suc n)" using Cons.prems(1) by simp
  with Cons.IH [of "Suc n" "t @ [(Suc n, entry)]"] Cons.prems t show ?case
    by (simp del: add_u64_Inr)
qed simp

lemma replica_body_run:
  assumes inv: "journal_inv s" and md: "distinct (map fst (vp_metadata v))"
  shows "\<exists>t. (replica_body enc v :: (unit, 'e sync_error) txn_body) (open_txn s) = Inr (((), vp_journal v), t)
    \<and> t_wf (dt_table t)
    \<and> (\<forall>k. t_get (dt_table t) k = (if k = REPLICA_STATE_KEY
          then Some (enc \<lparr>rs_source = vp_source v, rs_serial = vp_through v\<rparr>)
          else overlay (vp_metadata v) (driver_kv s) k))"
proof -
  define t where "t = txn_put_local (fold (\<lambda>(digest, sz) txn. txn_reference_blob txn digest sz) (map snd (vp_blobs v))
    (fold apply_row (vp_metadata v) (open_txn s))) REPLICA_STATE_KEY (enc \<lparr>rs_source = vp_source v, rs_serial = vp_through v\<rparr>)"
  have "(replica_body enc v :: (unit, 'e sync_error) txn_body) (open_txn s) = Inr (((), vp_journal v), t)"
    by (simp add: replica_body_def t_def Let_def)
  moreover have wf: "t_wf (dt_table (open_txn s))" using inv by (simp add: open_txn_def journal_inv_def)
  have "t_get (dt_table t) k = (if k = REPLICA_STATE_KEY
      then Some (enc \<lparr>rs_source = vp_source v, rs_serial = vp_through v\<rparr>) else overlay (vp_metadata v) (driver_kv s) k)"
    "t_wf (dt_table t)" for k
    using apply_rows [OF md wf] by (simp_all add: t_def txn_put_local_def reference_blobs_table open_txn_def)
  ultimately show ?thesis by blast
qed

text \<open>Committing a page: the rows are overlaid, the events appended and the cursor stored.\<close>

lemma commit_page_ok:
  assumes inv: "journal_inv s" and room: "current_serial s + length (vp_journal v) \<le> u64_max"
    and j: "vp_journal v \<noteq> []" and md: "distinct (map fst (vp_metadata v))"
  shows "\<exists>s'. (commit_replica_txn SyncStore (current_serial s) (replica_body enc v) s :: 'e sync_error + _) = Inr ((), s')
    \<and> journal_inv s' \<and> current_serial s' = current_serial s + length (vp_journal v)
    \<and> map snd (journal_table s') = map snd (journal_table s) @ vp_journal v
    \<and> (\<forall>k. t_get (driver_kv s') k = (if k = REPLICA_STATE_KEY
          then Some (enc \<lparr>rs_source = vp_source v, rs_serial = vp_through v\<rparr>)
          else overlay (vp_metadata v) (driver_kv s) k))"
proof -
  from replica_body_run [where 'e = 'e, OF inv md] obtain t where
    body: "(replica_body enc v :: (unit, 'e sync_error) txn_body) (open_txn s) = Inr (((), vp_journal v), t)"
    and twf: "t_wf (dt_table t)" and table: "\<forall>k. t_get (dt_table t) k = (if k = REPLICA_STATE_KEY
      then Some (enc \<lparr>rs_source = vp_source v, rs_serial = vp_through v\<rparr>) else overlay (vp_metadata v) (driver_kv s) k)"
    by blast
  let ?s = "s\<lparr>driver_kv := dt_table t\<rparr>"
  have keys: "map fst (journal_table ?s) = [1..<Suc (current_serial ?s)]" "current_serial ?s = current_serial s"
    using inv by (simp_all add: journal_inv_def current_serial_def)
  from append_journal_ok [OF _ keys(1), of "vp_journal v"] room keys(2) obtain jt where
    jt: "append_journal (vp_journal v) (current_serial ?s) (journal_table ?s)
        = Inr (current_serial s + length (vp_journal v), jt)" "map snd jt = map snd (journal_table s) @ vp_journal v" by auto
  then obtain s' where w: "write_journal ?s (vp_journal v) (txn_mutations t) (dt_blobs t) = Inr s'"
      "journal_table s' = jt" using j by (simp add: write_journal_def)
  from write_journal_Inr [OF journal_inv_kv [OF inv twf] w(1) j] keys(2)
  have eff: "journal_inv s'" "driver_kv s' = dt_table t" "current_serial s' = current_serial s + length (vp_journal v)"
    by simp_all
  have "(commit_replica_txn SyncStore (current_serial s) (replica_body enc v) s :: 'e sync_error + _) = Inr ((), s')"
    using body w(1) j by (simp add: commit_replica_txn_def commit_driver_txn_at_def Let_def publish_catalog_def)
  with eff jt(2) w(2) table show ?thesis by auto
qed

section \<open>Following a primary\<close>

text \<open>
  The transport over the primary's endpoints: a page or an error, and a blob's bytes chop into chunks
  in whatever way the connection does.
\<close>

definition primary_changes :: "primary_http_state \<Rightarrow> nat \<Rightarrow> nat \<Rightarrow> unit + change_page" where
  "primary_changes p after limit =
     (case serve_changes p (Some (''Bearer '' @ ph_token p)) after limit of Ok200 page \<Rightarrow> Inr page | _ \<Rightarrow> Inl ())"

definition primary_blob ::
    "(bytes \<Rightarrow> bytes list) \<Rightarrow> primary_http_state \<Rightarrow> string \<Rightarrow> unit + (unit + bytes) list" where
  "primary_blob chop p d =
     (case serve_blob p (Some (''Bearer '' @ ph_token p)) d of Ok200 bs \<Rightarrow> Inr (map Inr (chop bs)) | _ \<Rightarrow> Inl ())"

text \<open>
  A primary in order: its store ran transactions, its blob store is sound, its journal names no
  reserved key and only blobs it holds.
\<close>

definition primary_ok :: "(bytes \<Rightarrow> bytes) \<Rightarrow> string set \<Rightarrow> primary_http_state \<Rightarrow> bool" where
  "primary_ok sha K p \<longleftrightarrow> driver_run K (ph_meta p) \<and> blob_run sha (ph_blobs p) \<and> ph_source p \<noteq> []
     \<and> list_all (\<lambda>m. \<not> reserved (dm_key m)) (all_mutations (ph_meta p))
     \<and> list_all (\<lambda>e. list_all (\<lambda>b. holds_blob (ph_blobs p) (br_sha256 b) (br_size b))
          (jr_blobs (record_of (ph_meta p) e))) (journal_table (ph_meta p))"

definition state_codec :: "(replica_state \<Rightarrow> bytes) \<Rightarrow> (bytes \<Rightarrow> replica_state option) \<Rightarrow> bool" where
  "state_codec enc dec \<longleftrightarrow> (\<forall>st. rs_serial st \<le> u64_max \<longrightarrow> dec (enc st) = Some st)"

lemma primary_holds:
  "primary_ok sha K p \<Longrightarrow> e \<in> set (journal_table (ph_meta p)) \<Longrightarrow> b \<in> set (jr_blobs (record_of (ph_meta p) e))
   \<Longrightarrow> holds_blob (ph_blobs p) (br_sha256 b) (br_size b)"
  unfolding primary_ok_def list_all_iff by blast

lemma authorized_bearer: "authorized (Some (''Bearer '' @ token)) token"
  by (simp add: authorized_def strip_prefix_Some constant_time_eq_iff strip_prefix_def)

lemma primary_changes_eq:
  assumes "journal_inv (ph_meta p)" "0 < limit" "limit \<le> DEFAULT_MAX_CHANGE_PAGE_SIZE"
  shows "primary_changes p after limit = Inr \<lparr>cp_version = PROTOCOL_VERSION, cp_source = ph_source p, cp_after = after,
    cp_current_serial = current_serial (ph_meta p),
    cp_changes = map (\<lambda>e. change_of (record_of (ph_meta p) e)) (take limit (drop after (journal_table (ph_meta p))))\<rparr>"
  using assms(2,3) authorized_bearer [of "ph_token p"]
  by (simp add: primary_changes_def serve_changes_def journal_page [OF assms(1)] comp_def)

lemma primary_blob_eq:
  "from_hex d = Some d \<Longrightarrow> t_get (ph_blobs p) (path_for d) = Some bs \<Longrightarrow> primary_blob chop p d = Inr (map Inr (chop bs))"
  using authorized_bearer [of "ph_token p"] by (simp add: primary_blob_def serve_blob_def blob_read_def)

text \<open>The follower after the first \<open>k\<close> journal records of the primary.\<close>

definition first_mutations :: "meta_store \<Rightarrow> nat \<Rightarrow> driver_mutation list" where
  "first_mutations s k = concat (map (\<lambda>e. row_mutations s (fst e)) (take k (journal_table s)))"

definition follows ::
    "(replica_state \<Rightarrow> bytes) \<Rightarrow> primary_http_state \<Rightarrow> nat \<Rightarrow> meta_store \<times> blob_store \<Rightarrow> bool" where
  "follows enc p k store \<longleftrightarrow> (case store of (s, st) \<Rightarrow>
     k \<le> current_serial (ph_meta p) \<and> journal_inv s \<and> current_serial s = k
     \<and> map snd (journal_table s) = map snd (take k (journal_table (ph_meta p)))
     \<and> t_get (driver_kv s) REPLICA_STATE_KEY
       = (if k = 0 then None else Some (enc \<lparr>rs_source = ph_source p, rs_serial = k\<rparr>))
     \<and> (\<forall>key. \<not> reserved key \<longrightarrow>
          t_get (driver_kv s) key = t_get (replay (first_mutations (ph_meta p) k) []) key)
     \<and> blobs_within st (ph_blobs p)
     \<and> (\<forall>e \<in> set (take k (journal_table (ph_meta p))). \<forall>b \<in> set (jr_blobs (record_of (ph_meta p) e)).
          t_get st (path_for (br_sha256 b)) = t_get (ph_blobs p) (path_for (br_sha256 b))))"

lemma follows_start: "follows enc p 0 (open_new, [])"
  using journal_inv_open_new(1)
  by (simp add: follows_def first_mutations_def replay_def blobs_within_def open_new_def current_serial_def table_serial_def)

lemma follows_state:
  assumes F: "follows enc p k (s, st)" and codec: "state_codec enc dec" and inv: "journal_inv (ph_meta p)"
  shows "(replica_state_of dec s :: 'e sync_error + _)
    = Inr (if k = 0 then None else Some \<lparr>rs_source = ph_source p, rs_serial = k\<rparr>)"
proof -
  have "k \<le> u64_max" using F inv by (simp add: follows_def journal_inv_def)
  then have "dec (enc \<lparr>rs_source = ph_source p, rs_serial = k\<rparr>) = Some \<lparr>rs_source = ph_source p, rs_serial = k\<rparr>"
    using codec by (simp add: state_codec_def)
  with F show ?thesis by (auto simp: follows_def replica_state_of_def get_driver_value_def state_cursor_def)
qed

lemma mutation_key_from: "mutation_key (metadata_mutation_from m) = dm_key m"
  by (cases m) simp_all

lemma wire_blob_from_eq: "wire_blob_from b = WireBlob (br_sha256 b) (br_size b)"
  by (cases b) simp

text \<open>The page a primary serves after \<open>k\<close> passes validation.\<close>

lemma served_page_valid:
  assumes ok: "primary_ok sha K p" and k: "k \<le> current_serial (ph_meta p)"
    and limit: "0 < limit" "limit \<le> DEFAULT_MAX_CHANGE_PAGE_SIZE"
  defines "entries \<equiv> take limit (drop k (journal_table (ph_meta p)))"
  shows "\<exists>bl. (rbind (map_err SyncPrimary (primary_changes p k limit)) (\<lambda>page. validated_page_new page k limit
      (if k = 0 then None else Some \<lparr>rs_source = ph_source p, rs_serial = k\<rparr>)) :: unit sync_error + _)
    = Inr \<lparr>vp_source = ph_source p, vp_through = k + length entries, vp_primary_serial = current_serial (ph_meta p),
        vp_journal = map snd entries,
        vp_metadata = fold stage_row (map metadata_mutation_from
          (concat (map (\<lambda>e. row_mutations (ph_meta p) (fst e)) entries))) [], vp_blobs = bl\<rparr>
    \<and> staged_blobs_ok (ph_blobs p) bl
    \<and> (\<forall>e \<in> set entries. \<forall>b \<in> set (jr_blobs (record_of (ph_meta p) e)). br_sha256 b \<in> set (map fst bl))"
proof -
  let ?P = "ph_meta p"
  let ?cs = "map (\<lambda>e. change_of (record_of ?P e)) entries"
  let ?v = "\<lparr>vp_source = ph_source p, vp_through = k, vp_primary_serial = current_serial ?P, vp_journal = [],
    vp_metadata = [], vp_blobs = []\<rparr>"
  from ok have inv: "journal_inv ?P" using driver_run_agrees by (auto simp: primary_ok_def)
  have keys: "map fst (journal_table ?P) = [1..<Suc (current_serial ?P)]" using inv by (simp add: journal_inv_def)
  have len: "length (journal_table ?P) = current_serial ?P" using arg_cong [OF keys, of length] by simp
  have sub: "set entries \<subseteq> set (journal_table ?P)"
    unfolding entries_def by (meson set_drop_subset set_take_subset subset_trans)
  have reach: "k + length entries = min (k + limit) (current_serial ?P)"
    using k len by (simp add: entries_def)
  have "map ch_serial ?cs = map jr_serial (map (record_of ?P) entries)" by (simp add: change_of_def)
  also have "\<dots> = [Suc k..<Suc (k + length entries)]"
    using record_serials [OF inv, of limit k, folded entries_def] unfolding reach .
  finally have serials: "map ch_serial ?cs = [Suc (vp_through ?v)..<Suc (vp_through ?v + length ?cs)]" by simp
  have mut: "row_mutations ?P (fst e) = jr_mutations (record_of ?P e)" for e by (simp add: record_of_def)
  have "\<not> reserved (dm_key m)" if "e \<in> set entries" "m \<in> set (jr_mutations (record_of ?P e))" for e m
  proof -
    from that(1) sub have "fst e \<in> set [1..<Suc (current_serial ?P)]" by (metis imageI in_mono keys set_map)
    with that(2) have "m \<in> set (all_mutations ?P)" by (auto simp: all_mutations_def mut [symmetric] simp del: upt_Suc)
    with ok show ?thesis by (simp add: primary_ok_def list_all_iff)
  qed
  then have "list_all (\<lambda>m. \<not> reserved (mutation_key m)) (ch_metadata c)" if "c \<in> set ?cs" for c
    using that by (auto simp: change_of_def list_all_iff mutation_key_from)
  moreover have "list_all (\<lambda>b. holds_blob (ph_blobs p) (wb_sha256 b) (wb_size b)) (ch_blobs c)" if "c \<in> set ?cs" for c
    using that primary_holds [OF ok subsetD [OF sub]] by (auto simp: change_of_def list_all_iff wire_blob_from_eq)
  ultimately have good: "\<forall>c \<in> set ?cs. list_all (\<lambda>m. \<not> reserved (mutation_key m)) (ch_metadata c)
      \<and> list_all (\<lambda>b. holds_blob (ph_blobs p) (wb_sha256 b) (wb_size b)) (ch_blobs c)" by blast
  have none: "staged_blobs_ok (ph_blobs p) (vp_blobs ?v)" by (simp add: staged_blobs_ok_def)
  from validate_changes_ok [where 'e = unit, OF serials good none] obtain bl where
    v: "(validate_changes ?cs ?v :: unit sync_error + _) = Inr (?v\<lparr>vp_through := k + length entries,
        vp_journal := map ch_event ?cs, vp_metadata := fold stage_row (concat (map ch_metadata ?cs)) [], vp_blobs := bl\<rparr>)"
      "staged_blobs_ok (ph_blobs p) bl" "set (map fst bl) = (\<Union>c \<in> set ?cs. wb_sha256 ` set (ch_blobs c))" by auto
  have events: "map ch_event ?cs = map snd entries" by (simp add: change_of_def record_of_def)
  have md: "concat (map ch_metadata ?cs) = map metadata_mutation_from (concat (map (\<lambda>e. row_mutations ?P (fst e)) entries))"
    by (simp add: change_of_def mut map_concat comp_def)
  have size: "length entries \<le> limit" "k + length entries \<le> current_serial ?P"
    using len k by (simp_all add: entries_def)
  have more: "entries \<noteq> [] \<or> current_serial ?P = k" using len limit(1) k by (auto simp: entries_def)
  have "rbind (map_err SyncPrimary (primary_changes p k limit)) (\<lambda>page. validated_page_new page k limit
      (if k = 0 then None else Some \<lparr>rs_source = ph_source p, rs_serial = k\<rparr>)) = (Inr (?v\<lparr>vp_through := k + length entries,
        vp_journal := map ch_event ?cs, vp_metadata := fold stage_row (concat (map ch_metadata ?cs)) [], vp_blobs := bl\<rparr>)
        :: unit sync_error + _)"
    using v(1) size more ok unfolding primary_changes_eq [OF inv limit] entries_def [symmetric]
    by (auto simp: validated_page_new_def primary_ok_def)
  moreover have "\<forall>e \<in> set entries. \<forall>b \<in> set (jr_blobs (record_of ?P e)). br_sha256 b \<in> set (map fst bl)"
    unfolding v(3) by (force simp: change_of_def wire_blob_from_eq)
  ultimately show ?thesis using v(2) unfolding events md by (intro exI [of _ bl]) simp
qed


lemma blobs_of_primary:
  assumes "\<forall>bs. concat (chop bs) = bs" "from_hex d = Some d" "t_get (ph_blobs p) (path_for d) = Some bs"
  shows "\<exists>chunks. primary_blob chop p d = Inr (map Inr chunks) \<and> concat chunks = bs"
  using primary_blob_eq [OF assms(2,3), of chop] assms(1) by blast

lemma first_mutations_add:
  "first_mutations s (k + length (take limit (drop k (journal_table s)))) = first_mutations s k
     @ concat (map (\<lambda>e. row_mutations s (fst e)) (take limit (drop k (journal_table s))))"
proof -
  have "take (k + length (take limit (drop k t))) t = take k t @ take limit (drop k t)" for t :: "(nat \<times> bytes) list"
    unfolding take_add by (simp add: min_def)
  then show ?thesis by (simp add: first_mutations_def)
qed

lemma state_key_reserved: "reserved REPLICA_STATE_KEY"
  by (simp add: REPLICA_STATE_KEY_def)

lemma fetch_page_blobs:
  assumes B: "blobs_ok sha (ph_blobs p)" and chop: "\<forall>bs. concat (chop bs) = bs"
    and within: "blobs_within st (ph_blobs p)" and bl: "staged_blobs_ok (ph_blobs p) bl"
  shows "\<exists>n st'. fetch_blobs sha (primary_blob chop p) (map snd bl) 0 st = (Inr n, st') \<and> blobs_within st' (ph_blobs p)
    \<and> (\<forall>d \<in> set (map fst bl). t_get st' (path_for d) = t_get (ph_blobs p) (path_for d))
    \<and> (\<forall>q. t_get st q \<noteq> None \<longrightarrow> t_get st' q = t_get st q)"
proof -
  have wf: "t_wf bl" using bl by (simp add: staged_blobs_ok_def)
  have staged: "d = key \<and> holds_blob (ph_blobs p) d sz" if "(key, d, sz) \<in> set bl" for key d sz
    using that bl t_get_iff [OF wf, of key "(d, sz)"] unfolding staged_blobs_ok_def by blast
  have held: "holds_blob (ph_blobs p) d sz" if "(d, sz) \<in> set (map snd bl)" for d sz
    using that staged by auto
  from fetch_blobs_ok [where blob = "primary_blob chop p" and entries = "map snd bl" and fetched = 0, OF B within held]
    blobs_of_primary [OF chop] obtain n st' where f: "fetch_blobs sha (primary_blob chop p) (map snd bl) 0 st = (Inr n, st')"
      "blobs_within st' (ph_blobs p)"
      "\<forall>(d, sz) \<in> set (map snd bl). t_get st' (path_for d) = t_get (ph_blobs p) (path_for d)"
      "\<forall>q. t_get st q \<noteq> None \<longrightarrow> t_get st' q = t_get st q" by blast
  have "t_get st' (path_for d) = t_get (ph_blobs p) (path_for d)" if "d \<in> set (map fst bl)" for d
  proof -
    from that obtain d' sz where m: "(d, d', sz) \<in> set bl" by auto
    with staged have "d' = d" by blast
    with m f(3) show ?thesis by force
  qed
  with f show ?thesis by blast
qed

text \<open>The records of the primary up to a position, their blobs present in the follower's store.\<close>

lemma follows_blobs:
  assumes F: "follows enc p k (s, st)" and ok: "primary_ok sha K p"
    and st': "blobs_within st' (ph_blobs p)" "\<forall>q. t_get st q \<noteq> None \<longrightarrow> t_get st' q = t_get st q"
    and e: "e \<in> set (take k (journal_table (ph_meta p)))" "b \<in> set (jr_blobs (record_of (ph_meta p) e))"
  shows "t_get st' (path_for (br_sha256 b)) = t_get (ph_blobs p) (path_for (br_sha256 b))"
proof -
  have "e \<in> set (journal_table (ph_meta p))" using e(1) by (rule in_set_takeD)
  from primary_holds [OF ok this e(2)] have "t_get (ph_blobs p) (path_for (br_sha256 b)) \<noteq> None"
    by (auto simp: holds_blob_def)
  moreover have "t_get st (path_for (br_sha256 b)) = t_get (ph_blobs p) (path_for (br_sha256 b))"
    using F e unfolding follows_def by blast
  ultimately show ?thesis using st'(2) by metis
qed

lemma commit_page_follows:
  assumes F: "follows enc p k (s, st)" and inv: "journal_inv (ph_meta p)"
    and entries: "entries = take limit (drop k (journal_table (ph_meta p)))" "entries \<noteq> []"
    and v: "v = \<lparr>vp_source = ph_source p, vp_through = k + length entries,
        vp_primary_serial = current_serial (ph_meta p), vp_journal = map snd entries,
        vp_metadata = fold stage_row (map metadata_mutation_from
          (concat (map (\<lambda>e. row_mutations (ph_meta p) (fst e)) entries))) [], vp_blobs = bl\<rparr>"
    and st': "blobs_within st' (ph_blobs p)"
      "\<And>e b. e \<in> set (take (k + length entries) (journal_table (ph_meta p))) \<Longrightarrow> b \<in> set (jr_blobs (record_of (ph_meta p) e))
        \<Longrightarrow> t_get st' (path_for (br_sha256 b)) = t_get (ph_blobs p) (path_for (br_sha256 b))"
  shows "\<exists>s'. (commit_replica_txn SyncStore k (replica_body enc v) s :: 'e sync_error + _) = Inr ((), s')
    \<and> follows enc p (k + length entries) (s', st')"
proof -
  let ?P = "ph_meta p"
  have keys: "map fst (journal_table ?P) = [1..<Suc (current_serial ?P)]" "current_serial ?P \<le> u64_max"
    using inv by (simp_all add: journal_inv_def)
  have len: "length (journal_table ?P) = current_serial ?P" using arg_cong [OF keys(1), of length] by simp
  from F have k: "k \<le> current_serial ?P" "journal_inv s" "current_serial s = k"
      "map snd (journal_table s) = map snd (take k (journal_table ?P))"
    and rows: "\<And>key. \<not> reserved key \<Longrightarrow> t_get (driver_kv s) key = t_get (replay (first_mutations ?P k) []) key"
    by (auto simp: follows_def)
  have size: "k + length entries \<le> current_serial ?P" using k(1) len by (simp add: entries)
  have "distinct (map fst (vp_metadata v))" unfolding v by (simp add: t_wf_distinct stage_rows_wf)
  from commit_page_ok [where 'e = 'e, OF k(2) _ _ this, of enc] k(3) size keys(2) entries(2) obtain s' where
    c: "(commit_replica_txn SyncStore k (replica_body enc v) s :: 'e sync_error + _) = Inr ((), s')"
    "journal_inv s'" "current_serial s' = k + length entries"
    "map snd (journal_table s') = map snd (journal_table s) @ map snd entries"
    and kv: "\<And>key. t_get (driver_kv s') key = (if key = REPLICA_STATE_KEY
      then Some (enc \<lparr>rs_source = ph_source p, rs_serial = k + length entries\<rparr>)
      else overlay (vp_metadata v) (driver_kv s) key)" by (auto simp: v)
  have "t_get (driver_kv s') key = t_get (replay (first_mutations ?P (k + length entries)) []) key"
    if "\<not> reserved key" for key
  proof -
    let ?ms = "concat (map (\<lambda>e. row_mutations ?P (fst e)) entries)"
    have "t_get (driver_kv s') key = overlay (vp_metadata v) (driver_kv s) key"
      using kv [of key] that state_key_reserved by auto
    also have "\<dots> = overlay (vp_metadata v) (replay (first_mutations ?P k) []) key"
      using rows [OF that] by (simp add: overlay_def split: option.split)
    also have "\<dots> = t_get (replay ?ms (replay (first_mutations ?P k) [])) key"
      using overlay_replay [of "replay (first_mutations ?P k) []" "[]" _ ?ms key] by (simp add: v overlay_def)
    finally show ?thesis using first_mutations_add [of ?P k limit] by (simp add: entries replay_def)
  qed
  moreover have "map snd (journal_table s') = map snd (take (k + length entries) (journal_table ?P))"
    using c(4) k(4) by (simp add: entries take_add min_def)
  ultimately have "follows enc p (k + length entries) (s', st')"
    using c size kv [of REPLICA_STATE_KEY] st' entries(2) by (auto simp: follows_def)
  with c(1) show ?thesis by blast
qed

text \<open>One round moves the follower to the end of the page, or to the head of the journal.\<close>

lemma sync_once_follows:
  assumes ok: "primary_ok sha K p" and codec: "state_codec enc dec" and chop: "\<forall>bs. concat (chop bs) = bs"
    and limit: "0 < limit" "limit \<le> DEFAULT_MAX_CHANGE_PAGE_SIZE" and F: "follows enc p k (s, st)"
  shows "\<exists>out s' st'. sync_once sha enc dec (primary_changes p) (primary_blob chop p) limit (s, st) = (Inr out, s', st')
    \<and> so_serial out = min (k + limit) (current_serial (ph_meta p))
    \<and> so_primary_serial out = current_serial (ph_meta p)
    \<and> follows enc p (min (k + limit) (current_serial (ph_meta p))) (s', st')"
proof -
  let ?P = "ph_meta p"
  define entries where "entries = take limit (drop k (journal_table ?P))"
  from ok have inv: "journal_inv ?P" and B: "blobs_ok sha (ph_blobs p)"
    using driver_run_agrees blob_run_ok by (auto simp: primary_ok_def)
  have len: "length (journal_table ?P) = current_serial ?P"
    using inv arg_cong [of _ _ length] by (metis One_nat_def diff_Suc_1 journal_inv_def length_map length_upt)
  from F have k: "k \<le> current_serial ?P" "current_serial s = k" and within: "blobs_within st (ph_blobs p)"
    by (auto simp: follows_def)
  have reach: "k + length entries = min (k + limit) (current_serial ?P)" using k len by (simp add: entries_def)
  have cursor: "state_cursor (if k = 0 then None else Some \<lparr>rs_source = ph_source p, rs_serial = k\<rparr>) = k"
    by (simp add: state_cursor_def)
  define v where "v bl = \<lparr>vp_source = ph_source p, vp_through = k + length entries,
    vp_primary_serial = current_serial ?P, vp_journal = map snd entries, vp_metadata = fold stage_row
      (map metadata_mutation_from (concat (map (\<lambda>e. row_mutations ?P (fst e)) entries))) [], vp_blobs = bl\<rparr>" for bl
  from served_page_valid [OF ok k(1) limit, folded entries_def, folded v_def] obtain bl where
    page: "(rbind (map_err SyncPrimary (primary_changes p k limit)) (\<lambda>page. validated_page_new page k limit
        (if k = 0 then None else Some \<lparr>rs_source = ph_source p, rs_serial = k\<rparr>)) :: unit sync_error + _) = Inr (v bl)"
    and bl: "staged_blobs_ok (ph_blobs p) bl"
      "\<forall>e \<in> set entries. \<forall>b \<in> set (jr_blobs (record_of ?P e)). br_sha256 b \<in> set (map fst bl)" by blast
  from fetch_page_blobs [OF B chop within bl(1)] obtain n st' where
    f: "fetch_blobs sha (primary_blob chop p) (map snd bl) 0 st = (Inr n, st')" "blobs_within st' (ph_blobs p)"
      "\<forall>d \<in> set (map fst bl). t_get st' (path_for d) = t_get (ph_blobs p) (path_for d)"
      "\<forall>q. t_get st q \<noteq> None \<longrightarrow> t_get st' q = t_get st q" by blast
  note state = follows_state [where 'e = unit, OF F codec inv]
  have blobs: "t_get st' (path_for (br_sha256 b)) = t_get (ph_blobs p) (path_for (br_sha256 b))"
    if "e \<in> set (take (k + length entries) (journal_table ?P))" "b \<in> set (jr_blobs (record_of ?P e))" for e b
  proof -
    from that(1) have "e \<in> set (take k (journal_table ?P)) \<or> e \<in> set entries" by (auto simp: take_add entries_def min_def split: if_splits)
    then show ?thesis using follows_blobs [OF F ok f(2,4) _ that(2)] bl(2) f(3) that(2) by blast
  qed
  show ?thesis
  proof (cases "entries = []")
    case True
    have "follows enc p k (s, st')" using F f(2) blobs True unfolding follows_def by auto
    with True page f(1) reach state cursor show ?thesis by (simp add: sync_once_def v_def)
  next
    case False
    from commit_page_follows [where 'e = unit, OF F inv entries_def False v_def f(2)] blobs obtain s' where
      c: "(commit_replica_txn SyncStore k (replica_body enc (v bl)) s :: unit sync_error + _) = Inr ((), s')"
        "follows enc p (k + length entries) (s', st')" by blast
    with False page f(1) reach state cursor show ?thesis by (simp add: sync_once_def v_def)
  qed
qed

section \<open>Rounds\<close>

fun sync_rounds ::
    "(bytes \<Rightarrow> bytes) \<Rightarrow> (replica_state \<Rightarrow> bytes) \<Rightarrow> (bytes \<Rightarrow> replica_state option)
      \<Rightarrow> (nat \<Rightarrow> nat \<Rightarrow> 'e + change_page) \<Rightarrow> (string \<Rightarrow> 'e + ('e + bytes) list) \<Rightarrow> nat
      \<Rightarrow> nat \<Rightarrow> meta_store \<times> blob_store \<Rightarrow> meta_store \<times> blob_store" where
  "sync_rounds sha enc dec changes blob limit 0 store = store"
| "sync_rounds sha enc dec changes blob limit (Suc n) store =
     sync_rounds sha enc dec changes blob limit n (snd (sync_once sha enc dec changes blob limit store))"

lemma sync_rounds_follow:
  assumes ok: "primary_ok sha K p" and codec: "state_codec enc dec" and chop: "\<forall>bs. concat (chop bs) = bs"
    and limit: "0 < limit" "limit \<le> DEFAULT_MAX_CHANGE_PAGE_SIZE" and F: "follows enc p k store"
  shows "follows enc p (min (k + n * limit) (current_serial (ph_meta p)))
    (sync_rounds sha enc dec (primary_changes p) (primary_blob chop p) limit n store)"
  using F
proof (induction n arbitrary: k store)
  case 0
  then show ?case by (simp add: follows_def split: prod.splits)
next
  case (Suc n)
  obtain s st where store: "store = (s, st)" by (cases store)
  from sync_once_follows [OF ok codec chop limit Suc.prems [unfolded store]] obtain out s' st' where
    one: "sync_once sha enc dec (primary_changes p) (primary_blob chop p) limit (s, st) = (Inr out, s', st')"
      "follows enc p (min (k + limit) (current_serial (ph_meta p))) (s', st')" by blast
  have "min (min (k + limit) m + n * limit) m = min (k + Suc n * limit) m" for m
    by (simp add: min_def)
  with Suc.IH [OF one(2)] one(1) show ?case by (simp add: store)
qed

lemma follows_all:
  assumes "follows enc p (current_serial (ph_meta p)) (s, st)" "journal_inv (ph_meta p)" "\<not> reserved key"
  shows "get_driver_value s key = t_get (replayed (ph_meta p)) key"
proof -
  let ?P = "ph_meta p"
  have keys: "map fst (journal_table ?P) = [1..<Suc (current_serial ?P)]" using assms(2) by (simp add: journal_inv_def)
  have "length (journal_table ?P) = current_serial ?P" using arg_cong [OF keys, of length] by simp
  then have "first_mutations ?P (current_serial ?P) = all_mutations ?P"
    unfolding first_mutations_def all_mutations_def keys [symmetric] by (simp add: comp_def)
  with assms show ?thesis by (simp add: follows_def get_driver_value_def replayed_def)
qed

text \<open>C9: A follower converges: starting empty and polling a primary whose journal stands at some serial, after
  enough rounds for its page size it holds every journal entry and every journaled blob reference's
  bytes, each row of the primary that was only written through the journal reads the same on both
  sides, and the next round reports that the follower is caught up.\<close>

theorem replica_converges:
  assumes "primary_ok sha K p" "state_codec enc dec" "\<forall>bs. concat (chop bs) = bs"
    and "0 < limit" "limit \<le> DEFAULT_MAX_CHANGE_PAGE_SIZE" "current_serial (ph_meta p) \<le> n * limit"
    and "sync_rounds sha enc dec (primary_changes p) (primary_blob chop p) limit n (open_new, []) = (s, st)"
  shows "current_serial s = current_serial (ph_meta p) \<and> journal_table s = journal_table (ph_meta p)
    \<and> (\<forall>key. key \<notin> K \<and> \<not> reserved key \<longrightarrow> get_driver_value s key = get_driver_value (ph_meta p) key)
    \<and> (\<forall>e \<in> set (journal_table (ph_meta p)). \<forall>b \<in> set (jr_blobs (record_of (ph_meta p) e)).
        blob_read st (br_sha256 b) = blob_read (ph_blobs p) (br_sha256 b))
    \<and> (\<exists>out store'. sync_once sha enc dec (primary_changes p) (primary_blob chop p) limit (s, st) = (Inr out, store')
        \<and> caught_up out)"
proof -
  let ?P = "ph_meta p"
  from assms(1) have inv: "journal_inv ?P" and agree: "replica_agrees K ?P"
    using driver_run_agrees by (auto simp: primary_ok_def)
  have F: "follows enc p (current_serial ?P) (s, st)"
    using sync_rounds_follow [OF assms(1-5) follows_start, of n] assms(6,7) by simp
  then have s: "journal_inv s" "current_serial s = current_serial ?P"
    "map snd (journal_table s) = map snd (take (current_serial ?P) (journal_table ?P))" by (auto simp: follows_def)
  have keys: "map fst (journal_table s) = map fst (journal_table ?P)" using s(1,2) inv by (simp add: journal_inv_def)
  then have len: "length (journal_table ?P) = current_serial ?P"
    using inv arg_cong [of _ _ length] by (metis One_nat_def diff_Suc_1 journal_inv_def length_map length_upt)
  have journal: "journal_table s = journal_table ?P"
    using keys s(3) len by (metis order_refl take_all zip_map_fst_snd)
  have rows: "get_driver_value s key = get_driver_value ?P key" if "key \<notin> K" "\<not> reserved key" for key
    using follows_all [OF F inv that(2)] agree that(1) by (simp add: replica_agrees_def)
  have blobs: "blob_read st (br_sha256 b) = blob_read (ph_blobs p) (br_sha256 b)"
    if "e \<in> set (journal_table ?P)" "b \<in> set (jr_blobs (record_of ?P e))" for e b
    using F that len unfolding follows_def blob_read_def by auto
  from sync_once_follows [OF assms(1-5) F] obtain out store' where
    "sync_once sha enc dec (primary_changes p) (primary_blob chop p) limit (s, st) = (Inr out, store')"
    "so_serial out = current_serial ?P" "so_primary_serial out = current_serial ?P" by auto
  then have "\<exists>out store'. sync_once sha enc dec (primary_changes p) (primary_blob chop p) limit (s, st) = (Inr out, store')
      \<and> caught_up out" by (auto simp: caught_up_def)
  with s(2) journal rows blobs show ?thesis by blast
qed

lemma holds_blob_code [code]:
  "holds_blob b d sz \<longleftrightarrow> from_hex d = Some d \<and> map_option length (t_get b (path_for d)) = Some sz"
  by (auto simp: holds_blob_def)

definition unary_state :: "replica_state \<Rightarrow> bytes" where
  "unary_state st = replicate (rs_serial st) CHR ''1'' @ CHR ''0'' # rs_source st"

definition read_unary :: "bytes \<Rightarrow> replica_state option" where
  "read_unary b = Some \<lparr>rs_source = tl (dropWhile ((=) CHR ''1'') b), rs_serial = length (takeWhile ((=) CHR ''1'') b)\<rparr>"

lemma unary_codec: "state_codec unary_state read_unary"
proof -
  have "takeWhile ((=) CHR ''1'') (replicate n CHR ''1'' @ CHR ''0'' # xs) = replicate n CHR ''1''"
    "dropWhile ((=) CHR ''1'') (replicate n CHR ''1'' @ CHR ''0'' # xs) = CHR ''0'' # xs" for n xs
    by (induction n) simp_all
  then show ?thesis by (simp add: state_codec_def unary_state_def read_unary_def)
qed

definition upload_body :: "(unit, meta_error) txn_body" where
  "upload_body txn = Inr (((), [''e1'', ''e2'']),
     txn_put (txn_reference_blob txn (digest_of sample_sha ''abc'') 3) ''a/1'' ''x'')"

definition primary_sample :: primary_http_state where
  "primary_sample = \<lparr>ph_source = ''p'', ph_token = ''t'',
     ph_meta = (case commit_driver_txn id upload_body open_new of Inr (_, s) \<Rightarrow> s | Inl _ \<Rightarrow> open_new),
     ph_blobs = snd (blob_write sample_sha [] ''abc'')\<rparr>"

lemma primary_sample_ok: "primary_ok sample_sha {} primary_sample"
proof -
  have "is_ok (commit_driver_txn id upload_body open_new)" by code_simp
  then have c: "commit_driver_txn_at id None None Inr upload_body open_new = Inr ((), ph_meta primary_sample)"
    by (auto simp: is_ok_iff primary_sample_def commit_driver_txn_def)
  have b: "upload_body (open_txn open_new) = Inr (((), [''e1'', ''e2'']),
      txn_put (txn_reference_blob (open_txn open_new) (digest_of sample_sha ''abc'') 3) ''a/1'' ''x'')"
    by (simp add: upload_body_def)
  have "txn_run (open_txn open_new) {} (txn_put (txn_reference_blob (open_txn open_new) (digest_of sample_sha ''abc'') 3) ''a/1'' ''x'')"
    unfolding txn_put_def by (intro run_put run_reference_blob run_start)
  from run_commit [OF run_open b this frame_Inr c] have "driver_run {} (ph_meta primary_sample)" by simp
  moreover have "blob_run sample_sha (ph_blobs primary_sample)"
    by (simp add: primary_sample_def blob_written [OF blob_fresh])
  moreover have "list_all (\<lambda>m. \<not> reserved (dm_key m)) (all_mutations (ph_meta primary_sample))"
    "list_all (\<lambda>e. list_all (\<lambda>b. holds_blob (ph_blobs primary_sample) (br_sha256 b) (br_size b))
          (jr_blobs (record_of (ph_meta primary_sample) e))) (journal_table (ph_meta primary_sample))"
    by code_simp+
  ultimately show ?thesis by (simp add: primary_ok_def) (simp add: primary_sample_def)
qed

theorem replica_converges_witness:
  "\<exists>s st. sync_rounds sample_sha unary_state read_unary (primary_changes primary_sample)
      (primary_blob (\<lambda>bs. [bs]) primary_sample) 1 2 (open_new, []) = (s, st)
    \<and> current_serial s = 2 \<and> get_driver_value s ''a/1'' = Some ''x''"
proof -
  let ?r = "sync_rounds sample_sha unary_state read_unary (primary_changes primary_sample)
      (primary_blob (\<lambda>bs. [bs]) primary_sample) 1 2 (open_new, [])"
  have serial: "current_serial (ph_meta primary_sample) = 2" by code_simp
  have row: "get_driver_value (ph_meta primary_sample) ''a/1'' = Some ''x''" "\<not> reserved ''a/1''" by code_simp+
  have "sync_rounds sample_sha unary_state read_unary (primary_changes primary_sample)
      (primary_blob (\<lambda>bs. [bs]) primary_sample) 1 2 (open_new, []) = (fst ?r, snd ?r)" by simp
  from replica_converges [OF primary_sample_ok unary_codec _ _ _ _ this] serial row show ?thesis
    by (auto simp: DEFAULT_MAX_CHANGE_PAGE_SIZE_def intro!: exI [of _ "fst ?r"] exI [of _ "snd ?r"])
qed

end
