(* ===== verification/ReplicaSafety.thy ===== *)
theory ReplicaSafety
  imports Replication
begin

text \<open>
  What one round of \<open>sync_once\<close> guarantees against any answers of the primary: the page checks of
  \<open>ValidatedPage::new\<close>, the verification of every blob before the commit and the atomic commit.
\<close>

section \<open>An untrusted primary\<close>

lemma validate_metadata_Inr:
  "validate_metadata ms t = Inr t' \<Longrightarrow>
   t' = fold stage_row ms t \<and> list_all (\<lambda>m. \<not> reserved (mutation_key m)) ms"
  by (induction ms arbitrary: t) (auto simp: stage_row_def split: if_splits)

text \<open>The blobs staged so far: each under its own digest.\<close>

definition staged_wf :: "(string, string \<times> nat) tbl \<Rightarrow> bool" where
  "staged_wf t \<longleftrightarrow> (\<forall>k d sz. t_get t k = Some (d, sz) \<longrightarrow> d = k)"

lemma validate_blobs_Inr:
  assumes "(validate_blobs bs t :: 'e sync_error + _) = Inr t'" "staged_wf t"
  shows "staged_wf t' \<and> (\<forall>k e. t_get t k = Some e \<longrightarrow> t_get t' k = Some e)
    \<and> (\<forall>b \<in> set bs. t_get t' (wb_sha256 b) = Some (wb_sha256 b, wb_size b))"
  using assms
proof (induction bs arbitrary: t)
  case (Cons b bs)
  let ?t = "t_insert t (wb_sha256 b) (wb_sha256 b, wb_size b)"
  from Cons.prems have step: "(validate_blobs bs ?t :: 'e sync_error + _) = Inr t'"
    and same: "\<And>e. t_get t (wb_sha256 b) = Some e \<Longrightarrow> e = (wb_sha256 b, wb_size b)"
    by (auto simp: from_hex_Some staged_wf_def split: option.splits if_splits)
  have "staged_wf ?t" using Cons.prems(2) by (auto simp: staged_wf_def)
  note IH = Cons.IH [OF step this]
  have "t_get t' k = Some e" if "t_get t k = Some e" for k e
  proof -
    have "t_get ?t k = Some e" using that same by (cases "k = wb_sha256 b") auto
    with IH show ?thesis by blast
  qed
  moreover have "t_get t' (wb_sha256 b) = Some (wb_sha256 b, wb_size b)" using IH by simp
  ultimately show ?case using IH by simp
qed auto

lemma validate_changes_Inr:
  assumes "(validate_changes cs v :: 'e sync_error + _) = Inr v'" "staged_wf (vp_blobs v)"
  shows "v' = v\<lparr>vp_through := vp_through v + length cs, vp_journal := vp_journal v @ map ch_event cs,
      vp_metadata := fold stage_row (concat (map ch_metadata cs)) (vp_metadata v), vp_blobs := vp_blobs v'\<rparr>
    \<and> map ch_serial cs = [Suc (vp_through v)..<Suc (vp_through v + length cs)]
    \<and> list_all (\<lambda>m. \<not> reserved (mutation_key m)) (concat (map ch_metadata cs))
    \<and> staged_wf (vp_blobs v') \<and> (\<forall>k e. t_get (vp_blobs v) k = Some e \<longrightarrow> t_get (vp_blobs v') k = Some e)
    \<and> (\<forall>c \<in> set cs. \<forall>b \<in> set (ch_blobs c). t_get (vp_blobs v') (wb_sha256 b) = Some (wb_sha256 b, wb_size b))"
  using assms
proof (induction cs arbitrary: v)
  case (Cons c cs)
  from Cons.prems(1) obtain md bl where
    serial: "checked_sub_u64 (ch_serial c) 1 = Some (vp_through v)"
    and md: "(validate_metadata (ch_metadata c) (vp_metadata v) :: 'e sync_error + _) = Inr md"
    and bl: "(validate_blobs (ch_blobs c) (vp_blobs v) :: 'e sync_error + _) = Inr bl"
    and rest: "(validate_changes cs (v\<lparr>vp_through := ch_serial c, vp_journal := vp_journal v @ [ch_event c],
          vp_metadata := md, vp_blobs := bl\<rparr>) :: 'e sync_error + _) = Inr v'"
    by (auto simp: rbind_eq_Inr split: if_splits)
  have s: "ch_serial c = Suc (vp_through v)" using serial by (auto simp: checked_sub_u64_def split: if_splits)
  note m = validate_metadata_Inr [OF md] and b = validate_blobs_Inr [OF bl Cons.prems(2)]
  from Cons.IH [OF rest] b show ?case
    by (simp add: s m upt_conv_Cons del: upt_Suc)
qed simp

lemma stream_blob_Inr:
  "stream_blob d sz chunks actual p = Inr (actual', p') \<Longrightarrow>
   \<exists>cs. p' = fold (\<lambda>c p. pending_write p c) cs p \<and> actual' = actual + length (concat cs)"
proof (induction d sz chunks actual p rule: stream_blob.induct)
  case (1 digest sz actual pending)
  then show ?case by (intro exI [of _ "[]"]) simp
next
  case (3 digest sz chunk chunks actual pending)
  then obtain cs where "p' = fold (\<lambda>c p. pending_write p c) cs (pending_write pending chunk)"
    "actual' = actual + length chunk + length (concat cs)" by (auto split: if_splits)
  then show ?case by (intro exI [of _ "chunk # cs"]) simp
qed simp

definition verified_blob :: "(bytes \<Rightarrow> bytes) \<Rightarrow> blob_store \<Rightarrow> string \<Rightarrow> nat \<Rightarrow> bool" where
  "verified_blob sha st d sz \<longleftrightarrow> (\<exists>bs. blob_read st d = Inr bs \<and> length bs = sz \<and> digest_of sha bs = d)"

definition keeps_blobs :: "blob_store \<Rightarrow> blob_store \<Rightarrow> bool" where
  "keeps_blobs st st' \<longleftrightarrow> (\<forall>d bs. blob_read st d = Inr bs \<longrightarrow> blob_read st' d = Inr bs)"

lemma fetch_blob_Inr:
  assumes "(fetch_blob sha blob (d, sz) st :: 'e sync_error + _) = Inr (n, st')" "blob_run sha st"
  shows "blob_run sha st' \<and> keeps_blobs st st' \<and> verified_blob sha st' d sz"
proof (cases "t_get st (path_for d)")
  case (Some bs)
  with assms show ?thesis
    by (auto simp: fetch_blob_def blob_head_def blob_verify_def blob_read_def rbind_eq_Inr map_err_eq_Inr
      keeps_blobs_def verified_blob_def split: if_splits)
next
  case None
  from assms(1) None obtain chunks :: "('e + bytes) list" and actual pending where
    "stream_blob d sz chunks 0 blob_begin = Inr (actual, pending)" and sz: "actual = sz"
    and c: "blob_commit sha st pending d = Inr st'"
    by (auto simp: fetch_blob_def blob_head_def rbind_eq_Inr map_err_eq_Inr split: if_splits)
  from stream_blob_Inr [OF this(1)] obtain cs where
    cs: "pending = fold (\<lambda>c p. pending_write p c) cs blob_begin" "sz = length (concat cs)" using sz by auto
  then have "st' = place st d (concat cs)" "digest_of sha (concat cs) = d" using c
    by (auto simp: blob_commit_def pending_chunks blob_begin_def pending_finish_def commit_staged_def Let_def split: if_splits)
  moreover have "blob_run sha st'" using blob_streamed [OF assms(2)] c cs(1) by blast
  ultimately show ?thesis using None cs(2)
    by (auto simp: keeps_blobs_def verified_blob_def place_def blob_exists_def blob_read_def)
qed

lemma fetch_blobs_safe:
  assumes "fetch_blobs sha blob entries fetched st = (r, st')" "blob_run sha st"
  shows "blob_run sha st' \<and> keeps_blobs st st'
    \<and> (is_ok r \<longrightarrow> (\<forall>e \<in> set entries. verified_blob sha st' (fst e) (snd e)))"
  using assms
proof (induction entries arbitrary: fetched st)
  case (Cons e entries)
  obtain d sz where e: "e = (d, sz)" by (cases e)
  show ?case
  proof (cases "fetch_blob sha blob (d, sz) st")
    case (Inl x)
    with Cons.prems show ?thesis by (auto simp: e keeps_blobs_def)
  next
    case (Inr a)
    obtain n st1 where a: "a = (n, st1)" by (cases a)
    note one = fetch_blob_Inr [OF Inr [unfolded a] Cons.prems(2)]
    from Cons.prems(1) Inr a have "fetch_blobs sha blob entries (fetched + n) st1 = (r, st')" by (simp add: e)
    from Cons.IH [OF this] one have rest: "blob_run sha st'" "keeps_blobs st1 st'"
      "is_ok r \<longrightarrow> (\<forall>e \<in> set entries. verified_blob sha st' (fst e) (snd e))" by blast+
    moreover have "keeps_blobs st st'" "verified_blob sha st' d sz"
      using one rest(2) by (auto simp: keeps_blobs_def verified_blob_def)
    ultimately show ?thesis by (simp add: e)
  qed
qed (auto simp: keeps_blobs_def)

lemma commit_page_room:
  assumes "journal_inv s" "vp_journal v \<noteq> []" "distinct (map fst (vp_metadata v))"
    and "(commit_replica_txn SyncStore (current_serial s) (replica_body enc v) s :: 'e sync_error + _) = Inr (u, s')"
  shows "current_serial s + length (vp_journal v) \<le> u64_max"
proof -
  from replica_body_run [where 'e = 'e, OF assms(1,3)] obtain t where
    body: "(replica_body enc v :: (unit, 'e sync_error) txn_body) (open_txn s) = Inr (((), vp_journal v), t)"
    and wf: "t_wf (dt_table t)" by blast
  have "(commit_driver_txn_at SyncStore (Some (current_serial s)) None Inr (replica_body enc v) s :: 'e sync_error + _)
      = Inr ((), s')"
    using assms(4) by (simp add: commit_replica_txn_def)
  from commit_driver_txn_at_Inr [OF this body frame_Inr] obtain s1 where
    "write_journal (s\<lparr>driver_kv := dt_table t\<rparr>) (vp_journal v) (txn_mutations t) (dt_blobs t) = Inr s1"
    using assms(2) unfolding txn_effect_def by auto
  from write_journal_Inr [OF journal_inv_kv [OF assms(1) wf] this assms(2)]
  show ?thesis by (simp add: journal_inv_def current_serial_def)
qed

lemma sync_once_cases:
  assumes "sync_once sha enc dec changes blob limit (s, st) = ((r :: 'e sync_error + _), s', st')" "blob_run sha st"
  shows "blob_run sha st' \<and> keeps_blobs st st' \<and> (case r of
      Inl e \<Rightarrow> s' = s
    | Inr out \<Rightarrow> \<exists>state page v.
        (replica_state_of dec s :: 'e sync_error + _) = Inr state \<and> changes (state_cursor state) limit = Inr page
        \<and> (validated_page_new page (state_cursor state) limit state :: 'e sync_error + _) = Inr v
        \<and> so_changes out = length (vp_journal v) \<and> so_primary_serial out = vp_primary_serial v
        \<and> (\<forall>e \<in> set (vp_blobs v). verified_blob sha st' (fst (snd e)) (snd (snd e)))
        \<and> (if vp_journal v = [] then s' = s \<and> so_serial out = state_cursor state
           else (commit_replica_txn SyncStore (state_cursor state) (replica_body enc v) s :: 'e sync_error + _) = Inr ((), s')
             \<and> so_serial out = vp_through v))"
proof (cases "replica_state_of dec s :: 'e sync_error + _")
  case (Inl e)
  with assms show ?thesis by (auto simp: sync_once_def keeps_blobs_def)
next
  case state: (Inr state)
  let ?after = "state_cursor state"
  show ?thesis
  proof (cases "rbind (map_err SyncPrimary (changes ?after limit)) (\<lambda>page.
      validated_page_new page ?after limit state) :: 'e sync_error + _")
    case (Inl e)
    with assms state show ?thesis by (auto simp: sync_once_def keeps_blobs_def)
  next
    case v: (Inr v)
    then obtain page where page: "changes ?after limit = Inr page"
      "(validated_page_new page ?after limit state :: 'e sync_error + _) = Inr v" by (auto simp: rbind_eq_Inr)
    obtain f st1 where f: "fetch_blobs sha blob (map snd (vp_blobs v)) 0 st = (f, st1)" by fastforce
    have st1: "st1 = st'" using assms(1) state page f
      by (auto simp: sync_once_def Let_def split: sum.splits if_splits)
    from fetch_blobs_safe [OF f assms(2)] have safe: "blob_run sha st'" "keeps_blobs st st'"
      "is_ok f \<longrightarrow> (\<forall>e \<in> set (vp_blobs v). verified_blob sha st' (fst (snd e)) (snd (snd e)))" by (auto simp: st1)
    show ?thesis
    proof (cases f)
      case (Inl e)
      with assms state page f safe show ?thesis by (auto simp: sync_once_def)
    next
      case (Inr n)
      let ?c = "commit_replica_txn SyncStore ?after (replica_body enc v) s :: 'e sync_error + _"
      have res: "(r, s', st') = (if vp_journal v = [] then
            (Inr \<lparr>so_changes = 0, so_blobs = n, so_serial = ?after, so_primary_serial = vp_primary_serial v\<rparr>, s, st1)
          else case ?c of Inl e \<Rightarrow> (Inl e, s, st1)
            | Inr (u, s1) \<Rightarrow> (Inr \<lparr>so_changes = length (vp_journal v), so_blobs = n, so_serial = vp_through v,
                so_primary_serial = vp_primary_serial v\<rparr>, s1, st1))"
        using assms(1) state page f Inr by (auto simp: sync_once_def Let_def split: if_splits)
      have "case r of Inl e \<Rightarrow> s' = s | Inr out \<Rightarrow>
          so_changes out = length (vp_journal v) \<and> so_primary_serial out = vp_primary_serial v
          \<and> (if vp_journal v = [] then s' = s \<and> so_serial out = ?after
             else ?c = Inr ((), s') \<and> so_serial out = vp_through v)"
        using res by (cases ?c) (auto split: if_splits)
      with state page safe Inr show ?thesis by (cases r) simp_all
    qed
  qed
qed

lemma replica_state_of_Inr:
  "replica_state_of dec s = Inr state \<Longrightarrow> state_cursor state = current_serial s
   \<and> (\<forall>raw st0. get_driver_value s REPLICA_STATE_KEY = Some raw \<and> dec raw = Some st0 \<longrightarrow> state = Some st0)"
  by (auto simp: replica_state_of_def rbind_eq_Inr split: option.splits if_splits)

lemma validated_page_Inr:
  assumes "(validated_page_new page after limit state :: 'e sync_error + _) = Inr v"
  shows "length (cp_changes page) \<le> limit \<and> (\<forall>st. state = Some st \<longrightarrow> rs_source st = cp_source page)
    \<and> vp_through v = after + length (cp_changes page) \<and> vp_journal v = map ch_event (cp_changes page)
    \<and> vp_metadata v = fold stage_row (concat (map ch_metadata (cp_changes page))) []
    \<and> map ch_serial (cp_changes page) = [Suc after..<Suc (after + length (cp_changes page))]
    \<and> list_all (\<lambda>m. \<not> reserved (mutation_key m)) (concat (map ch_metadata (cp_changes page)))
    \<and> (\<forall>c \<in> set (cp_changes page). \<forall>b \<in> set (ch_blobs c).
        t_get (vp_blobs v) (wb_sha256 b) = Some (wb_sha256 b, wb_size b))"
proof -
  let ?v = "\<lparr>vp_source = cp_source page, vp_through = after,
          vp_primary_serial = cp_current_serial page, vp_journal = [], vp_metadata = [], vp_blobs = []\<rparr>"
  from assms have ok: "(validate_changes (cp_changes page) ?v :: 'e sync_error + _) = Inr v"
    and head: "length (cp_changes page) \<le> limit" "\<forall>st. state = Some st \<longrightarrow> rs_source st = cp_source page"
    by (auto simp: validated_page_new_def rbind_eq_Inr split: if_splits)
  have "staged_wf (vp_blobs ?v)" by (simp add: staged_wf_def)
  note valid = validate_changes_Inr [OF ok this]
  then have "v = ?v\<lparr>vp_through := after + length (cp_changes page), vp_journal := map ch_event (cp_changes page),
      vp_metadata := fold stage_row (concat (map ch_metadata (cp_changes page))) [], vp_blobs := vp_blobs v\<rparr>" by simp
  then obtain bl where v: "v = ?v\<lparr>vp_through := after + length (cp_changes page), vp_journal := map ch_event (cp_changes page),
      vp_metadata := fold stage_row (concat (map ch_metadata (cp_changes page))) [], vp_blobs := bl\<rparr>" by blast
  from valid head show ?thesis unfolding v by simp
qed

lemma unstaged_reserved:
  assumes "list_all (\<lambda>m. \<not> reserved (mutation_key m)) ms" "reserved k"
  shows "overlay (fold stage_row ms []) t k = t_get t k"
proof -
  have "k \<notin> mutation_key ` set ms" using assms by (auto simp: list_all_iff)
  with stage_rows_keys [of ms "[]" k] show ?thesis by (auto simp: overlay_def split: option.split)
qed

text \<open>C10: Whatever a primary answers, one round leaves the follower sound: blobs already held stay, every blob in
  its store hashes to its address, and a failed round leaves the metadata untouched.  A successful
  round applied the events of one page of the pinned source, consecutive from the follower's own
  serial and no more than the page limit; every blob the page names is then held with the announced
  size and digest, and of the follower's own keys only its cursor can have changed.\<close>

theorem untrusted_primary_contained:
  assumes "blob_run sha st" "driver_run K s"
    and "sync_once sha enc dec changes blob limit (s, st) = (r, s', st')"
  shows "blob_run sha st' \<and> keeps_blobs st st' \<and> (case r of
      Inl e \<Rightarrow> s' = s
    | Inr out \<Rightarrow> \<exists>page. changes (current_serial s) limit = Inr page
        \<and> length (cp_changes page) \<le> limit \<and> so_changes out = length (cp_changes page)
        \<and> (\<forall>raw st0. get_driver_value s REPLICA_STATE_KEY = Some raw \<and> dec raw = Some st0 \<longrightarrow> rs_source st0 = cp_source page)
        \<and> map ch_serial (cp_changes page) = [Suc (current_serial s)..<Suc (current_serial s + length (cp_changes page))]
        \<and> current_serial s' = current_serial s + length (cp_changes page) \<and> so_serial out = current_serial s'
        \<and> map snd (journal_table s') = map snd (journal_table s) @ map ch_event (cp_changes page)
        \<and> (\<forall>c \<in> set (cp_changes page). \<forall>b \<in> set (ch_blobs c). verified_blob sha st' (wb_sha256 b) (wb_size b))
        \<and> (\<forall>k. reserved k \<and> k \<noteq> REPLICA_STATE_KEY \<longrightarrow> get_driver_value s' k = get_driver_value s k))"
proof (cases r)
  case (Inl e)
  with sync_once_cases [OF assms(3,1)] show ?thesis by auto
next
  case (Inr out)
  have inv: "journal_inv s" using driver_run_agrees [OF assms(2)] by blast
  from sync_once_cases [OF assms(3,1)] Inr obtain state page v where
    run: "blob_run sha st'" "keeps_blobs st st'" and state: "(replica_state_of dec s :: 'a sync_error + _) = Inr state"
    and page: "changes (state_cursor state) limit = Inr page"
    and v: "(validated_page_new page (state_cursor state) limit state :: 'a sync_error + _) = Inr v"
    and out: "so_changes out = length (vp_journal v)"
    and held: "\<forall>e \<in> set (vp_blobs v). verified_blob sha st' (fst (snd e)) (snd (snd e))"
    and commit: "if vp_journal v = [] then s' = s \<and> so_serial out = state_cursor state
           else (commit_replica_txn SyncStore (state_cursor state) (replica_body enc v) s :: 'a sync_error + _) = Inr ((), s')
             \<and> so_serial out = vp_through v" by auto
  note cur = replica_state_of_Inr [OF state] and p = validated_page_Inr [OF v]
  have blobs: "\<forall>c \<in> set (cp_changes page). \<forall>b \<in> set (ch_blobs c). verified_blob sha st' (wb_sha256 b) (wb_size b)"
    using p held by (metis fst_conv snd_conv t_get_mem)
  have "current_serial s' = current_serial s + length (cp_changes page) \<and> so_serial out = current_serial s'
      \<and> map snd (journal_table s') = map snd (journal_table s) @ map ch_event (cp_changes page)
      \<and> (\<forall>k. reserved k \<and> k \<noteq> REPLICA_STATE_KEY \<longrightarrow> get_driver_value s' k = get_driver_value s k)"
  proof (cases "vp_journal v = []")
    case True
    with commit cur p show ?thesis by simp
  next
    case False
    have md: "distinct (map fst (vp_metadata v))" using p by (simp add: t_wf_distinct stage_rows_wf)
    from commit False cur have c: "(commit_replica_txn SyncStore (current_serial s) (replica_body enc v) s :: 'a sync_error + _) = Inr ((), s')"
      and so: "so_serial out = vp_through v" by simp_all
    from commit_page_ok [OF inv commit_page_room [OF inv False md c] False md, where 'e = 'a and enc = enc] c p cur so
    show ?thesis by (auto simp: get_driver_value_def unstaged_reserved)
  qed
  with run page cur p out blobs Inr show ?thesis by auto
qed

theorem untrusted_primary_contained_witness:
  "\<exists>e st'. sync_once sample_sha unary_state read_unary (primary_changes primary_sample) (\<lambda>d. Inr [Inr ''abd'']) 2
      (open_new, []) = (Inl e, open_new, st') \<and> blob_run sample_sha st'"
proof -
  let ?r = "sync_once sample_sha unary_state read_unary (primary_changes primary_sample) (\<lambda>d. Inr [Inr ''abd'']) 2 (open_new, [])"
  have "?r = (fst ?r, fst (snd ?r), snd (snd ?r))" by simp
  note safe = untrusted_primary_contained [OF blob_fresh run_open this]
  have "\<not> is_ok (fst ?r)" by code_simp
  then obtain e where "fst ?r = Inl e" by (cases "fst ?r") auto
  with safe show ?thesis by (cases ?r) auto
qed

end
