(* ===== verification/Envelope.thy ===== *)
theory Envelope
  imports Replication
begin

text \<open>
  The versioned envelope around one replicated change, \<open>crates/peryx-replication/src/envelope.rs\<close>.
  The JSON reader and writer of serde are arguments; the bounds that are enforced before they see
  untrusted bytes are modelled as written, byte by byte.
\<close>

section \<open>Versions\<close>

type_synonym schema_version = nat

type_synonym authority_epoch = nat

definition MIN_SCHEMA_VERSION :: schema_version where "MIN_SCHEMA_VERSION = 1"

definition CURRENT_SCHEMA_VERSION :: schema_version where "CURRENT_SCHEMA_VERSION = 1"

text \<open>Inclusive ranges are pairs of their ends.\<close>

definition SUPPORTED_SCHEMA_VERSIONS :: "schema_version \<times> schema_version" where
  "SUPPORTED_SCHEMA_VERSIONS = (MIN_SCHEMA_VERSION, CURRENT_SCHEMA_VERSION)"

definition range_contains :: "nat \<times> nat \<Rightarrow> nat \<Rightarrow> bool" where
  "range_contains r v \<longleftrightarrow> fst r \<le> v \<and> v \<le> snd r"

definition negotiate :: "schema_version \<times> schema_version \<Rightarrow> schema_version \<times> schema_version \<Rightarrow> schema_version option" where
  "negotiate local remote =
     (let low = max (fst local) (fst remote); high = min (snd local) (snd remote) in
      if low \<le> high then Some high else None)"

section \<open>Envelopes\<close>

datatype operation_kind = OpUpload | OpYank | OpDelete | OpCacheFill | OpOciPush | OpOciDelete

fun operation_kind_as_str :: "operation_kind \<Rightarrow> string" where
  "operation_kind_as_str OpUpload = ''upload''"
| "operation_kind_as_str OpYank = ''yank''"
| "operation_kind_as_str OpDelete = ''delete''"
| "operation_kind_as_str OpCacheFill = ''cache-fill''"
| "operation_kind_as_str OpOciPush = ''oci-push''"
| "operation_kind_as_str OpOciDelete = ''oci-delete''"

record trace_context =
  traceparent :: string
  tracestate :: "string option"

record operation_id =
  oi_source :: string
  oi_epoch :: authority_epoch
  oi_serial :: nat

record decode_limits =
  max_bytes :: nat
  max_depth :: nat

definition DEFAULT_DECODE_LIMITS :: decode_limits where
  "DEFAULT_DECODE_LIMITS = \<lparr>max_bytes = 1048576, max_depth = 32\<rparr>"

datatype envelope_error =
    TooLarge nat nat
  | TooDeep nat
  | Malformed
  | EnvelopeVersion schema_version schema_version schema_version
  | EnvelopeEmptySource
  | InvalidTrace string

record operation_envelope =
  oe_schema_version :: schema_version
  oe_source :: string
  oe_epoch :: authority_epoch
  oe_kind :: operation_kind
  oe_trace :: "trace_context option"
  oe_change :: change

definition envelope_current :: "string \<Rightarrow> authority_epoch \<Rightarrow> operation_kind \<Rightarrow> change \<Rightarrow> operation_envelope" where
  "envelope_current source epoch kind ch = \<lparr>oe_schema_version = CURRENT_SCHEMA_VERSION, oe_source = source,
     oe_epoch = epoch, oe_kind = kind, oe_trace = None, oe_change = ch\<rparr>"

definition envelope_identity :: "operation_envelope \<Rightarrow> operation_id" where
  "envelope_identity e = \<lparr>oi_source = oe_source e, oi_epoch = oe_epoch e, oi_serial = ch_serial (oe_change e)\<rparr>"

section \<open>Bounds on untrusted bytes\<close>

fun scan_depth :: "bytes \<Rightarrow> nat \<Rightarrow> nat \<Rightarrow> bool \<Rightarrow> bool \<Rightarrow> bool" where
  "scan_depth [] max_level depth in_string escaped = False"
| "scan_depth (b # bs) max_level depth in_string escaped =
     (if in_string then
        if escaped then scan_depth bs max_level depth True False
        else if b = CHR 0x5C then scan_depth bs max_level depth True True
        else if b = CHR 0x22 then scan_depth bs max_level depth False False
        else scan_depth bs max_level depth True False
      else if b = CHR 0x22 then scan_depth bs max_level depth True escaped
      else if b = CHR ''{'' \<or> b = CHR ''['' then
        if depth + 1 > max_level then True else scan_depth bs max_level (depth + 1) False escaped
      else if b = CHR ''}'' \<or> b = CHR '']'' then scan_depth bs max_level (depth - 1) False escaped
      else scan_depth bs max_level depth False escaped)"

definition exceeds_depth :: "bytes \<Rightarrow> nat \<Rightarrow> bool" where
  "exceeds_depth bs max_level = scan_depth bs max_level 0 False False"

definition valid_traceparent :: "string \<Rightarrow> bool" where
  "valid_traceparent s = (case split_on CHR ''-'' s of
      [version, trace_id, parent_id, flags] \<Rightarrow>
        length version = 2 \<and> length trace_id = 32 \<and> length parent_id = 16 \<and> length flags = 2
        \<and> list_all (list_all is_ascii_hexdigit) [version, trace_id, parent_id, flags]
        \<and> list_ex (\<lambda>b. b \<noteq> CHR ''0'') trace_id \<and> list_ex (\<lambda>b. b \<noteq> CHR ''0'') parent_id
    | _ \<Rightarrow> False)"

definition validated :: "operation_envelope \<Rightarrow> envelope_error + operation_envelope" where
  "validated e =
     (if oe_source e = [] then Inl EnvelopeEmptySource
      else if \<not> range_contains SUPPORTED_SCHEMA_VERSIONS (oe_schema_version e)
      then Inl (EnvelopeVersion (oe_schema_version e) MIN_SCHEMA_VERSION CURRENT_SCHEMA_VERSION)
      else case oe_trace e of
        Some t \<Rightarrow> if \<not> valid_traceparent (traceparent t) then Inl (InvalidTrace (traceparent t)) else Inr e
      | None \<Rightarrow> Inr e)"

definition envelope_decode ::
    "(bytes \<Rightarrow> operation_envelope option) \<Rightarrow> bytes \<Rightarrow> decode_limits \<Rightarrow> envelope_error + operation_envelope" where
  "envelope_decode from_slice bs limits =
     (if length bs > max_bytes limits then Inl (TooLarge (max_bytes limits) (length bs))
      else if exceeds_depth bs (max_depth limits) then Inl (TooDeep (max_depth limits))
      else rbind (ok_or Malformed (from_slice bs)) validated)"

section \<open>JSON text\<close>

text \<open>
  The nesting the scan is meant to bound: a JSON value as a tree, with its text.  A string's content
  is plain bytes and two-byte escapes; what stands between the tokens (white space, commas,
  colons, numbers and literals) is any text without quotes and brackets.
\<close>

datatype json_char = Plain char | Escape char

datatype json = Scalar string | Str "json_char list" | Arr "json list" | Obj "json list"

fun char_text :: "json_char \<Rightarrow> bytes" where
  "char_text (Plain c) = [c]"
| "char_text (Escape c) = [CHR 0x5C, c]"

fun plain_ok :: "json_char \<Rightarrow> bool" where
  "plain_ok (Plain c) \<longleftrightarrow> c \<noteq> CHR 0x5C \<and> c \<noteq> CHR 0x22"
| "plain_ok (Escape c) \<longleftrightarrow> True"

fun json_text :: "json \<Rightarrow> bytes" where
  "json_text (Scalar s) = s"
| "json_text (Str cs) = CHR 0x22 # concat (map char_text cs) @ [CHR 0x22]"
| "json_text (Arr vs) = CHR ''['' # concat (map json_text vs) @ [CHR '']'']"
| "json_text (Obj vs) = CHR ''{'' # concat (map json_text vs) @ [CHR ''}'']"

fun json_ok :: "json \<Rightarrow> bool" where
  "json_ok (Scalar s) \<longleftrightarrow> list_all (\<lambda>c. c \<notin> {CHR 0x22, CHR ''{'', CHR ''['', CHR ''}'', CHR '']''}) s"
| "json_ok (Str cs) \<longleftrightarrow> list_all plain_ok cs"
| "json_ok (Arr vs) \<longleftrightarrow> list_all json_ok vs"
| "json_ok (Obj vs) \<longleftrightarrow> list_all json_ok vs"

fun json_depth :: "json \<Rightarrow> nat" where
  "json_depth (Scalar s) = 0"
| "json_depth (Str cs) = 0"
| "json_depth (Arr vs) = Suc (fold (\<lambda>v. max (json_depth v)) vs 0)"
| "json_depth (Obj vs) = Suc (fold (\<lambda>v. max (json_depth v)) vs 0)"

lemma scan_scalar:
  "json_ok (Scalar s) \<Longrightarrow> scan_depth (s @ rest) m d False False = scan_depth rest m d False False"
  by (induction s) auto

lemma scan_string:
  "list_all plain_ok cs \<Longrightarrow>
   scan_depth (concat (map char_text cs) @ CHR 0x22 # rest) m d True False = scan_depth rest m d False False"
proof (induction cs)
  case (Cons c cs)
  then show ?case by (cases c) auto
qed simp

lemma fold_max: "fold (\<lambda>v. max (f v)) vs (a :: nat) = max a (fold (\<lambda>v. max (f v)) vs 0)"
proof (induction vs arbitrary: a)
  case (Cons v vs)
  from Cons.IH [of "max (f v) a"] Cons.IH [of "f v"] show ?case by (simp add: max.assoc max.commute max.left_commute)
qed simp

text \<open>Scanning past a value: it is refused when it nests past the bound, and otherwise the scan goes on
  behind it at the same level.\<close>

definition scans_past :: "json \<Rightarrow> bool" where
  "scans_past v \<longleftrightarrow> (\<forall>m d rest. d \<le> m \<longrightarrow>
     scan_depth (json_text v @ rest) m d False False = (m < d + json_depth v \<or> scan_depth rest m d False False))"

lemma scan_values:
  "list_all scans_past vs \<Longrightarrow> d \<le> m \<Longrightarrow>
   scan_depth (concat (map json_text vs) @ rest) m d False False
     = (m < d + fold (\<lambda>v. max (json_depth v)) vs 0 \<or> scan_depth rest m d False False)"
proof (induction vs)
  case (Cons v vs)
  have "scan_depth (json_text v @ concat (map json_text vs) @ rest) m d False False
      = (m < d + json_depth v \<or> scan_depth (concat (map json_text vs) @ rest) m d False False)"
    using Cons.prems by (auto simp: scans_past_def)
  with Cons.IH Cons.prems fold_max [of json_depth vs "json_depth v"] show ?case by auto
qed simp

lemma scan_brackets:
  assumes "list_all scans_past vs" "d \<le> m" "(l, r) \<in> {(CHR ''['', CHR '']''), (CHR ''{'', CHR ''}'')}"
  shows "scan_depth (l # concat (map json_text vs) @ r # rest) m d False False
    = (m < d + Suc (fold (\<lambda>v. max (json_depth v)) vs 0) \<or> scan_depth rest m d False False)"
  using scan_values [OF assms(1), of "Suc d" m "r # rest"] assms(2,3) by (cases "d = m") auto

lemma scan_value: "json_ok v \<Longrightarrow> scans_past v"
proof (induction v)
  case (Scalar s)
  then show ?case using scan_scalar [of s] by (auto simp: scans_past_def)
next
  case (Str cs)
  then show ?case by (auto simp: scans_past_def scan_string)
next
  case (Arr vs)
  then have "list_all scans_past vs" by (simp add: list_all_iff)
  from scan_brackets [OF this, where l = "CHR ''[''" and r = "CHR '']''"] show ?case
    by (simp add: scans_past_def del: scan_depth.simps)
next
  case (Obj vs)
  then have "list_all scans_past vs" by (simp add: list_all_iff)
  from scan_brackets [OF this, where l = "CHR ''{''" and r = "CHR ''}''"] show ?case
    by (simp add: scans_past_def del: scan_depth.simps)
qed

section \<open>Properties\<close>

text \<open>C17: The depth bound is exact: the byte scan that runs before any JSON is parsed refuses a text exactly when
  the value it spells nests deeper than the bound, whatever brackets its strings contain.\<close>

theorem exceeds_depth_exact:
  assumes "json_ok v"
  shows "exceeds_depth (json_text v) limit \<longleftrightarrow> limit < json_depth v"
  using scan_value [OF assms] by (simp add: exceeds_depth_def scans_past_def) (metis append_Nil2 scan_depth.simps(1) add_0 le0)

theorem exceeds_depth_exact_witness:
  "exceeds_depth (json_text (Obj [Str [Plain CHR ''['', Escape CHR 0x22], Arr []])) 1
   \<and> \<not> exceeds_depth (json_text (Obj [Str [Plain CHR ''['', Escape CHR 0x22], Arr []])) 2"
proof -
  have "json_ok (Obj [Str [Plain CHR ''['', Escape CHR 0x22], Arr []])" by simp
  from exceeds_depth_exact [OF this] show ?thesis by simp
qed

text \<open>Negotiation settles on the newest version both ends speak, and fails only when there is none.\<close>

lemma negotiate_newest:
  "negotiate a b = Some v \<longleftrightarrow>
     range_contains a v \<and> range_contains b v \<and> (\<forall>w. range_contains a w \<and> range_contains b w \<longrightarrow> w \<le> v)"
proof
  assume "range_contains a v \<and> range_contains b v \<and> (\<forall>w. range_contains a w \<and> range_contains b w \<longrightarrow> w \<le> v)"
  then have v: "range_contains a v" "range_contains b v"
    and newest: "\<And>w. range_contains a w \<Longrightarrow> range_contains b w \<Longrightarrow> w \<le> v" by auto
  from newest [of "min (snd a) (snd b)"] v show "negotiate a b = Some v"
    by (auto simp: negotiate_def range_contains_def Let_def min_def max_def split: if_splits)
qed (auto simp: negotiate_def range_contains_def Let_def split: if_splits)


end
