(* ===== verification/Access.thy ===== *)
theory Access
  imports Routing Acl
begin

text \<open>
  The read access of a request, shared by the pages, the listings and the search,
  \<open>crates/peryx-driver/src/access.rs\<close> and \<open>crates/peryx-search/src/access.rs\<close>: a credential is taken
  once from the headers, then applied to each index.  The token signer is an argument.
\<close>

section \<open>Credentials of a request\<close>

datatype credential =
    CredentialAcl (cred_header: "string option") (cred_now: int)
  | CredentialBearer (cred_grants: "grant list")

datatype index_credential = IndexPublic | IndexAclCredential principal | IndexBearer "grant list"

record 'c index_read_access =
  ra_index :: "'c index"
  ra_credential :: index_credential

text \<open>\<open>signer\<close> is the configured token verifier, if any: the grants of a token it accepts.\<close>

definition from_headers :: "(string \<Rightarrow> grant list option) option \<Rightarrow> int \<Rightarrow> string option \<Rightarrow> credential" where
  "from_headers signer clock header =
     (case Option.bind header (\<lambda>v. strip_auth_scheme v ''Bearer'') of
        Some token \<Rightarrow>
          (case Option.bind signer (\<lambda>verify. verify token) of
             Some gs \<Rightarrow> CredentialBearer gs
           | None \<Rightarrow> CredentialAcl header clock)
      | None \<Rightarrow> CredentialAcl header clock)"

definition for_index :: "(string \<Rightarrow> string option) \<Rightarrow> credential \<Rightarrow> 'c index \<Rightarrow> 'c index_read_access" where
  "for_index decode cred ix = \<lparr>ra_index = ix, ra_credential =
     (if anonymous_read (ix_acl ix) then IndexPublic
      else case cred of
        CredentialAcl header now \<Rightarrow> IndexAclCredential (id_principal (identify decode (ix_acl ix) header now))
      | CredentialBearer gs \<Rightarrow> IndexBearer gs)\<rparr>"

section \<open>Names of resources\<close>

definition resource_prefix :: "string \<Rightarrow> string" where
  "resource_prefix route = (if route = [] then route else route @ ''/'')"

definition resource_name :: "string \<Rightarrow> string \<Rightarrow> string" where
  "resource_name route project = (if route = [] then project else route @ ''/'' @ project)"

section \<open>Decisions\<close>

definition authorize_any_project :: "'c index_read_access \<Rightarrow> denial + unit" where
  "authorize_any_project ra = (case ra_credential ra of
      IndexPublic \<Rightarrow> Inr ()
    | IndexAclCredential p \<Rightarrow> authorize p (ix_acl (ra_index ra)) None Read
    | IndexBearer gs \<Rightarrow>
        let pre = resource_prefix (ix_route (ra_index ra)) in
        if list_ex (\<lambda>g. Read \<in> set (actions g) \<and> list_ex (\<lambda>project. matches_prefix project pre) (projects g)) gs
        then Inr () else Inl Forbidden)"

definition authorize_project :: "'c index_read_access \<Rightarrow> string \<Rightarrow> denial + unit" where
  "authorize_project ra project = (case ra_credential ra of
      IndexPublic \<Rightarrow> Inr ()
    | IndexAclCredential p \<Rightarrow> authorize p (ix_acl (ra_index ra)) (Some project) Read
    | IndexBearer gs \<Rightarrow> authorize_grants gs (Some (resource_name (ix_route (ra_index ra)) project)) Read)"

section \<open>Search\<close>

record search_access_pattern =
  sp_route :: string
  sp_glob :: glob

definition read_globs :: "'c index \<Rightarrow> principal \<Rightarrow> glob list" where
  "read_globs ix p = concat (map projects (filter (\<lambda>g. Read \<in> set (actions g)) (acl_grants (ix_acl ix) p)))"

definition index_patterns :: "'c index_read_access \<Rightarrow> search_access_pattern list" where
  "index_patterns ra =
     (let ix = ra_index ra; pattern = (\<lambda>g. \<lparr>sp_route = ix_route ix, sp_glob = g\<rparr>) in
      case ra_credential ra of
        IndexPublic \<Rightarrow> [pattern ''*'']
      | IndexAclCredential p \<Rightarrow> map pattern (read_globs ix p)
      | IndexBearer gs \<Rightarrow>
          concat (map (\<lambda>g. map pattern (remainders_after g (resource_prefix (ix_route ix))))
            (concat (map projects (filter (\<lambda>g. Read \<in> set (actions g)) gs)))))"

definition search_access :: "(string \<Rightarrow> string option) \<Rightarrow> credential \<Rightarrow> 'c index list \<Rightarrow> search_access_pattern list" where
  "search_access decode cred indexes = concat (map (\<lambda>ix. index_patterns (for_index decode cred ix)) indexes)"

text \<open>What the search's access query admits: a document of a route whose project matches a pattern of it.\<close>

definition search_admits :: "search_access_pattern list \<Rightarrow> string \<Rightarrow> string \<Rightarrow> bool" where
  "search_admits ps route project \<longleftrightarrow> list_ex (\<lambda>p. sp_route p = route \<and> glob_matches (sp_glob p) project) ps"

section \<open>One decision\<close>

lemma resource_name_prefix: "resource_name route project = resource_prefix route @ project"
  by (simp add: resource_name_def resource_prefix_def)

lemma remainders_match:
  "(\<exists>r \<in> set (remainders_after g pre). glob_matches r rest) \<longleftrightarrow> glob_matches g (pre @ rest)"
  by (simp add: glob_matches_iff remainders_after_iff)

lemma acl_grants_read:
  "\<not> anonymous_read acl \<Longrightarrow> authorize p acl (Some project) Read = Inr () \<longleftrightarrow>
     (\<exists>g \<in> set (acl_grants acl p). grant_allows g (Some project) Read)"
proof (cases p)
  case (Named s)
  then show "\<not> anonymous_read acl \<Longrightarrow> ?thesis" by (cases "acl_token acl s") (auto simp: authorize_iff acl_grants_def)
qed (simp add: authorize_iff acl_grants_def)

lemma index_patterns_admit:
  assumes "ra = for_index decode cred ix"
  shows "(\<exists>p \<in> set (index_patterns ra). glob_matches (sp_glob p) project) \<longleftrightarrow> authorize_project ra project = Inr ()"
proof (cases "ra_credential ra")
  case IndexPublic
  then show ?thesis
    by (simp add: index_patterns_def authorize_project_def glob_matches_iff glob_spec_everything)
next
  case (IndexAclCredential p)
  with assms have "\<not> anonymous_read (ix_acl (ra_index ra))" by (auto simp: for_index_def split: if_splits)
  with IndexAclCredential acl_grants_read [of "ix_acl (ra_index ra)" p project] show ?thesis
    by (auto simp: index_patterns_def authorize_project_def read_globs_def Let_def grant_allows_def list_ex_iff)
next
  case (IndexBearer gs)
  have "(\<exists>p \<in> set (index_patterns ra). glob_matches (sp_glob p) project) \<longleftrightarrow>
      (\<exists>g \<in> set gs. Read \<in> set (actions g) \<and> (\<exists>pat \<in> set (projects g).
        \<exists>r \<in> set (remainders_after pat (resource_prefix (ix_route (ra_index ra)))). glob_matches r project))"
    using IndexBearer by (auto simp: index_patterns_def Let_def)
  with IndexBearer show ?thesis
    by (simp add: authorize_project_def remainders_match resource_name_prefix authorize_grants_iff grant_allows_def list_ex_iff)
qed

lemma pattern_route: "p \<in> set (index_patterns ra) \<Longrightarrow> sp_route p = ix_route (ra_index ra)"
  by (auto simp: index_patterns_def Let_def split: index_credential.splits)

lemma for_index_index [simp]: "ra_index (for_index decode cred ix) = ix"
  by (simp add: for_index_def)

text \<open>C31: Search and page access agree: with distinct routes, the access patterns handed to the search admit a
  project of an index exactly when the request may read that project there, whether the index is
  public, the request carries index credentials or a signed bearer token; and a request that may
  read some project is never refused the index itself.\<close>

theorem search_access_exact:
  assumes "distinct (map ix_route indexes)" "ix \<in> set indexes"
  shows "(search_admits (search_access decode cred indexes) (ix_route ix) project
      \<longleftrightarrow> authorize_project (for_index decode cred ix) project = Inr ())
    \<and> (authorize_project (for_index decode cred ix) project = Inr ()
      \<longrightarrow> authorize_any_project (for_index decode cred ix) = Inr ())"
proof -
  have same: "jx = ix" if "jx \<in> set indexes" "ix_route jx = ix_route ix" for jx
    using that assms by (auto simp: distinct_map inj_on_def)
  have "search_admits (search_access decode cred indexes) (ix_route ix) project \<longleftrightarrow>
      (\<exists>jx \<in> set indexes. \<exists>p \<in> set (index_patterns (for_index decode cred jx)).
        sp_route p = ix_route ix \<and> glob_matches (sp_glob p) project)"
    by (auto simp: search_admits_def search_access_def list_ex_iff)
  also have "\<dots> \<longleftrightarrow> (\<exists>p \<in> set (index_patterns (for_index decode cred ix)). glob_matches (sp_glob p) project)"
    using same assms(2) pattern_route [of _ "for_index decode cred _"] by (metis for_index_index)
  finally have "search_admits (search_access decode cred indexes) (ix_route ix) project
      \<longleftrightarrow> authorize_project (for_index decode cred ix) project = Inr ()"
    using index_patterns_admit [of "for_index decode cred ix", OF refl] by simp
  moreover have "authorize_any_project ra = Inr ()" if "authorize_project ra project = Inr ()" for ra :: "'a index_read_access"
    using that by (auto simp: authorize_project_def authorize_any_project_def Let_def authorize_iff grant_allows_None
      authorize_grants_iff grant_allows_iff list_ex_iff resource_name_prefix matches_prefix_iff split: index_credential.splits)
  ultimately show ?thesis by blast
qed

definition private_index :: "unit index" where
  "private_index = (sample_index ''a'' (HostedKind False))\<lparr>ix_acl := acl_sample\<rparr>"

theorem search_access_exact_witness:
  "search_admits (search_access (\<lambda>_. None) (CredentialBearer [\<lparr>projects = [''a/t*''], actions = [Read]\<rparr>]) [private_index]) ''a'' ''team''
   \<and> authorize_project (for_index (\<lambda>_. None) (CredentialBearer [\<lparr>projects = [''a/t*''], actions = [Read]\<rparr>]) private_index) ''team'' = Inr ()
   \<and> authorize_any_project (for_index (\<lambda>_. None) (CredentialBearer [\<lparr>projects = [''a/t*''], actions = [Read]\<rparr>]) private_index) = Inr ()"
proof -
  have "glob_spec ''a/t*'' ''a/team''" by (intro glob_char glob_spec_everything) simp_all
  then have "authorize_project (for_index (\<lambda>_. None) (CredentialBearer [\<lparr>projects = [''a/t*''], actions = [Read]\<rparr>]) private_index) ''team'' = Inr ()"
    by (simp add: authorize_project_def for_index_def private_index_def acl_sample_def sample_index_def resource_name_def
      authorize_grants_iff grant_allows_iff)
  moreover have "ix_route private_index = ''a''" by (simp add: private_index_def sample_index_def)
  ultimately show ?thesis
    using search_access_exact [of "[private_index]" private_index "\<lambda>_. None" _ "''team''"] by simp
qed

end
