(* ===== verification/HttpSemantics.thy ===== *)
theory HttpSemantics
  imports Blobs Acl
begin

text \<open>
  Range and conditional requests over content-addressed files,
  \<open>crates/peryx-driver/src/range.rs\<close> and \<open>conditional.rs\<close>.  Sizes and positions are 64-bit values
  as naturals; a point in time is a count of nanoseconds from the epoch, and the date format is the
  pair of functions of the \<open>httpdate\<close> crate.
\<close>

section \<open>Ranges\<close>

datatype range_spec = RangeIgnore | Unsatisfiable | Satisfiable nat nat

definition parse_range :: "string \<Rightarrow> nat \<Rightarrow> range_spec" where
  "parse_range header sz =
     (if CHR '','' \<in> set header then RangeIgnore
      else case strip_prefix ''bytes='' header of
        None \<Rightarrow> RangeIgnore
      | Some spec \<Rightarrow>
          (case split_once CHR ''-'' spec of
             None \<Rightarrow> RangeIgnore
           | Some (first, final) \<Rightarrow>
               (case checked_sub_u64 sz 1 of
                  None \<Rightarrow> Unsatisfiable
                | Some last_byte \<Rightarrow>
                    (case (first = [], final = []) of
                       (True, False) \<Rightarrow>
                         (case parse_u64 final of
                            Some suffix \<Rightarrow>
                              if suffix = 0 then Unsatisfiable else Satisfiable (sz - suffix) last_byte
                          | None \<Rightarrow> RangeIgnore)
                     | (False, True) \<Rightarrow>
                         (case parse_u64 first of
                            Some start \<Rightarrow> if start > last_byte then Unsatisfiable else Satisfiable start last_byte
                          | None \<Rightarrow> RangeIgnore)
                     | (False, False) \<Rightarrow>
                         (case (parse_u64 first, parse_u64 final) of
                            (Some start, Some stop) \<Rightarrow>
                              if start > stop then RangeIgnore
                              else if start > last_byte then Unsatisfiable
                              else Satisfiable start (min stop last_byte)
                          | _ \<Rightarrow> RangeIgnore)
                     | (True, True) \<Rightarrow> RangeIgnore))))"

section \<open>Validators\<close>

definition if_none_match :: "string \<Rightarrow> string \<Rightarrow> bool" where
  "if_none_match field etag \<longleftrightarrow>
     list_ex (\<lambda>candidate. candidate = ''*'' \<or>
         (case strip_prefix ''W/'' candidate of Some tag \<Rightarrow> tag | None \<Rightarrow> candidate) = etag)
       (map trim (split_on CHR '','' field))"

text \<open>A header that is present holds its text, or \<open>None\<close> when it is not text.\<close>

definition applicable_range :: "string option option \<Rightarrow> string option option \<Rightarrow> string \<Rightarrow> string option" where
  "applicable_range range_header if_range etag =
     Option.bind range_header (\<lambda>value. Option.bind value (\<lambda>r.
       case if_range of
         None \<Rightarrow> Some r
       | Some field \<Rightarrow> if field = Some etag then Some r else None))"

definition nanos :: int where "nanos = 1000000000"

definition last_modified :: "int \<Rightarrow> int \<Rightarrow> int" where
  "last_modified stored now =
     (let since = min stored now in
      (if since < 0 then 0 else since div nanos) * nanos)"

definition if_modified_since :: "(string \<Rightarrow> int option) \<Rightarrow> string \<Rightarrow> int \<Rightarrow> bool" where
  "if_modified_since parse_date field modified = is_some_and (parse_date field) (\<lambda>since. modified \<le> since)"

section \<open>Numerals in a range\<close>

lemma parse_u64_chars: "parse_u64 s = Some n \<Longrightarrow> s \<noteq> [] \<and> CHR ''-'' \<notin> set s \<and> CHR '','' \<notin> set s"
proof -
  assume a: "parse_u64 s = Some n"
  then have "\<exists>ds. list_all is_digit ds \<and> (s = ds \<or> s = CHR ''+'' # ds) \<and> ds \<noteq> []"
    by (cases s) (auto simp: parse_u64_def Let_def split: if_splits intro: exI [of _ s])
  then obtain ds where ds: "list_all is_digit ds" "s = ds \<or> s = CHR ''+'' # ds" "ds \<noteq> []" by blast
  have "\<not> is_digit CHR ''-''" "\<not> is_digit CHR '',''" by (simp_all add: is_digit_def less_eq_char_def)
  with ds show ?thesis by (auto simp: list_all_iff)
qed

lemma parse_range_forms:
  assumes f: "parse_u64 f = Some n" and l: "parse_u64 l = Some m" and sz: "0 < sz"
  shows "parse_range (''bytes='' @ f @ ''-'' @ l) sz =
      (if m < n then RangeIgnore else if sz \<le> n then Unsatisfiable else Satisfiable n (min m (sz - 1)))"
    "parse_range (''bytes='' @ f @ ''-'') sz = (if sz \<le> n then Unsatisfiable else Satisfiable n (sz - 1))"
    "parse_range (''bytes='' @ ''-'' @ l) sz = (if m = 0 then Unsatisfiable else Satisfiable (sz - m) (sz - 1))"
proof -
  note chars = parse_u64_chars [OF f] parse_u64_chars [OF l]
  have split: "split_once CHR ''-'' (f @ CHR ''-'' # r) = Some (f, r)" for r
    using chars split_once_append by blast
  have "checked_sub_u64 sz 1 = Some (sz - 1)" using sz by (simp add: checked_sub_u64_def)
  moreover have "strip_prefix ''bytes='' (''bytes='' @ s) = Some s" for s by (simp only: strip_prefix_Some)
  ultimately show "parse_range (''bytes='' @ f @ ''-'' @ l) sz =
      (if m < n then RangeIgnore else if sz \<le> n then Unsatisfiable else Satisfiable n (min m (sz - 1)))"
    "parse_range (''bytes='' @ f @ ''-'') sz = (if sz \<le> n then Unsatisfiable else Satisfiable n (sz - 1))"
    "parse_range (''bytes='' @ ''-'' @ l) sz = (if m = 0 then Unsatisfiable else Satisfiable (sz - m) (sz - 1))"
    using chars f l sz split unfolding parse_range_def by auto
qed

lemma parse_range_within:
  "parse_range header sz = Satisfiable a b \<Longrightarrow> a \<le> b \<and> b < sz"
  by (auto simp: parse_range_def checked_sub_u64_def split: if_splits option.splits prod.splits bool.splits)

text \<open>What a blob server answers to a range: the bytes of a satisfiable one.\<close>

definition serve_range :: "blob_store \<Rightarrow> string \<Rightarrow> string \<Rightarrow> (blob_error + bytes) option" where
  "serve_range st d header = Option.bind (blob_head st d) (\<lambda>sz.
     case parse_range header sz of Satisfiable a b \<Rightarrow> Some (read_range st d a (Suc b)) | _ \<Rightarrow> None)"

section \<open>Properties\<close>

text \<open>C29: Serving a range of a stored blob returns exactly the bytes asked for: the closed range \<open>n-m\<close> the bytes
  from \<open>n\<close> to \<open>m\<close> or the end, the open range \<open>n-\<close> all from \<open>n\<close>, the suffix range \<open>-m\<close> the last \<open>m\<close>,
  or all when there are fewer; a range is called unsatisfiable exactly when it starts past the end
  or asks for the last zero bytes, and a satisfiable one never leaves the blob.\<close>

theorem range_serves_slice:
  assumes "blob_read st d = Inr bs" "bs \<noteq> []" "parse_u64 f = Some n" "parse_u64 l = Some m"
  shows "serve_range st d (''bytes='' @ f @ ''-'' @ l) = (if n \<le> m \<and> n < length bs then Some (Inr (take (Suc m - n) (drop n bs))) else None)
    \<and> serve_range st d (''bytes='' @ f @ ''-'') = (if n < length bs then Some (Inr (drop n bs)) else None)
    \<and> serve_range st d (''bytes='' @ ''-'' @ l) = (if m = 0 then None else Some (Inr (drop (length bs - m) bs)))"
proof -
  note forms = parse_range_forms [OF assms(3,4), of "length bs"]
  have cut: "take (Suc (min m (length bs - 1)) - n) (drop n bs) = take (Suc m - n) (drop n bs)" if "n \<le> m" "n < length bs"
    using that by (auto simp: min_def)
  have whole: "take (length bs - k) (drop k bs) = drop k bs" for k by simp
  have read: "read_range st d a (Suc b) = Inr (take (Suc b - a) (drop a bs))" if "a \<le> b" "b < length bs" for a b
    using assms(1) that by (simp add: read_range_def)
  have bs: "0 < length bs" "Suc (length bs - 1) = length bs" using assms(2) by (cases bs; simp)+
  have size: "blob_head st d = Some (length bs)" using assms(1)
    by (cases "t_get st (path_for d)") (auto simp: blob_read_def blob_head_def)
  have "serve_range st d (''bytes='' @ f @ ''-'' @ l) = (if n \<le> m \<and> n < length bs then Some (Inr (take (Suc m - n) (drop n bs))) else None)"
    using forms(1) [OF bs(1)] read [of n "min m (length bs - 1)"] cut bs size by (auto simp: serve_range_def)
  moreover have "serve_range st d (''bytes='' @ f @ ''-'') = (if n < length bs then Some (Inr (drop n bs)) else None)"
    using forms(2) [OF bs(1)] read [of n "length bs - 1"] whole [of n] bs size by (auto simp: serve_range_def)
  moreover have "serve_range st d (''bytes='' @ ''-'' @ l) = (if m = 0 then None else Some (Inr (drop (length bs - m) bs)))"
    using forms(3) [OF bs(1)] read [of "length bs - m" "length bs - 1"] whole [of "length bs - m"] bs size by (auto simp: serve_range_def)
  ultimately show ?thesis by blast
qed

theorem range_serves_slice_witness:
  "serve_range [(path_for ''d'', ''abcde'')] ''d'' (''bytes='' @ ''1'' @ ''-'' @ ''9'') = Some (Inr ''bcde'')
   \<and> serve_range [(path_for ''d'', ''abcde'')] ''d'' (''bytes='' @ ''-'' @ ''9'') = Some (Inr ''abcde'')"
proof -
  have "blob_read [(path_for ''d'', ''abcde'')] ''d'' = Inr ''abcde''" "parse_u64 ''1'' = Some 1" "parse_u64 ''9'' = Some 9"
    by (simp_all add: blob_read_def t_get_Cons parse_u64_def is_digit_def less_eq_char_def dec_value_def digit_val_def u64_max_def)
  from range_serves_slice [OF this(1) _ this(2,3)] show ?thesis by (auto simp: numeral_eq_Suc)
qed

text \<open>An empty file answers \<open>416\<close> even to a range that is not one.\<close>

theorem empty_file_refuses_malformed_range:
  "parse_range ''bytes=abc-'' 0 = Unsatisfiable \<and> parse_range ''bytes=abc-'' 10 = RangeIgnore"
  by code_simp

text \<open>Revalidation by date reaches a \<open>304\<close>: the date served with a stored file is a whole second, is neither
  after the request nor after the write, and a client that sends it back later is told its copy is
  current as long as the file is not written again.\<close>

theorem date_revalidates:
  assumes "\<forall>secs. 0 \<le> secs \<and> secs < 253402300800 \<longrightarrow> parse_date (fmt_date (secs * nanos)) = Some (secs * nanos)"
    and "0 \<le> stored" "0 \<le> now" "now \<le> later" "now < 253402300800 * nanos"
  shows "last_modified stored now \<le> now \<and> last_modified stored now \<le> stored \<and> last_modified stored now mod nanos = 0
    \<and> (stored \<le> now \<longrightarrow>
        if_modified_since parse_date (fmt_date (last_modified stored now)) (last_modified stored later))"
proof -
  have floor: "x div nanos * nanos \<le> x" for x :: int by (simp add: nanos_def)
  have served: "last_modified stored at = min stored at div nanos * nanos" if "0 \<le> at" for at
    using assms(2) that by (simp add: last_modified_def Let_def)
  have "last_modified stored now \<le> min stored now" using served [OF assms(3)] floor [of "min stored now"] by (simp only:)
  moreover have "last_modified stored now mod nanos = 0" using served [OF assms(3)] by (simp add: nanos_def)
  moreover have "last_modified stored later = last_modified stored now" if "stored \<le> now"
    using that assms(3,4) served [of now] served [of later] by (simp add: min_def)
  moreover have "0 \<le> min stored now div nanos \<and> min stored now div nanos < 253402300800"
    using assms(2,3,5) by (auto simp: nanos_def min_def)
  then have "parse_date (fmt_date (last_modified stored now)) = Some (last_modified stored now)"
    using assms(1) served [OF assms(3)] by simp
  ultimately show ?thesis by (auto simp: if_modified_since_def)
qed

theorem date_revalidates_witness:
  "if_modified_since (\<lambda>s. Some (int (length s) * nanos)) (replicate 7 CHR ''x'') (last_modified (7 * nanos + 3) (9 * nanos))"
proof -
  have codec: "\<forall>secs. 0 \<le> secs \<and> secs < 253402300800 \<longrightarrow>
      Some (int (length (replicate (nat (secs * nanos div nanos)) CHR ''x'')) * nanos) = Some (secs * nanos)"
    by (simp add: nanos_def)
  have "last_modified (7 * nanos + 3) (8 * nanos) = 7 * nanos" by (simp add: last_modified_def nanos_def)
  with date_revalidates [where fmt_date = "\<lambda>t. replicate (nat (t div nanos)) CHR ''x''"
      and parse_date = "\<lambda>s. Some (int (length s) * nanos)", OF codec, of "7 * nanos + 3" "8 * nanos" "9 * nanos"]
  show ?thesis by (simp add: nanos_def)
qed

end
