(* ===== verification/RateLimit.thy ===== *)
theory RateLimit
  imports Routing Acl
begin

text \<open>
  The abuse controls of one process, \<open>crates/peryx-driver/src/rate_limit.rs\<close>: fixed windows of
  requests per route class and actor, the client address behind trusted proxies, and the slots of
  upstream fetches.  Time is a count of nanoseconds.  The bucket cache may drop any entry between two
  requests; the text parser of addresses, the containment test of the \<open>ipnet\<close> crate and the seeded
  hasher are arguments.
\<close>

section \<open>Classes and limits\<close>

datatype route_class = Listing | Metadata | Artifact | UploadClass | AdminClass

definition route_class_all :: "route_class list" where
  "route_class_all = [Listing, Metadata, Artifact, UploadClass, AdminClass]"

definition route_class_count :: nat where "route_class_count = 5"

fun route_class_as_str :: "route_class \<Rightarrow> string" where
  "route_class_as_str Listing = ''listing''"
| "route_class_as_str Metadata = ''metadata''"
| "route_class_as_str Artifact = ''artifact''"
| "route_class_as_str UploadClass = ''upload''"
| "route_class_as_str AdminClass = ''admin''"

record route_limit =
  rl_requests :: nat
  rl_window_secs :: nat

record 'net rate_limit_config =
  rc_enabled :: bool
  rc_max_clients :: nat
  rc_trusted_proxies :: "'net list"
  rc_listing :: route_limit
  rc_metadata :: route_limit
  rc_artifact :: route_limit
  rc_upload :: route_limit
  rc_admin :: route_limit

definition route_limit_new :: "nat \<Rightarrow> nat \<Rightarrow> route_limit" where
  "route_limit_new requests window_secs = \<lparr>rl_requests = requests, rl_window_secs = window_secs\<rparr>"

definition rate_config_default :: "'net rate_limit_config" where
  "rate_config_default = \<lparr>rc_enabled = False, rc_max_clients = 8192, rc_trusted_proxies = [],
     rc_listing = route_limit_new 600 60, rc_metadata = route_limit_new 1200 60,
     rc_artifact = route_limit_new 300 60, rc_upload = route_limit_new 60 60, rc_admin = route_limit_new 120 60\<rparr>"

definition enabled_defaults :: "'net rate_limit_config" where
  "enabled_defaults = \<lparr>rc_enabled = True, rc_max_clients = 8192, rc_trusted_proxies = [],
     rc_listing = route_limit_new 600 60, rc_metadata = route_limit_new 1200 60,
     rc_artifact = route_limit_new 300 60, rc_upload = route_limit_new 60 60, rc_admin = route_limit_new 120 60\<rparr>"

definition config_limit :: "'net rate_limit_config \<Rightarrow> route_class \<Rightarrow> route_limit" where
  "config_limit cfg c = (case c of
      Listing \<Rightarrow> rc_listing cfg | Metadata \<Rightarrow> rc_metadata cfg | Artifact \<Rightarrow> rc_artifact cfg
    | UploadClass \<Rightarrow> rc_upload cfg | AdminClass \<Rightarrow> rc_admin cfg)"

section \<open>Addresses\<close>

text \<open>An address as its number; an IPv4 address mapped into IPv6 is made an IPv4 address again.\<close>

datatype ip_addr = V4 nat | V6 nat

fun to_canonical :: "ip_addr \<Rightarrow> ip_addr" where
  "to_canonical (V4 n) = V4 n"
| "to_canonical (V6 n) = (if n div 2 ^ 32 = 0xFFFF then V4 (n mod 2 ^ 32) else V6 n)"

definition localhost :: ip_addr where "localhost = V4 0x7F000001"

datatype actor_key = ActorIp ip_addr | ActorToken nat

fun actor_kind :: "actor_key \<Rightarrow> string" where
  "actor_kind (ActorIp _) = ''ip''"
| "actor_kind (ActorToken _) = ''token''"

section \<open>The limiter\<close>

type_synonym bucket_key = "route_class \<times> actor_key"

record rate_window =
  reset_at :: nat
  used :: nat

record route_counters =
  ct_listing :: nat
  ct_metadata :: nat
  ct_artifact :: nat
  ct_upload :: nat
  ct_admin :: nat

definition counters_default :: route_counters where
  "counters_default = \<lparr>ct_listing = 0, ct_metadata = 0, ct_artifact = 0, ct_upload = 0, ct_admin = 0\<rparr>"

definition counter :: "route_counters \<Rightarrow> route_class \<Rightarrow> nat" where
  "counter cs c = (case c of
      Listing \<Rightarrow> ct_listing cs | Metadata \<Rightarrow> ct_metadata cs | Artifact \<Rightarrow> ct_artifact cs
    | UploadClass \<Rightarrow> ct_upload cs | AdminClass \<Rightarrow> ct_admin cs)"

text \<open>An atomic addition wraps at 64 bits.\<close>

definition wrap_incr :: "nat \<Rightarrow> nat" where "wrap_incr n = (n + 1) mod 2 ^ 64"

definition increment :: "route_counters \<Rightarrow> route_class \<Rightarrow> route_counters" where
  "increment cs c = (case c of
      Listing \<Rightarrow> cs\<lparr>ct_listing := wrap_incr (ct_listing cs)\<rparr>
    | Metadata \<Rightarrow> cs\<lparr>ct_metadata := wrap_incr (ct_metadata cs)\<rparr>
    | Artifact \<Rightarrow> cs\<lparr>ct_artifact := wrap_incr (ct_artifact cs)\<rparr>
    | UploadClass \<Rightarrow> cs\<lparr>ct_upload := wrap_incr (ct_upload cs)\<rparr>
    | AdminClass \<Rightarrow> cs\<lparr>ct_admin := wrap_incr (ct_admin cs)\<rparr>)"

record 'net rate_limiter =
  lim_config :: "'net rate_limit_config"
  lim_capacity :: nat
  lim_buckets :: "bucket_key \<rightharpoonup> rate_window"
  lim_allowed :: route_counters
  lim_denied :: route_counters

record limited =
  ld_class :: route_class
  ld_actor :: actor_key
  ld_retry_after :: nat

definition saturating_mul_u64 :: "nat \<Rightarrow> nat \<Rightarrow> nat" where
  "saturating_mul_u64 a b = min (a * b) u64_max"

definition limiter_new :: "'net rate_limit_config \<Rightarrow> 'net rate_limiter" where
  "limiter_new cfg = \<lparr>lim_config = cfg,
     lim_capacity = max (saturating_mul_u64 (rc_max_clients cfg) route_class_count) 1,
     lim_buckets = Map.empty, lim_allowed = counters_default, lim_denied = counters_default\<rparr>"

definition limiter_counters :: "'net rate_limiter \<Rightarrow> (string \<times> nat \<times> nat) list" where
  "limiter_counters lim = map (\<lambda>c. (route_class_as_str c, counter (lim_allowed lim) c, counter (lim_denied lim) c)) route_class_all"

definition trusts_proxy :: "('net \<Rightarrow> ip_addr \<Rightarrow> bool) \<Rightarrow> 'net rate_limiter \<Rightarrow> ip_addr \<Rightarrow> bool" where
  "trusts_proxy contains lim address \<longleftrightarrow>
     list_ex (\<lambda>network. contains network (to_canonical address)) (rc_trusted_proxies (lim_config lim))"

definition secs :: "nat \<Rightarrow> nat" where "secs n = n * 1000000000"

definition fresh_window :: "nat \<Rightarrow> route_limit \<Rightarrow> rate_window" where
  "fresh_window now limit = \<lparr>reset_at = now + secs (rl_window_secs limit), used = 0\<rparr>"

definition rate_check :: "nat \<Rightarrow> route_class \<Rightarrow> actor_key \<Rightarrow> 'net rate_limiter \<Rightarrow> (limited + unit) \<times> 'net rate_limiter" where
  "rate_check now c actor lim =
     (let limit = config_limit (lim_config lim) c in
      if rl_requests limit = 0 \<or> rl_window_secs limit = 0 then
        (Inr (), lim\<lparr>lim_allowed := increment (lim_allowed lim) c\<rparr>)
      else
        let bucket = (case lim_buckets lim (c, actor) of None \<Rightarrow> fresh_window now limit | Some b \<Rightarrow> b);
            bucket = (if now \<ge> reset_at bucket then fresh_window now limit else bucket) in
        if used bucket < rl_requests limit then
          (Inr (), lim\<lparr>lim_buckets := (lim_buckets lim)((c, actor) \<mapsto> bucket\<lparr>used := used bucket + 1\<rparr>),
             lim_allowed := increment (lim_allowed lim) c\<rparr>)
        else
          (Inl \<lparr>ld_class = c, ld_actor = actor,
             ld_retry_after = max ((reset_at bucket - now) div 1000000000) 1\<rparr>,
           lim\<lparr>lim_buckets := (lim_buckets lim)((c, actor) \<mapsto> bucket), lim_denied := increment (lim_denied lim) c\<rparr>))"

section \<open>Who is asking\<close>

text \<open>The state of the walk over the forwarding chain: the last untrusted address, and whether
  something unreadable came after it.\<close>

definition forwarded_part ::
    "(ip_addr \<Rightarrow> bool) \<Rightarrow> (string \<Rightarrow> ip_addr option) \<Rightarrow> string \<Rightarrow> ip_addr option \<times> bool \<Rightarrow> ip_addr option \<times> bool" where
  "forwarded_part trusts parse_ip part st =
     (case map_option to_canonical (parse_ip (trim part)) of
        None \<Rightarrow> (None, True)
      | Some address \<Rightarrow> if \<not> trusts address then (Some address, False) else st)"

definition forwarded_value ::
    "(ip_addr \<Rightarrow> bool) \<Rightarrow> (string \<Rightarrow> ip_addr option) \<Rightarrow> string option \<Rightarrow> ip_addr option \<times> bool \<Rightarrow> ip_addr option \<times> bool" where
  "forwarded_value trusts parse_ip v st =
     (case v of None \<Rightarrow> (None, True) | Some text \<Rightarrow> fold (forwarded_part trusts parse_ip) (split_on CHR '','' text) st)"

definition forwarded_client_ip ::
    "(ip_addr \<Rightarrow> bool) \<Rightarrow> (string \<Rightarrow> ip_addr option) \<Rightarrow> string option list \<Rightarrow> string option list \<Rightarrow> ip_addr option" where
  "forwarded_client_ip trusts parse_ip forwarded real =
     (if forwarded = [] then
        (case real of [Some v] \<Rightarrow> map_option to_canonical (parse_ip (trim v)) | _ \<Rightarrow> None)
      else
        let (client, malformed) = fold (forwarded_value trusts parse_ip) forwarded (None, False) in
        if malformed then None else client)"

text \<open>A request, as far as the limiter looks at it: its peer, if known, and the values of its
  \<open>x-forwarded-for\<close> and \<open>x-real-ip\<close> headers, \<open>None\<close> for a value that is not text.\<close>

record client_request =
  cr_peer :: "ip_addr option"
  cr_forwarded :: "string option list"
  cr_real :: "string option list"

definition client_ip ::
    "('net \<Rightarrow> ip_addr \<Rightarrow> bool) \<Rightarrow> (string \<Rightarrow> ip_addr option) \<Rightarrow> 'net rate_limiter \<Rightarrow> client_request \<Rightarrow> ip_addr option" where
  "client_ip contains parse_ip lim req =
     map_option (\<lambda>peer. let peer = to_canonical peer in
       if \<not> trusts_proxy contains lim peer then peer
       else case forwarded_client_ip (trusts_proxy contains lim) parse_ip (cr_forwarded req) (cr_real req) of
         Some a \<Rightarrow> a | None \<Rightarrow> peer) (cr_peer req)"

definition actor_key_of ::
    "('net \<Rightarrow> ip_addr \<Rightarrow> bool) \<Rightarrow> (string \<Rightarrow> ip_addr option) \<Rightarrow> (string \<Rightarrow> nat) \<Rightarrow> 'net rate_limiter \<Rightarrow> principal
      \<Rightarrow> client_request \<Rightarrow> actor_key" where
  "actor_key_of contains parse_ip hash_one lim p req = (case p of
      Named subj \<Rightarrow> ActorToken (hash_one subj)
    | Anonymous \<Rightarrow> ActorIp (case client_ip contains parse_ip lim req of Some a \<Rightarrow> a | None \<Rightarrow> localhost))"

section \<open>Classifying a request\<close>

datatype http_method = GET | HEAD | OPTIONS | POST | PUT | PATCH | DELETE | OtherMethod string

definition service_route_class :: "http_method \<Rightarrow> string \<Rightarrow> route_class option" where
  "service_route_class method path =
     (if method \<in> {POST, PUT, PATCH, DELETE} then Some UploadClass
      else if method \<noteq> GET \<and> method \<noteq> HEAD \<and> method \<noteq> OPTIONS then Some UploadClass
      else
        let path = trim_start_slash path in
        if path \<in> set ['''', ''+api'', ''+api/'', ''+status'', ''+health'', ''+ready'', ''+acl'', ''+stats'', ''metrics'',
             ''api-docs/openapi.json''] \<or> path \<in> set [''stats'', ''admin/status'']
           \<or> ends_with path ''/+api'' \<or> contains_str path ''/+api/''
        then Some AdminClass else None)"

text \<open>
  The drivers as the middleware calls them: the class of a service post, the driver that owns a path
  with the position of its index, that driver's class for a path and its principal for a request.
\<close>

record 'd route_env =
  re_service_post :: "string \<Rightarrow> route_class option"
  re_route_driver :: "string \<Rightarrow> ('d \<times> nat option) option"
  re_classify_route :: "'d \<Rightarrow> string \<Rightarrow> route_class"
  re_principal :: "'d \<Rightarrow> nat option \<Rightarrow> principal"

datatype enforce_result = Passed | TooManyRequests nat

definition enforce ::
    "('net \<Rightarrow> ip_addr \<Rightarrow> bool) \<Rightarrow> (string \<Rightarrow> ip_addr option) \<Rightarrow> (string \<Rightarrow> nat) \<Rightarrow> 'd route_env \<Rightarrow> nat
      \<Rightarrow> http_method \<Rightarrow> string \<Rightarrow> bool \<Rightarrow> client_request \<Rightarrow> 'net rate_limiter \<Rightarrow> enforce_result \<times> 'net rate_limiter" where
  "enforce contains parse_ip hash_one env now method path has_authorization req lim =
     (if path = ''/+health'' \<or> path = ''/+ready'' then (Passed, lim)
      else
        let post_class = (if method = POST then re_service_post env (trim_start_slash path) else None);
            cls = (case post_class of Some c \<Rightarrow> Some c | None \<Rightarrow> service_route_class method path);
            resolved = (if post_class = None \<and> (cls = None \<or> has_authorization)
              then re_route_driver env path else None);
            c = (case cls of Some c \<Rightarrow> c
              | None \<Rightarrow> (case resolved of None \<Rightarrow> Listing | Some (d, _) \<Rightarrow> re_classify_route env d path));
            p = (case resolved of
                Some (d, position) \<Rightarrow> if has_authorization then re_principal env d position else Anonymous
              | None \<Rightarrow> Anonymous);
            actor = actor_key_of contains parse_ip hash_one lim p req in
        case rate_check now c actor lim of
          (Inr _, lim) \<Rightarrow> (Passed, lim)
        | (Inl l, lim) \<Rightarrow> (TooManyRequests (ld_retry_after l), lim))"

section \<open>Upstream slots\<close>

text \<open>A semaphore is the number of its free permits; \<open>None\<close> stands for no semaphore.\<close>

record upstream_limit =
  ul_max_concurrent :: nat
  ul_semaphore :: "nat option"
  ul_denied :: nat

type_synonym upstream_limits = "(string, upstream_limit) tbl"

definition upstream_limits_new :: "(string \<times> nat) list \<Rightarrow> upstream_limits" where
  "upstream_limits_new limits = fold (\<lambda>(name, max_concurrent) t. t_insert t name
     \<lparr>ul_max_concurrent = max_concurrent,
      ul_semaphore = (if max_concurrent > 0 then Some max_concurrent else None), ul_denied = 0\<rparr>) limits []"

datatype upstream_permit = NoPermit | Permit string

text \<open>\<open>freed\<close>: whether a permit is free, or becomes free, before the wait times out.\<close>

definition acquire :: "bool \<Rightarrow> string \<Rightarrow> upstream_limits \<Rightarrow> (nat + upstream_permit) \<times> upstream_limits" where
  "acquire freed name t = (case t_get t name of
      None \<Rightarrow> (Inr NoPermit, t)
    | Some limit \<Rightarrow>
        (case ul_semaphore limit of
           None \<Rightarrow> (Inr NoPermit, t)
         | Some available \<Rightarrow>
             if freed then (Inr (Permit name), t_insert t name (limit\<lparr>ul_semaphore := Some (available - 1)\<rparr>))
             else (Inl 1, t_insert t name (limit\<lparr>ul_denied := wrap_incr (ul_denied limit)\<rparr>))))"

definition in_flight :: "upstream_limit \<Rightarrow> nat" where
  "in_flight limit = (case ul_semaphore limit of None \<Rightarrow> 0 | Some available \<Rightarrow> ul_max_concurrent limit - available)"

record upstream_limit_snapshot =
  us_index :: string
  us_max_concurrent :: nat
  us_in_flight :: nat
  us_denied :: nat

definition upstream_snapshots :: "upstream_limits \<Rightarrow> upstream_limit_snapshot list" where
  "upstream_snapshots t = sort_key us_index (map (\<lambda>(name, limit). \<lparr>us_index = name,
     us_max_concurrent = ul_max_concurrent limit, us_in_flight = in_flight limit, us_denied = ul_denied limit\<rparr>) t)"

definition upstream_totals :: "upstream_limits \<Rightarrow> nat \<times> nat" where
  "upstream_totals t = fold (\<lambda>(_, limit) (flight, denied). (flight + in_flight limit, denied + ul_denied limit)) t (0, 0)"

section \<open>Runs of requests\<close>

text \<open>Between two requests the cache may have dropped any buckets.\<close>

datatype rate_event = Request (ev_time: nat) (ev_key: bucket_key) | Evict "bucket_key list"

fun rate_run :: "rate_event list \<Rightarrow> 'net rate_limiter \<Rightarrow> (bucket_key \<times> bool) list" where
  "rate_run [] lim = []"
| "rate_run (Request now (c, actor) # es) lim =
     (let (r, lim) = rate_check now c actor lim in ((c, actor), is_ok r) # rate_run es lim)"
| "rate_run (Evict ks # es) lim = rate_run es (lim\<lparr>lim_buckets := (lim_buckets lim) |` (- set ks)\<rparr>)"

definition admitted :: "bucket_key \<Rightarrow> (bucket_key \<times> bool) list \<Rightarrow> nat" where
  "admitted k log = length (filter (\<lambda>e. e = (k, True)) log)"

text \<open>The requests come in order of time, from \<open>t\<close> to \<open>T\<close>, and the bucket in question is not evicted.\<close>

fun paced :: "bucket_key \<Rightarrow> nat \<Rightarrow> nat \<Rightarrow> rate_event list \<Rightarrow> bool" where
  "paced k t T [] \<longleftrightarrow> True"
| "paced k t T (Request now _ # es) \<longleftrightarrow> t \<le> now \<and> now \<le> T \<and> paced k now T es"
| "paced k t T (Evict ks # es) \<longleftrightarrow> k \<notin> set ks \<and> paced k t T es"

text \<open>What the bucket can still admit until \<open>T\<close>: the rest of its window, and a full budget for each window that can
  still start.\<close>

definition budget :: "nat \<Rightarrow> nat \<Rightarrow> nat \<Rightarrow> nat \<Rightarrow> rate_window option \<Rightarrow> nat" where
  "budget q w t T b = (case b of
      None \<Rightarrow> q * ((T - t) div w + 1)
    | Some win \<Rightarrow> (q - used win) + (if T < reset_at win then 0 else q * ((T - max t (reset_at win)) div w + 1)))"

lemma budget_mono: "t \<le> t' \<Longrightarrow> budget q w t' T b \<le> budget q w t T b"
  by (auto simp: budget_def max_def intro!: mult_le_mono div_le_mono split: option.split)

lemma budget_fresh:
  assumes "now \<le> T" "0 < w" "0 < q"
  shows "Suc (budget q w now T (Some \<lparr>reset_at = now + w, used = 1\<rparr>)) \<le> q * ((T - now) div w + 1)"
proof (cases "T < now + w")
  case True
  then show ?thesis using assms by (simp add: budget_def)
next
  case False
  then have "(T - now) div w = Suc ((T - (now + w)) div w)"
    using assms le_div_geq [of w "T - now"] by simp
  with False assms show ?thesis by (simp add: budget_def algebra_simps)
qed

lemma rate_check_frame:
  assumes "rate_check now c actor lim = (r, lim')"
  shows "lim_config lim' = lim_config lim" "k \<noteq> (c, actor) \<Longrightarrow> lim_buckets lim' k = lim_buckets lim k"
  using assms by (auto simp: rate_check_def Let_def split: if_splits)

text \<open>One request draws on the budget of its bucket only.\<close>

lemma rate_check_budget:
  assumes r: "rate_check now c actor lim = (r, lim')" and limit: "config_limit (lim_config lim) c = \<lparr>rl_requests = q, rl_window_secs = ws\<rparr>"
    and q: "0 < q" "0 < ws" and t: "t \<le> now" "now \<le> T"
  shows "(if is_ok r then 1 else 0) + budget q (secs ws) now T (lim_buckets lim' (c, actor))
    \<le> budget q (secs ws) t T (lim_buckets lim (c, actor))"
proof -
  have w: "0 < secs ws" using q(2) by (simp add: secs_def)
  note fresh = budget_fresh [OF t(2) w q(1)]
  have mono: "q * ((T - now) div secs ws + 1) \<le> q * ((T - u) div secs ws + 1)" if "u \<le> now" for u
    using that by (intro mult_le_mono add_le_mono div_le_mono) auto
  show ?thesis
  proof (cases "lim_buckets lim (c, actor)")
    case None
    have "Suc (budget q (secs ws) now T (Some \<lparr>reset_at = now + secs ws, used = 1\<rparr>)) \<le> budget q (secs ws) t T None"
      using order_trans [OF fresh mono [OF t(1)]] by (simp add: budget_def [of _ _ t])
    with None r limit q w show ?thesis by (auto simp: rate_check_def fresh_window_def Let_def)
  next
    case (Some b)
    show ?thesis
    proof (cases "reset_at b \<le> now")
      case True
      then have "q * ((T - now) div secs ws + 1) \<le> budget q (secs ws) t T (Some b)"
        using trans_le_add2 [OF mono [of "max t (reset_at b)"], of "q - used b"] t by (simp add: budget_def del: mult_Suc_right)
      with True Some r limit q w fresh show ?thesis
        by (auto simp: rate_check_def fresh_window_def Let_def)
    next
      case False
      then have "budget q (secs ws) now T (Some (b\<lparr>used := Suc (used b)\<rparr>)) + (if used b < q then 1 else 0)
          \<le> budget q (secs ws) t T (Some b)"
        using t by (auto simp: budget_def max_def)
      with False Some r limit q budget_mono [OF t(1), of q "secs ws" T "Some b"] show ?thesis
        by (auto simp: rate_check_def Let_def split: if_splits)
    qed
  qed
qed

lemma rate_run_budget:
  assumes "paced (c, actor) t T es" "config_limit (lim_config lim) c = \<lparr>rl_requests = q, rl_window_secs = ws\<rparr>" "0 < q" "0 < ws"
  shows "admitted (c, actor) (rate_run es lim) \<le> budget q (secs ws) t T (lim_buckets lim (c, actor))"
  using assms(1,2)
proof (induction es lim arbitrary: t rule: rate_run.induct)
  case (1 lim)
  then show ?case by (simp add: admitted_def)
next
  case (2 now c' actor' es lim)
  obtain r lim' where r: "rate_check now c' actor' lim = (r, lim')" by fastforce
  from "2.prems" have t: "t \<le> now" "now \<le> T" "paced (c, actor) now T es" by auto
  have cfg: "lim_config lim' = lim_config lim" using rate_check_frame [OF r] by simp
  from "2.IH" [OF r [symmetric] refl t(3)] "2.prems"(2) cfg
  have IH: "admitted (c, actor) (rate_run es lim') \<le> budget q (secs ws) now T (lim_buckets lim' (c, actor))" by simp
  have log: "rate_run (Request now (c', actor') # es) lim = ((c', actor'), is_ok r) # rate_run es lim'" by (simp add: r)
  show ?case
  proof (cases "(c', actor') = (c, actor)")
    case True
    with rate_check_budget [OF r _ assms(3,4) t(1,2)] "2.prems"(2) IH show ?thesis
      unfolding log by (auto simp: admitted_def split: if_splits)
  next
    case False
    then have "lim_buckets lim' (c, actor) = lim_buckets lim (c, actor)" using rate_check_frame(2) [OF r] by metis
    with IH budget_mono [OF t(1), of q "secs ws" T] False show ?thesis
      unfolding log by (auto simp: admitted_def intro: order_trans)
  qed
next
  case (3 ks es lim)
  from "3.IH" [of t] "3.prems" show ?case by (simp add: restrict_map_def)
qed


definition sample_limiter :: "unit rate_limiter" where
  "sample_limiter = limiter_new (enabled_defaults\<lparr>rc_trusted_proxies := [()]\<rparr>)"


section \<open>Refusals\<close>

text \<open>A refused client is admitted at the latest one second after the delay it was told.\<close>

lemma refused_then_admitted:
  assumes "rate_check now c actor lim = (Inl l, lim')" "now + secs (ld_retry_after l + 1) \<le> later"
  shows "1 \<le> ld_retry_after l \<and> fst (rate_check later c actor lim') = Inr ()"
proof -
  let ?limit = "config_limit (lim_config lim) c"
  from assms(1) obtain b where b: "lim_buckets lim' (c, actor) = Some b" "ld_retry_after l = max ((reset_at b - now) div 1000000000) 1"
    "0 < rl_requests ?limit" "0 < rl_window_secs ?limit" "lim_config lim' = lim_config lim"
    by (auto simp: rate_check_def Let_def split: if_splits)
  have "x < (x div 1000000000 + 1) * 1000000000" for x :: nat
    using div_mult_mod_eq [of x 1000000000] mod_less_divisor [of 1000000000 x] by simp
  from this [of "reset_at b - now"] have "reset_at b - now < secs (ld_retry_after l + 1)"
    unfolding b(2) secs_def by (rule order_less_le_trans) simp
  with assms(2) have "reset_at b \<le> later" by simp
  with b show ?thesis by (simp add: rate_check_def fresh_window_def Let_def)
qed

section \<open>Forwarded addresses\<close>

definition names_client :: "(ip_addr \<Rightarrow> bool) \<Rightarrow> (string \<Rightarrow> ip_addr option) \<Rightarrow> string option list \<Rightarrow> bool" where
  "names_client trusts parse_ip vs \<longleftrightarrow> list_ex (\<lambda>v. case v of None \<Rightarrow> False
     | Some text \<Rightarrow> list_ex (\<lambda>part. case parse_ip (trim part) of None \<Rightarrow> False | Some a \<Rightarrow> \<not> trusts (to_canonical a))
         (split_on CHR '','' text)) vs"

lemma fold_forgets:
  assumes "x \<in> set xs" "\<And>st st'. f x st = f x st'"
  shows "fold f xs st = fold f xs st'"
proof -
  from assms(1) obtain ys zs where "xs = ys @ x # zs" by (meson split_list)
  then show ?thesis using assms(2) [of "fold f ys st" "fold f ys st'"] by simp
qed

lemma names_client_forgets:
  assumes "names_client trusts parse_ip vs"
  shows "fold (forwarded_value trusts parse_ip) vs st = fold (forwarded_value trusts parse_ip) vs st'"
proof -
  from assms obtain chain part a where v: "Some chain \<in> set vs" "part \<in> set (split_on CHR '','' chain)"
    "parse_ip (trim part) = Some a" "\<not> trusts (to_canonical a)"
    by (auto simp: names_client_def list_ex_iff split: option.splits)
  have "forwarded_part trusts parse_ip part s = forwarded_part trusts parse_ip part s'" for s s'
    using v(3,4) by (simp add: forwarded_part_def)
  from fold_forgets [where f = "forwarded_part trusts parse_ip", OF v(2) this] have "forwarded_value trusts parse_ip (Some chain) s = forwarded_value trusts parse_ip (Some chain) s'" for s s'
    by (simp add: forwarded_value_def)
  from fold_forgets [where f = "forwarded_value trusts parse_ip", OF v(1) this] show ?thesis .
qed

lemma forwarded_untrusted:
  "fold (forwarded_value trusts parse_ip) vs st = (Some a, m) \<Longrightarrow> fst st = None \<or> \<not> trusts (the (fst st)) \<Longrightarrow> \<not> trusts a"
proof (induction vs arbitrary: st)
  case (Cons v vs)
  have part: "fst (fold (forwarded_part trusts parse_ip) ps st) = None \<or> \<not> trusts (the (fst (fold (forwarded_part trusts parse_ip) ps st)))"
    if "fst st = None \<or> \<not> trusts (the (fst st))" for ps st
    using that by (induction ps arbitrary: st) (auto simp: forwarded_part_def split: option.split)
  from Cons.IH [of "forwarded_value trusts parse_ip v st"] Cons.prems part show ?case
    by (auto simp: forwarded_value_def split: option.splits)
qed auto

text \<open>A client cannot choose the address it is counted under.  When the peer is not a trusted proxy its
  forwarding headers are ignored; behind a trusted proxy, whatever values a client put in front of
  the values the proxies appended make no difference once those name an untrusted address, and the
  address taken from the chain is never that of a trusted proxy.\<close>

theorem client_ip_unspoofable:
  assumes "cr_peer req = Some peer" "cr_forwarded req = spoofed @ appended"
  shows "(\<not> (trusts_proxy contains lim) peer \<longrightarrow> client_ip contains parse_ip lim req = Some (to_canonical peer))
    \<and> (names_client (trusts_proxy contains lim) parse_ip appended \<longrightarrow>
        client_ip contains parse_ip lim req = client_ip contains parse_ip lim (req\<lparr>cr_forwarded := appended\<rparr>))
    \<and> (\<forall>a. forwarded_client_ip (trusts_proxy contains lim) parse_ip (cr_forwarded req) [] = Some a \<longrightarrow> \<not> (trusts_proxy contains lim) a)"
proof -
  let ?trusts = "trusts_proxy contains lim"
  have canon: "to_canonical (to_canonical x) = to_canonical x" for x by (cases x) auto
  have peer: "?trusts (to_canonical peer) = ?trusts peer" by (simp add: trusts_proxy_def canon)
  have "client_ip contains parse_ip lim req = client_ip contains parse_ip lim (req\<lparr>cr_forwarded := appended\<rparr>)"
    if named: "names_client ?trusts parse_ip appended"
  proof -
    have "appended \<noteq> []" using named by (auto simp: names_client_def)
    then have "forwarded_client_ip ?trusts parse_ip (spoofed @ appended) real = forwarded_client_ip ?trusts parse_ip appended real" for real
      using names_client_forgets [OF named, of "fold (forwarded_value ?trusts parse_ip) spoofed (None, False)" "(None, False)"]
      by (simp add: forwarded_client_ip_def)
    then show ?thesis by (simp add: client_ip_def assms(1,2) Let_def)
  qed
  moreover have "\<not> ?trusts a" if "forwarded_client_ip ?trusts parse_ip (cr_forwarded req) [] = Some a" for a
    using that forwarded_untrusted [of ?trusts parse_ip "cr_forwarded req" "(None, False)" a]
    by (auto simp: forwarded_client_ip_def Let_def split: if_splits prod.splits)
  ultimately show ?thesis using peer by (auto simp: client_ip_def assms(1) Let_def)
qed

theorem client_ip_unspoofable_witness:
  "client_ip (\<lambda>_ a. a = V4 1) (\<lambda>s. if s = ''v'' then Some (V4 9) else if s = ''p'' then Some (V4 1) else None) sample_limiter
     \<lparr>cr_peer = Some (V4 1), cr_forwarded = [Some ''w'', Some ''v, p''], cr_real = []\<rparr> = Some (V4 9)"
proof -
  let ?req = "\<lparr>cr_peer = Some (V4 1), cr_forwarded = [Some ''w''] @ [Some ''v, p''], cr_real = []\<rparr>"
  let ?contains = "\<lambda>_ a. a = V4 1" and ?parse = "\<lambda>s. if s = ''v'' then Some (V4 9) else if s = ''p'' then Some (V4 1) else None"
  note defs = trusts_proxy_def sample_limiter_def limiter_new_def trim_def ascii_space_def
  have "names_client (trusts_proxy ?contains sample_limiter) ?parse [Some ''v, p'']" by (simp add: names_client_def defs)
  moreover have "cr_peer ?req = Some (V4 1)" "cr_forwarded ?req = [Some ''w''] @ [Some ''v, p'']" by simp_all
  note client_ip_unspoofable [OF this, where contains = ?contains and lim = sample_limiter and parse_ip = ?parse]
  ultimately
  have "client_ip ?contains ?parse sample_limiter ?req = client_ip ?contains ?parse sample_limiter (?req\<lparr>cr_forwarded := [Some ''v, p'']\<rparr>)"
    by blast
  also have "\<dots> = Some (V4 9)"
    by (simp add: client_ip_def forwarded_client_ip_def forwarded_value_def forwarded_part_def Let_def defs)
  finally show ?thesis by simp
qed

section \<open>Slots are never oversold\<close>

text \<open>Dropping a permit gives it back to its semaphore.\<close>

definition release_permit :: "string \<Rightarrow> upstream_limits \<Rightarrow> upstream_limits" where
  "release_permit name t = (case t_get t name of None \<Rightarrow> t
    | Some limit \<Rightarrow> t_insert t name (limit\<lparr>ul_semaphore := map_option Suc (ul_semaphore limit)\<rparr>))"

text \<open>\<open>upstream_run t held\<close>: the limits \<open>t\<close> arise from configured ones while the permits \<open>held\<close> are out; a
  semaphore grants only a permit it has.\<close>

inductive upstream_run :: "upstream_limits \<Rightarrow> string list \<Rightarrow> bool" where
  slots_new: "upstream_run (upstream_limits_new limits) []"
| slots_granted: "upstream_run t held \<Longrightarrow> t_get t name = Some limit \<Longrightarrow> ul_semaphore limit = Some (Suc free) \<Longrightarrow>
    upstream_run (snd (acquire True name t)) (name # held)"
| slots_timeout: "upstream_run t held \<Longrightarrow> upstream_run (snd (acquire False name t)) held"
| slots_released: "upstream_run t held \<Longrightarrow> name \<in> set held \<Longrightarrow> upstream_run (release_permit name t) (remove1 name held)"

definition slot_ok :: "nat \<Rightarrow> upstream_limit \<Rightarrow> bool" where
  "slot_ok out limit \<longleftrightarrow> (case ul_semaphore limit of
     None \<Rightarrow> ul_max_concurrent limit = 0 \<and> out = 0
   | Some free \<Rightarrow> free + out = ul_max_concurrent limit)"

definition slots_ok :: "upstream_limits \<Rightarrow> string list \<Rightarrow> bool" where
  "slots_ok t held \<longleftrightarrow> (\<forall>name limit. t_get t name = Some limit \<longrightarrow> slot_ok (count_list held name) limit)"

lemma slots_okD: "slots_ok t held \<Longrightarrow> t_get t name = Some limit \<Longrightarrow> slot_ok (count_list held name) limit"
  by (simp add: slots_ok_def)

lemma slots_ok_insert:
  assumes "slots_ok t held" "slot_ok (count_list held' name) limit"
    and "\<And>n. n \<noteq> name \<Longrightarrow> count_list held' n = count_list held n"
  shows "slots_ok (t_insert t name limit) held'"
  unfolding slots_ok_def
proof (intro allI impI)
  fix n l assume "t_get (t_insert t name limit) n = Some l"
  then show "slot_ok (count_list held' n) l"
    using assms(2,3) slots_okD [OF assms(1), of n l] by (cases "n = name") auto
qed

lemma upstream_new_ok: "slots_ok (upstream_limits_new limits) []"
proof -
  have "slots_ok (fold (\<lambda>(name, max_concurrent) t. t_insert t name
     \<lparr>ul_max_concurrent = max_concurrent,
      ul_semaphore = (if max_concurrent > 0 then Some max_concurrent else None), ul_denied = 0\<rparr>) limits t) []"
    if "slots_ok t []" for t
    using that
  proof (induction limits arbitrary: t)
    case (Cons l limits)
    obtain name m where l: "l = (name, m)" by (cases l)
    from Cons.prems have "slots_ok (t_insert t name \<lparr>ul_max_concurrent = m,
        ul_semaphore = (if m > 0 then Some m else None), ul_denied = 0\<rparr>) []"
      by (rule slots_ok_insert) (simp_all add: slot_ok_def)
    from Cons.IH [OF this] show ?case by (simp add: l)
  qed simp
  from this [of "[]"] show ?thesis by (simp add: upstream_limits_new_def slots_ok_def)
qed

lemma count_list_remove1: "n \<noteq> name \<Longrightarrow> count_list (remove1 name xs) n = count_list xs n"
  "name \<in> set xs \<Longrightarrow> Suc (count_list (remove1 name xs) name) = count_list xs name"
  by (induction xs) auto

lemma slots_released_ok:
  assumes "slots_ok t held" "name \<in> set held"
  shows "slots_ok (release_permit name t) (remove1 name held)"
proof (cases "t_get t name")
  case (Some limit)
  have "count_list held name \<noteq> 0" using assms(2) by (simp add: count_list_0_iff)
  with slots_okD [OF assms(1) Some] count_list_remove1(2) [OF assms(2)]
  have "slot_ok (count_list (remove1 name held) name) (limit\<lparr>ul_semaphore := map_option Suc (ul_semaphore limit)\<rparr>)"
    by (auto simp: slot_ok_def split: option.splits)
  from slots_ok_insert [OF assms(1) this] Some show ?thesis by (simp add: release_permit_def count_list_remove1(1))
next
  case None
  have "slot_ok (count_list (remove1 name held) n) l" if "t_get t n = Some l" for n l
    using slots_okD [OF assms(1) that] that None count_list_remove1(1) [of n name held] by (cases "n = name") auto
  with None show ?thesis by (simp add: release_permit_def slots_ok_def)
qed

lemma upstream_run_ok: "upstream_run t held \<Longrightarrow> slots_ok t held"
proof (induction rule: upstream_run.induct)
  case (slots_granted t held name limit free)
  have "slot_ok (count_list (name # held) name) (limit\<lparr>ul_semaphore := Some free\<rparr>)"
    using slots_okD [OF slots_granted.IH slots_granted.hyps(2)] slots_granted.hyps(3) by (simp add: slot_ok_def)
  from slots_ok_insert [OF slots_granted.IH this] slots_granted.hyps show ?case by (simp add: acquire_def)
next
  case (slots_timeout t held name)
  show ?case
  proof (cases "t_get t name")
    case (Some limit)
    have "slot_ok (count_list held name) (limit\<lparr>ul_denied := wrap_incr (ul_denied limit)\<rparr>)"
      using slots_okD [OF slots_timeout.IH Some] by (simp add: slot_ok_def split: option.splits)
    from slots_ok_insert [OF slots_timeout.IH this] Some slots_timeout.IH show ?thesis
      by (simp add: acquire_def split: option.split)
  qed (use slots_timeout.IH in \<open>simp add: acquire_def\<close>)
qed (simp_all add: upstream_new_ok slots_released_ok)

text \<open>The number of fetches in flight to an upstream, as the status page reports it, is the number of permits
  out for it and never exceeds its cap, through any grants, time-outs and returns.\<close>

theorem upstream_slots_bounded:
  assumes "upstream_run t held" "t_get t name = Some limit" "0 < ul_max_concurrent limit"
  shows "in_flight limit = count_list held name \<and> in_flight limit \<le> ul_max_concurrent limit"
proof -
  from slots_okD [OF upstream_run_ok [OF assms(1)] assms(2)] assms(3) show ?thesis
    by (auto simp: slot_ok_def in_flight_def split: option.splits)
qed

theorem upstream_slots_bounded_witness:
  "in_flight \<lparr>ul_max_concurrent = 2, ul_semaphore = Some 1, ul_denied = 0\<rparr> = count_list [''up''] ''up''"
proof -
  have new: "upstream_limits_new [(''up'', 2)] = [(''up'', \<lparr>ul_max_concurrent = 2, ul_semaphore = Some 2, ul_denied = 0\<rparr>)]"
    by (simp add: upstream_limits_new_def)
  have get: "t_get (upstream_limits_new [(''up'', 2)]) ''up'' = Some \<lparr>ul_max_concurrent = 2, ul_semaphore = Some (Suc 1), ul_denied = 0\<rparr>"
    by (simp add: new t_get_Cons)
  have "t_get (snd (acquire True ''up'' (upstream_limits_new [(''up'', 2)]))) ''up''
      = Some \<lparr>ul_max_concurrent = 2, ul_semaphore = Some 1, ul_denied = 0\<rparr>" using get by (simp add: acquire_def)
  from upstream_slots_bounded [OF slots_granted [OF slots_new get] this] show ?thesis by simp
qed

end
