(* ===== verification/Downloads.thy ===== *)
theory Downloads
  imports Prelude
begin

text \<open>
  The registry of in-flight blob downloads, \<open>crates/peryx-driver/src/download.rs\<close>: one producer per
  digest, any number of clients tailing it.  A watch channel is a number with the progress last
  published on it.  A producer ends in two steps, its removal from the registry and its last message;
  other requests may run between the two.
\<close>

section \<open>Registry and producers\<close>

record download_progress =
  dp_flushed :: nat
  dp_done :: "(string + unit) option"

definition progress_default :: download_progress where
  "progress_default = \<lparr>dp_flushed = 0, dp_done = None\<rparr>"

text \<open>A handle is the channel it watches; two handles are of the same transfer when it is the same one.\<close>

type_synonym download_handle = nat

record download_registry =
  dr_entries :: "(string, download_handle) tbl"
  dr_channels :: "download_progress list"

definition registry_new :: download_registry where
  "registry_new = \<lparr>dr_entries = [], dr_channels = []\<rparr>"

record download_producer =
  pd_digest :: string
  pd_handle :: download_handle

definition registry_get :: "download_registry \<Rightarrow> string \<Rightarrow> download_handle option" where
  "registry_get r d = t_get (dr_entries r) d"

definition register ::
    "download_registry \<Rightarrow> string \<Rightarrow> (download_handle + download_handle \<times> download_producer) \<times> download_registry" where
  "register r d = (case t_get (dr_entries r) d of
      Some h \<Rightarrow> (Inl h, r)
    | None \<Rightarrow>
        let h = length (dr_channels r) in
        (Inr (h, \<lparr>pd_digest = d, pd_handle = h\<rparr>),
         \<lparr>dr_entries = t_insert (dr_entries r) d h, dr_channels = dr_channels r @ [progress_default]\<rparr>))"

definition same_transfer :: "download_handle \<Rightarrow> download_handle \<Rightarrow> bool" where
  "same_transfer a b \<longleftrightarrow> a = b"

definition send_modify :: "(download_progress \<Rightarrow> download_progress) \<Rightarrow> download_producer \<Rightarrow> download_registry \<Rightarrow> download_registry" where
  "send_modify f p r = r\<lparr>dr_channels := (dr_channels r)[pd_handle p := f (dr_channels r ! pd_handle p)]\<rparr>"

definition flushed :: "download_producer \<Rightarrow> download_registry \<Rightarrow> nat" where
  "flushed p r = dp_flushed (dr_channels r ! pd_handle p)"

definition publish_flushed :: "nat \<Rightarrow> download_producer \<Rightarrow> download_registry \<Rightarrow> download_registry" where
  "publish_flushed n = send_modify (\<lambda>progress. progress\<lparr>dp_flushed := n\<rparr>)"

definition producer_remove :: "download_producer \<Rightarrow> download_registry \<Rightarrow> download_registry" where
  "producer_remove p r = (case t_get (dr_entries r) (pd_digest p) of
      Some h \<Rightarrow> if same_transfer h (pd_handle p) then r\<lparr>dr_entries := t_remove (dr_entries r) (pd_digest p)\<rparr> else r
    | None \<Rightarrow> r)"

definition notify :: "string + unit \<Rightarrow> download_producer \<Rightarrow> download_registry \<Rightarrow> download_registry" where
  "notify outcome = send_modify (\<lambda>progress. progress\<lparr>dp_done := Some outcome\<rparr>)"

definition producer_finish :: "string + unit \<Rightarrow> download_producer \<Rightarrow> download_registry \<Rightarrow> download_registry" where
  "producer_finish outcome p r = notify outcome p (producer_remove p r)"

text \<open>Dropping a producer that did not finish.\<close>

definition abandoned :: "string + unit" where "abandoned = Inl ''blob transfer abandoned''"

definition producer_drop :: "download_producer \<Rightarrow> download_registry \<Rightarrow> download_registry" where
  "producer_drop p r = notify abandoned p (producer_remove p r)"

section \<open>Interleavings\<close>

text \<open>
  \<open>download_run r running ending\<close>: the registry after some steps of requests and producers, with the
  producers still transferring and those that left the registry but have yet to send their outcome.
\<close>

inductive download_run ::
    "download_registry \<Rightarrow> download_producer list \<Rightarrow> (download_producer \<times> (string + unit)) list \<Rightarrow> bool" where
  downloads_new: "download_run registry_new [] []"
| downloads_registered: "download_run r running ending \<Longrightarrow> register r d = (Inr (h, p), r') \<Longrightarrow>
    download_run r' (p # running) ending"
| downloads_attached: "download_run r running ending \<Longrightarrow> register r d = (Inl h, r') \<Longrightarrow> download_run r' running ending"
| downloads_published: "download_run r running ending \<Longrightarrow> p \<in> set running \<Longrightarrow>
    download_run (publish_flushed n p r) running ending"
| downloads_removed: "download_run r running ending \<Longrightarrow> p \<in> set running \<Longrightarrow>
    download_run (producer_remove p r) (remove1 p running) ((p, outcome) # ending)"
| downloads_notified: "download_run r running ending \<Longrightarrow> (p, outcome) \<in> set ending \<Longrightarrow>
    download_run (notify outcome p r) running (remove1 (p, outcome) ending)"

definition handles :: "download_producer list \<Rightarrow> (download_producer \<times> (string + unit)) list \<Rightarrow> nat list" where
  "handles running ending = map pd_handle running @ map (pd_handle \<circ> fst) ending"

definition downloads_ok ::
    "download_registry \<Rightarrow> download_producer list \<Rightarrow> (download_producer \<times> (string + unit)) list \<Rightarrow> bool" where
  "downloads_ok r running ending \<longleftrightarrow>
     distinct (handles running ending)
     \<and> (\<forall>d h. t_get (dr_entries r) d = Some h \<longleftrightarrow> \<lparr>pd_digest = d, pd_handle = h\<rparr> \<in> set running)
     \<and> (\<forall>h. h < length (dr_channels r) \<and> dp_done (dr_channels r ! h) = None \<longleftrightarrow> h \<in> set (handles running ending))"

lemma producer_eta [simp]: "\<lparr>pd_digest = pd_digest p, pd_handle = pd_handle p\<rparr> = (p :: download_producer)"
  by (rule download_producer.equality) simp_all

lemma handle_live: "downloads_ok r running ending \<Longrightarrow> h \<in> set (handles running ending) \<Longrightarrow>
    h < length (dr_channels r) \<and> dp_done (dr_channels r ! h) = None"
  by (simp add: downloads_ok_def)

lemma register_ok:
  assumes ok: "downloads_ok r running ending" and reg: "register r d = (Inr (h, p), r')"
  shows "downloads_ok r' (p # running) ending"
proof -
  from reg have p: "p = \<lparr>pd_digest = d, pd_handle = length (dr_channels r)\<rparr>" "t_get (dr_entries r) d = None"
    and r': "r' = \<lparr>dr_entries = t_insert (dr_entries r) d (length (dr_channels r)), dr_channels = dr_channels r @ [progress_default]\<rparr>"
    by (auto simp: register_def Let_def split: option.splits)
  let ?n = "length (dr_channels r)"
  have new: "?n \<notin> set (handles running ending)" using handle_live [OF ok] by blast
  have "t_get (dr_entries r') e = Some h \<longleftrightarrow> \<lparr>pd_digest = e, pd_handle = h\<rparr> \<in> set (p # running)" for e h
  proof (cases "e = d")
    case True
    have "\<lparr>pd_digest = d, pd_handle = h\<rparr> \<notin> set running" using ok p(2) by (metis downloads_ok_def option.distinct(1))
    with True show ?thesis by (auto simp: r' p(1))
  next
    case False
    with ok show ?thesis by (simp add: downloads_ok_def r' p(1))
  qed
  moreover have "h < length (dr_channels r') \<and> dp_done (dr_channels r' ! h) = None \<longleftrightarrow> h \<in> set (handles (p # running) ending)" for h
  proof (cases "h = ?n")
    case False
    then have "h < length (dr_channels r') \<and> dp_done (dr_channels r' ! h) = None
        \<longleftrightarrow> h < ?n \<and> dp_done (dr_channels r ! h) = None" by (auto simp: r' nth_append less_Suc_eq)
    with ok False show ?thesis by (simp add: downloads_ok_def handles_def p(1))
  qed (simp add: r' handles_def p(1) progress_default_def)
  moreover have "distinct (handles (p # running) ending)" using ok new by (simp add: downloads_ok_def handles_def p(1))
  ultimately show ?thesis unfolding downloads_ok_def by blast
qed

lemma publish_ok: "downloads_ok r running ending \<Longrightarrow> downloads_ok (publish_flushed n p r) running ending"
proof -
  have "dp_done (xs[i := (xs ! i)\<lparr>dp_flushed := n\<rparr>] ! h) = dp_done (xs ! h)" for xs :: "download_progress list" and i h
    by (cases "i < length xs"; cases "h = i") (simp_all add: list_update_beyond)
  then show "downloads_ok r running ending \<Longrightarrow> ?thesis"
    by (simp add: downloads_ok_def publish_flushed_def send_modify_def)
qed

lemma remove_ok:
  assumes ok: "downloads_ok r running ending" and p: "p \<in> set running"
  shows "downloads_ok (producer_remove p r) (remove1 p running) ((p, outcome) # ending)"
proof -
  obtain ps qs where running: "running = ps @ p # qs" "p \<notin> set ps" using p by (meson split_list_first)
  have dist: "distinct (handles running ending)" using ok by (simp add: downloads_ok_def)
  then have other: "pd_handle q \<noteq> pd_handle p" if "q \<in> set ps \<union> set qs" for q
    using that by (auto simp: handles_def running) (metis imageI)+
  have entry: "t_get (dr_entries r) (pd_digest p) = Some (pd_handle p)" using ok p by (simp add: downloads_ok_def)
  then have r': "producer_remove p r = r\<lparr>dr_entries := t_remove (dr_entries r) (pd_digest p)\<rparr>"
    by (simp add: producer_remove_def same_transfer_def)
  have same: "set (handles (remove1 p running) ((p, outcome) # ending)) = set (handles running ending)"
    "distinct (handles (remove1 p running) ((p, outcome) # ending))"
    using dist running by (auto simp: handles_def remove1_append)
  have "t_get (dr_entries (producer_remove p r)) d = Some h \<longleftrightarrow> \<lparr>pd_digest = d, pd_handle = h\<rparr> \<in> set (remove1 p running)" for d h
  proof (cases "d = pd_digest p")
    case True
    have "\<lparr>pd_digest = d, pd_handle = h\<rparr> \<notin> set (remove1 p running)"
    proof
      assume m: "\<lparr>pd_digest = d, pd_handle = h\<rparr> \<in> set (remove1 p running)"
      then have "\<lparr>pd_digest = d, pd_handle = h\<rparr> \<in> set running" by (meson notin_set_remove1)
      then have "t_get (dr_entries r) d = Some h" using ok by (simp add: downloads_ok_def)
      with entry True have "h = pd_handle p" by simp
      with m other [of "\<lparr>pd_digest = d, pd_handle = h\<rparr>"] running show False by (auto simp: remove1_append)
    qed
    with True show ?thesis by (simp add: r')
  next
    case False
    then have "\<lparr>pd_digest = d, pd_handle = h\<rparr> \<noteq> p" by auto
    then have "\<lparr>pd_digest = d, pd_handle = h\<rparr> \<in> set (remove1 p running) \<longleftrightarrow> \<lparr>pd_digest = d, pd_handle = h\<rparr> \<in> set running" by simp
    with ok False show ?thesis by (simp add: downloads_ok_def r')
  qed
  then show ?thesis using ok same unfolding downloads_ok_def by (simp add: r')
qed

lemma notify_ok:
  assumes ok: "downloads_ok r running ending" and p: "(p, outcome) \<in> set ending"
  shows "downloads_ok (notify outcome p r) running (remove1 (p, outcome) ending)"
proof -
  obtain es fs where ending: "ending = es @ (p, outcome) # fs" "(p, outcome) \<notin> set es" using p by (meson split_list_first)
  have dist: "distinct (handles running ending)" using ok by (simp add: downloads_ok_def)
  have h: "pd_handle p < length (dr_channels r)" using handle_live [OF ok] p by (force simp: handles_def)
  have "set (handles running (remove1 (p, outcome) ending)) = set (handles running ending) - {pd_handle p}"
    "distinct (handles running (remove1 (p, outcome) ending))"
    using dist by (auto simp: handles_def ending remove1_append)
  with ok h show ?thesis unfolding downloads_ok_def notify_def send_modify_def by (auto simp: nth_list_update)
qed

lemma download_run_ok: "download_run r running ending \<Longrightarrow> downloads_ok r running ending"
proof (induction rule: download_run.induct)
  case downloads_new
  show ?case by (simp add: downloads_ok_def registry_new_def handles_def)
next
  case (downloads_attached r running ending d h r')
  then show ?case by (auto simp: register_def Let_def split: option.splits)
qed (simp_all add: register_ok publish_ok remove_ok notify_ok)

text \<open>C29: Downloads are single flight and no waiter is forgotten.  In every interleaving, a request for a digest
  attaches to a transfer exactly when one is running, a digest has at most one running producer,
  whose channel is the registered one and still open, and the channels without an outcome are
  exactly those of producers that are running or about to send it.  A producer that ends leaves the
  registration of every other transfer, a replacement for its own digest included, as it was.\<close>

theorem downloads_single_flight:
  assumes "download_run r running ending"
  shows "(registry_get r d = Some h \<longleftrightarrow> \<lparr>pd_digest = d, pd_handle = h\<rparr> \<in> set running)
    \<and> (registry_get r d = Some h \<longrightarrow> dp_done (dr_channels r ! h) = None)
    \<and> (p \<in> set running \<and> q \<in> set running \<and> pd_digest p = pd_digest q \<longrightarrow> p = q)
    \<and> (h < length (dr_channels r) \<and> dp_done (dr_channels r ! h) = None
        \<longleftrightarrow> h \<in> pd_handle ` (set running \<union> fst ` set ending))
    \<and> (registry_get r d = Some h \<and> pd_handle p \<noteq> h \<longrightarrow> registry_get (producer_finish outcome p r) d = Some h)"
proof -
  note ok = download_run_ok [OF assms]
  have reg: "registry_get r d = Some h \<longleftrightarrow> \<lparr>pd_digest = d, pd_handle = h\<rparr> \<in> set running" for d h
    using ok by (simp add: downloads_ok_def registry_get_def)
  have "p = q" if "p \<in> set running" "q \<in> set running" "pd_digest p = pd_digest q"
  proof -
    have "registry_get r (pd_digest p) = Some (pd_handle p)" "registry_get r (pd_digest q) = Some (pd_handle q)"
      using that(1,2) reg by simp_all
    with that(3) show ?thesis by (intro download_producer.equality) simp_all
  qed
  moreover have "h < length (dr_channels r) \<and> dp_done (dr_channels r ! h) = None
      \<longleftrightarrow> h \<in> pd_handle ` (set running \<union> fst ` set ending)"
  proof -
    have "set (handles running ending) = pd_handle ` (set running \<union> fst ` set ending)" by (auto simp: handles_def)
    with ok show ?thesis by (simp add: downloads_ok_def)
  qed
  moreover have "registry_get (producer_finish outcome p r) d = Some h" if "registry_get r d = Some h" "pd_handle p \<noteq> h"
    using that by (auto simp: producer_finish_def notify_def send_modify_def producer_remove_def same_transfer_def
      registry_get_def split: option.split)
  moreover have "dp_done (dr_channels r ! h) = None" if "registry_get r d = Some h"
    using that reg handle_live [OF ok, of h] by (force simp: handles_def)
  ultimately show ?thesis using reg [of d h] by (intro conjI impI) simp_all
qed

theorem downloads_single_flight_witness:
  "registry_get (snd (register registry_new ''d'')) ''d'' = Some 0"
proof -
  have "register registry_new ''d'' = (Inr (0, \<lparr>pd_digest = ''d'', pd_handle = 0\<rparr>), snd (register registry_new ''d''))"
    by (simp add: register_def registry_new_def)
  from downloads_single_flight [OF downloads_registered [OF downloads_new this], of "''d''" 0] show ?thesis by simp
qed

end
