(* ===== verification/JobScheduler.thy ===== *)
theory JobScheduler
  imports Jobs "HOL-Library.Multiset" "HOL-Library.Product_Lexorder"
begin

text \<open>
  The node-local job scheduler, its counters and its timer, \<open>crates/peryx-driver/src/jobs/scheduler.rs\<close>,
  \<open>metrics.rs\<close> and \<open>timer.rs\<close>.  A semaphore is its capacity with the permits still free.  An admitted
  task takes its permits one after the other, with other tasks and submissions running in between,
  so the scheduler is a step function on the state the tasks share.
\<close>

section \<open>Permits\<close>

text \<open>What the scheduler relies on: a pool of permits per key, of which a taken one is missing until it is
  given back.\<close>

locale permit_pool =
  fixes free :: "'p \<Rightarrow> 'k \<Rightarrow> nat" and cap :: "'p \<Rightarrow> nat" and take_permit give_permit :: "'k \<Rightarrow> 'p \<Rightarrow> 'p"
  assumes free_take: "0 < free p k \<Longrightarrow> free (take_permit k p) j = (if j = k then free p k - 1 else free p j)"
    and free_give: "free (give_permit k p) j = (if j = k then free p k + 1 else free p j)"
    and cap_take: "cap (take_permit k p) = cap p"
    and cap_give: "cap (give_permit k p) = cap p"
begin

definition balanced :: "'p \<Rightarrow> 'k list \<Rightarrow> bool" where
  "balanced p held \<longleftrightarrow> (\<forall>k. free p k + count_list held k = cap p)"

lemma balanced_take:
  assumes "balanced p held" "0 < free p k" "\<And>j. count_list held' j = count_list (k # held) j"
  shows "balanced (take_permit k p) held'"
  unfolding balanced_def cap_take
proof
  fix j
  have "free p j + count_list held j = cap p" using assms(1) by (simp add: balanced_def)
  with assms(2) free_take [OF assms(2), of j] assms(3) [of j]
  show "free (take_permit k p) j + count_list held' j = cap p" by (cases "j = k") simp_all
qed

lemma balanced_give:
  assumes "balanced p held" "\<And>j. count_list held j = count_list (k # held') j"
  shows "balanced (give_permit k p) held'"
  unfolding balanced_def cap_give
proof
  fix j
  have "free p j + count_list (k # held') j = cap p" using assms by (simp add: balanced_def)
  then show "free (give_permit k p) j + count_list held' j = cap p" by (cases "j = k") (simp_all add: free_give)
qed

lemma balanced_perm: "balanced p held \<Longrightarrow> (\<And>j. count_list held' j = count_list held j) \<Longrightarrow> balanced p held'"
  by (simp add: balanced_def)

lemma held_bound: "balanced p held \<Longrightarrow> count_list held k \<le> cap p"
  by (auto simp: balanced_def) (metis le_add2)

lemma idle_free: "balanced p held \<Longrightarrow> k \<notin> set held \<Longrightarrow> free p k = cap p"
  by (auto simp: balanced_def) (metis add.right_neutral count_list_0_iff)

end

record semaphore =
  sm_capacity :: nat
  sm_free :: nat

definition semaphore_new :: "nat \<Rightarrow> semaphore" where
  "semaphore_new n = \<lparr>sm_capacity = n, sm_free = n\<rparr>"

definition sem_take :: "unit \<Rightarrow> semaphore \<Rightarrow> semaphore" where
  "sem_take _ s = s\<lparr>sm_free := sm_free s - 1\<rparr>"

definition sem_give :: "unit \<Rightarrow> semaphore \<Rightarrow> semaphore" where
  "sem_give _ s = s\<lparr>sm_free := sm_free s + 1\<rparr>"

interpretation sem: permit_pool "\<lambda>s _. sm_free s" sm_capacity sem_take sem_give
  by unfold_locales (auto simp: sem_take_def sem_give_def)

record keyed_limiter =
  kl_capacity :: nat
  kl_permits :: "(string, nat) tbl"

definition keyed_limiter_new :: "nat \<Rightarrow> keyed_limiter" where
  "keyed_limiter_new n = \<lparr>kl_capacity = n, kl_permits = []\<rparr>"

definition kl_free :: "keyed_limiter \<Rightarrow> string \<Rightarrow> nat" where
  "kl_free l key = (case t_get (kl_permits l) key of None \<Rightarrow> kl_capacity l | Some n \<Rightarrow> n)"

text \<open>The entry of a key is made when it is first asked for.\<close>

definition kl_take :: "string \<Rightarrow> keyed_limiter \<Rightarrow> keyed_limiter" where
  "kl_take key l = l\<lparr>kl_permits := t_insert (kl_permits l) key (kl_free l key - 1)\<rparr>"

definition kl_give :: "string \<Rightarrow> keyed_limiter \<Rightarrow> keyed_limiter" where
  "kl_give key l = l\<lparr>kl_permits := t_insert (kl_permits l) key (kl_free l key + 1)\<rparr>"

interpretation keyed: permit_pool kl_free kl_capacity kl_take kl_give
  by unfold_locales (auto simp: kl_free_def kl_take_def kl_give_def split: option.split)

section \<open>Counters\<close>

datatype run_outcome = OutcomeSucceeded | OutcomeFailed | OutcomeCancelled

datatype reject = RejectConflict | RejectQueueFull

record kind_counters =
  kc_started :: nat
  kc_succeeded :: nat
  kc_failed :: nat
  kc_cancelled :: nat
  kc_conflict :: nat
  kc_queue_full :: nat
  kc_running :: int

type_synonym job_metrics = "(string, kind_counters) tbl"

definition kind_counters_default :: kind_counters where
  "kind_counters_default = \<lparr>kc_started = 0, kc_succeeded = 0, kc_failed = 0, kc_cancelled = 0,
     kc_conflict = 0, kc_queue_full = 0, kc_running = 0\<rparr>"

definition kind_counters_of :: "job_metrics \<Rightarrow> string \<Rightarrow> kind_counters" where
  "kind_counters_of m kind = (case t_get m kind of None \<Rightarrow> kind_counters_default | Some c \<Rightarrow> c)"

definition metrics_with :: "string \<Rightarrow> (kind_counters \<Rightarrow> kind_counters) \<Rightarrow> job_metrics \<Rightarrow> job_metrics" where
  "metrics_with kind edit m = t_insert m kind (edit (kind_counters_of m kind))"

definition metrics_started :: "string \<Rightarrow> job_metrics \<Rightarrow> job_metrics" where
  "metrics_started kind = metrics_with kind (\<lambda>c. c\<lparr>kc_started := kc_started c + 1, kc_running := kc_running c + 1\<rparr>)"

definition metrics_finished :: "string \<Rightarrow> run_outcome \<Rightarrow> job_metrics \<Rightarrow> job_metrics" where
  "metrics_finished kind outcome = metrics_with kind (\<lambda>c.
     let c = c\<lparr>kc_running := kc_running c - 1\<rparr> in
     case outcome of
       OutcomeSucceeded \<Rightarrow> c\<lparr>kc_succeeded := kc_succeeded c + 1\<rparr>
     | OutcomeFailed \<Rightarrow> c\<lparr>kc_failed := kc_failed c + 1\<rparr>
     | OutcomeCancelled \<Rightarrow> c\<lparr>kc_cancelled := kc_cancelled c + 1\<rparr>)"

definition metrics_rejected :: "string \<Rightarrow> reject \<Rightarrow> job_metrics \<Rightarrow> job_metrics" where
  "metrics_rejected kind reason = metrics_with kind (\<lambda>c. case reason of
       RejectConflict \<Rightarrow> c\<lparr>kc_conflict := kc_conflict c + 1\<rparr>
     | RejectQueueFull \<Rightarrow> c\<lparr>kc_queue_full := kc_queue_full c + 1\<rparr>)"

section \<open>The scheduler\<close>

record job_limits =
  jl_workers :: nat
  jl_queue :: nat
  jl_per_kind :: nat
  jl_per_repository :: nat
  jl_shutdown_grace_secs :: nat

definition node_local :: job_limits where
  "node_local = \<lparr>jl_workers = 4, jl_queue = 128, jl_per_kind = 4, jl_per_repository = 1, jl_shutdown_grace_secs = 30\<rparr>"

datatype submit_result = SubmitQueued | SubmitConflict | SubmitQueueFull | SubmitShuttingDown

record node_job =
  nb_kind :: string
  nb_scope :: string
  nb_persist_as :: "job_kind option"

text \<open>How far an admitted task has come; a finished one still holds its permits until it is dropped.\<close>

datatype task_phase = Admitted | HasWorker | HasKind | TaskRunning | TaskFinished

record task =
  tk_job :: node_job
  tk_key :: string
  tk_phase :: task_phase

record scheduler =
  sc_workers :: semaphore
  sc_queue :: semaphore
  sc_per_kind :: keyed_limiter
  sc_per_repository :: keyed_limiter
  sc_inflight :: "string set"
  sc_metrics :: job_metrics
  sc_cancelled :: bool
  sc_tasks :: "task list"

definition scheduler_new :: "job_limits \<Rightarrow> scheduler" where
  "scheduler_new limits = \<lparr>sc_workers = semaphore_new (jl_workers limits), sc_queue = semaphore_new (jl_queue limits),
     sc_per_kind = keyed_limiter_new (jl_per_kind limits),
     sc_per_repository = keyed_limiter_new (jl_per_repository limits), sc_inflight = {}, sc_metrics = [],
     sc_cancelled = False, sc_tasks = []\<rparr>"

definition conflict_key :: "string \<Rightarrow> string \<Rightarrow> string" where
  "conflict_key kind scope = kind @ [CHR 0x00] @ scope"

definition submit :: "node_job \<Rightarrow> scheduler \<Rightarrow> submit_result \<times> scheduler" where
  "submit job s =
     (if sc_cancelled s then (SubmitShuttingDown, s)
      else
        let key = conflict_key (nb_kind job) (nb_scope job) in
        if key \<in> sc_inflight s then
          (SubmitConflict, s\<lparr>sc_metrics := metrics_rejected (nb_kind job) RejectConflict (sc_metrics s)\<rparr>)
        else if sm_free (sc_queue s) = 0 then
          (SubmitQueueFull, s\<lparr>sc_metrics := metrics_rejected (nb_kind job) RejectQueueFull (sc_metrics s)\<rparr>)
        else
          (SubmitQueued, s\<lparr>sc_inflight := insert key (sc_inflight s), sc_queue := sem_take () (sc_queue s),
             sc_tasks := sc_tasks s @ [\<lparr>tk_job = job, tk_key = key, tk_phase = Admitted\<rparr>]\<rparr>))"

definition shutdown :: "scheduler \<Rightarrow> scheduler" where
  "shutdown s = s\<lparr>sc_cancelled := True\<rparr>"

definition set_phase :: "nat \<Rightarrow> task_phase \<Rightarrow> scheduler \<Rightarrow> scheduler" where
  "set_phase i ph s = s\<lparr>sc_tasks := (sc_tasks s)[i := (sc_tasks s ! i)\<lparr>tk_phase := ph\<rparr>]\<rparr>"

text \<open>
  The next step of the \<open>i\<close>-th task: \<open>None\<close> while the permit it waits for is taken.  \<open>outcome\<close> is how its
  run ends, when that is the step.  Permits are returned when the finished task is dropped.
\<close>

definition run_admitted :: "nat \<Rightarrow> run_outcome \<Rightarrow> scheduler \<Rightarrow> scheduler option" where
  "run_admitted i outcome s =
     (if i \<ge> length (sc_tasks s) then None
      else
        let t = sc_tasks s ! i; kind = nb_kind (tk_job t); scope = nb_scope (tk_job t) in
        case tk_phase t of
          Admitted \<Rightarrow>
            if sm_free (sc_workers s) = 0 then None
            else Some (set_phase i HasWorker (s\<lparr>sc_workers := sem_take () (sc_workers s)\<rparr>))
        | HasWorker \<Rightarrow>
            if kl_free (sc_per_kind s) kind = 0 then None
            else Some (set_phase i HasKind (s\<lparr>sc_per_kind := kl_take kind (sc_per_kind s)\<rparr>))
        | HasKind \<Rightarrow>
            if kl_free (sc_per_repository s) scope = 0 then None
            else Some (set_phase i TaskRunning (s\<lparr>sc_per_repository := kl_take scope (sc_per_repository s),
              sc_metrics := metrics_started kind (sc_metrics s)\<rparr>))
        | TaskRunning \<Rightarrow>
            Some (set_phase i TaskFinished (s\<lparr>sc_metrics := metrics_finished kind outcome (sc_metrics s),
              sc_inflight := sc_inflight s - {tk_key t}\<rparr>))
        | TaskFinished \<Rightarrow>
            Some (s\<lparr>sc_per_repository := kl_give scope (sc_per_repository s),
              sc_per_kind := kl_give kind (sc_per_kind s), sc_workers := sem_give () (sc_workers s),
              sc_queue := sem_give () (sc_queue s),
              sc_tasks := take i (sc_tasks s) @ drop (Suc i) (sc_tasks s)\<rparr>))"

section \<open>One run\<close>

record job_report =
  jp_processed :: nat
  jp_changed :: nat

datatype job_error = JobFailure string | JobStore meta_error

text \<open>\<open>clock\<close> gives the times at which the run starts and ends; \<open>run\<close> is the job's own work on the store.\<close>

definition run_persisted ::
    "int \<times> int \<Rightarrow> (meta_store \<Rightarrow> (string + job_report) \<times> meta_store) \<Rightarrow> node_job \<Rightarrow> meta_store
      \<Rightarrow> (job_error + job_report) \<times> meta_store" where
  "run_persisted clock run job s =
     (case (case nb_persist_as job of
        Some kind \<Rightarrow> map_err JobStore (rbind (start_job_run s \<lparr>nj_kind = kind, nj_scope = nb_scope job,
            nj_started_at_unix = fst clock\<rparr>) (\<lambda>(jid, s). Inr (Some jid, s)))
      | None \<Rightarrow> Inr (None, s)) of
        Inl e \<Rightarrow> (Inl e, s)
      | Inr (jid, s) \<Rightarrow>
          let (result, s) = run s in
          (case jid of
             None \<Rightarrow> (map_err JobFailure result, s)
           | Some jid \<Rightarrow>
               let outcome = (case result of
                   Inr report \<Rightarrow> \<lparr>jo_state = JobSucceeded, jo_finished_at_unix = snd clock,
                     jo_items_processed = jp_processed report, jo_items_changed = jp_changed report, jo_error = None\<rparr>
                 | Inl message \<Rightarrow> \<lparr>jo_state = JobFailed, jo_finished_at_unix = snd clock,
                     jo_items_processed = 0, jo_items_changed = 0, jo_error = Some message\<rparr>) in
               (case finish_job_run s jid outcome of
                  Inl e \<Rightarrow> (Inl (JobStore e), s)
                | Inr (_, s) \<Rightarrow> (map_err JobFailure result, s))))"

text \<open>\<open>cancelled\<close>: whether cancellation was asked for before the run and by its end.\<close>

definition execute ::
    "bool \<times> bool \<Rightarrow> int \<times> int \<Rightarrow> (meta_store \<Rightarrow> (string + job_report) \<times> meta_store) \<Rightarrow> node_job \<Rightarrow> meta_store
      \<Rightarrow> run_outcome \<times> meta_store" where
  "execute cancelled clock run job s =
     (if fst cancelled then (OutcomeCancelled, s)
      else case run_persisted clock run job s of
        (Inr _, s) \<Rightarrow> (if snd cancelled then OutcomeCancelled else OutcomeSucceeded, s)
      | (Inl _, s) \<Rightarrow> (OutcomeFailed, s))"

section \<open>The timer\<close>

definition reschedule :: "nat \<Rightarrow> nat \<Rightarrow> nat \<Rightarrow> nat" where
  "reschedule at woke interval = (let next_at = at + interval in if next_at \<le> woke then woke + interval else next_at)"

text \<open>The heap of due times is a list kept in order; a fire takes the first and puts its schedule back.\<close>

definition timer_start :: "nat \<Rightarrow> nat list \<Rightarrow> (nat \<times> nat) list" where
  "timer_start start intervals = sort (map (\<lambda>i. (start + intervals ! i, i)) [0..<length intervals])"

definition timer_fire :: "nat list \<Rightarrow> nat \<Rightarrow> (nat \<times> nat) list \<Rightarrow> (nat \<times> (nat \<times> nat) list) option" where
  "timer_fire intervals woke due = (case due of
      [] \<Rightarrow> None
    | (at, i) # rest \<Rightarrow> Some (i, insort (reschedule at (max at woke) (intervals ! i), i) rest))"

section \<open>Bounds and conflicts\<close>

definition has_worker :: "task \<Rightarrow> bool" where "has_worker t \<longleftrightarrow> tk_phase t \<noteq> Admitted"

definition has_kind :: "task \<Rightarrow> bool" where "has_kind t \<longleftrightarrow> tk_phase t \<notin> {Admitted, HasWorker}"

definition has_repository :: "task \<Rightarrow> bool" where "has_repository t \<longleftrightarrow> tk_phase t \<in> {TaskRunning, TaskFinished}"

definition in_flight_task :: "task \<Rightarrow> bool" where "in_flight_task t \<longleftrightarrow> tk_phase t \<noteq> TaskFinished"

abbreviation task_kind :: "task \<Rightarrow> string" where "task_kind t \<equiv> nb_kind (tk_job t)"

abbreviation task_scope :: "task \<Rightarrow> string" where "task_scope t \<equiv> nb_scope (tk_job t)"

definition key_ok :: "task \<Rightarrow> bool" where
  "key_ok t \<longleftrightarrow> tk_key t = conflict_key (task_kind t) (task_scope t)"

definition scheduler_inv :: "job_limits \<Rightarrow> scheduler \<Rightarrow> bool" where
  "scheduler_inv limits s \<longleftrightarrow>
     sem.balanced (sc_queue s) (map (\<lambda>_. ()) (sc_tasks s)) \<and> sm_capacity (sc_queue s) = jl_queue limits
     \<and> sem.balanced (sc_workers s) (map (\<lambda>_. ()) (filter has_worker (sc_tasks s))) \<and> sm_capacity (sc_workers s) = jl_workers limits
     \<and> keyed.balanced (sc_per_kind s) (map task_kind (filter has_kind (sc_tasks s))) \<and> kl_capacity (sc_per_kind s) = jl_per_kind limits
     \<and> keyed.balanced (sc_per_repository s) (map task_scope (filter has_repository (sc_tasks s)))
     \<and> kl_capacity (sc_per_repository s) = jl_per_repository limits
     \<and> distinct (map tk_key (filter in_flight_task (sc_tasks s)))
     \<and> sc_inflight s = tk_key ` set (filter in_flight_task (sc_tasks s))
     \<and> list_all key_ok (sc_tasks s)"

lemma scheduler_new_inv: "scheduler_inv limits (scheduler_new limits)"
  by (simp add: scheduler_inv_def scheduler_new_def semaphore_new_def keyed_limiter_new_def sem.balanced_def keyed.balanced_def
    kl_free_def)

lemma submit_inv:
  assumes "scheduler_inv limits s" "submit job s = (r, s')"
  shows "scheduler_inv limits s'"
proof -
  let ?key = "conflict_key (nb_kind job) (nb_scope job)"
  let ?t = "\<lparr>tk_job = job, tk_key = ?key, tk_phase = Admitted\<rparr>"
  have same: "scheduler_inv limits (s\<lparr>sc_metrics := m\<rparr>)" for m using assms(1) by (simp add: scheduler_inv_def)
  show ?thesis
  proof (cases "r = SubmitQueued")
    case True
    with assms(2) have new: "?key \<notin> sc_inflight s" "0 < sm_free (sc_queue s)"
      and s': "s' = s\<lparr>sc_inflight := insert ?key (sc_inflight s), sc_queue := sem_take () (sc_queue s), sc_tasks := sc_tasks s @ [?t]\<rparr>"
      by (auto simp: submit_def Let_def split: if_splits)
    have "sem.balanced (sem_take () (sc_queue s)) (map (\<lambda>_. ()) (sc_tasks s @ [?t]))"
      using assms(1) new(2) by (intro sem.balanced_take [of _ "map (\<lambda>_. ()) (sc_tasks s)"]) (auto simp: scheduler_inv_def)
    with assms(1) new show ?thesis
      by (auto simp: scheduler_inv_def s' has_worker_def has_kind_def has_repository_def in_flight_task_def key_ok_def sem.cap_take)
  next
    case False
    with assms(1,2) same show ?thesis by (auto simp: submit_def Let_def split: if_splits)
  qed
qed

text \<open>The tasks around the one that moves.\<close>

lemma set_phase_at:
  "sc_tasks s = xs @ t # ys \<Longrightarrow> set_phase (length xs) ph s = s\<lparr>sc_tasks := xs @ t\<lparr>tk_phase := ph\<rparr> # ys\<rparr>"
  by (simp add: set_phase_def)

lemmas phase_defs = has_worker_def has_kind_def has_repository_def in_flight_task_def

lemma key_ok_phase [simp]: "key_ok (t\<lparr>tk_phase := ph\<rparr>) = key_ok t"
  by (simp add: key_ok_def)

lemma run_admittedE:
  assumes "run_admitted i outcome s = Some s'"
  obtains xs t ys where "sc_tasks s = xs @ t # ys" "i = length xs"
proof -
  have i: "i < length (sc_tasks s)" using assms by (auto simp: run_admitted_def split: if_splits)
  show ?thesis using that [OF id_take_nth_drop [OF i]] i by simp
qed

lemma inv_worker:
  assumes inv: "scheduler_inv limits s" and tasks: "sc_tasks s = xs @ t # ys" and t: "tk_phase t = Admitted"
    and free: "0 < sm_free (sc_workers s)"
  shows "scheduler_inv limits (s\<lparr>sc_workers := sem_take () (sc_workers s), sc_tasks := xs @ t\<lparr>tk_phase := HasWorker\<rparr> # ys\<rparr>)"
proof -
  have "sem.balanced (sem_take () (sc_workers s)) (map (\<lambda>_. ()) (filter has_worker (xs @ t\<lparr>tk_phase := HasWorker\<rparr> # ys)))"
    using inv free t by (intro sem.balanced_take [of _ "map (\<lambda>_. ()) (filter has_worker (xs @ t # ys))"])
      (auto simp: scheduler_inv_def tasks phase_defs)
  with inv t show ?thesis unfolding scheduler_inv_def by (simp add: tasks phase_defs sem.cap_take)
qed

lemma inv_kind:
  assumes inv: "scheduler_inv limits s" and tasks: "sc_tasks s = xs @ t # ys" and t: "tk_phase t = HasWorker"
    and free: "0 < kl_free (sc_per_kind s) (task_kind t)"
  shows "scheduler_inv limits (s\<lparr>sc_per_kind := kl_take (task_kind t) (sc_per_kind s), sc_tasks := xs @ t\<lparr>tk_phase := HasKind\<rparr> # ys\<rparr>)"
proof -
  have "keyed.balanced (kl_take (task_kind t) (sc_per_kind s)) (map task_kind (filter has_kind (xs @ t\<lparr>tk_phase := HasKind\<rparr> # ys)))"
    using inv free t by (intro keyed.balanced_take [of _ "map task_kind (filter has_kind (xs @ t # ys))"])
      (auto simp: scheduler_inv_def tasks phase_defs)
  with inv t show ?thesis unfolding scheduler_inv_def by (simp add: tasks phase_defs keyed.cap_take)
qed

lemma inv_repository:
  assumes inv: "scheduler_inv limits s" and tasks: "sc_tasks s = xs @ t # ys" and t: "tk_phase t = HasKind"
    and free: "0 < kl_free (sc_per_repository s) (task_scope t)"
  shows "scheduler_inv limits (s\<lparr>sc_per_repository := kl_take (task_scope t) (sc_per_repository s), sc_metrics := m,
    sc_tasks := xs @ t\<lparr>tk_phase := TaskRunning\<rparr> # ys\<rparr>)"
proof -
  have "keyed.balanced (kl_take (task_scope t) (sc_per_repository s))
      (map task_scope (filter has_repository (xs @ t\<lparr>tk_phase := TaskRunning\<rparr> # ys)))"
    using inv free t by (intro keyed.balanced_take [of _ "map task_scope (filter has_repository (xs @ t # ys))"])
      (auto simp: scheduler_inv_def tasks phase_defs)
  with inv t show ?thesis unfolding scheduler_inv_def by (simp add: tasks phase_defs keyed.cap_take)
qed

lemma inv_finished:
  assumes inv: "scheduler_inv limits s" and tasks: "sc_tasks s = xs @ t # ys" and t: "tk_phase t = TaskRunning"
  shows "scheduler_inv limits (s\<lparr>sc_metrics := m, sc_inflight := sc_inflight s - {tk_key t},
    sc_tasks := xs @ t\<lparr>tk_phase := TaskFinished\<rparr> # ys\<rparr>)"
proof -
  have dist: "distinct (map tk_key (filter in_flight_task (xs @ t # ys)))" using inv by (simp add: scheduler_inv_def tasks)
  let ?A = "tk_key ` set (filter in_flight_task xs)" and ?B = "tk_key ` set (filter in_flight_task ys)"
  have "tk_key t \<notin> ?A \<union> ?B" using dist t by (auto simp: in_flight_task_def)
  moreover have "sc_inflight s = insert (tk_key t) (?A \<union> ?B)"
    using inv t by (simp add: scheduler_inv_def tasks in_flight_task_def image_Un)
  ultimately have "sc_inflight s - {tk_key t} = tk_key ` set (filter in_flight_task (xs @ t\<lparr>tk_phase := TaskFinished\<rparr> # ys))"
    by (simp add: in_flight_task_def image_Un)
  moreover have "distinct (map tk_key (filter in_flight_task (xs @ t\<lparr>tk_phase := TaskFinished\<rparr> # ys)))"
    using dist t by (auto simp: in_flight_task_def)
  ultimately show ?thesis using inv t unfolding scheduler_inv_def by (simp add: tasks phase_defs)
qed

lemma inv_dropped:
  assumes inv: "scheduler_inv limits s" and tasks: "sc_tasks s = xs @ t # ys" and t: "tk_phase t = TaskFinished"
  shows "scheduler_inv limits (s\<lparr>sc_per_repository := kl_give (task_scope t) (sc_per_repository s),
    sc_per_kind := kl_give (task_kind t) (sc_per_kind s), sc_workers := sem_give () (sc_workers s),
    sc_queue := sem_give () (sc_queue s), sc_tasks := xs @ ys\<rparr>)"
proof -
  have "keyed.balanced (kl_give (task_scope t) (sc_per_repository s)) (map task_scope (filter has_repository (xs @ ys)))"
    using inv t by (intro keyed.balanced_give [of _ "map task_scope (filter has_repository (xs @ t # ys))"])
      (auto simp: scheduler_inv_def tasks phase_defs)
  moreover have "keyed.balanced (kl_give (task_kind t) (sc_per_kind s)) (map task_kind (filter has_kind (xs @ ys)))"
    using inv t by (intro keyed.balanced_give [of _ "map task_kind (filter has_kind (xs @ t # ys))"])
      (auto simp: scheduler_inv_def tasks phase_defs)
  moreover have "sem.balanced (sem_give () (sc_workers s)) (map (\<lambda>_. ()) (filter has_worker (xs @ ys)))"
    using inv t by (intro sem.balanced_give [of _ "map (\<lambda>_. ()) (filter has_worker (xs @ t # ys))"])
      (auto simp: scheduler_inv_def tasks phase_defs)
  moreover have "sem.balanced (sem_give () (sc_queue s)) (map (\<lambda>_. ()) (xs @ ys))"
    using inv t by (intro sem.balanced_give [of _ "map (\<lambda>_. ()) (xs @ t # ys)"]) (auto simp: scheduler_inv_def tasks)
  ultimately show ?thesis
    using inv t unfolding scheduler_inv_def by (simp add: tasks phase_defs keyed.cap_give sem.cap_give)
qed

lemma run_admitted_inv:
  assumes inv: "scheduler_inv limits s" and step: "run_admitted i outcome s = Some s'"
  shows "scheduler_inv limits s'"
proof -
  from step obtain xs t ys where tasks: "sc_tasks s = xs @ t # ys" "i = length xs" by (rule run_admittedE)
  show ?thesis
    using step inv_worker [OF inv tasks(1)] inv_kind [OF inv tasks(1)] inv_repository [OF inv tasks(1)]
      inv_finished [OF inv tasks(1)] inv_dropped [OF inv tasks(1)]
    by (cases "tk_phase t") (auto simp: run_admitted_def tasks Let_def set_phase_at split: if_splits)
qed

section \<open>Draining\<close>

inductive scheduler_run :: "job_limits \<Rightarrow> scheduler \<Rightarrow> bool" for limits where
  scheduler_start: "scheduler_run limits (scheduler_new limits)"
| scheduler_submit: "scheduler_run limits s \<Longrightarrow> scheduler_run limits (snd (submit job s))"
| scheduler_step: "scheduler_run limits s \<Longrightarrow> run_admitted i outcome s = Some s' \<Longrightarrow> scheduler_run limits s'"
| scheduler_shutdown: "scheduler_run limits s \<Longrightarrow> scheduler_run limits (shutdown s)"

lemma scheduler_run_inv: "scheduler_run limits s \<Longrightarrow> scheduler_inv limits s"
proof (induction rule: scheduler_run.induct)
  case (scheduler_submit s job)
  then show ?case using submit_inv by (metis prod.collapse)
next
  case (scheduler_shutdown s)
  then show ?case by (simp add: shutdown_def scheduler_inv_def)
qed (auto intro: scheduler_new_inv run_admitted_inv)

lemma count_list_map: "count_list (map f xs) k = length (filter (\<lambda>x. f x = k) xs)"
  by (induction xs) auto

lemma length_filter_mono: "(\<And>x. P x \<Longrightarrow> Q x) \<Longrightarrow> length (filter P xs) \<le> length (filter Q xs)"
  by (induction xs) auto

lemma distinct_filter_nth:
  assumes "distinct (map f (filter P xs))" "i < length xs" "j < length xs" "P (xs ! i)" "P (xs ! j)" "f (xs ! i) = f (xs ! j)"
  shows "i = j"
  using assms
proof (induction xs arbitrary: i j)
  case (Cons x xs)
  have other: "f x \<noteq> f (xs ! k) \<and> f (xs ! k) \<noteq> f x" if "P x" "k < length xs" "P (xs ! k)" for k
    using Cons.prems(1) that by (auto simp: image_iff)
  show ?case
  proof (cases i; cases j)
    fix i' j' assume "i = Suc i'" "j = Suc j'"
    with Cons.IH [of i' j'] Cons.prems show ?thesis by (auto split: if_splits)
  qed (use Cons.prems other in auto)
qed simp

definition running_tasks :: "scheduler \<Rightarrow> task list" where
  "running_tasks s = filter (\<lambda>t. tk_phase t = TaskRunning) (sc_tasks s)"

text \<open>C38: However submissions and tasks interleave, no more tasks are admitted than the queue holds, no more run than
  there are workers, no more of one kind and no more on one repository than allowed, and two tasks of
  the same kind and scope are never in flight together.\<close>

theorem scheduler_limits:
  assumes "scheduler_run limits s"
  shows "length (sc_tasks s) \<le> jl_queue limits \<and> length (running_tasks s) \<le> jl_workers limits
    \<and> length (filter (\<lambda>t. task_kind t = kind) (running_tasks s)) \<le> jl_per_kind limits
    \<and> length (filter (\<lambda>t. task_scope t = scope) (running_tasks s)) \<le> jl_per_repository limits
    \<and> (i < length (sc_tasks s) \<and> j < length (sc_tasks s)
        \<and> tk_phase (sc_tasks s ! i) \<noteq> TaskFinished \<and> tk_phase (sc_tasks s ! j) \<noteq> TaskFinished
        \<and> task_kind (sc_tasks s ! i) = task_kind (sc_tasks s ! j) \<and> task_scope (sc_tasks s ! i) = task_scope (sc_tasks s ! j)
        \<longrightarrow> i = j)"
proof -
  note inv = scheduler_run_inv [OF assms]
  have "length (sc_tasks s) \<le> jl_queue limits"
    using inv sem.held_bound [of "sc_queue s" "map (\<lambda>_. ()) (sc_tasks s)" "()"] by (simp add: scheduler_inv_def count_list_map)
  moreover have "length (running_tasks s) \<le> jl_workers limits"
    using inv sem.held_bound [of "sc_workers s" "map (\<lambda>_. ()) (filter has_worker (sc_tasks s))" "()"]
      length_filter_mono [of "\<lambda>t. tk_phase t = TaskRunning" has_worker "sc_tasks s"]
    by (simp add: scheduler_inv_def count_list_map running_tasks_def) (simp add: has_worker_def)
  moreover have "length (filter (\<lambda>t. task_kind t = kind) (running_tasks s)) \<le> jl_per_kind limits"
    using inv keyed.held_bound [of "sc_per_kind s" "map task_kind (filter has_kind (sc_tasks s))" kind]
      length_filter_mono [of "\<lambda>t. tk_phase t = TaskRunning \<and> task_kind t = kind" "\<lambda>t. has_kind t \<and> task_kind t = kind" "sc_tasks s"]
    by (simp add: scheduler_inv_def count_list_map running_tasks_def has_kind_def)
  moreover have "length (filter (\<lambda>t. task_scope t = scope) (running_tasks s)) \<le> jl_per_repository limits"
    using inv keyed.held_bound [of "sc_per_repository s" "map task_scope (filter has_repository (sc_tasks s))" scope]
      length_filter_mono [of "\<lambda>t. tk_phase t = TaskRunning \<and> task_scope t = scope" "\<lambda>t. has_repository t \<and> task_scope t = scope" "sc_tasks s"]
    by (simp add: scheduler_inv_def count_list_map running_tasks_def has_repository_def)
  moreover have "i = j" if "i < length (sc_tasks s)" "j < length (sc_tasks s)"
    "tk_phase (sc_tasks s ! i) \<noteq> TaskFinished" "tk_phase (sc_tasks s ! j) \<noteq> TaskFinished"
    "task_kind (sc_tasks s ! i) = task_kind (sc_tasks s ! j)" "task_scope (sc_tasks s ! i) = task_scope (sc_tasks s ! j)"
  proof -
    have "key_ok (sc_tasks s ! i)" "key_ok (sc_tasks s ! j)" using inv that(1,2) by (simp_all add: scheduler_inv_def list_all_length)
    then have "tk_key (sc_tasks s ! i) = tk_key (sc_tasks s ! j)" using that(5,6) by (simp add: key_ok_def)
    with inv distinct_filter_nth [of tk_key in_flight_task "sc_tasks s" i j] that(1-4) show ?thesis
      by (simp add: scheduler_inv_def in_flight_task_def)
  qed
  ultimately show ?thesis by blast
qed

fun steps_left :: "task_phase \<Rightarrow> nat" where
  "steps_left Admitted = 5"
| "steps_left HasWorker = 4"
| "steps_left HasKind = 3"
| "steps_left TaskRunning = 2"
| "steps_left TaskFinished = 1"

definition work_left :: "scheduler \<Rightarrow> nat" where
  "work_left s = sum_list (map (steps_left \<circ> tk_phase) (sc_tasks s))"

lemma run_admitted_work:
  assumes "run_admitted i outcome s = Some s'"
  shows "Suc (work_left s') = work_left s"
proof -
  from assms obtain xs t ys where tasks: "sc_tasks s = xs @ t # ys" "i = length xs" by (rule run_admittedE)
  with assms show ?thesis
    by (cases "tk_phase t") (auto simp: run_admitted_def work_left_def Let_def set_phase_at split: if_splits)
qed

definition limits_ok :: "job_limits \<Rightarrow> bool" where
  "limits_ok limits \<longleftrightarrow> 0 < jl_workers limits \<and> 0 < jl_queue limits \<and> 0 < jl_per_kind limits \<and> 0 < jl_per_repository limits"

text \<open>Progress: the tasks take their permits in one order, so the one that has come farthest is never blocked.\<close>

lemma some_task_moves:
  assumes inv: "scheduler_inv limits s" and ok: "limits_ok limits" and tasks: "sc_tasks s \<noteq> []"
  shows "\<exists>i s'. run_admitted i outcome s = Some s'"
proof -
  have moves: "\<exists>i s'. run_admitted i outcome s = Some s'" if "t \<in> set (sc_tasks s)"
    "tk_phase t = Admitted \<Longrightarrow> 0 < sm_free (sc_workers s)" "tk_phase t = HasWorker \<Longrightarrow> 0 < kl_free (sc_per_kind s) (task_kind t)"
    "tk_phase t = HasKind \<Longrightarrow> 0 < kl_free (sc_per_repository s) (task_scope t)" for t
  proof -
    from that(1) obtain i where "i < length (sc_tasks s)" "sc_tasks s ! i = t" by (auto simp: in_set_conv_nth)
    with that(2-4) show ?thesis by (intro exI [of _ i]) (cases "tk_phase t"; simp add: run_admitted_def Let_def)
  qed
  have repo: "0 < kl_free (sc_per_repository s) k" if "filter has_repository (sc_tasks s) = []" for k
    using inv ok that keyed.idle_free [of "sc_per_repository s" "[]" k] by (simp add: scheduler_inv_def limits_ok_def)
  have kind: "0 < kl_free (sc_per_kind s) k" if "filter has_kind (sc_tasks s) = []" for k
    using inv ok that keyed.idle_free [of "sc_per_kind s" "[]" k] by (simp add: scheduler_inv_def limits_ok_def)
  have worker: "0 < sm_free (sc_workers s)" if "filter has_worker (sc_tasks s) = []"
    using inv ok that sem.idle_free [of "sc_workers s" "[]" "()"] by (simp add: scheduler_inv_def limits_ok_def)
  show ?thesis
  proof (cases "filter has_repository (sc_tasks s) = []")
    case False
    then obtain t where "t \<in> set (sc_tasks s)" "has_repository t" by (auto simp: filter_empty_conv)
    then show ?thesis by (intro moves [of t]) (auto simp: has_repository_def)
  next
    case no_repo: True
    show ?thesis
    proof (cases "filter has_kind (sc_tasks s) = []")
      case False
      then obtain t where "t \<in> set (sc_tasks s)" "has_kind t" by (auto simp: filter_empty_conv)
      with no_repo repo [OF no_repo] show ?thesis
        by (intro moves [of t]) (auto simp: has_kind_def has_repository_def filter_empty_conv)
    next
      case no_kind: True
      show ?thesis
      proof (cases "filter has_worker (sc_tasks s) = []")
        case False
        then obtain t where "t \<in> set (sc_tasks s)" "has_worker t" by (auto simp: filter_empty_conv)
        with no_kind kind [OF no_kind] show ?thesis
          by (intro moves [of t]) (auto simp: has_kind_def has_worker_def filter_empty_conv)
      next
        case True
        obtain t where "t \<in> set (sc_tasks s)" using tasks by (cases "sc_tasks s") auto
        with True worker [OF True] show ?thesis by (intro moves [of t]) (auto simp: has_worker_def filter_empty_conv)
      qed
    qed
  qed
qed

fun run_steps :: "(nat \<times> run_outcome) list \<Rightarrow> scheduler \<Rightarrow> scheduler option" where
  "run_steps [] s = Some s"
| "run_steps ((i, outcome) # es) s = Option.bind (run_admitted i outcome s) (run_steps es)"

lemma run_steps_run: "run_steps es s = Some s' \<Longrightarrow> scheduler_run limits s \<Longrightarrow> scheduler_run limits s'"
  by (induction es s rule: run_steps.induct) (auto simp: bind_eq_Some_conv intro: scheduler_step)

lemma run_steps_work: "run_steps es s = Some s' \<Longrightarrow> length es + work_left s' = work_left s"
  by (induction es s rule: run_steps.induct) (auto simp: bind_eq_Some_conv dest: run_admitted_work)

lemma work_left_bound: "work_left s \<le> 5 * length (sc_tasks s)"
proof -
  have "sum_list (map (steps_left \<circ> tk_phase) ts) \<le> 5 * length ts" for ts
  proof (induction ts)
    case (Cons t ts)
    have "steps_left (tk_phase t) \<le> 5" by (cases "tk_phase t") simp_all
    with Cons show ?case by simp
  qed simp
  then show ?thesis by (simp add: work_left_def)
qed

lemma run_steps_to_end:
  assumes "scheduler_run limits s" "limits_ok limits"
  shows "\<exists>es s'. run_steps es s = Some s' \<and> sc_tasks s' = []"
  using assms(1)
proof (induction "work_left s" arbitrary: s rule: less_induct)
  case less
  show ?case
  proof (cases "sc_tasks s = []")
    case True
    then show ?thesis by (intro exI [of _ "[]"] exI [of _ s]) simp
  next
    case False
    from some_task_moves [OF scheduler_run_inv [OF less.prems] assms(2) False] obtain i s1 where
      step: "run_admitted i OutcomeSucceeded s = Some s1" by blast
    from less.hyps [of s1] run_admitted_work [OF step] scheduler_step [OF less.prems step] obtain es s' where
      "run_steps es s1 = Some s'" "sc_tasks s' = []" by auto
    with step show ?thesis by (intro exI [of _ "(i, OutcomeSucceeded) # es"] exI [of _ s']) simp
  qed
qed


definition sample_job :: node_job where
  "sample_job = \<lparr>nb_kind = ''cache_maintenance'', nb_scope = ''pypi'', nb_persist_as = Some CacheRefresh\<rparr>"

theorem scheduler_limits_witness:
  "length (sc_tasks (snd (submit sample_job (snd (submit sample_job (scheduler_new node_local)))))) \<le> 128"
proof -
  have "jl_queue node_local = 128" by (simp add: node_local_def)
  with scheduler_limits [OF scheduler_submit [where job = sample_job, OF scheduler_submit [where job = sample_job,
      OF scheduler_start [of node_local]]]]
  show ?thesis by simp
qed


section \<open>Fair timer\<close>

text \<open>Every schedule stays due exactly once, and after a fire the fired one is due later than the wake.\<close>

lemma timer_fire_fair:
  assumes "mset (map snd due) = mset [0..<length intervals]" "sorted due" "\<forall>i \<in> set intervals. 0 < i"
    and "timer_fire intervals woke due = Some (i, due')"
  shows "mset (map snd due') = mset [0..<length intervals] \<and> sorted due'
    \<and> (\<exists>at. (at, i) \<in> set due' \<and> woke < at)"
proof -
  from assms(4) obtain at rest where due: "due = (at, i) # rest"
    and due': "due' = insort (reschedule at (max at woke) (intervals ! i), i) rest"
    by (auto simp: timer_fire_def split: list.splits)
  have "i \<in> set (map snd due)" by (simp add: due)
  then have "i < length intervals" using mset_eq_setD [OF assms(1)] by auto
  then have "0 < intervals ! i" using assms(3) by simp
  then have "woke < reschedule at (max at woke) (intervals ! i)" by (auto simp: reschedule_def Let_def max_def)
  moreover have "mset (map snd due') = mset (map snd due)" by (simp add: due due')
  moreover have "sorted due'" using assms(2) unfolding due' by (simp add: due sorted_insort)
  ultimately show ?thesis using assms(1) by (auto simp: due' set_insort_key)
qed

end
