(* ===== verification/PathSafety.thy ===== *)
theory PathSafety
  imports Strs
begin

text \<open>
  Guarding URL paths, \<open>crates/peryx-core/src/path.rs\<close> and \<open>url_encoding.rs\<close>: percent encoding and
  decoding, index routes, filenames and path segments.  Strings are their UTF-8 bytes.
\<close>

section \<open>UTF-8\<close>

text \<open>\<open>String::from_utf8\<close> accepts exactly the well-formed sequences: no overlong form, no surrogate,
  nothing past U+10FFFF.\<close>

definition byte_in :: "nat \<Rightarrow> nat \<Rightarrow> char \<Rightarrow> bool" where
  "byte_in lo hi c \<longleftrightarrow> lo \<le> of_char c \<and> of_char c \<le> hi"

fun valid_utf8 :: "bytes \<Rightarrow> bool" where
  "valid_utf8 [] \<longleftrightarrow> True"
| "valid_utf8 (a # bs) \<longleftrightarrow>
     (if byte_in 0x00 0x7F a then valid_utf8 bs
      else if byte_in 0xC2 0xDF a then (case bs of b # r \<Rightarrow> byte_in 0x80 0xBF b \<and> valid_utf8 r | _ \<Rightarrow> False)
      else if byte_in 0xE0 0xEF a then
        (case bs of b # c # r \<Rightarrow>
           (if a = CHR 0xE0 then byte_in 0xA0 0xBF b else if a = CHR 0xED then byte_in 0x80 0x9F b else byte_in 0x80 0xBF b)
           \<and> byte_in 0x80 0xBF c \<and> valid_utf8 r
         | _ \<Rightarrow> False)
      else if byte_in 0xF0 0xF4 a then
        (case bs of b # c # d # r \<Rightarrow>
           (if a = CHR 0xF0 then byte_in 0x90 0xBF b else if a = CHR 0xF4 then byte_in 0x80 0x8F b else byte_in 0x80 0xBF b)
           \<and> byte_in 0x80 0xBF c \<and> byte_in 0x80 0xBF d \<and> valid_utf8 r
         | _ \<Rightarrow> False)
      else False)"

section \<open>Encoding\<close>

definition is_unreserved :: "char \<Rightarrow> bool" where
  "is_unreserved c \<longleftrightarrow> (CHR ''A'' \<le> c \<and> c \<le> CHR ''Z'') \<or> (CHR ''a'' \<le> c \<and> c \<le> CHR ''z'') \<or> is_digit c
     \<or> c \<in> {CHR ''-'', CHR ''.'', CHR ''_'', CHR ''~''}"

definition upper_hex :: "nat \<Rightarrow> char" where
  "upper_hex n = ''0123456789ABCDEF'' ! n"

definition push_percent :: "string \<Rightarrow> char \<Rightarrow> string" where
  "push_percent out b = out @ [CHR ''%'', upper_hex (of_char b div 16), upper_hex (of_char b mod 16)]"

definition push_component :: "string \<Rightarrow> string \<Rightarrow> string" where
  "push_component out s = foldl (\<lambda>out b. if is_unreserved b then out @ [b] else push_percent out b) out s"

definition push_path :: "string \<Rightarrow> string \<Rightarrow> string" where
  "push_path out s = foldl (\<lambda>out b. if b = CHR ''/'' then out @ ''/''
     else if is_unreserved b then out @ [b] else push_percent out b) out s"

definition local_file_url :: "string \<Rightarrow> string \<Rightarrow> string \<Rightarrow> string" where
  "local_file_url route sha256 filename =
     (let url = push_path ''/'' route @ ''/files/'' @ sha256 @ ''/'' in push_component url filename)"

definition is_local_file_url :: "string \<Rightarrow> string \<Rightarrow> bool" where
  "is_local_file_url route url = starts_with url (push_path ''/'' route @ ''/files/'')"

section \<open>Decoding\<close>

datatype path_safety_error =
    InvalidPathDigest string
  | InvalidFilename string
  | InvalidPathSegment string string
  | InvalidRoute string
  | ReservedRoute string
  | InvalidEncoding string

definition hex_nibble :: "char \<Rightarrow> nat option" where
  "hex_nibble c =
     (if CHR ''0'' \<le> c \<and> c \<le> CHR ''9'' then Some (of_char c - of_char CHR ''0'')
      else if CHR ''a'' \<le> c \<and> c \<le> CHR ''f'' then Some (of_char c - of_char CHR ''a'' + 10)
      else if CHR ''A'' \<le> c \<and> c \<le> CHR ''F'' then Some (of_char c - of_char CHR ''A'' + 10)
      else None)"

definition hex_byte :: "char \<Rightarrow> char \<Rightarrow> char option" where
  "hex_byte h l = Option.bind (hex_nibble h) (\<lambda>h. Option.bind (hex_nibble l) (\<lambda>l. Some (char_of (h * 16 + l))))"

fun decode_loop :: "bytes \<Rightarrow> bytes option" where
  "decode_loop [] = Some []"
| "decode_loop (b # bs) =
     (if b = CHR ''%'' then
        (case bs of
           h # l # rest \<Rightarrow> Option.bind (hex_byte h l) (\<lambda>c. map_option ((#) c) (decode_loop rest))
         | _ \<Rightarrow> None)
      else map_option ((#) b) (decode_loop bs))"

definition decode_percent :: "string \<Rightarrow> path_safety_error + string" where
  "decode_percent input =
     (if CHR ''%'' \<notin> set input then Inr input
      else case decode_loop input of
        None \<Rightarrow> Inl (InvalidEncoding input)
      | Some out \<Rightarrow> if valid_utf8 out then Inr out else Inl (InvalidEncoding input))"

definition decode_path_segment :: "string \<Rightarrow> path_safety_error + string" where
  "decode_path_segment segment = decode_percent segment"

definition decode_path :: "string \<Rightarrow> path_safety_error + string" where
  "decode_path path = decode_percent path"

section \<open>Validation\<close>

definition RESERVED_ROUTE_PREFIXES :: "string list" where
  "RESERVED_ROUTE_PREFIXES =
     [''+stats'', ''+status'', ''admin'', ''api-docs'', ''browse'', ''metrics'', ''pkg'', ''stats'']"

definition valid_route_segment :: "string \<Rightarrow> bool" where
  "valid_route_segment s \<longleftrightarrow> s \<noteq> [] \<and> s \<noteq> ''.'' \<and> s \<noteq> ''..'' \<and> list_all is_unreserved s"

fun has_double_slash :: "string \<Rightarrow> bool" where
  "has_double_slash (a # b # s) \<longleftrightarrow> a = CHR ''/'' \<and> b = CHR ''/'' \<or> has_double_slash (b # s)"
| "has_double_slash _ \<longleftrightarrow> False"

definition validate_route :: "string \<Rightarrow> path_safety_error + unit" where
  "validate_route route =
     (if route = [] \<or> hd route = CHR ''/'' \<or> last route = CHR ''/'' \<or> has_double_slash route
      then Inl (InvalidRoute route)
      else
        let (first, rest) = (case split_once CHR ''/'' route of None \<Rightarrow> (route, None) | Some (f, r) \<Rightarrow> (f, Some r)) in
        if first \<in> set RESERVED_ROUTE_PREFIXES then Inl (ReservedRoute route)
        else if \<not> valid_route_segment first
          \<or> is_some_and rest (\<lambda>r. list_ex (\<lambda>s. \<not> valid_route_segment s) (split_on CHR ''/'' r))
        then Inl (InvalidRoute route)
        else Inr ())"

text \<open>\<open>char::is_control\<close>: the code points up to U+001F and from U+007F to U+009F, the latter two bytes in UTF-8.\<close>

fun has_control :: "string \<Rightarrow> bool" where
  "has_control [] \<longleftrightarrow> False"
| "has_control (c # s) \<longleftrightarrow> of_char c < (0x20 :: nat) \<or> c = CHR 0x7F
     \<or> c = CHR 0xC2 \<and> (case s of d # _ \<Rightarrow> byte_in 0x80 0x9F d | [] \<Rightarrow> False) \<or> has_control s"

definition unsafe_segment :: "string \<Rightarrow> bool" where
  "unsafe_segment s \<longleftrightarrow> s = [] \<or> s = ''.'' \<or> s = ''..'' \<or> CHR ''/'' \<in> set s \<or> CHR 0x5C \<in> set s \<or> has_control s"

definition validate_filename :: "string \<Rightarrow> path_safety_error + unit" where
  "validate_filename filename = (if unsafe_segment filename then Inl (InvalidFilename filename) else Inr ())"

definition validate_path_segment :: "string \<Rightarrow> string \<Rightarrow> path_safety_error + unit" where
  "validate_path_segment kind v = (if unsafe_segment v then Inl (InvalidPathSegment kind v) else Inr ())"

section \<open>Round trip\<close>

lemma unreserved_not_percent: "is_unreserved c \<Longrightarrow> c \<noteq> CHR ''%'' \<and> c \<noteq> CHR ''/''"
  by (auto simp: is_unreserved_def is_digit_def less_eq_char_def)

lemma nibble_upper: "n < 16 \<Longrightarrow> hex_nibble (upper_hex n) = Some n \<and> upper_hex n \<noteq> CHR ''/'' \<and> upper_hex n \<noteq> CHR ''%''"
proof -
  have "list_all (\<lambda>n. hex_nibble (upper_hex n) = Some n \<and> upper_hex n \<noteq> CHR ''/'' \<and> upper_hex n \<noteq> CHR ''%'') [0..<16]"
    by code_simp
  then show "n < 16 \<Longrightarrow> ?thesis" by (simp add: list_all_iff)
qed

lemma hex_byte_upper: "hex_byte (upper_hex (of_char b div 16)) (upper_hex (of_char b mod 16)) = Some b"
proof -
  have "of_char b < (256 :: nat)" by simp
  then have "of_char b div 16 < (16 :: nat)" "of_char b mod 16 < (16 :: nat)" by (simp_all add: less_mult_imp_div_less)
  then show ?thesis by (simp add: hex_byte_def nibble_upper)
qed

definition encode_byte :: "(char \<Rightarrow> bool) \<Rightarrow> char \<Rightarrow> string" where
  "encode_byte plain b = (if plain b then [b] else [CHR ''%'', upper_hex (of_char b div 16), upper_hex (of_char b mod 16)])"

lemma push_component_eq: "push_component out s = out @ concat (map (encode_byte is_unreserved) s)"
  by (induction s arbitrary: out) (auto simp: push_component_def encode_byte_def push_percent_def)

lemma push_path_eq: "push_path out s = out @ concat (map (encode_byte (\<lambda>b. b = CHR ''/'' \<or> is_unreserved b)) s)"
  by (induction s arbitrary: out) (auto simp: push_path_def encode_byte_def push_percent_def)

lemma decode_encode:
  assumes "\<And>b. plain b \<Longrightarrow> b \<noteq> CHR ''%''"
  shows "decode_loop (concat (map (encode_byte plain) s)) = Some s"
  using assms by (induction s) (auto simp: encode_byte_def hex_byte_upper)

lemma encoded_plain: "CHR ''%'' \<notin> set (concat (map (encode_byte plain) s)) \<Longrightarrow> concat (map (encode_byte plain) s) = s"
  by (induction s) (auto simp: encode_byte_def split: if_splits)

lemma decode_percent_encode:
  assumes "\<And>b. plain b \<Longrightarrow> b \<noteq> CHR ''%''" "valid_utf8 s"
  shows "decode_percent (concat (map (encode_byte plain) s)) = Inr s"
  using decode_encode [where plain = plain and s = s, OF assms(1)] assms(2) encoded_plain [of plain s] by (auto simp: decode_percent_def)

section \<open>Properties\<close>

text \<open>Percent encoding round trips: for every text a decoder gives back what was encoded as one component or as a
  path; an encoded component holds no separator and cannot climb out of its segment, so the file of
  a local file URL is the last segment and decodes to the filename, and the URL is recognised as
  local to its route.\<close>

theorem percent_roundtrip:
  assumes "valid_utf8 s"
  shows "decode_path_segment (push_component [] s) = Inr s \<and> decode_path (push_path [] s) = Inr s
    \<and> CHR ''/'' \<notin> set (push_component [] s)
    \<and> is_local_file_url route (local_file_url route sha256 s)
    \<and> (\<exists>pre. local_file_url route sha256 s = pre @ ''/'' @ push_component [] s)"
proof -
  have "decode_percent (push_component [] s) = Inr s" unfolding push_component_eq
    using decode_percent_encode [of is_unreserved s] unreserved_not_percent assms by simp
  moreover have "decode_percent (push_path [] s) = Inr s" unfolding push_path_eq
    using decode_percent_encode [of "\<lambda>b. b = CHR ''/'' \<or> is_unreserved b" s] unreserved_not_percent assms by auto
  moreover have "CHR ''/'' \<notin> set (push_component [] s)"
  proof -
    have "CHR ''/'' \<notin> set (encode_byte is_unreserved b)" for b
    proof -
      have "of_char b < (256 :: nat)" by simp
      then have "of_char b div 16 < (16 :: nat)" "of_char b mod 16 < (16 :: nat)" by (simp_all add: less_mult_imp_div_less)
      from nibble_upper [OF this(1)] nibble_upper [OF this(2)] unreserved_not_percent [of b] show ?thesis
        by (cases "is_unreserved b") (simp_all add: encode_byte_def eq_commute)
    qed
    then show ?thesis by (simp add: push_component_eq)
  qed
  moreover have "local_file_url route sha256 s = (push_path ''/'' route @ ''/files/'' @ sha256) @ ''/'' @ push_component [] s"
    by (simp add: local_file_url_def push_component_eq)
  ultimately show ?thesis
    by (simp add: decode_path_segment_def decode_path_def is_local_file_url_def local_file_url_def push_component_eq starts_with_iff)
qed

theorem percent_roundtrip_witness:
  "decode_path_segment (push_component [] ''pkg 1.0#x?.whl'') = Inr ''pkg 1.0#x?.whl''"
proof -
  have "valid_utf8 ''pkg 1.0#x?.whl''" by code_simp
  from percent_roundtrip [OF this] show ?thesis by blast
qed

text \<open>A route that validation accepts names no reserved prefix, consists of plain segments none of which climbs,
  and is its own encoding.\<close>

lemma split_on_member:
  assumes "b \<in> set s"
  shows "b = c \<or> (\<exists>p\<in>set (split_on c s). b \<in> set p)"
  using assms
proof (induction s)
  case (Cons x s)
  then show ?case by (cases "split_on c s") auto
qed simp

lemma accepted_route:
  assumes "validate_route route = Inr ()"
  shows "list_all valid_route_segment (split_on CHR ''/'' route) \<and> hd (split_on CHR ''/'' route) \<notin> set RESERVED_ROUTE_PREFIXES
    \<and> push_path [] route = route"
proof -
  have segs: "list_all valid_route_segment (split_on CHR ''/'' route) \<and> hd (split_on CHR ''/'' route) \<notin> set RESERVED_ROUTE_PREFIXES"
  proof (cases "split_once CHR ''/'' route")
    case None
    then have "CHR ''/'' \<notin> set route" by (induction route) (auto split: if_splits option.splits)
    then have "split_on CHR ''/'' route = [route]" by (induction route) auto
    with None assms show ?thesis by (auto simp: validate_route_def Let_def split: if_splits)
  next
    case (Some fr)
    obtain f r where fr: "fr = (f, r)" by (cases fr)
    with Some have route: "route = f @ CHR ''/'' # r" "CHR ''/'' \<notin> set f" using split_once_Some by blast+
    have "split_on CHR ''/'' (f @ CHR ''/'' # r) = f # split_on CHR ''/'' r" using route(2) by (induction f) auto
    with Some fr route assms show ?thesis by (auto simp: validate_route_def Let_def list_all_iff list_ex_iff split: if_splits)
  qed
  have "b = CHR ''/'' \<or> is_unreserved b" if "b \<in> set route" for b
  proof -
    have "b = CHR ''/'' \<or> (\<exists>p\<in>set (split_on CHR ''/'' route). b \<in> set p)" using that by (rule split_on_member)
    with segs show ?thesis by (auto simp: list_all_iff valid_route_segment_def)
  qed
  then have "map (encode_byte (\<lambda>b. b = CHR ''/'' \<or> is_unreserved b)) route = map (\<lambda>b. [b]) route"
    by (simp add: encode_byte_def)
  with segs show ?thesis by (simp only: push_path_eq) simp
qed

end
