(* ===== verification/Upstream.thy ===== *)
theory Upstream
  imports HttpSemantics PolicyEngine
begin

text \<open>
  The upstream HTTP client, \<open>crates/peryx-upstream/src/client\<close>, and the ordered route over several
  upstreams, \<open>route.rs\<close>.  What the sources take from \<open>reqwest\<close> and \<open>url\<close> is the record
  \<open>http_lib\<close>: parsing and joining URLs, the answer to the \<open>n\<close>-th request of the run, and
  \<open>error_for_status\<close>.  The requests sent are logged in order, so that what leaves the process is
  visible: the credentials attached and the connection's client identity.
\<close>

section \<open>What the client sees of the libraries\<close>

datatype host = Domain string | Ipv4 string | Ipv6 string

text \<open>\<open>u_given_port\<close> is \<open>port()\<close>, the port written in the URL, \<open>u_port\<close> is \<open>port_or_known_default()\<close>.\<close>

record url =
  u_scheme :: string
  u_host :: "host option"
  u_port :: "nat option"
  u_given_port :: "nat option"
  u_origin :: string
  u_path :: string
  u_str :: string

record http_error =
  he_status :: "nat option"
  he_timeout :: bool
  he_connect :: bool
  he_body :: bool
  he_decode :: bool

record response =
  rs_status :: nat
  rs_content_length :: "nat option"
  rs_headers :: "string \<Rightarrow> string option"
  rs_chunks :: "(http_error + bytes) list"

datatype auth = NoAuth | Basic string string | Bearer string

datatype auth_status = AuthNone | AuthBasic | AuthBearer

record http_client =
  hc_roots :: bool
  hc_identity :: bool
  hc_same_origin_redirects :: bool
  hc_http1 :: bool

record request =
  rq_client :: http_client
  rq_method :: string
  rq_url :: url
  rq_auth :: auth
  rq_headers :: "(string \<times> string) list"

record http_lib =
  lib_parse :: "string \<Rightarrow> string + url"
  lib_join :: "url \<Rightarrow> string \<Rightarrow> string + url"
  lib_set_path :: "url \<Rightarrow> string \<Rightarrow> url"
  lib_send :: "nat \<Rightarrow> request \<Rightarrow> http_error + response"
  lib_error_for_status :: "response \<Rightarrow> http_error + response"

datatype upstream_error =
    UrlError string
  | HttpError http_error
  | MissingContentType url
  | UnsupportedContentType url string
  | ResponseTooLarge nat

datatype range_error = RangeUpstream upstream_error | RangeUnsupported | RangeInvalid string

definition disables_ranges :: "range_error \<Rightarrow> bool" where
  "disables_ranges e = (case e of RangeUpstream _ \<Rightarrow> False | _ \<Rightarrow> True)"

definition upstream_error_status :: "upstream_error \<Rightarrow> nat option" where
  "upstream_error_status e = (case e of HttpError err \<Rightarrow> he_status err | _ \<Rightarrow> None)"

definition auth_status_as_str :: "auth_status \<Rightarrow> string" where
  "auth_status_as_str s = (case s of AuthNone \<Rightarrow> ''none'' | AuthBasic \<Rightarrow> ''basic'' | AuthBearer \<Rightarrow> ''bearer'')"

datatype reachability = Unknown | Reachable | Unreachable

definition reachability_as_str :: "reachability \<Rightarrow> string" where
  "reachability_as_str r = (case r of Unknown \<Rightarrow> ''unknown'' | Reachable \<Rightarrow> ''reachable'' | Unreachable \<Rightarrow> ''unreachable'')"

section \<open>Building a client\<close>

record upstream_tls =
  tls_roots :: "string list"
  tls_identity :: "string option"

definition RANGE_UNKNOWN :: nat where "RANGE_UNKNOWN = 0"
definition RANGE_SUPPORTED :: nat where "RANGE_SUPPORTED = 1"
definition RANGE_UNSUPPORTED :: nat where "RANGE_UNSUPPORTED = 2"
definition REACHABILITY_UNKNOWN :: nat where "REACHABILITY_UNKNOWN = 0"
definition REACHABILITY_REACHABLE :: nat where "REACHABILITY_REACHABLE = 1"
definition REACHABILITY_UNREACHABLE :: nat where "REACHABILITY_UNREACHABLE = 2"

record upstream_client =
  uc_http :: http_client
  uc_bulk :: http_client
  uc_cross_origin_http :: http_client
  uc_cross_origin_bulk :: http_client
  uc_base :: url
  uc_auth :: auth
  uc_range_support :: nat
  uc_reachability :: nat

definition same_origin :: "url \<Rightarrow> url \<Rightarrow> bool" where
  "same_origin left right \<longleftrightarrow> u_scheme left = u_scheme right \<and> u_host left = u_host right \<and> u_port left = u_port right"

definition has_identity :: "upstream_tls \<Rightarrow> bool" where
  "has_identity tls \<longleftrightarrow> tls_identity tls \<noteq> None"

text \<open>\<open>apply\<close> and \<open>identity_redirect_policy\<close>, as the client that the builder yields.\<close>

definition tls_apply :: "upstream_tls \<Rightarrow> bool \<Rightarrow> http_client" where
  "tls_apply tls include_identity = \<lparr>hc_roots = tls_roots tls \<noteq> [], hc_identity = include_identity \<and> has_identity tls,
     hc_same_origin_redirects = False, hc_http1 = False\<rparr>"

definition identity_redirect_policy :: "upstream_tls \<Rightarrow> bool \<Rightarrow> bool" where
  "identity_redirect_policy tls include_identity \<longleftrightarrow> \<not> (\<not> include_identity \<or> \<not> has_identity tls)"

definition with_auth_and_tls_for_origin ::
    "http_lib \<Rightarrow> string \<Rightarrow> auth \<Rightarrow> upstream_tls \<Rightarrow> string \<Rightarrow> upstream_error + upstream_client" where
  "with_auth_and_tls_for_origin lib base auth tls identity_origin =
     rbind (map_err UrlError (lib_parse lib base)) (\<lambda>base.
     rbind (map_err UrlError (lib_parse lib identity_origin)) (\<lambda>origin.
       let include_identity = same_origin base origin;
           base = (if ends_with (u_path base) ''/'' then base else lib_set_path lib base (u_path base @ ''/''));
           http = (tls_apply tls include_identity)\<lparr>hc_same_origin_redirects := identity_redirect_policy tls include_identity\<rparr>;
           bulk = http\<lparr>hc_http1 := True\<rparr>;
           (cross_http, cross_bulk) =
             (if include_identity \<and> has_identity tls then (tls_apply tls False, (tls_apply tls False)\<lparr>hc_http1 := True\<rparr>)
              else (http, bulk))
       in Inr \<lparr>uc_http = http, uc_bulk = bulk, uc_cross_origin_http = cross_http, uc_cross_origin_bulk = cross_bulk,
                uc_base = base, uc_auth = auth, uc_range_support = RANGE_UNKNOWN, uc_reachability = REACHABILITY_UNKNOWN\<rparr>))"

definition with_auth_and_tls :: "http_lib \<Rightarrow> string \<Rightarrow> auth \<Rightarrow> upstream_tls \<Rightarrow> upstream_error + upstream_client" where
  "with_auth_and_tls lib base auth tls = with_auth_and_tls_for_origin lib base auth tls base"

definition with_auth :: "http_lib \<Rightarrow> string \<Rightarrow> auth \<Rightarrow> upstream_error + upstream_client" where
  "with_auth lib base auth = with_auth_and_tls lib base auth \<lparr>tls_roots = [], tls_identity = None\<rparr>"

definition client_new :: "http_lib \<Rightarrow> string \<Rightarrow> upstream_error + upstream_client" where
  "client_new lib base = with_auth lib base NoAuth"

definition auth_status_of :: "upstream_client \<Rightarrow> auth_status" where
  "auth_status_of c = (case uc_auth c of NoAuth \<Rightarrow> AuthNone | Basic _ _ \<Rightarrow> AuthBasic | Bearer _ \<Rightarrow> AuthBearer)"

definition reachability_of :: "upstream_client \<Rightarrow> reachability" where
  "reachability_of c =
     (if uc_reachability c = REACHABILITY_REACHABLE then Reachable
      else if uc_reachability c = REACHABILITY_UNREACHABLE then Unreachable else Unknown)"

section \<open>Netrc credentials\<close>

record netrc_entry =
  ne_login :: string
  ne_password :: string

definition host_text :: "host \<Rightarrow> string" where
  "host_text h = (case h of Ipv6 address \<Rightarrow> ''['' @ address @ '']'' | Domain d \<Rightarrow> d | Ipv4 address \<Rightarrow> address)"

definition strip_suffix_char :: "char \<Rightarrow> string \<Rightarrow> string option" where
  "strip_suffix_char c s = (if s \<noteq> [] \<and> last s = c then Some (butlast s) else None)"

definition netrc_candidates :: "url \<Rightarrow> host \<Rightarrow> string list" where
  "netrc_candidates url h =
     (let host = host_text h
      in (case u_port url of None \<Rightarrow> [] | Some port \<Rightarrow> [u_scheme url @ ''://'' @ host @ '':'' @ show_nat port])
         @ [u_origin url]
         @ (case u_port url of None \<Rightarrow> [] | Some port \<Rightarrow> [host @ '':'' @ show_nat port])
         @ (if u_port url \<noteq> None \<and> u_given_port url = None then
              host # (case Option.bind (strip_prefix ''['' host) (strip_suffix_char CHR '']'') of None \<Rightarrow> [] | Some unbracketed \<Rightarrow> [unbracketed])
            else [])
         @ [''default''])"

definition auth_for :: "(string \<Rightarrow> netrc_entry option) \<Rightarrow> url \<Rightarrow> auth" where
  "auth_for hosts url =
     (case u_host url of
        None \<Rightarrow> NoAuth
      | Some h \<Rightarrow>
          (case find_map hosts (netrc_candidates url h) of
             None \<Rightarrow> NoAuth
           | Some entry \<Rightarrow>
               if ne_login entry \<noteq> [] \<or> ne_password entry \<noteq> [] then Basic (ne_login entry) (ne_password entry) else NoAuth))"

definition auth_for_str :: "http_lib \<Rightarrow> (string \<Rightarrow> netrc_entry option) \<Rightarrow> string \<Rightarrow> string + auth" where
  "auth_for_str lib hosts s = rbind (lib_parse lib s) (\<lambda>url. Inr (auth_for hosts url))"

datatype netrc_error = NetrcRead | NotRegular | WrongOwner | UnsafePermissions | NetrcParse

record file_metadata =
  fm_is_file :: bool
  fm_uid :: nat
  fm_mode :: nat

definition check_permissions :: "nat \<Rightarrow> file_metadata \<Rightarrow> netrc_error + unit" where
  "check_permissions euid metadata =
     (if fm_uid metadata \<noteq> euid then Inl WrongOwner
      else if fm_mode metadata mod 64 \<noteq> 0 then Inl UnsafePermissions
      else Inr ())"

text \<open>The file is what opening it yields; \<open>parse\<close> is the netrc grammar of the third-party parser.\<close>

definition netrc_from_path ::
    "(string \<Rightarrow> (string \<Rightarrow> netrc_entry option) option) \<Rightarrow> nat \<Rightarrow> (file_metadata \<times> string option) option
      \<Rightarrow> netrc_error + (string \<Rightarrow> netrc_entry option)" where
  "netrc_from_path parse euid file =
     (case file of
        None \<Rightarrow> Inl NetrcRead
      | Some (metadata, contents) \<Rightarrow>
          if \<not> fm_is_file metadata then Inl NotRegular
          else rbind (check_permissions euid metadata) (\<lambda>_.
            rbind (ok_or NetrcRead contents) (\<lambda>contents. ok_or NetrcParse (parse contents))))"

text \<open>Credentials for the origin itself win over every less specific entry, even when they are empty.\<close>

lemma netrc_origin_first:
  assumes "u_host url = Some h" "u_port url = Some port"
    and "hosts (u_scheme url @ ''://'' @ host_text h @ '':'' @ show_nat port) = Some entry"
  shows "auth_for hosts url = (if ne_login entry = [] \<and> ne_password entry = [] then NoAuth else Basic (ne_login entry) (ne_password entry))"
  using assms by (simp add: auth_for_def netrc_candidates_def Let_def)

lemma netrc_private:
  assumes "netrc_from_path parse euid (Some (metadata, contents)) = Inr hosts"
  shows "fm_is_file metadata \<and> fm_uid metadata = euid \<and> fm_mode metadata mod 64 = 0"
  using assms by (auto simp: netrc_from_path_def check_permissions_def split: if_splits)

section \<open>Requests\<close>

definition attach_auth :: "upstream_client \<Rightarrow> request \<Rightarrow> url \<Rightarrow> request" where
  "attach_auth c r url =
     (case uc_auth c of
        NoAuth \<Rightarrow> r
      | a \<Rightarrow> if \<not> same_origin (uc_base c) url then r else r\<lparr>rq_auth := a\<rparr>)"

definition http_for :: "upstream_client \<Rightarrow> url \<Rightarrow> http_client" where
  "http_for c url = (if same_origin (uc_base c) url then uc_http c else uc_cross_origin_http c)"

definition bulk_for :: "upstream_client \<Rightarrow> url \<Rightarrow> http_client" where
  "bulk_for c url = (if same_origin (uc_base c) url then uc_bulk c else uc_cross_origin_bulk c)"

definition plain_request :: "http_client \<Rightarrow> string \<Rightarrow> url \<Rightarrow> request" where
  "plain_request hc m url = \<lparr>rq_client = hc, rq_method = m, rq_url = url, rq_auth = NoAuth, rq_headers = []\<rparr>"

definition add_header :: "string \<Rightarrow> string \<Rightarrow> request \<Rightarrow> request" where
  "add_header name v r = r\<lparr>rq_headers := rq_headers r @ [(name, v)]\<rparr>"

definition bulk_get :: "upstream_client \<Rightarrow> url \<Rightarrow> request" where
  "bulk_get c url =
     attach_auth c (add_header ''accept-encoding'' ''identity'' (plain_request (bulk_for c url) ''GET'' url)) url"

text \<open>A run: the client's cells and the requests already sent.\<close>

record wire =
  wi_client :: upstream_client
  wi_sent :: "request list"

definition send :: "http_lib \<Rightarrow> wire \<Rightarrow> request \<Rightarrow> wire \<times> (http_error + response)" where
  "send lib w r = (w\<lparr>wi_sent := wi_sent w @ [r]\<rparr>, lib_send lib (length (wi_sent w)) r)"

definition set_reachability :: "nat \<Rightarrow> wire \<Rightarrow> wire" where
  "set_reachability v w = w\<lparr>wi_client := (wi_client w)\<lparr>uc_reachability := v\<rparr>\<rparr>"

definition set_range_support :: "nat \<Rightarrow> wire \<Rightarrow> wire" where
  "set_range_support v w = w\<lparr>wi_client := (wi_client w)\<lparr>uc_range_support := v\<rparr>\<rparr>"

definition warm :: "http_lib \<Rightarrow> wire \<Rightarrow> wire" where
  "warm lib w =
     (let c = wi_client w;
          (w', res) = send lib w (attach_auth c (plain_request (uc_http c) ''HEAD'' (uc_base c)) (uc_base c))
      in set_reachability (if is_ok res then REACHABILITY_REACHABLE else REACHABILITY_UNREACHABLE) w')"

section \<open>Retrying\<close>

definition MAX_RETRIES :: nat where "MAX_RETRIES = 2"
definition RETRY_BASE_MILLIS :: nat where "RETRY_BASE_MILLIS = 100"
definition RETRY_CAP_MILLIS :: nat where "RETRY_CAP_MILLIS = 2000"

definition should_retry_status :: "nat \<Rightarrow> bool" where
  "should_retry_status s \<longleftrightarrow> (500 \<le> s \<and> s < 600) \<or> s = 408 \<or> s = 429"

definition should_retry_error :: "http_error \<Rightarrow> bool" where
  "should_retry_error e \<longleftrightarrow> he_timeout e \<or> he_connect e \<or> he_body e \<or> he_decode e"

definition jitter :: "nat option \<Rightarrow> nat \<Rightarrow> nat" where
  "jitter subsec_nanos modulus = (case subsec_nanos of None \<Rightarrow> 0 | Some n \<Rightarrow> n mod modulus)"

definition retry_delay :: "nat option \<Rightarrow> nat \<Rightarrow> nat" where
  "retry_delay subsec_nanos attempt =
     (let cap = min RETRY_CAP_MILLIS (min u64_max (RETRY_BASE_MILLIS * 2 ^ min attempt 20));
          floor = cap div 2
      in floor + jitter subsec_nanos (cap - floor + 1))"

lemma jitter_less: "0 < m \<Longrightarrow> jitter n m < m"
  by (simp add: jitter_def split: option.split)

lemma retry_delay_bounds:
  "50 \<le> retry_delay n attempt \<and> retry_delay n attempt \<le> 2000 \<and> retry_delay n attempt \<le> 100 * 2 ^ min attempt 20"
proof -
  let ?cap = "min 2000 (100 * 2 ^ min attempt 20) :: nat"
  have cap: "min RETRY_CAP_MILLIS (min u64_max (RETRY_BASE_MILLIS * 2 ^ min attempt 20)) = ?cap"
    by (simp add: RETRY_CAP_MILLIS_def RETRY_BASE_MILLIS_def u64_max_def min_def)
  have "(1::nat) \<le> 2 ^ min attempt 20" by simp
  then have "100 \<le> ?cap" by simp
  moreover have "retry_delay n attempt = ?cap div 2 + jitter n (?cap - ?cap div 2 + 1)"
    by (simp only: retry_delay_def cap Let_def)
  moreover have "jitter n (?cap - ?cap div 2 + 1) \<le> ?cap - ?cap div 2"
    using jitter_less [of "?cap - ?cap div 2 + 1" n] by simp
  ultimately show ?thesis by linarith
qed

function send_with_retry_from :: "http_lib \<Rightarrow> nat \<Rightarrow> wire \<Rightarrow> request \<Rightarrow> wire \<times> (upstream_error + response)" where
  "send_with_retry_from lib attempt w r =
     (case send lib w r of
        (w', Inr resp) \<Rightarrow>
          if should_retry_status (rs_status resp) \<and> attempt < MAX_RETRIES then send_with_retry_from lib (attempt + 1) w' r
          else (set_reachability REACHABILITY_REACHABLE w', Inr resp)
      | (w', Inl err) \<Rightarrow>
          if should_retry_error err \<and> attempt < MAX_RETRIES then send_with_retry_from lib (attempt + 1) w' r
          else (set_reachability REACHABILITY_UNREACHABLE w', Inl (HttpError err)))"
  by pat_completeness auto
termination by (relation "measure (\<lambda>(_, attempt, _, _). MAX_RETRIES - attempt)") auto

definition send_with_retry :: "http_lib \<Rightarrow> wire \<Rightarrow> request \<Rightarrow> wire \<times> (upstream_error + response)" where
  "send_with_retry lib w r = send_with_retry_from lib 0 w r"

declare send_with_retry_from.simps [simp del]

section \<open>Fetching artifacts\<close>

text \<open>
  \<open>response.bytes()\<close> collects the chunks of the body up to its first error.  Both loops retry a broken
  body at most \<open>MAX_RETRIES\<close> times, each time with a request that has its own retries.
\<close>

fun body_bytes :: "(http_error + bytes) list \<Rightarrow> http_error + bytes" where
  "body_bytes [] = Inr []"
| "body_bytes (Inl e # _) = Inl e"
| "body_bytes (Inr b # cs) = (case body_bytes cs of Inl e \<Rightarrow> Inl e | Inr bs \<Rightarrow> Inr (b @ bs))"

definition open_bulk :: "http_lib \<Rightarrow> wire \<Rightarrow> url \<Rightarrow> wire \<times> (upstream_error + response)" where
  "open_bulk lib w url =
     (let (w', res) = send_with_retry lib w (bulk_get (wi_client w) url)
      in (w', rbind res (\<lambda>resp. map_err HttpError (lib_error_for_status lib resp))))"

definition stream_bytes :: "http_lib \<Rightarrow> wire \<Rightarrow> string \<Rightarrow> wire \<times> (upstream_error + (http_error + bytes) list)" where
  "stream_bytes lib w url_str =
     (case lib_parse lib url_str of
        Inl e \<Rightarrow> (w, Inl (UrlError e))
      | Inr url \<Rightarrow> (let (w', res) = open_bulk lib w url in (w', rbind res (\<lambda>resp. Inr (rs_chunks resp)))))"

function fetch_bytes_from :: "http_lib \<Rightarrow> nat \<Rightarrow> wire \<Rightarrow> url \<Rightarrow> wire \<times> (upstream_error + bytes)" where
  "fetch_bytes_from lib attempt w url =
     (case open_bulk lib w url of
        (w', Inl e) \<Rightarrow> (w', Inl e)
      | (w', Inr resp) \<Rightarrow>
          (case body_bytes (rs_chunks resp) of
             Inr bytes \<Rightarrow> (w', Inr bytes)
           | Inl err \<Rightarrow>
               if should_retry_error err \<and> attempt < MAX_RETRIES then fetch_bytes_from lib (attempt + 1) w' url
               else (w', Inl (HttpError err))))"
  by pat_completeness auto
termination by (relation "measure (\<lambda>(_, attempt, _, _). MAX_RETRIES - attempt)") auto

definition fetch_bytes :: "http_lib \<Rightarrow> wire \<Rightarrow> string \<Rightarrow> wire \<times> (upstream_error + bytes)" where
  "fetch_bytes lib w url_str =
     (case lib_parse lib url_str of Inl e \<Rightarrow> (w, Inl (UrlError e)) | Inr url \<Rightarrow> fetch_bytes_from lib 0 w url)"

text \<open>
  The bounded read: the inner loop over the chunks, whose subtraction \<open>limit - bytes.len()\<close> panics on
  underflow, then the retry loop.  \<open>None\<close> is the panic.
\<close>

datatype limited_read = Done bytes | TooLarge | BodyError http_error

fun read_limited :: "nat \<Rightarrow> bytes \<Rightarrow> (http_error + bytes) list \<Rightarrow> limited_read option" where
  "read_limited limit acc [] = Some (Done acc)"
| "read_limited limit acc (Inl e # _) = Some (BodyError e)"
| "read_limited limit acc (Inr chunk # cs) =
     (case checked_sub_u64 limit (length acc) of
        None \<Rightarrow> None
      | Some room \<Rightarrow> if length chunk > room then Some TooLarge else read_limited limit (acc @ chunk) cs)"

function fetch_limited_from ::
    "http_lib \<Rightarrow> nat \<Rightarrow> nat \<Rightarrow> wire \<Rightarrow> url \<Rightarrow> (wire \<times> (upstream_error + bytes)) option" where
  "fetch_limited_from lib limit attempt w url =
     (case open_bulk lib w url of
        (w', Inl e) \<Rightarrow> Some (w', Inl e)
      | (w', Inr resp) \<Rightarrow>
          if is_some_and (rs_content_length resp) (\<lambda>n. n > limit) then Some (w', Inl (ResponseTooLarge limit))
          else (case read_limited limit [] (rs_chunks resp) of
             None \<Rightarrow> None
           | Some (Done bytes) \<Rightarrow> Some (w', Inr bytes)
           | Some TooLarge \<Rightarrow> Some (w', Inl (ResponseTooLarge limit))
           | Some (BodyError err) \<Rightarrow>
               if should_retry_error err \<and> attempt < MAX_RETRIES then fetch_limited_from lib limit (attempt + 1) w' url
               else Some (w', Inl (HttpError err))))"
  by pat_completeness auto
termination by (relation "measure (\<lambda>(_, _, attempt, _, _). MAX_RETRIES - attempt)") auto

declare fetch_bytes_from.simps [simp del] fetch_limited_from.simps [simp del]

definition fetch_bytes_limited :: "http_lib \<Rightarrow> nat \<Rightarrow> wire \<Rightarrow> string \<Rightarrow> (wire \<times> (upstream_error + bytes)) option" where
  "fetch_bytes_limited lib limit w url_str =
     (case lib_parse lib url_str of
        Inl e \<Rightarrow> Some (w, Inl (UrlError e))
      | Inr url \<Rightarrow> fetch_limited_from lib limit 0 w url)"

section \<open>Range reads\<close>

definition may_support_ranges :: "upstream_client \<Rightarrow> bool" where
  "may_support_ranges c \<longleftrightarrow> uc_range_support c \<noteq> RANGE_UNSUPPORTED"

definition disable_ranges :: "wire \<Rightarrow> wire" where
  "disable_ranges = set_range_support RANGE_UNSUPPORTED"

definition head_status_disables_ranges :: "nat \<Rightarrow> bool" where
  "head_status_disables_ranges s \<longleftrightarrow> s \<in> {400, 403, 404, 405, 501}"

definition head_file_for_range :: "http_lib \<Rightarrow> wire \<Rightarrow> string \<Rightarrow> wire \<times> (range_error + nat)" where
  "head_file_for_range lib w url_str =
     (case lib_parse lib url_str of
        Inl e \<Rightarrow> (w, Inl (RangeUpstream (UrlError e)))
      | Inr url \<Rightarrow>
          (let c = wi_client w;
               (w, res) = send lib w (add_header ''accept-encoding'' ''identity''
                 (attach_auth c (plain_request (http_for c url) ''HEAD'' url) url))
           in case res of
                Inl e \<Rightarrow> (w, Inl (RangeUpstream (HttpError e)))
              | Inr resp \<Rightarrow>
                  if head_status_disables_ranges (rs_status resp) then (disable_ranges w, Inl RangeUnsupported)
                  else (case lib_error_for_status lib resp of
                     Inl e \<Rightarrow> (w, Inl (RangeUpstream (HttpError e)))
                   | Inr resp \<Rightarrow>
                       if \<not> is_some_and (rs_headers resp ''accept-ranges'')
                            (\<lambda>v. list_ex (\<lambda>part. eq_ignore_ascii_case (trim part) ''bytes'') (split_on CHR '','' v))
                       then (disable_ranges w, Inl RangeUnsupported)
                       else (case Option.bind (rs_headers resp ''content-length'') parse_u64 of
                          None \<Rightarrow> (disable_ranges w, Inl RangeUnsupported)
                        | Some len \<Rightarrow> (set_range_support RANGE_SUPPORTED w, Inr len)))))"

definition validate_content_range :: "(string \<Rightarrow> string option) \<Rightarrow> nat \<Rightarrow> nat \<Rightarrow> range_error + unit" where
  "validate_content_range headers start stop =
     (case headers ''content-range'' of
        None \<Rightarrow> Inl (RangeInvalid ''missing Content-Range'')
      | Some v \<Rightarrow>
          (case strip_prefix ''bytes '' v of
             None \<Rightarrow> Inl (RangeInvalid (''unexpected Content-Range '' @ debug_str v))
           | Some rest \<Rightarrow>
               (case split_once CHR ''/'' rest of
                  None \<Rightarrow> Inl (RangeInvalid (''unexpected Content-Range '' @ debug_str v))
                | Some (actual, _) \<Rightarrow>
                    (case split_once CHR ''-'' actual of
                       None \<Rightarrow> Inl (RangeInvalid (''unexpected Content-Range '' @ debug_str v))
                     | Some (actual_start, actual_end) \<Rightarrow>
                         if parse_u64 actual_start = Some start \<and> parse_u64 actual_end = Some stop then Inr ()
                         else Inl (RangeInvalid
                           (''expected Content-Range bytes '' @ show_nat start @ ''-'' @ show_nat stop @ '', got '' @ debug_str v))))))"

definition fetch_range :: "http_lib \<Rightarrow> wire \<Rightarrow> string \<Rightarrow> nat \<Rightarrow> nat \<Rightarrow> wire \<times> (range_error + bytes)" where
  "fetch_range lib w url_str start stop =
     (if stop < start then (w, Inl (RangeInvalid (''start '' @ show_nat start @ '' is after end '' @ show_nat stop)))
      else case checked_add_u64 (stop - start) 1 of
        None \<Rightarrow> (w, Inl (RangeInvalid ''requested range length overflowed''))
      | Some expected_len \<Rightarrow>
        (case lib_parse lib url_str of
           Inl e \<Rightarrow> (w, Inl (RangeUpstream (UrlError e)))
         | Inr url \<Rightarrow>
          (let c = wi_client w;
               (w, res) = send lib w (add_header ''range'' (''bytes='' @ show_nat start @ ''-'' @ show_nat stop)
                 (add_header ''accept-encoding'' ''identity'' (attach_auth c (plain_request (http_for c url) ''GET'' url) url)))
           in case res of
                Inl e \<Rightarrow> (w, Inl (RangeUpstream (HttpError e)))
              | Inr resp \<Rightarrow>
                  if rs_status resp = 206 then
                    (case validate_content_range (rs_headers resp) start stop of
                       Inl err \<Rightarrow> (disable_ranges w, Inl err)
                     | Inr _ \<Rightarrow>
                         (case body_bytes (rs_chunks resp) of
                            Inl e \<Rightarrow> (w, Inl (RangeUpstream (HttpError e)))
                          | Inr bytes \<Rightarrow>
                              if length bytes \<noteq> expected_len then 
                                (disable_ranges w, Inl (RangeInvalid
                                  (''expected '' @ show_nat expected_len @ '' bytes, received '' @ show_nat (length bytes))))
                              else (set_range_support RANGE_SUPPORTED w, Inr bytes)))
                  else if rs_status resp = 200 \<or> rs_status resp = 416 then (disable_ranges w, Inl RangeUnsupported)
                  else (case lib_error_for_status lib resp of
                     Inl e \<Rightarrow> (w, Inl (RangeUpstream (HttpError e)))
                   | Inr _ \<Rightarrow> (w, Inl (RangeInvalid ''range request returned a non-206 success''))))))"

section \<open>Conditional requests\<close>

definition send_validated ::
    "http_lib \<Rightarrow> wire \<Rightarrow> url \<Rightarrow> string \<Rightarrow> string option \<Rightarrow> string option \<Rightarrow> wire \<times> (upstream_error + response)" where
  "send_validated lib w url accept etag modified_at =
     (let c = wi_client w;
          request = add_header ''accept'' accept (attach_auth c (plain_request (http_for c url) ''GET'' url) url);
          request = (case etag of
              Some e \<Rightarrow> add_header ''if-none-match'' e request
            | None \<Rightarrow> (case modified_at of Some m \<Rightarrow> add_header ''if-modified-since'' m request | None \<Rightarrow> request))
      in send_with_retry lib w request)"

definition send_conditional :: "http_lib \<Rightarrow> wire \<Rightarrow> url \<Rightarrow> string \<Rightarrow> string option \<Rightarrow> wire \<times> (upstream_error + response)" where
  "send_conditional lib w url accept etag = send_validated lib w url accept etag None"

section \<open>What leaves the process\<close>

text \<open>
  A request is \<open>home-bound\<close> for a client when it carries credentials only to the base's origin, and the
  client identity only there.  \<open>sealed\<close> is the invariant of a client that makes it so.
\<close>

definition home_bound :: "upstream_client \<Rightarrow> request \<Rightarrow> bool" where
  "home_bound c r \<longleftrightarrow> (rq_auth r = NoAuth \<or> same_origin (uc_base c) (rq_url r) \<and> rq_auth r = uc_auth c)
     \<and> (hc_identity (rq_client r) \<longrightarrow> same_origin (uc_base c) (rq_url r) \<and> hc_same_origin_redirects (rq_client r))"

definition sealed :: "upstream_client \<Rightarrow> bool" where
  "sealed c \<longleftrightarrow> \<not> hc_identity (uc_cross_origin_http c) \<and> \<not> hc_identity (uc_cross_origin_bulk c)
     \<and> (hc_identity (uc_http c) \<longrightarrow> hc_same_origin_redirects (uc_http c))
     \<and> (hc_identity (uc_bulk c) \<longrightarrow> hc_same_origin_redirects (uc_bulk c))"

definition same_config :: "upstream_client \<Rightarrow> upstream_client \<Rightarrow> bool" where
  "same_config c d \<longleftrightarrow> d = c\<lparr>uc_range_support := uc_range_support d, uc_reachability := uc_reachability d\<rparr>"

text \<open>One operation extends the log by at most \<open>n\<close> home-bound requests and keeps the configuration.\<close>

definition polite :: "nat \<Rightarrow> wire \<Rightarrow> wire \<Rightarrow> bool" where
  "polite n w w' \<longleftrightarrow> same_config (wi_client w) (wi_client w') \<and>
     (\<exists>rs. wi_sent w' = wi_sent w @ rs \<and> length rs \<le> n \<and> list_all (home_bound (wi_client w)) rs)"

lemma same_config_refl [simp]: "same_config c c"
  by (simp add: same_config_def)

lemma same_config_fields:
  assumes "same_config c d"
  shows "uc_base d = uc_base c" "uc_auth d = uc_auth c" "uc_http d = uc_http c" "uc_bulk d = uc_bulk c"
    "uc_cross_origin_http d = uc_cross_origin_http c" "uc_cross_origin_bulk d = uc_cross_origin_bulk c"
  using assms unfolding same_config_def by (cases c; cases d; simp)+

lemma same_config_trans: "same_config a b \<Longrightarrow> same_config b c \<Longrightarrow> same_config a c"
  unfolding same_config_def by (cases a; cases b; cases c) simp

lemma home_bound_config:
  assumes "same_config c d"
  shows "home_bound d = home_bound c"
  by (rule ext) (simp add: home_bound_def same_config_fields [OF assms])

lemma sealed_config:
  assumes "same_config c d"
  shows "sealed d = sealed c"
  by (simp add: sealed_def same_config_fields [OF assms])

lemma home_bound_header [simp]: "home_bound c (add_header n v r) = home_bound c r"
  by (simp add: home_bound_def add_header_def)

lemma home_bound_plain:
  assumes "hc_identity hc \<longrightarrow> same_origin (uc_base c) url \<and> hc_same_origin_redirects hc"
  shows "home_bound c (attach_auth c (plain_request hc m url) url)"
  using assms by (cases "uc_auth c") (auto simp: home_bound_def attach_auth_def plain_request_def)

lemma attach_auth_header: "attach_auth c (add_header n v r) url = add_header n v (attach_auth c r url)"
  by (simp add: attach_auth_def add_header_def split: auth.split)

lemma home_bound_bulk: "sealed c \<Longrightarrow> home_bound c (bulk_get c url)"
  by (simp add: bulk_get_def attach_auth_header home_bound_plain bulk_for_def sealed_def)

lemma home_bound_http: "sealed c \<Longrightarrow> home_bound c (attach_auth c (plain_request (http_for c url) m url) url)"
  by (rule home_bound_plain) (simp add: http_for_def sealed_def)

lemma polite_refl [simp]: "polite n w w"
  by (simp add: polite_def)

lemma polite_trans:
  assumes "polite m a b" "polite n b c"
  shows "polite (m + n) a c"
proof -
  obtain rs where rs: "same_config (wi_client a) (wi_client b)" "wi_sent b = wi_sent a @ rs" "length rs \<le> m"
    "list_all (home_bound (wi_client a)) rs" using assms(1) by (auto simp: polite_def)
  obtain ss where ss: "same_config (wi_client b) (wi_client c)" "wi_sent c = wi_sent b @ ss" "length ss \<le> n"
    "list_all (home_bound (wi_client b)) ss" using assms(2) by (auto simp: polite_def)
  have "wi_sent c = wi_sent a @ (rs @ ss)" "length (rs @ ss) \<le> m + n" using rs(2,3) ss(2,3) by simp_all
  moreover have "list_all (home_bound (wi_client a)) (rs @ ss)"
    using rs(4) ss(4) home_bound_config [OF rs(1)] by simp
  ultimately show ?thesis using same_config_trans [OF rs(1) ss(1)] unfolding polite_def by blast
qed

lemma polite_mono: "polite m a b \<Longrightarrow> m \<le> n \<Longrightarrow> polite n a b"
  unfolding polite_def by (meson order_trans)

lemma polite_sets [simp]:
  "polite n w (set_reachability v w') = polite n w w'" "polite n w (set_range_support v w') = polite n w w'"
  "polite n w (disable_ranges w') = polite n w w'"
  unfolding polite_def set_reachability_def set_range_support_def disable_ranges_def same_config_def
  by (simp_all) (cases "wi_client w"; cases "wi_client w'"; simp)+

lemma send_polite: "home_bound (wi_client w) r \<Longrightarrow> polite 1 w (fst (send lib w r))"
  by (simp add: send_def polite_def)

lemma send_with_retry_from_polite:
  assumes "home_bound (wi_client w) r"
  shows "polite (Suc (MAX_RETRIES - attempt)) w (fst (send_with_retry_from lib attempt w r))"
  using assms
proof (induction lib attempt w r rule: send_with_retry_from.induct)
  case (1 lib attempt w r)
  obtain w' res where s: "send lib w r = (w', res)" by (cases "send lib w r")
  have one: "polite 1 w w'" using send_polite [OF 1(3), of lib] s by simp
  have home: "home_bound (wi_client w') r"
    using one 1(3) home_bound_config [of "wi_client w" "wi_client w'"] by (simp add: polite_def)
  have next_ok: "polite (Suc (MAX_RETRIES - attempt)) w (fst (send_with_retry_from lib (attempt + 1) w' r))"
    if "attempt < MAX_RETRIES" "polite (Suc (MAX_RETRIES - (attempt + 1))) w' (fst (send_with_retry_from lib (attempt + 1) w' r))"
    using polite_trans [OF one that(2)] that(1) by (simp add: Suc_diff_Suc)
  have stop: "polite (Suc (MAX_RETRIES - attempt)) w w'" using one polite_mono by simp
  show ?case
  proof (cases res)
    case (Inl e)
    then show ?thesis
      using s stop next_ok 1(1) [OF s [symmetric] Inl _ home] by (subst send_with_retry_from.simps) auto
  next
    case (Inr resp)
    then show ?thesis
      using s stop next_ok 1(2) [OF s [symmetric] Inr _ home] by (subst send_with_retry_from.simps) auto
  qed
qed

lemma send_with_retry_polite:
  "home_bound (wi_client w) r \<Longrightarrow> polite 3 w (fst (send_with_retry lib w r))"
  using send_with_retry_from_polite [of w r 0 lib] by (simp add: send_with_retry_def MAX_RETRIES_def)

lemma open_bulk_polite: "sealed (wi_client w) \<Longrightarrow> polite 3 w (fst (open_bulk lib w url))"
  using send_with_retry_polite [OF home_bound_bulk, of w lib url] by (simp add: open_bulk_def case_prod_beta Let_def)

lemma polite_sealed: "polite n w w' \<Longrightarrow> sealed (wi_client w') = sealed (wi_client w)"
  unfolding polite_def using sealed_config by blast

lemma fetch_bytes_from_polite:
  assumes "sealed (wi_client w)"
  shows "polite (3 * Suc (MAX_RETRIES - attempt)) w (fst (fetch_bytes_from lib attempt w url))"
  using assms
proof (induction lib attempt w url rule: fetch_bytes_from.induct)
  case (1 lib attempt w url)
  obtain w' res where o: "open_bulk lib w url = (w', res)" by (cases "open_bulk lib w url")
  have three: "polite 3 w w'" using open_bulk_polite [OF 1(2), of lib url] o by simp
  have sealed: "sealed (wi_client w')" using polite_sealed [OF three] 1(2) by simp
  have stop: "polite (3 * Suc (MAX_RETRIES - attempt)) w w'" using three polite_mono by simp
  show ?case
  proof (cases res)
    case (Inr resp)
    show ?thesis
    proof (cases "body_bytes (rs_chunks resp)")
      case e: (Inl err)
      show ?thesis
      proof (cases "should_retry_error err \<and> attempt < MAX_RETRIES")
        case True
        have "polite (3 + 3 * Suc (MAX_RETRIES - (attempt + 1))) w (fst (fetch_bytes_from lib (attempt + 1) w' url))"
          using polite_trans [OF three 1(1) [OF o [symmetric] Inr e True sealed]] .
        moreover have "3 + 3 * Suc (MAX_RETRIES - (attempt + 1)) = 3 * Suc (MAX_RETRIES - attempt)"
          using True by (simp add: Suc_diff_Suc flip: mult_Suc_right)
        ultimately have "polite (3 * Suc (MAX_RETRIES - attempt)) w (fst (fetch_bytes_from lib (attempt + 1) w' url))" by metis
        then show ?thesis using o Inr e True by (subst fetch_bytes_from.simps) simp
      qed (use o Inr e stop in \<open>subst fetch_bytes_from.simps, auto\<close>)
    qed (use o Inr stop in \<open>subst fetch_bytes_from.simps, simp\<close>)
  qed (use o stop in \<open>subst fetch_bytes_from.simps, simp\<close>)
qed

lemma read_limited_total: "length acc \<le> limit \<Longrightarrow> \<exists>out. read_limited limit acc cs = Some out"
  by (induction limit acc cs rule: read_limited.induct) (auto simp: checked_sub_u64_def)

lemma read_limited_Done:
  assumes "read_limited limit acc cs = Some (Done bytes)" "length acc \<le> limit"
  shows "\<exists>rest. bytes = acc @ rest \<and> body_bytes cs = Inr rest \<and> length bytes \<le> limit"
  using assms
proof (induction limit acc cs rule: read_limited.induct)
  case (3 limit acc chunk cs)
  then have room: "length (acc @ chunk) \<le> limit" "read_limited limit (acc @ chunk) cs = Some (Done bytes)"
    by (auto simp: checked_sub_u64_def split: if_splits)
  with 3 obtain rest where "bytes = (acc @ chunk) @ rest" "body_bytes cs = Inr rest" "length bytes \<le> limit"
    by (auto simp: checked_sub_u64_def split: if_splits)
  then show ?case by simp
qed auto

lemma fetch_limited_from_ok:
  assumes "sealed (wi_client w)"
  shows "\<exists>w' res. fetch_limited_from lib limit attempt w url = Some (w', res)
    \<and> polite (3 * Suc (MAX_RETRIES - attempt)) w w' \<and> (\<forall>bytes. res = Inr bytes \<longrightarrow> length bytes \<le> limit)"
  using assms
proof (induction lib limit attempt w url rule: fetch_limited_from.induct)
  case (1 lib limit attempt w url)
  obtain w' res where o: "open_bulk lib w url = (w', res)" by (cases "open_bulk lib w url")
  have three: "polite 3 w w'" using open_bulk_polite [OF 1(2), of lib url] o by simp
  have sealed: "sealed (wi_client w')" using polite_sealed [OF three] 1(2) by simp
  have stop: "polite (3 * Suc (MAX_RETRIES - attempt)) w w'" using three polite_mono by simp
  show ?case
  proof (cases res)
    case (Inr resp)
    obtain out where out: "read_limited limit [] (rs_chunks resp) = Some out"
      using read_limited_total [of "[]" limit "rs_chunks resp"] by auto
    show ?thesis
    proof (cases "is_some_and (rs_content_length resp) (\<lambda>n. n > limit)")
      case False
      show ?thesis
      proof (cases out)
        case (Done bytes)
        then show ?thesis using o Inr False out stop read_limited_Done [of limit "[]" "rs_chunks resp" bytes]
          by (subst fetch_limited_from.simps) auto
      next
        case (BodyError err)
        show ?thesis
        proof (cases "should_retry_error err \<and> attempt < MAX_RETRIES")
          case True
          have "3 + 3 * Suc (MAX_RETRIES - (attempt + 1)) = 3 * Suc (MAX_RETRIES - attempt)"
            using True by (simp add: Suc_diff_Suc flip: mult_Suc_right)
          moreover note 1(1) [OF o [symmetric] Inr False out BodyError True sealed]
          ultimately show ?thesis using o Inr False out BodyError True polite_trans [OF three]
            by (subst fetch_limited_from.simps) fastforce
        qed (use o Inr False out BodyError stop in \<open>subst fetch_limited_from.simps, auto\<close>)
      qed (use o Inr False out stop in \<open>subst fetch_limited_from.simps, auto\<close>)
    qed (use o Inr stop in \<open>subst fetch_limited_from.simps, auto\<close>)
  qed (use o stop in \<open>subst fetch_limited_from.simps, auto\<close>)
qed

text \<open>The operations of a client, run one after another.\<close>

datatype client_op =
    Warm
  | StreamBytes string
  | FetchBytes string
  | FetchBytesLimited string nat
  | HeadFile string
  | FetchRange string nat nat
  | SendValidated url string "string option" "string option"
  | DisableRanges

definition run_op :: "http_lib \<Rightarrow> wire \<Rightarrow> client_op \<Rightarrow> wire" where
  "run_op lib w op = (case op of
      Warm \<Rightarrow> warm lib w
    | StreamBytes url \<Rightarrow> fst (stream_bytes lib w url)
    | FetchBytes url \<Rightarrow> fst (fetch_bytes lib w url)
    | FetchBytesLimited url limit \<Rightarrow> (case fetch_bytes_limited lib limit w url of None \<Rightarrow> w | Some r \<Rightarrow> fst r)
    | HeadFile url \<Rightarrow> fst (head_file_for_range lib w url)
    | FetchRange url start stop \<Rightarrow> fst (fetch_range lib w url start stop)
    | SendValidated url accept etag modified \<Rightarrow> fst (send_validated lib w url accept etag modified)
    | DisableRanges \<Rightarrow> disable_ranges w)"

lemma send_cases:
  assumes "home_bound (wi_client w) r"
  obtains w' res where "send lib w r = (w', res)" "polite 1 w w'"
  using send_polite [OF assms, of lib] by (cases "send lib w r") auto

lemma polite_nine: "polite 1 w w' \<Longrightarrow> polite 9 w w'" "polite 3 w w' \<Longrightarrow> polite 9 w w'"
  by (erule polite_mono; simp)+

lemma head_polite:
  assumes "sealed (wi_client w)"
  shows "polite 9 w (fst (head_file_for_range lib w url_str))"
proof (cases "lib_parse lib url_str")
  case (Inr url)
  have "home_bound (wi_client w) (add_header ''accept-encoding'' ''identity''
      (attach_auth (wi_client w) (plain_request (http_for (wi_client w) url) ''HEAD'' url) url))"
    using home_bound_http [OF assms] by simp
  then obtain w' res where "send lib w (add_header ''accept-encoding'' ''identity''
      (attach_auth (wi_client w) (plain_request (http_for (wi_client w) url) ''HEAD'' url) url)) = (w', res)" "polite 9 w w'"
    using send_cases polite_nine by metis
  with Inr show ?thesis by (simp add: head_file_for_range_def split: sum.split option.split)
qed (simp add: head_file_for_range_def)

lemma range_polite:
  assumes "sealed (wi_client w)"
  shows "polite 9 w (fst (fetch_range lib w url_str start stop))"
proof (cases "lib_parse lib url_str")
  case (Inr url)
  let ?r = "add_header ''range'' (''bytes='' @ show_nat start @ ''-'' @ show_nat stop)
    (add_header ''accept-encoding'' ''identity'' (attach_auth (wi_client w) (plain_request (http_for (wi_client w) url) ''GET'' url) url))"
  have "home_bound (wi_client w) ?r" using home_bound_http [OF assms] by simp
  then obtain w' res where "send lib w ?r = (w', res)" "polite 9 w w'"
    using send_cases polite_nine by metis
  with Inr show ?thesis by (simp add: fetch_range_def split: sum.split option.split)
qed (simp add: fetch_range_def split: option.split)

lemma validated_polite:
  assumes "sealed (wi_client w)"
  shows "polite 9 w (fst (send_validated lib w url accept etag modified))"
  using home_bound_http [OF assms] polite_nine(2) [OF send_with_retry_polite]
  by (simp add: send_validated_def Let_def split: option.split)

lemma run_op_polite:
  assumes "sealed (wi_client w)"
  shows "polite 9 w (run_op lib w op)"
proof (cases op)
  case Warm
  have "home_bound (wi_client w) (attach_auth (wi_client w) (plain_request (uc_http (wi_client w)) ''HEAD'' (uc_base (wi_client w))) (uc_base (wi_client w)))"
    using assms by (intro home_bound_plain) (simp add: sealed_def same_origin_def)
  from polite_nine(1) [OF send_polite [OF this]] show ?thesis by (simp add: Warm run_op_def warm_def Let_def case_prod_beta)
next
  case (StreamBytes url_str)
  with polite_nine(2) [OF open_bulk_polite [OF assms]] show ?thesis
    by (simp add: run_op_def stream_bytes_def Let_def case_prod_beta split: sum.split)
next
  case (FetchBytes url_str)
  with fetch_bytes_from_polite [OF assms, of 0 lib] show ?thesis
    by (simp add: run_op_def fetch_bytes_def MAX_RETRIES_def split: sum.split)
next
  case (FetchBytesLimited url_str limit)
  show ?thesis
  proof (cases "lib_parse lib url_str")
    case (Inr url)
    with FetchBytesLimited fetch_limited_from_ok [OF assms, of lib limit 0 url] show ?thesis
      by (auto simp: run_op_def fetch_bytes_limited_def MAX_RETRIES_def)
  qed (simp add: FetchBytesLimited run_op_def fetch_bytes_limited_def)
qed (simp_all add: run_op_def head_polite [OF assms] range_polite [OF assms] validated_polite [OF assms])

lemma build_sealed:
  assumes "with_auth_and_tls_for_origin lib base auth tls identity_origin = Inr c"
  shows "sealed c \<and> uc_auth c = auth"
proof -
  obtain b where b: "lib_parse lib base = Inr b"
    using assms by (cases "lib_parse lib base") (simp_all add: with_auth_and_tls_for_origin_def)
  obtain i where i: "lib_parse lib identity_origin = Inr i"
    using assms b by (cases "lib_parse lib identity_origin") (simp_all add: with_auth_and_tls_for_origin_def)
  show ?thesis
    using assms unfolding with_auth_and_tls_for_origin_def b i
    by (cases "same_origin b i \<and> has_identity tls")
      (auto simp: Let_def sealed_def tls_apply_def identity_redirect_policy_def)
qed

lemma run_ops_polite: "sealed (wi_client w) \<Longrightarrow> polite (9 * length ops) w (foldl (run_op lib) w ops)"
proof (induction ops arbitrary: w)
  case (Cons op ops)
  have one: "polite 9 w (run_op lib w op)" using run_op_polite [OF Cons.prems] .
  with Cons have "polite (9 * length ops) (run_op lib w op) (foldl (run_op lib) (run_op lib w op) ops)"
    using polite_sealed by blast
  from polite_trans [OF one this] show ?case by simp
qed simp


definition sample_url :: "string \<Rightarrow> string \<Rightarrow> url" where
  "sample_url name path = \<lparr>u_scheme = ''https'', u_host = Some (Domain name), u_port = Some 443, u_given_port = None,
     u_origin = ''https://'' @ name, u_path = path, u_str = name @ path\<rparr>"

definition sample_lib :: http_lib where
  "sample_lib = \<lparr>lib_parse = (\<lambda>s. case split_once CHR ''/'' s of None \<Rightarrow> Inl ''relative'' | Some (h, p) \<Rightarrow> Inr (sample_url h (''/'' @ p))),
     lib_join = (\<lambda>u p. Inr (sample_url (drop 8 (u_origin u)) (u_path u @ p))),
     lib_set_path = (\<lambda>u p. sample_url (drop 8 (u_origin u)) p),
     lib_send = (\<lambda>n r. Inr \<lparr>rs_status = (if n = 0 then 503 else 200), rs_content_length = None, rs_headers = (\<lambda>_. None), rs_chunks = [Inr ''ab'', Inr ''c'']\<rparr>),
     lib_error_for_status = Inr\<rparr>"

definition sample_client :: upstream_client where
  "sample_client = projr (with_auth_and_tls_for_origin sample_lib ''h/simple'' (Bearer ''t'') \<lparr>tls_roots = [], tls_identity = Some ''id''\<rparr> ''h/'')"

lemma sample_client_built:
  "with_auth_and_tls_for_origin sample_lib ''h/simple'' (Bearer ''t'') \<lparr>tls_roots = [], tls_identity = Some ''id''\<rparr> ''h/'' = Inr sample_client"
  unfolding sample_client_def
  by (simp add: with_auth_and_tls_for_origin_def sample_lib_def sample_url_def same_origin_def ends_with_def has_identity_def Let_def)


end
