(* ===== verification/UpstreamRoute.thy ===== *)
theory UpstreamRoute
  imports Upstream
begin

text \<open>
  Routing over several upstreams, \<open>crates/peryx-upstream/src/route.rs\<close>: an artifact client with its mirror,
  a source with the result of its latest request, and the ordered router with pins and protections.
\<close>

section \<open>Artifacts and their mirror\<close>

text \<open>The origin and the mirror each keep their own cells and their own requests.\<close>

record artifact_client =
  ac_origin :: wire
  ac_mirror :: "wire option"
  ac_fallback :: bool

definition direct :: "wire \<Rightarrow> artifact_client" where
  "direct origin = \<lparr>ac_origin = origin, ac_mirror = None, ac_fallback = False\<rparr>"

definition with_mirror :: "wire \<Rightarrow> wire \<Rightarrow> bool \<Rightarrow> artifact_client" where
  "with_mirror origin mirror fallback = \<lparr>ac_origin = origin, ac_mirror = Some mirror, ac_fallback = fallback\<rparr>"

definition mirror_url :: "http_lib \<Rightarrow> upstream_client \<Rightarrow> string \<Rightarrow> upstream_error + url" where
  "mirror_url lib mirror url_str =
     rbind (map_err UrlError (lib_parse lib url_str)) (\<lambda>original.
       map_err UrlError (lib_join lib (uc_base mirror) (trim_start_slash (u_path original))))"

definition from_origin ::
    "(wire \<Rightarrow> string \<Rightarrow> wire \<times> ('e + 'a)) \<Rightarrow> artifact_client \<Rightarrow> string \<Rightarrow> artifact_client \<times> ('e + 'a)" where
  "from_origin op ac url_str = (let (w, res) = op (ac_origin ac) url_str in (ac\<lparr>ac_origin := w\<rparr>, res))"

text \<open>
  The body shared by \<open>stream_bytes\<close>, \<open>head_file_for_range\<close> and \<open>fetch_range\<close>: the mirror first, the
  advertised URL without a mirror or after a failure with fallback.
\<close>

definition mirror_first ::
    "http_lib \<Rightarrow> (upstream_error \<Rightarrow> 'e) \<Rightarrow> (wire \<Rightarrow> string \<Rightarrow> wire \<times> ('e + 'a)) \<Rightarrow> artifact_client \<Rightarrow> string
      \<Rightarrow> artifact_client \<times> ('e + 'a)" where
  "mirror_first lib wrap op ac url_str =
     (case ac_mirror ac of
        None \<Rightarrow> from_origin op ac url_str
      | Some mirror \<Rightarrow>
          (case mirror_url lib (wi_client mirror) url_str of
             Inl e \<Rightarrow> (ac, Inl (wrap e))
           | Inr url \<Rightarrow>
               (let (mirror', res) = op mirror (u_str url); ac' = ac\<lparr>ac_mirror := Some mirror'\<rparr>
                in case res of
                     Inr x \<Rightarrow> (ac', Inr x)
                   | Inl err \<Rightarrow> if \<not> ac_fallback ac then (ac', Inl err) else from_origin op ac' url_str)))"

definition artifact_stream_bytes ::
    "http_lib \<Rightarrow> artifact_client \<Rightarrow> string \<Rightarrow> artifact_client \<times> (upstream_error + (http_error + bytes) list)" where
  "artifact_stream_bytes lib = mirror_first lib id (stream_bytes lib)"

definition artifact_head_file :: "http_lib \<Rightarrow> artifact_client \<Rightarrow> string \<Rightarrow> artifact_client \<times> (range_error + nat)" where
  "artifact_head_file lib = mirror_first lib RangeUpstream (head_file_for_range lib)"

definition artifact_fetch_range ::
    "http_lib \<Rightarrow> artifact_client \<Rightarrow> string \<Rightarrow> nat \<Rightarrow> nat \<Rightarrow> artifact_client \<times> (range_error + bytes)" where
  "artifact_fetch_range lib ac url_str start stop =
     mirror_first lib RangeUpstream (\<lambda>w url. fetch_range lib w url start stop) ac url_str"

definition artifact_may_support_ranges :: "artifact_client \<Rightarrow> bool" where
  "artifact_may_support_ranges ac \<longleftrightarrow>
     is_some_and (ac_mirror ac) (\<lambda>m. may_support_ranges (wi_client m))
     \<or> (ac_fallback ac \<or> ac_mirror ac = None) \<and> may_support_ranges (wi_client (ac_origin ac))"

definition artifact_disable_ranges :: "artifact_client \<Rightarrow> artifact_client" where
  "artifact_disable_ranges ac =
     ac\<lparr>ac_mirror := map_option disable_ranges (ac_mirror ac), ac_origin := disable_ranges (ac_origin ac)\<rparr>"

lemma mirror_only:
  assumes "ac_mirror ac = Some m" "\<not> ac_fallback ac"
  shows "ac_origin (fst (mirror_first lib wrap op ac url_str)) = ac_origin ac"
  using assms by (simp add: mirror_first_def Let_def split: sum.split prod.split)

lemma disabled_stays_disabled: "\<not> artifact_may_support_ranges (artifact_disable_ranges ac)"
  by (cases "ac_mirror ac")
    (simp_all add: artifact_may_support_ranges_def artifact_disable_ranges_def may_support_ranges_def disable_ranges_def
      set_range_support_def)

section \<open>Sources\<close>

datatype upstream_health = Configured | Healthy | Unhealthy

definition health_value :: "upstream_health \<Rightarrow> nat" where
  "health_value h = (case h of Configured \<Rightarrow> 0 | Healthy \<Rightarrow> 1 | Unhealthy \<Rightarrow> 2)"

definition health_as_str :: "upstream_health \<Rightarrow> string" where
  "health_as_str h = (case h of Configured \<Rightarrow> ''configured'' | Healthy \<Rightarrow> ''healthy'' | Unhealthy \<Rightarrow> ''unhealthy'')"

text \<open>The client of a source is the origin of its artifact client: the two share their cells.\<close>

record named_upstream =
  nu_name :: string
  nu_artifacts :: artifact_client
  nu_health :: nat

definition named_new :: "string \<Rightarrow> upstream_client \<Rightarrow> named_upstream" where
  "named_new name client =
     \<lparr>nu_name = name, nu_artifacts = direct \<lparr>wi_client = client, wi_sent = []\<rparr>, nu_health = health_value Configured\<rparr>"

definition with_artifact_mirror :: "named_upstream \<Rightarrow> upstream_client \<Rightarrow> bool \<Rightarrow> named_upstream" where
  "with_artifact_mirror u mirror fallback =
     u\<lparr>nu_artifacts := with_mirror (ac_origin (nu_artifacts u)) \<lparr>wi_client = mirror, wi_sent = []\<rparr> fallback\<rparr>"

definition health_of :: "named_upstream \<Rightarrow> upstream_health" where
  "health_of u = (if nu_health u = 1 then Healthy else if nu_health u = 2 then Unhealthy else Configured)"

definition mark_healthy :: "named_upstream \<Rightarrow> named_upstream" where
  "mark_healthy u = u\<lparr>nu_health := health_value Healthy\<rparr>"

definition mark_unhealthy :: "named_upstream \<Rightarrow> named_upstream" where
  "mark_unhealthy u = u\<lparr>nu_health := health_value Unhealthy\<rparr>"

lemma health_roundtrip [simp]: "health_of (u\<lparr>nu_health := health_value h\<rparr>) = h"
  by (cases h) (simp_all add: health_of_def health_value_def)

section \<open>The router\<close>

datatype route_error =
    RouteEmpty
  | RouteEmptyName
  | RouteDuplicateName string
  | RouteEmptyProject
  | RouteUnknownPin string string

record upstream_router =
  ur_upstreams :: "named_upstream list"
  ur_positions :: "string \<rightharpoonup> nat"
  ur_pins :: "string \<rightharpoonup> nat"
  ur_protected :: "string set"
  ur_fallback :: bool

fun index_names :: "(string \<rightharpoonup> nat) \<Rightarrow> nat \<Rightarrow> named_upstream list \<Rightarrow> route_error + (string \<rightharpoonup> nat)" where
  "index_names positions position [] = Inr positions"
| "index_names positions position (u # us) =
     (if nu_name u = [] then Inl RouteEmptyName
      else if positions (nu_name u) \<noteq> None then Inl (RouteDuplicateName (nu_name u))
      else index_names (positions(nu_name u \<mapsto> position)) (position + 1) us)"

definition router_new :: "named_upstream list \<Rightarrow> route_error + upstream_router" where
  "router_new upstreams =
     (if upstreams = [] then Inl RouteEmpty
      else rbind (index_names (\<lambda>_. None) 0 upstreams) (\<lambda>positions.
        Inr \<lparr>ur_upstreams = upstreams, ur_positions = positions, ur_pins = (\<lambda>_. None), ur_protected = {}, ur_fallback = True\<rparr>))"

definition with_fallback :: "upstream_router \<Rightarrow> bool \<Rightarrow> upstream_router" where
  "with_fallback r fallback = r\<lparr>ur_fallback := fallback\<rparr>"

definition pin :: "upstream_router \<Rightarrow> string \<Rightarrow> string \<Rightarrow> route_error + upstream_router" where
  "pin r project upstream =
     (if project = [] then Inl RouteEmptyProject
      else case ur_positions r upstream of
        None \<Rightarrow> Inl (RouteUnknownPin project upstream)
      | Some position \<Rightarrow> Inr (r\<lparr>ur_pins := (ur_pins r)(project \<mapsto> position)\<rparr>))"

definition protect :: "upstream_router \<Rightarrow> string \<Rightarrow> route_error + upstream_router" where
  "protect r project =
     (if project = [] then Inl RouteEmptyProject else Inr (r\<lparr>ur_protected := insert project (ur_protected r)\<rparr>))"

definition candidates :: "upstream_router \<Rightarrow> string \<Rightarrow> named_upstream list" where
  "candidates r project =
     (let pinned = ur_pins r project; fallback = ur_fallback r \<and> project \<notin> ur_protected r
      in map snd (filter (\<lambda>(position, _). case pinned of None \<Rightarrow> fallback \<or> position = 0 | Some p \<Rightarrow> position = p)
           (enumerate 0 (ur_upstreams r))))"

definition router_source :: "upstream_router \<Rightarrow> string \<Rightarrow> named_upstream option" where
  "router_source r name = map_option (\<lambda>position. ur_upstreams r ! position) (ur_positions r name)"

section \<open>The configured route\<close>

text \<open>The configuration of a route, and what it says of a project: the latest pin wins.\<close>

datatype route_rule = Fallback bool | Pin string string | Protect string

definition apply_rule :: "upstream_router \<Rightarrow> route_rule \<Rightarrow> route_error + upstream_router" where
  "apply_rule r rule = (case rule of
      Fallback b \<Rightarrow> Inr (with_fallback r b)
    | Pin project upstream \<Rightarrow> pin r project upstream
    | Protect project \<Rightarrow> protect r project)"

fun apply_rules :: "upstream_router \<Rightarrow> route_rule list \<Rightarrow> route_error + upstream_router" where
  "apply_rules r [] = Inr r"
| "apply_rules r (rule # cfg) = rbind (apply_rule r rule) (\<lambda>r. apply_rules r cfg)"

definition next_pin :: "string \<Rightarrow> string option \<Rightarrow> route_rule \<Rightarrow> string option" where
  "next_pin project p rule = (case rule of Pin project' upstream \<Rightarrow> if project' = project then Some upstream else p | _ \<Rightarrow> p)"

definition pin_in_force :: "route_rule list \<Rightarrow> string \<Rightarrow> string option" where
  "pin_in_force cfg project = foldl (next_pin project) None cfg"

definition next_fallback :: "bool \<Rightarrow> route_rule \<Rightarrow> bool" where
  "next_fallback p rule = (case rule of Fallback b \<Rightarrow> b | _ \<Rightarrow> p)"

definition fallback_in_force :: "route_rule list \<Rightarrow> string \<Rightarrow> bool" where
  "fallback_in_force cfg project \<longleftrightarrow> Protect project \<notin> set cfg
     \<and> foldl next_fallback True cfg"

section \<open>Candidates\<close>

lemma pick_position:
  "map snd (filter (\<lambda>(position, _). position = p) (enumerate n xs)) = (if n \<le> p \<and> p < n + length xs then [xs ! (p - n)] else [])"
proof (induction xs arbitrary: n)
  case (Cons x xs)
  have none: "filter (\<lambda>(position, _). position = n) (enumerate (Suc n) xs) = []"
    by (auto simp: filter_empty_conv in_set_enumerate_eq)
  show ?case
  proof (cases "p = n")
    case False
    have "(x # xs) ! (p - n) = xs ! (p - Suc n)" if "Suc n \<le> p" using that by (simp add: nth_Cons')
    with False show ?thesis using Cons [of "Suc n"] by auto
  qed (simp add: none)
qed simp

lemma index_names_spec:
  assumes "index_names positions k us = Inr positions'"
  shows "distinct (map nu_name us) \<and> [] \<notin> set (map nu_name us)
    \<and> (\<forall>u \<in> set us. positions (nu_name u) = None)
    \<and> (\<forall>i < length us. positions' (nu_name (us ! i)) = Some (k + i))
    \<and> (\<forall>name. name \<notin> nu_name ` set us \<longrightarrow> positions' name = positions name)"
  using assms
proof (induction us arbitrary: positions k)
  case (Cons u us)
  then have u: "nu_name u \<noteq> []" "positions (nu_name u) = None"
    "index_names (positions(nu_name u \<mapsto> k)) (k + 1) us = Inr positions'" by (auto split: if_splits)
  note IH = Cons.IH [OF u(3)]
  have free: "nu_name v \<noteq> nu_name u \<and> positions (nu_name v) = None" if "v \<in> set us" for v
    using IH that by (metis fun_upd_apply option.distinct(1))
  then have first: "nu_name u \<notin> nu_name ` set us" by (metis imageE)
  with IH have "positions' (nu_name u) = Some k" by simp
  with IH have "\<forall>i < length (u # us). positions' (nu_name ((u # us) ! i)) = Some (k + i)" by (simp add: All_less_Suc2)
  with IH u free first show ?case by auto
qed simp

text \<open>The names of a router are distinct and its positions are where the names stand.\<close>

definition router_wf :: "upstream_router \<Rightarrow> bool" where
  "router_wf r \<longleftrightarrow> ur_upstreams r \<noteq> [] \<and> distinct (map nu_name (ur_upstreams r))
     \<and> (\<forall>i < length (ur_upstreams r). ur_positions r (nu_name (ur_upstreams r ! i)) = Some i)
     \<and> (\<forall>name. name \<notin> nu_name ` set (ur_upstreams r) \<longrightarrow> ur_positions r name = None)"

lemma router_new_wf:
  assumes "router_new us = Inr r"
  shows "router_wf r" "ur_upstreams r = us" "ur_pins r = (\<lambda>_. None)" "ur_protected r = {}" "ur_fallback r"
  using assms index_names_spec [of "\<lambda>_. None" 0 us]
  by (auto simp: router_new_def router_wf_def result_simps split: if_splits)

lemma wf_position:
  assumes "router_wf r" "ur_positions r name = Some i"
  shows "i < length (ur_upstreams r)" "nu_name (ur_upstreams r ! i) = name"
proof -
  let ?us = "ur_upstreams r"
  have "name \<in> nu_name ` set ?us" using assms by (auto simp: router_wf_def)
  then obtain j where j: "j < length ?us" "nu_name (?us ! j) = name" by (auto simp: in_set_conv_nth)
  with assms have [simp]: "j = i" by (auto simp: router_wf_def)
  show "i < length ?us" "nu_name (?us ! i) = name" using j by simp_all
qed

lemma router_source_iff:
  assumes "router_wf r"
  shows "router_source r name = Some u \<longleftrightarrow> u \<in> set (ur_upstreams r) \<and> nu_name u = name"
proof
  assume "router_source r name = Some u"
  then show "u \<in> set (ur_upstreams r) \<and> nu_name u = name"
    using wf_position [OF assms] by (auto simp: router_source_def)
next
  assume "u \<in> set (ur_upstreams r) \<and> nu_name u = name"
  then show "router_source r name = Some u"
    using assms by (auto simp: router_source_def router_wf_def in_set_conv_nth)
qed

text \<open>What one configuration step does to the pins, the protections and the fallback.\<close>

definition pins_agree :: "upstream_router \<Rightarrow> string \<Rightarrow> string option \<Rightarrow> bool" where
  "pins_agree r project p \<longleftrightarrow> (case p of
      None \<Rightarrow> ur_pins r project = None
    | Some upstream \<Rightarrow> ur_positions r upstream \<noteq> None \<and> ur_pins r project = ur_positions r upstream)"

lemma apply_rule_ok:
  assumes "apply_rule r rule = Inr r'"
  shows "ur_upstreams r' = ur_upstreams r" "ur_positions r' = ur_positions r"
    "ur_fallback r' = next_fallback (ur_fallback r) rule"
    "ur_protected r' = ur_protected r \<union> {project. rule = Protect project}"
    "pins_agree r project p \<Longrightarrow> pins_agree r' project (next_pin project p rule)"
  using assms
  by (auto simp: apply_rule_def with_fallback_def pin_def protect_def next_fallback_def next_pin_def pins_agree_def
      split: route_rule.splits if_splits option.splits)

lemma apply_rules_ok:
  assumes "apply_rules r cfg = Inr r'"
  shows "ur_upstreams r' = ur_upstreams r \<and> ur_positions r' = ur_positions r
    \<and> ur_fallback r' = foldl next_fallback (ur_fallback r) cfg
    \<and> ur_protected r' = ur_protected r \<union> {project. Protect project \<in> set cfg}
    \<and> (pins_agree r project p \<longrightarrow> pins_agree r' project (foldl (next_pin project) p cfg))"
  using assms
proof (induction cfg arbitrary: r p)
  case (Cons rule cfg)
  then obtain r1 where r1: "apply_rule r rule = Inr r1" "apply_rules r1 cfg = Inr r'" by (auto simp: rbind_eq_Inr)
  show ?case
    using Cons.IH [OF r1(2), of "next_pin project p rule"] apply_rule_ok [OF r1(1)] by auto
qed simp

text \<open>Which upstreams a project may reach, for every route that a list of distinct named sources and a list of
  configuration rules builds: a pinned project reaches exactly the source of its latest pin; an unpinned one that
  is protected, or on a route without fallback, reaches only the primary; every other reaches all the
  sources in configured order.  There is always a candidate, and looking a source up by name finds the
  source with that name.
\<close>

theorem candidates_exact:
  assumes "router_new us = Inr r0" and "apply_rules r0 cfg = Inr r"
  shows "candidates r project = (case pin_in_force cfg project of
        Some upstream \<Rightarrow> [the (router_source r upstream)]
      | None \<Rightarrow> if fallback_in_force cfg project then us else [hd us])
    \<and> candidates r project \<noteq> []
    \<and> (pin_in_force cfg project = Some upstream \<longrightarrow> upstream \<in> nu_name ` set us)
    \<and> (router_source r name = Some u \<longleftrightarrow> u \<in> set us \<and> nu_name u = name)"
proof -
  note new = router_new_wf [OF assms(1)]
  note cfg = apply_rules_ok [OF assms(2), of project None]
  have wf: "router_wf r" using new(1) cfg by (simp add: router_wf_def)
  have us: "ur_upstreams r = us" "us \<noteq> []" using new cfg by (simp_all add: router_wf_def)
  have pins: "pins_agree r project (pin_in_force cfg project)"
    using cfg new(3) by (simp add: pin_in_force_def pins_agree_def)
  have fb: "fallback_in_force cfg project \<longleftrightarrow> ur_fallback r \<and> project \<notin> ur_protected r"
    using cfg new(4,5) by (auto simp: fallback_in_force_def)
  have cand: "candidates r project = (case pin_in_force cfg project of
        Some upstream \<Rightarrow> [the (router_source r upstream)]
      | None \<Rightarrow> if fallback_in_force cfg project then us else [hd us])"
  proof (cases "pin_in_force cfg project")
    case None
    with pins show ?thesis
      using us pick_position [of 0 0 us] by (auto simp: pins_agree_def candidates_def fb hd_conv_nth)
  next
    case (Some upstream)
    with pins obtain i where "ur_positions r upstream = Some i" "ur_pins r project = Some i" by (auto simp: pins_agree_def)
    with Some us wf_position(1) [OF wf] show ?thesis
      by (simp add: candidates_def router_source_def pick_position)
  qed
  moreover have "candidates r project \<noteq> []" unfolding cand using us by (simp split: option.split)
  moreover have "upstream \<in> nu_name ` set us" if "pin_in_force cfg project = Some upstream"
    using pins that wf us by (auto simp: pins_agree_def router_wf_def)
  ultimately show ?thesis using router_source_iff [OF wf] us by simp
qed

definition sample_sources :: "named_upstream list" where
  "sample_sources = map (\<lambda>n. named_new n sample_client) [''internal'', ''mirror'', ''pypi'']"

definition sample_rules :: "route_rule list" where
  "sample_rules = [Pin ''torch'' ''pypi'', Pin ''torch'' ''mirror'', Protect ''private'']"

theorem candidates_exact_witness:
  "let r = projr (apply_rules (projr (router_new sample_sources)) sample_rules)
   in map nu_name (candidates r ''torch'') = [''mirror''] \<and> map nu_name (candidates r ''private'') = [''internal'']
      \<and> candidates r ''numpy'' = sample_sources"
proof -
  have ok: "router_new sample_sources = Inr (projr (router_new sample_sources))"
    "apply_rules (projr (router_new sample_sources)) sample_rules = Inr (projr (apply_rules (projr (router_new sample_sources)) sample_rules))"
    by (simp_all add: sample_sources_def sample_rules_def named_new_def router_new_def apply_rule_def pin_def protect_def)
  have spec: "pin_in_force sample_rules ''torch'' = Some ''mirror''" "pin_in_force sample_rules ''private'' = None"
    "pin_in_force sample_rules ''numpy'' = None" "\<not> fallback_in_force sample_rules ''private''" "fallback_in_force sample_rules ''numpy''"
    by (simp_all add: sample_rules_def pin_in_force_def next_pin_def fallback_in_force_def next_fallback_def)
  note used = candidates_exact [OF ok]
  have "router_source (projr (apply_rules (projr (router_new sample_sources)) sample_rules)) ''mirror'' = Some (named_new ''mirror'' sample_client)"
    using used [of _ _ "''mirror''" "named_new ''mirror'' sample_client"] by (simp add: sample_sources_def named_new_def)
  then show ?thesis
    using used [of "''torch''"] used [of "''private''"] used [of "''numpy''"] spec
    by (simp add: Let_def sample_sources_def named_new_def)
qed

end
