(* ===== verification/OciNames.thy ===== *)
theory OciNames
  imports Blobs PathSafety
begin

text \<open>
  Parsing the paths of the OCI distribution protocol, \<open>crates/peryx-ecosystem-oci/src/name.rs\<close>: repository
  names, tags, digests and the verbs counted from the end of a path.
\<close>

section \<open>Grammar checks\<close>

definition is_lowercase :: "char \<Rightarrow> bool" where
  "is_lowercase c \<longleftrightarrow> CHR ''a'' \<le> c \<and> c \<le> CHR ''z''"

definition is_uppercase :: "char \<Rightarrow> bool" where
  "is_uppercase c \<longleftrightarrow> CHR ''A'' \<le> c \<and> c \<le> CHR ''Z''"

definition is_alphanumeric :: "char \<Rightarrow> bool" where
  "is_alphanumeric c \<longleftrightarrow> is_lowercase c \<or> is_uppercase c \<or> is_digit c"

definition alnum :: "char \<Rightarrow> bool" where
  "alnum b \<longleftrightarrow> is_lowercase b \<or> is_digit b"

definition separator_ok :: "string \<Rightarrow> bool" where
  "separator_ok s \<longleftrightarrow> s = ''.'' \<or> s = ''_'' \<or> s = ''__'' \<or> list_all (\<lambda>b. b = CHR ''-'') s"

function scan_component :: "string \<Rightarrow> bool" where
  "scan_component s = (case s of
      [] \<Rightarrow> True
    | b # rest \<Rightarrow>
        if alnum b then scan_component rest
        else separator_ok (takeWhile (\<lambda>b. \<not> alnum b) s) \<and> scan_component (dropWhile (\<lambda>b. \<not> alnum b) s))"
  by pat_completeness auto
termination
  by (relation "measure length") (auto simp: less_Suc_eq_le length_dropWhile_le)

declare scan_component.simps [simp del]

definition valid_name_component :: "string \<Rightarrow> bool" where
  "valid_name_component component =
     (if component = [] \<or> \<not> alnum (hd component) \<or> \<not> alnum (last component) then False else scan_component component)"

definition join_name :: "string list \<Rightarrow> string option" where
  "join_name components =
     (if components = [] \<or> \<not> list_all valid_name_component components then None
      else let name = join_on CHR ''/'' components in if length name \<le> 255 then Some name else None)"

definition valid_tag :: "string \<Rightarrow> bool" where
  "valid_tag tag = (case tag of
      [] \<Rightarrow> False
    | first # rest \<Rightarrow> length tag \<le> 128 \<and> (is_alphanumeric first \<or> first = CHR ''_'')
        \<and> list_all (\<lambda>b. is_alphanumeric b \<or> b \<in> set ''._-'') rest)"

definition parse_digest :: "string \<Rightarrow> string option" where
  "parse_digest digest = (case split_once CHR '':'' digest of
      None \<Rightarrow> None
    | Some (algorithm, encoded) \<Rightarrow>
        let algorithm_ok = algorithm \<noteq> [] \<and> list_all (\<lambda>b. is_lowercase b \<or> is_digit b \<or> b \<in> set ''+._-'') algorithm;
            encoded_ok = encoded \<noteq> [] \<and> list_all (\<lambda>b. is_lowercase b \<or> is_digit b \<or> b \<in> set ''=_-'') encoded
        in if algorithm_ok \<and> encoded_ok then Some digest else None)"

datatype reference = Tag string | Digest string

definition parse_reference :: "string \<Rightarrow> reference option" where
  "parse_reference r =
     (if CHR '':'' \<in> set r then map_option Digest (parse_digest r)
      else if valid_tag r then Some (Tag r) else None)"

fun split_any :: "string \<Rightarrow> string \<Rightarrow> string list" where
  "split_any cs [] = [[]]"
| "split_any cs (x # xs) =
     (if x \<in> set cs then [] # split_any cs xs
      else case split_any cs xs of [] \<Rightarrow> [[x]] | p # ps \<Rightarrow> (x # p) # ps)"

definition valid_content_digest :: "string \<Rightarrow> bool" where
  "valid_content_digest digest = (case split_once CHR '':'' digest of
      None \<Rightarrow> False
    | Some (algorithm, encoded) \<Rightarrow>
        let component = (\<lambda>part. part \<noteq> [] \<and> list_all (\<lambda>b. is_lowercase b \<or> is_digit b) part);
            algorithm_ok = list_all component (split_any ''+._-'' algorithm);
            encoded_ok = encoded \<noteq> [] \<and> list_all (\<lambda>b. is_alphanumeric b \<or> b \<in> set ''=_-'') encoded;
            lower_hex = (\<lambda>len. length encoded = len \<and> list_all (\<lambda>b. is_digit b \<or> CHR ''a'' \<le> b \<and> b \<le> CHR ''f'') encoded)
        in if \<not> algorithm_ok \<or> \<not> encoded_ok then False
           else if algorithm = ''sha256'' then lower_hex 64
           else if algorithm = ''sha512'' then lower_hex 128
           else True)"

section \<open>Routes\<close>

datatype oci_route =
    Catalog
  | ManifestRoute string reference
  | BlobRoute string string
  | BlobContents string string
  | TagsList string
  | Referrers string string
  | UploadStart string
  | UploadSessionRoute string string

definition strip_suffix_slash :: "string \<Rightarrow> string" where
  "strip_suffix_slash s = (if s \<noteq> [] \<and> last s = CHR ''/'' then butlast s else s)"

definition classify_segments :: "string list \<Rightarrow> oci_route option" where
  "classify_segments segments =
     (let len = length segments
      in if [] \<in> set segments then None
         else if len < 2 then None
         else if 3 \<le> len \<and> segments ! (len - 3) = ''blobs'' \<and> segments ! (len - 2) = ''uploads'' then
           map_option (\<lambda>name. UploadSessionRoute name (segments ! (len - 1))) (join_name (take (len - 3) segments))
         else if 3 \<le> len \<and> segments ! (len - 3) = ''blobs'' \<and> segments ! (len - 1) = ''contents'' then
           Option.bind (join_name (take (len - 3) segments)) (\<lambda>name.
             map_option (\<lambda>digest. BlobContents name digest) (parse_digest (segments ! (len - 2))))
         else let verb = segments ! (len - 2); tail = segments ! (len - 1); name = join_name (take (len - 2) segments)
         in if verb = ''blobs'' \<and> tail = ''uploads'' then map_option UploadStart name
            else if verb = ''manifests'' then Option.bind name (\<lambda>name. map_option (ManifestRoute name) (parse_reference tail))
            else if verb = ''blobs'' then Option.bind name (\<lambda>name. map_option (BlobRoute name) (parse_digest tail))
            else if verb = ''tags'' \<and> tail = ''list'' then map_option TagsList name
            else if verb = ''referrers'' then map_option (\<lambda>name. Referrers name tail) name
            else None)"

definition classify :: "string \<Rightarrow> oci_route option" where
  "classify path = (case strip_prefix ''/v2/'' path of
      None \<Rightarrow> None
    | Some rest \<Rightarrow>
        let rest = strip_suffix_slash rest
        in if rest = ''_catalog'' then Some Catalog else classify_segments (split_on CHR ''/'' rest))"

section \<open>The grammar of names\<close>

definition name_run :: "string \<Rightarrow> bool" where
  "name_run s \<longleftrightarrow> s \<noteq> [] \<and> list_all alnum s"

definition name_separator :: "string \<Rightarrow> bool" where
  "name_separator s \<longleftrightarrow> s = ''.'' \<or> s = ''_'' \<or> s = ''__'' \<or> s \<noteq> [] \<and> list_all (\<lambda>b. b = CHR ''-'') s"

text \<open>\<open>path-component ::= alnum+ (separator alnum+)*\<close>\<close>

inductive name_component :: "string \<Rightarrow> bool" where
  run: "name_run r \<Longrightarrow> name_component r"
| sep: "name_run r \<Longrightarrow> name_separator t \<Longrightarrow> name_component u \<Longrightarrow> name_component (r @ t @ u)"

lemma alnum_not_sep: "alnum b \<Longrightarrow> b \<notin> {CHR ''.'', CHR ''_'', CHR ''-''}"
  by (auto simp: alnum_def is_lowercase_def is_digit_def less_eq_char_def)

lemma scan_run: "list_all alnum r \<Longrightarrow> scan_component (r @ s) = scan_component s"
  by (induction r) (simp_all add: scan_component.simps [of "_ # _"])

lemma scan_separator:
  assumes "list_all (\<lambda>b. \<not> alnum b) t" "t \<noteq> []" "u = [] \<or> alnum (hd u)"
  shows "scan_component (t @ u) \<longleftrightarrow> separator_ok t \<and> scan_component u"
proof -
  have "takeWhile (\<lambda>b. \<not> alnum b) (t @ u) = t" "dropWhile (\<lambda>b. \<not> alnum b) (t @ u) = u"
    using assms by (cases u; auto simp: list_all_iff takeWhile_append dropWhile_append)+
  moreover obtain b t' where "t = b # t'" "\<not> alnum b" using assms(1,2) by (cases t) auto
  ultimately show ?thesis by (simp add: scan_component.simps [of "b # t' @ u"])
qed

lemma name_component_hd_last:
  assumes "name_component s"
  shows "s \<noteq> [] \<and> alnum (hd s) \<and> alnum (last s)"
  using assms by induction (auto simp: name_run_def list_all_iff)

lemma name_separator_ok: "name_separator t \<longleftrightarrow> t \<noteq> [] \<and> separator_ok t"
  by (auto simp: name_separator_def separator_ok_def)

lemma separator_not_alnum: "separator_ok t \<Longrightarrow> list_all (\<lambda>b. \<not> alnum b) t"
  using alnum_not_sep by (auto simp: separator_ok_def list_all_iff)

lemma name_component_scan: "name_component s \<Longrightarrow> scan_component s"
proof (induction rule: name_component.induct)
  case (run r)
  then show ?case using scan_run [of r "[]"] by (simp add: name_run_def scan_component.simps [of "[]"])
next
  case (sep r t u)
  then show ?case
    using scan_separator [of t u] name_component_hd_last [OF sep(3)] separator_not_alnum [of t] scan_run [of r "t @ u"]
    by (simp add: name_run_def name_separator_ok)
qed

lemma scan_name_component:
  "scan_component s \<Longrightarrow> s \<noteq> [] \<Longrightarrow> alnum (hd s) \<Longrightarrow> alnum (last s) \<Longrightarrow> name_component s"
proof (induction s rule: length_induct)
  case (1 s)
  define r where "r = takeWhile alnum s"
  define t where "t = takeWhile (\<lambda>b. \<not> alnum b) (dropWhile alnum s)"
  define u where "u = dropWhile (\<lambda>b. \<not> alnum b) (dropWhile alnum s)"
  have s: "s = r @ t @ u" by (simp add: r_def t_def u_def)
  have "r \<noteq> []" using 1(3,4) by (cases s) (simp_all add: r_def)
  then have r: "name_run r" by (auto simp: r_def name_run_def list_all_iff dest: set_takeWhileD)
  show ?case
  proof (cases "dropWhile alnum s = []")
    case True
    then have "r = s" unfolding r_def by (metis append_Nil2 takeWhile_dropWhile_id)
    with r show ?thesis by (metis name_component.run)
  next
    case False
    have "\<not> alnum (hd (dropWhile alnum s))" using False hd_dropWhile by blast
    then have t: "t \<noteq> []" using False by (cases "dropWhile alnum s") (simp_all add: t_def)
    have tn: "list_all (\<lambda>b. \<not> alnum b) t" by (auto simp: t_def list_all_iff dest: set_takeWhileD)
    have u: "u \<noteq> []"
      using 1(5) t tn s by (metis append_Nil2 last_appendR last_in_set list_all_iff)
    have hd: "alnum (hd u)" using u hd_dropWhile [of "\<lambda>b. \<not> alnum b" "dropWhile alnum s"] by (simp add: u_def)
    have "scan_component (r @ t @ u)" using 1(2) s by simp
    then have "scan_component (t @ u)" using r scan_run [of r "t @ u"] by (simp add: name_run_def)
    then have "separator_ok t" "scan_component u" using scan_separator [OF tn t] hd by simp_all
    moreover have "length u < length s" using t s by simp
    moreover have "last u = last s" using u s by simp
    ultimately have "name_component u" using 1(1,5) u hd by simp
    from name_component.sep [OF r _ this] show ?thesis
      using \<open>separator_ok t\<close> t s by (simp add: name_separator_ok)
  qed
qed

lemma valid_name_component_iff: "valid_name_component s \<longleftrightarrow> name_component s"
  using name_component_scan scan_name_component name_component_hd_last by (auto simp: valid_name_component_def)

section \<open>Every path and its route\<close>

definition name_ok :: "string \<Rightarrow> bool" where
  "name_ok n \<longleftrightarrow> length n \<le> 255 \<and> (\<forall>c \<in> set (split_on CHR ''/'' n). name_component c)"

definition digest_ok :: "string \<Rightarrow> bool" where
  "digest_ok d \<longleftrightarrow> parse_digest d = Some d"

definition route_segments :: "oci_route \<Rightarrow> string list" where
  "route_segments r = (case r of
      Catalog \<Rightarrow> [''_catalog'']
    | ManifestRoute n (Tag t) \<Rightarrow> split_on CHR ''/'' n @ [''manifests'', t]
    | ManifestRoute n (Digest d) \<Rightarrow> split_on CHR ''/'' n @ [''manifests'', d]
    | BlobRoute n d \<Rightarrow> split_on CHR ''/'' n @ [''blobs'', d]
    | BlobContents n d \<Rightarrow> split_on CHR ''/'' n @ [''blobs'', d, ''contents'']
    | TagsList n \<Rightarrow> split_on CHR ''/'' n @ [''tags'', ''list'']
    | Referrers n d \<Rightarrow> split_on CHR ''/'' n @ [''referrers'', d]
    | UploadStart n \<Rightarrow> split_on CHR ''/'' n @ [''blobs'', ''uploads'']
    | UploadSessionRoute n s \<Rightarrow> split_on CHR ''/'' n @ [''blobs'', ''uploads'', s])"

definition route_path :: "oci_route \<Rightarrow> string" where
  "route_path r = ''/v2/'' @ join_on CHR ''/'' (route_segments r)"

definition segment_ok :: "string \<Rightarrow> bool" where
  "segment_ok s \<longleftrightarrow> s \<noteq> [] \<and> CHR ''/'' \<notin> set s"

definition route_ok :: "oci_route \<Rightarrow> bool" where
  "route_ok r = (case r of
      Catalog \<Rightarrow> True
    | ManifestRoute n (Tag t) \<Rightarrow> name_ok n \<and> valid_tag t
    | ManifestRoute n (Digest d) \<Rightarrow> name_ok n \<and> digest_ok d
    | BlobRoute n d \<Rightarrow> name_ok n \<and> digest_ok d
    | BlobContents n d \<Rightarrow> name_ok n \<and> digest_ok d
    | TagsList n \<Rightarrow> name_ok n
    | Referrers n d \<Rightarrow> name_ok n \<and> segment_ok d
    | UploadStart n \<Rightarrow> name_ok n
    | UploadSessionRoute n s \<Rightarrow> name_ok n \<and> segment_ok s)"

text \<open>
  The routes that the layer browser shadows: in a repository whose last component is \<open>blobs\<close>, the tag (or the
  malformed digest) \<open>contents\<close>.
\<close>

definition shadowed :: "oci_route \<Rightarrow> bool" where
  "shadowed r = (case r of
      ManifestRoute n (Tag t) \<Rightarrow> t = ''contents'' \<and> last (split_on CHR ''/'' n) = ''blobs''
    | Referrers n d \<Rightarrow> d = ''contents'' \<and> last (split_on CHR ''/'' n) = ''blobs''
    | _ \<Rightarrow> False)"

lemma join_name_Some:
  assumes "\<forall>p \<in> set ps. CHR ''/'' \<notin> set p"
  shows "join_name ps = Some n \<longleftrightarrow> name_ok n \<and> ps = split_on CHR ''/'' n"
proof (cases "ps = []")
  case True
  then show ?thesis using split_on_nonempty [of "CHR ''/''" n] by (auto simp: join_name_def)
next
  case False
  show ?thesis
    using split_join [OF False assms] join_split [of "CHR ''/''" n] False
    by (auto simp: join_name_def name_ok_def list_all_iff valid_name_component_iff Let_def split: if_splits)
qed

lemma list_all_avoids: "list_all P xs \<Longrightarrow> \<not> P x \<Longrightarrow> x \<notin> set xs"
  by (auto simp: list_all_iff)

lemma char_classes: "\<not> is_lowercase CHR ''/''" "\<not> is_digit CHR ''/''" "\<not> is_uppercase CHR ''/''"
  "\<not> is_lowercase CHR '':''" "\<not> is_digit CHR '':''" "\<not> is_uppercase CHR '':''"
  "\<not> is_lowercase CHR 0x00" "\<not> is_digit CHR 0x00" "\<not> is_uppercase CHR 0x00"
  by (simp_all add: is_lowercase_def is_uppercase_def is_digit_def less_eq_char_def)

lemma digest_chars:
  assumes "digest_ok d"
  shows "d \<noteq> []" "CHR '':'' \<in> set d" "CHR ''/'' \<notin> set d" "CHR 0x00 \<notin> set d"
proof -
  obtain a b where ab: "d = a @ CHR '':'' # b"
    and a: "list_all (\<lambda>b. is_lowercase b \<or> is_digit b \<or> b \<in> set ''+._-'') a"
    and b: "list_all (\<lambda>b. is_lowercase b \<or> is_digit b \<or> b \<in> set ''=_-'') b"
    using assms by (auto simp: digest_ok_def parse_digest_def split_once_Some Let_def split: option.splits if_splits)
  show "d \<noteq> []" "CHR '':'' \<in> set d" using ab by simp_all
  show "CHR ''/'' \<notin> set d" "CHR 0x00 \<notin> set d"
    using list_all_avoids [OF a, of "CHR ''/''"] list_all_avoids [OF b, of "CHR ''/''"]
      list_all_avoids [OF a, of "CHR 0x00"] list_all_avoids [OF b, of "CHR 0x00"] by (simp_all add: ab char_classes)
qed

lemma parse_digest_Some: "parse_digest s = Some d \<longleftrightarrow> s = d \<and> digest_ok d"
  by (auto simp: digest_ok_def parse_digest_def Let_def split: option.splits if_splits)

lemma tag_chars:
  assumes "valid_tag t"
  shows "t \<noteq> []" "CHR '':'' \<notin> set t" "CHR ''/'' \<notin> set t" "CHR 0x00 \<notin> set t"
proof -
  obtain first rest where t: "t = first # rest" and ok: "is_alphanumeric first \<or> first = CHR ''_''"
    and tail: "list_all (\<lambda>b. is_alphanumeric b \<or> b \<in> set ''._-'') rest"
    using assms by (cases t) (simp_all add: valid_tag_def)
  have first: "c \<noteq> first" if "\<not> is_alphanumeric c" "c \<noteq> CHR ''_''" for c using ok that by blast
  show "t \<noteq> []" using t by simp
  show "CHR '':'' \<notin> set t" "CHR ''/'' \<notin> set t" "CHR 0x00 \<notin> set t"
    using list_all_avoids [OF tail, of "CHR '':''"] list_all_avoids [OF tail, of "CHR ''/''"] list_all_avoids [OF tail, of "CHR 0x00"]
      first [of "CHR '':''"] first [of "CHR ''/''"] first [of "CHR 0x00"]
    by (simp_all add: t is_alphanumeric_def char_classes)
qed

lemma parse_reference_Some:
  "parse_reference s = Some r \<longleftrightarrow> (case r of Tag t \<Rightarrow> s = t \<and> valid_tag t | Digest d \<Rightarrow> s = d \<and> digest_ok d)"
  using tag_chars(2) [of s] digest_chars(2) [of s]
  by (cases r) (auto simp: parse_reference_def parse_digest_Some)

lemma split_on_segments: "\<forall>p \<in> set (split_on CHR ''/'' s). CHR ''/'' \<notin> set p"
  using split_on_clean by blast

lemma name_ok_segments: "name_ok n \<Longrightarrow> [] \<notin> set (split_on CHR ''/'' n)"
  using name_component_hd_last by (auto simp: name_ok_def)

lemma segment_ok_digest: "digest_ok d \<Longrightarrow> segment_ok d"
  by (simp add: segment_ok_def digest_chars)

lemma segment_ok_tag: "valid_tag t \<Longrightarrow> segment_ok t"
  by (simp add: segment_ok_def tag_chars)

lemma name_ok_split: "name_ok n \<Longrightarrow> list_all segment_ok (split_on CHR ''/'' n)"
  using name_ok_segments split_on_segments by (auto simp: list_all_iff segment_ok_def)

lemma route_segments_clean: "route_ok r \<Longrightarrow> list_all segment_ok (route_segments r)"
  by (cases r)
    (auto simp: route_ok_def route_segments_def name_ok_split segment_ok_tag segment_ok_digest split: reference.splits;
      simp add: segment_ok_def)+

lemma classify_tail:
  assumes "list_all segment_ok (ys @ [v, t])"
  shows "classify_segments (ys @ [v, t]) =
    (if ys \<noteq> [] \<and> last ys = ''blobs'' \<and> v = ''uploads'' then map_option (\<lambda>n. UploadSessionRoute n t) (join_name (butlast ys))
     else if ys \<noteq> [] \<and> last ys = ''blobs'' \<and> t = ''contents'' then
       Option.bind (join_name (butlast ys)) (\<lambda>n. map_option (BlobContents n) (parse_digest v))
     else if v = ''blobs'' \<and> t = ''uploads'' then map_option UploadStart (join_name ys)
     else if v = ''manifests'' then Option.bind (join_name ys) (\<lambda>n. map_option (ManifestRoute n) (parse_reference t))
     else if v = ''blobs'' then Option.bind (join_name ys) (\<lambda>n. map_option (BlobRoute n) (parse_digest t))
     else if v = ''tags'' \<and> t = ''list'' then map_option TagsList (join_name ys)
     else if v = ''referrers'' then map_option (\<lambda>n. Referrers n t) (join_name ys)
     else None)"
proof -
  let ?segs = "ys @ [v, t]"
  have shape: "([] \<in> set ?segs) = False" "(length ?segs < 2) = False" "?segs ! (length ?segs - 2) = v"
    "?segs ! (length ?segs - 1) = t" "take (length ?segs - 2) ?segs = ys"
    using assms by (auto simp: list_all_iff segment_ok_def nth_append)
  show ?thesis
  proof (cases ys rule: rev_cases)
    case Nil
    have short: "(3 \<le> length ?segs) = False" by (simp add: Nil)
    show ?thesis unfolding classify_segments_def Let_def by (simp only: shape short) (simp add: Nil)
  next
    case (snoc zs z)
    have long: "(3 \<le> length ?segs) = True" "?segs ! (length ?segs - 3) = z" "take (length ?segs - 3) ?segs = zs"
      "(ys \<noteq> []) = True" "last ys = z" "butlast ys = zs" by (simp_all add: snoc nth_append)
    show ?thesis unfolding classify_segments_def Let_def by (simp only: shape long simp_thms if_False)
  qed
qed

lemma classify_segments_None: "[] \<in> set segs \<Longrightarrow> classify_segments segs = None" "length segs < 2 \<Longrightarrow> classify_segments segs = None"
  unfolding classify_segments_def Let_def by (simp_all only: if_True if_cancel)

lemma oci_route_cases [case_names Catalog Tagged Digested Blob Contents Tags Refs Start Session]:
  obtains "r = Catalog" | n t where "r = ManifestRoute n (Tag t)" | n d where "r = ManifestRoute n (Digest d)"
  | n d where "r = BlobRoute n d" | n d where "r = BlobContents n d" | n where "r = TagsList n"
  | n d where "r = Referrers n d" | n where "r = UploadStart n" | n s where "r = UploadSessionRoute n s"
  by (metis oci_route.exhaust reference.exhaust)

lemma snoc_iff: "ys = xs @ [x] \<longleftrightarrow> ys \<noteq> [] \<and> butlast ys = xs \<and> last ys = x"
  by (cases ys rule: rev_cases) auto

lemmas route_defs = route_ok_def shadowed_def route_segments_def

lemma classify_segments_sound:
  assumes "classify_segments segs = Some r" "\<forall>p \<in> set segs. CHR ''/'' \<notin> set p"
  shows "route_ok r \<and> \<not> shadowed r \<and> r \<noteq> Catalog \<and> segs = route_segments r"
proof -
  have ne: "[] \<notin> set segs" and len: "\<not> length segs < 2"
    using assms(1) classify_segments_None [of segs] by auto
  then obtain ys v t where segs: "segs = ys @ [v, t]"
    by (cases segs rule: rev_cases; simp) (metis append.assoc append_Cons append_Nil length_greater_0_conv rev_exhaust)
  have ok: "list_all segment_ok (ys @ [v, t])" using assms(2) ne segs by (auto simp: list_all_iff segment_ok_def)
  have clean: "\<forall>p \<in> set ys. CHR ''/'' \<notin> set p" "\<forall>p \<in> set (butlast ys). CHR ''/'' \<notin> set p" "segment_ok t"
    using assms(2) ok by (auto simp: segs dest: in_set_butlastD)
  note name = join_name_Some [OF clean(1)] join_name_Some [OF clean(2)]
  show ?thesis
    using assms(1) clean(3) unfolding segs classify_tail [OF ok]
    by (cases r rule: oci_route_cases)
      (auto simp: name route_defs parse_digest_Some parse_reference_Some bind_eq_Some_conv split_on_nonempty
        snoc_iff split: if_splits)
qed

lemma classify_segments_complete:
  assumes "route_ok r" "r \<noteq> Catalog"
  shows "classify_segments (route_segments r) = (if shadowed r then None else Some r)"
proof -
  have join: "name_ok n \<Longrightarrow> join_name (split_on CHR ''/'' n) = Some n" for n
    by (simp add: join_name_Some [OF split_on_segments])
  have dig: "digest_ok d \<Longrightarrow> parse_digest d = Some d" for d by (simp add: digest_ok_def)
  have colon: "parse_digest ''manifests'' = None" "parse_digest ''referrers'' = None" by (simp_all add: parse_digest_def)
  have word: "digest_ok d \<Longrightarrow> d \<noteq> ''uploads'' \<and> d \<noteq> ''contents''" for d using digest_chars(2) [of d] by auto
  have ref: "valid_tag t \<Longrightarrow> parse_reference t = Some (Tag t)" "digest_ok t \<Longrightarrow> parse_reference t = Some (Digest t)" for t
    by (simp_all add: parse_reference_Some)
  note clean = route_segments_clean [OF assms(1)]
  show ?thesis
  proof (cases r rule: oci_route_cases)
    case (Contents n d)
    with assms clean classify_tail [of "split_on CHR ''/'' n @ [''blobs'']" d "''contents''"] word show ?thesis
      by (auto simp: route_defs join dig)
  next
    case (Session n t)
    with assms clean classify_tail [of "split_on CHR ''/'' n @ [''blobs'']" "''uploads''" t] show ?thesis
      by (simp add: route_defs join)
  next
    case (Blob n d)
    with assms clean word [of d] show ?thesis by (auto simp: route_defs join dig classify_tail)
  next
    case (Digested n d)
    with assms clean word [of d] show ?thesis by (auto simp: route_defs join ref classify_tail)
  qed (use assms clean in \<open>auto simp: route_defs join ref classify_tail colon split_on_nonempty\<close>)
qed

text \<open>C28: The route of every request path.  A path of the distribution protocol is classified as a route exactly when
  it is the path of that route, with or without one trailing slash, where the repository name is at most 255 bytes of
  slash-separated components of the grammar \<open>alnum+ (separator alnum+)*\<close>, and tags, digests and sessions are
  well formed; the one exception are the routes with reference \<open>contents\<close> in a repository whose last
  component is \<open>blobs\<close>, which the layer browser shadows and which are answered as unknown.\<close>

theorem classify_exact:
  "classify path = Some r \<longleftrightarrow>
     route_ok r \<and> \<not> shadowed r \<and> (path = route_path r \<or> path = route_path r @ ''/'')"
proof
  assume c: "classify path = Some r"
  then obtain rest where rest: "path = ''/v2/'' @ rest"
    by (auto simp: classify_def strip_prefix_Some split: option.splits)
  have slash: "rest = strip_suffix_slash rest \<or> rest = strip_suffix_slash rest @ ''/''"
    by (simp add: strip_suffix_slash_def) (metis append_butlast_last_id)
  have strip: "strip_prefix ''/v2/'' path = Some rest" by (simp add: rest strip_prefix_Some)
  show "route_ok r \<and> \<not> shadowed r \<and> (path = route_path r \<or> path = route_path r @ ''/'')"
  proof (cases "strip_suffix_slash rest = ''_catalog''")
    case True
    with c strip slash show ?thesis by (auto simp: classify_def route_defs route_path_def rest)
  next
    case False
    with c strip have "classify_segments (split_on CHR ''/'' (strip_suffix_slash rest)) = Some r" by (simp add: classify_def)
    from classify_segments_sound [OF this split_on_segments]
    have r: "route_ok r \<and> \<not> shadowed r" "join_on CHR ''/'' (route_segments r) = strip_suffix_slash rest"
      using join_split [of "CHR ''/''" "strip_suffix_slash rest"] by auto
    with slash show ?thesis by (auto simp: route_path_def rest)
  qed
next
  assume r: "route_ok r \<and> \<not> shadowed r \<and> (path = route_path r \<or> path = route_path r @ ''/'')"
  let ?j = "join_on CHR ''/'' (route_segments r)"
  have clean: "list_all segment_ok (route_segments r)" using r route_segments_clean by blast
  have ne: "route_segments r \<noteq> []" by (cases r rule: oci_route_cases) (simp_all add: route_segments_def)
  have segs: "split_on CHR ''/'' ?j = route_segments r"
    using split_join [OF ne] clean by (simp add: list_all_iff segment_ok_def)
  have "segment_ok (last (route_segments r))" using clean ne by (simp add: list_all_iff)
  then have "last (last (route_segments r)) \<noteq> CHR ''/''" "last (route_segments r) \<noteq> []"
    by (auto simp: segment_ok_def dest: last_in_set)
  with join_last [OF ne] have "strip_suffix_slash ?j = ?j" "strip_suffix_slash (?j @ ''/'') = ?j"
    by (simp_all add: strip_suffix_slash_def)
  then have c: "classify path = (if ?j = ''_catalog'' then Some Catalog else classify_segments (route_segments r))"
    using r by (auto simp: classify_def route_path_def strip_prefix_def segs)
  show "classify path = Some r"
  proof (cases "r = Catalog")
    case True
    then show ?thesis unfolding c by (simp add: route_segments_def)
  next
    case False
    then have "2 \<le> length (route_segments r)" by (cases r rule: oci_route_cases) (simp_all add: route_segments_def)
    moreover have "length (route_segments r) = 1" if "?j = ''_catalog''" using arg_cong [OF segs, of length] that by simp
    ultimately have "?j \<noteq> ''_catalog''" by auto
    with c classify_segments_complete [of r] False r show ?thesis by simp
  qed
qed

lemma contents_tag_shadowed:
  "classify ''/v2/x/blobs/manifests/contents'' = None" "classify ''/v2/x/manifests/contents'' = Some (ManifestRoute ''x'' (Tag ''contents''))"
  by code_simp+

end
