(* ===== verification/Json.thy ===== *)
theory Json
  imports Strs
begin

text \<open>
  JSON documents as \<open>serde_json::Value\<close> has them: the accessors the drivers use, and text splitting both drivers share.
  Parsing and printing the text of a document is an argument wherever it is used.
\<close>

section \<open>JSON documents\<close>

datatype json_doc =
    JNull
  | JBool bool
  | JNumber string
  | JString string
  | JArray "json_doc list"
  | JObject "(string \<times> json_doc) list"

definition json_field :: "json_doc \<Rightarrow> string \<Rightarrow> json_doc" where
  "json_field d k = (case d of JObject kvs \<Rightarrow> unwrap_or JNull (map_of kvs k) | _ \<Rightarrow> JNull)"

definition as_str :: "json_doc \<Rightarrow> string option" where
  "as_str d = (case d of JString s \<Rightarrow> Some s | _ \<Rightarrow> None)"

definition as_array :: "json_doc \<Rightarrow> json_doc list option" where
  "as_array d = (case d of JArray xs \<Rightarrow> Some xs | _ \<Rightarrow> None)"

type_synonym json_parser = "bytes \<Rightarrow> json_doc option"

definition NUL :: char where "NUL = CHR 0x00"

text \<open>\<open>rsplit_once\<close> on the separator.\<close>

definition rsplit_once :: "char \<Rightarrow> string \<Rightarrow> (string \<times> string) option" where
  "rsplit_once c s = map_option (\<lambda>(a, b). (rev b, rev a)) (split_once c (rev s))"

end
