(* ===== verification/OciStore.thy ===== *)
theory OciStore
  imports OciNames Journal Json
begin

text \<open>
  How the OCI driver lays manifests, tags, memberships, tag pages and referrers into the rows of the metadata
  store, \<open>crates/peryx-ecosystem-oci/src/store.rs\<close> and \<open>store/descriptors.rs\<close>, and the deletion of a manifest by
  digest in \<open>registry/manifests/write.rs\<close>.  \<open>serde_json\<close> is the argument \<open>parse_json\<close>.  The failures of
  redb are never produced, so a read is its value and a write its new store.
\<close>

section \<open>Numbers as bytes\<close>

fun be_encode :: "nat \<Rightarrow> nat \<Rightarrow> bytes" where
  "be_encode 0 n = []"
| "be_encode (Suc w) n = be_encode w (n div 256) @ [char_of n]"

definition be_decode :: "bytes \<Rightarrow> nat" where
  "be_decode b = foldl (\<lambda>n c. 256 * n + of_char c) 0 b"

definition i64_to_be :: "int \<Rightarrow> bytes" where
  "i64_to_be at = be_encode 8 (nat (at mod 2 ^ 64))"

definition i64_from_be :: "bytes \<Rightarrow> int" where
  "i64_from_be b = (let n = int (be_decode b) in if n < 2 ^ 63 then n else n - 2 ^ 64)"

lemma length_be_encode [simp]: "length (be_encode w n) = w"
  by (induction w arbitrary: n) simp_all

lemma be_roundtrip: "be_decode (be_encode w n) = n mod 256 ^ w"
proof (induction w arbitrary: n)
  case (Suc w)
  have "be_decode (be_encode (Suc w) n) = 256 * be_decode (be_encode w (n div 256)) + n mod 256"
    by (simp add: be_decode_def of_char_of)
  with Suc show ?case by (simp add: mod_mult2_eq)
qed (simp add: be_decode_def)

lemma i64_roundtrip:
  assumes "- (2 ^ 63) \<le> at" "at < 2 ^ 63"
  shows "i64_from_be (i64_to_be at) = at"
proof -
  have n: "nat (at mod 2 ^ 64) < 256 ^ 8" by (simp add: nat_less_iff)
  then have v: "int (be_decode (i64_to_be at)) = at mod 2 ^ 64" by (simp add: i64_to_be_def be_roundtrip)
  show ?thesis
  proof (cases "0 \<le> at")
    case True
    then have "at mod 2 ^ 64 = at" using assms(2) by (intro mod_pos_pos_trivial) simp_all
    with v True assms show ?thesis by (simp add: i64_from_be_def)
  next
    case False
    have "at mod 2 ^ 64 = (at + 2 ^ 64) mod 2 ^ 64" by simp
    also have "\<dots> = at + 2 ^ 64" using False assms(1) by (intro mod_pos_pos_trivial) simp_all
    finally show ?thesis using v False assms by (simp add: i64_from_be_def)
  qed
qed

section \<open>Manifests\<close>

record manifest =
  mf_media_type :: string
  mf_bytes :: bytes

definition u16_max :: nat where "u16_max = 65535"
definition u32_max :: nat where "u32_max = 4294967295"

definition manifest_encode :: "manifest \<Rightarrow> bytes" where
  "manifest_encode m = be_encode 2 (min (length (mf_media_type m)) u16_max) @ mf_media_type m @ mf_bytes m"

definition manifest_decode :: "bytes \<Rightarrow> manifest option" where
  "manifest_decode raw =
     (if length raw < 2 then None
      else let len = be_decode (take 2 raw); rest = drop 2 raw
           in if length rest < len then None
              else if \<not> valid_utf8 (take len rest) then None
              else Some \<lparr>mf_media_type = take len rest, mf_bytes = drop len rest\<rparr>)"

lemma manifest_roundtrip:
  assumes "valid_utf8 (mf_media_type m)" "length (mf_media_type m) \<le> u16_max"
  shows "manifest_decode (manifest_encode m) = Some m"
proof -
  have len: "be_decode (be_encode 2 (length (mf_media_type m))) = length (mf_media_type m)"
    using assms(2) by (simp add: be_roundtrip u16_max_def)
  show ?thesis using assms len by (simp add: manifest_decode_def manifest_encode_def Let_def min_def)
qed

section \<open>Keys\<close>

definition MANIFEST_PREFIX :: string where "MANIFEST_PREFIX = ''oci'' @ NUL # ''m'' @ [NUL]"
definition TAG_PREFIX :: string where "TAG_PREFIX = ''oci'' @ NUL # ''t'' @ [NUL]"
definition REFERRER_PREFIX :: string where "REFERRER_PREFIX = ''oci'' @ NUL # ''r'' @ [NUL]"
definition MEMBERSHIP_PREFIX :: string where "MEMBERSHIP_PREFIX = ''oci'' @ NUL # ''mm'' @ [NUL]"
definition BLOB_MEMBERSHIP_PREFIX :: string where "BLOB_MEMBERSHIP_PREFIX = ''oci'' @ NUL # ''bm'' @ [NUL]"

definition manifest_key :: "string \<Rightarrow> string" where
  "manifest_key digest = MANIFEST_PREFIX @ digest"

definition tag_prefix :: "string \<Rightarrow> string \<Rightarrow> string" where
  "tag_prefix index repo = TAG_PREFIX @ index @ NUL # repo @ [NUL]"

definition tag_key :: "string \<Rightarrow> string \<Rightarrow> string \<Rightarrow> string" where
  "tag_key index repo tag = TAG_PREFIX @ index @ NUL # repo @ NUL # tag"

definition membership_key :: "string \<Rightarrow> string \<Rightarrow> string \<Rightarrow> string" where
  "membership_key index repo digest = MEMBERSHIP_PREFIX @ index @ NUL # repo @ NUL # digest"

definition membership_prefix :: "string \<Rightarrow> string \<Rightarrow> string" where
  "membership_prefix index repo = MEMBERSHIP_PREFIX @ index @ NUL # repo @ [NUL]"

definition blob_membership_key :: "string \<Rightarrow> string \<Rightarrow> string \<Rightarrow> string" where
  "blob_membership_key index repo digest = BLOB_MEMBERSHIP_PREFIX @ index @ NUL # repo @ NUL # digest"

definition tag_page_key :: "string \<Rightarrow> string \<Rightarrow> string \<Rightarrow> string" where
  "tag_page_key index repo query = ''oci'' @ NUL # ''tp'' @ NUL # index @ NUL # repo @ NUL # query"

definition tag_freshness_key :: "string \<Rightarrow> string \<Rightarrow> string \<Rightarrow> string" where
  "tag_freshness_key index repo tag = ''oci'' @ NUL # ''tf'' @ NUL # index @ NUL # repo @ NUL # tag"

definition referrer_prefix :: "string \<Rightarrow> string \<Rightarrow> string \<Rightarrow> string" where
  "referrer_prefix index repo subject = REFERRER_PREFIX @ index @ NUL # repo @ NUL # subject @ [NUL]"

definition split_referrer_key :: "string \<Rightarrow> (string \<times> string) option" where
  "split_referrer_key key =
     Option.bind (rsplit_once NUL key) (\<lambda>(rest, referrer).
       map_option (\<lambda>(_, subject). (subject, referrer)) (rsplit_once NUL rest))"

section \<open>Descriptors\<close>

definition blob_digest :: "string \<Rightarrow> string option" where
  "blob_digest digest = Option.bind (strip_prefix ''sha256:'' digest) from_hex"

definition manifest_descriptors :: "json_parser \<Rightarrow> bytes \<Rightarrow> string list \<times> string list" where
  "manifest_descriptors parse_json bytes = (case parse_json bytes of
      None \<Rightarrow> ([], [])
    | Some document \<Rightarrow>
        (case as_array (json_field document ''manifests'') of
           Some manifests \<Rightarrow> (List.map_filter (\<lambda>entry. as_str (json_field entry ''digest'')) manifests, [])
         | None \<Rightarrow>
             let config = as_str (json_field (json_field document ''config'') ''digest'');
                 layers = List.map_filter (\<lambda>layer. as_str (json_field layer ''digest''))
                   (filter (\<lambda>layer. is_none_or (as_array (json_field layer ''urls'')) (\<lambda>urls. urls = []))
                     (unwrap_or [] (as_array (json_field document ''layers''))))
             in ([], (case config of None \<Rightarrow> [] | Some c \<Rightarrow> [c]) @ layers)))"

definition linux_amd64_child :: "json_parser \<Rightarrow> bytes \<Rightarrow> string option" where
  "linux_amd64_child parse_json bytes =
     Option.bind (parse_json bytes) (\<lambda>document.
     Option.bind (as_array (json_field document ''manifests'')) (\<lambda>entries.
       find_map (\<lambda>entry.
         let platform = json_field entry ''platform''
         in if as_str (json_field platform ''os'') = Some ''linux'' \<and> as_str (json_field platform ''architecture'') = Some ''amd64''
            then as_str (json_field entry ''digest'') else None) entries))"

section \<open>Operations\<close>

definition put_manifest :: "meta_store \<Rightarrow> string \<Rightarrow> manifest \<Rightarrow> meta_store" where
  "put_manifest s digest m = put_driver_value s (manifest_key digest) (manifest_encode m)"

definition get_manifest :: "meta_store \<Rightarrow> string \<Rightarrow> manifest option" where
  "get_manifest s digest = Option.bind (get_driver_value s (manifest_key digest)) manifest_decode"

definition delete_manifest :: "meta_store \<Rightarrow> string \<Rightarrow> bool \<times> meta_store" where
  "delete_manifest s digest = delete_driver_value s (manifest_key digest)"

definition record_membership :: "meta_store \<Rightarrow> string \<Rightarrow> string \<Rightarrow> string \<Rightarrow> meta_store" where
  "record_membership s index repo digest = put_driver_value s (membership_key index repo digest) []"

definition manifest_is_member :: "meta_store \<Rightarrow> string \<Rightarrow> string \<Rightarrow> string \<Rightarrow> bool" where
  "manifest_is_member s index repo digest \<longleftrightarrow> get_driver_value s (membership_key index repo digest) \<noteq> None"

definition record_blob_membership :: "meta_store \<Rightarrow> string \<Rightarrow> string \<Rightarrow> string \<Rightarrow> meta_store" where
  "record_blob_membership s index repo digest = put_driver_value s (blob_membership_key index repo digest) []"

definition blob_is_member :: "meta_store \<Rightarrow> string \<Rightarrow> string \<Rightarrow> string \<Rightarrow> bool" where
  "blob_is_member s index repo digest \<longleftrightarrow> get_driver_value s (blob_membership_key index repo digest) \<noteq> None"

definition delete_blob_membership :: "meta_store \<Rightarrow> string \<Rightarrow> string \<Rightarrow> string \<Rightarrow> bool \<times> meta_store" where
  "delete_blob_membership s index repo digest = delete_driver_value s (blob_membership_key index repo digest)"

definition record_manifest :: "json_parser \<Rightarrow> meta_store \<Rightarrow> string \<Rightarrow> string \<Rightarrow> string \<Rightarrow> manifest \<Rightarrow> meta_store" where
  "record_manifest parse_json s index repo digest m =
     (let s = put_manifest s digest m;
          s = record_membership s index repo digest;
          (children, blobs) = manifest_descriptors parse_json (mf_bytes m);
          s = fold (\<lambda>child s. record_membership s index repo child) children s
      in fold (\<lambda>blob s. record_blob_membership s index repo blob) blobs s)"

definition put_tag :: "meta_store \<Rightarrow> string \<Rightarrow> string \<Rightarrow> string \<Rightarrow> string \<Rightarrow> meta_error + (bool \<times> meta_store)" where
  "put_tag s index repo tag digest =
     commit_driver_txn id (\<lambda>txn. let (inserted, txn) = txn_upsert txn (tag_key index repo tag) digest in Inr ((inserted, []), txn)) s"

definition get_tag :: "meta_store \<Rightarrow> string \<Rightarrow> string \<Rightarrow> string \<Rightarrow> string option" where
  "get_tag s index repo tag =
     Option.bind (get_driver_value s (tag_key index repo tag)) (\<lambda>raw. if valid_utf8 raw then Some raw else None)"

definition list_repositories :: "meta_store \<Rightarrow> string \<Rightarrow> string list" where
  "list_repositories s index =
     (let prefix = TAG_PREFIX @ index @ [NUL]
      in foldl (\<lambda>repos key. case Option.bind (strip_prefix prefix key) (rsplit_once NUL) of
              Some (repo, _) \<Rightarrow> bset_insert repo repos | None \<Rightarrow> repos) [] (driver_prefix_keys s prefix))"

definition list_tags :: "meta_store \<Rightarrow> string \<Rightarrow> string \<Rightarrow> string list" where
  "list_tags s index repo =
     List.map_filter (strip_prefix (tag_prefix index repo)) (driver_prefix_keys s (tag_prefix index repo))"

definition delete_tag :: "meta_store \<Rightarrow> string \<Rightarrow> string \<Rightarrow> string \<Rightarrow> meta_error + (bool \<times> meta_store)" where
  "delete_tag s index repo tag =
     commit_driver_txn id (\<lambda>txn.
       let (removed, txn) = txn_remove txn (tag_key index repo tag);
           (_, txn) = txn_remove txn (tag_freshness_key index repo tag)
       in Inr ((removed, []), txn)) s"

definition set_tag_page ::
    "meta_store \<Rightarrow> string \<Rightarrow> string \<Rightarrow> string \<Rightarrow> int \<Rightarrow> string option \<Rightarrow> bytes \<Rightarrow> meta_store" where
  "set_tag_page s index repo query at link body =
     (let link = unwrap_or [] link; len = min (length link) u32_max
      in put_driver_value s (tag_page_key index repo query) (i64_to_be at @ be_encode 4 len @ link @ body))"

text \<open>\<open>lossy\<close> is \<open>String::from_utf8_lossy\<close> on bytes that are not UTF-8.\<close>

definition tag_page ::
    "(bytes \<Rightarrow> string) \<Rightarrow> meta_store \<Rightarrow> string \<Rightarrow> string \<Rightarrow> string \<Rightarrow> (int \<times> string option \<times> bytes) option" where
  "tag_page lossy s index repo query = (case get_driver_value s (tag_page_key index repo query) of
      None \<Rightarrow> None
    | Some raw \<Rightarrow>
        if length raw < 8 then None
        else let at = take 8 raw; rest = drop 8 raw
        in if length rest < 4 then None
           else let len = be_decode (take 4 rest); rest = drop 4 rest
           in if length rest < len then None
              else let link = take len rest; body = drop len rest
              in Some (i64_from_be at, if link = [] then None else Some (if valid_utf8 link then link else lossy link), body))"

definition set_tag_freshness :: "meta_store \<Rightarrow> string \<Rightarrow> string \<Rightarrow> string \<Rightarrow> string \<Rightarrow> int \<Rightarrow> meta_store" where
  "set_tag_freshness s index repo tag digest at =
     put_driver_value s (tag_freshness_key index repo tag) (i64_to_be at @ digest)"

definition tag_freshness :: "meta_store \<Rightarrow> string \<Rightarrow> string \<Rightarrow> string \<Rightarrow> (int \<times> string) option" where
  "tag_freshness s index repo tag = (case get_driver_value s (tag_freshness_key index repo tag) of
      None \<Rightarrow> None
    | Some raw \<Rightarrow>
        if length raw < 8 then None
        else if valid_utf8 (drop 8 raw) then Some (i64_from_be (take 8 raw), drop 8 raw) else None)"

definition put_referrer :: "meta_store \<Rightarrow> string \<Rightarrow> string \<Rightarrow> string \<Rightarrow> string \<Rightarrow> bytes \<Rightarrow> meta_store" where
  "put_referrer s index repo subject referrer descriptor =
     put_driver_value s (referrer_prefix index repo subject @ referrer) descriptor"

definition list_referrers :: "meta_store \<Rightarrow> string \<Rightarrow> string \<Rightarrow> string \<Rightarrow> bytes list" where
  "list_referrers s index repo subject =
     List.map_filter (get_driver_value s) (driver_prefix_keys s (referrer_prefix index repo subject))"

text \<open>The digest sets are \<open>BTreeSet\<close>s that only membership and iteration look at.\<close>

definition referenced_manifest_digests :: "json_parser \<Rightarrow> meta_store \<Rightarrow> string set" where
  "referenced_manifest_digests parse_json s =
     set (List.map_filter (\<lambda>key. Option.bind (get_driver_value s key) (\<lambda>raw. if valid_utf8 raw then Some raw else None))
        (driver_prefix_keys s TAG_PREFIX))
     \<union> set (concat (map (\<lambda>key. case Option.bind (get_driver_value s key) manifest_decode of
            None \<Rightarrow> [] | Some m \<Rightarrow> fst (manifest_descriptors parse_json (mf_bytes m))) (driver_prefix_keys s MANIFEST_PREFIX)))
     \<union> set (concat (map (\<lambda>key. case split_referrer_key key of None \<Rightarrow> [] | Some (subject, referrer) \<Rightarrow> [subject, referrer])
        (driver_prefix_keys s REFERRER_PREFIX)))"

definition referenced_blob_digests :: "json_parser \<Rightarrow> meta_store \<Rightarrow> string set" where
  "referenced_blob_digests parse_json s =
     set (List.map_filter (\<lambda>key. Option.bind (rsplit_once NUL key) (\<lambda>(_, digest). blob_digest digest))
        (driver_prefix_keys s BLOB_MEMBERSHIP_PREFIX))
     \<union> set (concat (map (\<lambda>key. case Option.bind (get_driver_value s key) manifest_decode of
            None \<Rightarrow> [] | Some m \<Rightarrow> List.map_filter blob_digest (snd (manifest_descriptors parse_json (mf_bytes m))))
        (driver_prefix_keys s MANIFEST_PREFIX)))"

definition reachable_as_child :: "json_parser \<Rightarrow> meta_store \<Rightarrow> string \<Rightarrow> string \<Rightarrow> string \<Rightarrow> bool" where
  "reachable_as_child parse_json s index repo digest =
     (let prefix = membership_prefix index repo
      in list_ex (\<lambda>key. let member = drop (length prefix) key
           in member \<noteq> digest \<and>
             (case get_manifest s member of None \<Rightarrow> False
              | Some m \<Rightarrow> digest \<in> set (fst (manifest_descriptors parse_json (mf_bytes m))))) (driver_prefix_keys s prefix))"

definition prune_manifest_membership :: "json_parser \<Rightarrow> meta_store \<Rightarrow> string \<Rightarrow> string \<Rightarrow> string \<Rightarrow> meta_store" where
  "prune_manifest_membership parse_json s index repo digest =
     (if \<not> reachable_as_child parse_json s index repo digest
      then snd (delete_driver_value s (membership_key index repo digest)) else s)"

definition remove_tag_to :: "string \<Rightarrow> string \<Rightarrow> string \<Rightarrow> string \<times> bytes \<Rightarrow> nat \<times> driver_txn \<Rightarrow> nat \<times> driver_txn" where
  "remove_tag_to index repo digest = (\<lambda>(key, target) (removed, txn).
     if target = digest then
       (case strip_prefix (tag_prefix index repo) key of
          None \<Rightarrow> (removed, txn)
        | Some tag \<Rightarrow> (removed + 1, snd (txn_remove (snd (txn_remove txn key)) (tag_freshness_key index repo tag))))
     else (removed, txn))"

definition remove_referrer_to :: "string \<Rightarrow> string \<Rightarrow> nat \<times> driver_txn \<Rightarrow> nat \<times> driver_txn" where
  "remove_referrer_to digest key = (\<lambda>(removed, txn).
     case split_referrer_key key of
       None \<Rightarrow> (removed, txn)
     | Some (subject, referrer) \<Rightarrow>
         if subject = digest \<or> referrer = digest then (removed + 1, snd (txn_remove txn key)) else (removed, txn))"

definition delete_repo_tags_to ::
    "meta_store \<Rightarrow> string \<Rightarrow> string \<Rightarrow> string \<Rightarrow> meta_error + ((nat \<times> nat) \<times> meta_store)" where
  "delete_repo_tags_to s index repo digest =
     commit_driver_txn id (\<lambda>txn.
       let (tags, txn) = fold (remove_tag_to index repo digest) (txn_prefix txn (tag_prefix index repo)) (0, txn);
           (referrers, txn) = fold (remove_referrer_to digest)
             (txn_prefix_keys txn (REFERRER_PREFIX @ index @ NUL # repo @ [NUL])) (0, txn)
       in Inr (((tags, referrers), []), txn)) s"

text \<open>The handler's deletion by digest; the search epoch that it bumps is not part of the store.\<close>

definition delete_manifest_by_digest ::
    "json_parser \<Rightarrow> meta_store \<Rightarrow> string \<Rightarrow> string \<Rightarrow> string \<Rightarrow> meta_error + (bool \<times> meta_store)" where
  "delete_manifest_by_digest parse_json s index repo digest =
     (let present = get_manifest s digest \<noteq> None
      in rbind (delete_repo_tags_to s index repo digest) (\<lambda>((removed_tags, removed_referrers), s).
        let s = (if present \<and> digest \<notin> referenced_manifest_digests parse_json s then snd (delete_manifest s digest) else s);
            s = prune_manifest_membership parse_json s index repo digest
        in Inr (present \<or> 0 < removed_tags \<or> 0 < removed_referrers, s)))"

section \<open>Keys of a repository\<close>

definition nul_free :: "string \<Rightarrow> bool" where
  "nul_free s \<longleftrightarrow> NUL \<notin> set s"

definition repo_prefix :: "string \<Rightarrow> string \<Rightarrow> string \<Rightarrow> string" where
  "repo_prefix kind index repo = ''oci'' @ NUL # kind @ NUL # index @ NUL # repo @ [NUL]"

lemma repo_keys:
  "tag_prefix i r = repo_prefix ''t'' i r" "tag_key i r t = repo_prefix ''t'' i r @ t"
  "membership_prefix i r = repo_prefix ''mm'' i r" "membership_key i r d = repo_prefix ''mm'' i r @ d"
  "blob_membership_key i r d = repo_prefix ''bm'' i r @ d" "tag_page_key i r q = repo_prefix ''tp'' i r @ q"
  "tag_freshness_key i r t = repo_prefix ''tf'' i r @ t" "REFERRER_PREFIX @ i @ NUL # r @ [NUL] = repo_prefix ''r'' i r"
  "referrer_prefix i r sub @ f = repo_prefix ''r'' i r @ sub @ NUL # f"
  by (simp_all add: repo_prefix_def tag_prefix_def tag_key_def membership_prefix_def membership_key_def
      blob_membership_key_def tag_page_key_def tag_freshness_key_def referrer_prefix_def
      TAG_PREFIX_def MEMBERSHIP_PREFIX_def BLOB_MEMBERSHIP_PREFIX_def REFERRER_PREFIX_def)

lemma nul_cancel:
  assumes "nul_free a" "nul_free b" "a @ NUL # x = b @ NUL # y"
  shows "a = b \<and> x = y"
proof -
  have "Some (a, x) = Some (b, y)"
    using split_once_append [of NUL a x] split_once_append [of NUL b y] assms unfolding nul_free_def by metis
  then show ?thesis by simp
qed

lemma repo_prefix_inj:
  assumes "repo_prefix kind i r @ x = repo_prefix kind' i' r' @ y"
    and "nul_free kind" "nul_free i" "nul_free r" "nul_free kind'" "nul_free i'" "nul_free r'"
  shows "kind = kind' \<and> i = i' \<and> r = r' \<and> x = y"
proof -
  have "kind @ NUL # (i @ NUL # r @ NUL # x) = kind' @ NUL # (i' @ NUL # r' @ NUL # y)"
    using assms(1) by (simp add: repo_prefix_def)
  note 1 = nul_cancel [OF assms(2,5) this]
  note 2 = nul_cancel [OF assms(3,6) conjunct2 [OF 1]]
  from 1 2 nul_cancel [OF assms(4,7) conjunct2 [OF 2]] show ?thesis by simp
qed

lemma nul_free_kinds [simp]: "nul_free ''t''" "nul_free ''mm''" "nul_free ''bm''" "nul_free ''tp''" "nul_free ''tf''" "nul_free ''r''" "nul_free ''m''"
  by (simp_all add: nul_free_def NUL_def)

lemma manifest_key_repo:
  assumes "nul_free kind" "kind \<noteq> ''m''"
  shows "manifest_key d \<noteq> repo_prefix kind i r @ x"
proof
  assume "manifest_key d = repo_prefix kind i r @ x"
  then have "''m'' @ NUL # d = kind @ NUL # (i @ NUL # r @ NUL # x)"
    by (simp add: manifest_key_def MANIFEST_PREFIX_def repo_prefix_def)
  then show False using nul_cancel [of "''m''" kind] assms by auto
qed

text \<open>Two rows of different families or of different repositories have different keys.\<close>

lemma repo_key_eq:
  assumes "nul_free kind" "nul_free i" "nul_free r" "nul_free kind'" "nul_free i'" "nul_free r'"
  shows "repo_prefix kind i r @ x = repo_prefix kind' i' r' @ y \<longleftrightarrow> kind = kind' \<and> i = i' \<and> r = r' \<and> x = y"
  using repo_prefix_inj [OF _ assms] by auto

lemma manifest_key_inj [simp]: "manifest_key d = manifest_key d' \<longleftrightarrow> d = d'"
  by (simp add: manifest_key_def)

section \<open>What the operations write\<close>

lemma put_tag_eq:
  "put_tag s i r t d = Inr (get_driver_value s (tag_key i r t) = None, put_driver_value s (tag_key i r t) d)"
proof -
  let ?b = "\<lambda>txn. let (inserted, txn) = txn_upsert txn (tag_key i r t) d in Inr ((inserted, []), txn)"
  have body: "?b (open_txn s) = Inr ((get_driver_value s (tag_key i r t) = None, []), snd (txn_upsert (open_txn s) (tag_key i r t) d))"
    by (simp add: txn_upsert_def open_txn_def get_driver_value_def)
  show ?thesis unfolding put_tag_def
    by (subst commit_plain [where body = ?b, OF body]) (simp add: txn_upsert_def open_txn_def put_driver_value_def)
qed

lemma delete_tag_eq:
  "delete_tag s i r t = Inr (get_driver_value s (tag_key i r t) \<noteq> None,
     snd (delete_driver_value (snd (delete_driver_value s (tag_key i r t))) (tag_freshness_key i r t)))"
proof -
  let ?b = "\<lambda>txn. let (removed, txn) = txn_remove txn (tag_key i r t); (_, txn) = txn_remove txn (tag_freshness_key i r t)
       in Inr ((removed, []), txn)"
  have body: "?b (open_txn s) = Inr ((get_driver_value s (tag_key i r t) \<noteq> None, []),
      snd (txn_remove (snd (txn_remove (open_txn s) (tag_key i r t))) (tag_freshness_key i r t)))"
    by (simp add: case_prod_beta Let_def) (simp add: txn_remove_def Let_def open_txn_def get_driver_value_def)
  show ?thesis unfolding delete_tag_def
    by (subst commit_plain [where body = ?b, OF body]) (simp add: txn_remove_table open_txn_def delete_driver_value_def)
qed

text \<open>The rows that a deletion of the tags to a digest removes.\<close>

definition doomed_tags :: "string \<Rightarrow> string \<Rightarrow> string \<Rightarrow> (string \<times> bytes) list \<Rightarrow> string set" where
  "doomed_tags i r d rows = {k. \<exists>t. (tag_key i r t, d) \<in> set rows \<and> (k = tag_key i r t \<or> k = tag_freshness_key i r t)}"

definition doomed_referrers :: "string \<Rightarrow> string list \<Rightarrow> string set" where
  "doomed_referrers d keys = {k \<in> set keys. \<exists>sub f. split_referrer_key k = Some (sub, f) \<and> (sub = d \<or> f = d)}"

lemma remove_tag_to_table:
  "t_get (dt_table (snd (remove_tag_to i r d row (n, txn)))) k = (if k \<in> doomed_tags i r d [row] then None else t_get (dt_table txn) k)"
proof (cases row)
  case (Pair key target)
  show ?thesis
  proof (cases "target = d \<and> starts_with key (tag_prefix i r)")
    case True
    then obtain t where "key = tag_prefix i r @ t" by (auto simp: starts_with_iff)
    then have "key = tag_key i r t" "strip_prefix (tag_prefix i r) key = Some t"
      by (simp_all add: repo_keys strip_prefix_Some)
    then show ?thesis using True Pair by (auto simp: remove_tag_to_def txn_remove_table doomed_tags_def repo_keys)
  next
    case False
    then have "doomed_tags i r d [row] = {}" "snd (remove_tag_to i r d row (n, txn)) = txn"
      by (auto simp: Pair doomed_tags_def remove_tag_to_def repo_keys strip_prefix_def)
    then show ?thesis by simp
  qed
qed

lemma doomed_tags_Cons: "doomed_tags i r d (row # rows) = doomed_tags i r d [row] \<union> doomed_tags i r d rows"
  by (auto simp: doomed_tags_def)

lemma remove_tags_table:
  "t_get (dt_table (snd (fold (remove_tag_to i r d) rows acc))) k =
     (if k \<in> doomed_tags i r d rows then None else t_get (dt_table (snd acc)) k)"
proof (induction rows arbitrary: acc)
  case (Cons row rows)
  show ?case unfolding fold_simps(2) comp_apply Cons
    using remove_tag_to_table [of i r d row "fst acc" "snd acc" k]
    by (auto simp: doomed_tags_Cons [of i r d row rows])
qed (simp add: doomed_tags_def)

lemma remove_referrers_table:
  "t_get (dt_table (snd (fold (remove_referrer_to d) keys acc))) k =
     (if k \<in> doomed_referrers d keys then None else t_get (dt_table (snd acc)) k)"
  by (induction keys arbitrary: acc)
    (auto simp: doomed_referrers_def remove_referrer_to_def txn_remove_table split: option.splits if_splits)

lemma delete_repo_tags_to_ok:
  obtains counts s' where "delete_repo_tags_to s i r d = Inr (counts, s')"
    "\<And>k. get_driver_value s' k =
      (if k \<in> doomed_tags i r d (prefix_scan (driver_kv s) (tag_prefix i r)) then None
       else if k \<in> doomed_referrers d (map fst (prefix_scan (dt_table (snd (fold (remove_tag_to i r d)
          (prefix_scan (driver_kv s) (tag_prefix i r)) (0, open_txn s)))) (repo_prefix ''r'' i r))) then None
       else get_driver_value s k)"
    "t_wf (driver_kv s) \<Longrightarrow> t_wf (driver_kv s')"
proof -
  let ?T = "fold (remove_tag_to i r d) (prefix_scan (driver_kv s) (tag_prefix i r)) (0, open_txn s)"
  let ?R = "fold (remove_referrer_to d) (map fst (prefix_scan (dt_table (snd ?T)) (repo_prefix ''r'' i r))) (0, snd ?T)"
  let ?b = "\<lambda>txn. let (tags, txn) = fold (remove_tag_to i r d) (txn_prefix txn (tag_prefix i r)) (0, txn);
           (referrers, txn) = fold (remove_referrer_to d) (txn_prefix_keys txn (REFERRER_PREFIX @ i @ NUL # r @ [NUL])) (0, txn)
       in Inr (((tags, referrers), []), txn)"
  have body: "?b (open_txn s) = Inr (((fst ?T, fst ?R), []), snd ?R)"
    unfolding repo_keys(8) by (simp add: case_prod_beta Let_def txn_prefix_def txn_prefix_keys_def open_txn_def)
  have eq: "delete_repo_tags_to s i r d = Inr ((fst ?T, fst ?R), s\<lparr>driver_kv := dt_table (snd ?R)\<rparr>)"
    unfolding delete_repo_tags_to_def by (rule commit_plain [where body = ?b, OF body])
  have wf: "t_wf (dt_table (snd acc)) \<Longrightarrow> t_wf (dt_table (snd (fold (remove_tag_to i r d) rows acc)))" for rows acc
    by (induction rows arbitrary: acc) (auto simp: remove_tag_to_def txn_remove_table split: option.splits)
  have wf': "t_wf (dt_table (snd acc)) \<Longrightarrow> t_wf (dt_table (snd (fold (remove_referrer_to d) keys acc)))" for keys acc
    by (induction keys arbitrary: acc) (auto simp: remove_referrer_to_def txn_remove_table split: option.splits)
  show ?thesis
  proof (rule that [OF eq])
    show "t_wf (driver_kv s) \<Longrightarrow> t_wf (driver_kv (s\<lparr>driver_kv := dt_table (snd ?R)\<rparr>))"
      using wf' wf by (simp add: open_txn_def)
  qed (auto simp: get_driver_value_def remove_tags_table remove_referrers_table open_txn_def)
qed

text \<open>Operations of the store, run in sequence.\<close>

datatype oci_op =
    RecordManifest string string string manifest
  | RecordBlob string string string
  | DropBlob string string string
  | PutTag string string string string
  | DeleteTag string string string
  | DeleteRepoTagsTo string string string
  | DeleteByDigest string string string
  | DeleteManifest string
  | SetFreshness string string string string int
  | SetTagPage string string string int "string option" bytes
  | PutReferrer string string string string bytes

definition op_repo :: "oci_op \<Rightarrow> (string \<times> string) option" where
  "op_repo op = (case op of
      RecordManifest i r _ _ \<Rightarrow> Some (i, r) | RecordBlob i r _ \<Rightarrow> Some (i, r) | DropBlob i r _ \<Rightarrow> Some (i, r)
    | PutTag i r _ _ \<Rightarrow> Some (i, r) | DeleteTag i r _ \<Rightarrow> Some (i, r) | DeleteRepoTagsTo i r _ \<Rightarrow> Some (i, r)
    | DeleteByDigest i r _ \<Rightarrow> Some (i, r) | DeleteManifest _ \<Rightarrow> None | SetFreshness i r _ _ _ \<Rightarrow> Some (i, r)
    | SetTagPage i r _ _ _ _ \<Rightarrow> Some (i, r) | PutReferrer i r _ _ _ \<Rightarrow> Some (i, r))"

definition op_ok :: "oci_op \<Rightarrow> bool" where
  "op_ok op \<longleftrightarrow> (case op_repo op of None \<Rightarrow> True | Some (i, r) \<Rightarrow> nul_free i \<and> nul_free r)"

definition apply_op :: "json_parser \<Rightarrow> meta_store \<Rightarrow> oci_op \<Rightarrow> meta_error + meta_store" where
  "apply_op parse_json s op = (case op of
      RecordManifest i r d m \<Rightarrow> Inr (record_manifest parse_json s i r d m)
    | RecordBlob i r d \<Rightarrow> Inr (record_blob_membership s i r d)
    | DropBlob i r d \<Rightarrow> Inr (snd (delete_blob_membership s i r d))
    | PutTag i r t d \<Rightarrow> map_sum id snd (put_tag s i r t d)
    | DeleteTag i r t \<Rightarrow> map_sum id snd (delete_tag s i r t)
    | DeleteRepoTagsTo i r d \<Rightarrow> map_sum id snd (delete_repo_tags_to s i r d)
    | DeleteByDigest i r d \<Rightarrow> map_sum id snd (delete_manifest_by_digest parse_json s i r d)
    | DeleteManifest d \<Rightarrow> Inr (snd (delete_manifest s d))
    | SetFreshness i r t d at \<Rightarrow> Inr (set_tag_freshness s i r t d at)
    | SetTagPage i r q at link body \<Rightarrow> Inr (set_tag_page s i r q at link body)
    | PutReferrer i r sub f desc \<Rightarrow> Inr (put_referrer s i r sub f desc))"

fun apply_ops :: "json_parser \<Rightarrow> meta_store \<Rightarrow> oci_op list \<Rightarrow> meta_error + meta_store" where
  "apply_ops parse_json s [] = Inr s"
| "apply_ops parse_json s (op # ops) = rbind (apply_op parse_json s op) (\<lambda>s. apply_ops parse_json s ops)"

text \<open>The manifests and blobs that an operation makes a repository serve.\<close>

definition grants_manifest :: "json_parser \<Rightarrow> oci_op \<Rightarrow> string \<Rightarrow> string \<Rightarrow> string \<Rightarrow> bool" where
  "grants_manifest parse_json op i r d \<longleftrightarrow>
     (\<exists>d' m. op = RecordManifest i r d' m \<and> (d = d' \<or> d \<in> set (fst (manifest_descriptors parse_json (mf_bytes m)))))"

definition grants_blob :: "json_parser \<Rightarrow> oci_op \<Rightarrow> string \<Rightarrow> string \<Rightarrow> string \<Rightarrow> bool" where
  "grants_blob parse_json op i r d \<longleftrightarrow> op = RecordBlob i r d
     \<or> (\<exists>d' m. op = RecordManifest i r d' m \<and> d \<in> set (snd (manifest_descriptors parse_json (mf_bytes m))))"

lemma get_record_memberships [simp]:
  "get_driver_value (record_membership s i r d) k = (if k = membership_key i r d then Some [] else get_driver_value s k)"
  "get_driver_value (record_blob_membership s i r d) k = (if k = blob_membership_key i r d then Some [] else get_driver_value s k)"
  by (simp_all add: record_membership_def record_blob_membership_def)

lemma fold_memberships:
  "get_driver_value (fold (\<lambda>child s. record_membership s i r child) ds s) k =
     (if \<exists>d \<in> set ds. k = membership_key i r d then Some [] else get_driver_value s k)"
  "get_driver_value (fold (\<lambda>blob s. record_blob_membership s i r blob) ds s) k =
     (if \<exists>d \<in> set ds. k = blob_membership_key i r d then Some [] else get_driver_value s k)"
  by (induction ds arbitrary: s) auto

lemma get_record_manifest:
  "get_driver_value (record_manifest parse_json s i r d m) k =
     (if \<exists>b \<in> set (snd (manifest_descriptors parse_json (mf_bytes m))). k = blob_membership_key i r b then Some []
      else if k = membership_key i r d \<or> (\<exists>c \<in> set (fst (manifest_descriptors parse_json (mf_bytes m))). k = membership_key i r c) then Some []
      else if k = manifest_key d then Some (manifest_encode m) else get_driver_value s k)"
  by (auto simp: record_manifest_def case_prod_beta Let_def fold_memberships put_manifest_def)

text \<open>A deletion leaves a row as it is or removes it.\<close>

definition rows_shrink :: "meta_store \<Rightarrow> meta_store \<Rightarrow> bool" where
  "rows_shrink s s' \<longleftrightarrow> (\<forall>k. get_driver_value s' k = None \<or> get_driver_value s' k = get_driver_value s k)"

lemma rows_shrink_refl [simp]: "rows_shrink s s"
  by (simp add: rows_shrink_def)

lemma rows_shrink_trans: "rows_shrink s s' \<Longrightarrow> rows_shrink s' s'' \<Longrightarrow> rows_shrink s s''"
  unfolding rows_shrink_def by metis

lemma rows_shrink_delete [simp]: "rows_shrink s (snd (delete_driver_value s k))"
  by (simp add: rows_shrink_def)

lemma delete_repo_tags_to_shrinks: "\<exists>counts s'. delete_repo_tags_to s i r d = Inr (counts, s') \<and> rows_shrink s s'"
  by (rule delete_repo_tags_to_ok [of s i r d]) (auto simp: rows_shrink_def)

lemma delete_by_digest_cases:
  obtains counts s1 b where "delete_repo_tags_to s i r d = Inr (counts, s1)" "rows_shrink s s1"
    "delete_manifest_by_digest parse_json s i r d = Inr (b, prune_manifest_membership parse_json
       (if get_manifest s d \<noteq> None \<and> d \<notin> referenced_manifest_digests parse_json s1 then snd (delete_manifest s1 d) else s1) i r d)"
proof -
  obtain counts s1 where s1: "delete_repo_tags_to s i r d = Inr (counts, s1)" "rows_shrink s s1"
    using delete_repo_tags_to_shrinks by blast
  show ?thesis
    by (rule that [OF s1]) (simp add: delete_manifest_by_digest_def s1(1) Let_def case_prod_beta)
qed

lemma prune_shrinks: "rows_shrink s (prune_manifest_membership parse_json s i r d)"
  by (simp add: prune_manifest_membership_def)

lemma delete_by_digest_shrinks: "\<exists>b s'. delete_manifest_by_digest parse_json s i r d = Inr (b, s') \<and> rows_shrink s s'"
proof -
  obtain counts s1 b where s1: "rows_shrink s s1" and eq: "delete_manifest_by_digest parse_json s i r d = Inr (b, prune_manifest_membership parse_json
       (if get_manifest s d \<noteq> None \<and> d \<notin> referenced_manifest_digests parse_json s1 then snd (delete_manifest s1 d) else s1) i r d)"
    by (rule delete_by_digest_cases [of s i r d parse_json])
  have "rows_shrink s (if get_manifest s d \<noteq> None \<and> d \<notin> referenced_manifest_digests parse_json s1 then snd (delete_manifest s1 d) else s1)"
    using s1 rows_shrink_trans [OF s1 rows_shrink_delete] by (simp add: delete_manifest_def)
  from eq rows_shrink_trans [OF this prune_shrinks] show ?thesis by blast
qed

text \<open>No operation but a recording of the repository itself adds a membership row.\<close>

lemma deletion_shrinks:
  "apply_op parse_json s (DeleteRepoTagsTo i r d) = Inr s' \<Longrightarrow> rows_shrink s s'"
  "apply_op parse_json s (DeleteByDigest i r d) = Inr s' \<Longrightarrow> rows_shrink s s'"
  "apply_op parse_json s (DeleteTag i r t) = Inr s' \<Longrightarrow> rows_shrink s s'"
  "apply_op parse_json s (DropBlob i r d) = Inr s' \<Longrightarrow> rows_shrink s s'"
  "apply_op parse_json s (DeleteManifest d) = Inr s' \<Longrightarrow> rows_shrink s s'"
  using delete_repo_tags_to_shrinks [of s i r d] delete_by_digest_shrinks [of parse_json s i r d]
    rows_shrink_trans [OF rows_shrink_delete rows_shrink_delete, of s "tag_key i r t" "tag_freshness_key i r t"]
  by (auto simp: apply_op_def delete_tag_eq delete_blob_membership_def delete_manifest_def)

lemma rows_shrink_get: "rows_shrink s s' \<Longrightarrow> get_driver_value s' k \<noteq> None \<Longrightarrow> get_driver_value s k \<noteq> None"
  unfolding rows_shrink_def by metis

lemma apply_op_family:
  assumes "apply_op parse_json s op = Inr s'" "op_ok op" "nul_free i" "nul_free r" "kind = ''mm'' \<or> kind = ''bm''"
    and "get_driver_value s' (repo_prefix kind i r @ d) \<noteq> None"
  shows "get_driver_value s (repo_prefix kind i r @ d) \<noteq> None
    \<or> kind = ''mm'' \<and> grants_manifest parse_json op i r d \<or> kind = ''bm'' \<and> grants_blob parse_json op i r d"
proof (cases op)
  case (RecordManifest i' r' d' m)
  then show ?thesis
    using assms
    by (elim disjE) (auto simp: apply_op_def get_record_manifest repo_keys repo_key_eq manifest_key_repo [symmetric] op_ok_def op_repo_def
        grants_manifest_def grants_blob_def split: if_splits)
next
  case (RecordBlob i' r' d')
  then show ?thesis
    using assms by (auto simp: apply_op_def repo_keys repo_key_eq op_ok_def op_repo_def grants_blob_def split: if_splits)
next
  case (PutTag i' r' t d')
  then show ?thesis
    using assms by (auto simp: apply_op_def put_tag_eq repo_keys repo_key_eq op_ok_def op_repo_def split: if_splits)
next
  case (SetFreshness i' r' t d' at)
  then show ?thesis
    using assms by (auto simp: apply_op_def set_tag_freshness_def repo_keys repo_key_eq op_ok_def op_repo_def split: if_splits)
next
  case (SetTagPage i' r' q at link body)
  then show ?thesis
    using assms by (auto simp: apply_op_def set_tag_page_def Let_def repo_keys repo_key_eq op_ok_def op_repo_def split: if_splits)
next
  case (PutReferrer i' r' sub f desc)
  then show ?thesis
    using assms by (auto simp: apply_op_def put_referrer_def repo_keys repo_key_eq op_ok_def op_repo_def split: if_splits)
qed (metis assms(1,6) deletion_shrinks rows_shrink_get)+

lemma apply_op_grants:
  assumes "apply_op parse_json s op = Inr s'" "op_ok op" "nul_free i" "nul_free r"
  shows "manifest_is_member s' i r d \<Longrightarrow> manifest_is_member s i r d \<or> grants_manifest parse_json op i r d"
    and "blob_is_member s' i r d \<Longrightarrow> blob_is_member s i r d \<or> grants_blob parse_json op i r d"
  using apply_op_family [OF assms, of "''mm''" d] apply_op_family [OF assms, of "''bm''" d]
  by (auto simp: manifest_is_member_def blob_is_member_def repo_keys)

lemma apply_ops_earned:
  assumes "apply_ops parse_json s ops = Inr s'" "list_all op_ok ops" "nul_free i" "nul_free r"
  shows "manifest_is_member s' i r d \<Longrightarrow> manifest_is_member s i r d \<or> (\<exists>op \<in> set ops. grants_manifest parse_json op i r d)"
    and "blob_is_member s' i r d \<Longrightarrow> blob_is_member s i r d \<or> (\<exists>op \<in> set ops. grants_blob parse_json op i r d)"
  using assms
proof (induction ops arbitrary: s)
  case (Cons op ops)
  { case 1
    then obtain s1 where "apply_op parse_json s op = Inr s1" "apply_ops parse_json s1 ops = Inr s'" by (auto simp: rbind_eq_Inr)
    with 1 Cons.IH(1) [of s1] apply_op_grants(1) [of parse_json s op s1 i r d] show ?case by auto
  next
    case 2
    then obtain s1 where "apply_op parse_json s op = Inr s1" "apply_ops parse_json s1 ops = Inr s'" by (auto simp: rbind_eq_Inr)
    with 2 Cons.IH(2) [of s1] apply_op_grants(2) [of parse_json s op s1 i r d] show ?case by auto
  }
qed simp_all

lemma apply_ops_total: "\<exists>s'. apply_ops parse_json s ops = Inr s'"
proof (induction ops arbitrary: s)
  case (Cons op ops)
  have "\<exists>s1. apply_op parse_json s op = Inr s1"
  proof (cases op)
    case (DeleteRepoTagsTo i r d)
    then show ?thesis using delete_repo_tags_to_shrinks [of s i r d] by (auto simp: apply_op_def)
  next
    case (DeleteByDigest i r d)
    then show ?thesis using delete_by_digest_shrinks [of parse_json s i r d] by (auto simp: apply_op_def)
  qed (auto simp: apply_op_def put_tag_eq delete_tag_eq)
  with Cons show ?case by auto
qed simp

section \<open>Deleting by digest\<close>

lemma prefix_scan_starts: "e \<in> set (prefix_scan t p) \<Longrightarrow> starts_with (fst e) p"
  by (auto simp: prefix_scan_def dest: set_takeWhileD)

lemma driver_prefix_keys_iff:
  assumes "t_wf (driver_kv s)" "length (driver_kv s) \<le> u64_max"
  shows "k \<in> set (driver_prefix_keys s p) \<longleftrightarrow> get_driver_value s k \<noteq> None \<and> starts_with k p"
proof -
  have "length (filter (\<lambda>e. starts_with (fst e) p) (driver_kv s)) \<le> u64_max"
    using assms(2) length_filter_le le_trans by blast
  then have "driver_prefix_keys s p = map fst (filter (\<lambda>e. starts_with (fst e) p) (driver_kv s))"
    by (simp add: driver_prefix_keys_def driver_prefix_keys_limited_def prefix_scan_eq [OF assms(1)])
  then show ?thesis using t_get_None [of "driver_kv s" k] by (force simp: get_driver_value_def)
qed

lemma rows_shrink_length:
  assumes "rows_shrink s s'" "t_wf (driver_kv s)" "t_wf (driver_kv s')"
  shows "length (driver_kv s') \<le> length (driver_kv s)"
proof -
  have "fst ` set (driver_kv s') \<subseteq> fst ` set (driver_kv s)"
  proof
    fix k assume "k \<in> fst ` set (driver_kv s')"
    then have "get_driver_value s' k \<noteq> None" using t_get_None [of "driver_kv s'" k] by (simp add: get_driver_value_def)
    with assms(1) have "get_driver_value s k \<noteq> None" by (rule rows_shrink_get)
    then show "k \<in> fst ` set (driver_kv s)" using t_get_None [of "driver_kv s" k] by (simp add: get_driver_value_def)
  qed
  then have "card (fst ` set (driver_kv s')) \<le> card (fst ` set (driver_kv s))" by (simp add: card_mono)
  then show ?thesis
    using distinct_card [OF t_wf_distinct [OF assms(2)]] distinct_card [OF t_wf_distinct [OF assms(3)]] by simp
qed

lemma delete_repo_tags_to_frame:
  assumes "delete_repo_tags_to s i r d = Inr (counts, s1)" "nul_free i" "nul_free r"
  shows "get_driver_value s1 (manifest_key d') = get_driver_value s (manifest_key d')"
    and "nul_free i' \<Longrightarrow> nul_free r' \<Longrightarrow> (i', r') \<noteq> (i, r) \<Longrightarrow> get_driver_value s1 (tag_key i' r' t) = get_driver_value s (tag_key i' r' t)"
    and "t_wf (driver_kv s) \<Longrightarrow> get_driver_value s (tag_key i r t) = Some d \<Longrightarrow> get_driver_value s1 (tag_key i r t) = None"
    and "t_wf (driver_kv s) \<Longrightarrow> t_wf (driver_kv s1)"
proof -
  let ?K = "map fst (prefix_scan (dt_table (snd (fold (remove_tag_to i r d)
          (prefix_scan (driver_kv s) (tag_prefix i r)) (0, open_txn s)))) (repo_prefix ''r'' i r))"
  let ?D = "doomed_tags i r d (prefix_scan (driver_kv s) (tag_prefix i r))"
  have get: "get_driver_value s1 k = (if k \<in> ?D then None else if k \<in> doomed_referrers d ?K then None else get_driver_value s k)"
    and wf: "t_wf (driver_kv s) \<Longrightarrow> t_wf (driver_kv s1)" for k
    by (rule delete_repo_tags_to_ok [of s i r d]; use assms(1) in simp)+
  have ref: "\<exists>x. k = repo_prefix ''r'' i r @ x" if "k \<in> doomed_referrers d ?K" for k
    using that prefix_scan_starts by (fastforce simp: doomed_referrers_def starts_with_iff)
  show "get_driver_value s1 (manifest_key d') = get_driver_value s (manifest_key d')"
    using ref [of "manifest_key d'"] unfolding get
    by (auto simp: doomed_tags_def repo_keys manifest_key_repo assms)
  show "get_driver_value s1 (tag_key i' r' t) = get_driver_value s (tag_key i' r' t)"
    if "nul_free i'" "nul_free r'" "(i', r') \<noteq> (i, r)"
    using ref [of "tag_key i' r' t"] that unfolding get
    by (auto simp: doomed_tags_def repo_keys repo_key_eq assms)
  show "get_driver_value s1 (tag_key i r t) = None" if "t_wf (driver_kv s)" "get_driver_value s (tag_key i r t) = Some d"
  proof -
    have "(tag_key i r t, d) \<in> set (prefix_scan (driver_kv s) (tag_prefix i r))"
      using that t_get_iff [OF that(1)] by (simp add: prefix_scan_eq get_driver_value_def repo_keys)
    then have "tag_key i r t \<in> ?D" unfolding doomed_tags_def by blast
    then show ?thesis by (simp add: get)
  qed
  show "t_wf (driver_kv s) \<Longrightarrow> t_wf (driver_kv s1)" by (rule wf)
qed

lemma in_map_filter: "x \<in> set xs \<Longrightarrow> f x = Some y \<Longrightarrow> y \<in> set (List.map_filter f xs)"
  by (force simp: List.map_filter_def)

lemma referenced_tag:
  assumes "t_wf (driver_kv s)" "length (driver_kv s) \<le> u64_max" "get_tag s i r t = Some d"
  shows "d \<in> referenced_manifest_digests parse_json s"
proof -
  have v: "get_driver_value s (tag_key i r t) = Some d" "valid_utf8 d"
    using assms(3) by (auto simp: get_tag_def bind_eq_Some_conv split: if_splits)
  have "tag_key i r t \<in> set (driver_prefix_keys s TAG_PREFIX)"
    using v(1) by (simp add: driver_prefix_keys_iff [OF assms(1,2)] tag_key_def)
  then show ?thesis unfolding referenced_manifest_digests_def
    by (intro UnI1 in_map_filter [where x = "tag_key i r t"]) (simp_all add: v)
qed

lemma referenced_child:
  assumes "t_wf (driver_kv s)" "length (driver_kv s) \<le> u64_max" "get_manifest s d' = Some m"
    and "d \<in> set (fst (manifest_descriptors parse_json (mf_bytes m)))"
  shows "d \<in> referenced_manifest_digests parse_json s"
proof -
  obtain raw where v: "get_driver_value s (manifest_key d') = Some raw" "manifest_decode raw = Some m"
    using assms(3) by (auto simp: get_manifest_def bind_eq_Some_conv)
  have "manifest_key d' \<in> set (driver_prefix_keys s MANIFEST_PREFIX)"
    using v(1) by (simp add: driver_prefix_keys_iff [OF assms(1,2)] manifest_key_def)
  then show ?thesis using v assms(4) unfolding referenced_manifest_digests_def by force
qed

text \<open>The result of a deletion by digest, row by row: the manifest row of the digest, and the membership.\<close>

lemma delete_by_digest_rows:
  assumes "delete_manifest_by_digest parse_json s i r d = Inr (b, s')" "nul_free i" "nul_free r"
  obtains counts s1 where "delete_repo_tags_to s i r d = Inr (counts, s1)" "rows_shrink s s1"
    "\<And>i' r' t. nul_free i' \<Longrightarrow> nul_free r' \<Longrightarrow> get_tag s' i' r' t = get_tag s1 i' r' t"
    "\<And>d'. d' \<noteq> d \<Longrightarrow> get_manifest s' d' = get_manifest s1 d'"
    "get_manifest s' d = (if get_manifest s d \<noteq> None \<and> d \<notin> referenced_manifest_digests parse_json s1 then None else get_manifest s1 d)"
proof -
  obtain counts s1 b' where s1: "delete_repo_tags_to s i r d = Inr (counts, s1)" "rows_shrink s s1"
    and eq: "delete_manifest_by_digest parse_json s i r d = Inr (b', prune_manifest_membership parse_json
       (if get_manifest s d \<noteq> None \<and> d \<notin> referenced_manifest_digests parse_json s1 then snd (delete_manifest s1 d) else s1) i r d)"
    by (rule delete_by_digest_cases [of s i r d parse_json])
  let ?s2 = "if get_manifest s d \<noteq> None \<and> d \<notin> referenced_manifest_digests parse_json s1 then snd (delete_manifest s1 d) else s1"
  have s': "s' = prune_manifest_membership parse_json ?s2 i r d" using assms(1) eq by simp
  have tags: "get_driver_value s' (tag_key i' r' t) = get_driver_value s1 (tag_key i' r' t)" if "nul_free i'" "nul_free r'" for i' r' t
    using manifest_key_repo [of "''t''" d i' r' t] that assms(2,3)
    by (auto simp: s' prune_manifest_membership_def delete_manifest_def repo_keys repo_key_eq)
  have manifests: "get_driver_value s' (manifest_key d') = get_driver_value ?s2 (manifest_key d')" for d'
    using manifest_key_repo [of "''mm''" d' i r d] by (simp add: s' prune_manifest_membership_def repo_keys)
  show ?thesis
  proof (rule that [OF s1])
    show "\<And>d'. d' \<noteq> d \<Longrightarrow> get_manifest s' d' = get_manifest s1 d'"
      unfolding get_manifest_def manifests by (simp add: delete_manifest_def)
    show "get_manifest s' d = (if get_manifest s d \<noteq> None \<and> d \<notin> referenced_manifest_digests parse_json s1 then None else get_manifest s1 d)"
      unfolding get_manifest_def [of s'] manifests by (simp add: delete_manifest_def get_manifest_def)
  qed (simp add: get_tag_def tags)
qed

text \<open>C26: A repository serves by digest only what was recorded in it.  Over any sequence of operations on an empty store,
  for repositories whose index and name hold no separator, every manifest that a repository may read by digest was
  recorded in that very repository, itself or as a child of an image index recorded there, and every blob it may read was
  recorded there, itself or as a config or layer of a manifest recorded there; and no operation fails.\<close>

theorem memberships_earned:
  assumes "list_all op_ok ops" and "nul_free i" and "nul_free r"
  shows "\<exists>s. apply_ops parse_json open_new ops = Inr s
    \<and> (manifest_is_member s i r d \<longrightarrow> (\<exists>op \<in> set ops. grants_manifest parse_json op i r d))
    \<and> (blob_is_member s i r d \<longrightarrow> (\<exists>op \<in> set ops. grants_blob parse_json op i r d))"
proof -
  obtain s where s: "apply_ops parse_json open_new ops = Inr s" using apply_ops_total by blast
  have "\<not> manifest_is_member open_new i r d" "\<not> blob_is_member open_new i r d"
    by (simp_all add: manifest_is_member_def blob_is_member_def get_driver_value_def open_new_def)
  with s apply_ops_earned [OF s assms, of d] show ?thesis by blast
qed


text \<open>A sample: two repositories, an image index in the first that names a child, and its deletion.\<close>

definition sample_json :: json_parser where
  "sample_json bytes = (if bytes = ''index'' then
     Some (JObject [(''manifests'', JArray [JObject [(''digest'', JString ''sha256:c'')]])]) else None)"

definition sample_manifest :: "string \<Rightarrow> manifest" where
  "sample_manifest b = \<lparr>mf_media_type = ''t'', mf_bytes = b\<rparr>"

definition sample_ops :: "oci_op list" where
  "sample_ops = [RecordManifest ''hub'' ''app'' ''sha256:i'' (sample_manifest ''index''), PutTag ''hub'' ''app'' ''v1'' ''sha256:i'',
     PutTag ''hub'' ''other'' ''v1'' ''sha256:i'']"

definition sample_store :: meta_store where
  "sample_store = projr (apply_ops sample_json open_new sample_ops)"

lemma sample_ok: "list_all op_ok sample_ops" "nul_free ''hub''" "nul_free ''app''" "nul_free ''other''"
  by (simp_all add: sample_ops_def op_ok_def op_repo_def nul_free_def NUL_def)

lemma sample_children: "manifest_descriptors sample_json ''index'' = ([''sha256:c''], [])"
  by (simp add: manifest_descriptors_def sample_json_def json_field_def as_array_def as_str_def List.map_filter_def)

lemma sample_store_eq: "apply_ops sample_json open_new sample_ops = Inr (put_driver_value (put_driver_value
    (record_manifest sample_json open_new ''hub'' ''app'' ''sha256:i'' (sample_manifest ''index''))
    (tag_key ''hub'' ''app'' ''v1'') ''sha256:i'') (tag_key ''hub'' ''other'' ''v1'') ''sha256:i'')"
  by (simp add: sample_ops_def apply_op_def put_tag_eq)

lemmas sample_get = sample_store_def sample_store_eq get_record_manifest sample_manifest_def sample_children repo_keys repo_key_eq sample_ok
  manifest_key_repo manifest_key_repo [symmetric]

theorem memberships_earned_witness:
  "manifest_is_member sample_store ''hub'' ''app'' ''sha256:c'' \<and> \<not> manifest_is_member sample_store ''hub'' ''other'' ''sha256:c''"
proof -
  have "manifest_is_member sample_store ''hub'' ''app'' ''sha256:c''"
    by (simp add: manifest_is_member_def sample_get)
  moreover have "\<not> manifest_is_member sample_store ''hub'' ''other'' ''sha256:c''"
    using memberships_earned [OF sample_ok(1,2,4), where parse_json = sample_json and d = "''sha256:c''"]
    by (auto simp: sample_store_def grants_manifest_def sample_ops_def)
  ultimately show ?thesis by blast
qed

definition sample_deleted :: meta_store where
  "sample_deleted = snd (projr (delete_manifest_by_digest sample_json sample_store ''hub'' ''app'' ''sha256:i''))"

lemma length_t_insert: "length (t_insert t k v) \<le> Suc (length t)"
  by (induction t k v rule: t_insert.induct) auto

lemma put_driver_small:
  "t_wf (driver_kv s) \<and> length (driver_kv s) \<le> n \<Longrightarrow>
   t_wf (driver_kv (put_driver_value s k v)) \<and> length (driver_kv (put_driver_value s k v)) \<le> Suc n"
  using length_t_insert [of "driver_kv s" k v] by (auto simp: put_driver_value_def)

lemma sample_table: "t_wf (driver_kv sample_store) \<and> length (driver_kv sample_store) \<le> 5"
proof -
  have "t_wf (driver_kv open_new) \<and> length (driver_kv open_new) \<le> 0" by (simp add: open_new_def)
  then have "t_wf (driver_kv sample_store) \<and> length (driver_kv sample_store) \<le> Suc (Suc (Suc (Suc (Suc 0))))"
    by (simp only: sample_store_def sample_store_eq record_manifest_def sample_manifest_def manifest.simps sample_children
        put_manifest_def record_membership_def Let_def prod.case fold_simps sum.sel comp_def id_def)
      (intro put_driver_small)
  then show ?thesis by simp
qed


end
