(* ===== verification/OciRegistry.thy ===== *)
theory OciRegistry
  imports OciStore Routing
begin

text \<open>
  The write path of the OCI registry, \<open>crates/peryx-ecosystem-oci/src/registry\<close>: resolving a repository to a
  writable index (\<open>mod.rs\<close>), the cache of blob memberships (\<open>mod.rs\<close>, \<open>blobs/mod.rs\<close>), blob upload sessions
  (\<open>uploads.rs\<close>) and the push of a manifest (\<open>manifests/write.rs\<close>).  Authorization is an argument: its decision for an
  index, a repository and an action, and the challenge that answers a refusal.  Metrics and webhooks are left out.
\<close>

section \<open>Responses\<close>

datatype error_code =
    BlobUnknown | BlobUploadInvalid | BlobUploadUnknown | DigestInvalid | ManifestBlobUnknown | ManifestInvalid
  | ManifestUnknown | NameInvalid | NameUnknown | SizeInvalid | Unauthorized | Denied | Unsupported | TooManyRequests

text \<open>
  The responses by their status and the values in them; \<open>Panicked\<close> is a request that ends in a panic,
  \<open>Gateway\<close> the answer to a \<open>ServeError\<close>.
\<close>

datatype oci_response =
    OciError error_code string
  | Challenge string action
  | CreatedBlob string string
  | CreatedManifest string string "string option"
  | UploadAccepted string string nat
  | UploadStatus string string nat
  | RangeNotSatisfiable string string nat
  | NoContent
  | AcceptedDelete
  | Gateway string
  | Panicked

section \<open>Resolving a repository\<close>

definition oci_candidate :: "'c index \<Rightarrow> string \<Rightarrow> string option" where
  "oci_candidate ix name =
     (if ix_ecosystem ix \<noteq> Oci then None
      else if ix_route ix = [] then Some name
      else (case Option.bind (strip_prefix (ix_route ix) name) (strip_prefix ''/'') of
              None \<Rightarrow> None | Some rest \<Rightarrow> if rest = [] then None else Some rest))"

definition oci_resolve :: "'c index list \<Rightarrow> string \<Rightarrow> ('c index \<times> string) option" where
  "oci_resolve indexes name = foldl (\<lambda>best ix. case oci_candidate ix name of
      None \<Rightarrow> best
    | Some repo \<Rightarrow> if is_none_or best (\<lambda>(current, _). length (ix_route ix) > length (ix_route current))
        then Some (ix, repo) else best) None indexes"

definition is_hosted :: "'c index \<Rightarrow> bool" where
  "is_hosted ix = (case ix_kind ix of HostedKind _ \<Rightarrow> True | _ \<Rightarrow> False)"

record 'c authority =
  au_authorize :: "'c index \<Rightarrow> string \<Rightarrow> string \<Rightarrow> action \<Rightarrow> denial + unit"
  au_challenge :: "string \<Rightarrow> action \<Rightarrow> denial \<Rightarrow> oci_response"

definition resolve_writable ::
    "'c authority \<Rightarrow> 'c index list \<Rightarrow> string \<Rightarrow> action \<Rightarrow> oci_response + ('c index \<times> string)" where
  "resolve_writable au indexes name act = (case oci_resolve indexes name of
      None \<Rightarrow> Inl (OciError NameUnknown ''repository name unknown'')
    | Some (ix, repo) \<Rightarrow>
        rbind (case ix_kind ix of
            HostedKind _ \<Rightarrow> Inr ix
          | VirtualKind _ (Some pos) \<Rightarrow> if pos < length indexes then Inr (indexes ! pos) else Inl Panicked
          | _ \<Rightarrow> Inl (OciError Denied ''index is read-only'')) (\<lambda>target.
        if \<not> is_hosted target then Inl (OciError Denied ''index is read-only'')
        else (case au_authorize au target repo name act of
            Inr _ \<Rightarrow> Inr (target, repo)
          | Inl Unavailable \<Rightarrow> Inl (OciError Denied ''uploads are disabled'')
          | Inl d \<Rightarrow> Inl (au_challenge au name act d))))"

definition policy_blocks :: "'c index \<Rightarrow> policy_action \<Rightarrow> string \<Rightarrow> bool" where
  "policy_blocks ix act repo \<longleftrightarrow> \<not> is_ok (fst (check_project (ix_policy ix) act repo))"

definition policy_size_denial :: "'c index \<Rightarrow> string \<Rightarrow> nat \<Rightarrow> policy_denial option" where
  "policy_size_denial ix repo sz = (case fst (check_size (ix_policy ix) Upload repo sz) of Inl d \<Rightarrow> Some d | Inr _ \<Rightarrow> None)"

definition serving_members :: "'c index list \<Rightarrow> 'c index \<Rightarrow> 'c index list option" where
  "serving_members indexes ix = (case ix_kind ix of
      VirtualKind ls _ \<Rightarrow>
        (case shadow_order indexes ls of
           None \<Rightarrow> None
         | Some order \<Rightarrow> if list_all (\<lambda>i. i < length indexes) order then Some (map (\<lambda>i. indexes ! i) order) else None)
    | _ \<Rightarrow> Some [ix])"

section \<open>The cache of blob memberships\<close>

definition BLOB_MEMBERSHIP_CACHE_BYTES :: nat where
  "BLOB_MEMBERSHIP_CACHE_BYTES = 8 * 1048576"

record membership_cache =
  mc_entries :: "string set"
  mc_order :: "string list"
  mc_bytes :: nat

text \<open>The subtractions of \<open>key_bytes\<close> and the \<open>expect\<close> of the eviction loop panic as \<open>None\<close>.\<close>

definition cache_remove :: "membership_cache \<Rightarrow> string \<Rightarrow> membership_cache option" where
  "cache_remove c key =
     (if key \<in> mc_entries c then
        (case checked_sub_u64 (mc_bytes c) (length key) of
           None \<Rightarrow> None
         | Some n \<Rightarrow> Some (c\<lparr>mc_entries := mc_entries c - {key}, mc_bytes := n, mc_order := filter (\<lambda>e. e \<noteq> key) (mc_order c)\<rparr>))
      else Some c)"

function cache_evict :: "membership_cache \<Rightarrow> membership_cache option" where
  "cache_evict c =
     (if mc_bytes c > BLOB_MEMBERSHIP_CACHE_BYTES then
        (case mc_order c of
           [] \<Rightarrow> None
         | oldest # rest \<Rightarrow>
             (case checked_sub_u64 (mc_bytes c) (length oldest) of
                None \<Rightarrow> None
              | Some n \<Rightarrow> cache_evict (c\<lparr>mc_order := rest, mc_entries := mc_entries c - {oldest}, mc_bytes := n\<rparr>)))
      else Some c)"
  by pat_completeness auto
termination by (relation "measure (\<lambda>c. length (mc_order c))") auto

declare cache_evict.simps [simp del]

definition cache_insert :: "membership_cache \<Rightarrow> string \<Rightarrow> membership_cache option" where
  "cache_insert c key =
     cache_evict (c\<lparr>mc_entries := insert key (mc_entries c), mc_bytes := mc_bytes c + length key, mc_order := mc_order c @ [key]\<rparr>)"

definition cache_empty :: membership_cache where
  "cache_empty = \<lparr>mc_entries = {}, mc_order = [], mc_bytes = 0\<rparr>"

section \<open>Upload sessions\<close>

definition UPLOAD_SESSION_TTL_SECS :: int where
  "UPLOAD_SESSION_TTL_SECS = 3600"

record upload_session =
  us_pending :: pending_blob
  us_offset :: nat
  us_index :: string
  us_name :: string
  us_last_active_at :: int

record registry =
  rg_meta :: meta_store
  rg_blobs :: blob_store
  rg_uploads :: "(string, upload_session) tbl"
  rg_memberships :: membership_cache

definition belongs_to :: "upload_session \<Rightarrow> string \<Rightarrow> string \<Rightarrow> bool" where
  "belongs_to u index name \<longleftrightarrow> us_index u = index \<and> us_name u = name"

definition reclaim_expired :: "registry \<Rightarrow> int \<Rightarrow> registry \<times> upload_session list" where
  "reclaim_expired g now =
     (let old = (\<lambda>e. saturating_sub_i64 now (us_last_active_at (snd e)) \<ge> UPLOAD_SESSION_TTL_SECS)
      in (g\<lparr>rg_uploads := filter (\<lambda>e. \<not> old e) (rg_uploads g)\<rparr>, map snd (filter old (rg_uploads g))))"

definition take_session :: "registry \<Rightarrow> string \<Rightarrow> string \<Rightarrow> string \<Rightarrow> registry \<times> upload_session option" where
  "take_session g index name session =
     (if is_none_or (t_get (rg_uploads g) session) (\<lambda>u. \<not> belongs_to u index name) then (g, None)
      else (g\<lparr>rg_uploads := t_remove (rg_uploads g) session\<rparr>, t_get (rg_uploads g) session))"

definition put_session :: "registry \<Rightarrow> string \<Rightarrow> upload_session \<Rightarrow> registry" where
  "put_session g session u = g\<lparr>rg_uploads := t_insert (rg_uploads g) session u\<rparr>"

datatype chunk_start = Absent | Malformed | At nat

definition continues_at :: "chunk_start \<Rightarrow> nat \<Rightarrow> bool" where
  "continues_at c offset = (case c of Absent \<Rightarrow> True | At start \<Rightarrow> start = offset | Malformed \<Rightarrow> False)"

text \<open>The header is absent, present but not text (\<open>Some None\<close>), or a text.\<close>

definition chunk_start_of :: "string option option \<Rightarrow> chunk_start" where
  "chunk_start_of header = (case header of
      None \<Rightarrow> Absent
    | Some None \<Rightarrow> Malformed
    | Some (Some text) \<Rightarrow>
        let trimmed = trim text; spec = unwrap_or trimmed (strip_prefix ''bytes '' trimmed)
        in (case split_once CHR ''-'' spec of
              None \<Rightarrow> Malformed
            | Some (start, _) \<Rightarrow> (case parse_u64 (trim start) of None \<Rightarrow> Malformed | Some n \<Rightarrow> At n)))"

text \<open>
  A body is its chunks, ended by the error of a broken transfer.  The offset counts bytes received, which
  stay far below the range of \<open>u64\<close>.
\<close>

type_synonym body = "(string + bytes) list"

datatype body_outcome = BodyOk | BodyFault string | BodyDenied policy_denial | BodyPanic

fun append_body :: "'c index \<Rightarrow> string \<Rightarrow> pending_blob \<Rightarrow> nat \<Rightarrow> body \<Rightarrow> pending_blob \<times> nat \<times> body_outcome" where
  "append_body ix repo p offset [] = (p, offset, BodyOk)"
| "append_body ix repo p offset (Inl err # _) = (p, offset, BodyFault err)"
| "append_body ix repo p offset (Inr chunk # rest) =
     (let sz = offset + length chunk
      in if is_some_and (max_file_size_bytes (ix_policy ix)) (\<lambda>limit. sz > limit)
         then (p, offset, case policy_size_denial ix repo sz of Some d \<Rightarrow> BodyDenied d | None \<Rightarrow> BodyPanic)
         else append_body ix repo (pending_write p chunk) sz rest)"

definition denial_text :: "policy_denial \<Rightarrow> string" where
  "denial_text d = pd_reason d"

definition body_response :: "body_outcome \<Rightarrow> oci_response" where
  "body_response b = (case b of
      BodyFault err \<Rightarrow> Gateway (''upstream transfer failed: '' @ err)
    | BodyDenied d \<Rightarrow> OciError Denied (denial_text d)
    | _ \<Rightarrow> Panicked)"

definition append_or_restore ::
    "registry \<Rightarrow> string \<Rightarrow> upload_session \<Rightarrow> body \<Rightarrow> 'c index \<Rightarrow> string \<Rightarrow> registry \<times> (body_outcome + upload_session)" where
  "append_or_restore g session u body ix repo =
     (case append_body ix repo (us_pending u) (us_offset u) body of
        (p, offset, BodyOk) \<Rightarrow> (g, Inr (u\<lparr>us_pending := p, us_offset := offset\<rparr>))
      | (p, offset, BodyFault err) \<Rightarrow> (put_session g session (u\<lparr>us_pending := p, us_offset := offset\<rparr>), Inl (BodyFault err))
      | (_, _, out) \<Rightarrow> (g, Inl out))"

section \<open>Memberships of blobs\<close>

definition cached_blob_is_member :: "registry \<Rightarrow> string \<Rightarrow> string \<Rightarrow> string \<Rightarrow> (registry \<times> bool) option" where
  "cached_blob_is_member g index repo digest =
     (let key = blob_membership_key index repo digest
      in if key \<in> mc_entries (rg_memberships g) then Some (g, True)
         else if blob_is_member (rg_meta g) index repo digest then
           (case cache_insert (rg_memberships g) key of None \<Rightarrow> None | Some c \<Rightarrow> Some (g\<lparr>rg_memberships := c\<rparr>, True))
         else Some (g, False))"

fun any_blob_member :: "registry \<Rightarrow> string list \<Rightarrow> string \<Rightarrow> string \<Rightarrow> (registry \<times> bool) option" where
  "any_blob_member g [] repo digest = Some (g, False)"
| "any_blob_member g (i # is) repo digest =
     (case cached_blob_is_member g i repo digest of
        None \<Rightarrow> None
      | Some (g, True) \<Rightarrow> Some (g, True)
      | Some (g, False) \<Rightarrow> any_blob_member g is repo digest)"

definition blob_authorized :: "registry \<Rightarrow> 'c index list \<Rightarrow> 'c index \<Rightarrow> string \<Rightarrow> string \<Rightarrow> (registry \<times> bool) option" where
  "blob_authorized g indexes ix repo digest = (case serving_members indexes ix of
      None \<Rightarrow> None
    | Some members \<Rightarrow> any_blob_member g (map ix_name members) repo digest)"

definition delete_blob ::
    "'c authority \<Rightarrow> 'c index list \<Rightarrow> registry \<Rightarrow> string \<Rightarrow> string \<Rightarrow> registry \<times> oci_response" where
  "delete_blob au indexes g name digest = (case resolve_writable au indexes name Delete of
      Inl response \<Rightarrow> (g, response)
    | Inr (ix, repo) \<Rightarrow>
        if blob_digest digest = None then (g, OciError DigestInvalid ''only sha256 blob digests are supported'')
        else (case cache_remove (rg_memberships g) (blob_membership_key (ix_name ix) repo digest) of
            None \<Rightarrow> (g, Panicked)
          | Some c \<Rightarrow>
              (let (deleted, meta) = delete_blob_membership (rg_meta g) (ix_name ix) repo digest;
                   g = g\<lparr>rg_memberships := c, rg_meta := meta\<rparr>
               in if \<not> deleted then (g, OciError BlobUnknown ''blob unknown'') else (g, AcceptedDelete))))"

section \<open>Upload handlers\<close>

definition download_error_response :: "blob_error \<Rightarrow> oci_response" where
  "download_error_response err = (case err of
      DigestMismatch expected actual \<Rightarrow> OciError DigestInvalid (''blob digest mismatch: expected '' @ expected @ '', got '' @ actual)
    | _ \<Rightarrow> Gateway ''blob store error'')"

definition commit_blob ::
    "(bytes \<Rightarrow> bytes) \<Rightarrow> registry \<Rightarrow> pending_blob \<Rightarrow> string \<Rightarrow> string \<Rightarrow> string \<Rightarrow> string \<Rightarrow> registry \<times> oci_response" where
  "commit_blob sha g pending index repo name digest = (case blob_digest digest of
      None \<Rightarrow> (g, OciError DigestInvalid ''only sha256 blob digests are supported'')
    | Some storage \<Rightarrow>
        (case blob_commit sha (rg_blobs g) pending storage of
           Inr blobs \<Rightarrow> (g\<lparr>rg_blobs := blobs, rg_meta := record_blob_membership (rg_meta g) index repo digest\<rparr>, CreatedBlob name digest)
         | Inl err \<Rightarrow> (g, download_error_response err)))"

text \<open>
  The random session identifiers are drawn from a list: the first before the lock, more only while they are taken.
  A list that runs out stands for a request that is still drawing (\<open>None\<close>).
\<close>

fun draw_session :: "(string, upload_session) tbl \<Rightarrow> (string + string) list \<Rightarrow> (string + string) option" where
  "draw_session uploads [] = None"
| "draw_session uploads (Inl err # _) = Some (Inl err)"
| "draw_session uploads (Inr candidate # rest) =
     (if t_get uploads candidate = None then Some (Inr candidate) else draw_session uploads rest)"

definition open_session ::
    "registry \<Rightarrow> int \<Rightarrow> (string + string) list \<Rightarrow> 'c index \<Rightarrow> string \<Rightarrow> (registry \<times> oci_response) option" where
  "open_session g now draws ix name =
     (case draws of
        [] \<Rightarrow> None
      | Inl err # _ \<Rightarrow> Some (g, Gateway (''blob io error: '' @ err))
      | _ \<Rightarrow>
          (let (g, _) = reclaim_expired g now
           in (case draw_session (rg_uploads g) draws of
                None \<Rightarrow> None
              | Some (Inl err) \<Rightarrow> Some (g, Gateway (''blob io error: '' @ err))
              | Some (Inr session) \<Rightarrow>
                  Some (put_session g session \<lparr>us_pending = blob_begin, us_offset = 0, us_index = ix_name ix, us_name = name,
                      us_last_active_at = now\<rparr>, UploadAccepted name session 0))))"

text \<open>A cross-repository mount: \<open>Some\<close> when it answers the request.\<close>

definition mount_blob ::
    "(string \<Rightarrow> oci_response + unit) \<Rightarrow> 'c index list \<Rightarrow> registry \<Rightarrow> 'c index \<Rightarrow> string \<Rightarrow> string \<Rightarrow> string \<Rightarrow> string
      \<Rightarrow> registry \<times> oci_response option" where
  "mount_blob read_ok indexes g ix repo name mount source = (case blob_digest mount of
      None \<Rightarrow> (g, None)
    | Some storage \<Rightarrow>
        (case read_ok source of
           Inl response \<Rightarrow> (g, Some response)
         | Inr _ \<Rightarrow>
             (case oci_resolve indexes source of
                None \<Rightarrow> (g, None)
              | Some (six, srepo) \<Rightarrow>
                  if policy_blocks six Serve srepo \<or> blob_head (rg_blobs g) storage = None then (g, None)
                  else (case blob_authorized g indexes six srepo mount of
                      None \<Rightarrow> (g, Some Panicked)
                    | Some (g, False) \<Rightarrow> (g, None)
                    | Some (g, True) \<Rightarrow>
                        if policy_blocks ix Upload repo then (g, Some (OciError Denied ''image name is blocked by policy''))
                        else (g\<lparr>rg_meta := record_blob_membership (rg_meta g) (ix_name ix) repo mount\<rparr>, Some (CreatedBlob name mount))))))"

definition start_upload ::
    "'c authority \<Rightarrow> (string \<Rightarrow> oci_response + unit) \<Rightarrow> (bytes \<Rightarrow> bytes) \<Rightarrow> 'c index list \<Rightarrow> registry \<Rightarrow> int
      \<Rightarrow> (string + string) list \<Rightarrow> (string \<Rightarrow> string option) \<Rightarrow> string \<Rightarrow> body \<Rightarrow> (registry \<times> oci_response) option" where
  "start_upload au read_ok sha indexes g now draws params name body = (case resolve_writable au indexes name Write of
      Inl response \<Rightarrow> Some (g, response)
    | Inr (ix, repo) \<Rightarrow>
        (let (g, mounted) = (case (params ''mount'', params ''from'') of
             (Some mount, Some source) \<Rightarrow> mount_blob read_ok indexes g ix repo name mount source
           | _ \<Rightarrow> (g, None))
         in case mounted of
              Some response \<Rightarrow> Some (g, response)
            | None \<Rightarrow>
                (case params ''digest'' of
                   Some digest \<Rightarrow>
                     (case append_body ix repo blob_begin 0 body of
                        (pending, _, BodyOk) \<Rightarrow> Some (commit_blob sha g pending (ix_name ix) repo name digest)
                      | (_, _, out) \<Rightarrow> Some (g, body_response out))
                 | None \<Rightarrow> open_session g now draws ix name)))"

definition cancel_upload ::
    "'c authority \<Rightarrow> 'c index list \<Rightarrow> registry \<Rightarrow> string \<Rightarrow> string \<Rightarrow> registry \<times> oci_response" where
  "cancel_upload au indexes g name session = (case resolve_writable au indexes name Write of
      Inl response \<Rightarrow> (g, response)
    | Inr (ix, _) \<Rightarrow>
        (case take_session g (ix_name ix) name session of
           (g, Some _) \<Rightarrow> (g, NoContent)
         | (g, None) \<Rightarrow> (g, OciError BlobUploadUnknown ''upload unknown'')))"

definition upload_status ::
    "'c authority \<Rightarrow> 'c index list \<Rightarrow> registry \<Rightarrow> int \<Rightarrow> string \<Rightarrow> string \<Rightarrow> registry \<times> oci_response" where
  "upload_status au indexes g now name session = (case resolve_writable au indexes name Write of
      Inl response \<Rightarrow> (g, response)
    | Inr (ix, _) \<Rightarrow>
        (case t_get (rg_uploads g) session of
           None \<Rightarrow> (g, OciError BlobUploadUnknown ''upload unknown'')
         | Some u \<Rightarrow>
             if belongs_to u (ix_name ix) name
             then (put_session g session (u\<lparr>us_last_active_at := now\<rparr>), UploadStatus name session (us_offset u))
             else (g, OciError BlobUploadUnknown ''upload unknown'')))"

definition patch_upload ::
    "'c authority \<Rightarrow> 'c index list \<Rightarrow> registry \<Rightarrow> int \<Rightarrow> string option option \<Rightarrow> string \<Rightarrow> string \<Rightarrow> body
      \<Rightarrow> registry \<times> oci_response" where
  "patch_upload au indexes g now content_range name session body = (case resolve_writable au indexes name Write of
      Inl response \<Rightarrow> (g, response)
    | Inr (ix, repo) \<Rightarrow>
        (case take_session g (ix_name ix) name session of
           (g, None) \<Rightarrow> (g, OciError BlobUploadUnknown ''upload unknown'')
         | (g, Some u) \<Rightarrow>
             (let u = u\<lparr>us_last_active_at := now\<rparr>
              in if \<not> continues_at (chunk_start_of content_range) (us_offset u)
                 then (put_session g session u, RangeNotSatisfiable name session (us_offset u))
                 else (case append_or_restore g session u body ix repo of
                    (g, Inl out) \<Rightarrow> (g, body_response out)
                  | (g, Inr u) \<Rightarrow> (put_session g session u, UploadAccepted name session (us_offset u))))))"

definition finish_upload ::
    "'c authority \<Rightarrow> (bytes \<Rightarrow> bytes) \<Rightarrow> 'c index list \<Rightarrow> registry \<Rightarrow> string option option \<Rightarrow> (string \<Rightarrow> string option)
      \<Rightarrow> string \<Rightarrow> string \<Rightarrow> body \<Rightarrow> registry \<times> oci_response" where
  "finish_upload au sha indexes g content_range params name session body = (case resolve_writable au indexes name Write of
      Inl response \<Rightarrow> (g, response)
    | Inr (ix, repo) \<Rightarrow>
        (case take_session g (ix_name ix) name session of
           (g, None) \<Rightarrow> (g, OciError BlobUploadUnknown ''upload unknown'')
         | (g, Some u) \<Rightarrow>
             if \<not> continues_at (chunk_start_of content_range) (us_offset u)
             then (put_session g session u, RangeNotSatisfiable name session (us_offset u))
             else (case append_or_restore g session u body ix repo of
                (g, Inl out) \<Rightarrow> (g, body_response out)
              | (g, Inr u) \<Rightarrow>
                  (case params ''digest'' of
                     None \<Rightarrow> (put_session g session u, OciError DigestInvalid ''finishing an upload requires a digest'')
                   | Some digest \<Rightarrow> commit_blob sha g (us_pending u) (ix_name ix) repo name digest))))"

section \<open>Manifest handlers\<close>

definition MAX_MANIFEST_BYTES :: nat where
  "MAX_MANIFEST_BYTES = 4 * 1048576"

definition DEFAULT_MANIFEST_TYPE :: string where
  "DEFAULT_MANIFEST_TYPE = ''application/vnd.oci.image.manifest.v1+json''"

definition is_supported_manifest_type :: "string \<Rightarrow> bool" where
  "is_supported_manifest_type media_type \<longleftrightarrow> media_type \<in>
     {''application/vnd.oci.image.manifest.v1+json'', ''application/vnd.oci.image.index.v1+json'',
      ''application/vnd.docker.distribution.manifest.v2+json'', ''application/vnd.docker.distribution.manifest.list.v2+json''}"

fun missing_blob :: "registry \<Rightarrow> string \<Rightarrow> string \<Rightarrow> string list \<Rightarrow> string option" where
  "missing_blob g index repo [] = None"
| "missing_blob g index repo (blob # blobs) =
     (let present = (case blob_digest blob of None \<Rightarrow> False | Some storage \<Rightarrow> blob_head (rg_blobs g) storage \<noteq> None)
      in if \<not> present \<or> \<not> blob_is_member (rg_meta g) index repo blob then Some blob else missing_blob g index repo blobs)"

definition missing_manifest_reference ::
    "json_parser \<Rightarrow> registry \<Rightarrow> string \<Rightarrow> string \<Rightarrow> bytes \<Rightarrow> oci_response option" where
  "missing_manifest_reference parse_json g index repo bytes =
     (let (children, blobs) = manifest_descriptors parse_json bytes
      in case missing_blob g index repo blobs of
           Some blob \<Rightarrow> Some (OciError ManifestBlobUnknown (''referenced blob '' @ blob @ '' is not present''))
         | None \<Rightarrow>
             (case List.find (\<lambda>child. get_manifest (rg_meta g) child = None) children of
                Some child \<Rightarrow> Some (OciError ManifestBlobUnknown (''referenced manifest '' @ child @ '' is not present''))
              | None \<Rightarrow> None))"

text \<open>\<open>render\<close> prints a document, \<open>serde_json::Value::to_string\<close>.\<close>

definition record_referrer ::
    "json_parser \<Rightarrow> (json_doc \<Rightarrow> bytes) \<Rightarrow> meta_store \<Rightarrow> string \<Rightarrow> string \<Rightarrow> string \<Rightarrow> string \<Rightarrow> bytes
      \<Rightarrow> meta_store \<times> string option" where
  "record_referrer parse_json render s index repo canonical media_type bytes = (case parse_json bytes of
      None \<Rightarrow> (s, None)
    | Some document \<Rightarrow>
        (case as_str (json_field (json_field document ''subject'') ''digest'') of
           None \<Rightarrow> (s, None)
         | Some sub \<Rightarrow>
             let artifact_type = (case as_str (json_field document ''artifactType'') of
                   Some t \<Rightarrow> Some t | None \<Rightarrow> as_str (json_field (json_field document ''config'') ''mediaType''));
                 annotations = json_field document ''annotations'';
                 descriptor = JObject ([(''mediaType'', JString media_type), (''digest'', JString canonical),
                     (''size'', JNumber (show_nat (length bytes)))]
                   @ (case artifact_type of None \<Rightarrow> [] | Some t \<Rightarrow> [(''artifactType'', JString t)])
                   @ (case annotations of JObject _ \<Rightarrow> [(''annotations'', annotations)] | _ \<Rightarrow> []))
             in (put_referrer s index repo sub canonical (render descriptor), Some sub)))"

datatype manifest_body = Received bytes | TooLong | Broken string

definition push_manifest ::
    "'c authority \<Rightarrow> (bytes \<Rightarrow> bytes) \<Rightarrow> json_parser \<Rightarrow> (json_doc \<Rightarrow> bytes) \<Rightarrow> 'c index list \<Rightarrow> registry
      \<Rightarrow> string option \<Rightarrow> manifest_body \<Rightarrow> string \<Rightarrow> reference \<Rightarrow> registry \<times> oci_response" where
  "push_manifest au sha parse_json render indexes g content_type body name ref = (case resolve_writable au indexes name Write of
      Inl response \<Rightarrow> (g, response)
    | Inr (ix, repo) \<Rightarrow>
        if policy_blocks ix Upload repo then (g, OciError Denied ''image name is blocked by policy'')
        else let declared = unwrap_or DEFAULT_MANIFEST_TYPE content_type;
                 media_type = trim (case split_once CHR '';'' declared of None \<Rightarrow> declared | Some (base, _) \<Rightarrow> base)
        in if \<not> is_supported_manifest_type media_type
           then (g, OciError ManifestInvalid (''unsupported manifest media type '' @ media_type))
        else (case body of
            TooLong \<Rightarrow> (g, OciError SizeInvalid (''manifest exceeds the '' @ show_nat MAX_MANIFEST_BYTES @ ''-byte limit''))
          | Broken err \<Rightarrow> (g, Gateway (''upstream transfer failed: '' @ err))
          | Received bytes \<Rightarrow>
              let canonical = ''sha256:'' @ digest_of sha bytes
              in if (case ref of Digest d \<Rightarrow> d \<noteq> canonical | Tag _ \<Rightarrow> False)
                 then (g, OciError DigestInvalid ''manifest bytes do not match the digest'')
                 else (case missing_manifest_reference parse_json g (ix_name ix) repo bytes of
                    Some response \<Rightarrow> (g, response)
                  | None \<Rightarrow>
                      let meta = record_manifest parse_json (rg_meta g) (ix_name ix) repo canonical
                            \<lparr>mf_media_type = media_type, mf_bytes = bytes\<rparr>
                      in (case (case ref of Tag t \<Rightarrow> map_sum id snd (put_tag meta (ix_name ix) repo t canonical) | Digest _ \<Rightarrow> Inr meta) of
                            Inl _ \<Rightarrow> (g\<lparr>rg_meta := meta\<rparr>, Gateway ''metadata store error'')
                          | Inr meta \<Rightarrow>
                              (let (meta, sub) = record_referrer parse_json render meta (ix_name ix) repo canonical media_type bytes
                               in (g\<lparr>rg_meta := meta\<rparr>, CreatedManifest (''/v2/'' @ name @ ''/manifests/'' @ canonical) canonical sub))))))"

definition delete_manifest_handler ::
    "'c authority \<Rightarrow> json_parser \<Rightarrow> 'c index list \<Rightarrow> registry \<Rightarrow> string \<Rightarrow> reference \<Rightarrow> registry \<times> oci_response" where
  "delete_manifest_handler au parse_json indexes g name ref = (case resolve_writable au indexes name Delete of
      Inl response \<Rightarrow> (g, response)
    | Inr (ix, repo) \<Rightarrow>
        (case (case ref of Tag t \<Rightarrow> delete_tag (rg_meta g) (ix_name ix) repo t
               | Digest d \<Rightarrow> delete_manifest_by_digest parse_json (rg_meta g) (ix_name ix) repo d) of
           Inl _ \<Rightarrow> (g, Gateway ''metadata store error'')
         | Inr (removed, meta) \<Rightarrow>
             (g\<lparr>rg_meta := meta\<rparr>, if removed then AcceptedDelete else OciError ManifestUnknown ''manifest unknown'')))"

section \<open>Reachable registries\<close>

definition registry_new :: registry where
  "registry_new = \<lparr>rg_meta = open_new, rg_blobs = [], rg_uploads = [], rg_memberships = cache_empty\<rparr>"

inductive registry_run ::
    "'c authority \<Rightarrow> (string \<Rightarrow> oci_response + unit) \<Rightarrow> (bytes \<Rightarrow> bytes) \<Rightarrow> json_parser \<Rightarrow> (json_doc \<Rightarrow> bytes) \<Rightarrow> 'c index list
      \<Rightarrow> registry \<Rightarrow> bool" for au read_ok sha parse_json render indexes where
  fresh: "registry_run au read_ok sha parse_json render indexes registry_new"
| start: "registry_run au read_ok sha parse_json render indexes g \<Longrightarrow> start_upload au read_ok sha indexes g now draws params name body = Some (g', r) \<Longrightarrow> registry_run au read_ok sha parse_json render indexes g'"
| cancel: "registry_run au read_ok sha parse_json render indexes g \<Longrightarrow> registry_run au read_ok sha parse_json render indexes (fst (cancel_upload au indexes g name session))"
| status: "registry_run au read_ok sha parse_json render indexes g \<Longrightarrow> registry_run au read_ok sha parse_json render indexes (fst (upload_status au indexes g now name session))"
| patch: "registry_run au read_ok sha parse_json render indexes g \<Longrightarrow> registry_run au read_ok sha parse_json render indexes (fst (patch_upload au indexes g now content_range name session body))"
| finish: "registry_run au read_ok sha parse_json render indexes g \<Longrightarrow> registry_run au read_ok sha parse_json render indexes (fst (finish_upload au sha indexes g content_range params name session body))"
| reclaim: "registry_run au read_ok sha parse_json render indexes g \<Longrightarrow> registry_run au read_ok sha parse_json render indexes (fst (reclaim_expired g now))"
| member: "registry_run au read_ok sha parse_json render indexes g \<Longrightarrow> cached_blob_is_member g index repo digest = Some (g', b) \<Longrightarrow> registry_run au read_ok sha parse_json render indexes g'"
| drop_blob: "registry_run au read_ok sha parse_json render indexes g \<Longrightarrow> registry_run au read_ok sha parse_json render indexes (fst (delete_blob au indexes g name digest))"
| push: "registry_run au read_ok sha parse_json render indexes g \<Longrightarrow> registry_run au read_ok sha parse_json render indexes (fst (push_manifest au sha parse_json render indexes g content_type mbody name ref))"
| drop_manifest: "registry_run au read_ok sha parse_json render indexes g \<Longrightarrow> registry_run au read_ok sha parse_json render indexes (fst (delete_manifest_handler au parse_json indexes g name ref))"

definition session_ok :: "upload_session \<Rightarrow> bool" where
  "session_ok u \<longleftrightarrow> pb_len (us_pending u) = length (pb_file (us_pending u)) \<and> pb_hashed (us_pending u) = pb_file (us_pending u)
     \<and> us_offset u = length (pb_file (us_pending u))"

definition uploads_ok :: "registry \<Rightarrow> bool" where
  "uploads_ok g \<longleftrightarrow> (\<forall>session u. t_get (rg_uploads g) session = Some u \<longrightarrow> session_ok u) \<and> t_wf (rg_uploads g)"

definition cache_ok :: "meta_store \<Rightarrow> membership_cache \<Rightarrow> bool" where
  "cache_ok s c \<longleftrightarrow> distinct (mc_order c) \<and> mc_entries c = set (mc_order c) \<and> mc_bytes c = sum_list (map length (mc_order c))
     \<and> mc_bytes c \<le> BLOB_MEMBERSHIP_CACHE_BYTES \<and> (\<forall>k \<in> mc_entries c. get_driver_value s k \<noteq> None)
     \<and> (\<forall>k \<in> mc_entries c. \<exists>i r d. k = blob_membership_key i r d)"

definition registry_inv :: "(bytes \<Rightarrow> bytes) \<Rightarrow> registry \<Rightarrow> bool" where
  "registry_inv sha g \<longleftrightarrow> uploads_ok g \<and> blobs_ok sha (rg_blobs g) \<and> cache_ok (rg_meta g) (rg_memberships g)"

subsection \<open>Sessions\<close>

lemma size_denied: "is_some_and (max_file_size_bytes (ix_policy ix)) (\<lambda>limit. sz > limit) \<Longrightarrow> policy_size_denial ix repo sz \<noteq> None"
  using evaluate_size_iff [of "ix_policy ix" Upload repo sz]
  by (cases "max_file_size_bytes (ix_policy ix)"; cases "evaluate_size (ix_policy ix) Upload repo sz")
    (auto simp: policy_size_denial_def check_size_def Let_def)

definition landed :: "body \<Rightarrow> bytes" where
  "landed body = concat (map projr (takeWhile (\<lambda>c. \<not> isl c) body))"

lemma append_body_sound:
  assumes "append_body ix repo p offset body = (p', offset', out)"
    and "pb_len p = length (pb_file p)" "pb_hashed p = pb_file p" "offset = length (pb_file p)"
  shows "pb_len p' = length (pb_file p') \<and> pb_hashed p' = pb_file p' \<and> offset' = length (pb_file p') \<and> out \<noteq> BodyPanic
    \<and> (out = BodyOk \<longrightarrow> list_all (\<lambda>c. \<not> isl c) body \<and> pb_file p' = pb_file p @ landed body)
    \<and> (\<forall>err. out = BodyFault err \<longrightarrow> pb_file p' = pb_file p @ landed body)"
  using assms
proof (induction ix repo p offset body rule: append_body.induct)
  case (3 ix repo p offset chunk rest)
  show ?case
  proof (cases "is_some_and (max_file_size_bytes (ix_policy ix)) (\<lambda>limit. offset + length chunk > limit)")
    case True
    then obtain d where "policy_size_denial ix repo (offset + length chunk) = Some d" using size_denied by blast
    with True 3 show ?thesis by (auto simp: Let_def)
  next
    case False
    with "3.prems"(1) have rest: "append_body ix repo (pending_write p chunk) (offset + length chunk) rest = (p', offset', out)"
      by (simp add: Let_def)
    have "landed (Inr chunk # rest) = chunk @ landed rest" by (simp add: landed_def)
    with "3.IH" [OF refl False rest] "3.prems" show ?thesis by (simp add: pending_write_def)
  qed
qed (auto simp: landed_def)

lemma append_body_limit:
  assumes "append_body ix repo p offset body = (p', offset', BodyOk)" "is_none_or (max_file_size_bytes (ix_policy ix)) (\<lambda>limit. offset \<le> limit)"
  shows "is_none_or (max_file_size_bytes (ix_policy ix)) (\<lambda>limit. offset' \<le> limit)"
  using assms
proof (induction ix repo p offset body rule: append_body.induct)
  case (3 ix repo p offset chunk rest)
  have False': "\<not> is_some_and (max_file_size_bytes (ix_policy ix)) (\<lambda>limit. offset + length chunk > limit)"
    using "3.prems"(1) by (auto simp: Let_def split: option.splits)
  then have "is_none_or (max_file_size_bytes (ix_policy ix)) (\<lambda>limit. offset + length chunk \<le> limit)"
    by (cases "max_file_size_bytes (ix_policy ix)") auto
  with "3.IH" [OF refl False'] "3.prems"(1) False' show ?case by (simp add: Let_def)
qed auto

lemma put_session_ok: "uploads_ok g \<Longrightarrow> session_ok u \<Longrightarrow> uploads_ok (put_session g session u)"
  by (auto simp: uploads_ok_def put_session_def split: if_splits)

lemma append_or_restore_ok:
  assumes "append_or_restore g session u body ix repo = (g', res)" "session_ok u" "uploads_ok g"
  shows "uploads_ok g' \<and> rg_blobs g' = rg_blobs g \<and> rg_meta g' = rg_meta g \<and> rg_memberships g' = rg_memberships g
    \<and> (\<forall>u'. res = Inr u' \<longrightarrow> g' = g \<and> session_ok u' \<and> us_index u' = us_index u \<and> us_name u' = us_name u
         \<and> pb_file (us_pending u') = pb_file (us_pending u) @ landed body)
    \<and> res \<noteq> Inl BodyPanic"
proof -
  obtain p offset out where a: "append_body ix repo (us_pending u) (us_offset u) body = (p, offset, out)"
    by (cases "append_body ix repo (us_pending u) (us_offset u) body")
  note sound = append_body_sound [OF a]
  show ?thesis
    using assms a sound
    by (cases out) (auto simp: append_or_restore_def session_ok_def put_session_ok, auto simp: put_session_def uploads_ok_def session_ok_def split: if_splits)
qed

lemma take_session_ok:
  assumes "take_session g index name session = (g', found)" "uploads_ok g"
  shows "uploads_ok g' \<and> rg_blobs g' = rg_blobs g \<and> rg_meta g' = rg_meta g \<and> rg_memberships g' = rg_memberships g
    \<and> (\<forall>u. found = Some u \<longrightarrow> session_ok u \<and> belongs_to u index name \<and> t_get (rg_uploads g) session = Some u
         \<and> rg_uploads g' = t_remove (rg_uploads g) session)"
  using assms
  by (cases "t_get (rg_uploads g) session") (auto simp: take_session_def uploads_ok_def split: if_splits)

lemma t_wf_filter: "t_wf t \<Longrightarrow> t_wf (filter P t)"
  by (auto simp: t_wf_def sorted_wrt_map sorted_wrt_filter)

lemma t_get_filter: "t_wf t \<Longrightarrow> t_get (filter P t) k = Some v \<Longrightarrow> t_get t k = Some v"
  using t_get_iff [OF t_wf_filter, of t P k v] t_get_iff [of t k v] by auto

lemma reclaim_ok:
  assumes "uploads_ok g"
  shows "uploads_ok (fst (reclaim_expired g now)) \<and> rg_blobs (fst (reclaim_expired g now)) = rg_blobs g
    \<and> rg_meta (fst (reclaim_expired g now)) = rg_meta g \<and> rg_memberships (fst (reclaim_expired g now)) = rg_memberships g"
proof -
  have "session_ok u" if "t_get (filter P (rg_uploads g)) session = Some u" for P session u
    using assms t_get_filter [OF _ that] by (auto simp: uploads_ok_def)
  with assms show ?thesis by (auto simp: reclaim_expired_def Let_def uploads_ok_def t_wf_filter)
qed

subsection \<open>The membership cache\<close>

text \<open>Weight, order and entries agree; the bound and the rows behind the entries are separate.\<close>

definition cache_shape :: "membership_cache \<Rightarrow> bool" where
  "cache_shape c \<longleftrightarrow> distinct (mc_order c) \<and> mc_entries c = set (mc_order c) \<and> mc_bytes c = sum_list (map length (mc_order c))"

lemma cache_evict_ok:
  assumes "cache_shape c"
  shows "\<exists>c'. cache_evict c = Some c' \<and> cache_shape c' \<and> mc_bytes c' \<le> BLOB_MEMBERSHIP_CACHE_BYTES \<and> mc_entries c' \<subseteq> mc_entries c"
  using assms
proof (induction c rule: cache_evict.induct)
  case (1 c)
  show ?case
  proof (cases "mc_bytes c > BLOB_MEMBERSHIP_CACHE_BYTES")
    case True
    with 1(2) obtain oldest rest where order: "mc_order c = oldest # rest" by (cases "mc_order c") (auto simp: cache_shape_def)
    have sub: "checked_sub_u64 (mc_bytes c) (length oldest) = Some (mc_bytes c - length oldest)"
      using 1(2) order by (auto simp: cache_shape_def checked_sub_u64_def)
    let ?c = "c\<lparr>mc_order := rest, mc_entries := mc_entries c - {oldest}, mc_bytes := mc_bytes c - length oldest\<rparr>"
    have "cache_shape ?c" using 1(2) order by (auto simp: cache_shape_def)
    from 1(1) [OF True order sub this] True order sub show ?thesis by (subst cache_evict.simps) auto
  next
    case False
    with 1(2) show ?thesis by (subst cache_evict.simps) simp
  qed
qed

lemma cache_insert_ok:
  assumes "cache_ok s c" "blob_membership_key i r d \<notin> mc_entries c" "get_driver_value s (blob_membership_key i r d) \<noteq> None"
  shows "\<exists>c'. cache_insert c (blob_membership_key i r d) = Some c' \<and> cache_ok s c'"
proof -
  let ?k = "blob_membership_key i r d"
  let ?c = "c\<lparr>mc_entries := insert ?k (mc_entries c), mc_bytes := mc_bytes c + length ?k, mc_order := mc_order c @ [?k]\<rparr>"
  have "cache_shape ?c" using assms by (auto simp: cache_ok_def cache_shape_def)
  from cache_evict_ok [OF this] obtain c' where c': "cache_evict ?c = Some c'" "cache_shape c'"
    "mc_bytes c' \<le> BLOB_MEMBERSHIP_CACHE_BYTES" "mc_entries c' \<subseteq> insert ?k (mc_entries c)" by auto
  then have "cache_ok s c'" using assms unfolding cache_ok_def cache_shape_def by blast
  with c'(1) show ?thesis by (simp add: cache_insert_def)
qed

lemma filter_absent: "x \<notin> set xs \<Longrightarrow> filter (\<lambda>e. e \<noteq> x) xs = xs"
  by (induction xs) auto

lemma sum_list_remove:
  assumes "distinct xs" "x \<in> set xs"
  shows "sum_list (map length (filter (\<lambda>e. e \<noteq> x) xs)) = sum_list (map length xs) - length (x :: string)"
    and "length x \<le> sum_list (map length xs)"
proof -
  have "sum_list (map length (filter (\<lambda>e. e \<noteq> x) xs)) + length x = sum_list (map length xs)"
    using assms by (induction xs) (auto simp: filter_absent)
  then show "sum_list (map length (filter (\<lambda>e. e \<noteq> x) xs)) = sum_list (map length xs) - length x" "length x \<le> sum_list (map length xs)"
    by simp_all
qed

lemma cache_remove_ok:
  assumes "cache_ok s c" "\<And>k'. k' \<noteq> k \<Longrightarrow> get_driver_value s' k' = get_driver_value s k'"
  shows "\<exists>c'. cache_remove c k = Some c' \<and> cache_ok s' c'"
proof (cases "k \<in> mc_entries c")
  case True
  have "mc_entries c = set (mc_order c)" "distinct (mc_order c)" "mc_bytes c = sum_list (map length (mc_order c))"
    using assms(1) by (simp_all add: cache_ok_def)
  with True sum_list_remove [of "mc_order c" k] assms show ?thesis
    by (auto simp: cache_remove_def checked_sub_u64_def cache_ok_def)
next
  case False
  then have "cache_ok s' c" using assms unfolding cache_ok_def by metis
  with False show ?thesis by (simp add: cache_remove_def)
qed

text \<open>Rows of blob memberships survive every operation but their own deletion.\<close>

definition keeps_blob_rows :: "meta_store \<Rightarrow> meta_store \<Rightarrow> bool" where
  "keeps_blob_rows s s' \<longleftrightarrow> (\<forall>i r d. blob_is_member s i r d \<longrightarrow> blob_is_member s' i r d)"

lemma cache_ok_keeps: "cache_ok s c \<Longrightarrow> keeps_blob_rows s s' \<Longrightarrow> cache_ok s' c"
  unfolding cache_ok_def keeps_blob_rows_def blob_is_member_def by metis

lemma kind_differs: "kind \<noteq> kind' \<Longrightarrow> nul_free kind \<Longrightarrow> nul_free kind' \<Longrightarrow> repo_prefix kind i r @ x \<noteq> repo_prefix kind' i' r' @ y"
  using nul_cancel [of kind kind'] by (auto simp: repo_prefix_def)

lemma keeps_blob_rows_refl [simp]: "keeps_blob_rows s s"
  by (simp add: keeps_blob_rows_def)

lemma keeps_blob_rows_trans: "keeps_blob_rows a b \<Longrightarrow> keeps_blob_rows b c \<Longrightarrow> keeps_blob_rows a c"
  by (simp add: keeps_blob_rows_def)

lemma keeps_put [simp]: "keeps_blob_rows s (put_driver_value s k v)"
  by (simp add: keeps_blob_rows_def blob_is_member_def)

lemma keeps_record_blob [simp]: "keeps_blob_rows s (record_blob_membership s i r d)"
  by (simp add: record_blob_membership_def)

lemma keeps_record_manifest [simp]: "keeps_blob_rows s (record_manifest parse_json s i r d m)"
  by (auto simp: keeps_blob_rows_def blob_is_member_def get_record_manifest)

lemma keeps_delete:
  assumes "\<And>i r d. k \<noteq> blob_membership_key i r d"
  shows "keeps_blob_rows s (snd (delete_driver_value s k))"
  using assms by (auto simp: keeps_blob_rows_def blob_is_member_def)

lemma tag_rows_differ: "tag_key i r t \<noteq> blob_membership_key i' r' d" "tag_freshness_key i r t \<noteq> blob_membership_key i' r' d"
  "membership_key i r m \<noteq> blob_membership_key i' r' d" "manifest_key m \<noteq> blob_membership_key i' r' d"
  unfolding repo_keys by (simp_all add: kind_differs manifest_key_repo)

lemma keeps_delete_tag: "delete_tag s i r t = Inr (b, s') \<Longrightarrow> keeps_blob_rows s s'"
  using keeps_blob_rows_trans [OF keeps_delete keeps_delete, of "tag_key i r t" "tag_freshness_key i r t"]
  by (auto simp: delete_tag_eq tag_rows_differ)

lemma keeps_delete_repo_tags:
  assumes "delete_repo_tags_to s i r d = Inr (counts, s')"
  shows "keeps_blob_rows s s'"
proof -
  have "get_driver_value s' (blob_membership_key i' r' d') = get_driver_value s (blob_membership_key i' r' d')" for i' r' d'
  proof (rule delete_repo_tags_to_ok [of s i r d])
    fix c s1
    let ?K = "map fst (prefix_scan (dt_table (snd (fold (remove_tag_to i r d)
          (prefix_scan (driver_kv s) (tag_prefix i r)) (0, open_txn s)))) (repo_prefix ''r'' i r))"
    assume "delete_repo_tags_to s i r d = Inr (c, s1)" and get: "\<And>k. get_driver_value s1 k =
      (if k \<in> doomed_tags i r d (prefix_scan (driver_kv s) (tag_prefix i r)) then None
       else if k \<in> doomed_referrers d ?K then None else get_driver_value s k)"
    then have s1: "s1 = s'" using assms by simp
    have "blob_membership_key i' r' d' \<notin> doomed_tags i r d (prefix_scan (driver_kv s) (tag_prefix i r))"
      by (auto simp: doomed_tags_def tag_rows_differ tag_rows_differ [symmetric])
    moreover have "blob_membership_key i' r' d' \<notin> doomed_referrers d ?K"
    proof
      assume "blob_membership_key i' r' d' \<in> doomed_referrers d ?K"
      then obtain e where "e \<in> set (prefix_scan (dt_table (snd (fold (remove_tag_to i r d)
          (prefix_scan (driver_kv s) (tag_prefix i r)) (0, open_txn s)))) (repo_prefix ''r'' i r))" "fst e = blob_membership_key i' r' d'"
        by (auto simp: doomed_referrers_def)
      with prefix_scan_starts obtain x where "blob_membership_key i' r' d' = repo_prefix ''r'' i r @ x"
        unfolding starts_with_iff by metis
      then show False by (simp add: repo_keys kind_differs)
    qed
    ultimately show ?thesis using get s1 by simp
  qed
  then show ?thesis by (simp add: keeps_blob_rows_def blob_is_member_def)
qed

lemma keeps_delete_by_digest:
  assumes "delete_manifest_by_digest parse_json s i r d = Inr (b, s')"
  shows "keeps_blob_rows s s'"
proof -
  obtain counts s1 b' where s1: "delete_repo_tags_to s i r d = Inr (counts, s1)"
    and eq: "delete_manifest_by_digest parse_json s i r d = Inr (b', prune_manifest_membership parse_json
       (if get_manifest s d \<noteq> None \<and> d \<notin> referenced_manifest_digests parse_json s1 then snd (delete_manifest s1 d) else s1) i r d)"
    by (rule delete_by_digest_cases [of s i r d parse_json])
  let ?s2 = "if get_manifest s d \<noteq> None \<and> d \<notin> referenced_manifest_digests parse_json s1 then snd (delete_manifest s1 d) else s1"
  have "keeps_blob_rows s1 ?s2" by (simp add: delete_manifest_def keeps_delete tag_rows_differ)
  moreover have "keeps_blob_rows ?s2 (prune_manifest_membership parse_json ?s2 i r d)"
    by (simp add: prune_manifest_membership_def keeps_delete tag_rows_differ)
  ultimately have "keeps_blob_rows s (prune_manifest_membership parse_json ?s2 i r d)"
    by (rule keeps_blob_rows_trans [OF keeps_blob_rows_trans [OF keeps_delete_repo_tags [OF s1]]])
  with assms eq show ?thesis by simp
qed

subsection \<open>The invariant\<close>

lemma inv_fields:
  assumes "registry_inv sha g" "rg_blobs g' = rg_blobs g" "rg_memberships g' = rg_memberships g" "keeps_blob_rows (rg_meta g) (rg_meta g')" "uploads_ok g'"
  shows "registry_inv sha g'"
  using assms cache_ok_keeps by (auto simp: registry_inv_def)

lemma uploads_ok_cong: "rg_uploads g' = rg_uploads g \<Longrightarrow> uploads_ok g' = uploads_ok g"
  by (simp add: uploads_ok_def)

lemma commit_blob_inv:
  assumes "commit_blob sha g pending index repo name digest = (g', r)" "registry_inv sha g" "pb_hashed pending = pb_file pending"
  shows "registry_inv sha g' \<and> rg_uploads g' = rg_uploads g"
proof (cases "blob_digest digest")
  case (Some storage)
  show ?thesis
  proof (cases "blob_commit sha (rg_blobs g) pending storage")
    case (Inr blobs)
    then have "blobs = place (rg_blobs g) (digest_of sha (pb_file pending)) (pb_file pending)"
      using assms(3) by (simp add: blob_commit_def pending_finish_def commit_staged_def Let_def split: if_splits)
    then have "blobs_ok sha blobs" using assms(2) blobs_ok_place by (simp add: registry_inv_def)
    then show ?thesis
      using assms(1,2) Some Inr cache_ok_keeps [OF _ keeps_record_blob]
      by (auto simp: commit_blob_def registry_inv_def uploads_ok_def)
  qed (use assms Some in \<open>simp add: commit_blob_def\<close>)
qed (use assms in \<open>simp add: commit_blob_def\<close>)

lemma cached_member_exact:
  assumes "registry_inv sha g"
  shows "\<exists>g'. cached_blob_is_member g index repo digest = Some (g', blob_is_member (rg_meta g) index repo digest)
    \<and> registry_inv sha g' \<and> rg_meta g' = rg_meta g \<and> rg_blobs g' = rg_blobs g \<and> rg_uploads g' = rg_uploads g"
proof -
  let ?k = "blob_membership_key index repo digest"
  have cache: "cache_ok (rg_meta g) (rg_memberships g)" using assms by (simp add: registry_inv_def)
  show ?thesis
  proof (cases "?k \<in> mc_entries (rg_memberships g)")
    case True
    with cache have "blob_is_member (rg_meta g) index repo digest" by (auto simp: cache_ok_def blob_is_member_def)
    with True assms show ?thesis by (simp add: cached_blob_is_member_def)
  next
    case False
    with assms cache_insert_ok [OF cache False] show ?thesis
      by (cases "blob_is_member (rg_meta g) index repo digest")
        (auto simp: cached_blob_is_member_def Let_def registry_inv_def uploads_ok_def blob_is_member_def)
  qed
qed

lemma any_blob_member_exact:
  assumes "registry_inv sha g"
  shows "\<exists>g'. any_blob_member g names repo digest = Some (g', list_ex (\<lambda>i. blob_is_member (rg_meta g) i repo digest) names)
    \<and> registry_inv sha g' \<and> rg_meta g' = rg_meta g \<and> rg_blobs g' = rg_blobs g \<and> rg_uploads g' = rg_uploads g"
  using assms
proof (induction names arbitrary: g)
  case (Cons i names)
  obtain g1 where g1: "cached_blob_is_member g i repo digest = Some (g1, blob_is_member (rg_meta g) i repo digest)"
    "registry_inv sha g1" "rg_meta g1 = rg_meta g" "rg_blobs g1 = rg_blobs g" "rg_uploads g1 = rg_uploads g"
    using cached_member_exact [OF Cons.prems] by blast
  with Cons.IH [OF g1(2)] show ?case by (cases "blob_is_member (rg_meta g) i repo digest") auto
qed simp

lemma put_session_inv: "registry_inv sha g \<Longrightarrow> session_ok u \<Longrightarrow> registry_inv sha (put_session g session u)"
  by (rule inv_fields [of sha g]) (simp_all add: registry_inv_def put_session_ok, simp_all add: put_session_def)

lemma take_session_inv:
  assumes "take_session g index name session = (g', found)" "registry_inv sha g"
  shows "registry_inv sha g' \<and> (\<forall>u. found = Some u \<longrightarrow> session_ok u)"
  using take_session_ok [OF assms(1)] assms(2) inv_fields [of sha g g'] by (simp add: registry_inv_def)

lemma append_or_restore_inv:
  assumes "append_or_restore g session u body ix repo = (g', res)" "session_ok u" "registry_inv sha g"
  shows "registry_inv sha g' \<and> (\<forall>u'. res = Inr u' \<longrightarrow> session_ok u')"
  using append_or_restore_ok [OF assms(1,2)] assms(3) inv_fields [of sha g g'] by (simp add: registry_inv_def)

lemma session_ok_touch [simp]: "session_ok (u\<lparr>us_last_active_at := t\<rparr>) = session_ok u"
  by (simp add: session_ok_def)

lemma patch_inv: "registry_inv sha g \<Longrightarrow> registry_inv sha (fst (patch_upload au indexes g now cr name session body))"
  unfolding patch_upload_def Let_def
  by (auto split: sum.split prod.split option.split dest!: take_session_inv [where sha = sha] append_or_restore_inv [where sha = sha]
      intro!: put_session_inv)

lemma finish_inv: "registry_inv sha g \<Longrightarrow> registry_inv sha (fst (finish_upload au sha indexes g cr params name session body))"
proof -
  assume inv: "registry_inv sha g"
  have commit: "registry_inv sha (fst (commit_blob sha g' (us_pending u) i r n d))" if "registry_inv sha g'" "session_ok u" for g' u i r n d
    using commit_blob_inv [of sha g' "us_pending u" i r n d] that by (cases "commit_blob sha g' (us_pending u) i r n d") (auto simp: session_ok_def)
  show ?thesis
    using inv unfolding finish_upload_def
    by (auto split: sum.split prod.split option.split dest!: take_session_inv [where sha = sha] append_or_restore_inv [where sha = sha]
        intro!: put_session_inv commit)
qed

lemma open_session_inv:
  assumes "open_session g now draws ix name = Some (g', r)" "registry_inv sha g"
  shows "registry_inv sha g'"
proof -
  have rec: "registry_inv sha (fst (reclaim_expired g now))"
    using inv_fields [OF assms(2)] reclaim_ok [of g now] assms(2) by (simp add: registry_inv_def)
  have fresh: "session_ok \<lparr>us_pending = blob_begin, us_offset = 0, us_index = i, us_name = n, us_last_active_at = t\<rparr>" for i n t
    by (simp add: session_ok_def blob_begin_def)
  show ?thesis
    using assms rec
    by (auto simp: open_session_def case_prod_beta Let_def put_session_inv fresh split: list.splits sum.splits option.splits)
qed

lemma mount_inv:
  assumes "mount_blob read_ok indexes g ix repo name mount source = (g', r)" "registry_inv sha g"
  shows "registry_inv sha g'"
proof -
  have auth: "registry_inv sha g1" if ba: "blob_authorized g indexes six srepo mount = Some (g1, b)" for g1 b six srepo
  proof -
    obtain members where "serving_members indexes six = Some members" and m: "any_blob_member g (map ix_name members) srepo mount = Some (g1, b)"
      using ba by (auto simp: blob_authorized_def split: option.splits)
    with any_blob_member_exact [OF assms(2), of "map ix_name members" srepo mount] show ?thesis by auto
  qed
  have grow: "registry_inv sha (g1\<lparr>rg_meta := record_blob_membership (rg_meta g1) i r d\<rparr>)" if "registry_inv sha g1" for g1 i r d
    using that by (intro inv_fields [OF that]) (simp_all add: registry_inv_def uploads_ok_def)
  show ?thesis
    using assms unfolding mount_blob_def
    by (auto split: option.splits sum.splits if_splits bool.splits dest!: auth intro!: grow)
qed

lemma start_inv:
  assumes "start_upload au read_ok sha indexes g now draws params name body = Some (g', r)" "registry_inv sha g"
  shows "registry_inv sha g'"
proof (cases "resolve_writable au indexes name Write")
  case (Inl resp)
  with assms show ?thesis by (simp add: start_upload_def)
next
  case (Inr t)
  obtain ix repo where t: "t = (ix, repo)" by (cases t)
  obtain g1 m where g1: "(case (params ''mount'', params ''from'') of
       (Some mount, Some source) \<Rightarrow> mount_blob read_ok indexes g ix repo name mount source | _ \<Rightarrow> (g, None)) = (g1, m)"
    by (cases "case (params ''mount'', params ''from'') of
       (Some mount, Some source) \<Rightarrow> mount_blob read_ok indexes g ix repo name mount source | _ \<Rightarrow> (g, None)")
  have inv1: "registry_inv sha g1"
    using g1 assms(2) mount_inv by (auto split: option.splits)
  obtain p off out where b: "append_body ix repo blob_begin 0 body = (p, off, out)" by (cases "append_body ix repo blob_begin 0 body")
  have "pb_hashed p = pb_file p" using append_body_sound [OF b] by (simp add: blob_begin_def)
  note commit = commit_blob_inv [OF _ inv1 this]
  show ?thesis
  proof (cases m)
    case (Some resp)
    with assms(1) Inr t g1 inv1 show ?thesis by (simp add: start_upload_def)
  next
    case None
    have eq: "start_upload au read_ok sha indexes g now draws params name body = (case params ''digest'' of
        Some digest \<Rightarrow> (case out of BodyOk \<Rightarrow> Some (commit_blob sha g1 p (ix_name ix) repo name digest) | _ \<Rightarrow> Some (g1, body_response out))
      | None \<Rightarrow> open_session g1 now draws ix name)"
      using Inr t g1 None b by (simp add: start_upload_def split: option.splits body_outcome.splits)
    show ?thesis
      using assms(1) inv1 commit open_session_inv [of g1 now draws ix name g' r sha] unfolding eq
      by (auto split: option.splits body_outcome.splits)
  qed
qed

lemma cancel_inv: "registry_inv sha g \<Longrightarrow> registry_inv sha (fst (cancel_upload au indexes g name session))"
  unfolding cancel_upload_def
  by (auto split: sum.split prod.split option.split dest!: take_session_inv [where sha = sha])

lemma status_inv:
  assumes "registry_inv sha g"
  shows "registry_inv sha (fst (upload_status au indexes g now name session))"
proof -
  have "session_ok u" if "t_get (rg_uploads g) session = Some u" for u
    using assms that by (auto simp: registry_inv_def uploads_ok_def)
  with assms show ?thesis unfolding upload_status_def
    by (auto split: sum.split prod.split option.split intro!: put_session_inv)
qed

lemma reclaim_inv: "registry_inv sha g \<Longrightarrow> registry_inv sha (fst (reclaim_expired g now))"
  using inv_fields [of sha g] reclaim_ok [of g now] by (simp add: registry_inv_def)

lemma delete_blob_inv:
  assumes "registry_inv sha g"
  shows "registry_inv sha (fst (delete_blob au indexes g name digest))"
proof -
  have drop: "\<exists>c'. cache_remove (rg_memberships g) k = Some c' \<and> cache_ok (snd (delete_driver_value (rg_meta g) k)) c'" for k
    using assms by (intro cache_remove_ok) (auto simp: registry_inv_def)
  have "registry_inv sha (g\<lparr>rg_memberships := c, rg_meta := snd (delete_blob_membership (rg_meta g) i r digest)\<rparr>)"
    if "cache_remove (rg_memberships g) (blob_membership_key i r digest) = Some c" for c i r
    using assms that drop [of "blob_membership_key i r digest"]
    by (auto simp: registry_inv_def uploads_ok_def delete_blob_membership_def)
  with assms show ?thesis unfolding delete_blob_def
    by (auto simp: Let_def case_prod_beta split: sum.split option.split)
qed

lemma meta_inv: "registry_inv sha g \<Longrightarrow> keeps_blob_rows (rg_meta g) s \<Longrightarrow> registry_inv sha (g\<lparr>rg_meta := s\<rparr>)"
  by (rule inv_fields [of sha g]) (simp_all add: registry_inv_def uploads_ok_def)

lemma delete_manifest_handler_inv:
  "registry_inv sha g \<Longrightarrow> registry_inv sha (fst (delete_manifest_handler au parse_json indexes g name ref))"
  unfolding delete_manifest_handler_def
  by (auto split: sum.split prod.split reference.split intro!: meta_inv dest: keeps_delete_tag keeps_delete_by_digest)

lemma keeps_put_tag: "put_tag s i r t d = Inr (b, s') \<Longrightarrow> keeps_blob_rows s s'"
  by (auto simp: put_tag_eq)

lemma keeps_record_referrer: "keeps_blob_rows s (fst (record_referrer parse_json render s i r c mt bytes))"
  by (auto simp: record_referrer_def put_referrer_def Let_def split: option.split)

lemma push_inv: "registry_inv sha g \<Longrightarrow> registry_inv sha (fst (push_manifest au sha parse_json render indexes g ct mbody name ref))"
proof -
  assume inv: "registry_inv sha g"
  have tagged: "keeps_blob_rows (rg_meta g) (fst (record_referrer parse_json render
       (put_driver_value (record_manifest parse_json (rg_meta g) i r d m) k v) i r d mt bytes))"
    and plain: "keeps_blob_rows (rg_meta g) (fst (record_referrer parse_json render (record_manifest parse_json (rg_meta g) i r d m) i r d mt bytes))"
    for i r d m k v mt bytes
    by (rule keeps_blob_rows_trans [OF _ keeps_record_referrer], rule keeps_blob_rows_trans [OF keeps_record_manifest keeps_put],
        rule keeps_blob_rows_trans [OF keeps_record_manifest keeps_record_referrer])
  show ?thesis
    using inv unfolding push_manifest_def
    by (auto simp: Let_def case_prod_beta put_tag_eq tagged plain meta_inv
        split: sum.split prod.split option.split reference.split manifest_body.split)
qed

section \<open>What a registry promises\<close>

lemma registry_run_inv: "registry_run au read_ok sha parse_json render indexes g \<Longrightarrow> registry_inv sha g"
proof (induction rule: registry_run.induct)
  case fresh
  then show ?case
    by (simp add: registry_new_def registry_inv_def uploads_ok_def blobs_ok_def cache_ok_def cache_empty_def)
next
  case (member g index repo digest g' b)
  with cached_member_exact [OF member.IH, of index repo digest] show ?case by auto
qed (simp_all add: start_inv cancel_inv status_inv patch_inv finish_inv reclaim_inv delete_blob_inv push_inv delete_manifest_handler_inv)

lemma append_body_complete:
  assumes "list_all (\<lambda>c. \<not> isl c) body" "is_none_or (max_file_size_bytes (ix_policy ix)) (\<lambda>limit. offset + length (landed body) \<le> limit)"
  shows "snd (snd (append_body ix repo p offset body)) = BodyOk"
  using assms
proof (induction ix repo p offset body rule: append_body.induct)
  case (3 ix repo p offset chunk rest)
  have split: "landed (Inr chunk # rest) = chunk @ landed rest" by (simp add: landed_def)
  have fits: "\<not> is_some_and (max_file_size_bytes (ix_policy ix)) (\<lambda>limit. offset + length chunk > limit)"
    using "3.prems"(2) by (cases "max_file_size_bytes (ix_policy ix)") (simp_all add: split)
  have "snd (snd (append_body ix repo (pending_write p chunk) (offset + length chunk) rest)) = BodyOk"
    using "3.prems" by (intro "3.IH" [OF refl fits]) (simp_all add: split add.assoc)
  then show ?case using fits by (simp add: Let_def)
qed simp_all

lemma append_or_restore_complete:
  assumes "session_ok u" "uploads_ok g" "list_all (\<lambda>c. \<not> isl c) body"
    and "is_none_or (max_file_size_bytes (ix_policy ix)) (\<lambda>limit. us_offset u + length (landed body) \<le> limit)"
  obtains u' where "append_or_restore g session u body ix repo = (g, Inr u')" "session_ok u'"
    "pb_file (us_pending u') = pb_file (us_pending u) @ landed body"
proof -
  obtain p offset where "append_body ix repo (us_pending u) (us_offset u) body = (p, offset, BodyOk)"
    using append_body_complete [OF assms(3,4)] by (metis prod.collapse)
  then have r: "append_or_restore g session u body ix repo = (g, Inr (u\<lparr>us_pending := p, us_offset := offset\<rparr>))"
    by (simp add: append_or_restore_def)
  from append_or_restore_ok [OF r assms(1,2)] show ?thesis by (intro that [OF r]) auto
qed

lemma commit_blob_outcome:
  assumes "pb_hashed p = pb_file p"
  shows "if blob_digest d = Some (digest_of sha (pb_file p))
    then commit_blob sha g p i r n d = (g\<lparr>rg_blobs := place (rg_blobs g) (digest_of sha (pb_file p)) (pb_file p),
      rg_meta := record_blob_membership (rg_meta g) i r d\<rparr>, CreatedBlob n d)
    else \<exists>msg. commit_blob sha g p i r n d = (g, OciError DigestInvalid msg)"
  using assms
  by (auto simp: commit_blob_def blob_commit_def pending_finish_def commit_staged_def download_error_response_def Let_def
      split: option.split)

text \<open>C23: On every reachable registry each stored blob lies at the address of its own digest, each upload session's
  offset is the number of bytes it has staged, a membership question never panics and answers as the metadata store
  does whatever the cache holds, and the cache stays within its eight mebibytes.\<close>

theorem registry_sound:
  assumes "registry_run au read_ok sha parse_json render indexes g"
  shows "(\<forall>(path, content) \<in> set (rg_blobs g). path = path_for (digest_of sha content))
    \<and> (\<forall>session u. t_get (rg_uploads g) session = Some u \<longrightarrow> us_offset u = length (pb_file (us_pending u)))
    \<and> map_option snd (cached_blob_is_member g index repo digest) = Some (blob_is_member (rg_meta g) index repo digest)
    \<and> mc_bytes (rg_memberships g) \<le> BLOB_MEMBERSHIP_CACHE_BYTES"
proof -
  have inv: "registry_inv sha g" using registry_run_inv [OF assms] .
  then have "\<forall>session u. t_get (rg_uploads g) session = Some u \<longrightarrow> us_offset u = length (pb_file (us_pending u))"
    by (auto simp: registry_inv_def uploads_ok_def session_ok_def)
  moreover have "map_option snd (cached_blob_is_member g index repo digest) = Some (blob_is_member (rg_meta g) index repo digest)"
    using cached_member_exact [OF inv, of index repo digest] by auto
  ultimately show ?thesis using inv by (simp add: registry_inv_def blobs_ok_def cache_ok_def)
qed



text \<open>A sample: one hosted index that lets everybody in, a digest function and an open session of one chunk.\<close>

definition hub :: "unit index" where
  "hub = (sample_index ''hub'' (HostedKind False))\<lparr>ix_ecosystem := Oci\<rparr>"

definition open_door :: "unit authority" where
  "open_door = \<lparr>au_authorize = \<lambda>_ _ _ _. Inr (), au_challenge = \<lambda>_ _ _. Panicked\<rparr>"

definition zero_sha :: "bytes \<Rightarrow> bytes" where
  "zero_sha bs = replicate 32 (CHR 0x00)"

definition sample_session :: upload_session where
  "sample_session = \<lparr>us_pending = \<lparr>pb_file = ''ab'', pb_hashed = ''ab'', pb_len = 2\<rparr>, us_offset = 2, us_index = ''hub'',
     us_name = ''hub/app'', us_last_active_at = 5\<rparr>"

definition sample_registry :: registry where
  "sample_registry = registry_new\<lparr>rg_uploads := [(''s'', sample_session)]\<rparr>"

lemma hub_resolve: "resolve_writable open_door [hub] ''hub/app'' Write = Inr (hub, ''app'')"
  by (simp add: resolve_writable_def oci_resolve_def oci_candidate_def hub_def sample_index_def strip_prefix_def is_hosted_def open_door_def)

lemma hub_fields [simp]: "ix_name hub = ''hub''" "max_file_size_bytes (ix_policy hub) = None"
  by (simp_all add: hub_def sample_index_def policy_compile_def Let_def)

lemma sample_registry_run: "registry_run open_door (\<lambda>_. Inr ()) zero_sha sample_json (\<lambda>_. []) [hub] sample_registry"
proof -
  let ?g = "registry_new\<lparr>rg_uploads := [(''s'', \<lparr>us_pending = blob_begin, us_offset = 0, us_index = ''hub'', us_name = ''hub/app'', us_last_active_at = 0\<rparr>)]\<rparr>"
  have "start_upload open_door (\<lambda>_. Inr ()) zero_sha [hub] registry_new 0 [Inr ''s''] (\<lambda>_. None) ''hub/app'' []
    = Some (?g, UploadAccepted ''hub/app'' ''s'' 0)"
    by (simp add: start_upload_def hub_resolve open_session_def reclaim_expired_def registry_new_def put_session_def)
  note started = registry_run.start [OF registry_run.fresh this]
  have "fst (patch_upload open_door [hub] ?g 5 None ''hub/app'' ''s'' [Inr ''ab'']) = sample_registry"
    by (simp add: patch_upload_def hub_resolve take_session_def belongs_to_def continues_at_def chunk_start_of_def append_or_restore_def
        pending_write_def blob_begin_def put_session_def sample_registry_def sample_session_def registry_new_def t_get_def t_remove_def numeral_2_eq_2)
  with registry_run.patch [OF started, where now = 5 and content_range = None and name = "''hub/app''" and session = "''s''" and body = "[Inr ''ab'']"] show ?thesis by simp
qed

theorem registry_sound_witness:
  "us_offset sample_session = length (pb_file (us_pending sample_session))
   \<and> map_option snd (cached_blob_is_member sample_registry ''hub'' ''app'' ''d'') = Some False"
proof -
  have "t_get (rg_uploads sample_registry) ''s'' = Some sample_session" "\<not> blob_is_member (rg_meta sample_registry) ''hub'' ''app'' ''d''"
    by (simp_all add: sample_registry_def t_get_def registry_new_def blob_is_member_def get_driver_value_def open_new_def)
  with registry_sound [OF sample_registry_run, of "''hub''" "''app''" "''d''"] show ?thesis by blast
qed

lemma concat_pairs: "concat (replicate n [x, x]) = replicate (2 * n) x"
  by (induction n) simp_all

lemma zero_digest: "digest_of zero_sha bs = replicate 64 (CHR ''0'')"
  using concat_pairs [of 32] by (simp add: digest_of_def zero_sha_def to_hex_def digit_char_def)


lemma missing_blob_None: "missing_blob g index repo blobs = None \<longleftrightarrow> (\<forall>b \<in> set blobs. blob_is_member (rg_meta g) index repo b
    \<and> (\<exists>d. blob_digest b = Some d \<and> blob_exists (rg_blobs g) d))"
  by (induction blobs) (auto simp: Let_def blob_head_def blob_exists_def split: option.splits)

lemma missing_reference_None: "missing_manifest_reference parse_json g index repo content = None \<longleftrightarrow>
    missing_blob g index repo (snd (manifest_descriptors parse_json content)) = None
    \<and> (\<forall>c \<in> set (fst (manifest_descriptors parse_json content)). get_manifest (rg_meta g) c \<noteq> None)"
  by (auto simp: missing_manifest_reference_def case_prod_beta find_None_iff find_Some_iff split: option.splits)

lemma missing_reference_refuses [simp]: "missing_manifest_reference parse_json g index repo content \<noteq> Some (CreatedManifest loc canonical sub)"
  by (auto simp: missing_manifest_reference_def case_prod_beta split: option.splits)

lemma record_referrer_get:
  assumes "\<And>x. k \<noteq> repo_prefix ''r'' i r @ x"
  shows "get_driver_value (fst (record_referrer parse_json render s i r c mt content)) k = get_driver_value s k"
  using assms by (auto simp: record_referrer_def put_referrer_def Let_def repo_keys split: option.split)

text \<open>The rows an accepted push leaves: those of \<open>record_manifest\<close>, a tag and a referrer.\<close>

lemma accepted_push_rows:
  assumes "push_manifest au sha parse_json render indexes g content_type (Received content) name ref = (g', CreatedManifest loc canonical sub)"
    and "resolve_writable au indexes name Write = Inr (ix, repo)"
  obtains mt where "is_supported_manifest_type mt" "canonical = ''sha256:'' @ digest_of sha content"
    "missing_manifest_reference parse_json g (ix_name ix) repo content = None"
    "\<forall>k. (\<forall>x. k \<noteq> repo_prefix ''r'' (ix_name ix) repo @ x) \<and> (\<forall>x. k \<noteq> repo_prefix ''t'' (ix_name ix) repo @ x) \<longrightarrow>
       get_driver_value (rg_meta g') k = get_driver_value (record_manifest parse_json (rg_meta g) (ix_name ix) repo canonical
         \<lparr>mf_media_type = mt, mf_bytes = content\<rparr>) k"
proof -
  let ?declared = "unwrap_or DEFAULT_MANIFEST_TYPE content_type"
  let ?mt = "trim (case split_once CHR '';'' ?declared of None \<Rightarrow> ?declared | Some (base, _) \<Rightarrow> base)"
  let ?meta = "record_manifest parse_json (rg_meta g) (ix_name ix) repo canonical \<lparr>mf_media_type = ?mt, mf_bytes = content\<rparr>"
  have ok: "is_supported_manifest_type ?mt" "canonical = ''sha256:'' @ digest_of sha content"
    "missing_manifest_reference parse_json g (ix_name ix) repo content = None"
    using assms by (auto simp: push_manifest_def Let_def put_tag_eq case_prod_beta split: if_splits option.splits reference.splits)
  then have meta: "rg_meta g' = fst (record_referrer parse_json render
      (case ref of Tag t \<Rightarrow> put_driver_value ?meta (tag_key (ix_name ix) repo t) canonical | Digest _ \<Rightarrow> ?meta) (ix_name ix) repo canonical ?mt content)"
    using assms by (auto simp: push_manifest_def Let_def put_tag_eq case_prod_beta split: if_splits reference.splits)
  show ?thesis
    by (rule that [OF ok]) (auto simp: meta record_referrer_get repo_keys split: reference.split)
qed

lemma supported_roundtrip:
  assumes "is_supported_manifest_type mt"
  shows "manifest_decode (manifest_encode \<lparr>mf_media_type = mt, mf_bytes = content\<rparr>) = Some \<lparr>mf_media_type = mt, mf_bytes = content\<rparr>"
proof -
  have "list_all (\<lambda>t. valid_utf8 t \<and> length t \<le> 100)
    [''application/vnd.oci.image.manifest.v1+json'', ''application/vnd.oci.image.index.v1+json'',
     ''application/vnd.docker.distribution.manifest.v2+json'', ''application/vnd.docker.distribution.manifest.list.v2+json'']"
    by code_simp
  then have "valid_utf8 mt \<and> length mt \<le> 100" using assms unfolding is_supported_manifest_type_def list_all_iff by auto
  then show ?thesis by (intro manifest_roundtrip) (simp_all add: u16_max_def)
qed


text \<open>A manifest that only repository \<open>other\<close> holds, and an index pushed to \<open>app\<close> that names it as a child.\<close>

definition other_registry :: registry where
  "other_registry = registry_new\<lparr>rg_meta := record_manifest sample_json open_new ''hub'' ''other'' ''sha256:c''
     \<lparr>mf_media_type = DEFAULT_MANIFEST_TYPE, mf_bytes = []\<rparr>\<rparr>"

lemma other_rows:
  "get_manifest (rg_meta other_registry) ''sha256:c'' \<noteq> None" "\<not> manifest_is_member (rg_meta other_registry) ''hub'' ''app'' ''sha256:c''"
proof -
  have none: "manifest_descriptors sample_json [] = ([], [])" by (simp add: manifest_descriptors_def sample_json_def)
  have "is_supported_manifest_type DEFAULT_MANIFEST_TYPE" by (simp add: is_supported_manifest_type_def DEFAULT_MANIFEST_TYPE_def)
  from supported_roundtrip [OF this] show "get_manifest (rg_meta other_registry) ''sha256:c'' \<noteq> None"
    by (simp add: get_manifest_def other_registry_def get_record_manifest none repo_keys manifest_key_repo)
  have "get_driver_value open_new k = None" for k by (simp add: get_driver_value_def open_new_def t_get_def)
  then show "\<not> manifest_is_member (rg_meta other_registry) ''hub'' ''app'' ''sha256:c''"
    by (simp add: manifest_is_member_def other_registry_def get_record_manifest none repo_keys
        manifest_key_repo [symmetric]) (simp add: repo_prefix_def)
qed


end
