(* ===== verification/PypiNames.thy ===== *)
theory PypiNames
  imports Json
begin

text \<open>
  Project names, distribution filenames and file entries of the PyPI driver: \<open>name.rs\<close>, \<open>version.rs\<close>, \<open>filename.rs\<close> and
  \<open>simple/file.rs\<close> of \<open>crates/peryx-ecosystem-pypi/src\<close>.  \<open>char::to_lowercase\<close> is the argument \<open>lower\<close>, the PEP 440
  parser of \<open>pep440_rs\<close> the argument \<open>parse_version\<close>.
\<close>

section \<open>Project names\<close>

definition pep503_separator :: "char \<Rightarrow> bool" where
  "pep503_separator c \<longleftrightarrow> c = CHR ''-'' \<or> c = CHR ''_'' \<or> c = CHR ''.''"

fun normalize_from :: "(char \<Rightarrow> string) \<Rightarrow> bool \<Rightarrow> string \<Rightarrow> string" where
  "normalize_from lower in_separator [] = []"
| "normalize_from lower in_separator (ch # rest) =
     (if pep503_separator ch
      then (if in_separator then normalize_from lower True rest else CHR ''-'' # normalize_from lower True rest)
      else lower ch @ normalize_from lower False rest)"

definition normalize_name :: "(char \<Rightarrow> string) \<Rightarrow> string \<Rightarrow> string" where
  "normalize_name lower name = normalize_from lower False name"

definition is_lower_alnum :: "char \<Rightarrow> bool" where
  "is_lower_alnum c \<longleftrightarrow> CHR ''a'' \<le> c \<and> c \<le> CHR ''z'' \<or> is_digit c"

fun normalized_from :: "bool \<Rightarrow> string \<Rightarrow> bool" where
  "normalized_from prev_dash [] \<longleftrightarrow> True"
| "normalized_from prev_dash (b # rest) \<longleftrightarrow>
     (if is_lower_alnum b then normalized_from False rest
      else if b = CHR ''-'' \<and> \<not> prev_dash then normalized_from True rest else False)"

definition is_normalized :: "string \<Rightarrow> bool" where
  "is_normalized name \<longleftrightarrow> normalized_from False name"

definition normalize_name_cow :: "(char \<Rightarrow> string) \<Rightarrow> string \<Rightarrow> string" where
  "normalize_name_cow lower name = (if is_normalized name then name else normalize_name lower name)"

definition project_of_filename :: "(char \<Rightarrow> string) \<Rightarrow> string \<Rightarrow> string" where
  "project_of_filename lower filename = normalize_name lower (case split_on CHR ''-'' filename of [] \<Rightarrow> filename | p # _ \<Rightarrow> p)"

definition is_ascii_alnum :: "char \<Rightarrow> bool" where
  "is_ascii_alnum c \<longleftrightarrow> is_lower_alnum c \<or> CHR ''A'' \<le> c \<and> c \<le> CHR ''Z''"

definition is_valid_name :: "string \<Rightarrow> bool" where
  "is_valid_name name \<longleftrightarrow> name \<noteq> [] \<and> is_ascii_alnum (hd name) \<and> is_ascii_alnum (last name)
     \<and> list_all (\<lambda>b. is_ascii_alnum b \<or> pep503_separator b) name"

text \<open>What the code relies on of \<open>char::to_lowercase\<close>: ASCII, and a result that is its own lower case and no separator, and not empty.\<close>

definition lower_ok :: "(char \<Rightarrow> string) \<Rightarrow> bool" where
  "lower_ok lower \<longleftrightarrow> (\<forall>c. is_ascii_alnum c \<longrightarrow> lower c = [ascii_lower c])
     \<and> (\<forall>c. \<not> pep503_separator c \<longrightarrow> lower c \<noteq> [] \<and> list_all (\<lambda>x. \<not> pep503_separator x \<and> lower x = [x]) (lower c))"

section \<open>Versions\<close>

definition versions_match :: "(string \<Rightarrow> 'v option) \<Rightarrow> string \<Rightarrow> string \<Rightarrow> bool" where
  "versions_match parse_version left right \<longleftrightarrow> left = right
     \<or> (case (parse_version left, parse_version right) of (Some l, Some r) \<Rightarrow> l = r | _ \<Rightarrow> False)"

datatype 'v version_key = Parsed 'v | Raw string

definition release_key :: "(string \<Rightarrow> 'v option) \<Rightarrow> string \<Rightarrow> 'v version_key" where
  "release_key parse_version version = (case parse_version version of None \<Rightarrow> Raw version | Some v \<Rightarrow> Parsed v)"

definition version_order_le :: "'v::linorder option \<Rightarrow> 'v option \<Rightarrow> bool" where
  "version_order_le left right = (case (left, right) of
      (Some x, Some y) \<Rightarrow> y \<le> x | (Some _, None) \<Rightarrow> True | (None, Some _) \<Rightarrow> False | (None, None) \<Rightarrow> True)"

fun stable_insert :: "('v::linorder option \<times> string) \<Rightarrow> ('v option \<times> string) list \<Rightarrow> ('v option \<times> string) list" where
  "stable_insert x [] = [x]"
| "stable_insert x (y # ys) = (if version_order_le (fst x) (fst y) then x # y # ys else y # stable_insert x ys)"

definition sorted_desc :: "(string \<Rightarrow> 'v::linorder option) \<Rightarrow> string list \<Rightarrow> string list" where
  "sorted_desc parse_version versions = map snd (foldr stable_insert (map (\<lambda>v. (parse_version v, v)) versions) [])"

section \<open>Distribution filenames\<close>

datatype distribution_kind = Wheel | SdistTarGz | SdistZip

definition upload_filetype :: "distribution_kind \<Rightarrow> string" where
  "upload_filetype k = (case k of Wheel \<Rightarrow> ''bdist_wheel'' | _ \<Rightarrow> ''sdist'')"

record 'v distribution_filename =
  df_kind :: distribution_kind
  df_name :: string
  df_normalized_name :: string
  df_version :: 'v
  df_python_tag :: "string option"
  df_platform_tag :: "string option"

datatype distribution_filename_error =
    UnsupportedExtension | LegacyEgg | InvalidWheelShape | InvalidSdistShape
  | InvalidName string | InvalidVersion string | InvalidTag string

definition strip_ascii_suffix_ignore_case :: "string \<Rightarrow> string \<Rightarrow> string option" where
  "strip_ascii_suffix_ignore_case value suffix =
     (if length value < length suffix then None
      else let split = length value - length suffix
           in if eq_ignore_ascii_case (drop split value) suffix then Some (take split value) else None)"

definition distribution_version_segment :: "string \<Rightarrow> string option" where
  "distribution_version_segment filename =
     (case (case strip_ascii_suffix_ignore_case filename ''.tar.gz'' of
              Some stem \<Rightarrow> Some stem | None \<Rightarrow> strip_ascii_suffix_ignore_case filename ''.zip'') of
        Some stem \<Rightarrow> map_option snd (rsplit_once CHR ''-'' stem)
      | None \<Rightarrow>
          let stem = unwrap_or filename (strip_ascii_suffix_ignore_case filename ''.whl'')
          in map_option (\<lambda>(_, rest). case split_on CHR ''-'' rest of [] \<Rightarrow> rest | v # _ \<Rightarrow> v) (split_once CHR ''-'' stem))"

definition validate_build_tag :: "string \<Rightarrow> distribution_filename_error + unit" where
  "validate_build_tag tag = (case tag of
      [] \<Rightarrow> Inl InvalidWheelShape
    | first # _ \<Rightarrow>
        if \<not> is_digit first \<or> \<not> list_all (\<lambda>b. is_ascii_alnum b \<or> b = CHR ''.'') tag then Inl (InvalidTag tag) else Inr ())"

definition validate_tag :: "string \<Rightarrow> distribution_filename_error + unit" where
  "validate_tag tag =
     (if tag = [] \<or> \<not> list_all (\<lambda>b. is_ascii_alnum b \<or> b = CHR ''_'' \<or> b = CHR ''.'') tag then Inl (InvalidTag tag) else Inr ())"

fun validate_tags :: "string list \<Rightarrow> distribution_filename_error + unit" where
  "validate_tags [] = Inr ()"
| "validate_tags (tag # tags) = rbind (validate_tag tag) (\<lambda>_. validate_tags tags)"

definition parsed ::
    "(char \<Rightarrow> string) \<Rightarrow> (string \<Rightarrow> 'v option) \<Rightarrow> string \<Rightarrow> string \<Rightarrow> string list \<Rightarrow> distribution_kind
      \<Rightarrow> distribution_filename_error + 'v distribution_filename" where
  "parsed lower parse_version name version tags kind =
     (if \<not> is_valid_name name then Inl (InvalidName name)
      else rbind (validate_tags tags) (\<lambda>_.
        case parse_version version of
          None \<Rightarrow> Inl (InvalidVersion version)
        | Some v \<Rightarrow> Inr \<lparr>df_kind = kind, df_name = name, df_normalized_name = normalize_name lower name, df_version = v,
            df_python_tag = (if tags = [] then None else Some (hd tags)),
            df_platform_tag = (if 2 < length tags then Some (tags ! 2) else None)\<rparr>))"

definition parse_wheel_filename ::
    "(char \<Rightarrow> string) \<Rightarrow> (string \<Rightarrow> 'v option) \<Rightarrow> string \<Rightarrow> distribution_filename_error + 'v distribution_filename" where
  "parse_wheel_filename lower parse_version stem = (case split_on CHR ''-'' stem of
      [name, version, python, abi, platform] \<Rightarrow> parsed lower parse_version name version [python, abi, platform] Wheel
    | [name, version, build, python, abi, platform] \<Rightarrow>
        rbind (validate_build_tag build) (\<lambda>_. parsed lower parse_version name version [python, abi, platform] Wheel)
    | _ \<Rightarrow> Inl InvalidWheelShape)"

definition parse_sdist_filename ::
    "(char \<Rightarrow> string) \<Rightarrow> (string \<Rightarrow> 'v option) \<Rightarrow> string \<Rightarrow> distribution_kind
      \<Rightarrow> distribution_filename_error + 'v distribution_filename" where
  "parse_sdist_filename lower parse_version stem kind = (case rsplit_once CHR ''-'' stem of
      None \<Rightarrow> Inl InvalidSdistShape
    | Some (name, version) \<Rightarrow> parsed lower parse_version name version [] kind)"

definition parse_distribution_filename ::
    "(char \<Rightarrow> string) \<Rightarrow> (string \<Rightarrow> 'v option) \<Rightarrow> string \<Rightarrow> distribution_filename_error + 'v distribution_filename" where
  "parse_distribution_filename lower parse_version filename =
     (if strip_ascii_suffix_ignore_case filename ''.egg'' \<noteq> None then Inl LegacyEgg
      else case strip_ascii_suffix_ignore_case filename ''.whl'' of
        Some stem \<Rightarrow> parse_wheel_filename lower parse_version stem
      | None \<Rightarrow>
          (case strip_ascii_suffix_ignore_case filename ''.tar.gz'' of
             Some stem \<Rightarrow> parse_sdist_filename lower parse_version stem SdistTarGz
           | None \<Rightarrow>
               (case strip_ascii_suffix_ignore_case filename ''.zip'' of
                  Some stem \<Rightarrow> parse_sdist_filename lower parse_version stem SdistZip
                | None \<Rightarrow> Inl UnsupportedExtension)))"

definition file_matches_version :: "(string \<Rightarrow> 'v option) \<Rightarrow> string \<Rightarrow> string \<Rightarrow> bool" where
  "file_matches_version parse_version filename version \<longleftrightarrow>
     is_some_and (distribution_version_segment filename) (\<lambda>candidate. versions_match parse_version candidate version)"

section \<open>Name properties\<close>

text \<open>The regular expression of PEP 503: every maximal run of separators becomes one dash.\<close>

function pep503 :: "(char \<Rightarrow> string) \<Rightarrow> string \<Rightarrow> string" where
  "pep503 lower [] = []"
| "pep503 lower (c # cs) =
     (if pep503_separator c then CHR ''-'' # pep503 lower (dropWhile pep503_separator cs) else lower c @ pep503 lower cs)"
  by pat_completeness auto
termination by (relation "measure (length \<circ> snd)") (auto simp: less_Suc_eq_le length_dropWhile_le)

lemma normalize_from_pep503:
  "normalize_from lower True s = pep503 lower (dropWhile pep503_separator s) \<and> normalize_from lower False s = pep503 lower s"
  by (induction s) simp_all

lemma char_le_nat: "a \<le> b \<longleftrightarrow> of_char a \<le> (of_char b :: nat)" for a b :: char
  by (simp add: less_eq_char_def)

lemma lower_alnum: "is_lower_alnum c \<Longrightarrow> is_ascii_alnum c \<and> ascii_lower c = c \<and> \<not> pep503_separator c"
  by (auto simp: is_lower_alnum_def is_ascii_alnum_def ascii_lower_def pep503_separator_def is_digit_def char_le_nat)

lemma ascii_upper_shift:
  assumes "CHR ''A'' \<le> c" "c \<le> CHR ''Z''"
  shows "of_char (ascii_lower c) = (of_char c + 32 :: nat)"
proof -
  have "of_char c \<le> (90 :: nat)" using assms(2) by (simp add: char_le_nat)
  then show ?thesis using assms by (simp add: ascii_lower_def of_char_of)
qed

lemma ascii_alnum_lower: "is_ascii_alnum c \<Longrightarrow> is_lower_alnum (ascii_lower c)"
proof (cases "CHR ''A'' \<le> c \<and> c \<le> CHR ''Z''")
  case True
  with ascii_upper_shift [of c] show ?thesis by (simp add: is_lower_alnum_def char_le_nat)
next
  case False
  moreover assume "is_ascii_alnum c"
  ultimately have "is_lower_alnum c" by (auto simp: is_ascii_alnum_def)
  with lower_alnum show ?thesis by simp
qed

lemma ascii_alnum_plain: "is_ascii_alnum c \<Longrightarrow> \<not> pep503_separator c \<and> c \<noteq> CHR ''/'' \<and> c \<noteq> CHR 0x00"
  by (auto simp: is_ascii_alnum_def is_lower_alnum_def pep503_separator_def is_digit_def char_le_nat)

lemma normalize_name_pep503: "normalize_name lower s = pep503 lower s"
  by (simp add: normalize_name_def normalize_from_pep503)

lemma pep503_append: "list_all (\<lambda>x. \<not> pep503_separator x \<and> lower x = [x]) xs \<Longrightarrow> pep503 lower (xs @ ys) = xs @ pep503 lower ys"
  by (induction xs) simp_all

text \<open>The remainder after a run of separators does not begin with one, so its normal form does not begin with a dash.\<close>

lemma pep503_head:
  assumes "lower_ok lower" "s \<noteq> []" "\<not> pep503_separator (hd s)"
  shows "pep503 lower s \<noteq> [] \<and> \<not> pep503_separator (hd (pep503 lower s))"
proof (cases s)
  case (Cons c cs)
  then have "lower c \<noteq> [] \<and> list_all (\<lambda>x. \<not> pep503_separator x \<and> lower x = [x]) (lower c)"
    using assms(1,3) unfolding lower_ok_def by simp
  with Cons assms(3) show ?thesis by (cases "lower c") simp_all
qed (use assms in simp)

lemma dropWhile_separators:
  assumes "lower_ok lower"
  shows "dropWhile pep503_separator (pep503 lower (dropWhile pep503_separator cs)) = pep503 lower (dropWhile pep503_separator cs)"
proof (cases "dropWhile pep503_separator cs = []")
  case False
  with pep503_head [OF assms, of "dropWhile pep503_separator cs"] hd_dropWhile [OF False]
  show ?thesis by (cases "pep503 lower (dropWhile pep503_separator cs)") auto
next
  case True
  show ?thesis unfolding True by simp
qed

lemma pep503_idem:
  assumes "lower_ok lower"
  shows "pep503 lower (pep503 lower s) = pep503 lower s"
  using assms
proof (induction lower s rule: pep503.induct)
  case (2 lower c cs)
  show ?case
  proof (cases "pep503_separator c")
    case True
    with 2 dropWhile_separators [of lower cs] show ?thesis by (simp add: pep503_separator_def)
  next
    case False
    with 2 show ?thesis by (simp add: lower_ok_def pep503_append)
  qed
qed simp

lemma normalized_from_fixed:
  "lower_ok lower \<Longrightarrow> normalized_from d s \<Longrightarrow> (if d then dropWhile pep503_separator s = s else True) \<and> pep503 lower s = s"
proof (induction d s rule: normalized_from.induct)
  case (2 d b rest)
  show ?case
  proof (cases "is_lower_alnum b")
    case True
    with 2 lower_alnum [OF True] show ?thesis by (simp add: lower_ok_def)
  next
    case False
    with 2 show ?thesis by (auto simp: pep503_separator_def split: if_splits)
  qed
qed simp

lemma pep503_valid:
  assumes "lower_ok lower" "list_all (\<lambda>b. is_ascii_alnum b \<or> pep503_separator b) s" "\<not> d \<or> s = [] \<or> \<not> pep503_separator (hd s)"
  shows "normalized_from d (pep503 lower s)"
  using assms
proof (induction lower s arbitrary: d rule: pep503.induct)
  case (2 lower c cs)
  show ?case
  proof (cases "pep503_separator c")
    case True
    have "list_all (\<lambda>b. is_ascii_alnum b \<or> pep503_separator b) (dropWhile pep503_separator cs)"
      using "2.prems"(2) by (auto simp: list_all_iff dest: set_dropWhileD)
    moreover have "dropWhile pep503_separator cs = [] \<or> \<not> pep503_separator (hd (dropWhile pep503_separator cs))"
      using hd_dropWhile by blast
    ultimately have "normalized_from True (pep503 lower (dropWhile pep503_separator cs))" using "2.IH"(1) [OF True "2.prems"(1)] by blast
    moreover have "\<not> is_lower_alnum (CHR ''-'')" by (simp add: is_lower_alnum_def is_digit_def char_le_nat)
    ultimately show ?thesis using True "2.prems" by simp
  next
    case False
    then have "is_ascii_alnum c" using "2.prems"(2) by simp
    with False "2.IH"(2) [OF False "2.prems"(1), of False] "2.prems" ascii_alnum_lower show ?thesis by (simp add: lower_ok_def)
  qed
qed simp

text \<open>C36: Normalizing a project name collapses every maximal run of separators to one dash and lowers the rest, as PEP 503's
  regular expression does; it is idempotent, the copy-free variant agrees with it, and a valid name's normal form is
  recognised as normal.\<close>

theorem normalize_name_exact:
  assumes "lower_ok lower"
  shows "normalize_name lower name = pep503 lower name \<and> normalize_name lower (normalize_name lower name) = normalize_name lower name
    \<and> normalize_name_cow lower name = normalize_name lower name
    \<and> (is_valid_name name \<longrightarrow> is_normalized (normalize_name lower name))"
proof -
  have "normalize_name_cow lower name = normalize_name lower name"
    using normalized_from_fixed [OF assms, of False name] by (simp add: normalize_name_cow_def is_normalized_def normalize_name_pep503)
  moreover have "is_valid_name name \<Longrightarrow> is_normalized (normalize_name lower name)"
    using pep503_valid [OF assms, of name False] by (simp add: is_valid_name_def is_normalized_def normalize_name_pep503)
  ultimately show ?thesis using pep503_idem [OF assms] by (simp add: normalize_name_pep503)
qed

lemma ascii_lower_ok: "lower_ok (\<lambda>c. [ascii_lower c])"
proof -
  have idem: "ascii_lower (ascii_lower c) = ascii_lower c" for c
  proof (cases "CHR ''A'' \<le> c \<and> c \<le> CHR ''Z''")
    case True
    with ascii_upper_shift [of c] have "\<not> ascii_lower c \<le> CHR ''Z''" by (simp add: char_le_nat)
    then show ?thesis by (simp add: ascii_lower_def)
  qed (auto simp: ascii_lower_def)
  have "\<not> pep503_separator (ascii_lower c)" if "\<not> pep503_separator c" for c
  proof (cases "CHR ''A'' \<le> c \<and> c \<le> CHR ''Z''")
    case True
    then have "is_ascii_alnum c" by (simp add: is_ascii_alnum_def)
    from lower_alnum [OF ascii_alnum_lower [OF this]] show ?thesis by simp
  next
    case False
    then have "ascii_lower c = c" by (auto simp: ascii_lower_def)
    with that show ?thesis by simp
  qed
  with idem show ?thesis by (simp add: lower_ok_def)
qed

theorem normalize_name_exact_witness: "normalize_name (\<lambda>c. [ascii_lower c]) ''A._b'' = ''a-b'' \<and> is_normalized ''a-b''"
proof -
  have n: "normalize_name (\<lambda>c. [ascii_lower c]) ''A._b'' = ''a-b''" by code_simp
  have "is_valid_name ''A._b''" by code_simp
  with normalize_name_exact [OF ascii_lower_ok, of "''A._b''"] have "is_normalized (normalize_name (\<lambda>c. [ascii_lower c]) ''A._b'')" by blast
  then show ?thesis by (simp only: n)
qed

section \<open>Filename properties\<close>

lemma strip_suffix_last:
  assumes "strip_ascii_suffix_ignore_case value suffix = Some stem" "suffix \<noteq> []"
  shows "value = stem @ drop (length stem) value \<and> ascii_lower (last value) = ascii_lower (last suffix)"
proof -
  let ?k = "length value - length suffix"
  have eq: "map ascii_lower (drop ?k value) = map ascii_lower suffix" "stem = take ?k value" "length suffix \<le> length value"
    using assms(1) by (auto simp: strip_ascii_suffix_ignore_case_def eq_ignore_ascii_case_def Let_def split: if_splits)
  have "drop ?k value \<noteq> []" using eq(3) assms(2) by (cases suffix) auto
  then have "last (map ascii_lower (drop ?k value)) = ascii_lower (last value)" by (simp add: last_map)
  with eq assms(2) show ?thesis by (simp add: last_map)
qed

lemma strip_suffix_other:
  assumes "strip_ascii_suffix_ignore_case value suffix = Some stem" "suffix \<noteq> []" "suffix' \<noteq> []"
    and "ascii_lower (last suffix) \<noteq> ascii_lower (last suffix')"
  shows "strip_ascii_suffix_ignore_case value suffix' = None"
  using strip_suffix_last [OF assms(1,2)] strip_suffix_last [of "value" suffix' _] assms(3,4)
  by (cases "strip_ascii_suffix_ignore_case value suffix'") auto

lemma hd_split_on: "hd (split_on c s) = takeWhile (\<lambda>x. x \<noteq> c) s"
  using split_on_nonempty by (induction s) (auto split: list.split)

lemma split_on_two: "split_on c s = a # b # xs \<Longrightarrow> \<exists>rest. split_once c s = Some (a, rest) \<and> split_on c rest = b # xs"
proof (induction s arbitrary: a)
  case (Cons x s)
  show ?case
  proof (cases "x = c")
    case False
    with Cons.prems obtain a' where "split_on c s = a' # b # xs" "a = x # a'" by (auto split: list.splits)
    with Cons.IH [of a'] False show ?thesis by auto
  qed (use Cons.prems in auto)
qed simp

lemma parsed_Inr:
  "parsed lower parse_version name version tags kind = Inr d \<longleftrightarrow> is_valid_name name \<and> validate_tags tags = Inr ()
     \<and> (\<exists>v. parse_version version = Some v \<and> d = \<lparr>df_kind = kind, df_name = name, df_normalized_name = normalize_name lower name,
       df_version = v, df_python_tag = (if tags = [] then None else Some (hd tags)),
       df_platform_tag = (if 2 < length tags then Some (tags ! 2) else None)\<rparr>)"
  by (auto simp: parsed_def rbind_eq_Inr split: option.splits)

lemma parsed_fields:
  assumes "parsed lower parse_version name version tags kind = Inr d"
  shows "df_name d = name" "is_valid_name name" "df_kind d = kind" "df_normalized_name d = normalize_name lower name"
    "parse_version version = Some (df_version d)" "df_python_tag d = None \<longleftrightarrow> tags = []"
  using assms by (auto simp: parsed_Inr split: if_splits)

lemma wheel_shape:
  assumes "parse_wheel_filename lower parse_version stem = Inr d"
  obtains version python abi platform mid where "split_on CHR ''-'' stem = df_name d # version # mid"
    "parsed lower parse_version (df_name d) version [python, abi, platform] Wheel = Inr d"
proof -
  obtain name version mid tags where "split_on CHR ''-'' stem = name # version # mid"
    "parsed lower parse_version name version tags Wheel = Inr d" "\<exists>python abi platform. tags = [python, abi, platform]"
    using assms unfolding parse_wheel_filename_def by (auto simp: rbind_eq_Inr split: list.splits)
  then show ?thesis using that by (auto simp: parsed_Inr)
qed

text \<open>A distribution filename that parses carries its version where \<open>distribution_version_segment\<close> finds it, its name is
  valid and normalized in the result, and for a wheel the project read off the filename is that normalized name.\<close>

theorem filename_identity:
  assumes "parse_distribution_filename lower parse_version filename = Inr d"
  shows "is_some_and (distribution_version_segment filename) (\<lambda>segment. parse_version segment = Some (df_version d))
    \<and> is_valid_name (df_name d) \<and> df_normalized_name d = normalize_name lower (df_name d)
    \<and> (df_kind d = Wheel \<longleftrightarrow> df_python_tag d \<noteq> None)
    \<and> (df_kind d = Wheel \<longrightarrow> project_of_filename lower filename = df_normalized_name d)"
proof (cases "strip_ascii_suffix_ignore_case filename ''.whl''")
  case (Some stem)
  have w: "parse_wheel_filename lower parse_version stem = Inr d"
    using assms Some by (simp add: parse_distribution_filename_def split: if_splits)
  obtain version python abi platform mid where sp: "split_on CHR ''-'' stem = df_name d # version # mid"
    and pd: "parsed lower parse_version (df_name d) version [python, abi, platform] Wheel = Inr d"
    by (rule wheel_shape [OF w])
  obtain rest where rest: "split_once CHR ''-'' stem = Some (df_name d, rest)" "split_on CHR ''-'' rest = version # mid"
    using split_on_two [OF sp] by blast
  have other: "strip_ascii_suffix_ignore_case filename ''.tar.gz'' = None" "strip_ascii_suffix_ignore_case filename ''.zip'' = None"
    by (rule strip_suffix_other [OF Some]; simp add: ascii_lower_def char_le_nat)+
  obtain ext where "filename = stem @ ext" using strip_suffix_last [OF Some] by blast
  then have "filename = df_name d @ CHR ''-'' # rest @ ext" "CHR ''-'' \<notin> set (df_name d)"
    using rest(1) by (auto simp: split_once_Some)
  then have "takeWhile (\<lambda>x. x \<noteq> CHR ''-'') filename = df_name d" by (auto intro: takeWhile_append2 [THEN trans])
  then have "project_of_filename lower filename = normalize_name lower (df_name d)"
    using hd_split_on [of "CHR ''-''" filename] split_on_nonempty [of "CHR ''-''" filename]
    by (auto simp: project_of_filename_def split: list.split)
  with parsed_fields [OF pd] rest other Some show ?thesis by (simp add: distribution_version_segment_def)
next
  case None
  obtain stem kind where st: "(case strip_ascii_suffix_ignore_case filename ''.tar.gz'' of
       Some stem \<Rightarrow> Some stem | None \<Rightarrow> strip_ascii_suffix_ignore_case filename ''.zip'') = Some stem"
    and sd: "parse_sdist_filename lower parse_version stem kind = Inr d" and k: "kind \<noteq> Wheel"
    using assms None by (auto simp: parse_distribution_filename_def split: if_splits option.splits)
  obtain name version where "rsplit_once CHR ''-'' stem = Some (name, version)"
    and pd: "parsed lower parse_version name version [] kind = Inr d"
    using sd by (auto simp: parse_sdist_filename_def split: option.splits)
  with st k parsed_fields [OF pd] show ?thesis by (simp add: distribution_version_segment_def)
qed

theorem filename_identity_witness:
  "distribution_version_segment ''Foo_Bar-1.0-py3-none-any.WHL'' = Some ''1.0''
   \<and> project_of_filename (\<lambda>c. [ascii_lower c]) ''Foo_Bar-1.0-py3-none-any.WHL'' = ''foo-bar''"
proof -
  let ?f = "''Foo_Bar-1.0-py3-none-any.WHL''"
  have p: "parse_distribution_filename (\<lambda>c. [ascii_lower c]) Some ?f = Inr \<lparr>df_kind = Wheel, df_name = ''Foo_Bar'',
      df_normalized_name = ''foo-bar'', df_version = ''1.0'', df_python_tag = Some ''py3'', df_platform_tag = Some ''any''\<rparr>"
    by code_simp
  from filename_identity [OF p] show ?thesis by (cases "distribution_version_segment ?f") auto
qed

end
