(* ===== verification/PypiFile.thy ===== *)
theory PypiFile
  imports PypiNames PolicyEngine
begin

text \<open>
  One downloadable file of a PyPI project and its JSON form, \<open>crates/peryx-ecosystem-pypi/src/simple/file.rs\<close>.  A
  \<open>BTreeMap\<close> is a sorted table; a document is what \<open>serde_json\<close> parsed.
\<close>

section \<open>Files\<close>

datatype yanked = NotYanked | YankedPlain | YankedReason string

datatype core_metadata = MetaAbsent | MetaAvailable | MetaHashes "(string, string) tbl"

datatype provenance = ProvAbsent | ProvNone | ProvUrl string

record pypi_file =
  fl_filename :: string
  fl_url :: string
  fl_hashes :: "(string, string) tbl"
  fl_requires_python :: "string option"
  fl_size :: "nat option"
  fl_upload_time :: "string option"
  fl_yanked :: yanked
  fl_core_metadata :: core_metadata
  fl_dist_info_metadata :: core_metadata
  fl_gpg_sig :: "bool option"
  fl_provenance :: provenance

definition file_sha256 :: "pypi_file \<Rightarrow> string option" where
  "file_sha256 f = t_get (fl_hashes f) ''sha256''"

definition is_absent :: "core_metadata \<Rightarrow> bool" where
  "is_absent m \<longleftrightarrow> m = MetaAbsent"

definition effective_metadata :: "pypi_file \<Rightarrow> core_metadata" where
  "effective_metadata f = (if is_absent (fl_core_metadata f) then fl_dist_info_metadata f else fl_core_metadata f)"

definition clear_metadata :: "pypi_file \<Rightarrow> pypi_file" where
  "clear_metadata f = f\<lparr>fl_core_metadata := MetaAbsent, fl_dist_info_metadata := MetaAbsent\<rparr>"

definition set_metadata :: "pypi_file \<Rightarrow> core_metadata \<Rightarrow> pypi_file" where
  "set_metadata f m = f\<lparr>fl_core_metadata := m, fl_dist_info_metadata := m\<rparr>"

section \<open>Serialization\<close>

definition json_of_map :: "(string, string) tbl \<Rightarrow> json_doc" where
  "json_of_map m = JObject (map (\<lambda>(k, v). (k, JString v)) m)"

definition json_of_yanked :: "yanked \<Rightarrow> json_doc" where
  "json_of_yanked y = (case y of NotYanked \<Rightarrow> JBool False | YankedPlain \<Rightarrow> JBool True | YankedReason r \<Rightarrow> JString r)"

definition json_of_metadata :: "core_metadata \<Rightarrow> json_doc" where
  "json_of_metadata m = (case m of MetaAbsent \<Rightarrow> JBool False | MetaAvailable \<Rightarrow> JBool True | MetaHashes h \<Rightarrow> json_of_map h)"

definition file_entries :: "pypi_file \<Rightarrow> (string \<times> json_doc) list" where
  "file_entries f =
      [(''filename'', JString (fl_filename f)), (''url'', JString (fl_url f)), (''hashes'', json_of_map (fl_hashes f))]
      @ (case fl_requires_python f of None \<Rightarrow> [] | Some p \<Rightarrow> [(''requires-python'', JString p)])
      @ (case fl_size f of None \<Rightarrow> [] | Some n \<Rightarrow> [(''size'', JNumber (show_nat n))])
      @ (case fl_upload_time f of None \<Rightarrow> [] | Some t \<Rightarrow> [(''upload-time'', JString t)])
      @ [(''yanked'', json_of_yanked (fl_yanked f)), (''core-metadata'', json_of_metadata (effective_metadata f))]
      @ (if is_absent (effective_metadata f) then [] else [(''dist-info-metadata'', json_of_metadata (effective_metadata f))])
      @ (case fl_gpg_sig f of None \<Rightarrow> [] | Some g \<Rightarrow> [(''gpg-sig'', JBool g)])
      @ (case fl_provenance f of ProvAbsent \<Rightarrow> [] | ProvNone \<Rightarrow> [(''provenance'', JNull)] | ProvUrl u \<Rightarrow> [(''provenance'', JString u)])"

definition json_of_file :: "pypi_file \<Rightarrow> json_doc" where
  "json_of_file f = JObject (file_entries f)"

section \<open>Deserialization\<close>

text \<open>
  A derived \<open>Deserialize\<close> takes the known fields of an object, ignores the others, refuses a known field twice and fills
  a missing one that has a default.  The positional array form that derived code accepts too is never written by the
  program and is left out.
\<close>

definition file_fields :: "string list" where
  "file_fields = [''filename'', ''url'', ''hashes'', ''requires-python'', ''size'', ''upload-time'', ''yanked'', ''core-metadata'',
     ''dist-info-metadata'', ''gpg-sig'', ''provenance'']"

definition known_once :: "string list \<Rightarrow> (string \<times> json_doc) list \<Rightarrow> bool" where
  "known_once known kvs \<longleftrightarrow> distinct (filter (\<lambda>k. k \<in> set known) (map fst kvs))"

definition with_default :: "'a \<Rightarrow> (json_doc \<Rightarrow> 'a option) \<Rightarrow> (string \<times> json_doc) list \<Rightarrow> string \<Rightarrow> 'a option" where
  "with_default d de kvs k = (case map_of kvs k of None \<Rightarrow> Some d | Some v \<Rightarrow> de v)"

definition de_optional :: "(json_doc \<Rightarrow> 'a option) \<Rightarrow> json_doc \<Rightarrow> 'a option option" where
  "de_optional de v = (if v = JNull then Some None else map_option Some (de v))"

fun de_entries :: "(string, string) tbl \<Rightarrow> (string \<times> json_doc) list \<Rightarrow> (string, string) tbl option" where
  "de_entries m [] = Some m"
| "de_entries m ((k, v) # rest) = (case as_str v of None \<Rightarrow> None | Some s \<Rightarrow> de_entries (t_insert m k s) rest)"

definition de_map :: "json_doc \<Rightarrow> (string, string) tbl option" where
  "de_map v = (case v of JObject kvs \<Rightarrow> de_entries [] kvs | _ \<Rightarrow> None)"

definition de_u64 :: "json_doc \<Rightarrow> nat option" where
  "de_u64 v = (case v of JNumber n \<Rightarrow> parse_u64 n | _ \<Rightarrow> None)"

definition de_bool :: "json_doc \<Rightarrow> bool option" where
  "de_bool v = (case v of JBool b \<Rightarrow> Some b | _ \<Rightarrow> None)"

definition de_yanked :: "json_doc \<Rightarrow> yanked option" where
  "de_yanked v = (case v of
      JBool b \<Rightarrow> Some (if b then YankedPlain else NotYanked) | JString r \<Rightarrow> Some (YankedReason r) | _ \<Rightarrow> None)"

definition de_metadata :: "json_doc \<Rightarrow> core_metadata option" where
  "de_metadata v = (case v of
      JBool b \<Rightarrow> Some (if b then MetaAvailable else MetaAbsent) | JObject kvs \<Rightarrow> map_option MetaHashes (de_entries [] kvs) | _ \<Rightarrow> None)"

definition de_provenance :: "json_doc \<Rightarrow> provenance option" where
  "de_provenance v = map_option (\<lambda>url. case url of None \<Rightarrow> ProvNone | Some u \<Rightarrow> ProvUrl u) (de_optional as_str v)"

definition file_of_json :: "json_doc \<Rightarrow> pypi_file option" where
  "file_of_json doc = (case doc of
      JObject kvs \<Rightarrow>
        if \<not> known_once file_fields kvs then None
        else Option.bind (Option.bind (map_of kvs ''filename'') as_str) (\<lambda>filename.
             Option.bind (Option.bind (map_of kvs ''url'') as_str) (\<lambda>url.
             Option.bind (with_default [] de_map kvs ''hashes'') (\<lambda>hashes.
             Option.bind (with_default None (de_optional as_str) kvs ''requires-python'') (\<lambda>requires_python.
             Option.bind (with_default None (de_optional de_u64) kvs ''size'') (\<lambda>size.
             Option.bind (with_default None (de_optional as_str) kvs ''upload-time'') (\<lambda>upload_time.
             Option.bind (with_default NotYanked de_yanked kvs ''yanked'') (\<lambda>yanked.
             Option.bind (with_default MetaAbsent de_metadata kvs ''core-metadata'') (\<lambda>core_metadata.
             Option.bind (with_default MetaAbsent de_metadata kvs ''dist-info-metadata'') (\<lambda>dist_info_metadata.
             Option.bind (with_default None (de_optional de_bool) kvs ''gpg-sig'') (\<lambda>gpg_sig.
             Option.bind (with_default ProvAbsent de_provenance kvs ''provenance'') (\<lambda>provenance.
             Some \<lparr>fl_filename = filename, fl_url = url, fl_hashes = hashes, fl_requires_python = requires_python, fl_size = size,
               fl_upload_time = upload_time, fl_yanked = yanked, fl_core_metadata = core_metadata,
               fl_dist_info_metadata = dist_info_metadata, fl_gpg_sig = gpg_sig, fl_provenance = provenance\<rparr>)))))))))))
    | _ \<Rightarrow> None)"

section \<open>Round trip\<close>

definition metadata_ok :: "core_metadata \<Rightarrow> bool" where
  "metadata_ok m \<longleftrightarrow> (case m of MetaHashes h \<Rightarrow> t_wf h | _ \<Rightarrow> True)"

definition file_ok :: "pypi_file \<Rightarrow> bool" where
  "file_ok f \<longleftrightarrow> t_wf (fl_hashes f) \<and> metadata_ok (effective_metadata f) \<and> is_none_or (fl_size f) (\<lambda>n. n \<le> u64_max)"

lemma de_entries_fold:
  "de_entries m (map (\<lambda>(k, v). (k, JString v)) kvs) = Some (fold (\<lambda>(k, v) t. t_insert t k v) kvs m)"
  by (induction kvs arbitrary: m) (auto simp: as_str_def)

lemma fold_insert_sorted: "t_wf (m @ kvs) \<Longrightarrow> fold (\<lambda>(k, v) t. t_insert t k v) kvs m = m @ kvs"
proof (induction kvs arbitrary: m)
  case (Cons e kvs)
  then have "\<forall>x \<in> set m. fst x < fst e" by (auto simp: t_wf_def sorted_wrt_append)
  with Cons.IH [of "m @ [e]"] Cons.prems show ?case by (cases e) (simp add: t_insert_last)
qed simp

lemma de_map_json [simp]: "t_wf h \<Longrightarrow> de_map (json_of_map h) = Some h"
  using fold_insert_sorted [of "[]" h] by (simp add: de_map_def json_of_map_def de_entries_fold)

lemma de_yanked_json [simp]: "de_yanked (json_of_yanked y) = Some y"
  by (cases y) (simp_all add: de_yanked_def json_of_yanked_def)

lemma de_metadata_json [simp]: "metadata_ok m \<Longrightarrow> de_metadata (json_of_metadata m) = Some m"
  using fold_insert_sorted [of "[]"]
  by (cases m) (simp_all add: de_metadata_def json_of_metadata_def metadata_ok_def json_of_map_def de_entries_fold)

declare show_nat.simps [simp del]

lemma show_nat_digits: "list_all is_digit (show_nat n) \<and> show_nat n \<noteq> [] \<and> dec_value (show_nat n) = n"
proof (induction n rule: show_nat.induct)
  case (1 n)
  show ?case
  proof (cases "n < 10")
    case True
    with digit_char_dec [of n] show ?thesis by (simp add: show_nat.simps [of n] dec_value_def)
  next
    case False
    with 1 digit_char_dec [of "n mod 10"] show ?thesis by (simp add: show_nat.simps [of n] dec_value_def)
  qed
qed

lemma parse_show_nat [simp]: "n \<le> u64_max \<Longrightarrow> parse_u64 (show_nat n) = Some n"
  using parse_u64_digits [of "show_nat n"] show_nat_digits [of n] by simp

lemma file_entry:
  "map_of (file_entries f) ''filename'' = Some (JString (fl_filename f))"
  "map_of (file_entries f) ''url'' = Some (JString (fl_url f))"
  "map_of (file_entries f) ''hashes'' = Some (json_of_map (fl_hashes f))"
  "map_of (file_entries f) ''requires-python'' = map_option JString (fl_requires_python f)"
  "map_of (file_entries f) ''size'' = map_option (\<lambda>n. JNumber (show_nat n)) (fl_size f)"
  "map_of (file_entries f) ''upload-time'' = map_option JString (fl_upload_time f)"
  "map_of (file_entries f) ''yanked'' = Some (json_of_yanked (fl_yanked f))"
  "map_of (file_entries f) ''core-metadata'' = Some (json_of_metadata (effective_metadata f))"
  "map_of (file_entries f) ''dist-info-metadata''
     = (if is_absent (effective_metadata f) then None else Some (json_of_metadata (effective_metadata f)))"
  "map_of (file_entries f) ''gpg-sig'' = map_option JBool (fl_gpg_sig f)"
  "map_of (file_entries f) ''provenance''
     = (case fl_provenance f of ProvAbsent \<Rightarrow> None | ProvNone \<Rightarrow> Some JNull | ProvUrl u \<Rightarrow> Some (JString u))"
  by (simp_all add: file_entries_def map_add_def split: option.split provenance.split)

lemma file_entries_once: "known_once file_fields (file_entries f)"
proof -
  have "distinct (map fst (file_entries f))"
    by (simp add: file_entries_def split: option.split provenance.split)
  then show ?thesis by (simp add: known_once_def)
qed

text \<open>Reading a file entry back from the JSON it was written as gives the entry, with the metadata marker it serves in
  both of its fields.\<close>

theorem file_roundtrip:
  assumes "file_ok f"
  shows "file_of_json (json_of_file f) = Some (set_metadata f (effective_metadata f))"
proof -
  have ok: "t_wf (fl_hashes f)" "metadata_ok (effective_metadata f)" "is_none_or (fl_size f) (\<lambda>n. n \<le> u64_max)"
    using assms by (simp_all add: file_ok_def)
  have fields: "with_default None (de_optional as_str) (file_entries f) ''requires-python'' = Some (fl_requires_python f)"
    "with_default None (de_optional de_u64) (file_entries f) ''size'' = Some (fl_size f)"
    "with_default None (de_optional as_str) (file_entries f) ''upload-time'' = Some (fl_upload_time f)"
    "with_default None (de_optional de_bool) (file_entries f) ''gpg-sig'' = Some (fl_gpg_sig f)"
    using ok(3) by (cases "fl_requires_python f", auto simp: with_default_def file_entry de_optional_def as_str_def de_u64_def de_bool_def
        split: option.split)+
  have prov: "with_default ProvAbsent de_provenance (file_entries f) ''provenance'' = Some (fl_provenance f)"
    by (simp add: with_default_def file_entry de_provenance_def de_optional_def as_str_def split: provenance.split)
  have meta: "with_default MetaAbsent de_metadata (file_entries f) ''core-metadata'' = Some (effective_metadata f)"
    "with_default MetaAbsent de_metadata (file_entries f) ''dist-info-metadata'' = Some (effective_metadata f)"
    using ok(2) by (auto simp: with_default_def file_entry is_absent_def)
  have rest: "with_default [] de_map (file_entries f) ''hashes'' = Some (fl_hashes f)"
    "with_default NotYanked de_yanked (file_entries f) ''yanked'' = Some (fl_yanked f)"
    using ok(1) by (simp_all add: with_default_def file_entry)
  show ?thesis
    by (simp add: json_of_file_def file_of_json_def file_entries_once fields prov meta rest file_entry(1,2) as_str_def set_metadata_def)
qed

definition sample_file :: pypi_file where
  "sample_file = \<lparr>fl_filename = ''a-1.whl'', fl_url = ''u'', fl_hashes = [(''sha256'', ''d'')], fl_requires_python = None,
     fl_size = Some 12, fl_upload_time = None, fl_yanked = YankedReason ''bad'', fl_core_metadata = MetaAbsent,
     fl_dist_info_metadata = MetaAvailable, fl_gpg_sig = None, fl_provenance = ProvNone\<rparr>"

theorem file_roundtrip_witness: "file_of_json (json_of_file sample_file) = Some (sample_file\<lparr>fl_core_metadata := MetaAvailable\<rparr>)"
proof -
  have "file_ok sample_file"
    by (simp add: file_ok_def sample_file_def effective_metadata_def is_absent_def metadata_ok_def t_wf_def u64_max_def)
  from file_roundtrip [OF this] show ?thesis by (simp add: sample_file_def set_metadata_def effective_metadata_def is_absent_def)
qed

end
