(* ===== verification/PypiStore.thy ===== *)
theory PypiStore
  imports PypiFile Journal PathSafety
begin

text \<open>
  How the PyPI driver lays its metadata into the rows of the metadata store: the keys and values of
  \<open>crates/peryx-ecosystem-pypi/src/store/mod.rs\<close>, cached pages (\<open>record.rs\<close>, \<open>index.rs\<close>), file sources and siblings
  (\<open>files.rs\<close>), hosted files and overrides (\<open>uploads.rs\<close>), observed projects (\<open>projects.rs\<close>), the changelog
  (\<open>journal.rs\<close>) and the summary of the indexes (\<open>summary.rs\<close>).  What \<open>serde_json\<close> writes and reads of a struct is a
  codec argument, a closure handed to an operation is a function.  The failures of redb are never produced.
\<close>

section \<open>Keys and values\<close>

definition pypi_prefix :: "string \<Rightarrow> string" where
  "pypi_prefix table = ''pypi'' @ NUL # table @ [NUL]"

definition INDEX_PREFIX :: string where "INDEX_PREFIX = pypi_prefix ''i''"
definition FRESHNESS_PREFIX :: string where "FRESHNESS_PREFIX = pypi_prefix ''h''"
definition FILE_PREFIX :: string where "FILE_PREFIX = pypi_prefix ''f''"
definition METADATA_PREFIX :: string where "METADATA_PREFIX = pypi_prefix ''d''"
definition PROVENANCE_PREFIX :: string where "PROVENANCE_PREFIX = pypi_prefix ''a''"
definition PROJECTS_PREFIX :: string where "PROJECTS_PREFIX = pypi_prefix ''p''"
definition CATALOG_PREFIX :: string where "CATALOG_PREFIX = pypi_prefix ''c''"
definition CATALOG_GENERATION_PREFIX :: string where "CATALOG_GENERATION_PREFIX = pypi_prefix ''g''"
definition PROJECT_META_PREFIX :: string where "PROJECT_META_PREFIX = pypi_prefix ''m''"
definition PROJECT_FILE_PREFIX :: string where "PROJECT_FILE_PREFIX = pypi_prefix ''r''"
definition PROJECT_STATUS_PREFIX :: string where "PROJECT_STATUS_PREFIX = pypi_prefix ''s''"
definition UPLOAD_PREFIX :: string where "UPLOAD_PREFIX = pypi_prefix ''u''"
definition OVERRIDE_PREFIX :: string where "OVERRIDE_PREFIX = pypi_prefix ''o''"

definition index_key :: "string \<Rightarrow> string" where "index_key key = INDEX_PREFIX @ key"
definition freshness_key :: "string \<Rightarrow> string" where "freshness_key key = FRESHNESS_PREFIX @ key"
definition file_key :: "string \<Rightarrow> string" where "file_key sha256 = FILE_PREFIX @ sha256"
definition metadata_key :: "string \<Rightarrow> string" where "metadata_key sha256 = METADATA_PREFIX @ sha256"
definition provenance_key :: "string \<Rightarrow> string" where "provenance_key sha256 = PROVENANCE_PREFIX @ sha256"

definition project_key :: "string \<Rightarrow> string \<Rightarrow> string" where
  "project_key index normalized = PROJECTS_PREFIX @ index @ ''/'' @ normalized"

definition project_status_key :: "string \<Rightarrow> string \<Rightarrow> string" where
  "project_status_key index normalized = PROJECT_STATUS_PREFIX @ index @ ''/'' @ normalized"

definition project_meta_key :: "string \<Rightarrow> string \<Rightarrow> string" where
  "project_meta_key index normalized = PROJECT_META_PREFIX @ index @ ''/'' @ normalized"

definition project_generation_prefix :: "string \<Rightarrow> string \<Rightarrow> nat \<Rightarrow> string" where
  "project_generation_prefix index normalized generation =
     PROJECT_FILE_PREFIX @ index @ ''/'' @ normalized @ ''/'' @ dec20 generation @ ''/''"

definition project_file_key :: "string \<Rightarrow> string \<Rightarrow> nat \<Rightarrow> string \<Rightarrow> string" where
  "project_file_key index normalized generation filename = project_generation_prefix index normalized generation @ filename"

definition upload_key :: "string \<Rightarrow> string \<Rightarrow> string \<Rightarrow> string" where
  "upload_key index normalized filename = UPLOAD_PREFIX @ index @ ''/'' @ normalized @ ''/'' @ filename"

definition override_key :: "string \<Rightarrow> string \<Rightarrow> string \<Rightarrow> string" where
  "override_key index normalized filename = OVERRIDE_PREFIX @ index @ ''/'' @ normalized @ ''/'' @ filename"

definition LF :: char where "LF = CHR 0x0A"

definition file_source_value :: "string \<Rightarrow> string \<Rightarrow> nat option \<Rightarrow> string option \<Rightarrow> string" where
  "file_source_value url source sz upstream = (case upstream of
      None \<Rightarrow> (case sz of None \<Rightarrow> url @ LF # source | Some n \<Rightarrow> url @ LF # source @ LF # show_nat n)
    | Some u \<Rightarrow> url @ LF # source @ LF # (case sz of None \<Rightarrow> [] | Some n \<Rightarrow> show_nat n) @ LF # u)"

definition metadata_value :: "string \<Rightarrow> string \<Rightarrow> string \<Rightarrow> string" where
  "metadata_value url metadata_sha256 source = url @ LF # metadata_sha256 @ LF # source"

definition provenance_value :: "string \<Rightarrow> nat \<Rightarrow> string" where
  "provenance_value provenance_sha256 sz = provenance_sha256 @ LF # show_nat sz"

section \<open>Codecs\<close>

record 'a codec =
  enc :: "'a \<Rightarrow> bytes"
  dec :: "bytes \<Rightarrow> 'a option"

definition codec_ok :: "'a codec \<Rightarrow> bool" where
  "codec_ok c \<longleftrightarrow> (\<forall>x. dec c (enc c x) = Some x)"

section \<open>Cached pages\<close>

record cached_index =
  ci_etag :: "string option"
  ci_last_serial :: "nat option"
  ci_fetched_at_unix :: int
  ci_content_type :: "string option"
  ci_fresh_secs :: "int option"
  ci_body :: bytes

record record_header =
  rh_etag :: "string option"
  rh_last_serial :: "nat option"
  rh_fetched_at_unix :: int
  rh_content_type :: "string option"
  rh_fresh_secs :: "int option"

record cached_index_summary =
  cs_fetched_at_unix :: int
  cs_fresh_secs :: "int option"
  cs_body_bytes :: nat
  cs_record_bytes :: nat
  cs_last_serial :: "nat option"
  cs_content_type :: "string option"

record project_status_record =
  ps_status :: "string option"
  ps_reason :: "string option"

record freshness_overlay =
  fo_fetched_at_unix :: int
  fo_fresh_secs :: "int option"

definition RECORD_PREFIX :: bytes where "RECORD_PREFIX = ''peryx1'' @ [LF]"

text \<open>The framed form has a header codec; \<open>plain\<close> reads a record written before the frame existed.\<close>

record page_codec =
  header :: "record_header codec"
  plain :: "bytes \<Rightarrow> cached_index option"
  overlay :: "freshness_overlay codec"
  status :: "project_status_record codec"

definition cached_encode :: "page_codec \<Rightarrow> cached_index \<Rightarrow> bytes" where
  "cached_encode c r = RECORD_PREFIX @ enc (header c) \<lparr>rh_etag = ci_etag r, rh_last_serial = ci_last_serial r,
     rh_fetched_at_unix = ci_fetched_at_unix r, rh_content_type = ci_content_type r, rh_fresh_secs = ci_fresh_secs r\<rparr> @ LF # ci_body r"

definition split_framed :: "bytes \<Rightarrow> (bytes \<times> bytes) option" where
  "split_framed raw = Option.bind (strip_prefix RECORD_PREFIX raw) (split_once LF)"

definition cached_decode :: "page_codec \<Rightarrow> bytes \<Rightarrow> cached_index option" where
  "cached_decode c raw = (case split_framed raw of
      None \<Rightarrow> plain c raw
    | Some (h, body) \<Rightarrow> map_option (\<lambda>h. \<lparr>ci_etag = rh_etag h, ci_last_serial = rh_last_serial h,
        ci_fetched_at_unix = rh_fetched_at_unix h, ci_content_type = rh_content_type h, ci_fresh_secs = rh_fresh_secs h, ci_body = body\<rparr>)
        (dec (header c) h))"

definition cached_summary :: "page_codec \<Rightarrow> bytes \<Rightarrow> cached_index_summary option" where
  "cached_summary c raw = (case split_framed raw of
      Some (h, body) \<Rightarrow> map_option (\<lambda>h. \<lparr>cs_fetched_at_unix = rh_fetched_at_unix h, cs_fresh_secs = rh_fresh_secs h,
        cs_body_bytes = length body, cs_record_bytes = length raw, cs_last_serial = rh_last_serial h,
        cs_content_type = rh_content_type h\<rparr>) (dec (header c) h)
    | None \<Rightarrow> map_option (\<lambda>r. \<lparr>cs_fetched_at_unix = ci_fetched_at_unix r, cs_fresh_secs = ci_fresh_secs r,
        cs_body_bytes = length (ci_body r), cs_record_bytes = length raw, cs_last_serial = ci_last_serial r,
        cs_content_type = ci_content_type r\<rparr>) (plain c raw))"

definition decode_freshness :: "page_codec \<Rightarrow> bytes \<Rightarrow> (int \<times> int option) option" where
  "decode_freshness c raw = map_option (\<lambda>r. (cs_fetched_at_unix r, cs_fresh_secs r)) (cached_summary c raw)"

definition put_index :: "page_codec \<Rightarrow> meta_store \<Rightarrow> string \<Rightarrow> cached_index \<Rightarrow> meta_store" where
  "put_index c s key r = commit_driver_batch s
     (driver_batch_delete (driver_batch_put driver_batch_new (index_key key) (cached_encode c r)) (freshness_key key))"

definition touch_index_freshness :: "page_codec \<Rightarrow> meta_store \<Rightarrow> string \<Rightarrow> int \<Rightarrow> int option \<Rightarrow> meta_store" where
  "touch_index_freshness c s key fetched_at fresh_secs = commit_driver_batch s
     (driver_batch_put driver_batch_new (freshness_key key) (enc (overlay c) \<lparr>fo_fetched_at_unix = fetched_at, fo_fresh_secs = fresh_secs\<rparr>))"

definition read_overlay :: "page_codec \<Rightarrow> meta_store \<Rightarrow> string \<Rightarrow> meta_error + freshness_overlay option" where
  "read_overlay c s key = (case get_driver_value s (freshness_key key) of
      None \<Rightarrow> Inr None | Some raw \<Rightarrow> rbind (ok_or Decode (dec (overlay c) raw)) (\<lambda>o'. Inr (Some o')))"

definition get_index :: "page_codec \<Rightarrow> meta_store \<Rightarrow> string \<Rightarrow> meta_error + cached_index option" where
  "get_index c s key = (case get_driver_value s (index_key key) of
      None \<Rightarrow> Inr None
    | Some raw \<Rightarrow>
        rbind (ok_or Decode (cached_decode c raw)) (\<lambda>r.
        rbind (read_overlay c s key) (\<lambda>found.
        Inr (Some (case found of None \<Rightarrow> r
          | Some o' \<Rightarrow> r\<lparr>ci_fetched_at_unix := fo_fetched_at_unix o', ci_fresh_secs := fo_fresh_secs o'\<rparr>)))))"

definition list_index_pages :: "page_codec \<Rightarrow> meta_store \<Rightarrow> meta_error + (string \<times> int \<times> int option) list" where
  "list_index_pages c s = collect_results (map (\<lambda>key.
     let route = drop (length INDEX_PREFIX) key
     in rbind (read_overlay c s route) (\<lambda>found. case found of
          Some o' \<Rightarrow> Inr (route, fo_fetched_at_unix o', fo_fresh_secs o')
        | None \<Rightarrow> rbind (ok_or Decode (Option.bind (get_driver_value s key) (decode_freshness c))) (\<lambda>(at, secs). Inr (route, at, secs))))
     (driver_prefix_keys s INDEX_PREFIX))"

definition scan_index_pages :: "page_codec \<Rightarrow> meta_store \<Rightarrow> meta_error + (string \<times> cached_index_summary) list" where
  "scan_index_pages c s = collect_results (map (\<lambda>key.
     let route = drop (length INDEX_PREFIX) key
     in rbind (ok_or Decode (Option.bind (get_driver_value s key) (cached_summary c))) (\<lambda>m.
        rbind (read_overlay c s route) (\<lambda>found.
        Inr (route, case found of None \<Rightarrow> m
          | Some o' \<Rightarrow> m\<lparr>cs_fetched_at_unix := fo_fetched_at_unix o', cs_fresh_secs := fo_fresh_secs o'\<rparr>))))
     (driver_prefix_keys s INDEX_PREFIX))"

definition put_cached_page ::
    "page_codec \<Rightarrow> meta_store \<Rightarrow> string \<Rightarrow> cached_index \<Rightarrow> string \<Rightarrow> string \<Rightarrow> string \<Rightarrow> string \<Rightarrow> string option
      \<Rightarrow> string option \<Rightarrow> string option \<Rightarrow> (string \<times> string \<times> nat option) list \<Rightarrow> (string \<times> string \<times> string) list \<Rightarrow> meta_store" where
  "put_cached_page c s key r index normalized display source upstream project_status project_status_reason files metadata =
     (let b = driver_batch_put driver_batch_new (index_key key) (cached_encode c r);
          b = driver_batch_delete b (freshness_key key);
          b = driver_batch_put b (project_key index normalized) display;
          b = (if project_status = None \<and> project_status_reason = None then driver_batch_delete b (project_status_key index normalized)
               else driver_batch_put b (project_status_key index normalized)
                 (enc (status c) \<lparr>ps_status = project_status, ps_reason = project_status_reason\<rparr>));
          b = fold (\<lambda>(sha256, url, sz) b. driver_batch_put b (file_key sha256) (file_source_value url source sz upstream)) files b;
          b = fold (\<lambda>(wheel, url, sha256) b. driver_batch_put b (metadata_key wheel) (metadata_value url sha256 source)) metadata b
      in commit_driver_batch s b)"

definition get_project_status :: "page_codec \<Rightarrow> meta_store \<Rightarrow> string \<Rightarrow> string \<Rightarrow> meta_error + project_status_record option" where
  "get_project_status c s index normalized = (case get_driver_value s (project_status_key index normalized) of
      None \<Rightarrow> Inr None | Some raw \<Rightarrow> rbind (ok_or Decode (dec (status c) raw)) (\<lambda>r. Inr (Some r)))"

section \<open>File sources and siblings\<close>

text \<open>\<open>splitn\<close>: at most \<open>n\<close> pieces, the last one keeps its separators.\<close>

fun splitn :: "nat \<Rightarrow> char \<Rightarrow> string \<Rightarrow> string list" where
  "splitn 0 c s = []"
| "splitn (Suc 0) c s = [s]"
| "splitn (Suc (Suc n)) c s = (case split_once c s of None \<Rightarrow> [s] | Some (a, b) \<Rightarrow> a # splitn (Suc n) c b)"

definition utf8_value :: "meta_store \<Rightarrow> string \<Rightarrow> string option" where
  "utf8_value s key = Option.bind (get_driver_value s key) (\<lambda>raw. if valid_utf8 raw then Some raw else None)"

record file_source =
  fs_url :: string
  fs_source :: string
  fs_size :: "nat option"
  fs_upstream :: "string option"

definition split_file_source :: "string \<Rightarrow> file_source option" where
  "split_file_source text = (case splitn 4 LF text of
      url # source # rest \<Rightarrow> Some \<lparr>fs_url = url, fs_source = source,
        fs_size = (case rest of [] \<Rightarrow> None | sz # _ \<Rightarrow> parse_u64 sz),
        fs_upstream = (case rest of _ # upstream # _ \<Rightarrow> if upstream = [] then None else Some upstream | _ \<Rightarrow> None)\<rparr>
    | _ \<Rightarrow> None)"

definition put_file_url :: "meta_store \<Rightarrow> string \<Rightarrow> string \<Rightarrow> string \<Rightarrow> meta_store" where
  "put_file_url s sha256 url source = put_driver_value s (file_key sha256) (file_source_value url source None None)"

definition get_file_url :: "meta_store \<Rightarrow> string \<Rightarrow> file_source option" where
  "get_file_url s sha256 = Option.bind (utf8_value s (file_key sha256)) split_file_source"

definition put_metadata :: "meta_store \<Rightarrow> string \<Rightarrow> string \<Rightarrow> string \<Rightarrow> string \<Rightarrow> meta_store" where
  "put_metadata s artifact_sha256 url metadata_sha256 source =
     put_driver_value s (metadata_key artifact_sha256) (metadata_value url metadata_sha256 source)"

definition get_metadata :: "meta_store \<Rightarrow> string \<Rightarrow> (string \<times> string \<times> string) option" where
  "get_metadata s artifact_sha256 = Option.bind (utf8_value s (metadata_key artifact_sha256)) (\<lambda>text.
     case splitn 3 LF text of [url, sha256, source] \<Rightarrow> Some (url, sha256, source) | _ \<Rightarrow> None)"

definition get_metadata_digests :: "meta_store \<Rightarrow> string list \<Rightarrow> (string, string) tbl" where
  "get_metadata_digests s artifacts = foldl (\<lambda>m artifact.
     case utf8_value s (metadata_key artifact) of None \<Rightarrow> m
     | Some text \<Rightarrow> (case splitn 3 LF text of _ # sha256 # _ \<Rightarrow> t_insert m artifact sha256 | _ \<Rightarrow> m)) [] artifacts"

definition put_provenance :: "meta_store \<Rightarrow> string \<Rightarrow> string \<Rightarrow> nat \<Rightarrow> meta_store" where
  "put_provenance s artifact_sha256 provenance_sha256 sz =
     put_driver_value s (provenance_key artifact_sha256) (provenance_value provenance_sha256 sz)"

definition split_provenance :: "string \<Rightarrow> (string \<times> nat) option" where
  "split_provenance text = Option.bind (split_once LF text) (\<lambda>(sha256, sz). map_option (Pair sha256) (parse_u64 sz))"

definition get_provenance :: "meta_store \<Rightarrow> string \<Rightarrow> (string \<times> nat) option" where
  "get_provenance s artifact_sha256 = Option.bind (utf8_value s (provenance_key artifact_sha256)) split_provenance"

text \<open>The scans visit their rows in key order; a visitor is a function that threads its own state and may stop with an error.\<close>

fun visit_rows :: "('k \<Rightarrow> 'v \<Rightarrow> 'a \<Rightarrow> 'e + 'a) \<Rightarrow> ('k \<times> 'v) list \<Rightarrow> 'a \<Rightarrow> 'e + 'a" where
  "visit_rows visit [] a = Inr a"
| "visit_rows visit ((k, v) # rows) a = rbind (visit k v a) (visit_rows visit rows)"

definition utf8_rows :: "meta_store \<Rightarrow> string \<Rightarrow> (string \<times> string) list" where
  "utf8_rows s prefix = List.map_filter (\<lambda>key. map_option (Pair (drop (length prefix) key)) (utf8_value s key)) (driver_prefix_keys s prefix)"

definition raw_rows :: "meta_store \<Rightarrow> string \<Rightarrow> (string \<times> bytes) list" where
  "raw_rows s prefix = map (\<lambda>key. (drop (length prefix) key, the (get_driver_value s key))) (driver_prefix_keys s prefix)"

definition scan_file_urls :: "meta_store \<Rightarrow> (string \<Rightarrow> string \<Rightarrow> 'a \<Rightarrow> 'e + 'a) \<Rightarrow> 'a \<Rightarrow> 'e + 'a" where
  "scan_file_urls s visit a = visit_rows visit (utf8_rows s FILE_PREFIX) a"

definition scan_metadata_records :: "meta_store \<Rightarrow> (string \<Rightarrow> string \<Rightarrow> 'a \<Rightarrow> 'e + 'a) \<Rightarrow> 'a \<Rightarrow> 'e + 'a" where
  "scan_metadata_records s visit a = visit_rows visit (utf8_rows s METADATA_PREFIX) a"

definition scan_provenance_records :: "meta_store \<Rightarrow> (string \<Rightarrow> string \<Rightarrow> 'a \<Rightarrow> 'e + 'a) \<Rightarrow> 'a \<Rightarrow> 'e + 'a" where
  "scan_provenance_records s visit a = visit_rows visit (utf8_rows s PROVENANCE_PREFIX) a"

definition scan_index_records :: "meta_store \<Rightarrow> (string \<Rightarrow> bytes \<Rightarrow> 'a \<Rightarrow> 'e + 'a) \<Rightarrow> 'a \<Rightarrow> 'e + 'a" where
  "scan_index_records s visit a = visit_rows visit (raw_rows s INDEX_PREFIX) a"

section \<open>Hosted files\<close>

record metadata_sibling_row =
  ms_url :: string
  ms_metadata_sha256 :: string
  ms_size :: nat
  ms_source :: string

record provenance_sibling =
  pv_provenance_sha256 :: string
  pv_size :: nat

record published_file =
  pf_index :: string
  pf_normalized :: string
  pf_display :: string
  pf_filename :: string
  pf_artifact_sha256 :: string
  pf_artifact_size :: nat
  pf_record :: bytes
  pf_version :: string
  pf_submitted_at_unix :: int
  pf_metadata :: "metadata_sibling_row option"
  pf_provenance :: "provenance_sibling option"

record promoted_release =
  pr_index :: string
  pr_normalized :: string
  pr_display :: string
  pr_records :: "(string \<times> string \<times> bytes) list"
  pr_blob_sizes :: "(string, nat) tbl"
  pr_submitted_at_unix :: int

datatype guard = GuardCommit | GuardSkip

datatype upload_mutation = KeepRecord | ReplaceRecord bytes | DeleteRecord

record journal_entry =
  je_serial :: nat
  je_submitted_at_unix :: int
  je_action :: string
  je_project :: string
  je_version :: "string option"
  je_filename :: "string option"

definition journal_bytes :: "journal_entry codec \<Rightarrow> string \<Rightarrow> string \<Rightarrow> string option \<Rightarrow> string option \<Rightarrow> int \<Rightarrow> bytes" where
  "journal_bytes jc action project version filename submitted_at = enc jc \<lparr>je_serial = 0, je_submitted_at_unix = submitted_at,
     je_action = action, je_project = project, je_version = version, je_filename = filename\<rparr>"

definition journal_version :: "json_parser \<Rightarrow> string \<Rightarrow> bytes \<Rightarrow> string option" where
  "journal_version parse_json filename r = (case Option.bind (parse_json r) (\<lambda>v. as_str (json_field v ''version'')) of
      Some v \<Rightarrow> Some v | None \<Rightarrow> distribution_version_segment filename)"

definition publish_body ::
    "journal_entry codec \<Rightarrow> published_file \<Rightarrow> (bytes option \<Rightarrow> 'e + guard) \<Rightarrow> (bool, 'e) txn_body" where
  "publish_body jc f guard txn =
     (let upload = upload_key (pf_index f) (pf_normalized f) (pf_filename f)
      in rbind (guard (txn_get txn upload)) (\<lambda>verdict. case verdict of
           GuardSkip \<Rightarrow> Inr ((False, []), txn)
         | GuardCommit \<Rightarrow>
             let txn = txn_reference_blob txn (pf_artifact_sha256 f) (pf_artifact_size f);
                 txn = (case pf_metadata f of None \<Rightarrow> txn
                   | Some m \<Rightarrow> txn_reference_blob (txn_put txn (metadata_key (pf_artifact_sha256 f))
                       (metadata_value (ms_url m) (ms_metadata_sha256 m) (ms_source m))) (ms_metadata_sha256 m) (ms_size m));
                 txn = (case pf_provenance f of None \<Rightarrow> txn
                   | Some p \<Rightarrow> txn_reference_blob (txn_put txn (provenance_key (pf_artifact_sha256 f))
                       (provenance_value (pv_provenance_sha256 p) (pv_size p))) (pv_provenance_sha256 p) (pv_size p));
                 txn = txn_put txn upload (pf_record f);
                 txn = txn_put txn (project_key (pf_index f) (pf_normalized f)) (pf_display f)
             in Inr ((True, [journal_bytes jc ''add-file'' (pf_normalized f) (Some (pf_version f)) (Some (pf_filename f))
                  (pf_submitted_at_unix f)]), txn)))"

definition publish_file_if ::
    "(meta_error \<Rightarrow> 'e) \<Rightarrow> journal_entry codec \<Rightarrow> meta_store \<Rightarrow> published_file \<Rightarrow> (bytes option \<Rightarrow> 'e + guard) \<Rightarrow> 'e + (bool \<times> meta_store)" where
  "publish_file_if conv jc s f guard = commit_driver_txn conv (publish_body jc f guard) s"

definition put_upload :: "meta_store \<Rightarrow> string \<Rightarrow> string \<Rightarrow> string \<Rightarrow> bytes \<Rightarrow> meta_store" where
  "put_upload s index normalized filename r = put_driver_value s (upload_key index normalized filename) r"

fun promote_records ::
    "journal_entry codec \<Rightarrow> json_parser \<Rightarrow> promoted_release \<Rightarrow> (string \<Rightarrow> string \<Rightarrow> bytes option \<Rightarrow> 'e + guard)
      \<Rightarrow> (string \<times> string \<times> bytes) list \<Rightarrow> nat \<Rightarrow> bytes list \<Rightarrow> driver_txn \<Rightarrow> 'e + (nat \<times> bytes list \<times> driver_txn)" where
  "promote_records jc parse_json promotion guard [] written journal txn = Inr (written, journal, txn)"
| "promote_records jc parse_json promotion guard ((filename, token, r) # rest) written journal txn =
     (let key = upload_key (pr_index promotion) (pr_normalized promotion) filename
      in rbind (guard filename token (txn_get txn key)) (\<lambda>verdict. case verdict of
           GuardSkip \<Rightarrow> promote_records jc parse_json promotion guard rest written journal txn
         | GuardCommit \<Rightarrow>
             let txn = txn_put txn key r;
                 txn = (case t_get (pr_blob_sizes promotion) token of None \<Rightarrow> txn | Some sz \<Rightarrow> txn_reference_blob txn token sz)
             in promote_records jc parse_json promotion guard rest (Suc written)
                  (journal @ [journal_bytes jc ''add-file'' (pr_normalized promotion) (journal_version parse_json filename r)
                     (Some filename) (pr_submitted_at_unix promotion)]) txn))"

definition promote_body ::
    "journal_entry codec \<Rightarrow> json_parser \<Rightarrow> promoted_release \<Rightarrow> (string \<Rightarrow> string \<Rightarrow> bytes option \<Rightarrow> 'e + guard) \<Rightarrow> (nat, 'e) txn_body" where
  "promote_body jc parse_json promotion guard txn =
     rbind (promote_records jc parse_json promotion guard (pr_records promotion) 0 [] txn) (\<lambda>(written, journal, txn).
       if written = 0 then Inr ((0, []), txn)
       else Inr ((written, journal), txn_put txn (project_key (pr_index promotion) (pr_normalized promotion)) (pr_display promotion)))"

definition promote_files_checked ::
    "(meta_error \<Rightarrow> 'e) \<Rightarrow> journal_entry codec \<Rightarrow> json_parser \<Rightarrow> meta_store \<Rightarrow> promoted_release
      \<Rightarrow> (string \<Rightarrow> string \<Rightarrow> bytes option \<Rightarrow> 'e + guard) \<Rightarrow> 'e + (nat \<times> meta_store)" where
  "promote_files_checked conv jc parse_json s promotion guard = commit_driver_txn conv (promote_body jc parse_json promotion guard) s"

definition uploads_prefix :: "string \<Rightarrow> string \<Rightarrow> string" where
  "uploads_prefix index normalized = UPLOAD_PREFIX @ index @ ''/'' @ normalized @ ''/''"

fun mutate_each ::
    "journal_entry codec \<Rightarrow> json_parser \<Rightarrow> string \<Rightarrow> string \<Rightarrow> string \<Rightarrow> int \<Rightarrow> (string \<Rightarrow> bytes \<Rightarrow> 'e + upload_mutation)
      \<Rightarrow> (string \<times> bytes) list \<Rightarrow> bytes list \<Rightarrow> driver_txn \<Rightarrow> 'e + (bytes list \<times> driver_txn)" where
  "mutate_each jc parse_json prefix normalized action at mutate [] journal txn = Inr (journal, txn)"
| "mutate_each jc parse_json prefix normalized action at mutate ((key, r) # rows) journal txn =
     (let filename = drop (length prefix) key;
          entry = journal_bytes jc action normalized (journal_version parse_json filename r) (Some filename) at
      in rbind (mutate filename r) (\<lambda>m. case m of
           KeepRecord \<Rightarrow> mutate_each jc parse_json prefix normalized action at mutate rows journal txn
         | ReplaceRecord new \<Rightarrow> mutate_each jc parse_json prefix normalized action at mutate rows (journal @ [entry]) (txn_put txn key new)
         | DeleteRecord \<Rightarrow> mutate_each jc parse_json prefix normalized action at mutate rows (journal @ [entry]) (snd (txn_remove txn key))))"

definition mutate_body ::
    "journal_entry codec \<Rightarrow> json_parser \<Rightarrow> string \<Rightarrow> string \<Rightarrow> string \<Rightarrow> int \<Rightarrow> (string \<Rightarrow> bytes \<Rightarrow> 'e + upload_mutation) \<Rightarrow> (nat, 'e) txn_body" where
  "mutate_body jc parse_json index normalized action at mutate txn =
     rbind (mutate_each jc parse_json (uploads_prefix index normalized) normalized action at mutate
         (txn_prefix txn (uploads_prefix index normalized)) [] txn) (\<lambda>(journal, txn). Inr ((length journal, journal), txn))"

definition mutate_uploads ::
    "(meta_error \<Rightarrow> 'e) \<Rightarrow> journal_entry codec \<Rightarrow> json_parser \<Rightarrow> meta_store \<Rightarrow> string \<Rightarrow> string \<Rightarrow> string \<Rightarrow> int
      \<Rightarrow> (string \<Rightarrow> bytes \<Rightarrow> 'e + upload_mutation) \<Rightarrow> 'e + (nat \<times> meta_store)" where
  "mutate_uploads conv jc parse_json s index normalized action at mutate =
     commit_driver_txn conv (mutate_body jc parse_json index normalized action at mutate) s"

definition list_upload_entries :: "meta_store \<Rightarrow> string \<Rightarrow> string \<Rightarrow> (string \<times> bytes) list" where
  "list_upload_entries s index normalized =
     (let prefix = uploads_prefix index normalized
      in List.map_filter (\<lambda>key. case (strip_prefix prefix key, get_driver_value s key) of
           (Some filename, Some r) \<Rightarrow> Some (filename, r) | _ \<Rightarrow> None) (driver_prefix_keys s prefix))"

definition delete_upload_body ::
    "journal_entry codec \<Rightarrow> json_parser \<Rightarrow> string \<Rightarrow> string \<Rightarrow> string \<Rightarrow> int \<Rightarrow> (bool, meta_error) txn_body" where
  "delete_upload_body jc parse_json index normalized filename at txn =
     (let key = upload_key index normalized filename
      in case txn_get txn key of
           None \<Rightarrow> Inr ((False, []), txn)
         | Some r \<Rightarrow> Inr ((True, [journal_bytes jc ''delete-file'' normalized (journal_version parse_json filename r) (Some filename) at]),
             snd (txn_remove txn key)))"

definition delete_upload ::
    "journal_entry codec \<Rightarrow> json_parser \<Rightarrow> meta_store \<Rightarrow> string \<Rightarrow> string \<Rightarrow> string \<Rightarrow> int \<Rightarrow> meta_error + (bool \<times> meta_store)" where
  "delete_upload jc parse_json s index normalized filename at =
     commit_driver_txn id (delete_upload_body jc parse_json index normalized filename at) s"

definition scan_upload_records :: "meta_store \<Rightarrow> (string \<Rightarrow> bytes \<Rightarrow> 'a \<Rightarrow> 'e + 'a) \<Rightarrow> 'a \<Rightarrow> 'e + 'a" where
  "scan_upload_records s visit a = visit_rows visit (raw_rows s UPLOAD_PREFIX) a"

section \<open>Overrides\<close>

definition put_override_body :: "journal_entry codec \<Rightarrow> string \<Rightarrow> string \<Rightarrow> string \<Rightarrow> string \<Rightarrow> int \<Rightarrow> (unit, meta_error) txn_body" where
  "put_override_body jc index normalized filename kind at txn =
     (let key = override_key index normalized filename
      in if txn_get txn key = Some kind then Inr (((), []), txn)
         else Inr (((), [journal_bytes jc (if kind = ''hidden'' then ''hide'' else ''yank'') normalized
             (distribution_version_segment filename) (Some filename) at]), txn_put txn key kind))"

definition put_override ::
    "journal_entry codec \<Rightarrow> meta_store \<Rightarrow> string \<Rightarrow> string \<Rightarrow> string \<Rightarrow> string \<Rightarrow> int \<Rightarrow> meta_error + (unit \<times> meta_store)" where
  "put_override jc s index normalized filename kind at = commit_driver_txn id (put_override_body jc index normalized filename kind at) s"

definition delete_override_body :: "journal_entry codec \<Rightarrow> string \<Rightarrow> string \<Rightarrow> string \<Rightarrow> int \<Rightarrow> (bool, meta_error) txn_body" where
  "delete_override_body jc index normalized filename at txn =
     (let key = override_key index normalized filename
      in case txn_get txn key of
           None \<Rightarrow> Inr ((False, []), txn)
         | Some prior \<Rightarrow> Inr ((True, [journal_bytes jc (if prior = ''hidden'' then ''restore'' else ''unyank'') normalized
             (distribution_version_segment filename) (Some filename) at]), snd (txn_remove txn key)))"

definition delete_override ::
    "journal_entry codec \<Rightarrow> meta_store \<Rightarrow> string \<Rightarrow> string \<Rightarrow> string \<Rightarrow> int \<Rightarrow> meta_error + (bool \<times> meta_store)" where
  "delete_override jc s index normalized filename at = commit_driver_txn id (delete_override_body jc index normalized filename at) s"

definition list_overrides :: "meta_store \<Rightarrow> string \<Rightarrow> string \<Rightarrow> (string \<times> string) list" where
  "list_overrides s index normalized =
     (let prefix = OVERRIDE_PREFIX @ index @ ''/'' @ normalized @ ''/''
      in List.map_filter (\<lambda>key. case (strip_prefix prefix key, utf8_value s key) of
           (Some filename, Some kind) \<Rightarrow> Some (filename, kind) | _ \<Rightarrow> None) (driver_prefix_keys s prefix))"

definition scan_override_records :: "meta_store \<Rightarrow> (string \<Rightarrow> string \<Rightarrow> 'a \<Rightarrow> 'e + 'a) \<Rightarrow> 'a \<Rightarrow> 'e + 'a" where
  "scan_override_records s visit a = visit_rows visit (utf8_rows s OVERRIDE_PREFIX) a"

section \<open>Rows of different indexes\<close>

text \<open>The rows are keyed by the name of the index as it is: where it contains a slash, the uploads of the index lie under the
  prefix of a project of the index named by its first part.\<close>

lemma uploads_cross_indexes:
  "starts_with (upload_key (index @ ''/'' @ project) other filename) (uploads_prefix index project)"
  by (simp add: starts_with_iff upload_key_def uploads_prefix_def)

end
