(* ===== verification/PypiGenerations.thy ===== *)
theory PypiGenerations
  imports PypiStore
begin

text \<open>
  Staged publication in the PyPI driver: the file list of a remote project (\<open>store/index.rs\<close>) and the catalog of a remote
  index (\<open>store/projects.rs\<close>) are parsed into a numbered generation of rows that becomes visible when the active
  pointer moves.  A history lists the stores that were committed, newest first: an operation made of several
  transactions extends it, and a crash leaves one of its stores.  The locale states what the protocol promises; both
  publications interpret it.
\<close>

section \<open>States\<close>

text \<open>\<open>ProjectMetaState\<close> and \<open>CatalogState\<close> have the same fields around their kind of generation.\<close>

record 'g publication =
  pub_active :: "'g option"
  pub_staging :: "nat option"
  pub_retired :: "nat option"
  pub_next_generation :: nat

definition publication_default :: "'g publication" where
  "publication_default = \<lparr>pub_active = None, pub_staging = None, pub_retired = None, pub_next_generation = 0\<rparr>"

record project_generation =
  pgn_generation :: nat
  pgn_source :: string
  pgn_url :: string
  pgn_format :: string
  pgn_etag :: "string option"
  pgn_last_modified :: "string option"
  pgn_last_serial :: "nat option"
  pgn_fetched_at_unix :: int
  pgn_bytes :: nat
  pgn_files :: nat
  pgn_versions :: "string list"
  pgn_project_status :: "string option"
  pgn_project_status_reason :: "string option"

record catalog_generation =
  cgn_generation :: nat
  cgn_source :: string
  cgn_url :: string
  cgn_format :: string
  cgn_etag :: "string option"
  cgn_last_modified :: "string option"
  cgn_last_serial :: "nat option"
  cgn_fetched_at_unix :: int
  cgn_bytes :: nat
  cgn_projects :: nat

text \<open>\<open>next_generation += 1\<close> on a \<open>u64\<close>, without overflow checks.\<close>

definition bump_u64 :: "nat \<Rightarrow> nat" where
  "bump_u64 n = (n + 1) mod 2 ^ 64"

section \<open>Histories\<close>

type_synonym history = "meta_store list"

definition push :: "history \<Rightarrow> 'e + ('a \<times> meta_store) \<Rightarrow> history \<times> ('e + 'a)" where
  "push h r = (case r of Inl e \<Rightarrow> (h, Inl e) | Inr (x, s) \<Rightarrow> (s # h, Inr x))"

definition DELETE_BATCH :: nat where
  "DELETE_BATCH = 10000"

definition delete_keys :: "meta_store \<Rightarrow> string list \<Rightarrow> meta_store" where
  "delete_keys s keys = commit_driver_batch s (fold (\<lambda>k b. driver_batch_delete b k) keys driver_batch_new)"

lemma delete_keys_table: "driver_kv (delete_keys s keys) = fold (\<lambda>k t. t_remove t k) keys (driver_kv s)"
proof -
  have "fold (\<lambda>k b. driver_batch_delete b k) keys b = b\<lparr>db_deletes := db_deletes b @ keys\<rparr>" for b
    by (induction keys arbitrary: b) (simp_all add: driver_batch_delete_def)
  then show ?thesis by (simp add: delete_keys_def commit_driver_batch_def driver_batch_new_def)
qed

lemma fold_remove_filter: "fold (\<lambda>k t. t_remove t k) keys t = filter (\<lambda>e. fst e \<notin> set keys) t"
  by (induction keys arbitrary: t) (auto simp: t_remove_def intro!: filter_cong)

lemma prefix_scan_member: "e \<in> set (prefix_scan t p) \<Longrightarrow> e \<in> set t"
  by (auto simp: prefix_scan_def range_from_def dest: set_takeWhileD)

lemma delete_batch_shrinks:
  assumes "driver_prefix_keys_limited s p DELETE_BATCH \<noteq> []"
  shows "length (driver_kv (delete_keys s (driver_prefix_keys_limited s p DELETE_BATCH))) < length (driver_kv s)"
proof -
  obtain k where k: "k \<in> set (driver_prefix_keys_limited s p DELETE_BATCH)" using assms by (meson list.set_sel(1))
  then obtain e where "e \<in> set (driver_kv s)" "fst e = k"
    unfolding driver_prefix_keys_limited_def by (auto dest!: in_set_takeD prefix_scan_member)
  with k show ?thesis by (auto simp: delete_keys_table fold_remove_filter intro!: length_filter_less)
qed

text \<open>The deletion loop of \<open>delete_generation_rows\<close>, one transaction per batch.\<close>

function delete_prefix_rows :: "history \<Rightarrow> string \<Rightarrow> history" where
  "delete_prefix_rows h p =
     (let keys = driver_prefix_keys_limited (hd h) p DELETE_BATCH
      in if keys = [] then h else delete_prefix_rows (delete_keys (hd h) keys # h) p)"
  by pat_completeness auto
termination by (relation "measure (\<lambda>(h, p). length (driver_kv (hd h)))") (auto simp: delete_batch_shrinks)

declare delete_prefix_rows.simps [simp del]

section \<open>Project generations\<close>

definition decode_project_meta_state ::
    "project_generation publication codec \<Rightarrow> bytes option \<Rightarrow> meta_error + project_generation publication" where
  "decode_project_meta_state c raw = (case raw of None \<Rightarrow> Inr publication_default | Some b \<Rightarrow> ok_or Decode (dec c b))"

definition project_meta_state ::
    "project_generation publication codec \<Rightarrow> meta_store \<Rightarrow> string \<Rightarrow> string \<Rightarrow> meta_error + project_generation publication" where
  "project_meta_state c s index normalized = decode_project_meta_state c (get_driver_value s (project_meta_key index normalized))"

definition active_project_generation ::
    "project_generation publication codec \<Rightarrow> meta_store \<Rightarrow> string \<Rightarrow> string \<Rightarrow> meta_error + project_generation option" where
  "active_project_generation c s index normalized = rbind (project_meta_state c s index normalized) (\<lambda>p. Inr (pub_active p))"

definition store_project_meta_state ::
    "project_generation publication codec \<Rightarrow> driver_txn \<Rightarrow> string \<Rightarrow> string \<Rightarrow> project_generation publication \<Rightarrow> driver_txn" where
  "store_project_meta_state c txn index normalized p = txn_put_local txn (project_meta_key index normalized) (enc c p)"

definition delete_generation_rows :: "history \<Rightarrow> string \<Rightarrow> string \<Rightarrow> nat \<Rightarrow> history" where
  "delete_generation_rows h index normalized generation = delete_prefix_rows h (project_generation_prefix index normalized generation)"

definition settle_project_generations ::
    "project_generation publication codec \<Rightarrow> meta_store \<Rightarrow> string \<Rightarrow> string \<Rightarrow> project_generation publication \<Rightarrow> meta_error + (unit \<times> meta_store)" where
  "settle_project_generations c s index normalized p = commit_driver_txn id (\<lambda>txn.
     rbind (decode_project_meta_state c (txn_get txn (project_meta_key index normalized))) (\<lambda>current.
       let current = (if pub_staging current = pub_staging p then current\<lparr>pub_staging := None\<rparr> else current);
           current = (if pub_retired current = pub_retired p then current\<lparr>pub_retired := None\<rparr> else current)
       in Inr (((), []), store_project_meta_state c txn index normalized current))) s"

definition flatten_generations :: "nat option list \<Rightarrow> nat list" where
  "flatten_generations = List.map_filter id"

definition recover_project_generations ::
    "project_generation publication codec \<Rightarrow> history \<Rightarrow> string \<Rightarrow> string \<Rightarrow> history \<times> (meta_error + unit)" where
  "recover_project_generations c h index normalized = (case project_meta_state c (hd h) index normalized of
      Inl e \<Rightarrow> (h, Inl e)
    | Inr p \<Rightarrow>
        let h = fold (\<lambda>generation h. delete_generation_rows h index normalized generation)
              (flatten_generations [pub_staging p, pub_retired p]) h
        in push h (settle_project_generations c (hd h) index normalized p))"

definition begin_project_generation ::
    "project_generation publication codec \<Rightarrow> meta_store \<Rightarrow> string \<Rightarrow> string \<Rightarrow> meta_error + ((nat \<times> nat option) \<times> meta_store)" where
  "begin_project_generation c s index normalized = commit_driver_txn id (\<lambda>txn.
     rbind (decode_project_meta_state c (txn_get txn (project_meta_key index normalized))) (\<lambda>p.
       let expected = map_option pgn_generation (pub_active p);
           next = bump_u64 (pub_next_generation p);
           p = p\<lparr>pub_next_generation := next, pub_staging := Some next\<rparr>
       in Inr (((next, expected), []), store_project_meta_state c txn index normalized p))) s"

definition metadata_sibling :: "string \<Rightarrow> string" where
  "metadata_sibling url =
     (let before = takeWhile (\<lambda>c. c \<noteq> CHR ''?'' \<and> c \<noteq> CHR ''#'') url
      in before @ ''.metadata'' @ drop (length before) url)"

definition register_file_rows :: "driver_txn \<Rightarrow> string \<Rightarrow> string option \<Rightarrow> pypi_file \<Rightarrow> driver_txn" where
  "register_file_rows txn source upstream f = (case file_sha256 f of
      None \<Rightarrow> txn
    | Some sha256 \<Rightarrow>
        let txn = txn_put_local txn (file_key sha256) (file_source_value (fl_url f) source (fl_size f) upstream)
        in (case effective_metadata f of
              MetaHashes hashes \<Rightarrow> (case t_get hashes ''sha256'' of
                  None \<Rightarrow> txn
                | Some digest \<Rightarrow> txn_put_local txn (metadata_key sha256) (metadata_value (metadata_sibling (fl_url f)) digest source))
            | _ \<Rightarrow> txn))"

text \<open>\<open>to_json\<close> of a file is an argument.\<close>

definition stage_file ::
    "(pypi_file \<Rightarrow> bytes) \<Rightarrow> string \<Rightarrow> string \<Rightarrow> nat \<Rightarrow> string \<Rightarrow> string option \<Rightarrow> pypi_file \<Rightarrow> nat \<times> driver_txn \<Rightarrow> nat \<times> driver_txn" where
  "stage_file to_json index normalized generation source upstream f acc = (case acc of (inserted, txn) \<Rightarrow>
     let key = project_file_key index normalized generation (fl_filename f)
     in if txn_get txn key \<noteq> None then (inserted, txn)
        else (Suc inserted, register_file_rows (txn_put_local txn key (to_json f)) source upstream f))"

definition put_project_files ::
    "project_generation publication codec \<Rightarrow> (pypi_file \<Rightarrow> bytes) \<Rightarrow> meta_store \<Rightarrow> string \<Rightarrow> string \<Rightarrow> nat \<Rightarrow> string \<Rightarrow> string option
      \<Rightarrow> pypi_file list \<Rightarrow> meta_error + (nat \<times> meta_store)" where
  "put_project_files c to_json s index normalized generation source upstream files = commit_driver_txn id (\<lambda>txn.
     rbind (decode_project_meta_state c (txn_get txn (project_meta_key index normalized))) (\<lambda>p.
       if pub_staging p \<noteq> Some generation then Inl (DriverPrecondition ''project generation is not staging'')
       else let (inserted, txn) = fold (stage_file to_json index normalized generation source upstream) files (0, txn)
            in Inr ((inserted, []), txn))) s"

definition publish_project_generation ::
    "project_generation publication codec \<Rightarrow> meta_store \<Rightarrow> string \<Rightarrow> string \<Rightarrow> nat option \<Rightarrow> project_generation \<Rightarrow> meta_error + (unit \<times> meta_store)" where
  "publish_project_generation c s index normalized expected_active generation = commit_driver_txn id (\<lambda>txn.
     rbind (decode_project_meta_state c (txn_get txn (project_meta_key index normalized))) (\<lambda>p.
       if pub_staging p \<noteq> Some (pgn_generation generation) \<or> map_option pgn_generation (pub_active p) \<noteq> expected_active
       then Inl (DriverPrecondition ''project publication lost its reservation'')
       else let p = p\<lparr>pub_retired := map_option pgn_generation (pub_active p), pub_active := Some generation, pub_staging := None\<rparr>
            in Inr (((), []), store_project_meta_state c txn index normalized p))) s"

definition forget_project_generation ::
    "project_generation publication codec \<Rightarrow> meta_store \<Rightarrow> string \<Rightarrow> string \<Rightarrow> nat \<Rightarrow> meta_error + (unit \<times> meta_store)" where
  "forget_project_generation c s index normalized generation = commit_driver_txn id (\<lambda>txn.
     rbind (decode_project_meta_state c (txn_get txn (project_meta_key index normalized))) (\<lambda>p.
       Inr (((), []), if pub_staging p = Some generation
         then store_project_meta_state c txn index normalized (p\<lparr>pub_staging := None\<rparr>) else txn))) s"

definition abort_project_generation ::
    "project_generation publication codec \<Rightarrow> history \<Rightarrow> string \<Rightarrow> string \<Rightarrow> nat \<Rightarrow> history \<times> (meta_error + unit)" where
  "abort_project_generation c h index normalized generation =
     (let h = delete_generation_rows h index normalized generation
      in push h (forget_project_generation c (hd h) index normalized generation))"

definition refresh_project_generation ::
    "project_generation publication codec \<Rightarrow> meta_store \<Rightarrow> string \<Rightarrow> string \<Rightarrow> nat \<Rightarrow> string option \<Rightarrow> string option \<Rightarrow> int
      \<Rightarrow> meta_error + (unit \<times> meta_store)" where
  "refresh_project_generation c s index normalized expected etag modified fetched_at = commit_driver_txn id (\<lambda>txn.
     rbind (decode_project_meta_state c (txn_get txn (project_meta_key index normalized))) (\<lambda>p.
       case pub_active p of
         Some a \<Rightarrow>
           if pgn_generation a = expected then
             let a = (if etag \<noteq> None then a\<lparr>pgn_etag := etag\<rparr> else a);
                 a = (if modified \<noteq> None then a\<lparr>pgn_last_modified := modified\<rparr> else a);
                 a = a\<lparr>pgn_fetched_at_unix := fetched_at\<rparr>
             in Inr (((), []), store_project_meta_state c txn index normalized (p\<lparr>pub_active := Some a\<rparr>))
           else Inl (DriverPrecondition ''project changed during revalidation'')
       | None \<Rightarrow> Inl (DriverPrecondition ''project changed during revalidation''))) s"

definition list_project_files ::
    "project_generation publication codec \<Rightarrow> (bytes \<Rightarrow> pypi_file option) \<Rightarrow> meta_store \<Rightarrow> string \<Rightarrow> string \<Rightarrow> meta_error + pypi_file list" where
  "list_project_files c of_json s index normalized =
     rbind (active_project_generation c s index normalized) (\<lambda>active. case active of
         None \<Rightarrow> Inr []
       | Some a \<Rightarrow> collect_results (map (\<lambda>key. ok_or Decode (Option.bind (get_driver_value s key) of_json))
           (driver_prefix_keys s (project_generation_prefix index normalized (pgn_generation a)))))"

section \<open>Catalog generations\<close>

definition catalog_key :: "string \<Rightarrow> string" where
  "catalog_key index = CATALOG_PREFIX @ index"

definition catalog_generation_prefix :: "string \<Rightarrow> nat \<Rightarrow> string" where
  "catalog_generation_prefix index generation = CATALOG_GENERATION_PREFIX @ index @ ''/'' @ dec20 generation @ ''/''"

definition catalog_project_key :: "string \<Rightarrow> nat \<Rightarrow> string \<Rightarrow> string" where
  "catalog_project_key index generation normalized = catalog_generation_prefix index generation @ normalized"

definition decode_catalog_state ::
    "catalog_generation publication codec \<Rightarrow> bytes option \<Rightarrow> meta_error + catalog_generation publication" where
  "decode_catalog_state c raw = (case raw of None \<Rightarrow> Inr publication_default | Some b \<Rightarrow> ok_or Decode (dec c b))"

definition catalog_state :: "catalog_generation publication codec \<Rightarrow> meta_store \<Rightarrow> string \<Rightarrow> meta_error + catalog_generation publication" where
  "catalog_state c s index = decode_catalog_state c (get_driver_value s (catalog_key index))"

definition store_catalog_state ::
    "catalog_generation publication codec \<Rightarrow> driver_txn \<Rightarrow> string \<Rightarrow> catalog_generation publication \<Rightarrow> driver_txn" where
  "store_catalog_state c txn index p = txn_put_local txn (catalog_key index) (enc c p)"

definition delete_catalog_rows :: "history \<Rightarrow> string \<Rightarrow> nat \<Rightarrow> history" where
  "delete_catalog_rows h index generation = delete_prefix_rows h (catalog_generation_prefix index generation)"

definition settle_catalog_generations ::
    "catalog_generation publication codec \<Rightarrow> meta_store \<Rightarrow> string \<Rightarrow> catalog_generation publication \<Rightarrow> meta_error + (unit \<times> meta_store)" where
  "settle_catalog_generations c s index p = commit_driver_txn id (\<lambda>txn.
     rbind (decode_catalog_state c (txn_get txn (catalog_key index))) (\<lambda>current.
       let current = (if pub_staging current = pub_staging p then current\<lparr>pub_staging := None\<rparr> else current);
           current = (if pub_retired current = pub_retired p then current\<lparr>pub_retired := None\<rparr> else current)
       in Inr (((), []), store_catalog_state c txn index current))) s"

definition recover_catalog_generations ::
    "catalog_generation publication codec \<Rightarrow> history \<Rightarrow> string \<Rightarrow> history \<times> (meta_error + unit)" where
  "recover_catalog_generations c h index = (case catalog_state c (hd h) index of
      Inl e \<Rightarrow> (h, Inl e)
    | Inr p \<Rightarrow>
        let h = fold (\<lambda>generation h. delete_catalog_rows h index generation) (flatten_generations [pub_staging p, pub_retired p]) h
        in push h (settle_catalog_generations c (hd h) index p))"

definition begin_catalog_generation ::
    "catalog_generation publication codec \<Rightarrow> meta_store \<Rightarrow> string \<Rightarrow> meta_error + ((nat \<times> nat option) \<times> meta_store)" where
  "begin_catalog_generation c s index = commit_driver_txn id (\<lambda>txn.
     rbind (decode_catalog_state c (txn_get txn (catalog_key index))) (\<lambda>p.
       let expected = map_option cgn_generation (pub_active p);
           next = bump_u64 (pub_next_generation p);
           p = p\<lparr>pub_next_generation := next, pub_staging := Some next\<rparr>
       in Inr (((next, expected), []), store_catalog_state c txn index p))) s"

definition stage_project :: "string \<Rightarrow> nat \<Rightarrow> string \<times> string \<Rightarrow> nat \<times> driver_txn \<Rightarrow> nat \<times> driver_txn" where
  "stage_project index generation project acc = (case (project, acc) of ((normalized, display), (inserted, txn)) \<Rightarrow>
     let key = catalog_project_key index generation normalized
     in case txn_get txn key of
          None \<Rightarrow> (Suc inserted, txn_put_local txn key display)
        | Some current \<Rightarrow> if display < current then (inserted, txn_put_local txn key display) else (inserted, txn))"

definition put_catalog_projects ::
    "catalog_generation publication codec \<Rightarrow> meta_store \<Rightarrow> string \<Rightarrow> nat \<Rightarrow> (string \<times> string) list \<Rightarrow> meta_error + (nat \<times> meta_store)" where
  "put_catalog_projects c s index generation entries = commit_driver_txn id (\<lambda>txn.
     rbind (decode_catalog_state c (txn_get txn (catalog_key index))) (\<lambda>p.
       if pub_staging p \<noteq> Some generation then Inl (DriverPrecondition ''catalog generation is not staging'')
       else let (inserted, txn) = fold (stage_project index generation) entries (0, txn) in Inr ((inserted, []), txn))) s"

definition publish_catalog_generation ::
    "catalog_generation publication codec \<Rightarrow> meta_store \<Rightarrow> string \<Rightarrow> nat option \<Rightarrow> catalog_generation \<Rightarrow> meta_error + (unit \<times> meta_store)" where
  "publish_catalog_generation c s index expected_active generation =
     commit_driver_txn_with_catalog_generation id index (cgn_generation generation) (\<lambda>txn.
     rbind (decode_catalog_state c (txn_get txn (catalog_key index))) (\<lambda>p.
       if pub_staging p \<noteq> Some (cgn_generation generation) \<or> map_option cgn_generation (pub_active p) \<noteq> expected_active
       then Inl (DriverPrecondition ''catalog publication lost its reservation'')
       else let p = p\<lparr>pub_retired := map_option cgn_generation (pub_active p), pub_active := Some generation, pub_staging := None\<rparr>
            in Inr (((), []), store_catalog_state c txn index p))) s"

definition forget_catalog_generation ::
    "catalog_generation publication codec \<Rightarrow> meta_store \<Rightarrow> string \<Rightarrow> nat \<Rightarrow> meta_error + (unit \<times> meta_store)" where
  "forget_catalog_generation c s index generation = commit_driver_txn id (\<lambda>txn.
     rbind (decode_catalog_state c (txn_get txn (catalog_key index))) (\<lambda>p.
       Inr (((), []), if pub_staging p = Some generation then store_catalog_state c txn index (p\<lparr>pub_staging := None\<rparr>) else txn))) s"

definition abort_catalog_generation ::
    "catalog_generation publication codec \<Rightarrow> history \<Rightarrow> string \<Rightarrow> nat \<Rightarrow> history \<times> (meta_error + unit)" where
  "abort_catalog_generation c h index generation =
     (let h = delete_catalog_rows h index generation in push h (forget_catalog_generation c (hd h) index generation))"

definition refresh_catalog_generation ::
    "catalog_generation publication codec \<Rightarrow> meta_store \<Rightarrow> string \<Rightarrow> nat \<Rightarrow> string option \<Rightarrow> string option \<Rightarrow> int
      \<Rightarrow> meta_error + (unit \<times> meta_store)" where
  "refresh_catalog_generation c s index expected etag modified fetched_at = commit_driver_txn id (\<lambda>txn.
     rbind (decode_catalog_state c (txn_get txn (catalog_key index))) (\<lambda>p.
       case pub_active p of
         Some a \<Rightarrow>
           if cgn_generation a = expected then
             let a = (if etag \<noteq> None then a\<lparr>cgn_etag := etag\<rparr> else a);
                 a = (if modified \<noteq> None then a\<lparr>cgn_last_modified := modified\<rparr> else a);
                 a = a\<lparr>cgn_fetched_at_unix := fetched_at\<rparr>
             in Inr (((), []), store_catalog_state c txn index (p\<lparr>pub_active := Some a\<rparr>))
           else Inl (DriverPrecondition ''catalog changed during revalidation'')
       | None \<Rightarrow> Inl (DriverPrecondition ''catalog changed during revalidation''))) s"

section \<open>Observed projects\<close>

definition put_project :: "meta_store \<Rightarrow> string \<Rightarrow> string \<Rightarrow> string \<Rightarrow> meta_store" where
  "put_project s index normalized display = put_driver_value s (project_key index normalized) display"

definition get_project :: "meta_store \<Rightarrow> string \<Rightarrow> string \<Rightarrow> string option" where
  "get_project s index normalized = utf8_value s (project_key index normalized)"

definition scan_project_records :: "meta_store \<Rightarrow> (string \<Rightarrow> string \<Rightarrow> 'a \<Rightarrow> 'e + 'a) \<Rightarrow> 'a \<Rightarrow> 'e + 'a" where
  "scan_project_records s visit a = visit_rows visit (utf8_rows s PROJECTS_PREFIX) a"

text \<open>Observed spellings take the place of the catalog's; the rest of both follows; the list is sorted.\<close>

definition list_projects :: "catalog_generation publication codec \<Rightarrow> meta_store \<Rightarrow> string \<Rightarrow> meta_error + string list" where
  "list_projects c s index =
     (let prefix = PROJECTS_PREFIX @ index @ ''/'';
          local = visit_driver_prefix s prefix (\<lambda>key raw m. if valid_utf8 raw then t_insert m (drop (length prefix) key) raw else m) []
      in rbind (catalog_state c s index) (\<lambda>p.
         let (names, local) = (case pub_active p of
               None \<Rightarrow> ([], local)
             | Some a \<Rightarrow>
                 let catalog_prefix = catalog_generation_prefix index (cgn_generation a)
                 in visit_driver_prefix s catalog_prefix (\<lambda>key raw (names, local).
                      let name = drop (length catalog_prefix) key
                      in case t_get local name of
                           Some display \<Rightarrow> (names @ [display], t_remove local name)
                         | None \<Rightarrow> (if valid_utf8 raw then names @ [raw] else names, local)) ([], local))
         in Inr (sort (names @ map snd local))))"

record purge_counts =
  pu_index_pages :: nat
  pu_project_records :: nat
  pu_project_status_records :: nat
  pu_file_url_records :: nat
  pu_metadata_records :: nat
  pu_provenance_records :: nat

definition present_rows :: "meta_store \<Rightarrow> string list \<Rightarrow> nat" where
  "present_rows s keys = length (filter (\<lambda>k. get_driver_value s k \<noteq> None) keys)"

definition count_project_cache_purge :: "meta_store \<Rightarrow> string \<Rightarrow> string \<Rightarrow> string list \<Rightarrow> string list \<Rightarrow> purge_counts" where
  "count_project_cache_purge s index normalized file_digests metadata_digests =
     \<lparr>pu_index_pages = present_rows s [index_key (index @ ''/'' @ normalized)],
      pu_project_records = present_rows s [project_key index normalized],
      pu_project_status_records = present_rows s [project_status_key index normalized],
      pu_file_url_records = present_rows s (map file_key file_digests),
      pu_metadata_records = present_rows s (map metadata_key metadata_digests),
      pu_provenance_records = present_rows s (map provenance_key file_digests)\<rparr>"

definition delete_project_cache ::
    "meta_store \<Rightarrow> string \<Rightarrow> string \<Rightarrow> string list \<Rightarrow> string list \<Rightarrow> purge_counts \<times> meta_store" where
  "delete_project_cache s index normalized file_digests metadata_digests =
     (count_project_cache_purge s index normalized file_digests metadata_digests,
      delete_keys s ([index_key (index @ ''/'' @ normalized), freshness_key (index @ ''/'' @ normalized), project_key index normalized,
        project_status_key index normalized] @ map file_key file_digests @ map metadata_key metadata_digests @ map provenance_key file_digests))"

section \<open>The protocol\<close>

definition pub_ok :: "('g \<Rightarrow> nat) \<Rightarrow> 'g publication \<Rightarrow> bool" where
  "pub_ok gen p \<longleftrightarrow> pub_next_generation p \<le> u64_max
     \<and> (case pub_active p of None \<Rightarrow> True | Some a \<Rightarrow> gen a \<le> pub_next_generation p)
     \<and> (case pub_staging p of None \<Rightarrow> True | Some g \<Rightarrow> g \<le> pub_next_generation p
          \<and> (case pub_active p of None \<Rightarrow> True | Some a \<Rightarrow> gen a < g))
     \<and> (case pub_retired p of None \<Rightarrow> True | Some r \<Rightarrow> r \<le> pub_next_generation p \<and> map_option gen (pub_active p) \<noteq> Some r)"

text \<open>Stores are extended without a reader noticing.\<close>

definition extends_quietly :: "(meta_store \<Rightarrow> bool) \<Rightarrow> (meta_store \<Rightarrow> 'v) \<Rightarrow> history \<Rightarrow> history \<Rightarrow> bool" where
  "extends_quietly pinv view h h' \<longleftrightarrow> (\<exists>new. h' = new @ h \<and> (\<forall>s \<in> set new. pinv s \<and> view s = view (hd h)))"

lemma quiet_refl [simp]: "extends_quietly pinv view h h"
  by (simp add: extends_quietly_def)

lemma quiet_hd: "extends_quietly pinv view h h' \<Longrightarrow> h \<noteq> [] \<Longrightarrow> pinv (hd h) \<Longrightarrow> h' \<noteq> [] \<and> pinv (hd h') \<and> view (hd h') = view (hd h)"
  unfolding extends_quietly_def by (metis append_is_Nil_conv hd_append hd_in_set)

lemma quiet_trans:
  assumes "extends_quietly pinv view h h1" "extends_quietly pinv view h1 h2" "h \<noteq> []" "pinv (hd h)"
  shows "extends_quietly pinv view h h2"
proof -
  have "view (hd h1) = view (hd h)" using quiet_hd [OF assms(1,3,4)] by simp
  with assms(1,2) show ?thesis unfolding extends_quietly_def by auto
qed

lemma quiet_push: "pinv s \<Longrightarrow> view s = view (hd h) \<Longrightarrow> extends_quietly pinv view h (s # h)"
  unfolding extends_quietly_def by (intro exI [of _ "[s]"]) simp

locale staged_publication =
  fixes ok :: "meta_store \<Rightarrow> bool"
    and state :: "meta_store \<Rightarrow> meta_error + 'g publication"
    and rows :: "meta_store \<Rightarrow> nat \<Rightarrow> string \<Rightarrow> bytes option"
    and gen :: "'g \<Rightarrow> nat"
    and stage :: "'x \<Rightarrow> (string \<Rightarrow> bytes option) \<Rightarrow> string \<Rightarrow> bytes option"
    and begin_op :: "meta_store \<Rightarrow> meta_error + ((nat \<times> nat option) \<times> meta_store)"
    and put_op :: "meta_store \<Rightarrow> nat \<Rightarrow> 'x \<Rightarrow> meta_error + (nat \<times> meta_store)"
    and publish_op :: "meta_store \<Rightarrow> nat option \<Rightarrow> 'g \<Rightarrow> meta_error + (unit \<times> meta_store)"
    and settle_op :: "meta_store \<Rightarrow> 'g publication \<Rightarrow> meta_error + (unit \<times> meta_store)"
    and forget_op :: "meta_store \<Rightarrow> nat \<Rightarrow> meta_error + (unit \<times> meta_store)"
    and drop_op :: "history \<Rightarrow> nat \<Rightarrow> history"
    and recover :: "history \<Rightarrow> history \<times> (meta_error + unit)"
    and abort :: "history \<Rightarrow> nat \<Rightarrow> history \<times> (meta_error + unit)"
  assumes begin_law: "ok s \<Longrightarrow> state s = Inr p \<Longrightarrow> \<exists>s'. begin_op s = Inr ((bump_u64 (pub_next_generation p), map_option gen (pub_active p)), s')
        \<and> ok s' \<and> rows s' = rows s
        \<and> state s' = Inr (p\<lparr>pub_next_generation := bump_u64 (pub_next_generation p), pub_staging := Some (bump_u64 (pub_next_generation p))\<rparr>)"
    and put_law: "ok s \<Longrightarrow> state s = Inr p \<Longrightarrow> pub_staging p = Some g \<Longrightarrow> g \<le> u64_max \<Longrightarrow> \<exists>n s'. put_op s g x = Inr (n, s') \<and> ok s' \<and> state s' = Inr p
        \<and> rows s' g = stage x (rows s g) \<and> (\<forall>g'. g' \<le> u64_max \<longrightarrow> g' \<noteq> g \<longrightarrow> rows s' g' = rows s g')"
    and put_refused: "ok s \<Longrightarrow> state s = Inr p \<Longrightarrow> pub_staging p \<noteq> Some g \<Longrightarrow> \<exists>e. put_op s g x = Inl e"
    and publish_law: "ok s \<Longrightarrow> state s = Inr p \<Longrightarrow> pub_staging p = Some (gen a) \<Longrightarrow> map_option gen (pub_active p) = expected \<Longrightarrow>
        \<exists>s'. publish_op s expected a = Inr ((), s') \<and> ok s' \<and> rows s' = rows s
        \<and> state s' = Inr (p\<lparr>pub_retired := map_option gen (pub_active p), pub_active := Some a, pub_staging := None\<rparr>)"
    and publish_refused: "ok s \<Longrightarrow> state s = Inr p \<Longrightarrow> pub_staging p \<noteq> Some (gen a) \<or> map_option gen (pub_active p) \<noteq> expected \<Longrightarrow>
        \<exists>e. publish_op s expected a = Inl e"
    and settle_law: "ok s \<Longrightarrow> state s = Inr p \<Longrightarrow> \<exists>s'. settle_op s p = Inr ((), s') \<and> ok s' \<and> rows s' = rows s
        \<and> state s' = Inr (p\<lparr>pub_staging := None, pub_retired := None\<rparr>)"
    and forget_law: "ok s \<Longrightarrow> state s = Inr p \<Longrightarrow> \<exists>s'. forget_op s g = Inr ((), s') \<and> ok s' \<and> rows s' = rows s
        \<and> state s' = Inr (if pub_staging p = Some g then p\<lparr>pub_staging := None\<rparr> else p)"
    and drop_law: "h \<noteq> [] \<Longrightarrow> ok (hd h) \<Longrightarrow> g \<le> u64_max \<Longrightarrow> \<exists>new. drop_op h g = new @ h \<and> rows (hd (drop_op h g)) g = Map.empty
        \<and> (\<forall>s \<in> set new. ok s \<and> state s = state (hd h) \<and> (\<forall>g'. g' \<le> u64_max \<longrightarrow> g' \<noteq> g \<longrightarrow> rows s g' = rows (hd h) g')
             \<and> rows s g \<subseteq>\<^sub>m rows (hd h) g)"
    and recover_eq: "recover h = (case state (hd h) of Inl e \<Rightarrow> (h, Inl e)
        | Inr p \<Rightarrow> (let h = fold (\<lambda>g h. drop_op h g) (flatten_generations [pub_staging p, pub_retired p]) h in push h (settle_op (hd h) p)))"
    and abort_eq: "abort h g = (let h = drop_op h g in push h (forget_op (hd h) g))"
begin

definition view :: "meta_store \<Rightarrow> 'g option \<times> (string \<Rightarrow> bytes option)" where
  "view s = (case state s of Inl e \<Rightarrow> (None, Map.empty)
     | Inr p \<Rightarrow> (pub_active p, case pub_active p of None \<Rightarrow> Map.empty | Some a \<Rightarrow> rows s (gen a)))"

definition pinv :: "meta_store \<Rightarrow> bool" where
  "pinv s \<longleftrightarrow> ok s \<and> (\<exists>p. state s = Inr p \<and> pub_ok gen p \<and> (\<forall>g. pub_next_generation p < g \<longrightarrow> g \<le> u64_max \<longrightarrow> rows s g = Map.empty))"

lemma pinvE:
  assumes "pinv s"
  obtains p where "ok s" "state s = Inr p" "pub_ok gen p" "\<And>g. pub_next_generation p < g \<Longrightarrow> g \<le> u64_max \<Longrightarrow> rows s g = Map.empty"
  using assms unfolding pinv_def by blast

lemma pub_ok_bounds:
  assumes "pub_ok gen p"
  shows "pub_active p = Some a \<Longrightarrow> gen a \<le> u64_max" "pub_staging p = Some g \<Longrightarrow> g \<le> u64_max \<and> map_option gen (pub_active p) \<noteq> Some g"
    "pub_retired p = Some r \<Longrightarrow> r \<le> u64_max \<and> map_option gen (pub_active p) \<noteq> Some r"
  using assms by (auto simp: pub_ok_def split: option.splits)

lemma begin_quiet:
  assumes "pinv s" "state s = Inr p" "pub_next_generation p < u64_max"
  shows "\<exists>s'. begin_op s = Inr ((Suc (pub_next_generation p), map_option gen (pub_active p)), s') \<and> pinv s' \<and> view s' = view s
    \<and> state s' = Inr (p\<lparr>pub_next_generation := Suc (pub_next_generation p), pub_staging := Some (Suc (pub_next_generation p))\<rparr>)
    \<and> rows s' (Suc (pub_next_generation p)) = Map.empty"
proof -
  have ok: "ok s" "pub_ok gen p" "\<And>g. pub_next_generation p < g \<Longrightarrow> g \<le> u64_max \<Longrightarrow> rows s g = Map.empty"
    using assms(1,2) by (auto elim!: pinvE)
  have b: "bump_u64 (pub_next_generation p) = Suc (pub_next_generation p)"
    using assms(3) by (simp add: bump_u64_def u64_max_def)
  obtain s' where s': "begin_op s = Inr ((Suc (pub_next_generation p), map_option gen (pub_active p)), s')" "ok s'" "rows s' = rows s"
    "state s' = Inr (p\<lparr>pub_next_generation := Suc (pub_next_generation p), pub_staging := Some (Suc (pub_next_generation p))\<rparr>)"
    using begin_law [OF ok(1) assms(2)] unfolding b by blast
  have "pinv s'" unfolding pinv_def using s' ok assms(3)
    by (auto simp: pub_ok_def split: option.splits)
  with s' ok(3) assms show ?thesis by (auto simp: view_def split: option.split)
qed

lemma put_quiet:
  assumes "pinv s" "state s = Inr p" "pub_staging p = Some g"
  shows "\<exists>n s'. put_op s g x = Inr (n, s') \<and> pinv s' \<and> view s' = view s \<and> state s' = Inr p \<and> rows s' g = stage x (rows s g)"
proof -
  have ok: "ok s" "pub_ok gen p" "\<And>g. pub_next_generation p < g \<Longrightarrow> g \<le> u64_max \<Longrightarrow> rows s g = Map.empty"
    using assms(1,2) by (auto elim!: pinvE)
  have g: "g \<le> u64_max" "map_option gen (pub_active p) \<noteq> Some g" using pub_ok_bounds(2) [OF ok(2) assms(3)] by auto
  obtain n s' where s': "put_op s g x = Inr (n, s')" "ok s'" "state s' = Inr p" "rows s' g = stage x (rows s g)"
    "\<And>g'. g' \<le> u64_max \<Longrightarrow> g' \<noteq> g \<Longrightarrow> rows s' g' = rows s g'"
    using put_law [OF ok(1) assms(2,3) g(1), of x] by blast
  have "g \<le> pub_next_generation p" using ok(2) assms(3) by (auto simp: pub_ok_def)
  then have "pinv s'" unfolding pinv_def using s'(2,3,5) ok(2,3) by (intro conjI exI [of _ p]) auto
  moreover have "view s' = view s"
    using s'(3,5) assms(2) g(2) pub_ok_bounds(1) [OF ok(2)] by (auto simp: view_def split: option.splits)
  ultimately show ?thesis using s' by blast
qed

lemma publish_visible:
  assumes "pinv s" "state s = Inr p" "pub_staging p = Some (gen a)" "map_option gen (pub_active p) = expected"
  shows "\<exists>s'. publish_op s expected a = Inr ((), s') \<and> pinv s' \<and> view s' = (Some a, rows s (gen a))"
proof -
  have ok: "ok s" "pub_ok gen p" "\<And>g. pub_next_generation p < g \<Longrightarrow> g \<le> u64_max \<Longrightarrow> rows s g = Map.empty"
    using assms(1,2) by (auto elim!: pinvE)
  obtain s' where s': "publish_op s expected a = Inr ((), s')" "ok s'" "rows s' = rows s"
    "state s' = Inr (p\<lparr>pub_retired := map_option gen (pub_active p), pub_active := Some a, pub_staging := None\<rparr>)"
    using publish_law [OF ok(1) assms(2,3,4)] by blast
  have "pinv s'" unfolding pinv_def using s' ok assms(3) by (auto simp: pub_ok_def split: option.splits)
  with s' show ?thesis by (auto simp: view_def split: option.split)
qed

text \<open>Dropping the rows of a generation that is not the active one.\<close>

lemma drop_quiet:
  assumes "h \<noteq> []" "pinv (hd h)" "state (hd h) = Inr p" "g \<le> u64_max" "map_option gen (pub_active p) \<noteq> Some g"
  shows "extends_quietly pinv view h (drop_op h g) \<and> state (hd (drop_op h g)) = Inr p"
proof -
  have ok: "ok (hd h)" "pub_ok gen p" "\<And>g. pub_next_generation p < g \<Longrightarrow> g \<le> u64_max \<Longrightarrow> rows (hd h) g = Map.empty"
    using assms(2,3) by (auto elim!: pinvE)
  obtain new where new: "drop_op h g = new @ h" and each: "\<And>s. s \<in> set new \<Longrightarrow> ok s \<and> state s = state (hd h)
      \<and> (\<forall>g'. g' \<le> u64_max \<longrightarrow> g' \<noteq> g \<longrightarrow> rows s g' = rows (hd h) g') \<and> rows s g \<subseteq>\<^sub>m rows (hd h) g"
    using drop_law [OF assms(1) ok(1) assms(4)] by blast
  have "pinv s \<and> view s = view (hd h)" if "s \<in> set new" for s
  proof -
    have s: "ok s" "state s = Inr p" "\<And>g'. g' \<le> u64_max \<Longrightarrow> g' \<noteq> g \<Longrightarrow> rows s g' = rows (hd h) g'" "rows s g \<subseteq>\<^sub>m rows (hd h) g"
      using each [OF that] assms(3) by auto
    have "rows s g' = Map.empty" if "pub_next_generation p < g'" "g' \<le> u64_max" for g'
      using s(3) [of g'] s(4) ok(3) [OF that] that(2) by (cases "g' = g") (auto simp: map_le_def)
    then have "pinv s" unfolding pinv_def using s(1,2) ok(2) by blast
    moreover have "view s = view (hd h)"
      using s(2,3) assms(3,5) pub_ok_bounds(1) [OF ok(2)] by (auto simp: view_def split: option.splits)
    ultimately show ?thesis ..
  qed
  moreover have "state (hd (drop_op h g)) = Inr p"
    using new each assms(3) by (cases new) auto
  ultimately show ?thesis using new by (auto simp: extends_quietly_def)
qed

lemma drops_quiet:
  assumes "h \<noteq> []" "pinv (hd h)" "state (hd h) = Inr p" "\<forall>g \<in> set gs. g \<le> u64_max \<and> map_option gen (pub_active p) \<noteq> Some g"
  shows "extends_quietly pinv view h (fold (\<lambda>g h. drop_op h g) gs h) \<and> state (hd (fold (\<lambda>g h. drop_op h g) gs h)) = Inr p"
  using assms
proof (induction gs arbitrary: h)
  case (Cons g gs)
  have d: "extends_quietly pinv view h (drop_op h g)" "state (hd (drop_op h g)) = Inr p"
    using drop_quiet [OF Cons.prems(1-3), of g] Cons.prems(4) by auto
  note h1 = quiet_hd [OF d(1) Cons.prems(1,2)]
  have "extends_quietly pinv view (drop_op h g) (fold (\<lambda>g h. drop_op h g) gs (drop_op h g))
    \<and> state (hd (fold (\<lambda>g h. drop_op h g) gs (drop_op h g))) = Inr p"
    using Cons.IH [of "drop_op h g"] h1 d(2) Cons.prems(4) by auto
  with quiet_trans [OF d(1) _ Cons.prems(1,2)] show ?case by auto
qed simp

lemma recover_quiet:
  assumes "h \<noteq> []" "pinv (hd h)"
  shows "\<exists>h' p. recover h = (h', Inr ()) \<and> extends_quietly pinv view h h' \<and> state (hd h) = Inr p
    \<and> state (hd h') = Inr (p\<lparr>pub_staging := None, pub_retired := None\<rparr>)"
proof -
  obtain p where p: "ok (hd h)" "state (hd h) = Inr p" "pub_ok gen p" using assms(2) by (rule pinvE)
  let ?gs = "flatten_generations [pub_staging p, pub_retired p]"
  have "\<forall>g \<in> set ?gs. g \<le> u64_max \<and> map_option gen (pub_active p) \<noteq> Some g"
    using pub_ok_bounds(2,3) [OF p(3)] by (cases "pub_staging p"; cases "pub_retired p") (auto simp: flatten_generations_def List.map_filter_def)
  note d = drops_quiet [OF assms p(2) this]
  let ?h1 = "fold (\<lambda>g h. drop_op h g) ?gs h"
  note h1 = quiet_hd [OF conjunct1 [OF d] assms]
  have ok1: "ok (hd ?h1)" "\<And>g. pub_next_generation p < g \<Longrightarrow> g \<le> u64_max \<Longrightarrow> rows (hd ?h1) g = Map.empty"
    using h1 d by (auto elim!: pinvE)
  obtain s' where s': "settle_op (hd ?h1) p = Inr ((), s')" "ok s'" "rows s' = rows (hd ?h1)"
    "state s' = Inr (p\<lparr>pub_staging := None, pub_retired := None\<rparr>)"
    using settle_law [OF ok1(1)] d by blast
  have "pinv s'" unfolding pinv_def using s'(2-4) p(3) ok1(2) by (auto simp: pub_ok_def split: option.splits)
  moreover have "view s' = view (hd ?h1)" using s'(3,4) d by (auto simp: view_def split: option.split)
  ultimately have "extends_quietly pinv view ?h1 (s' # ?h1)" by (rule quiet_push)
  then have "extends_quietly pinv view h (s' # ?h1)" by (rule quiet_trans [OF conjunct1 [OF d] _ assms])
  then show ?thesis
    using s'(1,4) p(2) by (intro exI [of _ "s' # ?h1"] exI [of _ p]) (simp add: recover_eq push_def)
qed

lemma abort_quiet:
  assumes "h \<noteq> []" "pinv (hd h)" "state (hd h) = Inr p" "pub_staging p = Some g"
  shows "\<exists>h'. abort h g = (h', Inr ()) \<and> extends_quietly pinv view h h'"
proof -
  have ok: "ok (hd h)" "pub_ok gen p" using assms(2,3) by (auto elim!: pinvE)
  note d = drop_quiet [OF assms(1-3), of g]
  have dq: "extends_quietly pinv view h (drop_op h g)" "state (hd (drop_op h g)) = Inr p"
    using d pub_ok_bounds(2) [OF ok(2) assms(4)] by auto
  note h1 = quiet_hd [OF dq(1) assms(1,2)]
  have ok1: "ok (hd (drop_op h g))" "\<And>g'. pub_next_generation p < g' \<Longrightarrow> g' \<le> u64_max \<Longrightarrow> rows (hd (drop_op h g)) g' = Map.empty"
    using h1 dq(2) by (auto elim!: pinvE)
  obtain s' where s': "forget_op (hd (drop_op h g)) g = Inr ((), s')" "ok s'" "rows s' = rows (hd (drop_op h g))"
    "state s' = Inr (p\<lparr>pub_staging := None\<rparr>)"
    using forget_law [OF ok1(1) dq(2), of g] assms(4) by auto
  have "pinv s'" unfolding pinv_def using s'(2-4) ok(2) ok1(2) by (auto simp: pub_ok_def split: option.splits)
  moreover have "view s' = view (hd (drop_op h g))" using s'(3,4) dq(2) by (auto simp: view_def split: option.split)
  ultimately have "extends_quietly pinv view h (s' # drop_op h g)"
    by (intro quiet_trans [OF dq(1) quiet_push assms(1,2)])
  then show ?thesis using s'(1) by (auto simp: abort_eq push_def Let_def)
qed

end

end
