(* ===== verification/PypiPublish.thy ===== *)
theory PypiPublish
  imports PypiGenerations
begin

text \<open>
  The two publications of the PyPI store satisfy the contract \<open>staged_publication\<close>: the remote files of a
  project (\<open>pg\<close>, \<open>store/index.rs\<close>) and the catalog of an index (\<open>cg\<close>, \<open>store/projects.rs\<close>). The lemmas before
  each interpretation evaluate its transactions: what the state row becomes, which rows of which generation
  change, and that dropping a generation by prefix touches that generation only.
\<close>

section \<open>Keys\<close>

lemmas pypi_keys = index_key_def freshness_key_def file_key_def metadata_key_def provenance_key_def project_key_def project_status_key_def
  project_meta_key_def project_file_key_def project_generation_prefix_def upload_key_def override_key_def catalog_key_def
  catalog_project_key_def catalog_generation_prefix_def uploads_prefix_def
  INDEX_PREFIX_def FRESHNESS_PREFIX_def FILE_PREFIX_def METADATA_PREFIX_def PROVENANCE_PREFIX_def PROJECTS_PREFIX_def CATALOG_PREFIX_def
  CATALOG_GENERATION_PREFIX_def PROJECT_META_PREFIX_def PROJECT_FILE_PREFIX_def PROJECT_STATUS_PREFIX_def UPLOAD_PREFIX_def OVERRIDE_PREFIX_def

lemma pypi_prefix_eq [simp]: "pypi_prefix [a] @ x = pypi_prefix [b] @ y \<longleftrightarrow> a = b \<and> x = y"
  by (simp add: pypi_prefix_def)

lemma dec20_cancel: "g \<le> u64_max \<Longrightarrow> g' \<le> u64_max \<Longrightarrow> dec20 g @ x = dec20 g' @ y \<longleftrightarrow> g = g' \<and> x = y"
  by (auto simp: append_eq_append_conv dec20_def dec20_inj [unfolded dec20_def])

lemma project_file_key_eq:
  "g \<le> u64_max \<Longrightarrow> g' \<le> u64_max \<Longrightarrow> project_generation_prefix i n g @ x = project_generation_prefix i n g' @ y \<longleftrightarrow> g = g' \<and> x = y"
  by (simp add: pypi_keys dec20_cancel)

lemma catalog_row_key_eq:
  "g \<le> u64_max \<Longrightarrow> g' \<le> u64_max \<Longrightarrow> catalog_generation_prefix i g @ x = catalog_generation_prefix i g' @ y \<longleftrightarrow> g = g' \<and> x = y"
  by (simp add: pypi_keys dec20_cancel)

section \<open>Deleting by prefix\<close>

lemma delete_keys_get: "get_driver_value (delete_keys s keys) k = (if k \<in> set keys then None else get_driver_value s k)"
proof -
  have "t_get (fold (\<lambda>k t. t_remove t k) keys t) k = (if k \<in> set keys then None else t_get t k)" for t :: "(string, bytes) tbl"
    by (induction keys arbitrary: t) auto
  then show ?thesis by (simp add: get_driver_value_def delete_keys_table)
qed

lemma delete_keys_wf: "t_wf (driver_kv s) \<Longrightarrow> t_wf (driver_kv (delete_keys s keys))"
  unfolding delete_keys_table by (induction keys arbitrary: s rule: rev_induct) auto

lemma limited_keys: "t_wf (driver_kv s) \<Longrightarrow> k \<in> set (driver_prefix_keys_limited s p n) \<Longrightarrow> starts_with k p"
  by (auto simp: driver_prefix_keys_limited_def prefix_scan_eq dest!: in_set_takeD)

lemma no_keys_left:
  assumes "t_wf (driver_kv s)" "driver_prefix_keys_limited s p DELETE_BATCH = []" "starts_with k p"
  shows "get_driver_value s k = None"
proof (rule ccontr)
  assume "get_driver_value s k \<noteq> None"
  then obtain v where "t_get (driver_kv s) k = Some v" by (auto simp: get_driver_value_def)
  then have "(k, v) \<in> set (driver_kv s)" by (rule t_get_mem)
  with assms(3) have "(k, v) \<in> set (prefix_scan (driver_kv s) p)" by (simp add: prefix_scan_eq [OF assms(1)])
  with assms(2) show False by (auto simp: driver_prefix_keys_limited_def DELETE_BATCH_def)
qed

text \<open>A store with fewer rows under a prefix and the other rows as they were.\<close>

definition prunes :: "string \<Rightarrow> meta_store \<Rightarrow> meta_store \<Rightarrow> bool" where
  "prunes p s s' \<longleftrightarrow> t_wf (driver_kv s') \<and> policy_input_generation_table s' = policy_input_generation_table s
     \<and> (\<forall>k. get_driver_value s' k = None \<and> starts_with k p \<or> get_driver_value s' k = get_driver_value s k)"

lemma prunes_trans: "prunes p a b \<Longrightarrow> prunes p b c \<Longrightarrow> prunes p a c"
  unfolding prunes_def by metis

lemma prunes_batch: "t_wf (driver_kv s) \<Longrightarrow> prunes p s (delete_keys s (driver_prefix_keys_limited s p n))"
  unfolding prunes_def
  by (auto simp: delete_keys_wf delete_keys_get dest: limited_keys) (simp add: delete_keys_def commit_driver_batch_def)

lemma delete_prefix_rows_ok:
  assumes "h \<noteq> []" "t_wf (driver_kv (hd h))"
  shows "\<exists>new. delete_prefix_rows h p = new @ h \<and> (\<forall>s \<in> set new. prunes p (hd h) s)
    \<and> (\<forall>k. starts_with k p \<longrightarrow> get_driver_value (hd (delete_prefix_rows h p)) k = None)"
  using assms
proof (induction h p rule: delete_prefix_rows.induct)
  case (1 h p)
  let ?keys = "driver_prefix_keys_limited (hd h) p DELETE_BATCH"
  show ?case
  proof (cases "?keys = []")
    case True
    with no_keys_left [OF "1.prems"(2) True] show ?thesis by (simp add: delete_prefix_rows.simps [of h p])
  next
    case False
    let ?s = "delete_keys (hd h) ?keys"
    have s: "prunes p (hd h) ?s" using "1.prems"(2) by (rule prunes_batch)
    have eq: "delete_prefix_rows h p = delete_prefix_rows (?s # h) p" using False by (simp add: delete_prefix_rows.simps [of h p])
    obtain new where "delete_prefix_rows (?s # h) p = new @ ?s # h" "\<forall>s \<in> set new. prunes p ?s s"
      "\<forall>k. starts_with k p \<longrightarrow> get_driver_value (hd (delete_prefix_rows (?s # h) p)) k = None"
      using "1.IH" [OF refl False] s by (auto simp: prunes_def)
    with s prunes_trans [OF s] show ?thesis unfolding eq by (intro exI [of _ "new @ [?s]"]) auto
  qed
qed

lemma map_leI: "(\<And>x. m x \<noteq> None \<Longrightarrow> m x = m' x) \<Longrightarrow> m \<subseteq>\<^sub>m m'"
  by (auto simp: map_le_def dom_def)

text \<open>Dropping one of the row families \<open>P g\<close> keeps the others and the row \<open>skey\<close> of the state.\<close>

lemma drop_rows_law:
  assumes "h \<noteq> []" "t_wf (driver_kv (hd h))"
    and "\<not> starts_with skey (P g)" "\<And>g' x. g' \<le> u64_max \<Longrightarrow> g' \<noteq> g \<Longrightarrow> \<not> starts_with (P g' @ x) (P g)"
  shows "\<exists>new. delete_prefix_rows h (P g) = new @ h \<and> (\<lambda>x. get_driver_value (hd (delete_prefix_rows h (P g))) (P g @ x)) = Map.empty
    \<and> (\<forall>s \<in> set new. t_wf (driver_kv s) \<and> policy_input_generation_table s = policy_input_generation_table (hd h)
         \<and> get_driver_value s skey = get_driver_value (hd h) skey
         \<and> (\<forall>g'. g' \<le> u64_max \<longrightarrow> g' \<noteq> g \<longrightarrow> (\<lambda>x. get_driver_value s (P g' @ x)) = (\<lambda>x. get_driver_value (hd h) (P g' @ x)))
         \<and> (\<lambda>x. get_driver_value s (P g @ x)) \<subseteq>\<^sub>m (\<lambda>x. get_driver_value (hd h) (P g @ x)))"
proof -
  obtain new where new: "delete_prefix_rows h (P g) = new @ h" "\<forall>s \<in> set new. prunes (P g) (hd h) s"
    "\<forall>k. starts_with k (P g) \<longrightarrow> get_driver_value (hd (delete_prefix_rows h (P g))) k = None"
    using delete_prefix_rows_ok [OF assms(1,2), of "P g"] by blast
  have each: "t_wf (driver_kv s)" "policy_input_generation_table s = policy_input_generation_table (hd h)"
    "get_driver_value s k = None \<or> get_driver_value s k = get_driver_value (hd h) k"
    "\<not> starts_with k (P g) \<Longrightarrow> get_driver_value s k = get_driver_value (hd h) k" if "s \<in> set new" for s k
    using new(2) that unfolding prunes_def by blast+
  have sub: "(\<lambda>x. get_driver_value s (P g @ x)) \<subseteq>\<^sub>m (\<lambda>x. get_driver_value (hd h) (P g @ x))" if "s \<in> set new" for s
    using each(3) [OF that] by (intro map_leI) (metis option.distinct(1))
  have "(\<lambda>x. get_driver_value s (P g' @ x)) = (\<lambda>x. get_driver_value (hd h) (P g' @ x))"
    if "s \<in> set new" "g' \<le> u64_max" "g' \<noteq> g" for s g'
    using each(4) [OF that(1)] assms(4) [OF that(2,3)] by auto
  moreover have "(\<lambda>x. get_driver_value (hd (delete_prefix_rows h (P g))) (P g @ x)) = Map.empty"
    using new(3) by (simp add: starts_with_iff fun_eq_iff)
  ultimately show ?thesis using new(1) each assms(3) sub by (intro exI [of _ new]) simp
qed

section \<open>The project publication\<close>

lemma txn_get_open [simp]: "txn_get (open_txn s) k = get_driver_value s k"
  by (simp add: txn_get_def open_txn_def get_driver_value_def)

lemma put_local_open: "dt_table (txn_put_local (open_txn s) k v) = t_insert (driver_kv s) k v"
  by (simp add: txn_put_local_def open_txn_def)

abbreviation with_row :: "meta_store \<Rightarrow> string \<Rightarrow> bytes \<Rightarrow> meta_store" where
  "with_row s k v \<equiv> s\<lparr>driver_kv := t_insert (driver_kv s) k v\<rparr>"

lemma get_with_row [simp]: "get_driver_value (with_row s k v) k' = (if k' = k then Some v else get_driver_value s k')"
  by (simp add: get_driver_value_def)

definition stage_files :: "(pypi_file \<Rightarrow> bytes) \<Rightarrow> pypi_file list \<Rightarrow> (string \<Rightarrow> bytes option) \<Rightarrow> string \<Rightarrow> bytes option" where
  "stage_files to_json files m = fold (\<lambda>f m. if m (fl_filename f) \<noteq> None then m else m(fl_filename f \<mapsto> to_json f)) files m"

lemma project_state_written:
  "codec_ok c \<Longrightarrow> project_meta_state c (with_row s (project_meta_key i n) (enc c p)) i n = Inr p"
  by (simp add: project_meta_state_def decode_project_meta_state_def codec_ok_def)

lemma meta_key_not_row: "project_meta_key i n \<noteq> project_generation_prefix i' n' g @ x" "project_meta_key i n \<noteq> file_key d" "project_meta_key i n \<noteq> metadata_key d"
  "project_generation_prefix i' n' g @ x \<noteq> file_key d" "project_generation_prefix i' n' g @ x \<noteq> metadata_key d"
  by (simp_all add: pypi_keys)

lemma begin_project_eq:
  assumes "project_meta_state c s i n = Inr p"
  shows "begin_project_generation c s i n = Inr ((bump_u64 (pub_next_generation p), map_option pgn_generation (pub_active p)),
    with_row s (project_meta_key i n) (enc c (p\<lparr>pub_next_generation := bump_u64 (pub_next_generation p),
      pub_staging := Some (bump_u64 (pub_next_generation p))\<rparr>)))"
  unfolding begin_project_generation_def using assms
  by (subst commit_plain) (auto simp: project_meta_state_def Let_def store_project_meta_state_def put_local_open)

lemma publish_project_eq:
  assumes "project_meta_state c s i n = Inr p"
  shows "publish_project_generation c s i n expected a =
    (if pub_staging p \<noteq> Some (pgn_generation a) \<or> map_option pgn_generation (pub_active p) \<noteq> expected
     then Inl (DriverPrecondition ''project publication lost its reservation'')
     else Inr ((), with_row s (project_meta_key i n) (enc c (p\<lparr>pub_retired := map_option pgn_generation (pub_active p),
       pub_active := Some a, pub_staging := None\<rparr>))))"
proof (cases "pub_staging p \<noteq> Some (pgn_generation a) \<or> map_option pgn_generation (pub_active p) \<noteq> expected")
  case True
  with assms show ?thesis
    by (simp add: publish_project_generation_def commit_driver_txn_def commit_driver_txn_at_def project_meta_state_def)
next
  case False
  with assms show ?thesis unfolding publish_project_generation_def
    by (subst commit_plain) (auto simp: project_meta_state_def Let_def store_project_meta_state_def put_local_open)
qed

lemma settle_project_eq:
  assumes "project_meta_state c s i n = Inr p"
  shows "settle_project_generations c s i n p = Inr ((), with_row s (project_meta_key i n) (enc c (p\<lparr>pub_staging := None, pub_retired := None\<rparr>)))"
  unfolding settle_project_generations_def using assms
  by (subst commit_plain) (auto simp: project_meta_state_def Let_def store_project_meta_state_def put_local_open)

lemma forget_project_eq:
  assumes "project_meta_state c s i n = Inr p"
  shows "forget_project_generation c s i n g = Inr ((), if pub_staging p = Some g
    then with_row s (project_meta_key i n) (enc c (p\<lparr>pub_staging := None\<rparr>)) else s)"
  unfolding forget_project_generation_def using assms
  by (subst commit_plain) (auto simp: project_meta_state_def store_project_meta_state_def put_local_open, simp add: open_txn_def)

lemma register_rows_get:
  "(\<And>d. k \<noteq> file_key d) \<Longrightarrow> (\<And>d. k \<noteq> metadata_key d) \<Longrightarrow> t_get (dt_table (register_file_rows txn src up f)) k = t_get (dt_table txn) k"
  "t_wf (dt_table txn) \<Longrightarrow> t_wf (dt_table (register_file_rows txn src up f))"
  by (auto simp: register_file_rows_def txn_put_local_def Let_def split: option.split core_metadata.split)

text \<open>One file: its row in the generation, unless the filename is taken, and nothing of other generations or the state.\<close>

lemma stage_file_rows:
  assumes "t_wf (dt_table txn)" "g \<le> u64_max" "stage_file to_json i n g src up f (k, txn) = (k', txn')"
  shows "t_wf (dt_table txn')" "t_get (dt_table txn') (project_meta_key i n) = t_get (dt_table txn) (project_meta_key i n)"
    "(\<lambda>x. t_get (dt_table txn') (project_file_key i n g x)) = stage_files to_json [f] (\<lambda>x. t_get (dt_table txn) (project_file_key i n g x))"
    "g' \<le> u64_max \<Longrightarrow> g' \<noteq> g \<Longrightarrow> t_get (dt_table txn') (project_file_key i n g' x) = t_get (dt_table txn) (project_file_key i n g' x)"
proof -
  let ?key = "project_file_key i n g (fl_filename f)"
  have new: "txn' = (if txn_get txn ?key \<noteq> None then txn else register_file_rows (txn_put_local txn ?key (to_json f)) src up f)"
    using assms(3) by (auto simp: stage_file_def Let_def split: if_splits)
  have row: "t_get (dt_table (register_file_rows (txn_put_local txn ?key (to_json f)) src up f)) (project_file_key i n g'' x)
    = (if g'' = g \<and> x = fl_filename f then Some (to_json f) else t_get (dt_table txn) (project_file_key i n g'' x))"
    if "g'' \<le> u64_max" for g'' x
    using that assms(2) by (simp add: register_rows_get project_file_key_def meta_key_not_row txn_put_local_def project_file_key_eq)
  show "t_wf (dt_table txn')" using assms(1) by (simp add: new register_rows_get txn_put_local_def)
  show "t_get (dt_table txn') (project_meta_key i n) = t_get (dt_table txn) (project_meta_key i n)"
    by (simp add: new register_rows_get meta_key_not_row txn_put_local_def project_file_key_def)
  show "(\<lambda>x. t_get (dt_table txn') (project_file_key i n g x)) = stage_files to_json [f] (\<lambda>x. t_get (dt_table txn) (project_file_key i n g x))"
    by (rule ext) (simp add: new row [OF assms(2)] stage_files_def txn_get_def)
  show "t_get (dt_table txn') (project_file_key i n g' x) = t_get (dt_table txn) (project_file_key i n g' x)" if "g' \<le> u64_max" "g' \<noteq> g"
    using that row [OF that(1)] by (simp add: new)
qed

lemma stage_files_append: "stage_files to_json (f # fs) m = stage_files to_json fs (stage_files to_json [f] m)"
  by (simp add: stage_files_def)

lemma stage_fold_rows:
  assumes "t_wf (dt_table txn)" "g \<le> u64_max" "fold (stage_file to_json i n g src up) files (k, txn) = (k', txn')"
  shows "t_wf (dt_table txn') \<and> t_get (dt_table txn') (project_meta_key i n) = t_get (dt_table txn) (project_meta_key i n)
    \<and> (\<lambda>x. t_get (dt_table txn') (project_file_key i n g x)) = stage_files to_json files (\<lambda>x. t_get (dt_table txn) (project_file_key i n g x))
    \<and> (\<forall>g' x. g' \<le> u64_max \<longrightarrow> g' \<noteq> g \<longrightarrow> t_get (dt_table txn') (project_file_key i n g' x) = t_get (dt_table txn) (project_file_key i n g' x))"
  using assms
proof (induction files arbitrary: k txn)
  case Nil
  then show ?case by (simp add: stage_files_def)
next
  case (Cons f files)
  obtain k1 txn1 where s1: "stage_file to_json i n g src up f (k, txn) = (k1, txn1)" by (cases "stage_file to_json i n g src up f (k, txn)")
  note one = stage_file_rows [OF Cons.prems(1,2) s1]
  have "fold (stage_file to_json i n g src up) files (k1, txn1) = (k', txn')" using Cons.prems(3) s1 by simp
  note rest = Cons.IH [OF one(1) Cons.prems(2) this]
  show ?case unfolding stage_files_append [of to_json f files] using rest one(2,3,4) by auto
qed

lemma put_project_eq:
  assumes "project_meta_state c s i n = Inr p" "t_wf (driver_kv s)" "g \<le> u64_max"
  shows "if pub_staging p \<noteq> Some g then \<exists>e. put_project_files c to_json s i n g src up files = Inl e
    else \<exists>k s'. put_project_files c to_json s i n g src up files = Inr (k, s') \<and> t_wf (driver_kv s')
      \<and> get_driver_value s' (project_meta_key i n) = get_driver_value s (project_meta_key i n)
      \<and> (\<lambda>x. get_driver_value s' (project_file_key i n g x)) = stage_files to_json files (\<lambda>x. get_driver_value s (project_file_key i n g x))
      \<and> (\<forall>g' x. g' \<le> u64_max \<longrightarrow> g' \<noteq> g \<longrightarrow> get_driver_value s' (project_file_key i n g' x) = get_driver_value s (project_file_key i n g' x))"
proof (cases "pub_staging p = Some g")
  case False
  with assms(1) show ?thesis
    by (simp add: put_project_files_def commit_driver_txn_def commit_driver_txn_at_def project_meta_state_def)
next
  case True
  obtain k txn where f: "fold (stage_file to_json i n g src up) files (0, open_txn s) = (k, txn)"
    by (cases "fold (stage_file to_json i n g src up) files (0, open_txn s)")
  have "t_wf (dt_table (open_txn s))" using assms(2) by (simp add: open_txn_def)
  note rows = stage_fold_rows [OF this assms(3) f]
  have "put_project_files c to_json s i n g src up files = Inr (k, s\<lparr>driver_kv := dt_table txn\<rparr>)"
    unfolding put_project_files_def using assms(1) True f by (subst commit_plain) (auto simp: project_meta_state_def)
  with True rows show ?thesis by (simp add: get_driver_value_def open_txn_def)
qed

lemma delete_generation_rows_law:
  assumes "h \<noteq> []" "t_wf (driver_kv (hd h))" "g \<le> u64_max"
  shows "\<exists>new. delete_generation_rows h i n g = new @ h
    \<and> (\<lambda>x. get_driver_value (hd (delete_generation_rows h i n g)) (project_file_key i n g x)) = Map.empty
    \<and> (\<forall>s \<in> set new. t_wf (driver_kv s) \<and> project_meta_state c s i n = project_meta_state c (hd h) i n
         \<and> (\<forall>g'. g' \<le> u64_max \<longrightarrow> g' \<noteq> g \<longrightarrow> (\<lambda>x. get_driver_value s (project_file_key i n g' x)) = (\<lambda>x. get_driver_value (hd h) (project_file_key i n g' x)))
         \<and> (\<lambda>x. get_driver_value s (project_file_key i n g x)) \<subseteq>\<^sub>m (\<lambda>x. get_driver_value (hd h) (project_file_key i n g x)))"
proof -
  have "\<not> starts_with (project_meta_key i n) (project_generation_prefix i n g)" "\<And>g' x. g' \<le> u64_max \<Longrightarrow> g' \<noteq> g \<Longrightarrow> \<not> starts_with (project_generation_prefix i n g' @ x) (project_generation_prefix i n g)"
    using assms(3) by (simp_all add: starts_with_iff meta_key_not_row project_file_key_eq)
  note law = drop_rows_law [where P = "project_generation_prefix i n" and g = g and skey = "project_meta_key i n", OF assms(1,2) this]
  then obtain new where new: "delete_prefix_rows h (project_generation_prefix i n g) = new @ h"
   "(\<lambda>x. get_driver_value (hd (delete_prefix_rows h (project_generation_prefix i n g))) (project_generation_prefix i n g @ x)) = Map.empty"
   and each: "\<And>s. s \<in> set new \<Longrightarrow> t_wf (driver_kv s)" "\<And>s. s \<in> set new \<Longrightarrow> get_driver_value s (project_meta_key i n) = get_driver_value (hd h) (project_meta_key i n)"
    "\<And>s g'. s \<in> set new \<Longrightarrow> g' \<le> u64_max \<Longrightarrow> g' \<noteq> g \<Longrightarrow> (\<lambda>x. get_driver_value s (project_generation_prefix i n g' @ x)) = (\<lambda>x. get_driver_value (hd h) (project_generation_prefix i n g' @ x))"
    "\<And>s. s \<in> set new \<Longrightarrow> (\<lambda>x. get_driver_value s (project_generation_prefix i n g @ x)) \<subseteq>\<^sub>m (\<lambda>x. get_driver_value (hd h) (project_generation_prefix i n g @ x))"
    by auto
  then show ?thesis unfolding project_file_key_def delete_generation_rows_def project_meta_state_def by (intro exI [of _ new]) simp
qed

interpretation pg: staged_publication
  "\<lambda>s. codec_ok c \<and> t_wf (driver_kv s)" "\<lambda>s. project_meta_state c s i n" "\<lambda>s g x. get_driver_value s (project_file_key i n g x)"
  pgn_generation "stage_files to_json" "\<lambda>s. begin_project_generation c s i n"
  "\<lambda>s g fs. put_project_files c to_json s i n g src up fs" "\<lambda>s e a. publish_project_generation c s i n e a"
  "\<lambda>s p. settle_project_generations c s i n p" "\<lambda>s g. forget_project_generation c s i n g"
  "\<lambda>h g. delete_generation_rows h i n g" "\<lambda>h. recover_project_generations c h i n" "\<lambda>h g. abort_project_generation c h i n g"
  for c i n to_json src up
proof (unfold_locales, goal_cases)
  case (1 s p)
  then show ?case by (auto simp: begin_project_eq project_state_written project_file_key_def meta_key_not_row [symmetric])
next
  case (2 s p g x)
  with put_project_eq [of c s i n p g to_json src up x] show ?case by (auto simp: project_meta_state_def fun_eq_iff)
next
  case (3 s p g x)
  then show ?case by (auto simp: put_project_files_def commit_driver_txn_def commit_driver_txn_at_def project_meta_state_def)
next
  case (4 s p a e)
  then show ?case by (auto simp: publish_project_eq project_state_written project_file_key_def meta_key_not_row [symmetric])
next
  case (5 s p a e)
  then show ?case by (auto simp: publish_project_eq)
next
  case (6 s p)
  then show ?case by (auto simp: settle_project_eq project_state_written project_file_key_def meta_key_not_row [symmetric])
next
  case (7 s p g)
  then show ?case by (auto simp: forget_project_eq project_state_written project_file_key_def meta_key_not_row [symmetric])
next
  case (8 h g)
  then show ?case using delete_generation_rows_law [of h g i n c] by auto
next
  case (9 h)
  then show ?case by (simp add: recover_project_generations_def)
next
  case (10 h g)
  then show ?case by (simp add: abort_project_generation_def)
qed

section \<open>The catalog publication\<close>

lemma catalog_key_not_row: "catalog_key i \<noteq> catalog_generation_prefix i' g @ x"
  by (simp add: pypi_keys)

lemma catalog_state_written: "codec_ok c \<Longrightarrow> catalog_state c (with_row s (catalog_key i) (enc c p)) i = Inr p"
  by (simp add: catalog_state_def decode_catalog_state_def codec_ok_def)

definition stage_projects :: "(string \<times> string) list \<Rightarrow> (string \<Rightarrow> bytes option) \<Rightarrow> string \<Rightarrow> bytes option" where
  "stage_projects entries m = fold (\<lambda>(normalized, display) m. case m normalized of
      None \<Rightarrow> m(normalized \<mapsto> display) | Some current \<Rightarrow> if display < current then m(normalized \<mapsto> display) else m) entries m"

lemma begin_catalog_eq:
  assumes "catalog_state c s i = Inr p"
  shows "begin_catalog_generation c s i = Inr ((bump_u64 (pub_next_generation p), map_option cgn_generation (pub_active p)),
    with_row s (catalog_key i) (enc c (p\<lparr>pub_next_generation := bump_u64 (pub_next_generation p),
      pub_staging := Some (bump_u64 (pub_next_generation p))\<rparr>)))"
  unfolding begin_catalog_generation_def using assms
  by (subst commit_plain) (auto simp: catalog_state_def Let_def store_catalog_state_def put_local_open)

lemma settle_catalog_eq:
  assumes "catalog_state c s i = Inr p"
  shows "settle_catalog_generations c s i p = Inr ((), with_row s (catalog_key i) (enc c (p\<lparr>pub_staging := None, pub_retired := None\<rparr>)))"
  unfolding settle_catalog_generations_def using assms
  by (subst commit_plain) (auto simp: catalog_state_def Let_def store_catalog_state_def put_local_open)

lemma forget_catalog_eq:
  assumes "catalog_state c s i = Inr p"
  shows "forget_catalog_generation c s i g = Inr ((), if pub_staging p = Some g
    then with_row s (catalog_key i) (enc c (p\<lparr>pub_staging := None\<rparr>)) else s)"
  unfolding forget_catalog_generation_def using assms
  by (subst commit_plain) (auto simp: catalog_state_def store_catalog_state_def put_local_open, simp add: open_txn_def)

lemma publish_catalog_eq:
  assumes "catalog_state c s i = Inr p" "read_record (policy_input_generation_table s) i = Inr r"
  shows "if pub_staging p \<noteq> Some (cgn_generation a) \<or> map_option cgn_generation (pub_active p) \<noteq> expected
    then publish_catalog_generation c s i expected a = Inl (DriverPrecondition ''catalog publication lost its reservation'')
    else \<exists>s'. publish_catalog_generation c s i expected a = Inr ((), s')
      \<and> driver_kv s' = t_insert (driver_kv s) (catalog_key i) (enc c (p\<lparr>pub_retired := map_option cgn_generation (pub_active p),
          pub_active := Some a, pub_staging := None\<rparr>))
      \<and> (\<exists>r. read_record (policy_input_generation_table s') i = Inr r)"
  using assms
  by (auto simp: publish_catalog_generation_def commit_driver_txn_with_catalog_generation_def commit_driver_txn_at_def catalog_state_def
      Let_def store_catalog_state_def put_local_open write_journal_def publish_catalog_def)

lemma stage_project_rows:
  assumes "t_wf (dt_table txn)" "g \<le> u64_max" "stage_project i g e (k, txn) = (k', txn')"
  shows "t_wf (dt_table txn')" "t_get (dt_table txn') (catalog_key i) = t_get (dt_table txn) (catalog_key i)"
    "(\<lambda>x. t_get (dt_table txn') (catalog_project_key i g x)) = stage_projects [e] (\<lambda>x. t_get (dt_table txn) (catalog_project_key i g x))"
    "g' \<le> u64_max \<Longrightarrow> g' \<noteq> g \<Longrightarrow> t_get (dt_table txn') (catalog_project_key i g' x) = t_get (dt_table txn) (catalog_project_key i g' x)"
proof -
  obtain normalized display where e: "e = (normalized, display)" by (cases e)
  let ?key = "catalog_project_key i g normalized"
  have new: "dt_table txn' = (if is_none_or (t_get (dt_table txn) ?key) (\<lambda>cur. display < cur) then t_insert (dt_table txn) ?key display else dt_table txn)"
    using assms(3) by (auto simp: e stage_project_def Let_def txn_get_def txn_put_local_def split: option.splits if_splits)
  have row: "catalog_project_key i g'' x = ?key \<longleftrightarrow> g'' = g \<and> x = normalized" if "g'' \<le> u64_max" for g'' x
    using that assms(2) by (simp add: catalog_project_key_def catalog_row_key_eq)
  show "t_wf (dt_table txn')" using assms(1) by (simp add: new)
  show "t_get (dt_table txn') (catalog_key i) = t_get (dt_table txn) (catalog_key i)"
    by (simp add: new catalog_project_key_def catalog_key_not_row)
  show "(\<lambda>x. t_get (dt_table txn') (catalog_project_key i g x)) = stage_projects [e] (\<lambda>x. t_get (dt_table txn) (catalog_project_key i g x))"
    by (rule ext) (auto simp: new row [OF assms(2)] e stage_projects_def split: option.split)
  show "t_get (dt_table txn') (catalog_project_key i g' x) = t_get (dt_table txn) (catalog_project_key i g' x)" if "g' \<le> u64_max" "g' \<noteq> g"
    using that row [OF that(1)] by (simp add: new)
qed

lemma stage_projects_rows:
  assumes "t_wf (dt_table txn)" "g \<le> u64_max" "fold (stage_project i g) entries (k, txn) = (k', txn')"
  shows "t_wf (dt_table txn') \<and> t_get (dt_table txn') (catalog_key i) = t_get (dt_table txn) (catalog_key i)
    \<and> (\<lambda>x. t_get (dt_table txn') (catalog_project_key i g x)) = stage_projects entries (\<lambda>x. t_get (dt_table txn) (catalog_project_key i g x))
    \<and> (\<forall>g' x. g' \<le> u64_max \<longrightarrow> g' \<noteq> g \<longrightarrow> t_get (dt_table txn') (catalog_project_key i g' x) = t_get (dt_table txn) (catalog_project_key i g' x))"
  using assms
proof (induction entries arbitrary: k txn)
  case Nil
  then show ?case by (simp add: stage_projects_def)
next
  case (Cons e entries)
  obtain k1 txn1 where s1: "stage_project i g e (k, txn) = (k1, txn1)" by (cases "stage_project i g e (k, txn)")
  note one = stage_project_rows [OF Cons.prems(1,2) s1]
  have "fold (stage_project i g) entries (k1, txn1) = (k', txn')" using Cons.prems(3) s1 by simp
  note rest = Cons.IH [OF one(1) Cons.prems(2) this]
  have "stage_projects (e # entries) m = stage_projects entries (stage_projects [e] m)" for m by (simp add: stage_projects_def)
  with rest one(2,3,4) show ?case by auto
qed

lemma put_catalog_eq:
  assumes "catalog_state c s i = Inr p" "t_wf (driver_kv s)" "g \<le> u64_max" "pub_staging p = Some g"
  shows "\<exists>k s'. put_catalog_projects c s i g entries = Inr (k, s') \<and> t_wf (driver_kv s')
      \<and> policy_input_generation_table s' = policy_input_generation_table s
      \<and> get_driver_value s' (catalog_key i) = get_driver_value s (catalog_key i)
      \<and> (\<lambda>x. get_driver_value s' (catalog_project_key i g x)) = stage_projects entries (\<lambda>x. get_driver_value s (catalog_project_key i g x))
      \<and> (\<forall>g' x. g' \<le> u64_max \<longrightarrow> g' \<noteq> g \<longrightarrow> get_driver_value s' (catalog_project_key i g' x) = get_driver_value s (catalog_project_key i g' x))"
proof -
  obtain k txn where f: "fold (stage_project i g) entries (0, open_txn s) = (k, txn)"
    by (cases "fold (stage_project i g) entries (0, open_txn s)")
  have "t_wf (dt_table (open_txn s))" using assms(2) by (simp add: open_txn_def)
  note rows = stage_projects_rows [OF this assms(3) f]
  have "put_catalog_projects c s i g entries = Inr (k, s\<lparr>driver_kv := dt_table txn\<rparr>)"
    unfolding put_catalog_projects_def using assms(1,4) f by (subst commit_plain) (auto simp: catalog_state_def)
  with rows show ?thesis by (simp add: get_driver_value_def open_txn_def)
qed

lemma delete_catalog_rows_law:
  assumes "h \<noteq> []" "t_wf (driver_kv (hd h))" "g \<le> u64_max"
  shows "\<exists>new. delete_catalog_rows h i g = new @ h
    \<and> (\<lambda>x. get_driver_value (hd (delete_catalog_rows h i g)) (catalog_project_key i g x)) = Map.empty
    \<and> (\<forall>s \<in> set new. t_wf (driver_kv s) \<and> policy_input_generation_table s = policy_input_generation_table (hd h)
         \<and> catalog_state c s i = catalog_state c (hd h) i
         \<and> (\<forall>g'. g' \<le> u64_max \<longrightarrow> g' \<noteq> g \<longrightarrow> (\<lambda>x. get_driver_value s (catalog_project_key i g' x)) = (\<lambda>x. get_driver_value (hd h) (catalog_project_key i g' x)))
         \<and> (\<lambda>x. get_driver_value s (catalog_project_key i g x)) \<subseteq>\<^sub>m (\<lambda>x. get_driver_value (hd h) (catalog_project_key i g x)))"
proof -
  have "\<not> starts_with (catalog_key i) (catalog_generation_prefix i g)" "\<And>g' x. g' \<le> u64_max \<Longrightarrow> g' \<noteq> g \<Longrightarrow> \<not> starts_with (catalog_generation_prefix i g' @ x) (catalog_generation_prefix i g)"
    using assms(3) by (simp_all add: starts_with_iff catalog_key_not_row catalog_row_key_eq)
  note law = drop_rows_law [where P = "catalog_generation_prefix i" and g = g and skey = "catalog_key i", OF assms(1,2) this]
  then obtain new where new: "delete_prefix_rows h (catalog_generation_prefix i g) = new @ h"
   "(\<lambda>x. get_driver_value (hd (delete_prefix_rows h (catalog_generation_prefix i g))) (catalog_generation_prefix i g @ x)) = Map.empty"
   and each: "\<And>s. s \<in> set new \<Longrightarrow> policy_input_generation_table s = policy_input_generation_table (hd h)" "\<And>s. s \<in> set new \<Longrightarrow> t_wf (driver_kv s)" "\<And>s. s \<in> set new \<Longrightarrow> get_driver_value s (catalog_key i) = get_driver_value (hd h) (catalog_key i)"
    "\<And>s g'. s \<in> set new \<Longrightarrow> g' \<le> u64_max \<Longrightarrow> g' \<noteq> g \<Longrightarrow> (\<lambda>x. get_driver_value s (catalog_generation_prefix i g' @ x)) = (\<lambda>x. get_driver_value (hd h) (catalog_generation_prefix i g' @ x))"
    "\<And>s. s \<in> set new \<Longrightarrow> (\<lambda>x. get_driver_value s (catalog_generation_prefix i g @ x)) \<subseteq>\<^sub>m (\<lambda>x. get_driver_value (hd h) (catalog_generation_prefix i g @ x))"
    by auto
  then show ?thesis unfolding catalog_project_key_def delete_catalog_rows_def catalog_state_def by (intro exI [of _ new]) simp
qed

interpretation cg: staged_publication
  "\<lambda>s. codec_ok c \<and> t_wf (driver_kv s) \<and> (\<exists>r. read_record (policy_input_generation_table s) i = Inr r)" "\<lambda>s. catalog_state c s i"
  "\<lambda>s g x. get_driver_value s (catalog_project_key i g x)"
  cgn_generation stage_projects "\<lambda>s. begin_catalog_generation c s i"
  "\<lambda>s g entries. put_catalog_projects c s i g entries" "\<lambda>s e a. publish_catalog_generation c s i e a"
  "\<lambda>s p. settle_catalog_generations c s i p" "\<lambda>s g. forget_catalog_generation c s i g"
  "\<lambda>h g. delete_catalog_rows h i g" "\<lambda>h. recover_catalog_generations c h i" "\<lambda>h g. abort_catalog_generation c h i g"
  for c i
proof (unfold_locales, goal_cases)
  case (1 s p)
  then show ?case by (auto simp: begin_catalog_eq catalog_state_written catalog_project_key_def catalog_key_not_row [symmetric])
next
  case (2 s p g x)
  with put_catalog_eq [of c s i p g x] show ?case by (auto simp: catalog_state_def fun_eq_iff)
next
  case (3 s p g x)
  then show ?case by (auto simp: put_catalog_projects_def commit_driver_txn_def commit_driver_txn_at_def catalog_state_def)
next
  case (4 s p a e)
  then obtain r where "read_record (policy_input_generation_table s) i = Inr r" by blast
  from 4 publish_catalog_eq [OF 4(2) this, of a e] show ?case
    by (auto simp: catalog_state_def decode_catalog_state_def codec_ok_def get_driver_value_def catalog_project_key_def
        catalog_key_not_row [symmetric] fun_eq_iff)
next
  case (5 s p a e)
  then obtain r where "read_record (policy_input_generation_table s) i = Inr r" by blast
  from 5 publish_catalog_eq [OF 5(2) this, of a e] show ?case by auto
next
  case (6 s p)
  then show ?case by (auto simp: settle_catalog_eq catalog_state_written catalog_project_key_def catalog_key_not_row [symmetric])
next
  case (7 s p g)
  then show ?case by (auto simp: forget_catalog_eq catalog_state_written catalog_project_key_def catalog_key_not_row [symmetric])
next
  case (8 h g)
  then show ?case using delete_catalog_rows_law [of h g i c] by auto
next
  case (9 h)
  then show ?case by (simp add: recover_catalog_generations_def)
next
  case (10 h g)
  then show ?case by (simp add: abort_catalog_generation_def)
qed

end
