(* ===== verification/PypiBatches.thy ===== *)
theory PypiBatches
  imports PypiPublish
begin

text \<open>
  Publications filled batch by batch: what a sequence of staged batches leaves is what staging their concatenation
  leaves, and publishing then moves the readers from the old rows to exactly those.  Both publications of the PyPI
  store are instances.
\<close>

locale batched_publication = staged_publication ok state rows gen stage begin_op put_op publish_op settle_op forget_op drop_op recover abort
  for ok state rows and gen :: "'g \<Rightarrow> nat" and stage :: "'a list \<Rightarrow> (string \<Rightarrow> bytes option) \<Rightarrow> string \<Rightarrow> bytes option"
    and begin_op put_op publish_op settle_op forget_op drop_op recover abort +
  assumes stage_nil: "stage [] m = m"
    and stage_append: "stage (xs @ ys) m = stage ys (stage xs m)"
begin

text \<open>The history \<open>h\<close> has staged \<open>xs\<close> for generation \<open>g\<close> except for the pending batch.\<close>

definition staging :: "history \<Rightarrow> nat \<Rightarrow> 'g publication \<Rightarrow> 'a list \<Rightarrow> history \<Rightarrow> 'a list \<Rightarrow> bool" where
  "staging h0 g p xs h batch \<longleftrightarrow> extends_quietly pinv view h0 h \<and> state (hd h) = Inr p \<and> pub_staging p = Some g
     \<and> (\<exists>xs0. xs = xs0 @ batch \<and> rows (hd h) g = stage xs0 Map.empty)"

lemma staging_begin:
  assumes "h \<noteq> []" "pinv (hd h)" "state (hd h) = Inr p" "pub_next_generation p < u64_max"
  shows "\<exists>s'. begin_op (hd h) = Inr ((Suc (pub_next_generation p), map_option gen (pub_active p)), s')
    \<and> staging h (Suc (pub_next_generation p)) (p\<lparr>pub_next_generation := Suc (pub_next_generation p), pub_staging := Some (Suc (pub_next_generation p))\<rparr>)
        [] (s' # h) []"
  using begin_quiet [OF assms(2-4)] stage_nil by (auto simp: staging_def intro: quiet_push)

lemma staging_add: "staging h0 g p xs h batch \<Longrightarrow> staging h0 g p (xs @ [x]) h (batch @ [x])"
  by (auto simp: staging_def)

lemma staging_flush:
  assumes "h0 \<noteq> []" "pinv (hd h0)" "staging h0 g p xs h batch"
  shows "\<exists>n s'. put_op (hd h) g batch = Inr (n, s') \<and> staging h0 g p xs (s' # h) []"
proof -
  obtain xs0 where s: "extends_quietly pinv view h0 h" "state (hd h) = Inr p" "pub_staging p = Some g" "xs = xs0 @ batch"
    "rows (hd h) g = stage xs0 Map.empty" using assms(3) by (auto simp: staging_def)
  note q = quiet_hd [OF s(1) assms(1,2)]
  obtain n s' where s': "put_op (hd h) g batch = Inr (n, s')" "pinv s'" "view s' = view (hd h)" "state s' = Inr p"
    "rows s' g = stage batch (rows (hd h) g)" using put_quiet [OF _ s(2,3), of batch] q by blast
  have "extends_quietly pinv view h (s' # h)" using s'(2,3) by (rule quiet_push)
  then have "extends_quietly pinv view h0 (s' # h)" by (rule quiet_trans [OF s(1) _ assms(1,2)])
  with s s' show ?thesis by (auto simp: staging_def stage_append)
qed

text \<open>The history moves the readers once, from what they saw to \<open>v\<close>.\<close>

definition switches :: "history \<Rightarrow> history \<Rightarrow> 'g option \<times> (string \<Rightarrow> bytes option) \<Rightarrow> bool" where
  "switches h h' v \<longleftrightarrow> (\<exists>new. h' = new @ h \<and> new \<noteq> [] \<and> (\<forall>s \<in> set new. pinv s \<and> (view s = view (hd h) \<or> view s = v)) \<and> view (hd h') = v)"

lemma staging_publish:
  assumes "h0 \<noteq> []" "pinv (hd h0)" "staging h0 g p xs h []" "gen a = g"
  shows "\<exists>s' h'. publish_op (hd h) (map_option gen (pub_active p)) a = Inr ((), s') \<and> recover (s' # h) = (h', Inr ())
    \<and> switches h0 h' (Some a, stage xs Map.empty)"
proof -
  have s: "extends_quietly pinv view h0 h" "state (hd h) = Inr p" "pub_staging p = Some (gen a)" "rows (hd h) (gen a) = stage xs Map.empty"
    using assms(3,4) by (auto simp: staging_def)
  note q = quiet_hd [OF s(1) assms(1,2)]
  obtain s' where s': "publish_op (hd h) (map_option gen (pub_active p)) a = Inr ((), s')" "pinv s'" "view s' = (Some a, stage xs Map.empty)"
    using publish_visible [OF _ s(2,3) refl] q s(4) by auto
  obtain h' where r: "recover (s' # h) = (h', Inr ())" "extends_quietly pinv view (s' # h) h'"
    using recover_quiet [of "s' # h"] s'(2) by auto
  obtain new0 where n0: "h = new0 @ h0" "\<forall>s \<in> set new0. pinv s \<and> view s = view (hd h0)" using s(1) by (auto simp: extends_quietly_def)
  obtain new1 where n1: "h' = new1 @ s' # h" "\<forall>s \<in> set new1. pinv s \<and> view s = view s'" using r(2) by (auto simp: extends_quietly_def)
  have "view (hd h') = view s'" using n1 by (cases new1) auto
  with n0 n1 s'(2,3) have "switches h0 h' (Some a, stage xs Map.empty)"
    unfolding switches_def by (intro exI [of _ "new1 @ s' # new0"]) auto
  with s'(1) r(1) show ?thesis by blast
qed

lemma staging_abort:
  assumes "h0 \<noteq> []" "pinv (hd h0)" "staging h0 g p xs h batch"
  shows "\<exists>h'. abort h g = (h', Inr ()) \<and> extends_quietly pinv view h0 h'"
proof -
  have s: "extends_quietly pinv view h0 h" "state (hd h) = Inr p" "pub_staging p = Some g" using assms(3) by (auto simp: staging_def)
  note q = quiet_hd [OF s(1) assms(1,2)]
  obtain h' where "abort h g = (h', Inr ())" "extends_quietly pinv view h h'" using abort_quiet [OF _ _ s(2,3)] q by blast
  with quiet_trans [OF s(1) _ assms(1,2)] show ?thesis by blast
qed

end

interpretation pb: batched_publication
  "\<lambda>s. codec_ok c \<and> t_wf (driver_kv s)" "\<lambda>s. project_meta_state c s i n" "\<lambda>s g x. get_driver_value s (project_file_key i n g x)"
  pgn_generation "stage_files to_json" "\<lambda>s. begin_project_generation c s i n"
  "\<lambda>s g fs. put_project_files c to_json s i n g src up fs" "\<lambda>s e a. publish_project_generation c s i n e a"
  "\<lambda>s p. settle_project_generations c s i n p" "\<lambda>s g. forget_project_generation c s i n g"
  "\<lambda>h g. delete_generation_rows h i n g" "\<lambda>h. recover_project_generations c h i n" "\<lambda>h g. abort_project_generation c h i n g"
  for c i n to_json src up
  by unfold_locales (simp_all add: stage_files_def)

interpretation cb: batched_publication
  "\<lambda>s. codec_ok c \<and> t_wf (driver_kv s) \<and> (\<exists>r. read_record (policy_input_generation_table s) i = Inr r)" "\<lambda>s. catalog_state c s i"
  "\<lambda>s g x. get_driver_value s (catalog_project_key i g x)"
  cgn_generation stage_projects "\<lambda>s. begin_catalog_generation c s i"
  "\<lambda>s g entries. put_catalog_projects c s i g entries" "\<lambda>s e a. publish_catalog_generation c s i e a"
  "\<lambda>s p. settle_catalog_generations c s i p" "\<lambda>s g. forget_catalog_generation c s i g"
  "\<lambda>h g. delete_catalog_rows h i g" "\<lambda>h. recover_catalog_generations c h i" "\<lambda>h g. abort_catalog_generation c h i g"
  for c i
  by unfold_locales (simp_all add: stage_projects_def)

end
