(* ===== verification/PypiSimple.thy ===== *)
theory PypiSimple
  imports PypiFile
begin

text \<open>
  The documents of the Simple repository API: the \<open>meta\<close> object with version negotiation and status markers
  (\<open>simple/meta.rs\<close>), project details and lists and their parsing (\<open>simple/parse.rs\<close>) of
  \<open>crates/peryx-ecosystem-pypi/src\<close>.  A document is a \<open>json_doc\<close>; reading its text is \<open>serde_json\<close>, resolving a URL is
  the \<open>url\<close> crate, both are arguments.
\<close>

section \<open>The meta object\<close>

datatype simple_error =
    SimpleJson
  | SimpleHtml
  | UnsupportedApiVersion string
  | InvalidApiVersion string
  | InvalidProjectStatus string

definition API_VERSION :: string where "API_VERSION = ''1.4''"
definition API_VERSION_BASE :: string where "API_VERSION_BASE = ''1.0''"
definition API_MAJOR :: nat where "API_MAJOR = 1"
definition PEP700_MINOR :: nat where "PEP700_MINOR = 1"

record simple_meta =
  sm_api_version :: string
  sm_project_status :: "string option"
  sm_project_status_reason :: "string option"

definition meta_default :: simple_meta where
  "meta_default = \<lparr>sm_api_version = API_VERSION, sm_project_status = None, sm_project_status_reason = None\<rparr>"

datatype project_status = Active | Archived | Quarantined | Deprecated

definition from_marker :: "string \<Rightarrow> project_status option" where
  "from_marker status =
     (if status = ''active'' then Some Active
      else if status = ''archived'' then Some Archived
      else if status = ''quarantined'' then Some Quarantined
      else if status = ''deprecated'' then Some Deprecated
      else None)"

definition marker :: "project_status \<Rightarrow> string" where
  "marker status = (case status of
      Active \<Rightarrow> ''active'' | Archived \<Rightarrow> ''archived'' | Quarantined \<Rightarrow> ''quarantined'' | Deprecated \<Rightarrow> ''deprecated'')"

definition allows_uploads :: "project_status \<Rightarrow> bool" where
  "allows_uploads status \<longleftrightarrow> status = Active \<or> status = Deprecated"

definition offers_downloads :: "project_status \<Rightarrow> bool" where
  "offers_downloads status \<longleftrightarrow> status \<noteq> Quarantined"

definition meta_status :: "simple_meta \<Rightarrow> project_status" where
  "meta_status m = unwrap_or Active (Option.bind (sm_project_status m) from_marker)"

definition validate_project_status :: "string \<Rightarrow> simple_error + unit" where
  "validate_project_status status = (case from_marker status of None \<Rightarrow> Inl (InvalidProjectStatus status) | Some _ \<Rightarrow> Inr ())"

definition served_version :: "string option \<Rightarrow> simple_error + string" where
  "served_version version = (case version of
      None \<Rightarrow> Inr API_VERSION_BASE
    | Some v \<Rightarrow>
        (case split_once CHR ''.'' v of
           None \<Rightarrow> Inl (InvalidApiVersion v)
         | Some (major, minor) \<Rightarrow>
             rbind (ok_or (InvalidApiVersion v) (parse_u64 major)) (\<lambda>major.
               if major \<noteq> API_MAJOR then Inl (UnsupportedApiVersion v)
               else rbind (ok_or (InvalidApiVersion v) (parse_u64 minor)) (\<lambda>minor.
                 Inr (if PEP700_MINOR \<le> minor then API_VERSION else API_VERSION_BASE)))))"

definition from_upstream :: "string option \<Rightarrow> string option \<Rightarrow> string option \<Rightarrow> simple_error + simple_meta" where
  "from_upstream api_version status reason =
     rbind (served_version api_version) (\<lambda>version.
     rbind (case status of None \<Rightarrow> Inr () | Some st \<Rightarrow> validate_project_status st) (\<lambda>_.
       Inr \<lparr>sm_api_version = version, sm_project_status = status, sm_project_status_reason = reason\<rparr>))"

record incoming_meta =
  im_api_version :: "string option"
  im_project_status :: "string option"
  im_project_status_reason :: "string option"

definition incoming_default :: incoming_meta where
  "incoming_default = \<lparr>im_api_version = None, im_project_status = None, im_project_status_reason = None\<rparr>"

definition into_meta :: "incoming_meta \<Rightarrow> simple_error + simple_meta" where
  "into_meta m = from_upstream (im_api_version m) (im_project_status m) (im_project_status_reason m)"

section \<open>Details and lists\<close>

record project_detail =
  dt_meta :: simple_meta
  dt_name :: string
  dt_versions :: "string list"
  dt_files :: "pypi_file list"

record project_list =
  pl_meta :: simple_meta
  pl_projects :: "string list"

definition meta_of_json :: "json_doc \<Rightarrow> incoming_meta option" where
  "meta_of_json doc = (case doc of
      JObject kvs \<Rightarrow>
        if \<not> known_once [''api-version'', ''project-status'', ''project-status-reason''] kvs then None
        else Option.bind (with_default None (de_optional as_str) kvs ''api-version'') (\<lambda>api.
             Option.bind (with_default None (de_optional as_str) kvs ''project-status'') (\<lambda>status.
             Option.bind (with_default None (de_optional as_str) kvs ''project-status-reason'') (\<lambda>reason.
               Some \<lparr>im_api_version = api, im_project_status = status, im_project_status_reason = reason\<rparr>)))
    | _ \<Rightarrow> None)"

fun de_each :: "(json_doc \<Rightarrow> 'a option) \<Rightarrow> json_doc list \<Rightarrow> 'a list option" where
  "de_each de [] = Some []"
| "de_each de (x # xs) = Option.bind (de x) (\<lambda>y. map_option ((#) y) (de_each de xs))"

definition de_vec :: "(json_doc \<Rightarrow> 'a option) \<Rightarrow> json_doc \<Rightarrow> 'a list option" where
  "de_vec de doc = Option.bind (as_array doc) (de_each de)"

definition parse_detail :: "json_doc option \<Rightarrow> simple_error + project_detail" where
  "parse_detail doc = (case doc of
      Some (JObject kvs) \<Rightarrow>
        if \<not> known_once [''meta'', ''name'', ''versions'', ''files''] kvs then Inl SimpleJson
        else (case (with_default incoming_default meta_of_json kvs ''meta'', Option.bind (map_of kvs ''name'') as_str,
                    with_default [] (de_vec as_str) kvs ''versions'', with_default [] (de_vec file_of_json) kvs ''files'') of
            (Some meta, Some name, Some versions, Some files) \<Rightarrow>
              rbind (into_meta meta) (\<lambda>meta. Inr \<lparr>dt_meta = meta, dt_name = name, dt_versions = versions, dt_files = files\<rparr>)
          | _ \<Rightarrow> Inl SimpleJson)
    | _ \<Rightarrow> Inl SimpleJson)"

definition parse_meta :: "json_doc option \<Rightarrow> simple_error + simple_meta" where
  "parse_meta doc = rbind (ok_or SimpleJson (Option.bind doc meta_of_json)) into_meta"

definition list_entry_of_json :: "json_doc \<Rightarrow> string option" where
  "list_entry_of_json doc = (case doc of
      JObject kvs \<Rightarrow> if known_once [''name''] kvs then Option.bind (map_of kvs ''name'') as_str else None | _ \<Rightarrow> None)"

definition parse_index :: "json_doc option \<Rightarrow> simple_error + project_list" where
  "parse_index doc = (case doc of
      Some (JObject kvs) \<Rightarrow>
        if \<not> known_once [''meta'', ''projects''] kvs then Inl SimpleJson
        else (case (with_default incoming_default meta_of_json kvs ''meta'', with_default [] (de_vec list_entry_of_json) kvs ''projects'') of
            (Some meta, Some entries) \<Rightarrow> rbind (into_meta meta) (\<lambda>meta. Inr \<lparr>pl_meta = meta, pl_projects = entries\<rparr>)
          | _ \<Rightarrow> Inl SimpleJson)
    | _ \<Rightarrow> Inl SimpleJson)"

section \<open>The streaming parser\<close>

text \<open>\<open>absolutize\<close>: \<open>resolve\<close> is \<open>base.join\<close> of the \<open>url\<close> crate, \<open>absolute\<close> whether \<open>Url::parse\<close> accepts the text.\<close>

definition absolutize :: "(string \<Rightarrow> bool) \<Rightarrow> (string \<Rightarrow> string option) \<Rightarrow> string \<Rightarrow> string" where
  "absolutize absolute resolve url = (if absolute url then url else unwrap_or url (resolve url))"

text \<open>
  What the deserializer reads of a body: the entries of the top object in order, and how it ends.  \<open>Complete\<close> is a
  well formed body with nothing behind it; \<open>Broken\<close> one that stops being well formed after the entries, inside a
  \<open>files\<close> array of which it had read the listed elements (none when it breaks elsewhere).
\<close>

datatype detail_end = Complete | Broken "json_doc list"

type_synonym detail_text = "(string \<times> json_doc) list \<times> detail_end"

type_synonym ('s, 'e) detail_sink = "pypi_file \<Rightarrow> 's \<Rightarrow> 's \<times> ('e + unit)"

record detail_header =
  dh_meta :: incoming_meta
  dh_name :: "string option"
  dh_versions :: "string list"

definition header_default :: detail_header where
  "header_default = \<lparr>dh_meta = incoming_default, dh_name = None, dh_versions = []\<rparr>"

text \<open>\<open>FilesVisitor\<close>: an error of the sink is turned into a JSON error by \<open>Error::custom\<close>.\<close>

fun visit_files :: "(string \<Rightarrow> string) \<Rightarrow> ('s, 'e) detail_sink \<Rightarrow> json_doc list \<Rightarrow> 's \<Rightarrow> 's \<times> bool" where
  "visit_files absol sink [] s = (s, True)"
| "visit_files absol sink (x # xs) s = (case file_of_json x of
      None \<Rightarrow> (s, False)
    | Some f \<Rightarrow> (case sink (f\<lparr>fl_url := absol (fl_url f)\<rparr>) s of (s, r) \<Rightarrow> if is_ok r then visit_files absol sink xs s else (s, False)))"

fun visit_detail :: "(string \<Rightarrow> string) \<Rightarrow> ('s, 'e) detail_sink \<Rightarrow> (string \<times> json_doc) list \<Rightarrow> detail_header \<Rightarrow> 's
      \<Rightarrow> 's \<times> detail_header option" where
  "visit_detail absol sink [] h s = (s, Some h)"
| "visit_detail absol sink ((key, v) # rest) h s =
     (if key = ''meta'' then (case meta_of_json v of None \<Rightarrow> (s, None) | Some m \<Rightarrow> visit_detail absol sink rest (h\<lparr>dh_meta := m\<rparr>) s)
      else if key = ''name'' then (case as_str v of None \<Rightarrow> (s, None) | Some n \<Rightarrow> visit_detail absol sink rest (h\<lparr>dh_name := Some n\<rparr>) s)
      else if key = ''versions'' then
        (case de_vec as_str v of None \<Rightarrow> (s, None) | Some vs \<Rightarrow> visit_detail absol sink rest (h\<lparr>dh_versions := vs\<rparr>) s)
      else if key = ''files'' then
        (case as_array v of
           None \<Rightarrow> (s, None)
         | Some xs \<Rightarrow> (case visit_files absol sink xs s of (s, ok) \<Rightarrow> if ok then visit_detail absol sink rest h s else (s, None)))
      else visit_detail absol sink rest h s)"

record streamed_detail =
  sd_meta :: simple_meta
  sd_name :: string
  sd_versions :: "string list"

definition stream_detail_json ::
    "(string \<Rightarrow> string) \<Rightarrow> ('s, 'e) detail_sink \<Rightarrow> detail_text \<Rightarrow> 's \<Rightarrow> 's \<times> (simple_error + streamed_detail)" where
  "stream_detail_json absol sink body s =
     (case visit_detail absol sink (fst body) header_default s of
        (s, None) \<Rightarrow> (s, Inl SimpleJson)
      | (s, Some h) \<Rightarrow>
          (case snd body of
             Broken xs \<Rightarrow> (fst (visit_files absol sink xs s), Inl SimpleJson)
           | Complete \<Rightarrow> (s, rbind (into_meta (dh_meta h)) (\<lambda>meta.
               Inr \<lparr>sd_meta = meta, sd_name = unwrap_or [] (dh_name h), sd_versions = dh_versions h\<rparr>))))"

text \<open>The version served is one of the two, and a page is read exactly when the upstream declares none or a 1.x version.\<close>

lemma marker_roundtrip [simp]: "from_marker (marker st) = Some st"
  by (cases st) (simp_all add: from_marker_def marker_def)

lemma from_marker_marker: "from_marker m = Some st \<Longrightarrow> marker st = m"
  by (auto simp: from_marker_def marker_def split: if_splits)

lemma served_version_range: "served_version v = Inr a \<Longrightarrow> a = API_VERSION \<or> a = API_VERSION_BASE"
  by (auto simp: served_version_def rbind_def ok_or_def split: option.splits prod.splits if_splits sum.splits)

end
