(* ===== verification/PypiPolicy.thy ===== *)
theory PypiPolicy
  imports PypiSimple PolicyEngine "HOL-Library.Word"
begin

text \<open>
  The PyPI half of the policy engine, \<open>crates/peryx-ecosystem-pypi/src/policy.rs\<close>: the configuration keys, the artifact
  rules compiled from them, the facts of a file and the operations that filter details and lists.  The PEP 440 crate, the
  RFC 3339 parser and Unicode lower case are the record \<open>formats\<close>.
\<close>

unbundle bit_operations_syntax

record 'v formats =
  fm_lower :: "char \<Rightarrow> string"
  fm_version :: "string \<Rightarrow> 'v option"
  fm_show :: "'v \<Rightarrow> string"
  fm_specifiers :: "string \<Rightarrow> ('v \<Rightarrow> bool) option"
  fm_time :: "string \<Rightarrow> int option"

section \<open>Configuration\<close>

datatype attestation_mode = Enforce | Audit

datatype package_type = WheelPackage | SdistPackage

record pypi_policy_config =
  ppc_fallback_mode :: fallback_mode
  ppc_allow_versions :: "string option"
  ppc_allow_package_types :: "package_type list"
  ppc_block_package_types :: "package_type list"
  ppc_allow_wheel_pythons :: "string list"
  ppc_block_wheel_pythons :: "string list"
  ppc_allow_wheel_platforms :: "string list"
  ppc_block_wheel_platforms :: "string list"
  ppc_min_release_age_secs :: "nat option"
  ppc_required_attestations :: "string list"
  ppc_attestation_mode :: attestation_mode

definition REQUIRED_ATTESTATION_RULE :: string where "REQUIRED_ATTESTATION_RULE = ''required-attestation''"
definition REQUIRED_ATTESTATION_AUDIT_RULE :: string where "REQUIRED_ATTESTATION_AUDIT_RULE = ''required-attestation-audit''"

definition rule_name :: "attestation_mode \<Rightarrow> string" where
  "rule_name mode = (case mode of Enforce \<Rightarrow> REQUIRED_ATTESTATION_RULE | Audit \<Rightarrow> REQUIRED_ATTESTATION_AUDIT_RULE)"

definition package_bit :: "package_type \<Rightarrow> 8 word" where
  "package_bit kind = (case kind of WheelPackage \<Rightarrow> 1 | SdistPackage \<Rightarrow> 2)"

definition package_str :: "package_type \<Rightarrow> string" where
  "package_str kind = (case kind of WheelPackage \<Rightarrow> ''wheel'' | SdistPackage \<Rightarrow> ''sdist'')"

definition package_parse :: "string \<Rightarrow> package_type option" where
  "package_parse value = (if value = ''wheel'' then Some WheelPackage else if value = ''sdist'' then Some SdistPackage else None)"

definition package_mask :: "package_type list \<Rightarrow> 8 word" where
  "package_mask types = fold (\<lambda>kind mask. mask OR package_bit kind) types 0"

datatype pypi_policy_error = VersionSpecifiers string | EmptyTag string | EmptyPredicateType

fun tags :: "string list \<Rightarrow> pypi_policy_error + string set" where
  "tags [] = Inr {}"
| "tags (v # vs) = (if v = [] then Inl (EmptyTag v) else rbind (tags vs) (\<lambda>ts. Inr (insert v ts)))"

section \<open>Rules\<close>

definition fallback_rule :: "fallback_mode \<Rightarrow> artifact_rule" where
  "fallback_rule mode = \<lparr>rule_check = \<lambda>act facts. Inr (), rule_fallback_mode = Some mode\<rparr>"

text \<open>\<open>Version::from_str(...).expect(...)\<close> cannot fail on facts built from a filename: their version is a printed parsed version.\<close>

definition version_check :: "'v formats \<Rightarrow> ('v \<Rightarrow> bool) \<Rightarrow> policy_action \<Rightarrow> artifact_facts \<Rightarrow> policy_denial + unit" where
  "version_check fm allowed act facts = (case af_version facts of
      None \<Rightarrow> Inl (facts_denial facts act ''version-specifier'' ''version'' ''file version is unknown'')
    | Some version \<Rightarrow>
        if \<not> allowed (the (fm_version fm version))
        then Inl (facts_denial facts act ''version-specifier'' ''version'' (''version '' @ version @ '' is outside the allowed range''))
        else Inr ())"

definition package_type_check :: "8 word \<Rightarrow> 8 word \<Rightarrow> policy_action \<Rightarrow> artifact_facts \<Rightarrow> policy_denial + unit" where
  "package_type_check allow block act facts =
     (let kind = Option.bind (attribute facts ''package_type'') package_parse in
      if allow \<noteq> 0 \<and> kind = None
      then Inl (facts_denial facts act ''package-type-allow-list'' ''package_type'' ''package type is unknown'')
      else if allow \<noteq> 0 \<and> allow AND package_bit (the kind) = 0
      then Inl (facts_denial facts act ''package-type-allow-list'' ''package_type''
                  (''package type '' @ package_str (the kind) @ '' is not allowed''))
      else if is_some_and kind (\<lambda>kind. block AND package_bit kind \<noteq> 0)
      then Inl (facts_denial facts act ''package-type-block-list'' ''package_type''
                  (''package type '' @ package_str (the kind) @ '' is blocked''))
      else Inr ())"

record wheel_tag_spec =
  wts_attribute :: string
  wts_field :: string
  wts_allow_rule :: string
  wts_block_rule :: string

definition tag_hits :: "string option \<Rightarrow> string set \<Rightarrow> bool" where
  "tag_hits tag S \<longleftrightarrow> is_some_and tag (\<lambda>value. list_ex (\<lambda>part. part \<in> S) (split_on CHR ''.'' value))"

definition wheel_tag_check ::
    "wheel_tag_spec \<Rightarrow> string set \<Rightarrow> string set \<Rightarrow> policy_action \<Rightarrow> artifact_facts \<Rightarrow> policy_denial + unit" where
  "wheel_tag_check spec allow block act facts =
     (if attribute facts ''package_type'' \<noteq> Some (package_str WheelPackage) then Inr ()
      else let tag = attribute facts (wts_attribute spec) in
        if allow \<noteq> {} \<and> \<not> tag_hits tag allow
        then Inl (facts_denial facts act (wts_allow_rule spec) (wts_field spec)
                    (''wheel tag '' @ debug_str (unwrap_or [] tag) @ '' is not allowed''))
        else if block \<noteq> {} \<and> tag_hits tag block
        then Inl (facts_denial facts act (wts_block_rule spec) (wts_field spec)
                    (''wheel tag '' @ debug_str (unwrap_or [] tag) @ '' is blocked''))
        else Inr ())"

definition show_int :: "int \<Rightarrow> string" where
  "show_int n = (if n < 0 then CHR ''-'' # show_nat (nat (- n)) else show_nat (nat n))"

definition release_delay_check :: "int \<Rightarrow> policy_action \<Rightarrow> artifact_facts \<Rightarrow> policy_denial + unit" where
  "release_delay_check min_age act facts = (case af_now facts of
      None \<Rightarrow> Inr ()
    | Some now \<Rightarrow>
        (case af_upload_time facts of
           None \<Rightarrow> Inl (facts_denial facts act ''release-delay'' ''upload_time'' ''release has no upstream upload time to age against'')
         | Some uploaded \<Rightarrow>
             let age = saturating_sub_i64 now uploaded in
             if age < min_age
             then Inl (facts_denial facts act ''release-delay'' ''upload_time''
                         (''release is '' @ show_int age @ ''s old, within the '' @ show_int min_age @ ''s upstream delay''))
             else Inr ()))"

definition ATTESTATION_PREDICATE_TYPES :: string where
  "ATTESTATION_PREDICATE_TYPES = ''attestation_predicate_types''"

fun join_str :: "string \<Rightarrow> string list \<Rightarrow> string" where
  "join_str sep [] = []"
| "join_str sep [x] = x"
| "join_str sep (x # y # xs) = x @ sep @ join_str sep (y # xs)"

definition attestation_check :: "string list \<Rightarrow> attestation_mode \<Rightarrow> policy_action \<Rightarrow> artifact_facts \<Rightarrow> policy_denial + unit" where
  "attestation_check required mode act facts = (case attribute facts ATTESTATION_PREDICATE_TYPES of
      None \<Rightarrow> Inr ()
    | Some declared \<Rightarrow>
        let present = filter (\<lambda>part. part \<noteq> []) (split_on (CHR 0x0A) declared);
            missing = filter (\<lambda>t. t \<notin> set present) required
        in if missing = [] then Inr ()
           else Inl (facts_denial facts act (rule_name mode) ''attestations''
                       (''upload is missing a required attestation predicate type: '' @ join_str '', '' missing)))"

definition plain_rule :: "(policy_action \<Rightarrow> artifact_facts \<Rightarrow> policy_denial + unit) \<Rightarrow> artifact_rule" where
  "plain_rule chk = \<lparr>rule_check = chk, rule_fallback_mode = None\<rparr>"

section \<open>Compilation\<close>

definition python_spec :: wheel_tag_spec where
  "python_spec = \<lparr>wts_attribute = ''python_tag'', wts_field = ''wheel_python'', wts_allow_rule = ''wheel-python-allow-list'',
     wts_block_rule = ''wheel-python-block-list''\<rparr>"

definition platform_spec :: wheel_tag_spec where
  "platform_spec = \<lparr>wts_attribute = ''platform_tag'', wts_field = ''wheel_platform'', wts_allow_rule = ''wheel-platform-allow-list'',
     wts_block_rule = ''wheel-platform-block-list''\<rparr>"

definition push_wheel_tag_rule ::
    "artifact_rule list \<Rightarrow> wheel_tag_spec \<Rightarrow> string list \<Rightarrow> string list \<Rightarrow> pypi_policy_error + artifact_rule list" where
  "push_wheel_tag_rule rs spec allow block =
     rbind (tags allow) (\<lambda>allow. rbind (tags block) (\<lambda>block.
       Inr (if allow \<noteq> {} \<or> block \<noteq> {} then rs @ [plain_rule (wheel_tag_check spec allow block)] else rs)))"

fun required_set :: "string list \<Rightarrow> string list \<Rightarrow> pypi_policy_error + string list" where
  "required_set acc [] = Inr acc"
| "required_set acc (t # ts) = (if t = [] then Inl EmptyPredicateType else required_set (bset_insert t acc) ts)"

definition compile_rules :: "'v formats \<Rightarrow> pypi_policy_config \<Rightarrow> pypi_policy_error + artifact_rule list" where
  "compile_rules fm config =
     (let rs = (if ppc_fallback_mode config \<noteq> Fallback then [fallback_rule (ppc_fallback_mode config)] else []) in
      rbind (case ppc_allow_versions config of
               None \<Rightarrow> Inr rs
             | Some sp \<Rightarrow> (case fm_specifiers fm sp of
                   None \<Rightarrow> Inl (VersionSpecifiers sp)
                 | Some allowed \<Rightarrow> Inr (rs @ [plain_rule (version_check fm allowed)]))) (\<lambda>rs.
      let allow = package_mask (ppc_allow_package_types config);
          block = package_mask (ppc_block_package_types config);
          rs = (if allow \<noteq> 0 \<or> block \<noteq> 0 then rs @ [plain_rule (package_type_check allow block)] else rs) in
      rbind (push_wheel_tag_rule rs python_spec (ppc_allow_wheel_pythons config) (ppc_block_wheel_pythons config)) (\<lambda>rs.
      rbind (push_wheel_tag_rule rs platform_spec (ppc_allow_wheel_platforms config) (ppc_block_wheel_platforms config)) (\<lambda>rs.
      let rs = (case ppc_min_release_age_secs config of
                  None \<Rightarrow> rs
                | Some secs \<Rightarrow> if 0 < secs then rs @ [plain_rule (release_delay_check (min (int secs) (2 ^ 63 - 1)))] else rs) in
      if ppc_required_attestations config = [] then Inr rs
      else rbind (required_set [] (ppc_required_attestations config)) (\<lambda>required.
        Inr (rs @ [plain_rule (attestation_check required (ppc_attestation_mode config))]))))))"

section \<open>Facts\<close>

definition package_type_of :: "distribution_kind \<Rightarrow> package_type" where
  "package_type_of kind = (case kind of Wheel \<Rightarrow> WheelPackage | _ \<Rightarrow> SdistPackage)"

definition pypi_attributes :: "'v distribution_filename \<Rightarrow> (string \<times> string) list" where
  "pypi_attributes df = (''package_type'', package_str (package_type_of (df_kind df)))
     # (case df_python_tag df of None \<Rightarrow> [] | Some t \<Rightarrow> [(''python_tag'', t)])
     @ (case df_platform_tag df of None \<Rightarrow> [] | Some t \<Rightarrow> [(''platform_tag'', t)])"

definition parsed_filename :: "'v formats \<Rightarrow> string \<Rightarrow> 'v distribution_filename option" where
  "parsed_filename fm filename = (case parse_distribution_filename (fm_lower fm) (fm_version fm) filename of Inl _ \<Rightarrow> None | Inr df \<Rightarrow> Some df)"

definition facts_from_file :: "'v formats \<Rightarrow> string \<Rightarrow> pypi_file \<Rightarrow> artifact_facts" where
  "facts_from_file fm project f =
     (let df = parsed_filename fm (fl_filename f)
      in \<lparr>af_project = project, af_filename = Some (fl_filename f), af_version = map_option (\<lambda>df. fm_show fm (df_version df)) df,
          af_source = None, af_size = fl_size f, af_upload_time = Option.bind (fl_upload_time f) (fm_time fm), af_now = None,
          af_attributes = (case df of None \<Rightarrow> [] | Some df \<Rightarrow> pypi_attributes df)\<rparr>)"

definition facts_from_upload :: "'v formats \<Rightarrow> string \<Rightarrow> pypi_file \<Rightarrow> string list \<Rightarrow> artifact_facts" where
  "facts_from_upload fm project f predicate_types =
     (let facts = facts_from_file fm project f
      in facts\<lparr>af_attributes := af_attributes facts @ [(ATTESTATION_PREDICATE_TYPES, join_str [CHR 0x0A] predicate_types)]\<rparr>)"

definition facts_from_filename :: "'v formats \<Rightarrow> string \<Rightarrow> nat option \<Rightarrow> artifact_facts" where
  "facts_from_filename fm filename sz =
     (let df = parsed_filename fm filename
      in \<lparr>af_project = (case df of None \<Rightarrow> ''<unknown>'' | Some df \<Rightarrow> df_normalized_name df), af_filename = Some filename,
          af_version = map_option (\<lambda>df. fm_show fm (df_version df)) df, af_source = None, af_size = sz, af_upload_time = None,
          af_now = None, af_attributes = (case df of None \<Rightarrow> [] | Some df \<Rightarrow> pypi_attributes df)\<rparr>)"

section \<open>Operations\<close>

definition check_file :: "'v formats \<Rightarrow> policy \<Rightarrow> policy_action \<Rightarrow> string \<Rightarrow> pypi_file \<Rightarrow> (policy_denial + unit) \<times> policy_evaluation option" where
  "check_file fm p act project f = check_facts p act (facts_from_file fm project f)"

definition check_upload ::
    "'v formats \<Rightarrow> policy \<Rightarrow> policy_action \<Rightarrow> string \<Rightarrow> pypi_file \<Rightarrow> string list \<Rightarrow> (policy_denial + unit) \<times> policy_evaluation option" where
  "check_upload fm p act project f predicate_types = check_facts p act (facts_from_upload fm project f predicate_types)"

definition strip_suffix :: "string \<Rightarrow> string \<Rightarrow> string option" where
  "strip_suffix s suffix = (if ends_with s suffix then Some (take (length s - length suffix) s) else None)"

definition check_download :: "'v formats \<Rightarrow> policy \<Rightarrow> policy_action \<Rightarrow> string \<Rightarrow> nat option \<Rightarrow> (policy_denial + unit) \<times> policy_evaluation option" where
  "check_download fm p act filename sz =
     check_facts p act (facts_from_filename fm (unwrap_or filename (strip_suffix filename ''.metadata'')) sz)"

fun size_total :: "policy_action \<Rightarrow> string \<Rightarrow> nat \<Rightarrow> pypi_file list \<Rightarrow> policy_denial + nat" where
  "size_total act project acc [] = Inr acc"
| "size_total act project acc (f # fs) = (case fl_size f of
      None \<Rightarrow> Inl (policy_denial_new act project (Some (fl_filename f)) None ''max-project-size'' ''size''
        (''project size is unknown because file '' @ debug_str (fl_filename f) @ '' has no declared size''))
    | Some n \<Rightarrow> size_total act project (saturating_add_u64 acc n) fs)"

definition project_size_denial :: "policy_action \<Rightarrow> string \<Rightarrow> pypi_file list \<Rightarrow> nat \<Rightarrow> policy_denial option" where
  "project_size_denial act project files limit = (case size_total act project 0 files of
      Inl denial \<Rightarrow> Some denial
    | Inr sz \<Rightarrow>
        if limit < sz
        then Some (policy_denial_new act project None None ''max-project-size'' ''project_size''
               (''project size '' @ show_nat sz @ '' exceeds limit '' @ show_nat limit))
        else None)"

definition apply_project_size_limit :: "policy_action \<Rightarrow> string \<Rightarrow> nat \<Rightarrow> project_detail \<Rightarrow> policy_denial + unit" where
  "apply_project_size_limit act project limit detail =
     (case project_size_denial act project (dt_files detail) limit of None \<Rightarrow> Inr () | Some d \<Rightarrow> Inl d)"

definition file_versions :: "'v formats \<Rightarrow> pypi_file list \<Rightarrow> string list" where
  "file_versions fm files = fold (\<lambda>f acc. case parsed_filename fm (fl_filename f) of
      None \<Rightarrow> acc | Some df \<Rightarrow> bset_insert (fm_show fm (df_version df)) acc) files []"

definition retain_versions_with_files :: "'v formats \<Rightarrow> project_detail \<Rightarrow> project_detail" where
  "retain_versions_with_files fm detail = detail\<lparr>dt_versions := retain_versions (dt_versions detail) (file_versions fm (dt_files detail))\<rparr>"

definition file_allowed :: "'v formats \<Rightarrow> policy \<Rightarrow> policy_action \<Rightarrow> string \<Rightarrow> int option \<Rightarrow> pypi_file \<Rightarrow> bool" where
  "file_allowed fm p act project now f = is_ok (fst (check_facts p act ((facts_from_file fm project f)\<lparr>af_now := now\<rparr>)))"

definition apply_detail ::
    "'v formats \<Rightarrow> policy \<Rightarrow> policy_action \<Rightarrow> string \<Rightarrow> project_detail \<Rightarrow> int option \<Rightarrow> policy_denial + project_detail" where
  "apply_detail fm p act project detail now =
     rbind (fst (check_project p act project)) (\<lambda>_.
       if \<not> active p then Inr detail
       else let detail = detail\<lparr>dt_files := filter (file_allowed fm p act project now) (dt_files detail)\<rparr> in
         rbind (case max_project_size_bytes p of
                  None \<Rightarrow> Inr () | Some limit \<Rightarrow> apply_project_size_limit act project limit detail) (\<lambda>_.
           Inr (retain_versions_with_files fm detail)))"

definition apply_list :: "'v formats \<Rightarrow> policy \<Rightarrow> project_list \<Rightarrow> project_list" where
  "apply_list fm p lst = (if \<not> active p then lst
     else lst\<lparr>pl_projects := filter (\<lambda>name. is_ok (fst (check_project p Serve (normalize_name (fm_lower fm) name)))) (pl_projects lst)\<rparr>)"

definition preview_detail :: "'v formats \<Rightarrow> policy \<Rightarrow> policy_action \<Rightarrow> project_detail \<Rightarrow> policy_denial list" where
  "preview_detail fm p act detail = (case fst (check_project p act (dt_name detail)) of
      Inl denial \<Rightarrow> [denial]
    | Inr _ \<Rightarrow>
        let allowed = filter (\<lambda>f. is_ok (fst (check_file fm p act (dt_name detail) f))) (dt_files detail);
            denials = List.map_filter (\<lambda>f. case fst (check_file fm p act (dt_name detail) f) of Inl d \<Rightarrow> Some d | Inr _ \<Rightarrow> None) (dt_files detail)
        in denials @ (case max_project_size_bytes p of
             None \<Rightarrow> [] | Some limit \<Rightarrow> (case project_size_denial act (dt_name detail) allowed limit of None \<Rightarrow> [] | Some d \<Rightarrow> [d])))"

section \<open>What the rules admit\<close>

lemma package_mask_fold: "fold (\<lambda>kind mask. mask OR package_bit kind) types m AND package_bit k \<noteq> 0 \<longleftrightarrow> m AND package_bit k \<noteq> 0 \<or> k \<in> set types"
proof (induction types arbitrary: m)
  case (Cons x types)
  have "(m OR package_bit x) AND package_bit k \<noteq> 0 \<longleftrightarrow> m AND package_bit k \<noteq> 0 \<or> x = k"
    unfolding bit.conj_disj_distrib2 or_eq_0_iff by (cases x; cases k; simp add: package_bit_def)
  with Cons show ?case by auto
qed simp

lemma package_mask_member: "package_mask types AND package_bit k = 0 \<longleftrightarrow> k \<notin> set types"
  using package_mask_fold [of types 0 k] by (auto simp: package_mask_def)

lemma package_mask_zero: "package_mask types = 0 \<longleftrightarrow> types = []"
proof
  show "package_mask types = 0 \<Longrightarrow> types = []"
    using package_mask_member [of types "hd types"] by (cases types) auto
qed (simp add: package_mask_def)

lemma tags_eq: "tags vs = (if [] \<in> set vs then Inl (EmptyTag []) else Inr (set vs))"
  by (induction vs) (auto simp: rbind_def)

lemma required_members: "required_set acc ts = Inr S \<Longrightarrow> [] \<notin> set ts \<and> set S = set acc \<union> set ts"
  by (induction ts arbitrary: acc) (auto split: if_splits)

lemma required_total: "[] \<notin> set ts \<Longrightarrow> \<exists>S. required_set acc ts = Inr S"
  by (induction ts arbitrary: acc) auto

lemma check_rules_append: "check_rules (rs @ rs') act facts = rbind (check_rules rs act facts) (\<lambda>_. check_rules rs' act facts)"
  by (induction rs) (auto simp: rbind_def split: sum.splits)

definition kind_of :: "artifact_facts \<Rightarrow> package_type option" where
  "kind_of facts = Option.bind (attribute facts ''package_type'') package_parse"

definition tags_admit :: "string \<Rightarrow> string list \<Rightarrow> string list \<Rightarrow> artifact_facts \<Rightarrow> bool" where
  "tags_admit attr allow block facts \<longleftrightarrow> attribute facts ''package_type'' = Some ''wheel'' \<longrightarrow>
     (allow \<noteq> [] \<longrightarrow> (\<exists>t part. attribute facts attr = Some t \<and> part \<in> set (split_on CHR ''.'' t) \<and> part \<in> set allow))
     \<and> (\<forall>t. attribute facts attr = Some t \<longrightarrow> set (split_on CHR ''.'' t) \<inter> set block = {})"

text \<open>The configuration read as a condition on the facts of a file.\<close>

definition config_admits :: "'v formats \<Rightarrow> pypi_policy_config \<Rightarrow> artifact_facts \<Rightarrow> bool" where
  "config_admits fm config facts \<longleftrightarrow>
     (\<forall>sp. ppc_allow_versions config = Some sp \<longrightarrow>
        (\<exists>version. af_version facts = Some version \<and> (the (fm_specifiers fm sp)) (the (fm_version fm version))))
     \<and> (ppc_allow_package_types config \<noteq> [] \<longrightarrow> (\<exists>k \<in> set (ppc_allow_package_types config). kind_of facts = Some k))
     \<and> (\<forall>k \<in> set (ppc_block_package_types config). kind_of facts \<noteq> Some k)
     \<and> tags_admit ''python_tag'' (ppc_allow_wheel_pythons config) (ppc_block_wheel_pythons config) facts
     \<and> tags_admit ''platform_tag'' (ppc_allow_wheel_platforms config) (ppc_block_wheel_platforms config) facts
     \<and> (\<forall>secs now. ppc_min_release_age_secs config = Some secs \<longrightarrow> 0 < secs \<longrightarrow> af_now facts = Some now \<longrightarrow>
          (\<exists>uploaded. af_upload_time facts = Some uploaded \<and> min (int secs) (2 ^ 63 - 1) \<le> saturating_sub_i64 now uploaded))
     \<and> (\<forall>declared. attribute facts ATTESTATION_PREDICATE_TYPES = Some declared \<longrightarrow>
          set (ppc_required_attestations config) - {[]} \<subseteq> set (split_on (CHR 0x0A) declared))"

definition config_valid :: "'v formats \<Rightarrow> pypi_policy_config \<Rightarrow> bool" where
  "config_valid fm config \<longleftrightarrow> (\<forall>sp. ppc_allow_versions config = Some sp \<longrightarrow> fm_specifiers fm sp \<noteq> None)
     \<and> [] \<notin> set (ppc_allow_wheel_pythons config) \<union> set (ppc_block_wheel_pythons config)
     \<and> [] \<notin> set (ppc_allow_wheel_platforms config) \<union> set (ppc_block_wheel_platforms config)
     \<and> [] \<notin> set (ppc_required_attestations config)"

lemma version_check_ok: "is_ok (version_check fm allowed act facts) \<longleftrightarrow> (\<exists>v. af_version facts = Some v \<and> allowed (the (fm_version fm v)))"
  by (auto simp: version_check_def is_ok_def split: option.splits)

lemma package_check_ok:
  "is_ok (package_type_check (package_mask allow) (package_mask block) act facts) \<longleftrightarrow>
     (allow \<noteq> [] \<longrightarrow> (\<exists>k \<in> set allow. kind_of facts = Some k)) \<and> (\<forall>k \<in> set block. kind_of facts \<noteq> Some k)"
  by (cases "kind_of facts") (auto simp: package_type_check_def kind_of_def package_mask_zero package_mask_member Let_def is_ok_def is_some_and_def)

lemma tag_hits_iff: "tag_hits tag S \<longleftrightarrow> (\<exists>t part. tag = Some t \<and> part \<in> set (split_on CHR ''.'' t) \<and> part \<in> S)"
  by (cases tag) (auto simp: tag_hits_def is_some_and_def list_ex_iff)

lemma wheel_check_ok:
  "is_ok (wheel_tag_check spec (set allow) (set block) act facts) \<longleftrightarrow> tags_admit (wts_attribute spec) allow block facts"
  by (auto simp: wheel_tag_check_def tags_admit_def tag_hits_iff package_str_def Let_def is_ok_def)

lemma delay_check_ok:
  "is_ok (release_delay_check m act facts) \<longleftrightarrow>
     (\<forall>now. af_now facts = Some now \<longrightarrow> (\<exists>u. af_upload_time facts = Some u \<and> m \<le> saturating_sub_i64 now u))"
  by (auto simp: release_delay_check_def is_ok_def Let_def split: option.splits)

lemma attestation_check_ok:
  "is_ok (attestation_check required mode act facts) \<longleftrightarrow>
     (\<forall>d. attribute facts ATTESTATION_PREDICATE_TYPES = Some d \<longrightarrow> set required \<subseteq> set (split_on (CHR 0x0A) d) - {[]})"
  by (auto simp: attestation_check_def is_ok_def Let_def filter_empty_conv split: option.splits)

lemma is_ok_rbind: "is_ok (rbind r (\<lambda>_. q)) \<longleftrightarrow> is_ok r \<and> is_ok q"
  by (auto simp: is_ok_def rbind_def split: sum.splits)

lemma is_ok_rbind_unit [simp]: "is_ok (rbind r Inr) \<longleftrightarrow> is_ok r"
  by (cases r) simp_all

lemma check_rules_ok: "is_ok (check_rules rs act facts) \<longleftrightarrow> (\<forall>r \<in> set rs. is_ok (rule_check r act facts))"
  by (induction rs) (simp_all add: is_ok_rbind)

lemma push_tags_eq:
  "[] \<notin> set allow \<union> set block \<Longrightarrow> push_wheel_tag_rule rs spec allow block
     = Inr (rs @ (if allow \<noteq> [] \<or> block \<noteq> [] then [plain_rule (wheel_tag_check spec (set allow) (set block))] else []))"
  by (auto simp: push_wheel_tag_rule_def tags_eq rbind_def)

lemma push_tags_fails: "[] \<in> set allow \<union> set block \<Longrightarrow> \<exists>e. push_wheel_tag_rule rs spec allow block = Inl e"
  by (auto simp: push_wheel_tag_rule_def tags_eq rbind_def)

text \<open>The rules of a valid configuration, one list per key.\<close>

definition check_list :: "'v formats \<Rightarrow> pypi_policy_config \<Rightarrow> string list \<Rightarrow> artifact_rule list" where
  "check_list fm config required =
      (case ppc_allow_versions config of None \<Rightarrow> [] | Some sp \<Rightarrow> [plain_rule (version_check fm (the (fm_specifiers fm sp)))])
    @ (if ppc_allow_package_types config \<noteq> [] \<or> ppc_block_package_types config \<noteq> []
       then [plain_rule (package_type_check (package_mask (ppc_allow_package_types config)) (package_mask (ppc_block_package_types config)))] else [])
    @ (if ppc_allow_wheel_pythons config \<noteq> [] \<or> ppc_block_wheel_pythons config \<noteq> []
       then [plain_rule (wheel_tag_check python_spec (set (ppc_allow_wheel_pythons config)) (set (ppc_block_wheel_pythons config)))] else [])
    @ (if ppc_allow_wheel_platforms config \<noteq> [] \<or> ppc_block_wheel_platforms config \<noteq> []
       then [plain_rule (wheel_tag_check platform_spec (set (ppc_allow_wheel_platforms config)) (set (ppc_block_wheel_platforms config)))] else [])
    @ (case ppc_min_release_age_secs config of None \<Rightarrow> []
       | Some secs \<Rightarrow> if 0 < secs then [plain_rule (release_delay_check (min (int secs) (2 ^ 63 - 1)))] else [])
    @ (if ppc_required_attestations config = [] then [] else [plain_rule (attestation_check required (ppc_attestation_mode config))])"

definition rule_list :: "'v formats \<Rightarrow> pypi_policy_config \<Rightarrow> string list \<Rightarrow> artifact_rule list" where
  "rule_list fm config required =
     (if ppc_fallback_mode config \<noteq> Fallback then [fallback_rule (ppc_fallback_mode config)] else []) @ check_list fm config required"

lemma compile_rules_parts:
  assumes "config_valid fm config"
  shows "\<exists>required. set required = set (ppc_required_attestations config) \<and> compile_rules fm config = Inr (rule_list fm config required)"
proof -
  have valid: "[] \<notin> set (ppc_required_attestations config)"
    "[] \<notin> set (ppc_allow_wheel_pythons config) \<union> set (ppc_block_wheel_pythons config)"
    "[] \<notin> set (ppc_allow_wheel_platforms config) \<union> set (ppc_block_wheel_platforms config)"
    using assms by (simp_all add: config_valid_def)
  obtain required where req: "required_set [] (ppc_required_attestations config) = Inr required"
    using required_total [OF valid(1)] by blast
  have versions: "\<And>sp. ppc_allow_versions config = Some sp \<Longrightarrow> \<exists>a. fm_specifiers fm sp = Some a"
    using assms by (auto simp: config_valid_def)
  have "compile_rules fm config = Inr (rule_list fm config required)"
    by (cases "ppc_allow_versions config"; cases "ppc_min_release_age_secs config")
      (use versions in \<open>auto simp add: rule_list_def check_list_def compile_rules_def req push_tags_eq [OF valid(2)] push_tags_eq [OF valid(3)] package_mask_zero\<close>)
  with required_members [OF req] show ?thesis by (intro exI [of _ required]) simp
qed

lemma compile_rules_invalid:
  assumes "\<not> config_valid fm config"
  shows "\<exists>e. compile_rules fm config = Inl e"
proof (rule ccontr)
  assume "\<nexists>e. compile_rules fm config = Inl e"
  then obtain rs where rs: "compile_rules fm config = Inr rs" by (cases "compile_rules fm config") auto
  obtain rs1 rs2 rs3 rs4 where steps:
    "(case ppc_allow_versions config of None \<Rightarrow> Inr (if ppc_fallback_mode config \<noteq> Fallback then [fallback_rule (ppc_fallback_mode config)] else [])
       | Some sp \<Rightarrow> (case fm_specifiers fm sp of None \<Rightarrow> Inl (VersionSpecifiers sp)
           | Some allowed \<Rightarrow> Inr ((if ppc_fallback_mode config \<noteq> Fallback then [fallback_rule (ppc_fallback_mode config)] else []) @ [plain_rule (version_check fm allowed)]))) = Inr rs1"
    "push_wheel_tag_rule rs2 python_spec (ppc_allow_wheel_pythons config) (ppc_block_wheel_pythons config) = Inr rs3"
    "push_wheel_tag_rule rs3 platform_spec (ppc_allow_wheel_platforms config) (ppc_block_wheel_platforms config) = Inr rs4"
    "ppc_required_attestations config = [] \<or> (\<exists>required. required_set [] (ppc_required_attestations config) = Inr required)"
    using rs by (auto simp: compile_rules_def Let_def rbind_eq_Inr simp del: push_wheel_tag_rule_def split: if_splits)
  have "config_valid fm config"
    unfolding config_valid_def
    using steps(1,4) push_tags_fails [of "ppc_allow_wheel_pythons config" "ppc_block_wheel_pythons config" rs2 python_spec] steps(2)
      push_tags_fails [of "ppc_allow_wheel_platforms config" "ppc_block_wheel_platforms config" rs3 platform_spec] steps(3)
    by (auto split: option.splits dest: required_members)
  with assms show False ..
qed

lemma compile_rules_ok:
  assumes "compile_rules fm config = Inr rs"
  shows "config_valid fm config" "is_ok (check_rules rs act facts) \<longleftrightarrow> config_admits fm config facts"
    "policy_fallback_mode (with_rules p rs) = ppc_fallback_mode config"
proof -
  show valid: "config_valid fm config" using compile_rules_invalid [of fm config] assms by auto
  have req: "[] \<notin> set (ppc_required_attestations config)" using valid by (simp add: config_valid_def)
  obtain required where r: "set required = set (ppc_required_attestations config)" and rs: "rs = rule_list fm config required"
    using compile_rules_parts [OF valid] assms by auto
  have each: "is_ok (check_rules (if c then [plain_rule k] else []) act facts) \<longleftrightarrow> (c \<longrightarrow> is_ok (k act facts))" for c k
    by (simp add: plain_rule_def is_ok_rbind)
  have fallback: "is_ok (check_rules (if ppc_fallback_mode config \<noteq> Fallback then [fallback_rule (ppc_fallback_mode config)] else []) act facts)"
    by (simp add: fallback_rule_def)
  have versions: "is_ok (check_rules (case ppc_allow_versions config of None \<Rightarrow> [] | Some sp \<Rightarrow> [plain_rule (version_check fm (the (fm_specifiers fm sp)))]) act facts)
      \<longleftrightarrow> (\<forall>sp. ppc_allow_versions config = Some sp \<longrightarrow> (\<exists>v. af_version facts = Some v \<and> (the (fm_specifiers fm sp)) (the (fm_version fm v))))"
    by (cases "ppc_allow_versions config") (simp_all add: plain_rule_def is_ok_rbind version_check_ok)
  have age: "is_ok (check_rules (case ppc_min_release_age_secs config of None \<Rightarrow> []
       | Some secs \<Rightarrow> if 0 < secs then [plain_rule (release_delay_check (min (int secs) (2 ^ 63 - 1)))] else []) act facts)
      \<longleftrightarrow> (\<forall>secs now. ppc_min_release_age_secs config = Some secs \<longrightarrow> 0 < secs \<longrightarrow> af_now facts = Some now \<longrightarrow>
          (\<exists>uploaded. af_upload_time facts = Some uploaded \<and> min (int secs) (2 ^ 63 - 1) \<le> saturating_sub_i64 now uploaded))"
    by (cases "ppc_min_release_age_secs config") (auto simp only: each delay_check_ok option.case check_rules.simps is_ok_simps option.inject option.distinct)
  have attest: "is_ok (check_rules (if ppc_required_attestations config = [] then [] else [plain_rule (attestation_check required (ppc_attestation_mode config))]) act facts)
      \<longleftrightarrow> (\<forall>d. attribute facts ATTESTATION_PREDICATE_TYPES = Some d \<longrightarrow> set (ppc_required_attestations config) - {[]} \<subseteq> set (split_on (CHR 0x0A) d))"
    using r req by (auto simp: plain_rule_def is_ok_rbind attestation_check_ok)
  have specs: "wts_attribute python_spec = ''python_tag''" "wts_attribute platform_spec = ''platform_tag''"
    by (simp_all add: python_spec_def platform_spec_def)
  have tagged: "(allow \<noteq> [] \<or> block \<noteq> [] \<longrightarrow> tags_admit attr allow block facts) \<longleftrightarrow> tags_admit attr allow block facts" for attr allow block
    by (auto simp: tags_admit_def)
  have kinds: "(allow \<noteq> [] \<or> block \<noteq> [] \<longrightarrow> (allow \<noteq> [] \<longrightarrow> (\<exists>k \<in> set allow. kind_of facts = Some k)) \<and> (\<forall>k \<in> set block. kind_of facts \<noteq> Some k))
      \<longleftrightarrow> (allow \<noteq> [] \<longrightarrow> (\<exists>k \<in> set allow. kind_of facts = Some k)) \<and> (\<forall>k \<in> set block. kind_of facts \<noteq> Some k)"
    for allow block by auto
  show "is_ok (check_rules rs act facts) \<longleftrightarrow> config_admits fm config facts"
    unfolding rs rule_list_def check_list_def check_rules_append is_ok_rbind config_admits_def versions age attest each wheel_check_ok package_check_ok specs tagged kinds
    by (simp only: fallback simp_thms conj_assoc)
  have "\<And>x. x \<in> set (check_list fm config required) \<Longrightarrow> rule_fallback_mode x = None"
    by (auto simp: check_list_def plain_rule_def split: option.splits if_splits)
  then have "List.find (\<lambda>x. rule_fallback_mode x \<noteq> None) (check_list fm config required) = None" by (simp add: find_None_iff)
  then show "policy_fallback_mode (with_rules p rs) = ppc_fallback_mode config"
    by (simp add: rs rule_list_def policy_fallback_mode_def with_rules_def fallback_rule_def Let_def)
qed

section \<open>What a page keeps\<close>

lemma size_total_eq:
  "acc \<le> u64_max \<Longrightarrow> size_total act project acc fs = Inr n \<longleftrightarrow>
     (\<forall>f \<in> set fs. fl_size f \<noteq> None) \<and> n = min (acc + (\<Sum>f \<leftarrow> fs. the (fl_size f))) u64_max"
proof (induction fs arbitrary: acc)
  case (Cons f fs)
  show ?case
  proof (cases "fl_size f")
    case (Some k)
    have "saturating_add_u64 acc k \<le> u64_max" by (simp add: saturating_add_u64_def)
    from Cons.IH [OF this] Some show ?thesis by (auto simp: saturating_add_u64_def min_def)
  qed simp
qed (auto simp: min_def)

lemma size_denial_iff:
  "project_size_denial act project fs limit = None \<longleftrightarrow>
     (\<forall>f \<in> set fs. fl_size f \<noteq> None) \<and> min (\<Sum>f \<leftarrow> fs. the (fl_size f)) u64_max \<le> limit"
proof (cases "size_total act project 0 fs")
  case (Inl e)
  moreover have "\<not> (\<forall>f \<in> set fs. fl_size f \<noteq> None)" using size_total_eq [of 0 act project fs "min (\<Sum>f \<leftarrow> fs. the (fl_size f)) u64_max"] Inl by auto
  ultimately show ?thesis by (simp add: project_size_denial_def)
next
  case (Inr n)
  then show ?thesis using size_total_eq [of 0 act project fs n] by (auto simp: project_size_denial_def)
qed

lemma file_versions_set:
  "set (file_versions fm files) = {fm_show fm (df_version df) |f df. f \<in> set files \<and> parsed_filename fm (fl_filename f) = Some df}"
proof -
  have "set (fold (\<lambda>f acc. case parsed_filename fm (fl_filename f) of None \<Rightarrow> acc | Some df \<Rightarrow> bset_insert (fm_show fm (df_version df)) acc) files acc)
    = set acc \<union> {fm_show fm (df_version df) |f df. f \<in> set files \<and> parsed_filename fm (fl_filename f) = Some df}" for acc
    by (induction files arbitrary: acc) (auto split: option.splits)
  then show ?thesis by (simp add: file_versions_def)
qed

lemma retain_versions_set: "set (retain_versions versions keep) = set keep"
  by (auto simp: retain_versions_def set_append_missing)

text \<open>The facts a served page judges a file by.\<close>

definition served_facts :: "'v formats \<Rightarrow> string \<Rightarrow> int option \<Rightarrow> pypi_file \<Rightarrow> artifact_facts" where
  "served_facts fm project now f = (facts_from_file fm project f)\<lparr>af_now := now\<rparr>"

lemma file_allowed_iff:
  assumes "compile_rules fm config = Inr (rules p)"
  shows "file_allowed fm p act project now f \<longleftrightarrow> is_ok (evaluate_project p act project)
    \<and> is_ok (check_file_size p act (served_facts fm project now f)) \<and> config_admits fm config (served_facts fm project now f)"
  using compile_rules_ok(2) [OF assms]
  by (simp add: file_allowed_def served_facts_def check_facts_def evaluate_facts_def is_ok_rbind Let_def facts_from_file_def)

text \<open>C15: Filtering a project page through a policy with compiled PyPI rules keeps, in order, exactly the files whose size
  is within the file limit and that the configured version, package type, wheel tag, release age and attestation keys admit;
  it fails exactly when the project is denied or the kept files have an unknown size or exceed the project limit, and the
  versions listed are those of the kept files.\<close>

theorem apply_detail_exact:
  assumes "compile_rules fm config = Inr (rules p)" "active p"
  shows "let kept = filter (\<lambda>f. is_ok (check_file_size p act (served_facts fm project now f))
             \<and> config_admits fm config (served_facts fm project now f)) (dt_files detail);
           fits = (\<forall>limit. max_project_size_bytes p = Some limit \<longrightarrow>
             (\<forall>f \<in> set kept. fl_size f \<noteq> None) \<and> min (\<Sum>f \<leftarrow> kept. the (fl_size f)) u64_max \<le> limit) in
     if is_ok (evaluate_project p act project) \<and> fits
     then \<exists>served. apply_detail fm p act project detail now = Inr served \<and> dt_files served = kept
       \<and> dt_meta served = dt_meta detail \<and> dt_name served = dt_name detail
       \<and> set (dt_versions served) = {fm_show fm (df_version df) |f df. f \<in> set kept \<and> parsed_filename fm (fl_filename f) = Some df}
     else \<exists>denial. apply_detail fm p act project detail now = Inl denial"
proof (cases "is_ok (evaluate_project p act project)")
  case True
  define kept where "kept = filter (\<lambda>f. is_ok (check_file_size p act (served_facts fm project now f))
    \<and> config_admits fm config (served_facts fm project now f)) (dt_files detail)"
  have k: "filter (file_allowed fm p act project now) (dt_files detail) = kept"
    unfolding kept_def by (rule filter_cong) (simp_all add: file_allowed_iff [OF assms(1)] True)
  have fits: "(\<forall>limit. max_project_size_bytes p = Some limit \<longrightarrow>
      (\<forall>f \<in> set kept. fl_size f \<noteq> None) \<and> min (\<Sum>f \<leftarrow> kept. the (fl_size f)) u64_max \<le> limit)
    \<longleftrightarrow> (\<forall>limit. max_project_size_bytes p = Some limit \<longrightarrow> project_size_denial act project kept limit = None)"
    by (simp add: size_denial_iff)
  show ?thesis
    unfolding Let_def kept_def [symmetric] fits
    using True assms(2)
    by (cases "max_project_size_bytes p")
      (auto simp: apply_detail_def check_project_def is_ok_iff k retain_versions_with_files_def retain_versions_set file_versions_set
        apply_project_size_limit_def Let_def split: option.splits)
next
  case False
  then show ?thesis by (cases "evaluate_project p act project") (auto simp: apply_detail_def check_project_def Let_def)
qed

definition sample_formats :: "string formats" where
  "sample_formats = \<lparr>fm_lower = (\<lambda>c. [c]), fm_version = (\<lambda>v. if v = [] then None else Some v), fm_show = id,
     fm_specifiers = (\<lambda>sp. if sp = ''>=2'' then Some (\<lambda>v. v \<noteq> ''1.0'') else None), fm_time = (\<lambda>_. None)\<rparr>"

definition sample_pypi_config :: pypi_policy_config where
  "sample_pypi_config = \<lparr>ppc_fallback_mode = PrivateFirst, ppc_allow_versions = Some ''>=2'', ppc_allow_package_types = [],
     ppc_block_package_types = [SdistPackage], ppc_allow_wheel_pythons = [''py3''], ppc_block_wheel_pythons = [],
     ppc_allow_wheel_platforms = [], ppc_block_wheel_platforms = [], ppc_min_release_age_secs = None,
     ppc_required_attestations = [], ppc_attestation_mode = Enforce\<rparr>"

definition sample_rules :: "artifact_rule list" where
  "sample_rules = rule_list sample_formats sample_pypi_config []"

definition sample_policy :: policy where
  "sample_policy = with_rules (policy_compile \<lparr>cfg_allow_projects = [], cfg_block_projects = [], cfg_protected_names = [],
     cfg_max_file_size_bytes = None, cfg_max_project_size_bytes = None\<rparr> id) sample_rules"

lemma sample_rules_compile: "compile_rules sample_formats sample_pypi_config = Inr (rules sample_policy)"
  by (simp add: compile_rules_def sample_pypi_config_def sample_formats_def sample_policy_def with_rules_def sample_rules_def rule_list_def
      check_list_def package_mask_def package_bit_def push_wheel_tag_rule_def Let_def)

lemma sample_policy_active: "active sample_policy"
  by (simp add: sample_policy_def with_rules_def compute_active_def sample_rules_def rule_list_def sample_pypi_config_def Let_def)

definition sample_detail :: project_detail where
  "sample_detail = \<lparr>dt_meta = meta_default, dt_name = ''a'', dt_versions = [''1.0''], dt_files =
     map (\<lambda>name. sample_file\<lparr>fl_filename := name\<rparr>) [''a-2.0-py3-none-any.whl'', ''a-2.0.tar.gz'', ''a-1.0-py3-none-any.whl'', ''a-3.0-py2-none-any.whl'']\<rparr>"

theorem apply_detail_exact_witness:
  "\<exists>served. apply_detail sample_formats sample_policy Serve ''a'' sample_detail None = Inr served
     \<and> map fl_filename (dt_files served) = [''a-2.0-py3-none-any.whl''] \<and> set (dt_versions served) = {''2.0''}"
proof -
  have "(case apply_detail sample_formats sample_policy Serve ''a'' sample_detail None of
      Inl _ \<Rightarrow> False | Inr d \<Rightarrow> map fl_filename (dt_files d) = [''a-2.0-py3-none-any.whl''] \<and> dt_versions d = [''2.0''])"
    by code_simp
  then show ?thesis
    using apply_detail_exact [OF sample_rules_compile sample_policy_active, of Serve "''a''" None sample_detail]
    by (auto split: sum.splits)
qed

end
