(* ===== verification/PypiSync.thy ===== *)
theory PypiSync
  imports PypiBatches PypiPolicy "HOL-Library.Countable"
begin

text \<open>
  Synchronizing the remote files of a project, \<open>sync_project_files\<close> of \<open>crates/peryx-ecosystem-pypi/src/cache/fetch.rs\<close>: the
  conditional request, the bounded download, the batches of admitted files and the publication of the generation.  An
  operation maps a history of committed stores to the history it leaves.  What the client answers, the parsers of the
  downloaded bytes and the clock are arguments.
\<close>

section \<open>The operation\<close>

definition MAX_PROJECT_BYTES :: nat where "MAX_PROJECT_BYTES = 256 * 1024 * 1024"
definition MAX_PROJECT_FILES :: nat where "MAX_PROJECT_FILES = 2000000"
definition PROJECT_FILE_BATCH :: nat where "PROJECT_FILE_BATCH = 10000"

datatype project_sync_outcome = SyncPublished nat | SyncNotModified nat | SyncMissing

datatype 'u project_sync_error =
    SyncUpstream 'u
  | SyncStore meta_error
  | SyncIo
  | SyncSimple simple_error
  | SyncStatus nat
  | SyncTooLarge
  | SyncTooManyFiles

record 'u simple_head =
  sh_status :: nat
  sh_source :: "string option"
  sh_url :: string
  sh_content_type :: "string option"
  sh_etag :: "string option"
  sh_last_modified :: "string option"
  sh_content_length :: "nat option"
  sh_last_serial :: "nat option"
  sh_stream :: "('u + bytes) list"

text \<open>The fixed fields of \<open>FileBatcher\<close> and the codecs of the rows it writes, then the fields it changes.\<close>

record 'v batch_target =
  bt_codec :: "project_generation publication codec"
  bt_to_json :: "pypi_file \<Rightarrow> bytes"
  bt_formats :: "'v formats"
  bt_policy :: policy
  bt_index :: string
  bt_project :: string
  bt_generation :: nat
  bt_source :: string
  bt_max_files :: nat

record file_batcher =
  fb_history :: history
  fb_batch :: "pypi_file list"
  fb_admitted :: nat
  fb_seen :: nat

definition file_batcher_new :: "history \<Rightarrow> file_batcher" where
  "file_batcher_new h = \<lparr>fb_history = h, fb_batch = [], fb_admitted = 0, fb_seen = 0\<rparr>"

definition batcher_flush :: "'v batch_target \<Rightarrow> file_batcher \<Rightarrow> file_batcher \<times> ('u project_sync_error + unit)" where
  "batcher_flush t b =
     (case put_project_files (bt_codec t) (bt_to_json t) (hd (fb_history b)) (bt_index t) (bt_project t) (bt_generation t) (bt_source t)
         None (fb_batch b) of
        Inl e \<Rightarrow> (b, Inl (SyncStore e))
      | Inr (written, s) \<Rightarrow>
          (b\<lparr>fb_history := s # fb_history b, fb_admitted := fb_admitted b + written, fb_batch := []\<rparr>, Inr ()))"

definition batcher_finish :: "'v batch_target \<Rightarrow> file_batcher \<Rightarrow> file_batcher \<times> ('u project_sync_error + nat)" where
  "batcher_finish t b = (case batcher_flush t b of (b, Inl e) \<Rightarrow> (b, Inl e) | (b, Inr _) \<Rightarrow> (b, Inr (fb_admitted b)))"

definition servable :: "'v batch_target \<Rightarrow> pypi_file \<Rightarrow> bool" where
  "servable t f \<longleftrightarrow> file_sha256 f \<noteq> None \<and> is_ok (fst (check_file (bt_formats t) (bt_policy t) Cached (bt_project t) f))"

definition batcher_file :: "'v batch_target \<Rightarrow> (file_batcher, 'u project_sync_error) detail_sink" where
  "batcher_file t f b =
     (let b = b\<lparr>fb_seen := fb_seen b + 1\<rparr> in
      if bt_max_files t < fb_seen b then (b, Inl SyncTooManyFiles)
      else if \<not> servable t f then (b, Inr ())
      else let b = b\<lparr>fb_batch := fb_batch b @ [f]\<rparr> in
        if length (fb_batch b) = PROJECT_FILE_BATCH then batcher_flush t b else (b, Inr ()))"

fun batch_files :: "'v batch_target \<Rightarrow> pypi_file list \<Rightarrow> file_batcher \<Rightarrow> file_batcher \<times> ('u project_sync_error + unit)" where
  "batch_files t [] b = (b, Inr ())"
| "batch_files t (f # fs) b = (case batcher_file t f b of (b, Inl e) \<Rightarrow> (b, Inl e) | (b, Inr _) \<Rightarrow> batch_files t fs b)"

text \<open>
  The two readers of a downloaded body: what \<open>serde_json\<close> reads of it, and the page \<open>parse_detail_html\<close> finds in it
  (a body that is not UTF-8 is an I/O error).
\<close>

record 'u detail_readers =
  dr_json :: "bytes \<Rightarrow> detail_text"
  dr_html :: "bytes \<Rightarrow> 'u project_sync_error + project_detail"

definition parse_project ::
    "'v batch_target \<Rightarrow> 'u detail_readers \<Rightarrow> (string \<Rightarrow> string) \<Rightarrow> string \<Rightarrow> bytes \<Rightarrow> history
      \<Rightarrow> history \<times> ('u project_sync_error + nat \<times> simple_meta \<times> string list)" where
  "parse_project t rd absol fmt body h =
     (let (b, header) =
        (if fmt = ''json'' then
           (case stream_detail_json absol (batcher_file t :: (file_batcher, 'u project_sync_error) detail_sink) (dr_json rd body) (file_batcher_new h) of
              (b, Inl e) \<Rightarrow> (b, Inl (SyncSimple e))
            | (b, Inr d) \<Rightarrow> (b, Inr (sd_meta d, sd_versions d)))
         else
           (case dr_html rd body of
              Inl e \<Rightarrow> (file_batcher_new h, Inl e)
            | Inr d \<Rightarrow>
                (case batch_files t (map (\<lambda>f. f\<lparr>fl_url := absol (fl_url f)\<rparr>) (dt_files d)) (file_batcher_new h) of
                   (b, Inl e) \<Rightarrow> (b, Inl e)
                 | (b, Inr _) \<Rightarrow> (b, Inr (dt_meta d, dt_versions d)))))
      in case header of
           Inl e \<Rightarrow> (fb_history b, Inl e)
         | Inr (meta, versions) \<Rightarrow>
             (case batcher_finish t b of
                (b, Inl e) \<Rightarrow> (fb_history b, Inl e)
              | (b, Inr admitted) \<Rightarrow> (fb_history b, Inr (admitted, meta, versions))))"

fun write_project_stream :: "nat \<Rightarrow> bytes \<Rightarrow> ('u + bytes) list \<Rightarrow> 'u project_sync_error + bytes" where
  "write_project_stream limit written [] = Inr written"
| "write_project_stream limit written (Inl e # chunks) = Inl (SyncUpstream e)"
| "write_project_stream limit written (Inr chunk # chunks) =
     (case checked_add_u64 (length written) (length chunk) of
        None \<Rightarrow> Inl SyncTooLarge
      | Some n \<Rightarrow> if n \<le> limit then write_project_stream limit (written @ chunk) chunks else Inl SyncTooLarge)"

text \<open>The surroundings of a synchronization: the client, whether the temporary file can be written, URL handling, clock.\<close>

record 'u sync_env =
  se_head :: "string option \<Rightarrow> 'u + 'u simple_head"
  se_disk_ok :: bool
  se_redact :: "string \<Rightarrow> string"
  se_absolutize :: "string \<Rightarrow> string \<Rightarrow> string"
  se_readers :: "'u detail_readers"
  se_now :: int

definition is_json :: "string option \<Rightarrow> bool" where
  "is_json content_type \<longleftrightarrow> is_none_or content_type (\<lambda>ct. contains_str ct ''json'')"

definition publish_project_response ::
    "'u sync_env \<Rightarrow> 'v batch_target \<Rightarrow> string \<Rightarrow> 'u simple_head \<Rightarrow> history \<Rightarrow> history \<times> ('u project_sync_error + project_sync_outcome)" where
  "publish_project_response env t fallback_source head h =
     (if sh_status head = 200 \<and> is_some_and (sh_content_length head) (\<lambda>n. MAX_PROJECT_BYTES < n) then (h, Inl SyncTooLarge)
      else if sh_status head \<noteq> 200 then (h, Inl (SyncStatus (sh_status head)))
      else if \<not> se_disk_ok env then (h, Inl SyncIo)
      else let source = unwrap_or (se_redact env fallback_source) (sh_source head);
               fmt = (if is_json (sh_content_type head) then ''json'' else ''html'')
           in case write_project_stream MAX_PROJECT_BYTES [] (sh_stream head) of
             Inl e \<Rightarrow> (h, Inl e)
           | Inr body \<Rightarrow>
               (case push h (begin_project_generation (bt_codec t) (hd h) (bt_index t) (bt_project t)) of
                  (h, Inl e) \<Rightarrow> (h, Inl (SyncStore e))
                | (h, Inr (generation, expected_active)) \<Rightarrow>
                    let t = t\<lparr>bt_generation := generation, bt_source := source, bt_max_files := MAX_PROJECT_FILES\<rparr>
                    in case parse_project t (se_readers env) (se_absolutize env (sh_url head)) fmt body h of
                         (h, Inl err) \<Rightarrow>
                           (case abort_project_generation (bt_codec t) h (bt_index t) (bt_project t) generation of
                              (h, Inl e) \<Rightarrow> (h, Inl (SyncStore e)) | (h, Inr _) \<Rightarrow> (h, Inl err))
                       | (h, Inr (files, meta, versions)) \<Rightarrow>
                           let record = \<lparr>pgn_generation = generation, pgn_source = source, pgn_url = se_redact env (sh_url head),
                                 pgn_format = fmt, pgn_etag = sh_etag head, pgn_last_modified = sh_last_modified head,
                                 pgn_last_serial = sh_last_serial head, pgn_fetched_at_unix = se_now env, pgn_bytes = length body,
                                 pgn_files = files, pgn_versions = versions, pgn_project_status = sm_project_status meta,
                                 pgn_project_status_reason = sm_project_status_reason meta\<rparr>
                           in case push h (publish_project_generation (bt_codec t) (hd h) (bt_index t) (bt_project t) expected_active record) of
                                (h, Inl e) \<Rightarrow> (h, Inl (SyncStore e))
                              | (h, Inr _) \<Rightarrow>
                                  (case recover_project_generations (bt_codec t) h (bt_index t) (bt_project t) of
                                     (h, Inl e) \<Rightarrow> (h, Inl (SyncStore e))
                                   | (h, Inr _) \<Rightarrow> (h, Inr (SyncPublished files)))))"

text \<open>The conditional request and what its answer leads to.\<close>

definition sync_answer ::
    "'u sync_env \<Rightarrow> 'v batch_target \<Rightarrow> string \<Rightarrow> project_generation option \<Rightarrow> history \<Rightarrow> history \<times> ('u project_sync_error + project_sync_outcome)" where
  "sync_answer env t fallback_source previous h =
     (case se_head env (Option.bind previous pgn_etag) of
        Inl e \<Rightarrow> (h, Inl (SyncUpstream e))
      | Inr head \<Rightarrow>
          if sh_status head = 304 then
            (case previous of
               None \<Rightarrow> (h, Inl (SyncStore (DriverPrecondition ''upstream returned 304 without an active project generation'')))
             | Some a \<Rightarrow>
                 (case push h (refresh_project_generation (bt_codec t) (hd h) (bt_index t) (bt_project t) (pgn_generation a)
                     (sh_etag head) (sh_last_modified head) (se_now env)) of
                    (h, Inl e) \<Rightarrow> (h, Inl (SyncStore e))
                  | (h, Inr _) \<Rightarrow> (h, Inr (SyncNotModified (pgn_files a)))))
          else if sh_status head = 404 then (h, Inr SyncMissing)
          else publish_project_response env t fallback_source head h)"

text \<open>\<open>waited\<close>: another task held the lock of the project; the lock itself makes the synchronizations of one project sequential.\<close>

definition sync_project_files ::
    "'u sync_env \<Rightarrow> 'v batch_target \<Rightarrow> bool \<Rightarrow> string \<Rightarrow> history \<Rightarrow> history \<times> ('u project_sync_error + project_sync_outcome)" where
  "sync_project_files env t waited fallback_source h =
     (case if waited then active_project_generation (bt_codec t) (hd h) (bt_index t) (bt_project t) else Inr None of
        Inl e \<Rightarrow> (h, Inl (SyncStore e))
      | Inr (Some a) \<Rightarrow> (h, Inr (SyncNotModified (pgn_files a)))
      | Inr None \<Rightarrow>
          (case recover_project_generations (bt_codec t) h (bt_index t) (bt_project t) of
             (h, Inl e) \<Rightarrow> (h, Inl (SyncStore e))
           | (h, Inr _) \<Rightarrow>
               (case active_project_generation (bt_codec t) (hd h) (bt_index t) (bt_project t) of
                  Inl e \<Rightarrow> (h, Inl (SyncStore e))
                | Inr previous \<Rightarrow> sync_answer env t fallback_source previous h)))"

section \<open>Counting staged files\<close>

lemma stage_files_find: "stage_files to_json fs Map.empty k = map_option to_json (List.find (\<lambda>f. fl_filename f = k) fs)"
proof -
  have "stage_files to_json fs m k = (case m k of Some v \<Rightarrow> Some v | None \<Rightarrow> map_option to_json (List.find (\<lambda>f. fl_filename f = k) fs))" for m
  proof (induction fs arbitrary: m)
    case (Cons f fs)
    have "stage_files to_json (f # fs) m = stage_files to_json fs (if m (fl_filename f) \<noteq> None then m else m(fl_filename f \<mapsto> to_json f))"
      by (simp add: stage_files_def)
    with Cons show ?case by (auto split: option.split)
  qed (simp add: stage_files_def split: option.split)
  then show ?thesis by simp
qed

lemma stage_files_dom: "dom (stage_files to_json fs m) = dom m \<union> fl_filename ` set fs"
proof (induction fs arbitrary: m)
  case (Cons f fs)
  have "stage_files to_json (f # fs) m = stage_files to_json fs (if m (fl_filename f) \<noteq> None then m else m(fl_filename f \<mapsto> to_json f))"
    by (simp add: stage_files_def)
  with Cons show ?case by auto
qed (simp add: stage_files_def)

lemma stage_fold_count:
  assumes "t_wf (dt_table txn)" "g \<le> u64_max" "fold (stage_file to_json i n g src up) files (k, txn) = (k', txn')"
    "finite (dom (\<lambda>x. t_get (dt_table txn) (project_file_key i n g x)))"
  shows "card (dom (\<lambda>x. t_get (dt_table txn') (project_file_key i n g x))) + k
    = card (dom (\<lambda>x. t_get (dt_table txn) (project_file_key i n g x))) + k'"
  using assms
proof (induction files arbitrary: k txn)
  case (Cons f files)
  obtain k1 txn1 where s1: "stage_file to_json i n g src up f (k, txn) = (k1, txn1)" by (cases "stage_file to_json i n g src up f (k, txn)")
  note one = stage_file_rows [OF Cons.prems(1,2) s1]
  let ?m = "\<lambda>x. t_get (dt_table txn) (project_file_key i n g x)" and ?m1 = "\<lambda>x. t_get (dt_table txn1) (project_file_key i n g x)"
  have d: "dom ?m1 = insert (fl_filename f) (dom ?m)" using stage_files_dom [of to_json "[f]" ?m] one(3) by simp
  have "k1 = (if fl_filename f \<in> dom ?m then k else Suc k)"
    using s1 by (auto simp: stage_file_def Let_def txn_get_def split: if_splits)
  then have "card (dom ?m1) + k = card (dom ?m) + k1" using Cons.prems(4) unfolding d by (simp add: insert_absorb)
  moreover have "fold (stage_file to_json i n g src up) files (k1, txn1) = (k', txn')" using Cons.prems(3) s1 by simp
  note Cons.IH [OF one(1) Cons.prems(2) this]
  ultimately show ?case using d Cons.prems(4) by simp
qed simp

lemma put_project_count:
  assumes "t_wf (driver_kv s)" "g \<le> u64_max" "put_project_files c to_json s i n g src up files = Inr (k, s')"
    "finite (dom (\<lambda>x. get_driver_value s (project_file_key i n g x)))"
  shows "card (dom (\<lambda>x. get_driver_value s' (project_file_key i n g x))) = card (dom (\<lambda>x. get_driver_value s (project_file_key i n g x))) + k"
proof -
  obtain p where p: "project_meta_state c s i n = Inr p" "pub_staging p = Some g"
    using assms(3) by (auto simp: put_project_files_def commit_driver_txn_def commit_driver_txn_at_def project_meta_state_def result_simps split: if_splits)
  obtain k0 txn where f: "fold (stage_file to_json i n g src up) files (0, open_txn s) = (k0, txn)"
    by (cases "fold (stage_file to_json i n g src up) files (0, open_txn s)")
  have "put_project_files c to_json s i n g src up files = Inr (k0, s\<lparr>driver_kv := dt_table txn\<rparr>)"
    unfolding put_project_files_def using p f by (subst commit_plain) (auto simp: project_meta_state_def)
  then have "k = k0" "s' = s\<lparr>driver_kv := dt_table txn\<rparr>" using assms(3) by auto
  moreover have "t_wf (dt_table (open_txn s))" using assms(1) by (simp add: open_txn_def)
  ultimately show ?thesis
    using stage_fold_count [OF _ assms(2) f] assms(4) by (simp add: get_driver_value_def open_txn_def)
qed

section \<open>Batches\<close>

text \<open>The batcher has taken \<open>fs\<close>: the servable ones are staged or pending, and counted by filename.\<close>

definition batching :: "'v batch_target \<Rightarrow> project_generation publication \<Rightarrow> history \<Rightarrow> pypi_file list \<Rightarrow> file_batcher \<Rightarrow> bool" where
  "batching t p h fs b \<longleftrightarrow> pb.staging (bt_codec t) (bt_index t) (bt_project t) (bt_to_json t) h (bt_generation t) p
       (filter (servable t) fs) (fb_history b) (fb_batch b)
     \<and> fb_admitted b = card (dom (\<lambda>x. get_driver_value (hd (fb_history b)) (project_file_key (bt_index t) (bt_project t) (bt_generation t) x)))
     \<and> fb_seen b = length fs \<and> length fs \<le> bt_max_files t"

definition parked :: "'v batch_target \<Rightarrow> project_generation publication \<Rightarrow> history \<Rightarrow> history \<Rightarrow> bool" where
  "parked t p h h' \<longleftrightarrow> (\<exists>xs batch. pb.staging (bt_codec t) (bt_index t) (bt_project t) (bt_to_json t) h (bt_generation t) p xs h' batch)"

definition sync_ready :: "'v batch_target \<Rightarrow> history \<Rightarrow> bool" where
  "sync_ready t h \<longleftrightarrow> h \<noteq> [] \<and> pg.pinv (bt_codec t) (bt_index t) (bt_project t) (hd h)"

lemma batching_parked: "batching t p h fs b \<Longrightarrow> parked t p h (fb_history b)"
  by (auto simp: batching_def parked_def)

lemma batching_flush:
  assumes "sync_ready t h" "batching t p h fs b" "batcher_flush t b = (b', r)"
  shows "r = Inr () \<and> batching t p h fs b' \<and> fb_batch b' = []"
proof -
  let ?c = "bt_codec t" and ?i = "bt_index t" and ?n = "bt_project t" and ?g = "bt_generation t" and ?s = "hd (fb_history b)"
  have h: "h \<noteq> []" "pg.pinv ?c ?i ?n (hd h)" using assms(1) by (auto simp: sync_ready_def)
  have st: "pb.staging ?c ?i ?n (bt_to_json t) h ?g p (filter (servable t) fs) (fb_history b) (fb_batch b)"
    and adm: "fb_admitted b = card (dom (\<lambda>x. get_driver_value ?s (project_file_key ?i ?n ?g x)))"
      "fb_seen b = length fs" "length fs \<le> bt_max_files t"
    using assms(2) by (auto simp: batching_def)
  obtain written s' where put: "put_project_files ?c (bt_to_json t) ?s ?i ?n ?g (bt_source t) None (fb_batch b) = Inr (written, s')"
    and st': "pb.staging ?c ?i ?n (bt_to_json t) h ?g p (filter (servable t) fs) (s' # fb_history b) []"
    using pb.staging_flush [OF h st, of "bt_source t" None] by blast
  obtain xs where q: "extends_quietly (pg.pinv ?c ?i ?n) (pg.view ?c ?i ?n) h (fb_history b)" "project_meta_state ?c ?s ?i ?n = Inr p" "pub_staging p = Some ?g"
    "(\<lambda>x. get_driver_value ?s (project_file_key ?i ?n ?g x)) = stage_files (bt_to_json t) xs Map.empty"
    using st unfolding pb.staging_def by blast
  have "pg.pinv ?c ?i ?n ?s" using quiet_hd [OF q(1) h] by blast
  then have ok: "t_wf (driver_kv ?s)" "?g \<le> u64_max"
    using q(2) pg.pub_ok_bounds(2) [OF _ q(3)] by (auto elim!: pg.pinvE)
  have "finite (dom (\<lambda>x. get_driver_value ?s (project_file_key ?i ?n ?g x)))" unfolding q(4) stage_files_dom by simp
  note count = put_project_count [OF ok put this]
  show ?thesis using put st' adm count assms(3) by (auto simp: batcher_flush_def batching_def)
qed

lemma batching_file:
  assumes "sync_ready t h" "batching t p h fs b" "batcher_file t f b = (b', r)"
  shows "parked t p h (fb_history b') \<and> (is_ok r \<longrightarrow> batching t p h (fs @ [f]) b')"
proof (cases "bt_max_files t < fb_seen b + 1 \<or> \<not> servable t f")
  case True
  with assms(2,3) batching_parked [OF assms(2)] show ?thesis
    by (auto simp: batcher_file_def Let_def batching_def split: if_splits)
next
  case False
  let ?b = "b\<lparr>fb_seen := fb_seen b + 1, fb_batch := fb_batch b @ [f]\<rparr>"
  have b: "batching t p h (fs @ [f]) ?b" using assms(2) False by (auto simp: batching_def intro: pb.staging_add)
  show ?thesis
  proof (cases "length (fb_batch ?b) = PROJECT_FILE_BATCH")
    case True
    with False assms(3) have "batcher_flush t ?b = (b', r)" by (simp add: batcher_file_def Let_def)
    from batching_flush [OF assms(1) b this] show ?thesis by (auto dest: batching_parked)
  next
    case not_full: False
    with False assms(3) have "b' = ?b" by (simp add: batcher_file_def Let_def)
    with b show ?thesis by (auto dest: batching_parked)
  qed
qed

definition files_of :: "(string \<Rightarrow> string) \<Rightarrow> json_doc list \<Rightarrow> pypi_file list" where
  "files_of absol xs = map (\<lambda>x. let f = the (file_of_json x) in f\<lparr>fl_url := absol (fl_url f)\<rparr>) xs"

lemma visit_files_batching:
  assumes "sync_ready t h" "batching t p h fs b"
    "visit_files absol (batcher_file t :: (file_batcher, 'u project_sync_error) detail_sink) xs b = (b', ok)"
  shows "parked t p h (fb_history b') \<and> (ok \<longrightarrow> batching t p h (fs @ files_of absol xs) b')"
  using assms(2,3)
proof (induction xs arbitrary: fs b)
  case Nil
  then show ?case by (auto simp: files_of_def dest: batching_parked)
next
  case (Cons x xs)
  show ?case
  proof (cases "file_of_json x")
    case None
    with Cons.prems show ?thesis by (auto dest: batching_parked)
  next
    case (Some f)
    let ?f = "f\<lparr>fl_url := absol (fl_url f)\<rparr>"
    obtain b1 and r :: "'u project_sync_error + unit" where b1: "batcher_file t ?f b = (b1, r)" by (cases "batcher_file t ?f b :: _ \<times> ('u project_sync_error + unit)")
    note one = batching_file [OF assms(1) Cons.prems(1) b1]
    show ?thesis
    proof (cases "is_ok r")
      case True
      with Some b1 Cons.prems(2) have "visit_files absol (batcher_file t :: (file_batcher, 'u project_sync_error) detail_sink) xs b1 = (b', ok)" by simp
      with Cons.IH [of "fs @ [?f]" b1] one True Some show ?thesis by (simp add: files_of_def)
    next
      case False
      with Some b1 Cons.prems(2) one show ?thesis by simp
    qed
  qed
qed

definition detail_files :: "(string \<Rightarrow> string) \<Rightarrow> (string \<times> json_doc) list \<Rightarrow> pypi_file list" where
  "detail_files absol entries = concat (map (\<lambda>(key, v). if key = ''files'' then files_of absol (the (as_array v)) else []) entries)"

lemma visit_detail_batching:
  assumes "sync_ready t h" "batching t p h fs b"
    "visit_detail absol (batcher_file t :: (file_batcher, 'u project_sync_error) detail_sink) entries hdr b = (b', r)"
  shows "parked t p h (fb_history b') \<and> (r \<noteq> None \<longrightarrow> batching t p h (fs @ detail_files absol entries) b')"
  using assms(2,3)
proof (induction absol "batcher_file t :: (file_batcher, 'u project_sync_error) detail_sink" entries hdr b arbitrary: fs rule: visit_detail.induct)
  case (1 absol hdr b)
  then show ?case by (auto simp: detail_files_def dest: batching_parked)
next
  case (2 absol key v rest hdr b)
  show ?case
  proof (cases "key = ''files''")
    case True
    show ?thesis
    proof (cases "as_array v")
      case None
      with True "2.prems" show ?thesis by (auto dest: batching_parked)
    next
      case (Some xs)
      obtain b1 ok where b1: "visit_files absol (batcher_file t :: (file_batcher, 'u project_sync_error) detail_sink) xs b = (b1, ok)"
        by (cases "visit_files absol (batcher_file t :: (file_batcher, 'u project_sync_error) detail_sink) xs b")
      note one = visit_files_batching [OF assms(1) "2.prems"(1) b1]
      show ?thesis
      proof (cases ok)
        case ok: True
        have "visit_detail absol (batcher_file t :: (file_batcher, 'u project_sync_error) detail_sink) rest hdr b1 = (b', r)"
          using "2.prems"(2) True Some b1 ok by simp
        from "2.hyps"(4) [OF _ _ _ True Some b1 [symmetric] ok _ this, of "fs @ files_of absol xs"] one ok True Some
        show ?thesis by (simp add: detail_files_def)
      next
        case False
        with "2.prems"(2) True Some b1 one show ?thesis by simp
      qed
    qed
  next
    case False
    with 2 show ?thesis by (auto simp: detail_files_def split: if_splits option.splits dest: batching_parked)
  qed
qed

lemma batch_files_batching:
  assumes "sync_ready t h" "batching t p h fs b"
    "batch_files t gs b = (b', r :: 'u project_sync_error + unit)"
  shows "parked t p h (fb_history b') \<and> (is_ok r \<longrightarrow> batching t p h (fs @ gs) b')"
  using assms(2,3)
proof (induction gs arbitrary: fs b)
  case Nil
  then show ?case by (auto dest: batching_parked)
next
  case (Cons f gs)
  obtain b1 and r1 :: "'u project_sync_error + unit" where b1: "batcher_file t f b = (b1, r1)"
    by (cases "batcher_file t f b :: _ \<times> ('u project_sync_error + unit)")
  note one = batching_file [OF assms(1) Cons.prems(1) b1]
  show ?case
  proof (cases r1)
    case (Inl e)
    with b1 Cons.prems(2) one show ?thesis by auto
  next
    case (Inr u)
    with b1 Cons.prems(2) have "batch_files t gs b1 = (b', r)" by simp
    with Cons.IH [of "fs @ [f]" b1] one Inr show ?thesis by simp
  qed
qed

definition read_files :: "'u detail_readers \<Rightarrow> (string \<Rightarrow> string) \<Rightarrow> string \<Rightarrow> bytes \<Rightarrow> pypi_file list" where
  "read_files rd absol fmt body = (if fmt = ''json'' then detail_files absol (fst (dr_json rd body))
     else case dr_html rd body of Inl _ \<Rightarrow> [] | Inr d \<Rightarrow> map (\<lambda>f. f\<lparr>fl_url := absol (fl_url f)\<rparr>) (dt_files d))"

lemma stream_batching:
  assumes "sync_ready t h" "batching t p h fs b"
    "stream_detail_json absol (batcher_file t :: (file_batcher, 'u project_sync_error) detail_sink) body b = (b', r)"
  shows "parked t p h (fb_history b') \<and> (is_ok r \<longrightarrow> batching t p h (fs @ detail_files absol (fst body)) b')"
proof -
  let ?sink = "batcher_file t :: (file_batcher, 'u project_sync_error) detail_sink"
  obtain b1 r1 where b1: "visit_detail absol ?sink (fst body) header_default b = (b1, r1)"
    by (cases "visit_detail absol ?sink (fst body) header_default b")
  note one = visit_detail_batching [OF assms(1,2) b1]
  show ?thesis
  proof (cases "r1 \<noteq> None \<and> snd body \<noteq> Complete")
    case True
    then obtain xs hdr where xs: "snd body = Broken xs" "r1 = Some hdr" by (cases "snd body") auto
    obtain b2 ok where b2: "visit_files absol ?sink xs b1 = (b2, ok)" by (cases "visit_files absol ?sink xs b1")
    have "batching t p h (fs @ detail_files absol (fst body)) b1" using one xs(2) by simp
    from visit_files_batching [OF assms(1) this b2] show ?thesis using assms(3) b1 b2 xs by (auto simp: stream_detail_json_def)
  next
    case False
    with assms(3) b1 one show ?thesis by (auto simp: stream_detail_json_def split: option.splits detail_end.splits)
  qed
qed

lemma batching_done:
  assumes "sync_ready t h" "batching t p h fs b" "fb_batch b = []"
  shows "fb_admitted b = card (fl_filename ` set (filter (servable t) fs))"
    "pb.staging (bt_codec t) (bt_index t) (bt_project t) (bt_to_json t) h (bt_generation t) p (filter (servable t) fs) (fb_history b) []"
proof -
  show st: "pb.staging (bt_codec t) (bt_index t) (bt_project t) (bt_to_json t) h (bt_generation t) p (filter (servable t) fs) (fb_history b) []"
    using assms(2,3) by (simp add: batching_def)
  then have "(\<lambda>x. get_driver_value (hd (fb_history b)) (project_file_key (bt_index t) (bt_project t) (bt_generation t) x))
      = stage_files (bt_to_json t) (filter (servable t) fs) Map.empty" by (auto simp: pb.staging_def)
  with assms(2) show "fb_admitted b = card (fl_filename ` set (filter (servable t) fs))"
    by (simp only: batching_def stage_files_dom) simp
qed

lemma finish_batching:
  assumes "sync_ready t h" "batching t p h fs b" "batcher_finish t b = (b', r :: 'u project_sync_error + nat)"
  shows "r = Inr (card (fl_filename ` set (filter (servable t) fs))) \<and> length fs \<le> bt_max_files t
    \<and> pb.staging (bt_codec t) (bt_index t) (bt_project t) (bt_to_json t) h (bt_generation t) p (filter (servable t) fs) (fb_history b') []"
proof -
  obtain b2 and r2 :: "'u project_sync_error + unit" where f2: "batcher_flush t b = (b2, r2)"
    by (cases "batcher_flush t b :: _ \<times> ('u project_sync_error + unit)")
  have fl2: "batching t p h fs b2" "fb_batch b2 = []" "r2 = Inr ()" using batching_flush [OF assms(1,2) f2] by auto
  show ?thesis using fl2 batching_done [OF assms(1) fl2(1,2)] assms(3) f2 by (auto simp: batcher_finish_def batching_def)
qed

lemma parse_batching:
  fixes rd :: "'u detail_readers"
  assumes "sync_ready t h" "batching t p h [] (file_batcher_new h1)" "parse_project t rd absol fmt body h1 = (h', r)"
  shows "case r of Inl e \<Rightarrow> parked t p h h'
    | Inr (files, meta, versions) \<Rightarrow> files = card (fl_filename ` set (filter (servable t) (read_files rd absol fmt body)))
        \<and> length (read_files rd absol fmt body) \<le> bt_max_files t
        \<and> pb.staging (bt_codec t) (bt_index t) (bt_project t) (bt_to_json t) h (bt_generation t) p
            (filter (servable t) (read_files rd absol fmt body)) h' []"
proof -
  have finish: ?thesis
    if "batching t p h (read_files rd absol fmt body) b" "(case batcher_finish t b of (b, Inl e) \<Rightarrow> (fb_history b, Inl e)
      | (b, Inr admitted) \<Rightarrow> (fb_history b, Inr (admitted, m, v))) = (h', r)" for b m v
  proof -
    obtain b1 and r1 :: "'u project_sync_error + nat" where f: "batcher_finish t b = (b1, r1)"
      by (cases "batcher_finish t b :: _ \<times> ('u project_sync_error + nat)")
    from that(2) finish_batching [OF assms(1) that(1) f] f show ?thesis by auto
  qed
  show ?thesis
  proof (cases "fmt = ''json''")
    case True
    obtain b1 r1 where b1: "stream_detail_json absol (batcher_file t :: (file_batcher, 'u project_sync_error) detail_sink) (dr_json rd body) (file_batcher_new h1) = (b1, r1)"
      by (cases "stream_detail_json absol (batcher_file t :: (file_batcher, 'u project_sync_error) detail_sink) (dr_json rd body) (file_batcher_new h1)")
    note one = stream_batching [OF assms(1,2) b1]
    show ?thesis
    proof (cases r1)
      case (Inl e)
      with assms(3) True b1 one show ?thesis by (auto simp: parse_project_def)
    next
      case (Inr d)
      with one have "batching t p h (read_files rd absol fmt body) b1" using True by (simp add: read_files_def)
      from finish [OF this, of "sd_meta d" "sd_versions d"] show ?thesis using assms(3) True b1 Inr by (simp add: parse_project_def)
    qed
  next
    case html: False
    show ?thesis
    proof (cases "dr_html rd body")
      case (Inl e)
      with assms(2,3) html show ?thesis by (auto simp: parse_project_def dest!: batching_parked)
    next
      case (Inr d)
      let ?fs = "map (\<lambda>f. f\<lparr>fl_url := absol (fl_url f)\<rparr>) (dt_files d)"
      obtain b1 and r1 :: "'u project_sync_error + unit" where b1: "batch_files t ?fs (file_batcher_new h1) = (b1, r1)"
        by (cases "batch_files t ?fs (file_batcher_new h1) :: _ \<times> ('u project_sync_error + unit)")
      note one = batch_files_batching [OF assms(1,2) b1]
      show ?thesis
      proof (cases r1)
        case (Inl e)
        with assms(3) html Inr b1 one show ?thesis by (auto simp: parse_project_def)
      next
        case ok: (Inr u)
        with one have "batching t p h (read_files rd absol fmt body) b1" using html Inr by (simp add: read_files_def)
        from finish [OF this, of "dt_meta d" "dt_versions d"] show ?thesis using assms(3) html Inr b1 ok by (simp add: parse_project_def)
      qed
    qed
  qed
qed

section \<open>What a synchronization leaves\<close>

text \<open>What readers of a project see: the active generation and its rows.  The store is sound when the publication state
  decodes, numbers its generations below the next one and holds no rows above it.\<close>

definition project_view ::
    "project_generation publication codec \<Rightarrow> string \<Rightarrow> string \<Rightarrow> meta_store \<Rightarrow> project_generation option \<times> (string \<Rightarrow> bytes option)" where
  "project_view c i n s = (case project_meta_state c s i n of Inl e \<Rightarrow> (None, Map.empty)
     | Inr p \<Rightarrow> (pub_active p, case pub_active p of None \<Rightarrow> Map.empty
         | Some a \<Rightarrow> (\<lambda>x. get_driver_value s (project_file_key i n (pgn_generation a) x))))"

definition project_store_ok :: "project_generation publication codec \<Rightarrow> string \<Rightarrow> string \<Rightarrow> meta_store \<Rightarrow> bool" where
  "project_store_ok c i n s \<longleftrightarrow> (codec_ok c \<and> t_wf (driver_kv s)) \<and> (\<exists>p. project_meta_state c s i n = Inr p \<and> pub_ok pgn_generation p
     \<and> (\<forall>g. pub_next_generation p < g \<longrightarrow> g \<le> u64_max \<longrightarrow> (\<lambda>x. get_driver_value s (project_file_key i n g x)) = Map.empty))"

lemma project_view_eq: "pg.view c i n = project_view c i n"
  by (rule ext) (simp add: pg.view_def project_view_def)

lemma project_store_ok_eq: "pg.pinv c i n = project_store_ok c i n"
  by (rule ext) (simp add: pg.pinv_def project_store_ok_def)

lemma write_stream_bound: "write_project_stream limit w chunks = Inr body \<Longrightarrow> length w \<le> limit \<Longrightarrow> length body \<le> limit"
proof (induction limit w chunks rule: write_project_stream.induct)
  case (3 limit w chunk chunks)
  then show ?case by (auto simp: checked_add_u64_def split: if_splits)
qed auto

lemma servable_target [simp]: "servable (t\<lparr>bt_generation := g, bt_source := src, bt_max_files := m\<rparr>) = servable t"
  by (rule ext) (simp add: servable_def)

definition response_files :: "'u sync_env \<Rightarrow> 'u simple_head \<Rightarrow> bytes \<Rightarrow> pypi_file list" where
  "response_files env head body = read_files (se_readers env) (se_absolutize env (sh_url head))
     (if is_json (sh_content_type head) then ''json'' else ''html'') body"

lemma publish_response_batching:
  assumes "sync_ready t h" "project_meta_state (bt_codec t) (hd h) (bt_index t) (bt_project t) = Inr p" "pub_next_generation p < u64_max"
    "publish_project_response env t fallback_source head h = (h', r)"
  shows "case r of Inl e \<Rightarrow> extends_quietly (pg.pinv (bt_codec t) (bt_index t) (bt_project t)) (pg.view (bt_codec t) (bt_index t) (bt_project t)) h h'
    | Inr outcome \<Rightarrow> \<exists>a body. let kept = filter (servable t) (response_files env head body) in
        sh_status head = 200 \<and> write_project_stream MAX_PROJECT_BYTES [] (sh_stream head) = Inr body
        \<and> length (response_files env head body) \<le> MAX_PROJECT_FILES
        \<and> outcome = SyncPublished (pgn_files a) \<and> pgn_files a = card (fl_filename ` set kept)
        \<and> pb.switches (bt_codec t) (bt_index t) (bt_project t) h h' (Some a, stage_files (bt_to_json t) kept Map.empty)"
proof (cases "sh_status head = 200 \<and> \<not> is_some_and (sh_content_length head) (\<lambda>n. MAX_PROJECT_BYTES < n) \<and> se_disk_ok env")
  case False
  with assms(4) show ?thesis by (auto simp: publish_project_response_def split: if_splits)
next
  case go: True
  show ?thesis
  proof (cases "write_project_stream MAX_PROJECT_BYTES [] (sh_stream head)")
    case (Inl e)
    with assms(4) go show ?thesis by (auto simp: publish_project_response_def)
  next
    case (Inr body)
    let ?c = "bt_codec t" and ?i = "bt_index t" and ?n = "bt_project t"
    let ?g = "Suc (pub_next_generation p)"
    let ?fmt = "if is_json (sh_content_type head) then ''json'' else ''html''"
    let ?src = "unwrap_or (se_redact env fallback_source) (sh_source head)"
    let ?t = "t\<lparr>bt_generation := ?g, bt_source := ?src, bt_max_files := MAX_PROJECT_FILES\<rparr>"
    have h: "h \<noteq> []" "pg.pinv ?c ?i ?n (hd h)" using assms(1) by (auto simp: sync_ready_def)
    define p' where "p' = p\<lparr>pub_next_generation := ?g, pub_staging := Some ?g\<rparr>"
    have p': "pub_active p' = pub_active p" by (simp add: p'_def)
    obtain s' where beg: "begin_project_generation ?c (hd h) ?i ?n = Inr ((?g, map_option pgn_generation (pub_active p)), s')"
      and st: "pb.staging ?c ?i ?n (bt_to_json t) h ?g p' [] (s' # h) []"
      using pb.staging_begin [OF h assms(2,3), of "bt_to_json t"] unfolding p'_def by blast
    have ready: "sync_ready ?t h" using assms(1) by (simp add: sync_ready_def)
    have b: "batching ?t p' h [] (file_batcher_new (s' # h))"
      using st by (auto simp: batching_def file_batcher_new_def pb.staging_def stage_files_def)
    obtain h2 r2 where parse: "parse_project ?t (se_readers env) (se_absolutize env (sh_url head)) ?fmt body (s' # h) = (h2, r2)"
      by (cases "parse_project ?t (se_readers env) (se_absolutize env (sh_url head)) ?fmt body (s' # h)")
    note one = parse_batching [OF ready b parse]
    show ?thesis
    proof (cases r2)
      case (Inl e)
      with one have "parked ?t p' h h2" by simp
      then obtain xs batch where "pb.staging ?c ?i ?n (bt_to_json t) h ?g p' xs h2 batch" by (auto simp: parked_def)
      from pb.staging_abort [OF h this] obtain h3 where "abort_project_generation ?c h2 ?i ?n ?g = (h3, Inr ())"
        "extends_quietly (pg.pinv ?c ?i ?n) (pg.view ?c ?i ?n) h h3" by blast
      with assms(4) go beg Inr parse Inl show ?thesis by (auto simp: publish_project_response_def push_def Let_def)
    next
      case ok: (Inr res)
      obtain files meta versions where res: "res = (files, meta, versions)" by (cases res)
      have kept: "files = card (fl_filename ` set (filter (servable t) (response_files env head body)))"
        "length (response_files env head body) \<le> MAX_PROJECT_FILES"
        and st2: "pb.staging ?c ?i ?n (bt_to_json t) h ?g p' (filter (servable t) (response_files env head body)) h2 []"
        using one ok res by (simp_all add: response_files_def)
      let ?a = "\<lparr>pgn_generation = ?g, pgn_source = ?src, pgn_url = se_redact env (sh_url head),
         pgn_format = ?fmt, pgn_etag = sh_etag head, pgn_last_modified = sh_last_modified head,
         pgn_last_serial = sh_last_serial head, pgn_fetched_at_unix = se_now env, pgn_bytes = length body,
         pgn_files = files, pgn_versions = versions, pgn_project_status = sm_project_status meta,
         pgn_project_status_reason = sm_project_status_reason meta\<rparr>"
      obtain s3 h3 where pub: "publish_project_generation ?c (hd h2) ?i ?n (map_option pgn_generation (pub_active p)) ?a = Inr ((), s3)"
        "recover_project_generations ?c (s3 # h2) ?i ?n = (h3, Inr ())"
        "pb.switches ?c ?i ?n h h3 (Some ?a, stage_files (bt_to_json t) (filter (servable t) (response_files env head body)) Map.empty)"
        using pb.staging_publish [OF h st2, of ?a] p' by auto
      have "h' = h3" "r = Inr (SyncPublished files)"
        using assms(4) go beg Inr parse ok res pub(1,2) by (simp_all add: publish_project_response_def push_def Let_def)
      then show ?thesis using go Inr kept pub(3)
        by (simp only: sum.case Let_def) (intro exI [of _ ?a] exI [of _ body], simp)
    qed
  qed
qed

lemma refresh_keeps_rows:
  assumes "project_store_ok c i n s" "project_meta_state c s i n = Inr p" "pub_active p = Some a"
  shows "\<exists>s' a'. refresh_project_generation c s i n (pgn_generation a) etag modified at = Inr ((), s') \<and> project_store_ok c i n s'
    \<and> pgn_generation a' = pgn_generation a \<and> pgn_files a' = pgn_files a \<and> project_view c i n s' = (Some a', snd (project_view c i n s))"
proof -
  define a' where "a' = (let b = (if etag \<noteq> None then a\<lparr>pgn_etag := etag\<rparr> else a);
    b = (if modified \<noteq> None then b\<lparr>pgn_last_modified := modified\<rparr> else b) in b\<lparr>pgn_fetched_at_unix := at\<rparr>)"
  have a': "pgn_generation a' = pgn_generation a" "pgn_files a' = pgn_files a" by (simp_all add: a'_def Let_def)
  let ?s = "with_row s (project_meta_key i n) (enc c (p\<lparr>pub_active := Some a'\<rparr>))"
  have r: "refresh_project_generation c s i n (pgn_generation a) etag modified at = Inr ((), ?s)"
    unfolding refresh_project_generation_def using assms(2,3)
    by (subst commit_plain) (auto simp: project_meta_state_def Let_def store_project_meta_state_def put_local_open a'_def)
  have c: "codec_ok c" using assms(1) by (simp add: project_store_ok_def)
  note st = project_state_written [OF c, of s i n "p\<lparr>pub_active := Some a'\<rparr>"]
  have rows: "get_driver_value ?s (project_file_key i n g x) = get_driver_value s (project_file_key i n g x)" for g x
    by (simp add: project_file_key_def meta_key_not_row [symmetric])
  have "project_store_ok c i n ?s"
    using assms a' unfolding project_store_ok_def st rows by (auto simp: pub_ok_def split: option.splits)
  moreover have "project_view c i n ?s = (Some a', snd (project_view c i n s))"
    unfolding project_view_def st rows using assms(2,3) a'(1) by simp
  ultimately show ?thesis using r a' by blast
qed

text \<open>The view a published response leads to, and what readers see along the stores \<open>new\<close> committed on top of one that
  showed \<open>old\<close>, by outcome.\<close>

definition published_view ::
    "'u sync_env \<Rightarrow> 'v batch_target \<Rightarrow> nat \<Rightarrow> project_generation option \<times> (string \<Rightarrow> bytes option) \<Rightarrow> bool" where
  "published_view env t k v \<longleftrightarrow> (\<exists>etag head body a. let kept = filter (servable t) (response_files env head body) in
     se_head env etag = Inr head \<and> sh_status head = 200 \<and> write_project_stream MAX_PROJECT_BYTES [] (sh_stream head) = Inr body
     \<and> length body \<le> MAX_PROJECT_BYTES \<and> length (response_files env head body) \<le> MAX_PROJECT_FILES
     \<and> k = card (fl_filename ` set kept) \<and> pgn_files a = k
     \<and> v = (Some a, \<lambda>name. map_option (bt_to_json t) (List.find (\<lambda>f. fl_filename f = name) kept)))"

definition sync_effect ::
    "'u sync_env \<Rightarrow> 'v batch_target \<Rightarrow> (project_generation option \<times> (string \<Rightarrow> bytes option)) \<Rightarrow> meta_store list
      \<Rightarrow> 'u project_sync_error + project_sync_outcome \<Rightarrow> bool" where
  "sync_effect env t old new r \<longleftrightarrow> (let view = project_view (bt_codec t) (bt_index t) (bt_project t) in case r of
      Inr (SyncPublished k) \<Rightarrow> new \<noteq> [] \<and> published_view env t k (view (hd new)) \<and> (\<forall>s \<in> set new. view s = old \<or> view s = view (hd new))
    | Inr (SyncNotModified k) \<Rightarrow> (\<forall>s \<in> set new. snd (view s) = snd old \<and> map_option pgn_generation (fst (view s)) = map_option pgn_generation (fst old))
        \<and> map_option pgn_files (fst old) = Some k
    | _ \<Rightarrow> \<forall>s \<in> set new. view s = old)"

lemma sync_effect_quiet_prefix:
  "sync_effect env t old new r \<Longrightarrow> \<forall>s \<in> set quiet. project_view (bt_codec t) (bt_index t) (bt_project t) s = old
     \<Longrightarrow> sync_effect env t old (new @ quiet) r"
  by (auto simp: sync_effect_def Let_def split: sum.splits project_sync_outcome.splits)

lemma sync_answer_effect:
  fixes t :: "'v batch_target" and env :: "'u sync_env"
  assumes "h \<noteq> []" "project_store_ok (bt_codec t) (bt_index t) (bt_project t) (hd h)"
    "project_meta_state (bt_codec t) (hd h) (bt_index t) (bt_project t) = Inr p" "pub_next_generation p < u64_max"
    "sync_answer env t fallback_source (pub_active p) h = (h', r)"
  shows "\<exists>new. h' = new @ h \<and> (\<forall>s \<in> set new. project_store_ok (bt_codec t) (bt_index t) (bt_project t) s)
    \<and> sync_effect env t (project_view (bt_codec t) (bt_index t) (bt_project t) (hd h)) new r"
proof (cases "se_head env (Option.bind (pub_active p) pgn_etag)")
  case (Inl e)
  with assms(5) show ?thesis by (auto simp: sync_answer_def sync_effect_def)
next
  let ?c = "bt_codec t" and ?i = "bt_index t" and ?n = "bt_project t"
  note eqs = project_view_eq [of ?c ?i ?n] project_store_ok_eq [of ?c ?i ?n]
  case (Inr head)
  consider "sh_status head = 304" "pub_active p = None" | a where "sh_status head = 304" "pub_active p = Some a"
    | "sh_status head = 404" | "sh_status head \<noteq> 304" "sh_status head \<noteq> 404" by (cases "pub_active p") auto
  then show ?thesis
  proof cases
    case (2 a)
    from refresh_keeps_rows [OF assms(2,3) 2(2), of "sh_etag head" "sh_last_modified head" "se_now env"]
    obtain s' a' where s': "refresh_project_generation ?c (hd h) ?i ?n (pgn_generation a) (sh_etag head) (sh_last_modified head) (se_now env) = Inr ((), s')"
      "project_store_ok ?c ?i ?n s'" "pgn_generation a' = pgn_generation a" "project_view ?c ?i ?n s' = (Some a', snd (project_view ?c ?i ?n (hd h)))" by auto
    have "fst (project_view ?c ?i ?n (hd h)) = Some a" using assms(3) 2(2) by (simp add: project_view_def)
    moreover have "h' = [s'] @ h" "r = Inr (SyncNotModified (pgn_files a))" using assms(5) Inr 2 s'(1) by (auto simp: sync_answer_def push_def)
    ultimately show ?thesis using s'(2-4) by (intro exI [of _ "[s']"]) (simp add: sync_effect_def)
  next
    case 4
    then have run: "publish_project_response env t fallback_source head h = (h', r)" using assms(5) Inr by (simp add: sync_answer_def)
    have "sync_ready t h" using assms(1,2) by (simp add: sync_ready_def eqs)
    note pub = publish_response_batching [OF this assms(3,4) run]
    show ?thesis
    proof (cases r)
      case (Inl e)
      with pub show ?thesis unfolding eqs extends_quietly_def by (auto simp: sync_effect_def)
    next
      case ok: (Inr outcome)
      from pub ok obtain a body where b: "sh_status head = 200" "write_project_stream MAX_PROJECT_BYTES [] (sh_stream head) = Inr body"
        "length (response_files env head body) \<le> MAX_PROJECT_FILES" "outcome = SyncPublished (pgn_files a)"
        "pgn_files a = card (fl_filename ` set (filter (servable t) (response_files env head body)))"
        and sw: "pb.switches ?c ?i ?n h h' (Some a, stage_files (bt_to_json t) (filter (servable t) (response_files env head body)) Map.empty)"
        by (auto simp: Let_def)
      have rows: "stage_files (bt_to_json t) (filter (servable t) (response_files env head body)) Map.empty
        = (\<lambda>name. map_option (bt_to_json t) (List.find (\<lambda>f. fl_filename f = name) (filter (servable t) (response_files env head body))))"
        by (rule ext) (rule stage_files_find)
      obtain new where new: "h' = new @ h" "new \<noteq> []" "\<forall>s \<in> set new. project_store_ok ?c ?i ?n s"
        "\<forall>s \<in> set new. project_view ?c ?i ?n s = project_view ?c ?i ?n (hd h) \<or> project_view ?c ?i ?n s = project_view ?c ?i ?n (hd new)"
        "project_view ?c ?i ?n (hd new) = (Some a, \<lambda>name. map_option (bt_to_json t) (List.find (\<lambda>f. fl_filename f = name) (filter (servable t) (response_files env head body))))"
        using sw unfolding pb.switches_def eqs rows by auto
      have "length body \<le> MAX_PROJECT_BYTES" using write_stream_bound [OF b(2)] by simp
      then have "sync_effect env t (project_view ?c ?i ?n (hd h)) new r"
        unfolding sync_effect_def published_view_def Let_def ok b(4) sum.case project_sync_outcome.case using b new Inr by blast
      with new show ?thesis by blast
    qed
  qed (use assms(5) Inr in \<open>auto simp: sync_answer_def sync_effect_def\<close>)
qed

text \<open>C6: A synchronization of the remote files of a project is atomic for readers.  Every store it commits is sound and
  shows the files from before or, once published, all of the new ones; a failure, a missing project or a wait leaves the
  view as it was, a not-modified answer only refreshes the validators.  What is published is, for each filename, the first
  servable file of that name that the response lists, read from at most 256 MiB and at most two million entries, and the
  number reported is the number of distinct filenames.\<close>

theorem sync_project_atomic:
  fixes t :: "'v batch_target" and env :: "'u sync_env"
  assumes "h \<noteq> []" "project_store_ok (bt_codec t) (bt_index t) (bt_project t) (hd h)"
    "project_meta_state (bt_codec t) (hd h) (bt_index t) (bt_project t) = Inr p" "pub_next_generation p < u64_max"
  shows "\<exists>new. fst (sync_project_files env t waited fallback_source h) = new @ h
    \<and> (\<forall>s \<in> set new. project_store_ok (bt_codec t) (bt_index t) (bt_project t) s)
    \<and> sync_effect env t (project_view (bt_codec t) (bt_index t) (bt_project t) (hd h)) new (snd (sync_project_files env t waited fallback_source h))"
proof -
  let ?c = "bt_codec t" and ?i = "bt_index t" and ?n = "bt_project t"
  let ?p = "p\<lparr>pub_staging := None, pub_retired := None\<rparr>"
  note eqs = project_view_eq [of ?c ?i ?n] project_store_ok_eq [of ?c ?i ?n]
  obtain h1 where rec: "recover_project_generations ?c h ?i ?n = (h1, Inr ())"
    and q: "extends_quietly (project_store_ok ?c ?i ?n) (project_view ?c ?i ?n) h h1" and p1: "project_meta_state ?c (hd h1) ?i ?n = Inr ?p"
    using pg.recover_quiet [of h ?c ?i ?n] assms(1-3) unfolding eqs by auto
  have act: "active_project_generation ?c (hd h) ?i ?n = Inr (pub_active p)" "active_project_generation ?c (hd h1) ?i ?n = Inr (pub_active ?p)"
    using assms(3) p1 by (simp_all add: active_project_generation_def)
  show ?thesis
  proof (cases "waited \<and> pub_active p \<noteq> None")
    case True
    have "fst (project_view ?c ?i ?n (hd h)) = pub_active p" using assms(3) by (simp add: project_view_def)
    with True act show ?thesis by (auto simp: sync_project_files_def sync_effect_def)
  next
    case False
    note h1 = quiet_hd [OF q assms(1,2)]
    obtain h' r where ans: "sync_answer env t fallback_source (pub_active ?p) h1 = (h', r)" by (cases "sync_answer env t fallback_source (pub_active ?p) h1")
    have sync: "sync_project_files env t waited fallback_source h = (h', r)"
      using ans False act rec by (cases waited) (simp_all add: sync_project_files_def)
    from sync_answer_effect [OF _ _ p1 _ ans] h1 assms(4) obtain new where new: "h' = new @ h1" "\<forall>s \<in> set new. project_store_ok ?c ?i ?n s"
      "sync_effect env t (project_view ?c ?i ?n (hd h)) new r" by auto
    obtain new1 where n1: "h1 = new1 @ h" "\<forall>s \<in> set new1. project_store_ok ?c ?i ?n s \<and> project_view ?c ?i ?n s = project_view ?c ?i ?n (hd h)"
      using q by (auto simp: extends_quietly_def)
    have "sync_effect env t (project_view ?c ?i ?n (hd h)) (new @ new1) r" using sync_effect_quiet_prefix [OF new(3)] n1(2) by blast
    then show ?thesis using new(1,2) n1 sync by (intro exI [of _ "new @ new1"]) auto
  qed
qed

text \<open>A codec that writes the number of the state in unary.\<close>

definition generation_tuple where
  "generation_tuple a = (pgn_generation a, pgn_source a, pgn_url a, pgn_format a, pgn_etag a, pgn_last_modified a, pgn_last_serial a,
     pgn_fetched_at_unix a, pgn_bytes a, pgn_files a, pgn_versions a, pgn_project_status a, pgn_project_status_reason a)"

definition tuple_generation where
  "tuple_generation = (\<lambda>(g, src, url, fmt, etag, lm, serial, at, b, f, vs, st, reason). \<lparr>pgn_generation = g, pgn_source = src, pgn_url = url,
     pgn_format = fmt, pgn_etag = etag, pgn_last_modified = lm, pgn_last_serial = serial, pgn_fetched_at_unix = at, pgn_bytes = b,
     pgn_files = f, pgn_versions = vs, pgn_project_status = st, pgn_project_status_reason = reason\<rparr>)"

definition unary_publication :: "project_generation publication codec" where
  "unary_publication = \<lparr>
     enc = (\<lambda>p. replicate (to_nat (map_option generation_tuple (pub_active p), pub_staging p, pub_retired p, pub_next_generation p)) CHR ''1''),
     dec = (\<lambda>b. Some (case from_nat (length b) of (a, st, rt, nx) \<Rightarrow>
       \<lparr>pub_active = map_option tuple_generation a, pub_staging = st, pub_retired = rt, pub_next_generation = nx\<rparr>))\<rparr>"

lemma unary_publication_ok: "codec_ok unary_publication"
proof -
  have "tuple_generation (generation_tuple a) = a" for a by (simp add: tuple_generation_def generation_tuple_def)
  then have "tuple_generation \<circ> generation_tuple = id" by auto
  then show ?thesis by (simp add: codec_ok_def unary_publication_def option.map_comp option.map_id)
qed

definition sample_target :: "string batch_target" where
  "sample_target = \<lparr>bt_codec = unary_publication, bt_to_json = fl_url, bt_formats = sample_formats, bt_policy = sample_policy,
     bt_index = ''pypi'', bt_project = ''a'', bt_generation = 0, bt_source = [], bt_max_files = 0\<rparr>"

definition sample_env :: "unit sync_env" where
  "sample_env = \<lparr>se_head = (\<lambda>_. Inr \<lparr>sh_status = 200, sh_source = None, sh_url = ''u'', sh_content_type = Some ''text/html'', sh_etag = None,
       sh_last_modified = None, sh_content_length = None, sh_last_serial = None, sh_stream = [Inr ''x'', Inr ''y'']\<rparr>),
     se_disk_ok = True, se_redact = id, se_absolutize = (\<lambda>_ url. url),
     se_readers = \<lparr>dr_json = (\<lambda>_. ([], Complete)), dr_html = (\<lambda>_. Inr sample_detail)\<rparr>, se_now = 0\<rparr>"

theorem sync_project_atomic_witness:
  "\<exists>new. fst (sync_project_files sample_env sample_target False ''u'' [open_new]) = new @ [open_new]
    \<and> (\<forall>s \<in> set new. project_store_ok unary_publication ''pypi'' ''a'' s)
    \<and> sync_effect sample_env sample_target (None, Map.empty) new (snd (sync_project_files sample_env sample_target False ''u'' [open_new]))"
proof -
  have st: "project_meta_state unary_publication open_new ''pypi'' ''a'' = Inr publication_default"
    by (simp add: project_meta_state_def decode_project_meta_state_def get_driver_value_def open_new_def)
  then have "project_store_ok unary_publication ''pypi'' ''a'' open_new"
    by (simp add: project_store_ok_def unary_publication_ok pub_ok_def publication_default_def get_driver_value_def open_new_def)
  moreover have "project_view unary_publication ''pypi'' ''a'' open_new = (None, Map.empty)"
    by (simp add: project_view_def st publication_default_def)
  ultimately show ?thesis
    using sync_project_atomic [of "[open_new]" sample_target publication_default sample_env False "''u''"] st
    by (simp add: sample_target_def publication_default_def u64_max_def)
qed

end
