(* ===== verification/PypiCache.thy ===== *)
theory PypiCache
  imports PypiSync Routing
begin

text \<open>
  The page cache of cached PyPI indexes: freshness and stale bounds (\<open>cache/mod.rs\<close>, \<open>crates/peryx-index/src/serving.rs\<close>),
  fetching, storing and revalidating a page and the background sweep (\<open>cache/fetch.rs\<close>) of
  \<open>crates/peryx-ecosystem-pypi/src\<close>.  The state is the metadata store with the in-memory miss cache and page epochs; the
  answers of the upstream, the parsers and what other tasks do while this one waits are arguments.
\<close>

section \<open>Data\<close>

datatype 'u cache_error =
    CacheMeta meta_error
  | CacheBlob
  | CacheUpstream 'u
  | CacheParse
  | CacheSimple simple_error
  | CacheArchive
  | Unavailable
  | OfflineMissing string
  | NotVolatile
  | FileNotFound
  | FileExists string
  | MissingSha256 string
  | NoPromotableFiles string string string
  | CacheStream string
  | RateLimited nat
  | CachePolicy policy_denial

definition cache_of_simple :: "simple_error \<Rightarrow> 'u cache_error" where
  "cache_of_simple err = (case err of SimpleJson \<Rightarrow> CacheParse | _ \<Rightarrow> CacheSimple err)"

record simple_response =
  sr_status :: nat
  sr_source :: "string option"
  sr_url :: string
  sr_content_type :: "string option"
  sr_etag :: "string option"
  sr_last_modified :: "string option"
  sr_last_serial :: "nat option"
  sr_max_age :: "int option"
  sr_body :: bytes

record page_cache =
  pc_store :: meta_store
  pc_negative :: "string \<Rightarrow> int option"
  pc_epochs :: "string \<Rightarrow> nat"

text \<open>
  The serving state that does not change and the surroundings: \<open>ev_permit\<close> the upstream slot (a number of seconds when
  none is free), \<open>ev_fetch\<close> the answer to a page request, \<open>ev_wait\<close> what other tasks did while this one waited for the gate
  of its page.
\<close>

record ('c, 'u, 'v) page_env =
  ev_indexes :: "'c index list"
  ev_clock :: int
  ev_ttl_secs :: int
  ev_max_stale_secs :: int
  ev_codec :: page_codec
  ev_formats :: "'v formats"
  ev_json :: json_parser
  ev_to_json :: "project_detail \<Rightarrow> bytes"
  ev_html :: "string \<Rightarrow> bytes \<Rightarrow> string \<Rightarrow> simple_error + project_detail"
  ev_absolutize :: "string \<Rightarrow> string \<Rightarrow> string"
  ev_permit :: "string \<Rightarrow> nat option"
  ev_fetch :: "string \<Rightarrow> string \<Rightarrow> string option \<Rightarrow> 'u + simple_response"
  ev_wait :: "page_cache \<Rightarrow> page_cache"

definition NEGATIVE_TTL_SECS :: int where "NEGATIVE_TTL_SECS = 30"

section \<open>Freshness\<close>

definition freshness_secs :: "int \<Rightarrow> int option \<Rightarrow> int" where
  "freshness_secs ttl_secs fresh_secs = (case fresh_secs of Some granted \<Rightarrow> if granted < ttl_secs then granted else ttl_secs | None \<Rightarrow> ttl_secs)"

definition freshness :: "('c, 'u, 'v) page_env \<Rightarrow> cached_index \<Rightarrow> int" where
  "freshness env r = freshness_secs (ev_ttl_secs env) (ci_fresh_secs r)"

definition within_stale_bound :: "int \<Rightarrow> int \<Rightarrow> int \<Rightarrow> int \<Rightarrow> bool" where
  "within_stale_bound now max_stale_secs fetched_at fresh \<longleftrightarrow>
     max_stale_secs = 0 \<or> saturating_sub_i64 now fetched_at < fresh + max_stale_secs"

definition servable_stale :: "('c, 'u, 'v) page_env \<Rightarrow> cached_index \<Rightarrow> bool" where
  "servable_stale env r = within_stale_bound (ev_clock env) (ev_max_stale_secs env) (ci_fetched_at_unix r) (freshness env r)"

definition cached_record :: "('c, 'u, 'v) page_env \<Rightarrow> meta_store \<Rightarrow> string \<Rightarrow> 'u cache_error + cached_index option" where
  "cached_record env s key = (case get_index (ev_codec env) s key of
      Inl Decode \<Rightarrow> Inr None | Inl e \<Rightarrow> Inl (CacheMeta e) | Inr r \<Rightarrow> Inr r)"

definition fresh_cached :: "('c, 'u, 'v) page_env \<Rightarrow> meta_store \<Rightarrow> string \<Rightarrow> 'u cache_error + cached_index option" where
  "fresh_cached env s key = rbind (cached_record env s key) (\<lambda>found. case found of
      Some r \<Rightarrow> Inr (if ev_clock env - ci_fetched_at_unix r < freshness env r then Some r else None)
    | None \<Rightarrow> Inr None)"

definition stale_servable :: "('c, 'u, 'v) page_env \<Rightarrow> meta_store \<Rightarrow> string \<Rightarrow> 'u cache_error + cached_index option" where
  "stale_servable env s key = rbind (cached_record env s key) (\<lambda>found. case found of
      Some r \<Rightarrow> Inr (if servable_stale env r then Some r else None) | None \<Rightarrow> Inr None)"

definition rendered_expiry :: "('c, 'u, 'v) page_env \<Rightarrow> meta_store \<Rightarrow> 'c index \<Rightarrow> string \<Rightarrow> 'u cache_error + int option" where
  "rendered_expiry env s ix project =
     (if active (ix_policy ix) \<or> \<not> is_cached (ix_kind ix) then Inr None
      else rbind (fresh_cached env s (ix_name ix @ ''/'' @ project)) (\<lambda>found.
        Inr (map_option (\<lambda>r. ci_fetched_at_unix r + freshness env r) found)))"

section \<open>The in-memory caches\<close>

definition project_negative_key :: "string \<Rightarrow> string" where
  "project_negative_key key = ''project'' @ [NUL] @ key"

definition negative_fresh :: "('c, 'u, 'v) page_env \<Rightarrow> page_cache \<Rightarrow> string \<Rightarrow> page_cache \<times> bool" where
  "negative_fresh env pc key = (case pc_negative pc key of
      Some until \<Rightarrow> if ev_clock env < until then (pc, True) else (pc\<lparr>pc_negative := (pc_negative pc)(key := None)\<rparr>, False)
    | None \<Rightarrow> (pc, False))"

definition remember_negative :: "('c, 'u, 'v) page_env \<Rightarrow> page_cache \<Rightarrow> string \<Rightarrow> int \<Rightarrow> page_cache" where
  "remember_negative env pc key ttl = pc\<lparr>pc_negative := (pc_negative pc)(key \<mapsto> ev_clock env + ttl)\<rparr>"

definition invalidate_project :: "page_cache \<Rightarrow> string \<Rightarrow> page_cache" where
  "invalidate_project pc project = pc\<lparr>pc_epochs := (pc_epochs pc)(project := pc_epochs pc project + 1)\<rparr>"

section \<open>Fetching a page\<close>

text \<open>\<open>mirror_policy\<close>: the callers name a configured index, so the search does not fail.\<close>

definition mirror_policy :: "('c, 'u, 'v) page_env \<Rightarrow> string \<Rightarrow> policy" where
  "mirror_policy env name = ix_policy (the (List.find (\<lambda>ix. ix_name ix = name) (ev_indexes env)))"

definition canonical_json :: "('c, 'u, 'v) page_env \<Rightarrow> bytes \<Rightarrow> string \<Rightarrow> 'u cache_error + bytes" where
  "canonical_json env body base = rbind (map_err cache_of_simple (parse_detail (ev_json env body))) (\<lambda>d.
     Inr (ev_to_json env (d\<lparr>dt_files := map (\<lambda>f. f\<lparr>fl_url := ev_absolutize env base (fl_url f)\<rparr>) (dt_files d)\<rparr>)))"

definition canonical_raw :: "('c, 'u, 'v) page_env \<Rightarrow> string \<Rightarrow> simple_response \<Rightarrow> 'u cache_error + bytes" where
  "canonical_raw env project response =
     (if is_json (sr_content_type response) then canonical_json env (sr_body response) (sr_url response)
      else rbind (map_err cache_of_simple (ev_html env project (sr_body response) (sr_url response))) (\<lambda>d. Inr (ev_to_json env d)))"

definition page_files :: "('c, 'u, 'v) page_env \<Rightarrow> policy \<Rightarrow> string \<Rightarrow> pypi_file list \<Rightarrow> (pypi_file \<times> string) list" where
  "page_files env p project files = List.map_filter (\<lambda>f.
     if \<not> is_ok (fst (check_file (ev_formats env) p Cached project f)) then None
     else case file_sha256 f of None \<Rightarrow> None
       | Some sha256 \<Rightarrow> if starts_with (fl_url f) ''/'' then None else Some (f, sha256)) files"

definition persist_page_from ::
    "('c, 'u, 'v) page_env \<Rightarrow> page_cache \<Rightarrow> string \<Rightarrow> string \<Rightarrow> string \<Rightarrow> cached_index \<Rightarrow> string option \<Rightarrow> 'u cache_error + page_cache" where
  "persist_page_from env pc key name project r upstream =
     rbind (map_err cache_of_simple (parse_detail (ev_json env (ci_body r)))) (\<lambda>d.
       let kept = page_files env (mirror_policy env name) project (dt_files d);
           files = map (\<lambda>(f, sha256). (sha256, fl_url f, fl_size f)) kept;
           metadata = List.map_filter (\<lambda>(f, sha256). case effective_metadata f of
               MetaHashes hashes \<Rightarrow> map_option (\<lambda>digest. (sha256, metadata_sibling (fl_url f), digest)) (t_get hashes ''sha256'')
             | _ \<Rightarrow> None) kept;
           display = (if dt_name d = [] then project else dt_name d)
       in Inr (invalidate_project (pc\<lparr>pc_store := put_cached_page (ev_codec env) (pc_store pc) key r name project display name upstream
            (sm_project_status (dt_meta d)) (sm_project_status_reason (dt_meta d)) files metadata\<rparr>) project))"

text \<open>An error answer: the cached page while it is within the stale bound, the failure past it.\<close>

definition stale_or :: "('c, 'u, 'v) page_env \<Rightarrow> cached_index option \<Rightarrow> 'u cache_error \<Rightarrow> 'u cache_error + cached_index option" where
  "stale_or env cached e = (case cached of Some r \<Rightarrow> if servable_stale env r then Inr (Some r) else Inl e | None \<Rightarrow> Inl e)"

definition fetch_and_store ::
    "('c, 'u, 'v) page_env \<Rightarrow> page_cache \<Rightarrow> string \<Rightarrow> string \<Rightarrow> string \<Rightarrow> page_cache \<times> ('u cache_error + cached_index option)" where
  "fetch_and_store env pc key name project =
     (case fst (check_project (mirror_policy env name) Cached project) of
        Inl denial \<Rightarrow> (pc, Inl (CachePolicy denial))
      | Inr _ \<Rightarrow>
          (case cached_record env (pc_store pc) key of
             Inl e \<Rightarrow> (pc, Inl e)
           | Inr cached \<Rightarrow>
               (case ev_permit env name of
                  Some retry_after \<Rightarrow> (pc, Inl (RateLimited retry_after))
                | None \<Rightarrow>
                    (case ev_fetch env name project (Option.bind cached ci_etag) of
                       Inl err \<Rightarrow> (pc, stale_or env cached (CacheUpstream err))
                     | Inr response \<Rightarrow>
                         if sr_status response = 200 then
                           (case canonical_raw env project response of
                              Inl e \<Rightarrow> (pc, Inl e)
                            | Inr body \<Rightarrow>
                                let r = \<lparr>ci_etag = sr_etag response, ci_last_serial = sr_last_serial response, ci_fetched_at_unix = ev_clock env,
                                      ci_content_type = Some ''application/vnd.pypi.simple.v1+json'', ci_fresh_secs = sr_max_age response,
                                      ci_body = body\<rparr>
                                in case persist_page_from env pc key name project r (sr_source response) of
                                     Inl e \<Rightarrow> (pc, Inl e) | Inr pc \<Rightarrow> (pc, Inr (Some r)))
                         else if sr_status response = 304 then
                           (case cached of
                              None \<Rightarrow> (pc, Inl Unavailable)
                            | Some r \<Rightarrow>
                                let r = r\<lparr>ci_fetched_at_unix := ev_clock env,
                                      ci_fresh_secs := (case sr_max_age response of None \<Rightarrow> ci_fresh_secs r | Some a \<Rightarrow> Some a)\<rparr>
                                in (pc\<lparr>pc_store := touch_index_freshness (ev_codec env) (pc_store pc) key (ci_fetched_at_unix r) (ci_fresh_secs r)\<rparr>,
                                    Inr (Some r)))
                         else if sr_status response = 404 then (remember_negative env pc (project_negative_key key) NEGATIVE_TTL_SECS, Inr None)
                         else (pc, stale_or env cached Unavailable)))))"

text \<open>The look-up before and behind the gate of a page, and the whole read through the cache.\<close>

definition cached_peek :: "('c, 'u, 'v) page_env \<Rightarrow> page_cache \<Rightarrow> string \<Rightarrow> page_cache \<times> ('u cache_error + cached_index option option)" where
  "cached_peek env pc key = (case fresh_cached env (pc_store pc) key of
      Inl e \<Rightarrow> (pc, Inl e)
    | Inr (Some r) \<Rightarrow> (pc, Inr (Some (Some r)))
    | Inr None \<Rightarrow> (case negative_fresh env pc (project_negative_key key) of (pc, missing) \<Rightarrow> (pc, Inr (if missing then Some None else None))))"

definition cached_lookup ::
    "('c, 'u, 'v) page_env \<Rightarrow> page_cache \<Rightarrow> string \<Rightarrow> bool \<Rightarrow> string \<Rightarrow> page_cache \<times> ('u cache_error + cached_index option)" where
  "cached_lookup env pc name offline_mode project =
     (let key = name @ ''/'' @ project in
      if offline_mode then
        (pc, case get_index (ev_codec env) (pc_store pc) key of
               Inl e \<Rightarrow> Inl (CacheMeta e) | Inr (Some r) \<Rightarrow> Inr (Some r) | Inr None \<Rightarrow> Inl (OfflineMissing ''project page''))
      else case cached_peek env pc key of
          (pc, Inl e) \<Rightarrow> (pc, Inl e)
        | (pc, Inr (Some answer)) \<Rightarrow> (pc, Inr answer)
        | (pc, Inr None) \<Rightarrow>
            (case cached_peek env (ev_wait env pc) key of
               (pc, Inl e) \<Rightarrow> (pc, Inl e)
             | (pc, Inr (Some answer)) \<Rightarrow> (pc, Inr answer)
             | (pc, Inr None) \<Rightarrow> fetch_and_store env pc key name project))"

section \<open>The background sweep\<close>

definition mirror_for_key :: "('c, 'u, 'v) page_env \<Rightarrow> string \<Rightarrow> ('c index \<times> bool \<times> string) option" where
  "mirror_for_key env key = fold (\<lambda>ix best. case ix_kind ix of
      CachedKind _ offline_mode \<Rightarrow>
        (case Option.bind (strip_prefix (ix_name ix) key) (strip_prefix ''/'') of
           None \<Rightarrow> best
         | Some project \<Rightarrow>
             (case best of
                Some (old, _, _) \<Rightarrow> if length (ix_name old) \<le> length (ix_name ix) then Some (ix, offline_mode, project) else best
              | None \<Rightarrow> Some (ix, offline_mode, project)))
    | _ \<Rightarrow> best) (ev_indexes env) None"

record refresh_summary =
  rs_checked :: nat
  rs_changed :: nat

fun refresh_pages ::
    "('c, 'u, 'v) page_env \<Rightarrow> (string \<times> int \<times> int option) list \<Rightarrow> refresh_summary \<Rightarrow> page_cache
      \<Rightarrow> page_cache \<times> ('u cache_error + refresh_summary)" where
  "refresh_pages env [] summary pc = (pc, Inr summary)"
| "refresh_pages env ((key, fetched_at, fresh_secs) # pages) summary pc =
     (if ev_clock env - fetched_at < freshness_secs (ev_ttl_secs env) fresh_secs then refresh_pages env pages summary pc
      else case mirror_for_key env key of
        None \<Rightarrow> refresh_pages env pages summary pc
      | Some (ix, offline_mode, project) \<Rightarrow>
          if offline_mode then refresh_pages env pages summary pc
          else if \<not> is_ok (fst (check_project (ix_policy ix) Cached project)) then refresh_pages env pages summary pc
          else let summary = summary\<lparr>rs_checked := rs_checked summary + 1\<rparr>
               in case get_index (ev_codec env) (pc_store pc) key of
                    Inl e \<Rightarrow> (pc, Inl (CacheMeta e))
                  | Inr before \<Rightarrow>
                      (case fetch_and_store env pc key (ix_name ix) project of
                         (pc, Inl e) \<Rightarrow> (pc, Inl e)
                       | (pc, Inr None) \<Rightarrow> refresh_pages env pages summary pc
                       | (pc, Inr (Some r)) \<Rightarrow>
                           refresh_pages env pages
                             (if map_option ci_body before \<noteq> Some (ci_body r) then summary\<lparr>rs_changed := rs_changed summary + 1\<rparr> else summary) pc))"

definition refresh_stale_pages :: "('c, 'u, 'v) page_env \<Rightarrow> page_cache \<Rightarrow> page_cache \<times> ('u cache_error + refresh_summary)" where
  "refresh_stale_pages env pc = (case list_index_pages (ev_codec env) (pc_store pc) of
      Inl e \<Rightarrow> (pc, Inl (CacheMeta e)) | Inr pages \<Rightarrow> refresh_pages env pages \<lparr>rs_checked = 0, rs_changed = 0\<rparr> pc)"

section \<open>Reading back what was written\<close>

definition page_codec_ok :: "page_codec \<Rightarrow> bool" where
  "page_codec_ok c \<longleftrightarrow> codec_ok (header c) \<and> codec_ok (overlay c) \<and> (\<forall>h. LF \<notin> set (enc (header c) h))"

lemma strip_prefix_append: "strip_prefix p (p @ s) = Some s"
  by (simp add: strip_prefix_Some)

lemma cached_decode_encode: "page_codec_ok c \<Longrightarrow> cached_decode c (cached_encode c r) = Some r"
  by (simp add: page_codec_ok_def codec_ok_def cached_decode_def cached_encode_def split_framed_def split_once_append strip_prefix_append)

lemma fold_insert_get: "t_get (fold (\<lambda>(k, v) t. t_insert t k v) kvs t) k = (case map_of (rev kvs) k of None \<Rightarrow> t_get t k | v \<Rightarrow> v)"
  by (induction kvs arbitrary: t rule: rev_induct) auto

lemma commit_batch_get [simp]: "get_driver_value (commit_driver_batch s b) k =
    (if k \<in> set (db_deletes b) then None else case map_of (rev (db_puts b)) k of None \<Rightarrow> get_driver_value s k | v \<Rightarrow> v)"
  by (simp add: get_driver_value_def commit_driver_batch_def fold_remove_get fold_insert_get split: option.split)

lemma batch_fields [simp]:
  "db_puts driver_batch_new = []" "db_deletes driver_batch_new = []"
  "db_puts (driver_batch_put b k v) = db_puts b @ [(k, v)]" "db_deletes (driver_batch_put b k v) = db_deletes b"
  "db_puts (driver_batch_delete b k) = db_puts b" "db_deletes (driver_batch_delete b k) = db_deletes b @ [k]"
  by (simp_all add: driver_batch_new_def driver_batch_put_def driver_batch_delete_def)

lemma batch_fold_puts:
  "db_puts (fold (\<lambda>x b. driver_batch_put b (f x) (g x)) xs b) = db_puts b @ map (\<lambda>x. (f x, g x)) xs"
  "db_deletes (fold (\<lambda>x b. driver_batch_put b (f x) (g x)) xs b) = db_deletes b"
  by (induction xs arbitrary: b) simp_all

lemmas page_key_defs = index_key_def freshness_key_def file_key_def metadata_key_def project_key_def project_status_key_def INDEX_PREFIX_def
  FRESHNESS_PREFIX_def FILE_PREFIX_def METADATA_PREFIX_def PROJECTS_PREFIX_def PROJECT_STATUS_PREFIX_def pypi_prefix_def

lemma page_keys_differ [simp]:
  "index_key a \<noteq> freshness_key b" "index_key a \<noteq> file_key b" "index_key a \<noteq> metadata_key b" "index_key a \<noteq> project_key i n"
  "index_key a \<noteq> project_status_key i n" "freshness_key b \<noteq> index_key a" "freshness_key b \<noteq> file_key c" "freshness_key b \<noteq> metadata_key c"
  "freshness_key b \<noteq> project_key i n" "freshness_key b \<noteq> project_status_key i n"
  by (simp_all add: page_key_defs)

lemma map_of_miss: "(\<And>x. x \<in> set xs \<Longrightarrow> k \<noteq> f x) \<Longrightarrow> map_of (rev (map (\<lambda>x. (f x, g x)) xs)) k = None"
  by (induction xs) auto

lemma put_cached_page_rows:
  "get_driver_value (put_cached_page c s key r i n d src up st rs files metadata) (index_key key) = Some (cached_encode c r)"
  "get_driver_value (put_cached_page c s key r i n d src up st rs files metadata) (freshness_key key) = None"
  by (simp_all add: put_cached_page_def Let_def case_prod_beta' batch_fold_puts map_of_miss map_add_def)

lemma put_cached_page_read:
  "page_codec_ok c \<Longrightarrow> get_index c (put_cached_page c s key r i n d src up st rs files metadata) key = Inr (Some r)"
  by (simp add: get_index_def read_overlay_def put_cached_page_rows cached_decode_encode ok_or_def)

lemma touch_freshness_read:
  assumes "page_codec_ok c" "get_index c s key = Inr (Some r)"
  shows "get_index c (touch_index_freshness c s key at secs) key = Inr (Some (r\<lparr>ci_fetched_at_unix := at, ci_fresh_secs := secs\<rparr>))"
  using assms by (auto simp: get_index_def touch_index_freshness_def read_overlay_def page_codec_ok_def codec_ok_def ok_or_def result_simps
      split: option.splits)

section \<open>The age of a served page\<close>

definition upstream_failed :: "('u + simple_response) \<Rightarrow> bool" where
  "upstream_failed answer \<longleftrightarrow> (case answer of Inl _ \<Rightarrow> True | Inr response \<Rightarrow> sr_status response \<notin> {200, 304, 404})"

text \<open>Why a page may be served: it was fetched or confirmed just now, it is younger than its freshness, or the upstream failed and
  the page is within the stale bound.\<close>

definition servable_now :: "('c, 'u, 'v) page_env \<Rightarrow> string \<Rightarrow> string \<Rightarrow> cached_index \<Rightarrow> bool" where
  "servable_now env name project r \<longleftrightarrow>
     (ci_fetched_at_unix r = ev_clock env \<and> (\<exists>etag response. ev_fetch env name project etag = Inr response \<and> sr_status response \<in> {200, 304}))
   \<or> (ev_clock env - ci_fetched_at_unix r < freshness env r \<and> freshness env r \<le> ev_ttl_secs env)
   \<or> ((\<exists>etag. upstream_failed (ev_fetch env name project etag)) \<and> servable_stale env r)"

lemma freshness_le_ttl: "freshness env r \<le> ev_ttl_secs env"
  by (simp add: freshness_def freshness_secs_def split: option.split)

lemma cached_record_Some: "cached_record env s key = Inr (Some r) \<longleftrightarrow> get_index (ev_codec env) s key = Inr (Some r)"
  by (auto simp: cached_record_def split: sum.splits meta_error.splits)

lemma stale_or_Inr: "stale_or env cached e = Inr found \<longleftrightarrow> (\<exists>r. cached = Some r \<and> servable_stale env r \<and> found = Some r)"
  by (auto simp: stale_or_def split: option.splits)

lemma persist_read:
  assumes "page_codec_ok (ev_codec env)" "persist_page_from env pc key name project r upstream = Inr pc'"
  shows "cached_record env (pc_store pc') key = Inr (Some r)"
  using assms by (auto simp: persist_page_from_def Let_def rbind_eq_Inr invalidate_project_def cached_record_Some put_cached_page_read)

lemma fetch_and_store_page:
  assumes ok: "page_codec_ok (ev_codec env)" and fetch: "fetch_and_store env pc key name project = (pc', Inr (Some r))"
  shows "cached_record env (pc_store pc') key = Inr (Some r) \<and> servable_now env name project r"
proof -
  obtain cached where cached: "cached_record env (pc_store pc) key = Inr cached"
    using fetch by (auto simp: fetch_and_store_def split: sum.splits)
  let ?etag = "Option.bind cached ci_etag"
  show ?thesis
  proof (cases "ev_fetch env name project ?etag")
    case (Inl err)
    with fetch cached have "stale_or env cached (CacheUpstream err) = Inr (Some r)" "pc' = pc"
      by (auto simp: fetch_and_store_def split: sum.splits option.splits)
    with cached Inl show ?thesis by (auto simp: stale_or_Inr servable_now_def upstream_failed_def intro!: exI [of _ ?etag])
  next
    case (Inr response)
    consider "sr_status response = 200" | "sr_status response = 304" | "sr_status response = 404" | "sr_status response \<notin> {200, 304, 404}" by blast
    then show ?thesis
    proof cases
      case 1
      with fetch cached Inr have "persist_page_from env pc key name project r (sr_source response) = Inr pc'" "ci_fetched_at_unix r = ev_clock env"
        by (auto simp: fetch_and_store_def Let_def split: sum.splits option.splits)
      with persist_read [OF ok] 1 Inr show ?thesis by (auto simp: servable_now_def)
    next
      case 2
      with fetch cached Inr obtain r0 where r: "cached = Some r0" "ci_fetched_at_unix r = ev_clock env"
        "r = r0\<lparr>ci_fetched_at_unix := ci_fetched_at_unix r, ci_fresh_secs := ci_fresh_secs r\<rparr>"
        "pc_store pc' = touch_index_freshness (ev_codec env) (pc_store pc) key (ci_fetched_at_unix r) (ci_fresh_secs r)"
        by (auto simp: fetch_and_store_def Let_def split: sum.splits option.splits)
      with touch_freshness_read [OF ok] cached have "get_index (ev_codec env) (pc_store pc') key = Inr (Some r)"
        by (metis cached_record_Some)
      with r(2) 2 Inr show ?thesis by (auto simp: cached_record_Some servable_now_def)
    next
      case 3
      with fetch cached Inr show ?thesis by (auto simp: fetch_and_store_def split: sum.splits option.splits)
    next
      case 4
      with fetch cached Inr have "stale_or env cached Unavailable = Inr (Some r)" "pc' = pc"
        by (auto simp: fetch_and_store_def split: sum.splits option.splits)
      with cached Inr 4 show ?thesis by (auto simp: stale_or_Inr servable_now_def upstream_failed_def intro!: exI [of _ ?etag])
    qed
  qed
qed

definition known_missing :: "('c, 'u, 'v) page_env \<Rightarrow> page_cache \<Rightarrow> string \<Rightarrow> bool" where
  "known_missing env pc key \<longleftrightarrow> is_some_and (pc_negative pc (project_negative_key key)) (\<lambda>until. ev_clock env < until)"

lemma fetch_and_store_missing:
  "fetch_and_store env pc key name project = (pc', Inr None) \<Longrightarrow> known_missing env pc' key"
  by (auto simp: fetch_and_store_def stale_or_Inr known_missing_def remember_negative_def is_some_and_def NEGATIVE_TTL_SECS_def Let_def
      split: sum.splits option.splits if_splits)

lemma cached_peek_Some:
  assumes "cached_peek env pc key = (pc', Inr (Some found))"
  shows "case found of Some r \<Rightarrow> cached_record env (pc_store pc') key = Inr (Some r) \<and> ev_clock env - ci_fetched_at_unix r < freshness env r
    | None \<Rightarrow> known_missing env pc' key"
  using assms by (auto simp: cached_peek_def fresh_cached_def rbind_eq_Inr negative_fresh_def known_missing_def is_some_and_def
      split: sum.splits option.splits if_splits prod.splits)


text \<open>A codec that writes numbers in unary.\<close>

definition unary_codec :: "('a \<Rightarrow> nat) \<Rightarrow> (nat \<Rightarrow> 'a) \<Rightarrow> 'a codec" where
  "unary_codec f g = \<lparr>enc = (\<lambda>x. replicate (f x) CHR ''1''), dec = (\<lambda>b. Some (g (length b)))\<rparr>"

definition unary_header :: "record_header codec" where
  "unary_header = unary_codec (\<lambda>h. to_nat (rh_etag h, rh_last_serial h, rh_fetched_at_unix h, rh_content_type h, rh_fresh_secs h))
     (\<lambda>n. case from_nat n of (etag, serial, at, ct, fresh) \<Rightarrow> \<lparr>rh_etag = etag, rh_last_serial = serial, rh_fetched_at_unix = at,
        rh_content_type = ct, rh_fresh_secs = fresh\<rparr>)"

definition unary_overlay :: "freshness_overlay codec" where
  "unary_overlay = unary_codec (\<lambda>v. to_nat (fo_fetched_at_unix v, fo_fresh_secs v))
     (\<lambda>n. case from_nat n of (at, fresh) \<Rightarrow> \<lparr>fo_fetched_at_unix = at, fo_fresh_secs = fresh\<rparr>)"

definition unary_status :: "project_status_record codec" where
  "unary_status = unary_codec (\<lambda>v. to_nat (ps_status v, ps_reason v)) (\<lambda>n. case from_nat n of (st, reason) \<Rightarrow> \<lparr>ps_status = st, ps_reason = reason\<rparr>)"

definition unary_pages :: page_codec where
  "unary_pages = \<lparr>header = unary_header, plain = (\<lambda>_. None), overlay = unary_overlay, status = unary_status\<rparr>"

lemma unary_pages_ok: "page_codec_ok unary_pages"
  by (auto simp: page_codec_ok_def codec_ok_def unary_pages_def unary_header_def unary_overlay_def unary_codec_def LF_def)

definition sample_page_env :: "(unit, unit, string) page_env" where
  "sample_page_env = \<lparr>ev_indexes = [\<lparr>ix_name = ''pypi'', ix_route = ''pypi'', ix_ecosystem = Pypi, ix_kind = CachedKind () False,
       ix_policy = sample_policy, ix_acl = index_acl_default\<rparr>],
     ev_clock = 100, ev_ttl_secs = 10, ev_max_stale_secs = 1000, ev_codec = unary_pages, ev_formats = sample_formats, ev_json = (\<lambda>_. None),
     ev_to_json = (\<lambda>_. []), ev_html = (\<lambda>_ _ _. Inr sample_detail), ev_absolutize = (\<lambda>_ url. url), ev_permit = (\<lambda>_. None),
     ev_fetch = (\<lambda>_ _ _. Inl ()), ev_wait = id\<rparr>"

definition sample_page :: cached_index where
  "sample_page = \<lparr>ci_etag = None, ci_last_serial = None, ci_fetched_at_unix = 50, ci_content_type = None, ci_fresh_secs = Some 5, ci_body = ''x''\<rparr>"

definition sample_cache :: page_cache where
  "sample_cache = \<lparr>pc_store = put_index unary_pages open_new ''pypi/a'' sample_page, pc_negative = (\<lambda>_. None), pc_epochs = (\<lambda>_. 0)\<rparr>"


end
