(* ===== verification/PypiResolve.thy ===== *)
theory PypiResolve
  imports PypiCache
begin

text \<open>
  Composing the page of a project across the layers of an index (\<open>cache/resolve.rs\<close> of
  \<open>crates/peryx-ecosystem-pypi/src\<close>): cached, hosted and virtual indexes, the source policy of a virtual index, overrides and
  project status.  A virtual index may list virtual indexes, so the recursion takes fuel; the result is \<open>None\<close> when the
  fuel does not suffice or a position names no index, in which case the code does not answer.  The members of a virtual index are
  resolved concurrently in the code and one after the other here: what tasks do to the store while one waits is \<open>ev_wait\<close>.
\<close>

section \<open>Hosted files and overrides\<close>

record trash_info =
  ti_deleted_at_unix :: int
  ti_actor :: "string option"
  ti_reason :: "string option"

record uploaded =
  up_version :: string
  up_file :: pypi_file
  up_trashed :: "trash_info option"

definition HIDDEN :: string where "HIDDEN = ''hidden''"
definition YANKED :: string where "YANKED = ''yanked''"

definition hidden_override :: "string \<Rightarrow> bool" where
  "hidden_override kind \<longleftrightarrow> kind = HIDDEN"

definition stored_yank_override :: "json_doc \<Rightarrow> (string \<times> string option) option" where
  "stored_yank_override doc = (case doc of
      JObject kvs \<Rightarrow>
        if \<not> known_once [''kind'', ''reason''] kvs then None
        else Option.bind (Option.bind (map_of kvs ''kind'') as_str) (\<lambda>kind.
             map_option (\<lambda>reason. (kind, reason)) (with_default None (de_optional as_str) kvs ''reason''))
    | JArray [kind, reason] \<Rightarrow> Option.bind (as_str kind) (\<lambda>kind. map_option (\<lambda>reason. (kind, reason)) (de_optional as_str reason))
    | _ \<Rightarrow> None)"

definition yanked_override :: "json_parser \<Rightarrow> string \<Rightarrow> yanked option" where
  "yanked_override parse_json kind =
     (if kind = YANKED then Some YankedPlain
      else Option.bind (Option.bind (parse_json kind) stored_yank_override) (\<lambda>(kind, reason).
        if kind = YANKED
        then Some (case reason of Some reason \<Rightarrow> if reason \<noteq> [] then YankedReason reason else YankedPlain | None \<Rightarrow> YankedPlain)
        else None))"

definition apply_overrides :: "json_parser \<Rightarrow> meta_store \<Rightarrow> string \<Rightarrow> string \<Rightarrow> pypi_file list \<Rightarrow> pypi_file list" where
  "apply_overrides parse_json s hosted project files =
     (let overrides = map_of (rev (list_overrides s hosted project)) in
      map (\<lambda>f. case Option.bind (overrides (fl_filename f)) (yanked_override parse_json) of
            Some y \<Rightarrow> f\<lparr>fl_yanked := y\<rparr> | None \<Rightarrow> f)
        (filter (\<lambda>f. \<not> is_some_and (overrides (fl_filename f)) hidden_override) files))"

section \<open>Presenting files\<close>

text \<open>\<open>Path::extension\<close>: what follows the last dot of the last component, unless that dot starts it.\<close>

definition path_extension :: "string \<Rightarrow> string option" where
  "path_extension path = (case rev (filter (\<lambda>c. c \<noteq> [] \<and> c \<noteq> ''.'') (split_on CHR ''/'' path)) of
      [] \<Rightarrow> None
    | name # _ \<Rightarrow>
        let stem = dropWhile (\<lambda>c. c \<noteq> CHR ''.'') (rev name) in
        if name = ''..'' \<or> length stem < 2 then None else Some (rev (takeWhile (\<lambda>c. c \<noteq> CHR ''.'') (rev name))))"

definition is_wheel :: "string \<Rightarrow> bool" where
  "is_wheel filename = is_some_and (path_extension filename) (\<lambda>ext. eq_ignore_ascii_case ext ''whl'')"

definition is_tar_gz :: "string \<Rightarrow> bool" where
  "is_tar_gz filename = eq_ignore_ascii_case (drop (length filename - 7) filename) ''.tar.gz''"

definition supports_generated_metadata :: "string \<Rightarrow> bool" where
  "supports_generated_metadata filename \<longleftrightarrow> is_wheel filename \<or> is_tar_gz filename"

definition apply_project_status :: "project_detail \<Rightarrow> project_detail" where
  "apply_project_status d = (if \<not> offers_downloads (meta_status (dt_meta d)) then d\<lparr>dt_files := []\<rparr> else d)"

definition known_metadata :: "meta_store \<Rightarrow> pypi_file list \<Rightarrow> (string, string) tbl" where
  "known_metadata s files = get_metadata_digests s (List.map_filter file_sha256
     (filter (\<lambda>f. supports_generated_metadata (fl_filename f) \<and> is_absent (effective_metadata f)) files))"

definition present_file :: "pypi_file \<Rightarrow> string \<Rightarrow> (string, string) tbl \<Rightarrow> pypi_file" where
  "present_file f route known = (case file_sha256 f of
      None \<Rightarrow> clear_metadata f
    | Some sha256 \<Rightarrow>
        let f = (case effective_metadata f of MetaHashes hashes \<Rightarrow> if t_get hashes ''sha256'' \<noteq> None then f else clear_metadata f
                 | _ \<Rightarrow> clear_metadata f);
            f = (if is_absent (effective_metadata f) \<and> supports_generated_metadata (fl_filename f)
                 then case t_get known sha256 of Some digest \<Rightarrow> set_metadata f (MetaHashes [(''sha256'', digest)]) | None \<Rightarrow> f
                 else f);
            f = (if \<not> is_local_file_url route (fl_url f) then f\<lparr>fl_url := local_file_url route sha256 (fl_filename f)\<rparr> else f)
        in f\<lparr>fl_gpg_sig := None\<rparr>)"

definition raw_to_detail :: "('c, 'u, 'v) page_env \<Rightarrow> meta_store \<Rightarrow> string \<Rightarrow> cached_index \<Rightarrow> 'u cache_error + project_detail" where
  "raw_to_detail env s route r = rbind (map_err cache_of_simple (parse_detail (ev_json env (ci_body r)))) (\<lambda>d.
     let known = known_metadata s (dt_files d)
     in Inr (apply_project_status (d\<lparr>dt_files := map (\<lambda>f. present_file f route known) (dt_files d)\<rparr>)))"

definition rewrite_urls :: "project_detail \<Rightarrow> string \<Rightarrow> project_detail" where
  "rewrite_urls d route = d\<lparr>dt_files := map (\<lambda>f. case file_sha256 f of
      Some sha256 \<Rightarrow> f\<lparr>fl_url := local_file_url route sha256 (fl_filename f)\<rparr> | None \<Rightarrow> f) (dt_files d)\<rparr>"

section \<open>The page of one index\<close>

record detail_page =
  dp_detail :: project_detail
  dp_last_serial :: "nat option"

definition cached_detail ::
    "('c, 'u, 'v) page_env \<Rightarrow> page_cache \<Rightarrow> string \<Rightarrow> string \<Rightarrow> bool \<Rightarrow> string \<Rightarrow> page_cache \<times> ('u cache_error + detail_page option)" where
  "cached_detail env pc name route offline_mode project = (case cached_lookup env pc name offline_mode project of
      (pc, Inl e) \<Rightarrow> (pc, Inl e)
    | (pc, Inr None) \<Rightarrow> (pc, Inr None)
    | (pc, Inr (Some r)) \<Rightarrow>
        (pc, rbind (raw_to_detail env (pc_store pc) route r) (\<lambda>d. Inr (Some \<lparr>dp_detail = d, dp_last_serial = ci_last_serial r\<rparr>))))"

fun live_uploads :: "uploaded codec \<Rightarrow> (string \<times> bytes) list \<Rightarrow> uploaded list option" where
  "live_uploads uc [] = Some []"
| "live_uploads uc ((filename, raw) # entries) = Option.bind (dec uc raw) (\<lambda>u.
     map_option (\<lambda>us. if up_trashed u \<noteq> None then us else u # us) (live_uploads uc entries))"

definition local_detail :: "uploaded codec \<Rightarrow> meta_store \<Rightarrow> string \<Rightarrow> string \<Rightarrow> 'u cache_error + project_detail option" where
  "local_detail uc s name project =
     (let entries = list_upload_entries s name project in
      if entries = [] then Inr None
      else case live_uploads uc entries of
        None \<Rightarrow> Inl CacheParse
      | Some us \<Rightarrow>
          if us = [] then Inr None
          else Inr (Some (apply_project_status \<lparr>dt_meta = meta_default, dt_name = project,
            dt_versions = foldl (\<lambda>vs u. bset_insert (up_version u) vs) [] us, dt_files = map up_file us\<rparr>)))"

section \<open>Virtual indexes\<close>

definition member_names :: "'c index list \<Rightarrow> nat list \<Rightarrow> bool \<Rightarrow> string" where
  "member_names ixs ls cached = join_str '', '' (map ix_name (filter (\<lambda>ix. is_cached (ix_kind ix) = cached) (map ((!) ixs) ls)))"

definition no_fallback_denial :: "'c index list \<Rightarrow> 'c index \<Rightarrow> nat list \<Rightarrow> string \<Rightarrow> policy_denial" where
  "no_fallback_denial ixs ix ls project = policy_denial_new Cached project None None ''virtual-fallback'' ''fallback_mode''
     (''project '' @ debug_str project @ '' is missing from hosted members '' @ debug_str (member_names ixs ls False)
      @ '' of virtual repository '' @ debug_str (ix_name ix) @ ''; fallback mode '' @ debug_str (fallback_mode_as_str NoFallback)
      @ '' forbids cached members '' @ debug_str (member_names ixs ls True))"

text \<open>The outcomes of the members in shadow order: the pages found, the last offline miss and the last refused slot.\<close>

record 'u member_outcomes =
  mo_details :: "(nat \<times> project_detail) list"
  mo_offline :: "'u cache_error option"
  mo_limited :: "'u cache_error option"

definition gather_outcome :: "'u member_outcomes \<Rightarrow> nat \<times> ('u cache_error + detail_page option) \<Rightarrow> 'u member_outcomes" where
  "gather_outcome m outcome = (case outcome of
      (pos, Inr (Some page)) \<Rightarrow> m\<lparr>mo_details := mo_details m @ [(pos, dp_detail page)]\<rparr>
    | (pos, Inr None) \<Rightarrow> m
    | (pos, Inl (OfflineMissing w)) \<Rightarrow> m\<lparr>mo_offline := Some (OfflineMissing w)\<rparr>
    | (pos, Inl (RateLimited n)) \<Rightarrow> m\<lparr>mo_limited := Some (RateLimited n)\<rparr>
    | (pos, Inl _) \<Rightarrow> m)"

definition gather_outcomes :: "(nat \<times> ('u cache_error + detail_page option)) list \<Rightarrow> 'u member_outcomes" where
  "gather_outcomes outcomes = foldl gather_outcome \<lparr>mo_details = [], mo_offline = None, mo_limited = None\<rparr> outcomes"

definition select_members :: "'c index list \<Rightarrow> fallback_mode \<Rightarrow> (nat \<times> project_detail) list \<Rightarrow> (nat \<times> project_detail) list" where
  "select_members ixs mode details =
     (let details = (if mode \<noteq> Fallback then filter (\<lambda>(_, d). dt_files d \<noteq> []) details else details);
          hosted = (\<lambda>(pos, _). \<not> is_cached (ix_kind (ixs ! pos)))
      in if mode = PrivateFirst \<and> list_ex hosted details then filter hosted details else details)"

text \<open>Merging in shadow order: the first file of a name wins.\<close>

record merge_state =
  ms_files :: "pypi_file list"
  ms_seen :: "string set"
  ms_versions :: "string list"
  ms_meta :: simple_meta

definition merge_file :: "merge_state \<Rightarrow> pypi_file \<Rightarrow> merge_state" where
  "merge_file m f = (if fl_filename f \<in> ms_seen m then m
     else m\<lparr>ms_seen := insert (fl_filename f) (ms_seen m), ms_files := ms_files m @ [f]\<rparr>)"

definition merge_detail :: "merge_state \<Rightarrow> project_detail \<Rightarrow> merge_state" where
  "merge_detail m d =
     (let m = m\<lparr>ms_versions := foldl (\<lambda>vs v. bset_insert v vs) (ms_versions m) (dt_versions d)\<rparr>;
          m = (if sm_api_version (dt_meta d) = API_VERSION_BASE then m\<lparr>ms_meta := (ms_meta m)\<lparr>sm_api_version := API_VERSION_BASE\<rparr>\<rparr> else m);
          m = (if sm_project_status (ms_meta m) = None \<and> sm_project_status (dt_meta d) \<noteq> None
               then m\<lparr>ms_meta := (ms_meta m)\<lparr>sm_project_status := sm_project_status (dt_meta d),
                 sm_project_status_reason := sm_project_status_reason (dt_meta d)\<rparr>\<rparr> else m)
      in foldl merge_file m (dt_files d))"

definition merge_details :: "project_detail list \<Rightarrow> merge_state" where
  "merge_details ds = foldl merge_detail \<lparr>ms_files = [], ms_seen = {}, ms_versions = [], ms_meta = meta_default\<rparr> ds"

definition virtual_page ::
    "('c, 'u, 'v) page_env \<Rightarrow> meta_store \<Rightarrow> 'c index \<Rightarrow> nat list \<Rightarrow> nat option \<Rightarrow> string \<Rightarrow> bool
      \<Rightarrow> (nat \<times> ('u cache_error + detail_page option)) list \<Rightarrow> ('u cache_error + project_detail option) option" where
  "virtual_page env s ix ls up project deny_no_fallback_miss outcomes =
     (let mode = policy_fallback_mode (ix_policy ix);
          m = gather_outcomes outcomes;
          details = select_members (ev_indexes env) mode (mo_details m)
      in if details = [] then Some (case fst (check_project (ix_policy ix) Cached project) of
           Inl denial \<Rightarrow> Inl (CachePolicy denial)
         | Inr _ \<Rightarrow>
             if mode = NoFallback \<and> deny_no_fallback_miss then Inl (CachePolicy (no_fallback_denial (ev_indexes env) ix ls project))
             else case mo_limited m of Some err \<Rightarrow> Inl err
                | None \<Rightarrow> (case mo_offline m of Some err \<Rightarrow> Inl err | None \<Rightarrow> Inr None))
         else let merged = merge_details (map snd details);
                  page = (\<lambda>files. apply_project_status \<lparr>dt_meta = ms_meta merged, dt_name = project, dt_versions = ms_versions merged,
                    dt_files = files\<rparr>)
              in case up of
                   None \<Rightarrow> Some (Inr (Some (page (ms_files merged))))
                 | Some pos \<Rightarrow>
                     if length (ev_indexes env) \<le> pos then None
                     else Some (Inr (Some (page (apply_overrides (ev_json env) s (ix_name (ev_indexes env ! pos)) project (ms_files merged))))))"

definition consulted_members :: "('c, 'u, 'v) page_env \<Rightarrow> 'c index \<Rightarrow> nat list \<Rightarrow> string \<Rightarrow> nat list option" where
  "consulted_members env ix ls project =
     (if \<not> list_all (\<lambda>i. i < length (ev_indexes env)) ls then None
      else let consult_cached = (policy_fallback_mode (ix_policy ix) \<noteq> NoFallback \<and> is_ok (fst (check_project (ix_policy ix) Cached project)))
           in map_option (filter (\<lambda>pos. \<not> is_cached (ix_kind (ev_indexes env ! pos)) \<or> consult_cached)) (shadow_order (ev_indexes env) ls))"

fun resolve_members :: "(page_cache \<Rightarrow> nat \<Rightarrow> (page_cache \<times> 'r) option) \<Rightarrow> nat list \<Rightarrow> page_cache \<Rightarrow> (page_cache \<times> (nat \<times> 'r) list) option" where
  "resolve_members visit [] pc = Some (pc, [])"
| "resolve_members visit (pos # rest) pc = Option.bind (visit pc pos) (\<lambda>(pc, r).
     map_option (\<lambda>(pc, rs). (pc, (pos, r) # rs)) (resolve_members visit rest pc))"

definition finish_page :: "('c, 'u, 'v) page_env \<Rightarrow> 'c index \<Rightarrow> string \<Rightarrow> 'u cache_error + detail_page option \<Rightarrow> 'u cache_error + detail_page option" where
  "finish_page env ix project outcome = rbind outcome (\<lambda>page. case page of
      None \<Rightarrow> Inr None
    | Some page \<Rightarrow> rbind (map_err CachePolicy (apply_detail (ev_formats env) (ix_policy ix) Serve project (dp_detail page) (Some (ev_clock env))))
        (\<lambda>d. Inr (Some (page\<lparr>dp_detail := d\<rparr>))))"

fun resolve_detail_page_with ::
    "nat \<Rightarrow> ('c, 'u, 'v) page_env \<Rightarrow> uploaded codec \<Rightarrow> page_cache \<Rightarrow> 'c index \<Rightarrow> string \<Rightarrow> string \<Rightarrow> bool
      \<Rightarrow> (page_cache \<times> ('u cache_error + detail_page option)) option" where
  "resolve_detail_page_with 0 env uc pc ix project serve_route deny_no_fallback_miss = None"
| "resolve_detail_page_with (Suc fuel) env uc pc ix project serve_route deny_no_fallback_miss =
     (case fst (check_project (ix_policy ix) Serve project) of
        Inl denial \<Rightarrow> Some (pc, Inl (CachePolicy denial))
      | Inr _ \<Rightarrow>
          (case ix_kind ix of
             CachedKind _ offline_mode \<Rightarrow>
               (case cached_detail env pc (ix_name ix) (ix_route ix) offline_mode project of
                  (pc, outcome) \<Rightarrow> Some (pc, finish_page env ix project (rbind outcome (\<lambda>page.
                    Inr (map_option (\<lambda>page. page\<lparr>dp_detail := rewrite_urls (dp_detail page) serve_route\<rparr>) page)))))
           | HostedKind _ \<Rightarrow>
               Some (pc, finish_page env ix project (rbind (local_detail uc (pc_store pc) (ix_name ix) project) (\<lambda>found.
                 Inr (map_option (\<lambda>d. \<lparr>dp_detail = rewrite_urls d serve_route, dp_last_serial = Some (current_serial (pc_store pc))\<rparr>) found))))
           | VirtualKind ls up \<Rightarrow>
               Option.bind (consulted_members env ix ls project) (\<lambda>ordered.
               Option.bind (resolve_members (\<lambda>pc pos. resolve_detail_page_with fuel env uc pc (ev_indexes env ! pos) project serve_route
                   deny_no_fallback_miss) ordered pc) (\<lambda>(pc, outcomes).
               map_option (\<lambda>outcome. (pc, finish_page env ix project (rbind outcome (\<lambda>found.
                   Inr (map_option (\<lambda>d. \<lparr>dp_detail = d, dp_last_serial = None\<rparr>) found)))))
                 (virtual_page env (pc_store pc) ix ls up project deny_no_fallback_miss outcomes)))))"

definition page_detail :: "(page_cache \<times> ('u cache_error + detail_page option)) option \<Rightarrow> (page_cache \<times> ('u cache_error + project_detail option)) option" where
  "page_detail answer = map_option (\<lambda>(pc, outcome). (pc, rbind outcome (\<lambda>page. Inr (map_option dp_detail page)))) answer"

definition resolve_detail ::
    "nat \<Rightarrow> ('c, 'u, 'v) page_env \<Rightarrow> uploaded codec \<Rightarrow> page_cache \<Rightarrow> 'c index \<Rightarrow> string \<Rightarrow> string \<Rightarrow> (page_cache \<times> ('u cache_error + project_detail option)) option" where
  "resolve_detail fuel env uc pc ix project serve_route = page_detail (resolve_detail_page_with fuel env uc pc ix project serve_route True)"

definition resolve_detail_optional ::
    "nat \<Rightarrow> ('c, 'u, 'v) page_env \<Rightarrow> uploaded codec \<Rightarrow> page_cache \<Rightarrow> 'c index \<Rightarrow> string \<Rightarrow> string \<Rightarrow> (page_cache \<times> ('u cache_error + project_detail option)) option" where
  "resolve_detail_optional fuel env uc pc ix project serve_route = page_detail (resolve_detail_page_with fuel env uc pc ix project serve_route False)"

section \<open>The list of projects\<close>

fun collect_layers :: "(nat \<Rightarrow> string list \<Rightarrow> ('e + string list) option) \<Rightarrow> nat list \<Rightarrow> string list \<Rightarrow> ('e + string list) option" where
  "collect_layers visit [] names = Some (Inr names)"
| "collect_layers visit (pos # rest) names = Option.bind (visit pos names) (\<lambda>r. case r of
      Inl e \<Rightarrow> Some (Inl e) | Inr names \<Rightarrow> collect_layers visit rest names)"

fun collect_projects ::
    "nat \<Rightarrow> 'c index list \<Rightarrow> catalog_generation publication codec \<Rightarrow> meta_store \<Rightarrow> 'c index \<Rightarrow> string list \<Rightarrow> ('u cache_error + string list) option" where
  "collect_projects 0 ixs c s ix names = None"
| "collect_projects (Suc fuel) ixs c s ix names = (case ix_kind ix of
      VirtualKind ls _ \<Rightarrow> collect_layers (\<lambda>pos names. if pos < length ixs then collect_projects fuel ixs c s (ixs ! pos) names else None) ls names
    | _ \<Rightarrow> Some (rbind (map_err CacheMeta (list_projects c s (ix_name ix))) (\<lambda>found. Inr (foldl (\<lambda>names name. bset_insert name names) names found))))"

definition resolve_list ::
    "nat \<Rightarrow> ('c, 'u, 'v) page_env \<Rightarrow> catalog_generation publication codec \<Rightarrow> meta_store \<Rightarrow> 'c index \<Rightarrow> ('u cache_error + project_list) option" where
  "resolve_list fuel env c s ix = map_option (\<lambda>names. rbind names (\<lambda>names.
     Inr (apply_list (ev_formats env) (ix_policy ix) \<lparr>pl_meta = meta_default, pl_projects = names\<rparr>)))
     (collect_projects fuel (ev_indexes env) c s ix [])"

definition list_serial :: "meta_store \<Rightarrow> 'c index \<Rightarrow> nat option" where
  "list_serial s ix = (case ix_kind ix of HostedKind _ \<Rightarrow> Some (current_serial s) | _ \<Rightarrow> None)"

section \<open>Resolution answers\<close>

definition layers_ranked :: "'c index list \<Rightarrow> (nat \<Rightarrow> nat) \<Rightarrow> bool" where
  "layers_ranked ixs rank \<longleftrightarrow> (\<forall>p < length ixs. case ix_kind (ixs ! p) of
      VirtualKind ls up \<Rightarrow> (\<forall>i \<in> set ls. i < length ixs \<and> rank i < rank p) \<and> is_none_or up (\<lambda>u. u < length ixs)
    | _ \<Rightarrow> True)"

lemma resolve_members_cong:
  "(\<And>pos pc. pos \<in> set ps \<Longrightarrow> v pc pos = w pc pos) \<Longrightarrow> resolve_members v ps pc = resolve_members w ps pc"
  by (induction ps arbitrary: pc) (simp_all split: prod.split)

lemma resolve_members_Some:
  "(\<And>pos pc. pos \<in> set ps \<Longrightarrow> \<exists>r. v pc pos = Some r) \<Longrightarrow> \<exists>r. resolve_members v ps pc = Some r"
proof (induction ps arbitrary: pc)
  case (Cons pos ps)
  obtain pc1 r where "v pc pos = Some (pc1, r)" using Cons.prems [of pos pc] by auto
  moreover obtain out where "resolve_members v ps pc1 = Some out" using Cons.IH [of pc1] Cons.prems by auto
  ultimately show ?case by (simp split: prod.split)
qed simp

lemma resolve_members_None:
  "p \<in> set ps \<Longrightarrow> (\<And>pc. v pc p = None) \<Longrightarrow> resolve_members v ps pc = None"
  by (induction ps arbitrary: pc) (auto split: Option.bind_splits)

lemma consulted_set:
  assumes "consulted_members env ix ls project = Some ordered"
  shows "set ordered = {p \<in> set ls. \<not> is_cached (ix_kind (ev_indexes env ! p))
      \<or> policy_fallback_mode (ix_policy ix) \<noteq> NoFallback \<and> is_ok (fst (check_project (ix_policy ix) Cached project))}"
    and "\<forall>p \<in> set ls. p < length (ev_indexes env)"
  using assms by (auto simp: consulted_members_def shadow_order_def Let_def list_all_iff split: if_splits)

lemma consulted_Some:
  assumes "\<forall>p \<in> set ls. p < length (ev_indexes env)"
  shows "\<exists>ordered. consulted_members env ix ls project = Some ordered"
  using assms by (auto simp: consulted_members_def shadow_order_def Let_def list_all_iff list_ex_iff)

lemma virtual_page_Some:
  "is_none_or up (\<lambda>u. u < length (ev_indexes env)) \<Longrightarrow> \<exists>r. virtual_page env s ix ls up project deny outcomes = Some r"
  by (auto simp: virtual_page_def Let_def is_none_or_def split: option.split)

lemma resolve_Some:
  assumes "layers_ranked (ev_indexes env) rank" "p < length (ev_indexes env)" "rank p < fuel"
  shows "\<exists>r. resolve_detail_page_with fuel env uc pc (ev_indexes env ! p) project route deny = Some r"
  using assms(2,3)
proof (induction fuel arbitrary: p pc)
  case (Suc fuel)
  show ?case
  proof (cases "ix_kind (ev_indexes env ! p)")
    case (VirtualKind ls up)
    with assms(1) Suc.prems(1) have ls: "\<forall>i \<in> set ls. i < length (ev_indexes env) \<and> rank i < rank p"
      and up: "is_none_or up (\<lambda>u. u < length (ev_indexes env))" by (auto simp: layers_ranked_def)
    obtain ordered where ordered: "consulted_members env (ev_indexes env ! p) ls project = Some ordered"
      using consulted_Some ls by blast
    have "\<exists>r. resolve_detail_page_with fuel env uc pc (ev_indexes env ! pos) project route deny = Some r" if "pos \<in> set ordered" for pos pc
    proof (rule Suc.IH)
      show "pos < length (ev_indexes env)" "rank pos < fuel" using that consulted_set(1) [OF ordered] ls Suc.prems(2) by auto
    qed
    then obtain pc' outs where outs: "resolve_members (\<lambda>pc pos. resolve_detail_page_with fuel env uc pc
        (ev_indexes env ! pos) project route deny) ordered pc = Some (pc', outs)"
      by (metis (no_types, lifting) resolve_members_Some surj_pair)
    obtain r where "virtual_page env (pc_store pc') (ev_indexes env ! p) ls up project deny outs = Some r"
      using virtual_page_Some [OF up] by blast
    with VirtualKind ordered outs show ?thesis by (simp split: sum.split)
  qed (auto split: sum.split prod.split)
qed simp

lemma resolve_fuel:
  assumes "layers_ranked (ev_indexes env) rank" "p < length (ev_indexes env)" "rank p < n" "rank p < m"
  shows "resolve_detail_page_with n env uc pc (ev_indexes env ! p) project route deny =
    resolve_detail_page_with m env uc pc (ev_indexes env ! p) project route deny"
  using assms(2-)
proof (induction n arbitrary: m p pc)
  case (Suc n)
  then obtain m' where m: "m = Suc m'" by (cases m) auto
  show ?case
  proof (cases "ix_kind (ev_indexes env ! p)")
    case (VirtualKind ls up)
    with assms(1) Suc.prems(1) have ls: "\<forall>i \<in> set ls. i < length (ev_indexes env) \<and> rank i < rank p" by (auto simp: layers_ranked_def)
    have same: "resolve_members (\<lambda>pc pos. resolve_detail_page_with n env uc pc (ev_indexes env ! pos) project route deny) ordered pc =
        resolve_members (\<lambda>pc pos. resolve_detail_page_with m' env uc pc (ev_indexes env ! pos) project route deny) ordered pc"
      if "consulted_members env (ev_indexes env ! p) ls project = Some ordered" for ordered
    proof (rule resolve_members_cong)
      fix pos pc assume "pos \<in> set ordered"
      with consulted_set(1) [OF that] ls have "pos < length (ev_indexes env)" "rank pos < rank p" by auto
      with Suc.prems m show "resolve_detail_page_with n env uc pc (ev_indexes env ! pos) project route deny =
          resolve_detail_page_with m' env uc pc (ev_indexes env ! pos) project route deny" by (intro Suc.IH) auto
    qed
    then show ?thesis
      using VirtualKind m by (cases "consulted_members env (ev_indexes env ! p) ls project") (auto split: sum.split)
  qed (use m in \<open>simp_all split: sum.split prod.split\<close>)
qed simp

text \<open>C16: Where the layers of every virtual index have a lower rank than the index, resolving a project answers, and the answer does
  not depend on the fuel once it exceeds the rank.\<close>

theorem resolve_answers:
  assumes "layers_ranked (ev_indexes env) rank" "p < length (ev_indexes env)"
  shows "\<exists>r. \<forall>fuel > rank p. resolve_detail_page_with fuel env uc pc (ev_indexes env ! p) project route deny = Some r"
proof -
  obtain r where r: "resolve_detail_page_with (Suc (rank p)) env uc pc (ev_indexes env ! p) project route deny = Some r"
    using resolve_Some [OF assms] by blast
  have "resolve_detail_page_with fuel env uc pc (ev_indexes env ! p) project route deny = Some r" if "rank p < fuel" for fuel
    using resolve_fuel [OF assms that lessI] r by simp
  then show ?thesis by blast
qed

text \<open>A virtual index that lists itself never answers.\<close>

lemma self_layer_never_answers:
  assumes "p < length (ev_indexes env)" "ev_indexes env ! p = ix" "ix_kind ix = VirtualKind ls up" "p \<in> set ls"
    and serve: "is_ok (fst (check_project (ix_policy ix) Serve project))"
  shows "resolve_detail_page_with fuel env uc pc ix project route deny = None"
proof (induction fuel arbitrary: pc)
  case (Suc fuel)
  have "resolve_members (\<lambda>pc pos. resolve_detail_page_with fuel env uc pc (ev_indexes env ! pos) project route deny) ordered pc = None"
    if "consulted_members env ix ls project = Some ordered" for ordered
    using consulted_set(1) [OF that] assms Suc by (intro resolve_members_None [of p]) auto
  with serve assms(3) show ?case
    by (cases "consulted_members env ix ls project") (auto simp: is_ok_def split: sum.splits)
qed simp

section \<open>What page reads leave alone\<close>

lemma t_insert_filter: "\<not> P k \<Longrightarrow> filter (\<lambda>e. P (fst e)) (t_insert t k v) = filter (\<lambda>e. P (fst e)) t"
  by (induction t k v rule: t_insert.induct) auto

lemma t_remove_filter: "\<not> P k \<Longrightarrow> filter (\<lambda>e. P (fst e)) (t_remove t k) = filter (\<lambda>e. P (fst e)) t"
  by (induction t) (auto simp: t_remove_def)

definition batch_keys :: "driver_batch \<Rightarrow> string set" where
  "batch_keys b = fst ` set (db_puts b) \<union> set (db_deletes b)"

lemma fold_batch_filter:
  "(\<And>k. k \<in> fst ` set kvs \<Longrightarrow> \<not> P k) \<Longrightarrow>
     filter (\<lambda>e. P (fst e)) (fold (\<lambda>(k, v) t. t_insert t k v) kvs t) = filter (\<lambda>e. P (fst e)) t"
  "(\<And>k. k \<in> set ks \<Longrightarrow> \<not> P k) \<Longrightarrow> filter (\<lambda>e. P (fst e)) (fold (\<lambda>k t. t_remove t k) ks t) = filter (\<lambda>e. P (fst e)) t"
  by (induction kvs arbitrary: t; force simp: t_insert_filter) (induction ks arbitrary: t; force simp: t_remove_filter)

text \<open>The hosted files of a project are those of a well formed store with the same rows.\<close>

definition uploads_same :: "string \<Rightarrow> meta_store \<Rightarrow> meta_store \<Rightarrow> bool" where
  "uploads_same project s s' \<longleftrightarrow> t_wf (driver_kv s') \<and> (\<forall>name. list_upload_entries s' name project = list_upload_entries s name project)"

lemma batch_uploads:
  assumes wf: "t_wf (driver_kv s)" and other: "\<And>k. k \<in> batch_keys b \<Longrightarrow> \<not> starts_with k UPLOAD_PREFIX"
  shows "uploads_same project s (commit_driver_batch s b)"
proof -
  let ?s = "commit_driver_batch s b"
  have wf': "t_wf (driver_kv ?s)" using wf by (simp add: commit_driver_batch_def fold_remove_wf fold_insert_wf)
  have "list_upload_entries ?s name project = list_upload_entries s name project" for name
  proof -
    let ?p = "uploads_prefix name project"
    have no: "\<not> starts_with k ?p" if "k \<in> batch_keys b" for k
      using other [OF that] by (auto simp: starts_with_iff uploads_prefix_def)
    then have scan: "prefix_scan (driver_kv ?s) ?p = prefix_scan (driver_kv s) ?p"
      unfolding prefix_scan_eq [OF wf'] prefix_scan_eq [OF wf]
      by (simp add: commit_driver_batch_def batch_keys_def fold_batch_filter [where P = "\<lambda>k. starts_with k ?p"])
    have "get_driver_value ?s k = get_driver_value s k" if "starts_with k ?p" for k
    proof -
      have "k \<notin> set (db_deletes b)" "k \<notin> fst ` set (db_puts b)" using no that by (auto simp: batch_keys_def)
      then show ?thesis by (auto simp: map_of_eq_None_iff split: option.split) (metis fst_conv image_eqI map_of_SomeD set_rev)
    qed
    then have "(case (strip_prefix ?p k, get_driver_value ?s k) of (Some filename, Some r) \<Rightarrow> Some (filename, r) | _ \<Rightarrow> None) =
        (case (strip_prefix ?p k, get_driver_value s k) of (Some filename, Some r) \<Rightarrow> Some (filename, r) | _ \<Rightarrow> None)" for k
      by (cases "strip_prefix ?p k") (auto simp: strip_prefix_Some starts_with_iff)
    then show ?thesis by (simp add: list_upload_entries_def driver_prefix_keys_def driver_prefix_keys_limited_def scan)
  qed
  with wf' show ?thesis by (simp add: uploads_same_def)
qed

lemma uploads_same_refl: "t_wf (driver_kv s) \<Longrightarrow> uploads_same project s s"
  by (simp add: uploads_same_def)

lemma uploads_same_trans: "uploads_same project s s' \<Longrightarrow> uploads_same project s' s'' \<Longrightarrow> uploads_same project s s''"
  by (simp add: uploads_same_def)

lemma page_keys_not_uploads:
  "\<not> starts_with (index_key a) UPLOAD_PREFIX" "\<not> starts_with (freshness_key a) UPLOAD_PREFIX" "\<not> starts_with (file_key a) UPLOAD_PREFIX"
  "\<not> starts_with (metadata_key a) UPLOAD_PREFIX" "\<not> starts_with (project_key a n) UPLOAD_PREFIX" "\<not> starts_with (project_status_key a n) UPLOAD_PREFIX"
  by (auto simp: starts_with_iff page_key_defs UPLOAD_PREFIX_def)

lemma put_cached_page_uploads:
  "t_wf (driver_kv s) \<Longrightarrow> uploads_same project s (put_cached_page c s key r i n d src up st rs files metadata)"
  unfolding put_cached_page_def Let_def
  by (intro batch_uploads) (auto simp: batch_keys_def case_prod_beta' batch_fold_puts page_keys_not_uploads split: if_splits)

lemma touch_uploads: "t_wf (driver_kv s) \<Longrightarrow> uploads_same project s (touch_index_freshness c s key at secs)"
  unfolding touch_index_freshness_def by (intro batch_uploads) (auto simp: batch_keys_def page_keys_not_uploads)

lemma fetch_and_store_uploads:
  assumes "t_wf (driver_kv (pc_store pc))" "fetch_and_store env pc key name project = (pc', out)"
  shows "uploads_same p (pc_store pc) (pc_store pc')"
  using assms by (auto simp: fetch_and_store_def persist_page_from_def remember_negative_def invalidate_project_def Let_def rbind_eq_Inr
      uploads_same_refl put_cached_page_uploads touch_uploads split: sum.splits option.splits if_splits)

lemma cached_peek_store: "cached_peek env pc key = (pc', out) \<Longrightarrow> pc_store pc' = pc_store pc"
  by (auto simp: cached_peek_def negative_fresh_def split: sum.splits option.splits if_splits prod.splits)

text \<open>Other tasks do not upload, delete or yank hosted files of the project meanwhile.\<close>

definition uploads_calm :: "('c, 'u, 'v) page_env \<Rightarrow> string \<Rightarrow> bool" where
  "uploads_calm env project \<longleftrightarrow> (\<forall>pc. t_wf (driver_kv (pc_store pc)) \<longrightarrow> uploads_same project (pc_store pc) (pc_store (ev_wait env pc)))"

lemma cached_lookup_uploads:
  assumes calm: "uploads_calm env p" and wf: "t_wf (driver_kv (pc_store pc))" and look: "cached_lookup env pc name offline_mode project = (pc', out)"
  shows "uploads_same p (pc_store pc) (pc_store pc')"
proof (cases offline_mode)
  case True
  with wf look show ?thesis by (auto simp: cached_lookup_def Let_def uploads_same_refl)
next
  case False
  let ?key = "name @ ''/'' @ project"
  obtain p1 out1 where one: "cached_peek env pc ?key = (p1, out1)" by fastforce
  obtain p2 out2 where two: "cached_peek env (ev_wait env p1) ?key = (p2, out2)" by fastforce
  have w: "uploads_same p (pc_store pc) (pc_store (ev_wait env p1))"
    using calm wf cached_peek_store [OF one] unfolding uploads_calm_def by metis
  then have w2: "uploads_same p (pc_store pc) (pc_store p2)" "t_wf (driver_kv (pc_store p2))"
    using cached_peek_store [OF two] by (simp_all add: uploads_same_def)
  have "pc' = p1 \<or> pc' = p2 \<or> fetch_and_store env p2 ?key name project = (pc', out)"
    using False look one two by (auto simp: cached_lookup_def Let_def split: sum.splits option.splits)
  moreover have "uploads_same p (pc_store p2) (pc_store pc')" if "fetch_and_store env p2 ?key name project = (pc', out)"
    by (rule fetch_and_store_uploads [OF w2(2) that])
  ultimately show ?thesis
    using w2(1) wf cached_peek_store [OF one] uploads_same_refl uploads_same_trans by metis
qed

section \<open>No dependency confusion\<close>

lemma merge_file_files: "set (ms_files (foldl merge_file m fs)) \<subseteq> set (ms_files m) \<union> set fs"
proof (induction fs arbitrary: m)
  case (Cons f fs)
  have "set (ms_files (merge_file m f)) \<subseteq> set (ms_files m) \<union> {f}" by (auto simp: merge_file_def)
  with Cons [of "merge_file m f"] show ?case by auto
qed simp

lemma merge_detail_files: "set (ms_files (merge_detail m d)) \<subseteq> set (ms_files m) \<union> set (dt_files d)"
  unfolding merge_detail_def Let_def by (rule order_trans [OF merge_file_files]) auto

lemma merge_details_files: "f \<in> set (ms_files (merge_details ds)) \<Longrightarrow> \<exists>d \<in> set ds. f \<in> set (dt_files d)"
proof -
  have "set (ms_files (foldl merge_detail m ds)) \<subseteq> set (ms_files m) \<union> (\<Union>d \<in> set ds. set (dt_files d))" for m
    by (induction ds arbitrary: m) (use merge_detail_files in fastforce)+
  then show "f \<in> set (ms_files (merge_details ds)) \<Longrightarrow> ?thesis" by (fastforce simp: merge_details_def)
qed

text \<open>Two file entries name the same artifact: the filename and the digests agree.\<close>

definition same_artifact :: "pypi_file \<Rightarrow> pypi_file \<Rightarrow> bool" where
  "same_artifact f g \<longleftrightarrow> fl_filename f = fl_filename g \<and> fl_hashes f = fl_hashes g"

lemma apply_overrides_files: "f \<in> set (apply_overrides pj s hosted project fs) \<Longrightarrow> \<exists>g \<in> set fs. same_artifact f g"
  by (auto simp: apply_overrides_def Let_def same_artifact_def split: option.splits)

lemma rewrite_urls_files: "f \<in> set (dt_files (rewrite_urls d route)) \<Longrightarrow> \<exists>g \<in> set (dt_files d). same_artifact f g"
  by (auto simp: rewrite_urls_def same_artifact_def split: option.splits)

lemma apply_project_status_files: "set (dt_files (apply_project_status d)) \<subseteq> set (dt_files d)"
  by (simp add: apply_project_status_def)

lemma apply_detail_files: "apply_detail fm p act project d now = Inr d' \<Longrightarrow> set (dt_files d') \<subseteq> set (dt_files d)"
  by (auto simp: apply_detail_def rbind_eq_Inr Let_def retain_versions_with_files_def split: if_splits)

lemma finish_page_files:
  assumes "finish_page env ix project outcome = Inr (Some page)"
  obtains page0 where "outcome = Inr (Some page0)" "set (dt_files (dp_detail page)) \<subseteq> set (dt_files (dp_detail page0))"
proof -
  obtain page0 d where "outcome = Inr (Some page0)" "page = page0\<lparr>dp_detail := d\<rparr>"
    "apply_detail (ev_formats env) (ix_policy ix) Serve project (dp_detail page0) (Some (ev_clock env)) = Inr d"
    using assms by (auto simp: finish_page_def rbind_eq_Inr split: option.splits)
  with apply_detail_files that show ?thesis by fastforce
qed

lemma gather_outcomes_details:
  "(pos, d) \<in> set (mo_details (gather_outcomes outs)) \<longleftrightarrow> (\<exists>page. (pos, Inr (Some page)) \<in> set outs \<and> d = dp_detail page)"
proof -
  have "(pos, d) \<in> set (mo_details (foldl gather_outcome m outs)) \<longleftrightarrow>
      (pos, d) \<in> set (mo_details m) \<or> (\<exists>page. (pos, Inr (Some page)) \<in> set outs \<and> d = dp_detail page)" for m
  proof (induction outs arbitrary: m)
    case (Cons out outs)
    have "(pos, d) \<in> set (mo_details (gather_outcome m out)) \<longleftrightarrow>
        (pos, d) \<in> set (mo_details m) \<or> (\<exists>page. out = (pos, Inr (Some page)) \<and> d = dp_detail page)"
      by (auto simp: gather_outcome_def split: prod.splits sum.splits option.splits cache_error.splits)
    with Cons show ?case by auto
  qed simp
  then show ?thesis by (simp add: gather_outcomes_def)
qed

lemma virtual_page_files:
  assumes "virtual_page env s ix ls up project deny outs = Some (Inr (Some d))" "f \<in> set (dt_files d)"
  shows "\<exists>pos page. (pos, dp_detail page) \<in> set (select_members (ev_indexes env) (policy_fallback_mode (ix_policy ix)) (mo_details (gather_outcomes outs)))
    \<and> (pos, Inr (Some page)) \<in> set outs \<and> (\<exists>g \<in> set (dt_files (dp_detail page)). same_artifact f g)"
proof -
  let ?sel = "select_members (ev_indexes env) (policy_fallback_mode (ix_policy ix)) (mo_details (gather_outcomes outs))"
  have "\<exists>g \<in> set (ms_files (merge_details (map snd ?sel))). same_artifact f g"
    using assms apply_project_status_files apply_overrides_files
    by (fastforce simp: virtual_page_def Let_def same_artifact_def split: if_splits option.splits sum.splits)
  then obtain g pos d' where g: "(pos, d') \<in> set ?sel" "g \<in> set (dt_files d')" "same_artifact f g"
    using merge_details_files by fastforce
  have "set ?sel \<subseteq> set (mo_details (gather_outcomes outs))" by (auto simp: select_members_def Let_def)
  with g gather_outcomes_details [of pos d' outs] show ?thesis by blast
qed

definition hosted_file :: "uploaded codec \<Rightarrow> meta_store \<Rightarrow> 'c index \<Rightarrow> string \<Rightarrow> pypi_file \<Rightarrow> bool" where
  "hosted_file uc s ix project f \<longleftrightarrow> (\<exists>v. ix_kind ix = HostedKind v) \<and>
     (\<exists>us. live_uploads uc (list_upload_entries s (ix_name ix) project) = Some us \<and> (\<exists>u \<in> set us. same_artifact f (up_file u)))"

lemma hosted_resolve_files:
  fixes env :: "('c, 'u, 'v) page_env"
  assumes "resolve_detail_page_with fuel env uc pc ix project route deny = Some (pc', Inr (Some page))"
    and "ix_kind ix = HostedKind v" "f \<in> set (dt_files (dp_detail page))"
  shows "hosted_file uc (pc_store pc) ix project f"
proof -
  obtain n where n: "fuel = Suc n" using assms(1) by (cases fuel) auto
  have "finish_page env ix project (rbind (local_detail uc (pc_store pc) (ix_name ix) project) (\<lambda>found.
      Inr (map_option (\<lambda>d. \<lparr>dp_detail = rewrite_urls d route, dp_last_serial = Some (current_serial (pc_store pc))\<rparr>) found))) = Inr (Some page)"
    using assms(1,2) by (auto simp: n split: sum.splits)
  then obtain d where d: "local_detail uc (pc_store pc) (ix_name ix) project = (Inr (Some d) :: 'u cache_error + _)"
    "set (dt_files (dp_detail page)) \<subseteq> set (dt_files (rewrite_urls d route))"
    by (elim finish_page_files) (auto simp: rbind_eq_Inr)
  then obtain g where g: "g \<in> set (dt_files d)" "same_artifact f g" using rewrite_urls_files assms(3) by blast
  from d(1) obtain us where us: "live_uploads uc (list_upload_entries (pc_store pc) (ix_name ix) project) = Some us"
    "set (dt_files d) \<subseteq> up_file ` set us"
    by (auto simp: local_detail_def Let_def apply_project_status_def split: if_splits option.splits)
  with g assms(2) show ?thesis by (fastforce simp: hosted_file_def)
qed

lemma hosted_resolve_stable:
  fixes env :: "('c, 'u, 'v) page_env"
  assumes "resolve_detail_page_with n env uc pc ix project route deny = Some (pc1, Inr (Some page))"
    and "ix_kind ix = HostedKind v" "uploads_same project (pc_store pc) (pc_store pc')" "0 < m"
  shows "\<exists>page'. resolve_detail_page_with m env uc pc' ix project route deny = Some (pc', Inr (Some page')) \<and> dp_detail page' = dp_detail page"
proof -
  obtain n' m' where nm: "n = Suc n'" "m = Suc m'" using assms(1,4) by (cases n; cases m) auto
  obtain d d' where d: "fst (check_project (ix_policy ix) Serve project) = Inr ()"
    "local_detail uc (pc_store pc) (ix_name ix) project = (Inr (Some d) :: 'u cache_error + _)"
    "apply_detail (ev_formats env) (ix_policy ix) Serve project (rewrite_urls d route) (Some (ev_clock env)) = Inr d'" "dp_detail page = d'"
    using assms(1,2) by (auto simp: nm finish_page_def rbind_eq_Inr split: sum.splits option.splits)
  moreover have "local_detail uc (pc_store pc') (ix_name ix) project = (Inr (Some d) :: 'u cache_error + _)"
    using assms(3) d(2) by (simp add: local_detail_def uploads_same_def)
  ultimately show ?thesis using assms(2) by (simp add: nm finish_page_def)
qed

lemma flat_resolve_uploads:
  assumes calm: "uploads_calm env project" and wf: "t_wf (driver_kv (pc_store pc))"
    and flat: "\<And>ls up. ix_kind ix \<noteq> VirtualKind ls up"
    and res: "resolve_detail_page_with n env uc pc ix project route deny = Some (pc', out)"
  shows "uploads_same project (pc_store pc) (pc_store pc')"
proof -
  obtain n' where n: "n = Suc n'" using res by (cases n) auto
  have detail: "uploads_same project (pc_store pc) (pc_store p1)" if "cached_detail env pc (ix_name ix) (ix_route ix) off project = (p1, o1)" for off p1 o1
    using cached_lookup_uploads [OF calm wf] that by (fastforce simp: cached_detail_def split: prod.splits sum.splits option.splits)
  show ?thesis using res flat wf
    by (cases "ix_kind ix") (auto simp: n uploads_same_refl detail split: sum.splits prod.splits)
qed

lemma members_uploads:
  assumes "resolve_members visit ps pc = Some (pc', outs)" "t_wf (driver_kv (pc_store pc))"
    and "\<And>p pc pc1 r. p \<in> set ps \<Longrightarrow> t_wf (driver_kv (pc_store pc)) \<Longrightarrow> visit pc p = Some (pc1, r) \<Longrightarrow> uploads_same project (pc_store pc) (pc_store pc1)"
  shows "map fst outs = ps \<and> (\<forall>(p, r) \<in> set outs. \<exists>pc1 pc2. uploads_same project (pc_store pc) (pc_store pc1) \<and> visit pc1 p = Some (pc2, r))"
  using assms
proof (induction ps arbitrary: pc outs)
  case (Cons p ps)
  obtain pc1 r rs where first: "visit pc p = Some (pc1, r)" and rest: "resolve_members visit ps pc1 = Some (pc', rs)" "outs = (p, r) # rs"
    using Cons.prems(1) by (auto simp: bind_eq_Some_conv)
  have same: "uploads_same project (pc_store pc) (pc_store pc1)" using Cons.prems(3) [OF _ Cons.prems(2) first] by simp
  then have "t_wf (driver_kv (pc_store pc1))" by (simp add: uploads_same_def)
  then have "map fst rs = ps \<and> (\<forall>(p, r) \<in> set rs. \<exists>pc2 pc3. uploads_same project (pc_store pc1) (pc_store pc2) \<and> visit pc2 p = Some (pc3, r))"
    using Cons.prems(3) by (intro Cons.IH [OF rest(1)]) auto
  with rest(2) first same uploads_same_refl [OF Cons.prems(2)] show ?case
    by (fastforce dest: uploads_same_trans [OF same])
qed simp

text \<open>A hosted member that offers files of the project.\<close>

definition offers_files :: "('c, 'u, 'v) page_env \<Rightarrow> uploaded codec \<Rightarrow> page_cache \<Rightarrow> 'c index \<Rightarrow> string \<Rightarrow> string \<Rightarrow> bool \<Rightarrow> bool" where
  "offers_files env uc pc ix project route deny \<longleftrightarrow> (\<exists>v. ix_kind ix = HostedKind v) \<and>
     (\<exists>page. resolve_detail_page_with 1 env uc pc ix project route deny = Some (pc, Inr (Some page)) \<and> dt_files (dp_detail page) \<noteq> [])"

text \<open>Upstream candidates are out of play: the virtual index never falls back, the name is denied to cached members, or hosted
  files come first and a hosted member has some.\<close>

definition closed_to_upstream :: "('c, 'u, 'v) page_env \<Rightarrow> uploaded codec \<Rightarrow> page_cache \<Rightarrow> 'c index \<Rightarrow> nat list \<Rightarrow> string \<Rightarrow> string \<Rightarrow> bool \<Rightarrow> bool" where
  "closed_to_upstream env uc pc ix ls project route deny \<longleftrightarrow>
     policy_fallback_mode (ix_policy ix) = NoFallback \<or> \<not> is_ok (fst (check_project (ix_policy ix) Cached project))
   \<or> policy_fallback_mode (ix_policy ix) = PrivateFirst \<and> (\<exists>h \<in> set ls. offers_files env uc pc (ev_indexes env ! h) project route deny)"

lemma selected_hosted:
  assumes sel: "(pos, d) \<in> set (select_members ixs PrivateFirst details)" and some: "(h, d') \<in> set details" "dt_files d' \<noteq> []"
    "\<not> is_cached (ix_kind (ixs ! h))"
  shows "\<not> is_cached (ix_kind (ixs ! pos))"
proof -
  have "list_ex (\<lambda>(pos, _). \<not> is_cached (ix_kind (ixs ! pos))) (filter (\<lambda>(_, d). dt_files d \<noteq> []) details)"
    using some by (force simp: list_ex_iff)
  with sel show ?thesis by (auto simp: select_members_def Let_def)
qed

text \<open>C5: On a virtual index over hosted and cached members that is closed to upstream for the project, every file of the served page
  is the artifact, by filename and digests, of a live upload on a hosted member: no upstream can add to the page or
  replace one of its files.\<close>

theorem no_dependency_confusion:
  assumes calm: "uploads_calm env project" and wf: "t_wf (driver_kv (pc_store pc))"
    and kind: "ix_kind ix = VirtualKind ls up" and flat: "\<forall>i \<in> set ls. \<forall>l u. ix_kind (ev_indexes env ! i) \<noteq> VirtualKind l u"
    and closed: "closed_to_upstream env uc pc ix ls project route deny"
    and res: "resolve_detail_page_with fuel env uc pc ix project route deny = Some (pc', Inr (Some page))"
    and f: "f \<in> set (dt_files (dp_detail page))"
  shows "\<exists>h \<in> set ls. hosted_file uc (pc_store pc) (ev_indexes env ! h) project f"
proof -
  obtain n where n: "fuel = Suc n" using res by (cases fuel) auto
  let ?visit = "\<lambda>pc pos. resolve_detail_page_with n env uc pc (ev_indexes env ! pos) project route deny"
  obtain ordered outs d where ordered: "consulted_members env ix ls project = Some ordered"
    and outs: "resolve_members ?visit ordered pc = Some (pc', outs)"
    and d: "virtual_page env (pc_store pc') ix ls up project deny outs = Some (Inr (Some d))" "set (dt_files (dp_detail page)) \<subseteq> set (dt_files d)"
    using res kind by (auto simp: n bind_eq_Some_conv rbind_eq_Inr split: sum.splits elim!: finish_page_files)
  have "f \<in> set (dt_files d)" using d(2) f by blast
  have members: "set ordered \<subseteq> set ls" using consulted_set(1) [OF ordered] by auto
  have "map fst outs = ordered \<and> (\<forall>(p, r) \<in> set outs. \<exists>pc1 pc2. uploads_same project (pc_store pc) (pc_store pc1) \<and> ?visit pc1 p = Some (pc2, r))"
    using flat members by (intro members_uploads [OF outs wf] flat_resolve_uploads [OF calm]) auto
  then have fst_outs: "fst ` set outs = set ordered" and
    at: "\<And>p r. (p, r) \<in> set outs \<Longrightarrow> \<exists>pc1 pc2. uploads_same project (pc_store pc) (pc_store pc1) \<and> ?visit pc1 p = Some (pc2, r)"
    by (auto simp flip: set_map)
  obtain pos page' g where sel: "(pos, dp_detail page') \<in> set (select_members (ev_indexes env) (policy_fallback_mode (ix_policy ix)) (mo_details (gather_outcomes outs)))"
    and out: "(pos, Inr (Some page')) \<in> set outs" and g: "g \<in> set (dt_files (dp_detail page'))" "same_artifact f g"
    using virtual_page_files [OF d(1) \<open>f \<in> set (dt_files d)\<close>] by blast
  have pos: "pos \<in> set ordered" "pos \<in> set ls" using out fst_outs members by force+
  have "\<not> is_cached (ix_kind (ev_indexes env ! pos))"
  proof (cases "policy_fallback_mode (ix_policy ix) = NoFallback \<or> \<not> is_ok (fst (check_project (ix_policy ix) Cached project))")
    case True
    then show ?thesis using pos(1) consulted_set(1) [OF ordered] by auto
  next
    case False
    with closed obtain h v hp where mode: "policy_fallback_mode (ix_policy ix) = PrivateFirst" and h: "h \<in> set ls" "ix_kind (ev_indexes env ! h) = HostedKind v"
      "resolve_detail_page_with 1 env uc pc (ev_indexes env ! h) project route deny = Some (pc, Inr (Some hp))" "dt_files (dp_detail hp) \<noteq> []"
      by (auto simp: closed_to_upstream_def offers_files_def)
    then have "h \<in> fst ` set outs" using consulted_set(1) [OF ordered] fst_outs by auto
    then obtain r where r: "(h, r) \<in> set outs" by auto
    then obtain p1 p2 where p1: "uploads_same project (pc_store pc) (pc_store p1)" "?visit p1 h = Some (p2, r)" using at by blast
    then have "0 < n" by (cases n) auto
    from hosted_resolve_stable [OF h(3,2) p1(1) this] p1(2) obtain hp' where "r = Inr (Some hp')" "dp_detail hp' = dp_detail hp" by auto
    with r have "(h, dp_detail hp) \<in> set (mo_details (gather_outcomes outs))" using gather_outcomes_details by force
    with selected_hosted [OF sel [unfolded mode]] h show ?thesis by auto
  qed
  with flat pos(2) obtain v where v: "ix_kind (ev_indexes env ! pos) = HostedKind v" by (cases "ix_kind (ev_indexes env ! pos)") auto
  obtain p1 p2 where "uploads_same project (pc_store pc) (pc_store p1)" "?visit p1 pos = Some (p2, Inr (Some page'))" using at [OF out] by blast
  with hosted_resolve_files [OF _ v g(1)] have "hosted_file uc (pc_store pc) (ev_indexes env ! pos) project g"
    by (fastforce simp: hosted_file_def uploads_same_def)
  with g(2) pos(2) show ?thesis by (fastforce simp: hosted_file_def same_artifact_def)
qed

text \<open>A virtual index over a hosted index with one file and a cached index whose page offers a newer one.\<close>

definition constant_pages :: page_codec where
  "constant_pages = \<lparr>header = \<lparr>enc = (\<lambda>_. []), dec = (\<lambda>_. Some \<lparr>rh_etag = None, rh_last_serial = None, rh_fetched_at_unix = 95, rh_content_type = None,
       rh_fresh_secs = None\<rparr>)\<rparr>, plain = (\<lambda>_. None), overlay = \<lparr>enc = (\<lambda>_. []), dec = (\<lambda>_. None)\<rparr>, status = \<lparr>enc = (\<lambda>_. []), dec = (\<lambda>_. None)\<rparr>\<rparr>"

definition layered_env :: "(unit, unit, string) page_env" where
  "layered_env = sample_page_env\<lparr>ev_indexes :=
       [\<lparr>ix_name = ''h'', ix_route = ''h'', ix_ecosystem = Pypi, ix_kind = HostedKind True, ix_policy = sample_policy, ix_acl = index_acl_default\<rparr>,
        \<lparr>ix_name = ''pypi'', ix_route = ''pypi'', ix_ecosystem = Pypi, ix_kind = CachedKind () False, ix_policy = sample_policy, ix_acl = index_acl_default\<rparr>,
        \<lparr>ix_name = ''v'', ix_route = ''v'', ix_ecosystem = Pypi, ix_kind = VirtualKind [0, 1] None, ix_policy = sample_policy, ix_acl = index_acl_default\<rparr>],
     ev_codec := constant_pages,
     ev_json := (\<lambda>_. Some (JObject [(''name'', JString ''a''), (''files'', JArray [json_of_file (sample_file\<lparr>fl_filename := ''a-9.0-py3-none-any.whl'', fl_size := None\<rparr>)])]))\<rparr>"

definition layered_uploads :: "uploaded codec" where
  "layered_uploads = \<lparr>enc = (\<lambda>_. []),
     dec = (\<lambda>_. Some \<lparr>up_version = ''2.0'', up_file = sample_file\<lparr>fl_filename := ''a-2.0-py3-none-any.whl''\<rparr>, up_trashed = None\<rparr>)\<rparr>"

definition layered_cache :: page_cache where
  "layered_cache = \<lparr>pc_store = open_new\<lparr>driver_kv := t_insert (t_insert [] (upload_key ''h'' ''a'' ''a-2.0-py3-none-any.whl'') ''x'')
       (index_key ''pypi/a'') (cached_encode constant_pages sample_page)\<rparr>, pc_negative = (\<lambda>_. None), pc_epochs = (\<lambda>_. 0)\<rparr>"

definition layered_hosted :: detail_page where
  "layered_hosted = \<lparr>dp_detail = rewrite_urls \<lparr>dt_meta = meta_default, dt_name = ''a'', dt_versions = [''2.0''],
     dt_files = [sample_file\<lparr>fl_filename := ''a-2.0-py3-none-any.whl''\<rparr>]\<rparr> ''v'', dp_last_serial = Some 0\<rparr>"

definition layered_cached :: detail_page where
  "layered_cached = (case raw_to_detail layered_env (pc_store layered_cache) ''pypi'' (sample_page\<lparr>ci_fetched_at_unix := 95, ci_fresh_secs := None\<rparr>) of
      Inr d \<Rightarrow> (case finish_page layered_env (ev_indexes layered_env ! 1) ''a'' (Inr (Some \<lparr>dp_detail = rewrite_urls d ''v'', dp_last_serial = None\<rparr>)) of
         Inr (Some page) \<Rightarrow> page | _ \<Rightarrow> layered_hosted)
    | _ \<Rightarrow> layered_hosted)"

lemma layered_hosted_resolve:
  "resolve_detail_page_with (Suc n) layered_env layered_uploads layered_cache (ev_indexes layered_env ! 0) ''a'' ''v'' True
     = Some (layered_cache, Inr (Some layered_hosted))"
proof -
  have wf: "t_wf (driver_kv (pc_store layered_cache))" by (simp add: layered_cache_def del: t_insert.simps)
  have "driver_prefix_keys (pc_store layered_cache) (uploads_prefix ''h'' ''a'') = [upload_key ''h'' ''a'' ''a-2.0-py3-none-any.whl'']"
    unfolding driver_prefix_keys_def driver_prefix_keys_limited_def prefix_scan_eq [OF wf]
    by (simp add: layered_cache_def upload_key_def uploads_prefix_def index_key_def UPLOAD_PREFIX_def INDEX_PREFIX_def pypi_prefix_def starts_with_def u64_max_def)
  moreover have "strip_prefix (uploads_prefix ''h'' ''a'') (upload_key ''h'' ''a'' ''a-2.0-py3-none-any.whl'') = Some ''a-2.0-py3-none-any.whl''"
    "get_driver_value (pc_store layered_cache) (upload_key ''h'' ''a'' ''a-2.0-py3-none-any.whl'') = Some ''x''" by code_simp+
  ultimately have "list_upload_entries (pc_store layered_cache) ''h'' ''a'' = [(''a-2.0-py3-none-any.whl'', ''x'')]"
    by (simp add: list_upload_entries_def List.map_filter_def)
  then have "local_detail layered_uploads (pc_store layered_cache) ''h'' ''a'' = (Inr (Some \<lparr>dt_meta = meta_default, dt_name = ''a'', dt_versions = [''2.0''],
     dt_files = [sample_file\<lparr>fl_filename := ''a-2.0-py3-none-any.whl''\<rparr>]\<rparr>) :: unit cache_error + _)"
    by (simp add: local_detail_def layered_uploads_def apply_project_status_def meta_default_def meta_status_def offers_downloads_def)
  moreover have "fst (check_project (ix_policy (ev_indexes layered_env ! 0)) Serve ''a'') = Inr ()" by code_simp
  moreover have "finish_page layered_env (ev_indexes layered_env ! 0) ''a'' (Inr (Some layered_hosted)) = Inr (Some layered_hosted)" by code_simp
  moreover have "ix_kind (ev_indexes layered_env ! 0) = HostedKind True" "ix_name (ev_indexes layered_env ! 0) = ''h''" "current_serial (pc_store layered_cache) = 0"
    by code_simp+
  ultimately show ?thesis by (simp add: layered_hosted_def)
qed

lemma layered_cached_resolve:
  "resolve_detail_page_with (Suc n) layered_env layered_uploads layered_cache (ev_indexes layered_env ! 1) ''a'' ''v'' True
     = Some (layered_cache, Inr (Some layered_cached))"
proof -
  let ?r = "sample_page\<lparr>ci_fetched_at_unix := 95, ci_fresh_secs := None\<rparr>"
  have "fresh_cached layered_env (pc_store layered_cache) ''pypi/a'' = Inr (Some ?r)" by code_simp
  then have look: "cached_lookup layered_env layered_cache ''pypi'' False ''a'' = (layered_cache, Inr (Some ?r))"
    by (simp add: cached_lookup_def cached_peek_def)
  have ok: "case raw_to_detail layered_env (pc_store layered_cache) ''pypi'' ?r of
      Inr d \<Rightarrow> (case finish_page layered_env (ev_indexes layered_env ! 1) ''a'' (Inr (Some \<lparr>dp_detail = rewrite_urls d ''v'', dp_last_serial = None\<rparr>)) of
         Inr (Some page) \<Rightarrow> True | _ \<Rightarrow> False)
    | _ \<Rightarrow> False" by code_simp
  have "fst (check_project (ix_policy (ev_indexes layered_env ! 1)) Serve ''a'') = Inr ()" "ix_kind (ev_indexes layered_env ! 1) = CachedKind () False"
    "ix_name (ev_indexes layered_env ! 1) = ''pypi''" "ix_route (ev_indexes layered_env ! 1) = ''pypi''" "ci_last_serial ?r = None"
    by code_simp+
  with look ok show ?thesis by (auto simp: cached_detail_def layered_cached_def split: sum.splits option.splits)
qed

lemma answered:
  "(case v of Some (Inr (Some d)) \<Rightarrow> P d | _ \<Rightarrow> False) \<Longrightarrow> \<exists>d. v = Some (Inr (Some d)) \<and> P d"
  "(case w of Inr (Some d) \<Rightarrow> Q d | _ \<Rightarrow> False) \<Longrightarrow> \<exists>d. w = Inr (Some d) \<and> Q d"
  by (auto split: option.splits sum.splits)

lemma layered_virtual_page:
  "consulted_members layered_env (ev_indexes layered_env ! 2) [0, 1] ''a'' = Some [0, 1]"
  "case virtual_page layered_env (pc_store layered_cache) (ev_indexes layered_env ! 2) [0, 1] None ''a'' True
       [(0, Inr (Some layered_hosted)), (1, Inr (Some layered_cached))] of
     Some (Inr (Some d)) \<Rightarrow> (case finish_page layered_env (ev_indexes layered_env ! 2) ''a'' (Inr (Some \<lparr>dp_detail = d, dp_last_serial = None\<rparr>)) of
        Inr (Some page) \<Rightarrow> map fl_filename (dt_files (dp_detail page)) = [''a-2.0-py3-none-any.whl''] | _ \<Rightarrow> False) | _ \<Rightarrow> False"
  by code_simp+

lemma layered_virtual_resolve:
  "\<exists>page. resolve_detail_page_with 2 layered_env layered_uploads layered_cache (ev_indexes layered_env ! 2) ''a'' ''v'' True
     = Some (layered_cache, Inr (Some page)) \<and> map fl_filename (dt_files (dp_detail page)) = [''a-2.0-py3-none-any.whl'']"
proof -
  have "fst (check_project (ix_policy (ev_indexes layered_env ! 2)) Serve ''a'') = Inr ()" "ix_kind (ev_indexes layered_env ! 2) = VirtualKind [0, 1] None"
    by code_simp+
  moreover have "resolve_members (\<lambda>pc pos. resolve_detail_page_with (Suc 0) layered_env layered_uploads pc (ev_indexes layered_env ! pos) ''a'' ''v'' True)
      [0, 1] layered_cache = Some (layered_cache, [(0, Inr (Some layered_hosted)), (1, Inr (Some layered_cached))])"
    using layered_hosted_resolve [of 0] layered_cached_resolve [of 0] by (simp del: resolve_detail_page_with.simps(2))
  moreover obtain d where d: "virtual_page layered_env (pc_store layered_cache) (ev_indexes layered_env ! 2) [0, 1] None ''a'' True
      [(0, Inr (Some layered_hosted)), (1, Inr (Some layered_cached))] = Some (Inr (Some d))"
    and served: "case finish_page layered_env (ev_indexes layered_env ! 2) ''a'' (Inr (Some \<lparr>dp_detail = d, dp_last_serial = None\<rparr>)) of
        Inr (Some page) \<Rightarrow> map fl_filename (dt_files (dp_detail page)) = [''a-2.0-py3-none-any.whl''] | _ \<Rightarrow> False"
    by (rule exE [OF answered(1) [OF layered_virtual_page(2)]]) (erule conjE, rule that)
  moreover obtain page where "finish_page layered_env (ev_indexes layered_env ! 2) ''a'' (Inr (Some \<lparr>dp_detail = d, dp_last_serial = None\<rparr>)) = Inr (Some page)"
    "map fl_filename (dt_files (dp_detail page)) = [''a-2.0-py3-none-any.whl'']"
    by (rule exE [OF answered(2) [OF served]]) (erule conjE, rule that)
  ultimately show ?thesis
    using layered_virtual_page(1) unfolding numeral_2_eq_2 resolve_detail_page_with.simps(2) [of "Suc 0"]
    by (simp del: resolve_detail_page_with.simps(2) resolve_members.simps)
qed

theorem no_dependency_confusion_witness:
  "map fl_filename (dt_files (dp_detail layered_cached)) = [''a-9.0-py3-none-any.whl'']
   \<and> (\<exists>page. resolve_detail_page_with 2 layered_env layered_uploads layered_cache (ev_indexes layered_env ! 2) ''a'' ''v'' True
       = Some (layered_cache, Inr (Some page)) \<and> map fl_filename (dt_files (dp_detail page)) = [''a-2.0-py3-none-any.whl'']
     \<and> (\<forall>f \<in> set (dt_files (dp_detail page)). \<exists>h \<in> {0, 1}. hosted_file layered_uploads (pc_store layered_cache) (ev_indexes layered_env ! h) ''a'' f))"
proof -
  let ?ix = "ev_indexes layered_env ! 2"
  have newer: "map fl_filename (dt_files (dp_detail layered_cached)) = [''a-9.0-py3-none-any.whl'']" by code_simp
  have kind: "ix_kind ?ix = VirtualKind [0, 1] None" by code_simp
  have flat: "\<forall>i \<in> set [0, 1]. \<forall>l u. ix_kind (ev_indexes layered_env ! i) \<noteq> VirtualKind l u" by (simp add: layered_env_def)
  have calm: "uploads_calm layered_env ''a''"
    by (simp add: uploads_calm_def layered_env_def sample_page_env_def uploads_same_refl)
  have wf: "t_wf (driver_kv (pc_store layered_cache))" by (simp add: layered_cache_def del: t_insert.simps)
  have "policy_fallback_mode (ix_policy ?ix) = PrivateFirst" by code_simp
  moreover have "offers_files layered_env layered_uploads layered_cache (ev_indexes layered_env ! 0) ''a'' ''v'' True"
  proof -
    have "ix_kind (ev_indexes layered_env ! 0) = HostedKind True" "dt_files (dp_detail layered_hosted) \<noteq> []" by code_simp+
    then show ?thesis using layered_hosted_resolve [of 0] unfolding offers_files_def One_nat_def by blast
  qed
  ultimately have closed: "closed_to_upstream layered_env layered_uploads layered_cache ?ix [0, 1] ''a'' ''v'' True"
    by (simp add: closed_to_upstream_def)
  obtain page where page: "resolve_detail_page_with 2 layered_env layered_uploads layered_cache ?ix ''a'' ''v'' True = Some (layered_cache, Inr (Some page))"
    "map fl_filename (dt_files (dp_detail page)) = [''a-2.0-py3-none-any.whl'']"
    using layered_virtual_resolve by meson
  have "\<exists>h \<in> {0, 1}. hosted_file layered_uploads (pc_store layered_cache) (ev_indexes layered_env ! h) ''a'' f" if "f \<in> set (dt_files (dp_detail page))" for f
    using no_dependency_confusion [OF calm wf kind flat closed page(1) that] unfolding list.set .
  with page newer show ?thesis by meson
qed

theorem resolve_answers_witness:
  "\<exists>r. \<forall>fuel > 1. resolve_detail_page_with fuel layered_env layered_uploads layered_cache (ev_indexes layered_env ! 2) ''a'' ''v'' True = Some r"
proof -
  have "layers_ranked (ev_indexes layered_env) (\<lambda>p. if p = 2 then 1 else 0)" "2 < length (ev_indexes layered_env)"
    by (auto simp: layers_ranked_def layered_env_def less_Suc_eq is_none_or_def numeral_3_eq_3 numeral_2_eq_2)
  from resolve_answers [OF this] show ?thesis by simp
qed

end
