(* ===== verification/PypiMutate.thy ===== *)
theory PypiMutate
  imports PypiResolve
begin

text \<open>
  Mutations of hosted files and overrides, \<open>cache/mutate.rs\<close> of \<open>crates/peryx-ecosystem-pypi/src\<close>: soft deletion and restore,
  yanking, promotion, and the project status that guards uploads and downloads.  Operations made of several transactions
  return the page cache as far as they got; \<open>None\<close> is a resolution that does not answer.
\<close>

record trash_context =
  tc_deleted_at_unix :: int
  tc_actor :: "string option"
  tc_reason :: "string option"

section \<open>Hosted files\<close>

definition version_applies :: "'v formats \<Rightarrow> string option \<Rightarrow> uploaded \<Rightarrow> bool" where
  "version_applies fm version u = is_none_or version (\<lambda>v. versions_match (fm_version fm) (up_version u) v)"

definition trash_one ::
    "'v formats \<Rightarrow> uploaded codec \<Rightarrow> bool \<Rightarrow> string option \<Rightarrow> trash_context \<Rightarrow> string \<Rightarrow> bytes \<Rightarrow> 'u cache_error + upload_mutation" where
  "trash_one fm uc is_volatile version trash filename raw = rbind (ok_or CacheParse (dec uc raw)) (\<lambda>u.
     if \<not> version_applies fm version u \<or> up_trashed u \<noteq> None then Inr KeepRecord
     else if \<not> is_volatile then Inl NotVolatile
     else Inr (ReplaceRecord (enc uc (u\<lparr>up_trashed := Some \<lparr>ti_deleted_at_unix = tc_deleted_at_unix trash, ti_actor = tc_actor trash,
       ti_reason = tc_reason trash\<rparr>\<rparr>))))"

definition untrash_one :: "'v formats \<Rightarrow> uploaded codec \<Rightarrow> string option \<Rightarrow> string \<Rightarrow> bytes \<Rightarrow> 'u cache_error + upload_mutation" where
  "untrash_one fm uc version filename raw = rbind (ok_or CacheParse (dec uc raw)) (\<lambda>u.
     if up_trashed u = None \<or> \<not> version_applies fm version u then Inr KeepRecord
     else Inr (ReplaceRecord (enc uc (u\<lparr>up_trashed := None\<rparr>))))"

definition yank_one :: "'v formats \<Rightarrow> uploaded codec \<Rightarrow> string option \<Rightarrow> yanked \<Rightarrow> string \<Rightarrow> bytes \<Rightarrow> 'u cache_error + upload_mutation" where
  "yank_one fm uc version y filename raw = rbind (ok_or CacheParse (dec uc raw)) (\<lambda>u.
     if \<not> version_applies fm version u \<or> fl_yanked (up_file u) = y then Inr KeepRecord
     else Inr (ReplaceRecord (enc uc (u\<lparr>up_file := (up_file u)\<lparr>fl_yanked := y\<rparr>\<rparr>))))"

definition trash_uploads ::
    "('c, 'u, 'v) page_env \<Rightarrow> uploaded codec \<Rightarrow> journal_entry codec \<Rightarrow> meta_store \<Rightarrow> string \<Rightarrow> bool \<Rightarrow> string \<Rightarrow> string option \<Rightarrow> trash_context
      \<Rightarrow> 'u cache_error + (nat \<times> meta_store)" where
  "trash_uploads env uc jc s name is_volatile normalized version trash =
     mutate_uploads CacheMeta jc (ev_json env) s name normalized ''delete-file'' (tc_deleted_at_unix trash)
       (trash_one (ev_formats env) uc is_volatile version trash)"

definition untrash_uploads ::
    "('c, 'u, 'v) page_env \<Rightarrow> uploaded codec \<Rightarrow> journal_entry codec \<Rightarrow> meta_store \<Rightarrow> string \<Rightarrow> string \<Rightarrow> string option \<Rightarrow> int
      \<Rightarrow> 'u cache_error + (nat \<times> meta_store)" where
  "untrash_uploads env uc jc s name normalized version at =
     mutate_uploads CacheMeta jc (ev_json env) s name normalized ''restore'' at (untrash_one (ev_formats env) uc version)"

definition yank_uploads ::
    "('c, 'u, 'v) page_env \<Rightarrow> uploaded codec \<Rightarrow> journal_entry codec \<Rightarrow> meta_store \<Rightarrow> string \<Rightarrow> string \<Rightarrow> string option \<Rightarrow> yanked \<Rightarrow> int
      \<Rightarrow> 'u cache_error + (nat \<times> meta_store)" where
  "yank_uploads env uc jc s name normalized version y at =
     mutate_uploads CacheMeta jc (ev_json env) s name normalized (if y = NotYanked then ''unyank'' else ''yank'') at
       (yank_one (ev_formats env) uc version y)"

fun upload_bytes :: "uploaded codec \<Rightarrow> string \<Rightarrow> (string \<times> bytes) list \<Rightarrow> nat \<Rightarrow> 'u cache_error + nat" where
  "upload_bytes uc filename [] n = Inr n"
| "upload_bytes uc filename ((name, raw) # entries) n =
     (if name = filename then upload_bytes uc filename entries n
      else rbind (ok_or CacheParse (dec uc raw)) (\<lambda>u.
        upload_bytes uc filename entries (saturating_add_u64 n (unwrap_or 0 (fl_size (up_file u))))))"

definition project_upload_bytes :: "uploaded codec \<Rightarrow> meta_store \<Rightarrow> string \<Rightarrow> string \<Rightarrow> string \<Rightarrow> 'u cache_error + nat" where
  "project_upload_bytes uc s hosted normalized filename = upload_bytes uc filename (list_upload_entries s hosted normalized) 0"

section \<open>Promotion\<close>

record promotion_scan =
  psc_matched :: bool
  psc_records :: "(string \<times> string \<times> bytes) list"
  psc_blob_sizes :: "(string, nat) tbl"

fun scan_promotable ::
    "'v formats \<Rightarrow> uploaded codec \<Rightarrow> string \<Rightarrow> string \<Rightarrow> (string \<times> bytes) list \<Rightarrow> promotion_scan \<Rightarrow> 'u cache_error + promotion_scan" where
  "scan_promotable fm uc target_route version [] sc = Inr sc"
| "scan_promotable fm uc target_route version ((filename, raw) # entries) sc = rbind (ok_or CacheParse (dec uc raw)) (\<lambda>u.
     if \<not> versions_match (fm_version fm) (up_version u) version then scan_promotable fm uc target_route version entries sc
     else rbind (ok_or (MissingSha256 filename) (file_sha256 (up_file u))) (\<lambda>digest.
       let sizes = (case fl_size (up_file u) of None \<Rightarrow> psc_blob_sizes sc | Some n \<Rightarrow> t_insert (psc_blob_sizes sc) digest n);
           moved = u\<lparr>up_file := (up_file u)\<lparr>fl_url := local_file_url target_route digest filename\<rparr>\<rparr>
       in scan_promotable fm uc target_route version entries
            \<lparr>psc_matched = True, psc_records = psc_records sc @ [(filename, digest, enc uc moved)], psc_blob_sizes = sizes\<rparr>))"

definition promote_conflict :: "uploaded codec \<Rightarrow> string \<Rightarrow> string \<Rightarrow> bytes option \<Rightarrow> 'u cache_error + guard" where
  "promote_conflict uc filename digest existing = (case existing of
      None \<Rightarrow> Inr GuardCommit
    | Some raw \<Rightarrow> rbind (ok_or CacheParse (dec uc raw)) (\<lambda>u.
        if is_some_and (file_sha256 (up_file u)) (\<lambda>hash. hash = digest) then Inr GuardSkip else Inl (FileExists filename)))"

definition promote_release ::
    "('c, 'u, 'v) page_env \<Rightarrow> uploaded codec \<Rightarrow> journal_entry codec \<Rightarrow> page_cache \<Rightarrow> string \<Rightarrow> string \<Rightarrow> string \<Rightarrow> string \<Rightarrow> string
      \<Rightarrow> page_cache \<times> ('u cache_error + nat)" where
  "promote_release env uc jc pc source target target_route normalized version =
     (let s = pc_store pc in
      case scan_promotable (ev_formats env) uc target_route version (list_upload_entries s source normalized)
          \<lparr>psc_matched = False, psc_records = [], psc_blob_sizes = []\<rparr> of
        Inl e \<Rightarrow> (pc, Inl e)
      | Inr sc \<Rightarrow>
          if \<not> psc_matched sc then (pc, Inl (NoPromotableFiles source normalized version))
          else (case promote_files_checked CacheMeta jc (ev_json env) s
                  \<lparr>pr_index = target, pr_normalized = normalized, pr_display = unwrap_or normalized (get_project s source normalized),
                   pr_records = psc_records sc, pr_blob_sizes = psc_blob_sizes sc, pr_submitted_at_unix = ev_clock env\<rparr> (promote_conflict uc) of
                  Inl e \<Rightarrow> (pc, Inl e)
                | Inr (promoted, s) \<Rightarrow>
                    let pc = pc\<lparr>pc_store := s\<rparr>
                    in (if 0 < promoted then invalidate_project pc normalized else pc, Inr promoted)))"

section \<open>Yank, remove and restore\<close>

definition served_filenames ::
    "nat \<Rightarrow> ('c, 'u, 'v) page_env \<Rightarrow> uploaded codec \<Rightarrow> page_cache \<Rightarrow> 'c index \<Rightarrow> string \<Rightarrow> string option
      \<Rightarrow> (page_cache \<times> ('u cache_error + string list)) option" where
  "served_filenames fuel env uc pc ix normalized version =
     map_option (\<lambda>(pc, outcome). (pc, rbind outcome (\<lambda>found. Inr (case found of None \<Rightarrow> []
       | Some d \<Rightarrow> filter (\<lambda>filename. is_none_or version (file_matches_version (fm_version (ev_formats env)) filename))
           (map fl_filename (dt_files d))))))
     (resolve_detail_optional fuel env uc pc ix normalized (ix_route ix))"

definition upload_filenames :: "meta_store \<Rightarrow> string \<Rightarrow> string \<Rightarrow> string set" where
  "upload_filenames s hosted normalized = set (map fst (list_upload_entries s hosted normalized))"

definition yank_override_value :: "(json_doc \<Rightarrow> string) \<Rightarrow> yanked \<Rightarrow> string option" where
  "yank_override_value show_json y = (case y of
      NotYanked \<Rightarrow> None
    | YankedPlain \<Rightarrow> Some YANKED
    | YankedReason reason \<Rightarrow> Some (show_json (JObject [(''kind'', JString YANKED), (''reason'', JString reason)])))"

fun override_files ::
    "(meta_store \<Rightarrow> string \<Rightarrow> meta_error + (bool \<times> meta_store)) \<Rightarrow> string list \<Rightarrow> nat \<Rightarrow> page_cache \<Rightarrow> page_cache \<times> ('u cache_error + nat)" where
  "override_files op [] n pc = (pc, Inr n)"
| "override_files op (filename # rest) n pc = (case op (pc_store pc) filename of
      Inl e \<Rightarrow> (pc, Inl (CacheMeta e))
    | Inr (changed, s) \<Rightarrow> override_files op rest (if changed then n + 1 else n) (pc\<lparr>pc_store := s\<rparr>))"

definition settle_project :: "string \<Rightarrow> page_cache \<times> ('u cache_error + nat) \<Rightarrow> page_cache \<times> ('u cache_error + nat)" where
  "settle_project normalized answer = (case answer of
      (pc, Inr n) \<Rightarrow> (if 0 < n then invalidate_project pc normalized else pc, Inr n) | (pc, Inl e) \<Rightarrow> (pc, Inl e))"

definition put_counted :: "journal_entry codec \<Rightarrow> string \<Rightarrow> string \<Rightarrow> string \<Rightarrow> int \<Rightarrow> meta_store \<Rightarrow> string \<Rightarrow> meta_error + (bool \<times> meta_store)" where
  "put_counted jc hosted normalized kind at s filename = rbind (put_override jc s hosted normalized filename kind at) (\<lambda>(_, s). Inr (True, s))"

definition set_yanked ::
    "nat \<Rightarrow> ('c, 'u, 'v) page_env \<Rightarrow> uploaded codec \<Rightarrow> journal_entry codec \<Rightarrow> (json_doc \<Rightarrow> string) \<Rightarrow> page_cache \<Rightarrow> 'c index \<Rightarrow> string \<Rightarrow> string
      \<Rightarrow> string option \<Rightarrow> yanked \<Rightarrow> (page_cache \<times> ('u cache_error + nat)) option" where
  "set_yanked fuel env uc jc show_json pc ix hosted normalized version y =
     (let uploads = upload_filenames (pc_store pc) hosted normalized; at = ev_clock env in
      case yank_uploads env uc jc (pc_store pc) hosted normalized version y at of
        Inl e \<Rightarrow> Some (pc, Inl e)
      | Inr (changed, s) \<Rightarrow> map_option (\<lambda>(pc, served). case served of
            Inl e \<Rightarrow> (pc, Inl e)
          | Inr names \<Rightarrow> settle_project normalized (override_files (\<lambda>s filename. case yank_override_value show_json y of
                Some v \<Rightarrow> put_counted jc hosted normalized v at s filename
              | None \<Rightarrow> delete_override jc s hosted normalized filename at) (filter (\<lambda>f. f \<notin> uploads) names) changed pc))
          (served_filenames fuel env uc (pc\<lparr>pc_store := s\<rparr>) ix normalized version))"

definition remove_files ::
    "nat \<Rightarrow> ('c, 'u, 'v) page_env \<Rightarrow> uploaded codec \<Rightarrow> journal_entry codec \<Rightarrow> page_cache \<Rightarrow> 'c index \<Rightarrow> string \<Rightarrow> bool \<Rightarrow> string
      \<Rightarrow> string option \<Rightarrow> trash_context \<Rightarrow> (page_cache \<times> ('u cache_error + nat)) option" where
  "remove_files fuel env uc jc pc ix hosted is_volatile normalized version trash =
     map_option (\<lambda>(pc, served). case served of
         Inl e \<Rightarrow> (pc, Inl e)
       | Inr names \<Rightarrow>
           let uploads = upload_filenames (pc_store pc) hosted normalized in
           (case trash_uploads env uc jc (pc_store pc) hosted is_volatile normalized version trash of
              Inl e \<Rightarrow> (pc, Inl e)
            | Inr (affected, s) \<Rightarrow> settle_project normalized (override_files
                (put_counted jc hosted normalized HIDDEN (tc_deleted_at_unix trash)) (filter (\<lambda>f. f \<notin> uploads) names) affected (pc\<lparr>pc_store := s\<rparr>))))
       (served_filenames fuel env uc pc ix normalized version)"

definition restore_files ::
    "('c, 'u, 'v) page_env \<Rightarrow> uploaded codec \<Rightarrow> journal_entry codec \<Rightarrow> page_cache \<Rightarrow> string \<Rightarrow> string \<Rightarrow> string option
      \<Rightarrow> page_cache \<times> ('u cache_error + nat)" where
  "restore_files env uc jc pc hosted normalized version =
     (let at = ev_clock env in
      case untrash_uploads env uc jc (pc_store pc) hosted normalized version at of
        Inl e \<Rightarrow> (pc, Inl e)
      | Inr (restored, s) \<Rightarrow> settle_project normalized (override_files (\<lambda>s filename. delete_override jc s hosted normalized filename at)
          (map fst (filter (\<lambda>(filename, kind). kind = HIDDEN
             \<and> is_none_or version (file_matches_version (fm_version (ev_formats env)) filename)) (list_overrides s hosted normalized)))
          restored (pc\<lparr>pc_store := s\<rparr>)))"

section \<open>Project status\<close>

definition project_status_of ::
    "nat \<Rightarrow> ('c, 'u, 'v) page_env \<Rightarrow> uploaded codec \<Rightarrow> page_cache \<Rightarrow> 'c index \<Rightarrow> string \<Rightarrow> (page_cache \<times> ('u cache_error + project_status)) option" where
  "project_status_of fuel env uc pc ix normalized = (case ix_kind ix of
      HostedKind _ \<Rightarrow> Some (pc, Inr Active)
    | _ \<Rightarrow> map_option (\<lambda>(pc, outcome). (pc, rbind outcome (\<lambda>found. Inr (case found of None \<Rightarrow> Active | Some d \<Rightarrow> meta_status (dt_meta d)))))
        (resolve_detail_optional fuel env uc pc ix normalized (ix_route ix)))"

definition status_for_index :: "page_codec \<Rightarrow> meta_store \<Rightarrow> string \<Rightarrow> string \<Rightarrow> 'u cache_error + project_status" where
  "status_for_index c s index normalized = rbind (map_err CacheMeta (get_project_status c s index normalized)) (\<lambda>found.
     Inr (unwrap_or Active (Option.bind (Option.bind found ps_status) from_marker)))"

fun first_status :: "(nat \<Rightarrow> ('e + project_status) option) \<Rightarrow> nat list \<Rightarrow> ('e + project_status) option" where
  "first_status visit [] = Some (Inr Active)"
| "first_status visit (pos # rest) = Option.bind (visit pos) (\<lambda>r. case r of
      Inl e \<Rightarrow> Some (Inl e) | Inr st \<Rightarrow> if st \<noteq> Active then Some (Inr st) else first_status visit rest)"

fun stored_project_status :: "nat \<Rightarrow> 'c index list \<Rightarrow> page_codec \<Rightarrow> meta_store \<Rightarrow> 'c index \<Rightarrow> string \<Rightarrow> ('u cache_error + project_status) option" where
  "stored_project_status 0 ixs c s ix normalized = None"
| "stored_project_status (Suc fuel) ixs c s ix normalized = (case ix_kind ix of
      CachedKind _ _ \<Rightarrow> Some (status_for_index c s (ix_name ix) normalized)
    | HostedKind _ \<Rightarrow> Some (Inr Active)
    | VirtualKind ls _ \<Rightarrow> first_status (\<lambda>pos. if pos < length ixs then stored_project_status fuel ixs c s (ixs ! pos) normalized else None) ls)"

definition strip_suffix_str :: "string \<Rightarrow> string \<Rightarrow> string option" where
  "strip_suffix_str suffix text = map_option rev (strip_prefix (rev suffix) (rev text))"

definition PROVENANCE_SUFFIX :: string where "PROVENANCE_SUFFIX = ''.provenance''"

definition download_status ::
    "nat \<Rightarrow> ('c, 'u, 'v) page_env \<Rightarrow> meta_store \<Rightarrow> 'c index \<Rightarrow> string \<Rightarrow> ('u cache_error + project_status) option" where
  "download_status fuel env s ix filename =
     (let artifact = (case strip_suffix_str ''.metadata'' filename of Some a \<Rightarrow> a
          | None \<Rightarrow> unwrap_or filename (strip_suffix_str PROVENANCE_SUFFIX filename))
      in case parse_distribution_filename (fm_lower (ev_formats env)) (fm_version (ev_formats env)) artifact of
           Inl _ \<Rightarrow> Some (Inr Active)
         | Inr d \<Rightarrow> stored_project_status fuel (ev_indexes env) (ev_codec env) s ix (df_normalized_name d))"

section \<open>What a mutation of uploads does\<close>

definition mutated :: "bytes \<Rightarrow> upload_mutation \<Rightarrow> bytes option" where
  "mutated raw m = (case m of KeepRecord \<Rightarrow> Some raw | ReplaceRecord new \<Rightarrow> Some new | DeleteRecord \<Rightarrow> None)"

lemma txn_put_table [simp]: "dt_table (txn_put t k v) = t_insert (dt_table t) k v"
  by (simp add: txn_put_def txn_upsert_def)

lemma mutate_each_rows:
  assumes "mutate_each jc pj prefix n action at f rows journal t = Inr (journal', t')" "t_wf (dt_table t)"
    and "distinct (map fst rows)" "\<And>k r. (k, r) \<in> set rows \<Longrightarrow> t_get (dt_table t) k = Some r"
  shows "t_wf (dt_table t') \<and> (\<forall>k r. (k, r) \<in> set rows \<longrightarrow> (\<exists>m. f (drop (length prefix) k) r = Inr m \<and> t_get (dt_table t') k = mutated r m))
    \<and> (\<forall>k. k \<notin> fst ` set rows \<longrightarrow> t_get (dt_table t') k = t_get (dt_table t) k)
    \<and> length journal' = length journal + length (filter (\<lambda>(k, r). f (drop (length prefix) k) r \<noteq> Inr KeepRecord) rows)"
  using assms
proof (induction rows arbitrary: journal t)
  case (Cons row rows)
  obtain k r where row: "row = (k, r)" by fastforce
  obtain m where m: "f (drop (length prefix) k) r = Inr m"
    using Cons.prems(1) by (auto simp: row Let_def rbind_eq_Inr)
  let ?t = "case m of KeepRecord \<Rightarrow> t | ReplaceRecord new \<Rightarrow> txn_put t k new | DeleteRecord \<Rightarrow> snd (txn_remove t k)"
  have wf: "t_wf (dt_table ?t)" and same: "\<And>k'. k' \<noteq> k \<Longrightarrow> t_get (dt_table ?t) k' = t_get (dt_table t) k'"
    and at: "t_get (dt_table ?t) k = mutated r m"
    using Cons.prems(2) Cons.prems(4) [of k r] by (auto simp: row mutated_def txn_remove_table split: upload_mutation.split)
  obtain j where rest: "mutate_each jc pj prefix n action at f rows (journal @ j) ?t = Inr (journal', t')"
    and j: "length j = (if m = KeepRecord then 0 else 1)"
  proof (cases m)
    case KeepRecord
    with Cons.prems(1) m show ?thesis by (intro that [of "[]"]) (auto simp: row Let_def)
  next
    case (ReplaceRecord new)
    with Cons.prems(1) m show ?thesis by (intro that [of "[journal_bytes jc action n (journal_version pj (drop (length prefix) k) r) (Some (drop (length prefix) k)) at]"]) (auto simp: row Let_def)
  next
    case DeleteRecord
    with Cons.prems(1) m show ?thesis by (intro that [of "[journal_bytes jc action n (journal_version pj (drop (length prefix) k) r) (Some (drop (length prefix) k)) at]"]) (auto simp: row Let_def)
  qed
  have k: "k \<notin> fst ` set rows" using Cons.prems(3) by (simp add: row)
  have IH: "t_wf (dt_table t') \<and> (\<forall>k r. (k, r) \<in> set rows \<longrightarrow> (\<exists>m. f (drop (length prefix) k) r = Inr m \<and> t_get (dt_table t') k = mutated r m))
    \<and> (\<forall>k. k \<notin> fst ` set rows \<longrightarrow> t_get (dt_table t') k = t_get (dt_table ?t) k)
    \<and> length journal' = length (journal @ j) + length (filter (\<lambda>(k, r). f (drop (length prefix) k) r \<noteq> Inr KeepRecord) rows)"
  proof (rule Cons.IH [OF rest wf])
    show "distinct (map fst rows)" using Cons.prems(3) by simp
    show "t_get (dt_table ?t) k' = Some r'" if "(k', r') \<in> set rows" for k' r'
      using that k same [of k'] Cons.prems(4) [of k' r'] by (force simp: row)
  qed
  with k same at m j show ?case by (auto simp: row)
qed auto

text \<open>The rows of the database after a committed mutation, and how many were touched.\<close>

lemma mutate_uploads_rows:
  assumes "mutate_uploads conv jc pj s index n action at f = Inr (touched, s')" "t_wf (driver_kv s)"
  shows "t_wf (driver_kv s')"
    and "\<And>k r. get_driver_value s k = Some r \<Longrightarrow> starts_with k (uploads_prefix index n)
      \<Longrightarrow> \<exists>m. f (drop (length (uploads_prefix index n)) k) r = Inr m \<and> get_driver_value s' k = mutated r m"
    and "\<And>k. get_driver_value s k = None \<or> \<not> starts_with k (uploads_prefix index n) \<Longrightarrow> get_driver_value s' k = get_driver_value s k"
    and "touched = length (filter (\<lambda>(k, r). f (drop (length (uploads_prefix index n)) k) r \<noteq> Inr KeepRecord)
      (filter (\<lambda>e. starts_with (fst e) (uploads_prefix index n)) (driver_kv s)))"
proof -
  let ?p = "uploads_prefix index n" and ?rows = "filter (\<lambda>e. starts_with (fst e) (uploads_prefix index n)) (driver_kv s)"
  obtain journal t where each: "mutate_each jc pj ?p n action at f ?rows [] (open_txn s) = Inr (journal, t)" and touched: "touched = length journal"
    and kv: "driver_kv s' = dt_table t"
  proof -
    from assms(1) obtain journal t s1 where "mutate_each jc pj ?p n action at f (txn_prefix (open_txn s) ?p) [] (open_txn s) = Inr (journal, t)"
      "touched = length journal" "write_journal (s\<lparr>driver_kv := dt_table t\<rparr>) journal (if journal = [] then [] else txn_mutations t)
        (if journal = [] then [] else dt_blobs t) = Inr s1" "s' = s1"
      by (auto simp: mutate_uploads_def commit_driver_txn_def commit_driver_txn_at_def mutate_body_def rbind_eq_Inr publish_catalog_def Let_def)
    moreover have "txn_prefix (open_txn s) ?p = ?rows" by (simp add: txn_prefix_def open_txn_def prefix_scan_eq [OF assms(2)])
    moreover have "driver_kv s1 = dt_table t" if "write_journal (s\<lparr>driver_kv := dt_table t\<rparr>) journal x y = Inr s1" for journal t s1 x y
      using that by (auto simp: write_journal_def rbind_eq_Inr split: if_splits)
    ultimately show ?thesis using that by metis
  qed
  have dist: "distinct (map fst ?rows)" using t_wf_distinct [OF assms(2)] by (simp add: distinct_map_filter)
  have mem: "(k, r) \<in> set ?rows \<longleftrightarrow> get_driver_value s k = Some r \<and> starts_with k ?p" for k r
    by (auto simp: get_driver_value_def t_get_iff [OF assms(2)])
  have rows: "t_wf (dt_table t) \<and> (\<forall>k r. (k, r) \<in> set ?rows \<longrightarrow> (\<exists>m. f (drop (length ?p) k) r = Inr m \<and> t_get (dt_table t) k = mutated r m))
    \<and> (\<forall>k. k \<notin> fst ` set ?rows \<longrightarrow> t_get (dt_table t) k = t_get (driver_kv s) k)
    \<and> length journal = length (filter (\<lambda>(k, r). f (drop (length ?p) k) r \<noteq> Inr KeepRecord) ?rows)"
    using mutate_each_rows [OF each _ dist] assms(2) mem by (auto simp: open_txn_def get_driver_value_def)
  show "t_wf (driver_kv s')" using rows kv by simp
  show "\<exists>m. f (drop (length ?p) k) r = Inr m \<and> get_driver_value s' k = mutated r m"
    if "get_driver_value s k = Some r" "starts_with k ?p" for k r
    using rows mem that kv by (auto simp: get_driver_value_def)
  show "get_driver_value s' k = get_driver_value s k" if "get_driver_value s k = None \<or> \<not> starts_with k ?p" for k
  proof -
    have "k \<notin> fst ` set ?rows" using that mem by fastforce
    with rows kv show ?thesis by (simp add: get_driver_value_def)
  qed
  show "touched = length (filter (\<lambda>(k, r). f (drop (length ?p) k) r \<noteq> Inr KeepRecord) ?rows)" using rows touched by simp
qed

lemma append_journal_total:
  "serial + length js \<le> u64_max \<Longrightarrow> \<exists>table'. append_journal js serial table = Inr (serial + length js, table')"
proof (induction js arbitrary: serial table)
  case (Cons j js)
  with Cons.IH [of "Suc serial" "t_insert table (Suc serial) j"] show ?case by (auto simp: add_u64_def checked_add_u64_def)
qed simp

lemma mutate_each_total:
  assumes "\<And>k r. (k, r) \<in> set rows \<Longrightarrow> \<exists>m. f (drop (length prefix) k) r = Inr m"
  shows "\<exists>journal' t'. mutate_each jc pj prefix n action at f rows journal t = Inr (journal', t') \<and> length journal' \<le> length journal + length rows"
  using assms
proof (induction rows arbitrary: journal t)
  case (Cons row rows)
  obtain k r where row: "row = (k, r)" by fastforce
  obtain m where m: "f (drop (length prefix) k) r = Inr m" using Cons.prems [of k r] by (auto simp: row)
  have IH: "\<exists>journal' t'. mutate_each jc pj prefix n action at f rows j t = Inr (journal', t') \<and> length journal' \<le> length j + length rows" for j t
    using Cons.prems by (intro Cons.IH) auto
  let ?e = "journal_bytes jc action n (journal_version pj (drop (length prefix) k) r) (Some (drop (length prefix) k)) at"
  show ?case
    using IH [of journal t] IH [of "journal @ [?e]"] m by (cases m) (fastforce simp: row Let_def)+
qed simp

lemma mutate_uploads_total:
  assumes "t_wf (driver_kv s)" "current_serial s + length (driver_kv s) \<le> u64_max"
    and "\<And>k r. get_driver_value s k = Some r \<Longrightarrow> starts_with k (uploads_prefix index n)
      \<Longrightarrow> \<exists>m. f (drop (length (uploads_prefix index n)) k) r = Inr m"
  shows "\<exists>touched s'. mutate_uploads conv jc pj s index n action at f = Inr (touched, s') \<and> current_serial s' = current_serial s + touched
    \<and> touched \<le> length (driver_kv s)"
proof -
  let ?p = "uploads_prefix index n" and ?rows = "filter (\<lambda>e. starts_with (fst e) (uploads_prefix index n)) (driver_kv s)"
  have "\<exists>m. f (drop (length ?p) k) r = Inr m" if "(k, r) \<in> set ?rows" for k r
    using that assms(3) by (auto simp: get_driver_value_def t_get_iff [OF assms(1)])
  from mutate_each_total [of ?rows f ?p jc pj n action at "[]" "open_txn s", OF this]
  obtain journal t where each: "mutate_each jc pj ?p n action at f ?rows [] (open_txn s) = Inr (journal, t)" and len: "length journal \<le> length ?rows"
    by auto
  have len': "length journal \<le> length (driver_kv s)" using len length_filter_le [of _ "driver_kv s"] order_trans by blast
  let ?s = "s\<lparr>driver_kv := dt_table t\<rparr>"
  have serial: "current_serial ?s = current_serial s" by (simp add: current_serial_def)
  obtain table' where "append_journal journal (current_serial ?s) (journal_table ?s) = Inr (current_serial s + length journal, table')"
    using append_journal_total [of "current_serial s" journal "journal_table ?s"] assms(2) len' serial by auto
  then obtain s' where "write_journal ?s journal (if journal = [] then [] else txn_mutations t) (if journal = [] then [] else dt_blobs t) = Inr s'"
    "current_serial s' = current_serial s + length journal"
    by (cases "journal = []") (auto simp: write_journal_def current_serial_def table_serial_def)
  with each len' show ?thesis
    by (auto simp: mutate_uploads_def commit_driver_txn_def commit_driver_txn_at_def mutate_body_def publish_catalog_def Let_def
        txn_prefix_def open_txn_def prefix_scan_eq [OF assms(1)])
qed

lemma mutate_each_Inl:
  assumes "\<And>k r. (k, r) \<in> set rows \<Longrightarrow> f (drop (length prefix) k) r \<in> {Inr KeepRecord, Inl e}"
    and "(k, r) \<in> set rows" "f (drop (length prefix) k) r = Inl e"
  shows "mutate_each jc pj prefix n action at f rows journal t = Inl e"
  using assms
proof (induction rows)
  case (Cons row rows)
  obtain k' r' where row: "row = (k', r')" by fastforce
  have "f (drop (length prefix) k') r' \<in> {Inr KeepRecord, Inl e}" using Cons.prems(1) row by simp
  then show ?case
  proof
    assume keep: "f (drop (length prefix) k') r' = Inr KeepRecord"
    with Cons.prems have "(k, r) \<in> set rows" using row by auto
    with Cons.prems have "mutate_each jc pj prefix n action at f rows journal t = Inl e" by (intro Cons.IH) auto
    with keep show ?thesis by (simp add: row Let_def)
  qed (simp add: row Let_def)
qed simp

lemma mutate_uploads_Inl:
  assumes "t_wf (driver_kv s)"
    and "\<And>k r. get_driver_value s k = Some r \<Longrightarrow> starts_with k (uploads_prefix index n)
      \<Longrightarrow> f (drop (length (uploads_prefix index n)) k) r \<in> {Inr KeepRecord, Inl e}"
    and "get_driver_value s k = Some r" "starts_with k (uploads_prefix index n)" "f (drop (length (uploads_prefix index n)) k) r = Inl e"
  shows "mutate_uploads conv jc pj s index n action at f = Inl e"
proof -
  let ?p = "uploads_prefix index n" and ?rows = "filter (\<lambda>e. starts_with (fst e) (uploads_prefix index n)) (driver_kv s)"
  have mem: "(k, r) \<in> set ?rows \<longleftrightarrow> get_driver_value s k = Some r \<and> starts_with k ?p" for k r
    by (auto simp: get_driver_value_def t_get_iff [OF assms(1)])
  have "mutate_each jc pj ?p n action at f ?rows [] (open_txn s) = Inl e"
    using assms(2-5) mem by (intro mutate_each_Inl [of _ _ _ _ k r]) blast+
  then show ?thesis
    by (simp add: mutate_uploads_def commit_driver_txn_def commit_driver_txn_at_def mutate_body_def txn_prefix_def open_txn_def
        prefix_scan_eq [OF assms(1)])
qed

lemma t_wf_card: "t_wf t \<Longrightarrow> length (filter P t) = card {k. \<exists>r. t_get t k = Some r \<and> P (k, r)}"
proof -
  assume wf: "t_wf t"
  have "distinct (map fst (filter P t))" using t_wf_distinct [OF wf] by (simp add: distinct_map_filter)
  then have "length (filter P t) = card (set (map fst (filter P t)))" by (metis distinct_card length_map)
  also have "set (map fst (filter P t)) = {k. \<exists>r. t_get t k = Some r \<and> P (k, r)}"
    by (force simp: t_get_iff [OF wf])
  finally show ?thesis .
qed

section \<open>Soft deletion and restore\<close>

text \<open>The files of the project were written by the program and none of those the version selects is in the trash.\<close>

definition restorable :: "'v formats \<Rightarrow> uploaded codec \<Rightarrow> string option \<Rightarrow> meta_store \<Rightarrow> string \<Rightarrow> string \<Rightarrow> bool" where
  "restorable fm uc version s name project \<longleftrightarrow> codec_ok uc \<and> t_wf (driver_kv s) \<and>
     (\<forall>k r. get_driver_value s k = Some r \<longrightarrow> starts_with k (uploads_prefix name project) \<longrightarrow>
        (\<exists>u. r = enc uc u \<and> (version_applies fm version u \<longrightarrow> up_trashed u = None)))"

definition trashed_by :: "trash_context \<Rightarrow> uploaded \<Rightarrow> uploaded" where
  "trashed_by trash u = u\<lparr>up_trashed := Some \<lparr>ti_deleted_at_unix = tc_deleted_at_unix trash, ti_actor = tc_actor trash, ti_reason = tc_reason trash\<rparr>\<rparr>"

lemma trashed_by_simps [simp]:
  "version_applies fm version (trashed_by trash u) = version_applies fm version u" "up_trashed (trashed_by trash u) \<noteq> None"
  "up_trashed u = None \<Longrightarrow> (trashed_by trash u)\<lparr>up_trashed := None\<rparr> = u"
  by (simp_all add: trashed_by_def version_applies_def)

lemma trash_one_row:
  assumes "codec_ok uc" "version_applies fm version u \<longrightarrow> up_trashed u = None"
  shows "trash_one fm uc vol version trash filename (enc uc u) = (if \<not> version_applies fm version u then Inr KeepRecord
    else if vol then Inr (ReplaceRecord (enc uc (trashed_by trash u))) else Inl NotVolatile :: 'u cache_error + _)"
  using assms by (simp add: trash_one_def codec_ok_def trashed_by_def)

lemma untrash_one_row:
  assumes "codec_ok uc"
  shows "untrash_one fm uc version filename (enc uc u) = (if up_trashed u \<noteq> None \<and> version_applies fm version u
    then Inr (ReplaceRecord (enc uc (u\<lparr>up_trashed := None\<rparr>))) else Inr KeepRecord :: 'u cache_error + _)"
  using assms by (auto simp: untrash_one_def codec_ok_def)

text \<open>The number of hosted files of the project that a version selects.\<close>

definition selected_rows :: "'v formats \<Rightarrow> uploaded codec \<Rightarrow> string option \<Rightarrow> meta_store \<Rightarrow> string \<Rightarrow> string \<Rightarrow> string set" where
  "selected_rows fm uc version s name project = {k. \<exists>u. get_driver_value s k = Some (enc uc u) \<and> starts_with k (uploads_prefix name project)
     \<and> version_applies fm version u}"

lemma codec_eq: "codec_ok uc \<Longrightarrow> enc uc u = enc uc v \<longleftrightarrow> u = v"
  by (metis codec_ok_def option.inject)

lemma restorable_row:
  assumes "restorable fm uc version s name project" "get_driver_value s k \<noteq> None" "starts_with k (uploads_prefix name project)"
  shows "\<exists>u. get_driver_value s k = Some (enc uc u) \<and> (version_applies fm version u \<longrightarrow> up_trashed u = None)"
  using assms by (auto simp: restorable_def)

lemma trash_uploads_rows:
  fixes env :: "('c, 'u, 'v) page_env"
  assumes ok: "restorable (ev_formats env) uc version s name project" and "trash_uploads env uc jc s name True project version trash = Inr (n, s1)"
  shows "t_wf (driver_kv s1)" "n = card (selected_rows (ev_formats env) uc version s name project)"
    and "get_driver_value s k = Some (enc uc u) \<Longrightarrow> starts_with k (uploads_prefix name project) \<Longrightarrow>
      get_driver_value s1 k = Some (enc uc (if version_applies (ev_formats env) version u then trashed_by trash u else u))"
    and "get_driver_value s k = None \<or> \<not> starts_with k (uploads_prefix name project) \<Longrightarrow> get_driver_value s1 k = get_driver_value s k"
proof -
  let ?fm = "ev_formats env" and ?p = "uploads_prefix name project"
  have c: "codec_ok uc" and wf: "t_wf (driver_kv s)" using ok by (simp_all add: restorable_def)
  have row: "\<exists>u. r = enc uc u \<and> (version_applies ?fm version u \<longrightarrow> up_trashed u = None)"
    if "get_driver_value s k = Some r" "starts_with k ?p" for k r using ok that by (simp add: restorable_def)
  note rows = mutate_uploads_rows [OF assms(2) [unfolded trash_uploads_def] wf]
  have one: "trash_one ?fm uc True version trash f (enc uc u) = (if version_applies ?fm version u
      then Inr (ReplaceRecord (enc uc (trashed_by trash u))) else Inr KeepRecord :: 'u cache_error + _)"
    if "get_driver_value s k = Some (enc uc u)" "starts_with k ?p" for k u f
    using row [OF that] trash_one_row [OF c, of ?fm version u True trash f] codec_eq [OF c] by auto
  show "t_wf (driver_kv s1)" by (rule rows(1))
  show "get_driver_value s1 k = Some (enc uc (if version_applies ?fm version u then trashed_by trash u else u))"
    if "get_driver_value s k = Some (enc uc u)" "starts_with k ?p"
    using rows(2) [OF that] one [OF that] by (auto simp: mutated_def split: if_splits)
  show "get_driver_value s1 k = get_driver_value s k" if "get_driver_value s k = None \<or> \<not> starts_with k ?p" by (rule rows(3) [OF that])
  have "{k. \<exists>r. get_driver_value s k = Some r \<and> starts_with k ?p \<and> trash_one ?fm uc True version trash (drop (length ?p) k) r \<noteq> (Inr KeepRecord :: 'u cache_error + _)}
      = selected_rows ?fm uc version s name project"
    unfolding selected_rows_def using row one by (fastforce split: if_splits)
  then show "n = card (selected_rows ?fm uc version s name project)"
    using rows(4) by (simp add: t_wf_card [OF wf] get_driver_value_def filter_filter flip: get_driver_value_def)
qed

lemma restore_rows:
  fixes env :: "('c, 'u, 'v) page_env"
  assumes ok: "restorable (ev_formats env) uc version s name project" and trash: "trash_uploads env uc jc s name True project version trash = Inr (n, s1)"
    and restore: "untrash_uploads env uc jc s1 name project version at = Inr (m, s2)"
  shows "driver_kv s2 = driver_kv s" "m = n"
proof -
  let ?fm = "ev_formats env" and ?p = "uploads_prefix name project"
  have c: "codec_ok uc" and wf: "t_wf (driver_kv s)" using ok by (simp_all add: restorable_def)
  have row: "\<exists>u. r = enc uc u \<and> (version_applies ?fm version u \<longrightarrow> up_trashed u = None)"
    if "get_driver_value s k = Some r" "starts_with k ?p" for k r using ok that by (simp add: restorable_def)
  note rows1 = trash_uploads_rows [OF ok trash]
  note rows2 = mutate_uploads_rows [OF restore [unfolded untrash_uploads_def] rows1(1)]
  let ?sel = "\<lambda>u. version_applies ?fm version u"
  have one: "untrash_one ?fm uc version f (enc uc (if ?sel u then trashed_by trash u else u)) = (if ?sel u then Inr (ReplaceRecord (enc uc u)) else Inr KeepRecord :: 'u cache_error + _)"
    if "?sel u \<longrightarrow> up_trashed u = None" for u f
    using untrash_one_row [OF c, where 'u = 'u, of ?fm version f "if ?sel u then trashed_by trash u else u"] that by auto
  have "get_driver_value s2 k = get_driver_value s k" for k
  proof (cases "get_driver_value s k = None \<or> \<not> starts_with k ?p")
    case True
    then show ?thesis using rows2(3) [of k] rows1(4) [of k] by auto
  next
    case False
    then obtain u where u: "get_driver_value s k = Some (enc uc u)" "starts_with k ?p" "?sel u \<longrightarrow> up_trashed u = None"
      using restorable_row [OF ok] by blast
    show ?thesis using rows2(2) [OF rows1(3) [OF u(1,2)] u(2)] one [OF u(3)] u(1) by (auto simp: mutated_def split: if_splits)
  qed
  then show "driver_kv s2 = driver_kv s" using t_wf_ext [OF rows2(1) wf] by (simp add: get_driver_value_def)
  have "{k. \<exists>r. get_driver_value s1 k = Some r \<and> starts_with k ?p \<and> untrash_one ?fm uc version (drop (length ?p) k) r \<noteq> (Inr KeepRecord :: 'u cache_error + _)}
      = selected_rows ?fm uc version s name project" (is "?A = ?B")
  proof (intro set_eqI iffI)
    fix k assume "k \<in> ?A"
    then obtain r where r: "get_driver_value s1 k = Some r" "starts_with k ?p" "untrash_one ?fm uc version (drop (length ?p) k) r \<noteq> (Inr KeepRecord :: 'u cache_error + _)" by auto
    then have "get_driver_value s k \<noteq> None" using rows1(4) [of k] by auto
    then obtain u where u: "get_driver_value s k = Some (enc uc u)" "?sel u \<longrightarrow> up_trashed u = None" using restorable_row [OF ok _ r(2)] by blast
    with r rows1(3) [OF u(1) r(2)] one [OF u(2)] show "k \<in> ?B" by (auto simp: selected_rows_def split: if_splits)
  next
    fix k assume "k \<in> ?B"
    then obtain u where u: "get_driver_value s k = Some (enc uc u)" "starts_with k ?p" "?sel u" by (auto simp: selected_rows_def)
    then have "up_trashed u = None" using row [OF u(1,2)] codec_eq [OF c] by auto
    with u rows1(3) [OF u(1,2)] one [of u] show "k \<in> ?A" by auto
  qed
  then show "m = n"
    using rows2(4) rows1(2) by (simp add: t_wf_card [OF rows1(1)] get_driver_value_def filter_filter flip: get_driver_value_def)
qed

lemma entries_row:
  assumes "(f, raw) \<in> set (list_upload_entries s name project)"
  shows "\<exists>k. get_driver_value s k = Some raw \<and> starts_with k (uploads_prefix name project)"
proof -
  let ?p = "uploads_prefix name project"
  obtain k where "(case (strip_prefix ?p k, get_driver_value s k) of (Some filename, Some r) \<Rightarrow> Some (filename, r) | _ \<Rightarrow> None) = Some (f, raw)"
    using assms unfolding list_upload_entries_def Let_def List.map_filter_def by force
  then show ?thesis by (intro exI [of _ k]) (auto simp: starts_with_iff strip_prefix_Some split: option.splits)
qed

lemma live_uploads_entries:
  assumes "\<And>f raw. (f, raw) \<in> set entries \<Longrightarrow> \<exists>u. dec uc raw = Some u \<and> (up_trashed u = None \<longrightarrow> P u)"
  shows "\<exists>us. live_uploads uc entries = Some us \<and> (\<forall>u \<in> set us. P u)"
  using assms
proof (induction entries)
  case (Cons e entries)
  obtain f raw where e: "e = (f, raw)" by fastforce
  obtain us where "live_uploads uc entries = Some us" "\<forall>u \<in> set us. P u" using Cons by auto
  moreover obtain u where "dec uc raw = Some u" "up_trashed u = None \<longrightarrow> P u" using Cons.prems [of f raw] by (auto simp: e)
  ultimately show ?case by (auto simp: e)
qed simp


instance yanked :: countable
  by countable_datatype

instance core_metadata :: countable
  by countable_datatype

instance provenance :: countable
  by countable_datatype

definition upload_tuple where
  "upload_tuple u = (let f = up_file u in (up_version u, fl_filename f, fl_url f, fl_hashes f, fl_requires_python f, fl_size f, fl_upload_time f, fl_yanked f,
     fl_core_metadata f, fl_dist_info_metadata f, fl_gpg_sig f, fl_provenance f,
     map_option (\<lambda>t. (ti_deleted_at_unix t, ti_actor t, ti_reason t)) (up_trashed u)))"

definition tuple_upload where
  "tuple_upload = (\<lambda>(v, name, url, h, py, sz, tm, y, cm, di, sig, pv, t). \<lparr>up_version = v,
     up_file = \<lparr>fl_filename = name, fl_url = url, fl_hashes = h, fl_requires_python = py, fl_size = sz, fl_upload_time = tm, fl_yanked = y,
       fl_core_metadata = cm, fl_dist_info_metadata = di, fl_gpg_sig = sig, fl_provenance = pv\<rparr>,
     up_trashed = map_option (\<lambda>(at, actor, reason). \<lparr>ti_deleted_at_unix = at, ti_actor = actor, ti_reason = reason\<rparr>) t\<rparr>)"

definition unary_uploads :: "uploaded codec" where
  "unary_uploads = unary_codec (\<lambda>u. to_nat (upload_tuple u)) (\<lambda>n. tuple_upload (from_nat n))"

lemma unary_uploads_ok: "codec_ok unary_uploads"
proof -
  have "tuple_upload (upload_tuple u) = u" for u
    by (cases "up_trashed u") (simp_all add: tuple_upload_def upload_tuple_def Let_def)
  then show ?thesis by (simp add: codec_ok_def unary_uploads_def unary_codec_def)
qed

definition sample_upload :: uploaded where
  "sample_upload = \<lparr>up_version = ''2.0'', up_file = sample_file\<lparr>fl_filename := ''a-2.0-py3-none-any.whl''\<rparr>, up_trashed = None\<rparr>"

definition upload_store :: meta_store where
  "upload_store = open_new\<lparr>driver_kv := [(upload_key ''h'' ''a'' ''a-2.0-py3-none-any.whl'', enc unary_uploads sample_upload)]\<rparr>"


end
