(* ===== verification/Spec2Isabelle.thy ===== *)
theory Spec2Isabelle
  imports Prelude Strs Roles Acl PolicyEngine Routing QuotaProps Journal Jobs Webhooks Accounts PolicyDecisions Writer ReplicaSafety Envelope
    Access HttpSemantics RateLimit Downloads JobScheduler PathSafety UpstreamRoute OciRegistry PypiMutate
begin

text \<open>
  Verification of peryx, a package registry server for PyPI and OCI: it serves hosted indexes, caches upstream ones and
  composes them into virtual ones, over one metadata database and one content-addressed blob store.  The theories are
  shallow embeddings of the Rust crates under \<open>src/crates\<close>: a struct is a \<open>record\<close>, an enum a \<open>datatype\<close>, a function or
  method a definition of the same name where it does not clash, composed as in the code.

  \<^bold>\<open>Conventions\<close> (\<open>Prelude\<close>, \<open>Strs\<close>, \<open>Json\<close>).  A \<open>Result\<close> is a sum with the error on the left and \<open>rbind\<close> for the question mark;
  an operation on the database returns the new one with its result, and an error leaves the caller's as it was.  A panic is
  a value of its own (\<open>None\<close>, \<open>Panicked\<close>, \<open>DecisionPanic\<close>).  \<open>u64\<close> counters are naturals with the checked, saturating and panicking
  arithmetic of the source written out, \<open>i64\<close> values are integers, bit masks are words.  A table of redb is an
  association list in key order; its laws are the locale \<open>keyed_table\<close>, interpreted as \<open>sorted_table\<close>.  Strings are their UTF-8 bytes.
  Code outside the repository is an argument: SHA-256, serde_json on texts (\<open>json_parser\<close>, \<open>codec\<close>), PEP 440 and RFC 3339
  parsing and Unicode lower case (\<open>formats\<close>, \<open>lower\<close>), the HTTP client and URL parser (\<open>http_lib\<close>, \<open>page_env\<close>, \<open>sync_env\<close>), password hashing, token
  verification, clocks and random identifiers.  What is relied on of them are named hypotheses (\<open>codec_ok\<close>, \<open>page_codec_ok\<close>, \<open>lower_ok\<close>),
  and every theorem with hypotheses has a witness at concrete values.

  \<^bold>\<open>Identity and policy.\<close>  \<open>Roles\<close> (\<open>peryx-identity/src/roles.rs\<close>), \<open>Acl\<close> (\<open>acl.rs\<close>, \<open>lib.rs\<close>: the backtracking glob matcher decides the declarative glob
  language, a write needs a live secret), \<open>Users\<close> and \<open>Accounts\<close> (\<open>user.rs\<close>, the stores of users and role grants and the
  services of \<open>peryx-driver\<close>: histories replay, authentication and authorization are exact), \<open>Access\<close> (the patterns given to the search admit
  exactly the readable projects), \<open>PolicyEngine\<close> (\<open>peryx-policy\<close>), \<open>PolicyDecisions\<close> (the bounded audit history with its cursor
  pages and current decisions).

  \<^bold>\<open>Metadata database\<close> (\<open>peryx-storage/src/meta\<close>).  \<open>MetaStore\<close> holds the tables; \<open>Driver\<close> and \<open>Journal\<close> the rows of the ecosystem drivers, their
  transactions and the journal (replay rebuilds the rows, pages are contiguous); \<open>Quota\<close>, \<open>QuotaInv\<close> and \<open>QuotaProps\<close> the quota ledger, whose counters
  are the sums of the reservations and never pass the limits (the locale \<open>ledger_kind\<close> states the bookkeeping once, for blobs,
  projects and versions); \<open>Sequences\<close> the printed identifiers (locale \<open>id_sequence\<close>, three interpretations), \<open>Jobs\<close>, \<open>Webhooks\<close>, \<open>Writer\<close> the
  remaining tables.

  \<^bold>\<open>Blobs and replication.\<close>  \<open>Blobs\<close> is the filesystem store of \<open>peryx-storage/src/blob\<close>.  \<open>Replication\<close> and \<open>ReplicaSafety\<close> (\<open>peryx-replication\<close>) model the endpoints
  of a primary and the follower: a follower of an honest primary converges, and one of an arbitrary peer stays sound.
  \<open>Envelope\<close> decodes untrusted bytes behind a nesting bound.

  \<^bold>\<open>Server.\<close>  \<open>Routing\<close> (\<open>peryx-index\<close>), \<open>HttpSemantics\<close>, \<open>PathSafety\<close> (\<open>peryx-core\<close>), \<open>RateLimit\<close>, \<open>Downloads\<close>, \<open>JobScheduler\<close> (\<open>peryx-driver\<close>; the locale \<open>permit_pool\<close> is
  interpreted on the semaphore and on the keyed limiter), \<open>Upstream\<close> and \<open>UpstreamRoute\<close> (\<open>peryx-upstream\<close>: credentials stay at their origin).
  \<open>RateLimit\<close>, \<open>Downloads\<close> and \<open>JobScheduler\<close> are transition systems on the state that tasks share, so their invariants hold in every interleaving.

  \<^bold>\<open>OCI driver\<close> (\<open>peryx-ecosystem-oci\<close>).  \<open>OciNames\<close> classifies request paths, \<open>OciStore\<close> lays manifests, tags, memberships and referrers into driver
  rows, \<open>OciRegistry\<close> has the upload sessions, the membership cache, manifest push and deletion.

  \<^bold>\<open>PyPI driver\<close> (\<open>peryx-ecosystem-pypi\<close>).  \<open>PypiNames\<close>, \<open>PypiFile\<close> and \<open>PypiSimple\<close> are the formats; \<open>PypiStore\<close> the rows and the codecs of cached pages,
  files, uploads and overrides; \<open>PypiPolicy\<close> the artifact rules.  \<open>PypiGenerations\<close> models the staged publication of a project's
  files and of a catalog on histories of committed stores; what the protocol promises is the locale \<open>staged_publication\<close>, interpreted for
  both in \<open>PypiPublish\<close>, and its extension \<open>batched_publication\<close> in \<open>PypiBatches\<close>; \<open>PypiSync\<close> uses it to show that synchronizing a project is
  atomic for readers.  \<open>PypiCache\<close> is the page cache with its freshness and stale bounds, \<open>PypiResolve\<close> composes the pages of cached, hosted and virtual
  indexes: where an index is closed to upstream for a project, only live uploads of its hosted members are served.

  \<^bold>\<open>Bounds and fuel.\<close>  Two groups of recursions take fuel.  The resolution of virtual indexes (\<open>resolve_detail_page_with\<close>,
  \<open>collect_projects\<close>, \<open>stored_project_status\<close>) recurses through
  the configured layers; \<open>resolve_answers\<close> shows that any fuel above the rank of an index suffices and does not matter beyond it,
  and \<open>self_layer_never_answers\<close> that a cyclic configuration has no answer.  The rounds of a follower in \<open>replica_converges\<close> and the pages in
  \<open>policy_pages_complete\<close> are counted, with a bound that is enough.  Every other loop is a total function.  Row scans are cut at
  \<open>u64_max\<close> as in the code.

  \<^bold>\<open>Not modelled.\<close>  The web interface (\<open>peryx-web\<close>), the router and request glue (\<open>peryx-http\<close>, \<open>peryx\<close>), benchmarks and generated API documents
  have no state of their own; events and metrics are counters; OpenID Connect and token signing are cryptographic
  libraries behind arguments; the S3 backend, blob leases and the asynchronous pool are external services and
  operating system behaviour; the search engine is a library.  Of the PyPI driver the streaming rewrite of pages, archive
  reading, upload validation, HTML and legacy JSON rendering and the catalog download are left out, of the OCI driver the
  read path, discovery and mirroring.  Failures of redb itself, of the disk and of memory are not produced by the model.
\<close>

end
